(* ===== verification/Prelude.thy ===== *)
theory Prelude
  imports Complex_Main "HOL-Library.Word"
begin

text \<open>
  Shared vocabulary of the development.

  \<^item> The error values of the backend: the sentinel variables of
    \<^verbatim>\<open>pkg/apperrors\<close>, \<^verbatim>\<open>pkg/money\<close>, \<^verbatim>\<open>internal/domain/circle/errors.go\<close> and of the
    governance and indexer packages, and the two ways Go code derives new errors from
    them (\<^verbatim>\<open>fmt.Errorf\<close> with and without \<^verbatim>\<open>%w\<close>).
  \<^item> The calling convention of the services: a Go method that returns
    \<^verbatim>\<open>(T, error)\<close> and may change the database is a function from the world to
    \<open>(error + 'a) \<times> 'w\<close>; \<open>attempt\<close>, \<open>guard\<close> and \<open>perform\<close> are the three
    early-return idioms of the source.
  \<^item> Everything the code obtains from outside the repository (the identifiers drawn by
    \<^verbatim>\<open>uuid.New\<close>, the parser \<^verbatim>\<open>uuid.Parse\<close>, the clock, the failures of the SQL driver)
    is a field of the record \<open>env\<close>, so every operation is a function of it.
\<close>

named_theorems svc \<open>inversion rules for the early-return combinators\<close>
named_theorems repo \<open>unfoldings of the repository operations\<close>

section \<open>Basic types\<close>

text \<open>
  A UUID is sixteen bytes. Points in time and durations are counted in nanoseconds, the
  resolution of \<^verbatim>\<open>time.Time\<close> and \<^verbatim>\<open>time.Duration\<close>.
\<close>

type_synonym uuid = "128 word"
type_synonym time = int
type_synonym duration = int
type_synonym int64 = "64 word"

text \<open>Division of integers in Go truncates toward zero.\<close>

definition quo :: "int \<Rightarrow> int \<Rightarrow> int" where
  "quo a b = sgn a * sgn b * (\<bar>a\<bar> div \<bar>b\<bar>)"

definition with_default :: "'a option \<Rightarrow> 'a \<Rightarrow> 'a" where
  "with_default x v = (case x of None \<Rightarrow> v | Some y \<Rightarrow> y)"

abbreviation second :: duration where "second \<equiv> 1000000000"

section \<open>Errors\<close>

datatype sentinel =
    \<comment> \<open>pkg/apperrors\<close>
    App_ErrNotFound | App_ErrForbidden | App_ErrInvalidInput | App_ErrConflict
  | App_ErrLateContributionRejected | App_ErrCircleEnded
    \<comment> \<open>internal/domain/circle\<close>
  | ErrCircleNotFound | ErrNotOrganizer | ErrCircleNotActive | ErrCircleFull | ErrAlreadyMember
  | ErrNotMember | ErrInvalidInvite | ErrParticipantLimit | ErrNotCommunityMember | ErrInvalidUUID
    \<comment> \<open>pkg/money\<close>
  | ErrOverflow | ErrInvalidAmount | ErrDivideByZero
    \<comment> \<open>internal/domain/governance\<close>
  | ErrProposalNotFound | ErrAlreadyVoted | ErrTimelockActive | ErrNotCancellable
  | ErrAlreadyCancelledVote
    \<comment> \<open>internal/domain/user\<close>
  | ErrUserNotFound | User_ErrInvalidUUID | ErrUserNotDeleted
    \<comment> \<open>internal/indexer and database/sql\<close>
  | ErrReorgTooDeep | ErrCursorMissing | ErrNoDatabase | Sql_ErrNoRows

fun sentinel_text :: "sentinel \<Rightarrow> string" where
  "sentinel_text App_ErrNotFound = ''resource not found''"
| "sentinel_text App_ErrForbidden = ''forbidden''"
| "sentinel_text App_ErrInvalidInput = ''invalid input''"
| "sentinel_text App_ErrConflict = ''resource already exists''"
| "sentinel_text App_ErrLateContributionRejected =
     ''contributions rejected: payout scheduling has already begun for this round''"
| "sentinel_text App_ErrCircleEnded = ''contributions rejected: circle has ended''"
| "sentinel_text ErrCircleNotFound = ''circle not found''"
| "sentinel_text ErrNotOrganizer = ''only the organizer can perform this action''"
| "sentinel_text ErrCircleNotActive = ''circle is not active''"
| "sentinel_text ErrCircleFull = ''circle is full''"
| "sentinel_text ErrAlreadyMember = ''already a member of this circle''"
| "sentinel_text ErrNotMember = ''not a member of this circle''"
| "sentinel_text ErrInvalidInvite = ''invalid or expired invite code''"
| "sentinel_text ErrParticipantLimit = ''circle must have at least 2 members''"
| "sentinel_text ErrNotCommunityMember = ''user is not a member of this community''"
| "sentinel_text ErrInvalidUUID = ''invalid UUID format''"
| "sentinel_text ErrOverflow = ''money: arithmetic overflow''"
| "sentinel_text ErrInvalidAmount = ''money: invalid amount''"
| "sentinel_text ErrDivideByZero = ''money: divide by zero''"
| "sentinel_text ErrProposalNotFound = ''proposal not found''"
| "sentinel_text ErrAlreadyVoted = ''user already voted on this proposal''"
| "sentinel_text ErrTimelockActive =
     ''proposal is inside its execution timelock and cannot be executed yet''"
| "sentinel_text ErrNotCancellable = ''proposal is not in a cancellable state''"
| "sentinel_text ErrAlreadyCancelledVote = ''user already voted to cancel this proposal''"
| "sentinel_text ErrUserNotFound = ''user not found''"
| "sentinel_text User_ErrInvalidUUID = ''invalid user ID format''"
| "sentinel_text ErrUserNotDeleted = ''user is not deleted''"
| "sentinel_text ErrReorgTooDeep = ''reorg deeper than the configured window''"
| "sentinel_text ErrCursorMissing = ''indexer cursor row is missing''"
| "sentinel_text ErrNoDatabase = ''indexer: no database handle''"
| "sentinel_text Sql_ErrNoRows = ''sql: no rows in result set''"

text \<open>
  \<open>Sentinel s\<close> is the package variable \<open>s\<close>; \<open>Errorf m\<close> a fresh error without a cause;
  \<open>Wrap m e\<close> is \<^verbatim>\<open>fmt.Errorf("m: %w", e)\<close>; \<open>Detail e m\<close> is \<^verbatim>\<open>fmt.Errorf("%w: m", e)\<close>;
  \<open>Driver m\<close> is an error value produced by a library (driver, HTTP client, parser).
  Equality of errors (\<^verbatim>\<open>err == X\<close>) compares the value itself, \<^verbatim>\<open>errors.Is\<close> follows the
  wrapped causes.
\<close>

datatype error =
    Sentinel sentinel
  | Errorf string
  | Wrap string error
  | Detail error string
  | Driver string

fun error_text :: "error \<Rightarrow> string" where
  "error_text (Sentinel s) = sentinel_text s"
| "error_text (Errorf m) = m"
| "error_text (Wrap m e) = m @ '': '' @ error_text e"
| "error_text (Detail e m) = error_text e @ '': '' @ m"
| "error_text (Driver m) = m"

fun errors_Is :: "error \<Rightarrow> sentinel \<Rightarrow> bool" where
  "errors_Is (Sentinel s) t = (s = t)"
| "errors_Is (Errorf m) t = False"
| "errors_Is (Wrap m e) t = errors_Is e t"
| "errors_Is (Detail e m) t = errors_Is e t"
| "errors_Is (Driver m) t = False"

type_synonym 'a result = "error + 'a"

fun is_ok :: "'a result \<Rightarrow> bool" where
  "is_ok (Inl e) = False"
| "is_ok (Inr x) = True"

definition wrap_err :: "string \<Rightarrow> 'a result \<Rightarrow> 'a result" where
  "wrap_err m r = (case r of Inl e \<Rightarrow> Inl (Wrap m e) | Inr x \<Rightarrow> Inr x)"

lemma wrap_err_simps [simp]:
  "wrap_err m (Inl e) = Inl (Wrap m e)"
  "wrap_err m (Inr x) = Inr x"
  by (simp_all add: wrap_err_def)

lemma wrap_err_Inr [svc, simp]: "wrap_err m r = Inr x \<longleftrightarrow> r = Inr x"
  by (cases r) simp_all

section \<open>Early returns\<close>

text \<open>
  \<^item> \<open>attempt r w k\<close>: \<^verbatim>\<open>x, err := r; if err != nil { return err }; k\<close>, for a call that
    does not change the world;
  \<^item> \<open>guard b e w k\<close>: \<^verbatim>\<open>if b { return e }; k\<close>;
  \<^item> \<open>perform c k\<close>: the same as \<open>attempt\<close> for a call that changes the world.
\<close>

definition attempt :: "'a result \<Rightarrow> 'w \<Rightarrow> ('a \<Rightarrow> 'b result \<times> 'w) \<Rightarrow> 'b result \<times> 'w" where
  "attempt r w k = (case r of Inl e \<Rightarrow> (Inl e, w) | Inr x \<Rightarrow> k x)"

definition guard :: "bool \<Rightarrow> error \<Rightarrow> 'w \<Rightarrow> 'b result \<times> 'w \<Rightarrow> 'b result \<times> 'w" where
  "guard b e w k = (if b then (Inl e, w) else k)"

definition perform :: "'a result \<times> 'w \<Rightarrow> ('a \<Rightarrow> 'w \<Rightarrow> 'b result \<times> 'w) \<Rightarrow> 'b result \<times> 'w" where
  "perform c k = (case c of (Inl e, w) \<Rightarrow> (Inl e, w) | (Inr x, w) \<Rightarrow> k x w)"

text \<open>\<open>wrap_call m c\<close> decorates the error of a call that changes the world.\<close>

definition wrap_call :: "string \<Rightarrow> 'a result \<times> 'w \<Rightarrow> 'a result \<times> 'w" where
  "wrap_call m c = (wrap_err m (fst c), snd c)"

lemma attempt_simps [simp]:
  "attempt (Inl e) w k = (Inl e, w)"
  "attempt (Inr x) w k = k x"
  by (simp_all add: attempt_def)

lemma guard_simps [simp]:
  "guard True e w k = (Inl e, w)"
  "guard False e w k = k"
  by (simp_all add: guard_def)

lemma perform_simps [simp]:
  "perform (Inl e, w) k = (Inl e, w)"
  "perform (Inr x, w) k = k x w"
  by (simp_all add: perform_def)

lemma wrap_call_simps [simp]:
  "wrap_call m (Inl e, w) = (Inl (Wrap m e), w)"
  "wrap_call m (Inr x, w) = (Inr x, w)"
  by (simp_all add: wrap_call_def)

text \<open>
  Inversion: a call that returned a value went past every early return. These rules turn
  "the operation succeeded" into the conjunction of its guards.
\<close>

lemma attempt_Inr [svc]: "attempt r w k = (Inr y, w') \<longleftrightarrow> (\<exists>x. r = Inr x \<and> k x = (Inr y, w'))"
  by (cases r) simp_all

lemma guard_Inr [svc]: "guard b e w k = (Inr y, w') \<longleftrightarrow> \<not> b \<and> k = (Inr y, w')"
  by (simp add: guard_def)

lemma perform_Inr [svc]:
  "perform c k = (Inr y, w') \<longleftrightarrow> (\<exists>x v. c = (Inr x, v) \<and> k x v = (Inr y, w'))"
  by (cases c; cases "fst c") auto

lemma wrap_call_Inr [svc]: "wrap_call m c = (Inr y, w') \<longleftrightarrow> c = (Inr y, w')"
  by (cases c; cases "fst c") auto

text \<open>
  The frame rules: a property of the world that every part keeps is kept by the
  combinators. They decompose an operation into its calls, on the error paths too.
\<close>

lemma attempt_frame: "P w \<Longrightarrow> (\<And>x. r = Inr x \<Longrightarrow> P (snd (k x))) \<Longrightarrow> P (snd (attempt r w k))"
  by (cases r) simp_all

lemma guard_frame: "P w \<Longrightarrow> (\<not> b \<Longrightarrow> P (snd k)) \<Longrightarrow> P (snd (guard b e w k))"
  by (simp add: guard_def)

lemma perform_frame:
  "P (snd c) \<Longrightarrow> (\<And>x v. c = (Inr x, v) \<Longrightarrow> P v \<Longrightarrow> P (snd (k x v))) \<Longrightarrow> P (snd (perform c k))"
  by (cases c; cases "fst c") auto

lemma snd_wrap_call [simp]: "snd (wrap_call m c) = snd c"
  by (simp add: wrap_call_def)

lemmas svc_frame = attempt_frame guard_frame perform_frame

section \<open>The environment of a call\<close>

text \<open>
  What the code reads from outside the repository. \<open>fault q\<close> is the error the SQL driver
  returns for the statement \<open>q\<close> (\<open>None\<close>: the statement runs and has its effect), be it that the
  connection failed or that the database refuses the statement as such, for an unknown column or a value outside an
  enumeration; which statements the migrations of the repository make PostgreSQL refuse is the subject of \<open>Schema\<close>. The
  clock is read once per call; \<open>uuid_New\<close> numbers the identifiers a call draws.
\<close>

record 'q env =
  uuid_Parse :: "string \<Rightarrow> uuid option"
  uuid_String :: "uuid \<Rightarrow> string"
  uuid_New :: "nat \<Rightarrow> uuid"
  now :: time
  fault :: "'q \<Rightarrow> error option"

definition run_query :: "('q, 'z) env_scheme \<Rightarrow> 'q \<Rightarrow> 'a \<Rightarrow> 'a result" where
  "run_query env q x = (case fault env q of Some e \<Rightarrow> Inl e | None \<Rightarrow> Inr x)"

lemma run_query_simps [simp]:
  "fault env q = None \<Longrightarrow> run_query env q x = Inr x"
  "fault env q = Some e \<Longrightarrow> run_query env q x = Inl e"
  by (simp_all add: run_query_def)

lemma run_query_Inr [svc]: "run_query env q x = Inr y \<longleftrightarrow> fault env q = None \<and> x = y"
  by (auto simp: run_query_def split: option.splits)

text \<open>
  A statement that changes the database: the driver may fail (\<open>fault\<close>), the database may
  reject it (\<open>chk\<close>: the violated constraint), or it takes effect.
\<close>

definition exec_stmt :: "('q, 'z) env_scheme \<Rightarrow> 'q \<Rightarrow> ('w \<Rightarrow> error option) \<Rightarrow> ('w \<Rightarrow> 'w) \<Rightarrow> 'w
    \<Rightarrow> unit result \<times> 'w" where
  "exec_stmt env q chk f w =
     (case fault env q of
        Some e \<Rightarrow> (Inl e, w)
      | None \<Rightarrow> (case chk w of Some e \<Rightarrow> (Inl e, w) | None \<Rightarrow> (Inr (), f w)))"

lemma exec_stmt_Inr [svc]:
  "exec_stmt env q chk f w = (Inr y, w') \<longleftrightarrow> fault env q = None \<and> chk w = None \<and> w' = f w"
  by (auto simp: exec_stmt_def split: option.splits)

lemma exec_stmt_ok [simp]: "fault env q = None \<Longrightarrow> chk w = None \<Longrightarrow> exec_stmt env q chk f w = (Inr (), f w)"
  by (simp add: exec_stmt_def)

lemma exec_stmt_frame: "P w \<Longrightarrow> (chk w = None \<Longrightarrow> P (f w)) \<Longrightarrow> P (snd (exec_stmt env q chk f w))"
  by (auto simp: exec_stmt_def split: option.splits)

abbreviation no_check :: "'w \<Rightarrow> error option" where "no_check \<equiv> (\<lambda>w. None)"

text \<open>
  A transaction: the body runs on the current state; its changes are kept when it succeeds
  and \<^verbatim>\<open>Commit\<close> does, and undone by the deferred \<^verbatim>\<open>Rollback\<close> otherwise.
\<close>

definition transaction :: "('q, 'z) env_scheme \<Rightarrow> 'q \<Rightarrow> ('w \<Rightarrow> 'a result \<times> 'w) \<Rightarrow> 'w \<Rightarrow> 'a result \<times> 'w" where
  "transaction env commit body w =
     (case body w of
        (Inl e, w') \<Rightarrow> (Inl e, w)
      | (Inr x, w') \<Rightarrow> (case fault env commit of Some e \<Rightarrow> (Inl e, w) | None \<Rightarrow> (Inr x, w')))"

lemma transaction_Inr [svc]:
  "transaction env c body w = (Inr y, w') \<longleftrightarrow> body w = (Inr y, w') \<and> fault env c = None"
  by (auto simp: transaction_def split: prod.splits sum.splits option.splits)

lemma transaction_Inl: "fst (transaction env c body w) = Inl e \<Longrightarrow> snd (transaction env c body w) = w"
  by (auto simp: transaction_def split: prod.splits sum.splits option.splits)

lemma transaction_frame:
  "P w \<Longrightarrow> (\<And>y v. body w = (Inr y, v) \<Longrightarrow> P v) \<Longrightarrow> P (snd (transaction env c body w))"
  by (auto simp: transaction_def split: prod.splits sum.splits option.splits)

section \<open>Lists as tables\<close>

text \<open>
  A table is the list of its rows in insertion order. \<open>update_where p f\<close> is
  \<^verbatim>\<open>UPDATE ... SET f WHERE p\<close>; its row count is the number of rows \<open>p\<close> selects.
\<close>

definition update_where :: "('r \<Rightarrow> bool) \<Rightarrow> ('r \<Rightarrow> 'r) \<Rightarrow> 'r list \<Rightarrow> 'r list" where
  "update_where p f rows = map (\<lambda>r. if p r then f r else r) rows"

definition rows_affected :: "('r \<Rightarrow> bool) \<Rightarrow> 'r list \<Rightarrow> nat" where
  "rows_affected p rows = length (filter p rows)"

lemma length_update_where [simp]: "length (update_where p f rows) = length rows"
  by (simp add: update_where_def)

lemma set_update_where: "r \<in> set (update_where p f rows) \<Longrightarrow>
    (\<exists>r0 \<in> set rows. r = (if p r0 then f r0 else r0))"
  by (auto simp: update_where_def)

lemma update_where_Nil [simp]: "update_where p f [] = []"
  by (simp add: update_where_def)

lemma update_where_Cons [simp]:
  "update_where p f (r # rows) = (if p r then f r else r) # update_where p f rows"
  by (simp add: update_where_def)

lemma map_update_where: "(\<And>r. p r \<Longrightarrow> g (f r) = g r) \<Longrightarrow> map g (update_where p f rows) = map g rows"
  by (induction rows) simp_all

lemma filter_update_where_other:
  "(\<And>r. p r \<Longrightarrow> \<not> q r) \<Longrightarrow> (\<And>r. p r \<Longrightarrow> \<not> q (f r)) \<Longrightarrow>
     filter q (update_where p f rows) = filter q rows"
  by (induction rows) auto

lemma rows_affected_0 [simp]: "rows_affected p rows = 0 \<longleftrightarrow> (\<forall>r \<in> set rows. \<not> p r)"
  by (auto simp: rows_affected_def filter_empty_conv)

lemma find_map_key:
  "(\<And>r. k (f r) = k r) \<Longrightarrow> List.find (\<lambda>r. k r = x) (map f rows) = map_option f (List.find (\<lambda>r. k r = x) rows)"
  by (induction rows) simp_all

lemma find_Some_D: "List.find p rows = Some r \<Longrightarrow> r \<in> set rows \<and> p r"
  by (auto simp: find_Some_iff)

lemma find_update_where_key:
  "(\<And>r. k (f r) = k r) \<Longrightarrow> List.find (\<lambda>r. k r = x) (update_where p f rows)
     = map_option (\<lambda>r. if p r then f r else r) (List.find (\<lambda>r. k r = x) rows)"
  by (induction rows) simp_all

lemma find_append: "List.find p (xs @ ys) = (case List.find p xs of None \<Rightarrow> List.find p ys | Some r \<Rightarrow> Some r)"
  by (induction xs) auto

lemma ex_update_where:
  "\<exists>r \<in> set rows. P r \<Longrightarrow> (\<And>r. p r \<Longrightarrow> P r \<Longrightarrow> P (f r)) \<Longrightarrow> \<exists>r \<in> set (update_where p f rows). P r"
  by (induction rows) auto

lemma find_update_where_pred:
  "(\<And>r. q (f r) = q r) \<Longrightarrow> List.find q (update_where p f rows)
     = map_option (\<lambda>r. if p r then f r else r) (List.find q rows)"
  by (induction rows) simp_all

lemma update_where_none: "\<forall>r \<in> set rows. \<not> p r \<Longrightarrow> update_where p f rows = rows"
  by (induction rows) simp_all

text \<open>When the selecting key is unique, an update writes one row.\<close>

lemma update_where_only:
  assumes "distinct (map k rows)" "r \<in> set rows"
  shows "update_where (\<lambda>x. k x = k r) f rows = update_where (\<lambda>x. k x = k r) (\<lambda>_. f r) rows"
proof -
  have "x = r" if "x \<in> set rows" "k x = k r" for x
    using assms that by (metis distinct_map inj_onD)
  then show ?thesis by (auto simp: update_where_def)
qed

section \<open>Pages\<close>

text \<open>
  \<^verbatim>\<open>LIMIT\<close> and \<^verbatim>\<open>OFFSET\<close> as every listing computes them: a page below 1 is page 1, a limit outside
  1 to 100 is 20. The offset is a product of machine integers; PostgreSQL refuses a negative
  one.
\<close>

definition page_limit :: "int64 \<Rightarrow> int64" where
  "page_limit l = (if 0 < sint l \<and> sint l \<le> 100 then l else 20)"

definition page_offset :: "int64 \<Rightarrow> int64 \<Rightarrow> int64" where
  "page_offset p l = ((if 0 < sint p then p else 1) - 1) * page_limit l"

definition page_rows :: "int64 \<Rightarrow> int64 \<Rightarrow> 'r list \<Rightarrow> 'r list result" where
  "page_rows p l rows =
     (if sint (page_offset p l) < 0 then Inl (Driver ''pq: OFFSET must not be negative'')
      else Inr (take (nat (sint (page_limit l))) (drop (nat (sint (page_offset p l))) rows)))"

lemma page_limit_bound: "0 < sint (page_limit l)" "sint (page_limit l) \<le> 100"
  by (simp_all add: page_limit_def)

lemma page_rows_Inr:
  assumes "page_rows p l rows = Inr xs" "sorted (map k rows)"
  shows "set xs \<subseteq> set rows \<and> length xs \<le> 100 \<and> sorted (map k xs)"
proof -
  have xs: "xs = take (nat (sint (page_limit l))) (drop (nat (sint (page_offset p l))) rows)"
    using assms(1) by (auto simp: page_rows_def split: if_splits)
  have "length xs \<le> nat (sint (page_limit l))" unfolding xs by simp
  then have "length xs \<le> 100" using page_limit_bound(2) [of l] by linarith
  moreover have "sorted (map k xs)"
    using assms(2) unfolding xs take_map [symmetric] drop_map [symmetric] by (intro sorted_wrt_take sorted_wrt_drop)
  moreover have "set xs \<subseteq> set rows" unfolding xs by (meson in_set_dropD in_set_takeD subsetI)
  ultimately show ?thesis by simp
qed

section \<open>Life cycles\<close>

text \<open>
  An interface that several tables provide: a step either keeps the entry stored under a key
  or moves it along \<open>nxt\<close>; entries are never lost. An entry without a successor stays for ever.
\<close>

locale lifecycle =
  fixes step :: "'s \<Rightarrow> 's \<Rightarrow> bool" and entry :: "'s \<Rightarrow> 'i \<Rightarrow> 'a option" and nxt :: "'a \<Rightarrow> 'a \<Rightarrow> bool"
  assumes entry_step: "step s s' \<Longrightarrow> entry s i = Some a \<Longrightarrow> \<exists>b. entry s' i = Some b \<and> (b = a \<or> nxt a b)"
begin

lemma entry_path:
  "step\<^sup>*\<^sup>* s s' \<Longrightarrow> entry s i = Some a \<Longrightarrow> \<exists>b. entry s' i = Some b \<and> nxt\<^sup>*\<^sup>* a b"
proof (induction rule: rtranclp_induct)
  case (step y z)
  then obtain b where "entry y i = Some b" "nxt\<^sup>*\<^sup>* a b" by blast
  with entry_step [OF step.hyps(2), of i b] show ?case by (auto intro: rtranclp.rtrancl_into_rtrancl)
qed simp

lemma entry_final:
  assumes "step\<^sup>*\<^sup>* s s'" "entry s i = Some a" "\<And>b. \<not> nxt a b"
  shows "entry s' i = Some a"
proof -
  obtain b where "entry s' i = Some b" "nxt\<^sup>*\<^sup>* a b" using entry_path [OF assms(1,2)] by blast
  moreover from this(2) assms(3) have "b = a" by (cases rule: converse_rtranclpE) auto
  ultimately show ?thesis by simp
qed

lemma entry_keeps:
  assumes "step\<^sup>*\<^sup>* s s'" "entry s i = Some a" "\<And>x y. nxt x y \<Longrightarrow> f y = f x"
  shows "\<exists>b. entry s' i = Some b \<and> f b = f a"
proof -
  have "f b = f a" if "nxt\<^sup>*\<^sup>* a b" for b using that by induction (auto simp: assms(3))
  then show ?thesis using entry_path [OF assms(1,2)] by blast
qed

end

end
