(* ===== verification/Float64.thy ===== *)
theory Float64
  imports Prelude "HOL-Library.Log_Nat"
begin

text \<open>
  Go's \<^verbatim>\<open>float64\<close> (IEEE 754 binary64) and the operations the backend applies to it:
  conversion from integers, division, multiplication, \<^verbatim>\<open>math.Round\<close>,
  \<^verbatim>\<open>strconv.FormatFloat(f, 'f', prec, 64)\<close> and the conversion back to \<^verbatim>\<open>int64\<close>.

  A finite float is represented by its exact value, a rational number; \<open>float64_wf\<close> says
  which rationals are values of the format. Arithmetic is the exact result followed by
  \<open>fl\<close>, which rounds to the nearest representable value, ties to the even mantissa, with
  gradual underflow and overflow to infinity. The two zeros are identified, which no
  operation used here can observe in its result: both print as an amount of zero and
  both compare alike.
\<close>

section \<open>Values\<close>

datatype float64 = NaN | Infinity bool | Finite rat

fun isNaN :: "float64 \<Rightarrow> bool" where
  "isNaN NaN = True"
| "isNaN _ = False"

fun isInf :: "float64 \<Rightarrow> bool" where
  "isInf (Infinity neg) = True"
| "isInf _ = False"

fun flt :: "float64 \<Rightarrow> float64 \<Rightarrow> bool" where
  "flt NaN _ = False"
| "flt _ NaN = False"
| "flt (Infinity neg) (Infinity neg') = (neg \<and> \<not> neg')"
| "flt (Infinity neg) (Finite _) = neg"
| "flt (Finite _) (Infinity neg) = (\<not> neg)"
| "flt (Finite x) (Finite y) = (x < y)"

section \<open>Rounding to an integer\<close>

text \<open>\<open>rne\<close> rounds half to even, \<open>rna\<close> half away from zero (\<^verbatim>\<open>math.Round\<close>).\<close>

definition rne :: "rat \<Rightarrow> int" where
  "rne x = (let f = \<lfloor>x\<rfloor>; r = x - of_int f in
     if r < 1/2 then f else if 1/2 < r then f + 1 else if even f then f else f + 1)"

definition rna :: "rat \<Rightarrow> int" where
  "rna x = (if 0 \<le> x then \<lfloor>x + 1/2\<rfloor> else - \<lfloor>1/2 - x\<rfloor>)"

lemma rne_error: "\<bar>of_int (rne x) - x\<bar> \<le> 1/2"
proof -
  have "of_int \<lfloor>x\<rfloor> \<le> x" "x < of_int \<lfloor>x\<rfloor> + 1" by linarith+
  then show ?thesis unfolding rne_def Let_def by (auto simp: abs_le_iff)
qed

lemma rne_eqI: "\<bar>x - of_int n\<bar> < 1/2 \<Longrightarrow> rne x = n"
proof -
  assume "\<bar>x - of_int n\<bar> < 1/2"
  with rne_error [of x] have "\<bar>of_int (rne x) - (of_int n :: rat)\<bar> < 1" by linarith
  then have "\<bar>rne x - n\<bar> < 1" by (simp flip: of_int_diff of_int_abs)
  then show ?thesis by simp
qed

lemma rne_of_int [simp]: "rne (of_int n) = n"
  by (rule rne_eqI) simp

lemma rne_nonneg: "0 \<le> x \<Longrightarrow> 0 \<le> rne x"
  by (auto simp: rne_def Let_def)

section \<open>Rounding to the format\<close>

text \<open>
  \<open>ilog2 x\<close> is the exponent of a positive rational: \<open>2 powi ilog2 x \<le> x < 2 powi (ilog2 x + 1)\<close>.
\<close>

definition ilog2 :: "rat \<Rightarrow> int" where
  "ilog2 x = (let (n, d) = quotient_of x; k = bitlen n - bitlen d
     in if 2 powi k \<le> x then k else k - 1)"

definition quantum :: "rat \<Rightarrow> int" where
  "quantum x = max (ilog2 \<bar>x\<bar> - 52) (- 1074)"

definition round_mag :: "rat \<Rightarrow> rat" where
  "round_mag x = of_int (rne (x / 2 powi quantum x)) * 2 powi quantum x"

definition fl :: "rat \<Rightarrow> float64" where
  "fl x = (if x = 0 then Finite 0
     else if 2 ^ 1024 \<le> round_mag \<bar>x\<bar> then Infinity (x < 0)
     else if x < 0 then Finite (- round_mag \<bar>x\<bar>)
     else Finite (round_mag \<bar>x\<bar>))"

definition float64_wf :: "float64 \<Rightarrow> bool" where
  "float64_wf f = (case f of Finite x \<Rightarrow> fl x = Finite x | _ \<Rightarrow> True)"

section \<open>Operations\<close>

definition of_int64 :: "int \<Rightarrow> float64" where
  "of_int64 n = fl (of_int n)"

fun fneg :: "float64 \<Rightarrow> float64" where
  "fneg NaN = NaN"
| "fneg (Infinity neg) = Infinity (\<not> neg)"
| "fneg (Finite x) = Finite (- x)"

text \<open>Division by a finite non-zero divisor and multiplication by a finite non-zero factor.\<close>

fun fdiv :: "float64 \<Rightarrow> rat \<Rightarrow> float64" where
  "fdiv NaN y = NaN"
| "fdiv (Infinity neg) y = Infinity (neg \<noteq> (y < 0))"
| "fdiv (Finite x) y = fl (x / y)"

fun fmul :: "float64 \<Rightarrow> rat \<Rightarrow> float64" where
  "fmul NaN y = NaN"
| "fmul (Infinity neg) y = Infinity (neg \<noteq> (y < 0))"
| "fmul (Finite x) y = fl (x * y)"

text \<open>Sum, difference and order of two floats.\<close>

fun fadd :: "float64 \<Rightarrow> float64 \<Rightarrow> float64" where
  "fadd NaN _ = NaN"
| "fadd _ NaN = NaN"
| "fadd (Infinity neg) (Infinity neg') = (if neg = neg' then Infinity neg else NaN)"
| "fadd (Infinity neg) (Finite _) = Infinity neg"
| "fadd (Finite _) (Infinity neg) = Infinity neg"
| "fadd (Finite x) (Finite y) = fl (x + y)"

definition fsub :: "float64 \<Rightarrow> float64 \<Rightarrow> float64" where
  "fsub x y = fadd x (fneg y)"

definition fle :: "float64 \<Rightarrow> float64 \<Rightarrow> bool" where
  "fle x y = (flt x y \<or> (x = y \<and> \<not> isNaN x))"

text \<open>\<^verbatim>\<open>math.Round\<close>: every finite float of magnitude \<open>2^52\<close> or more is an integer already.\<close>

fun math_Round :: "float64 \<Rightarrow> float64" where
  "math_Round (Finite x) = Finite (of_int (rna x))"
| "math_Round f = f"

text \<open>
  \<^verbatim>\<open>int64(f)\<close> truncates towards zero. When the truncated value does not fit, the Go
  specification leaves the result to the implementation: \<open>oor\<close> is that choice.
\<close>

fun to_int64 :: "(float64 \<Rightarrow> 64 word) \<Rightarrow> float64 \<Rightarrow> 64 word" where
  "to_int64 oor (Finite x) =
     (let n = (if 0 \<le> x then \<lfloor>x\<rfloor> else - \<lfloor>- x\<rfloor>) in
      if - (2 ^ 63) \<le> n \<and> n < 2 ^ 63 then word_of_int n else oor (Finite x))"
| "to_int64 oor f = oor f"

text \<open>The conversion instruction of amd64 answers the most negative integer.\<close>

definition oor_amd64 :: "float64 \<Rightarrow> 64 word" where
  "oor_amd64 f = word_of_int (- (2 ^ 63))"

section \<open>Rounding error\<close>

lemma two_powi_pos [simp]: "0 < (2 :: rat) powi k"
  by (simp add: power_int_def)

lemma two_powi_less_iff [simp]: "(2 :: rat) powi a < 2 powi b \<longleftrightarrow> a < b"
proof
  show "a < b" if "(2 :: rat) powi a < 2 powi b"
    using that power_int_increasing [of b a "2 :: rat"] by (meson not_less one_le_numeral)
qed (simp add: power_int_strict_increasing)

lemma bitlen_powi:
  assumes "0 < n"
  shows "(2::rat) powi (bitlen n - 1) \<le> of_int n" "of_int n < (2::rat) powi bitlen n"
proof -
  have b: "2 ^ nat (bitlen n - 1) \<le> n" "n < 2 ^ nat (bitlen n)"
    using bitlen_bounds [OF assms] by auto
  have pos: "1 \<le> bitlen n"
    using assms bitlen_nonneg [of n] bitlen_eq_zero_iff [of n] by linarith
  have "(2::rat) powi (bitlen n - 1) = of_int (2 ^ nat (bitlen n - 1))"
    using pos by (simp add: power_int_def)
  also have "\<dots> \<le> of_int n" using b(1) by (simp only: of_int_le_iff)
  finally show "(2::rat) powi (bitlen n - 1) \<le> of_int n" .
  have "(of_int n :: rat) < of_int (2 ^ nat (bitlen n))" using b(2) by (simp only: of_int_less_iff)
  also have "\<dots> = 2 powi bitlen n" using pos by (simp add: power_int_def)
  finally show "of_int n < (2::rat) powi bitlen n" .
qed

lemma ilog2_bounds:
  assumes "0 < x"
  shows "2 powi ilog2 x \<le> x" "x < 2 powi (ilog2 x + 1)"
proof -
  obtain n d where q: "quotient_of x = (n, d)" by (cases "quotient_of x")
  have x: "x = of_int n / of_int d" using q by (rule quotient_of_div)
  have d: "0 < d" using q by (rule quotient_of_denom_pos)
  with x assms have n: "0 < n" by (simp add: zero_less_divide_iff)
  define b where "b = bitlen n"
  define c where "c = bitlen d"
  have nb: "(2::rat) powi (b - 1) \<le> of_int n" "of_int n < (2::rat) powi b"
    using bitlen_powi [OF n] by (simp_all add: b_def)
  have dc: "(2::rat) powi (c - 1) \<le> of_int d" "of_int d < (2::rat) powi c"
    using bitlen_powi [OF d] by (simp_all add: c_def)
  have dpos: "(0::rat) < of_int d" using d by simp
  have hi: "x < 2 powi (b - c + 1)"
  proof -
    have "of_int n / of_int d < (2::rat) powi b / of_int d"
      using nb dpos by (simp add: divide_strict_right_mono)
    also have "\<dots> \<le> 2 powi b / 2 powi (c - 1)"
      using dc by (simp add: frac_le)
    also have "\<dots> = 2 powi (b - c + 1)" by (simp flip: power_int_diff add: algebra_simps)
    finally show ?thesis by (simp add: x)
  qed
  have lo: "2 powi (b - c - 1) \<le> x"
  proof -
    have "(2::rat) powi (b - c - 1) = 2 powi (b - 1) / 2 powi c"
      by (simp flip: power_int_diff add: algebra_simps)
    also have "\<dots> \<le> of_int n / of_int d"
      using nb dc dpos n by (intro frac_le) simp_all
    finally show ?thesis by (simp add: x)
  qed
  have il: "ilog2 x = (if 2 powi (b - c) \<le> x then b - c else b - c - 1)"
    by (simp add: ilog2_def q b_def c_def Let_def)
  show "2 powi ilog2 x \<le> x" using lo by (simp add: il)
  show "x < 2 powi (ilog2 x + 1)" using hi by (auto simp: il)
qed

text \<open>
  In the normal range the relative error of one rounding is at most \<open>2^-53\<close>; a value whose
  quotient by the quantum is an integer is not changed.
\<close>

lemma round_mag_error:
  assumes "2 powi (- 1022) \<le> x"
  shows "\<bar>round_mag x - x\<bar> \<le> x / 2 ^ 53"
proof -
  have x: "0 < x" using assms two_powi_pos by (rule less_le_trans [rotated])
  note il = ilog2_bounds [OF x]
  have "(2::rat) powi (- 1022) < 2 powi (ilog2 x + 1)" using assms il(2) by (rule le_less_trans)
  then have "- 1022 < ilog2 x + 1" by (simp only: two_powi_less_iff)
  then have q: "quantum x = ilog2 x - 52" using x by (simp add: quantum_def)
  let ?u = "(2::rat) powi quantum x"
  have "round_mag x - x = (of_int (rne (x / ?u)) - x / ?u) * ?u"
    by (simp add: round_mag_def left_diff_distrib)
  then have "\<bar>round_mag x - x\<bar> = \<bar>of_int (rne (x / ?u)) - x / ?u\<bar> * ?u"
    by (simp only: abs_mult abs_of_pos [OF two_powi_pos])
  also have "\<dots> \<le> 1/2 * ?u"
    using rne_error [of "x / ?u"] by (intro mult_right_mono) simp_all
  also have "\<dots> = 2 powi ilog2 x / 2 ^ 53"
    by (simp add: q power_int_diff)
  also have "\<dots> \<le> x / 2 ^ 53" using il(1) by (simp add: divide_right_mono)
  finally show ?thesis .
qed

lemma round_mag_exact:
  assumes "x / 2 powi quantum x = of_int n"
  shows "round_mag x = x"
proof -
  have "of_int (rne (x / 2 powi quantum x)) = x / 2 powi quantum x" by (simp add: assms)
  then show ?thesis by (simp add: round_mag_def)
qed

lemma ilog2_less: "0 < x \<Longrightarrow> x < 2 powi k \<Longrightarrow> ilog2 x < k"
  using ilog2_bounds(1) [of x] by (meson le_less_trans two_powi_less_iff)

lemma ilog2_ge: "0 < x \<Longrightarrow> 2 powi k \<le> x \<Longrightarrow> k \<le> ilog2 x"
  using ilog2_bounds(2) [of x] by (meson le_less_trans two_powi_less_iff zless_add1_eq zle_add1_eq_le)

lemma round_mag_of_int:
  assumes "0 < n" "n \<le> 2 ^ 53"
  shows "round_mag (of_int n) = of_int n"
proof (cases "n = 2 ^ 53")
  case True
  have "53 \<le> ilog2 (of_int n)"
    by (rule ilog2_ge) (use assms True in simp_all)
  moreover have "ilog2 (of_int n) < 54"
    by (rule ilog2_less) (use assms True in simp_all)
  ultimately have "quantum (of_int n) = 1" using assms by (simp add: quantum_def)
  then show ?thesis using True by (intro round_mag_exact [where n = "2 ^ 52"]) simp
next
  case False
  with assms have "n < 2 ^ 53" by simp
  then have "(of_int n :: rat) < of_int (2 ^ 53)" by (simp only: of_int_less_iff)
  then have "ilog2 (of_int n) < 53" using assms by (intro ilog2_less) simp_all
  then have q: "quantum (of_int n) \<le> 0" using assms by (simp add: quantum_def)
  show ?thesis
  proof (rule round_mag_exact)
    show "of_int n / (2::rat) powi quantum (of_int n) = of_int (n * 2 ^ nat (- quantum (of_int n)))"
      using q by (simp add: power_int_def field_simps)
  qed
qed

lemma fl_finite:
  assumes "0 < x" "round_mag x < 2 ^ 1024"
  shows "fl x = Finite (round_mag x)"
  using assms by (simp add: fl_def)

lemma fl_neg: "fl (- x) = fneg (fl x)"
  by (auto simp: fl_def)

lemma fl_of_int:
  assumes "\<bar>n\<bar> \<le> 2 ^ 53"
  shows "fl (of_int n) = Finite (of_int n)"
proof -
  have pos: "fl (of_int k) = Finite (of_int k)" if "0 < k" "k \<le> 2 ^ 53" for k
  proof (rule fl_finite [of "of_int k", unfolded round_mag_of_int [OF that]])
    have "(of_int k :: rat) \<le> of_int (2 ^ 53)" using that by (simp only: of_int_le_iff)
    then show "(of_int k :: rat) < 2 ^ 1024" by simp
  qed (use that in simp)
  consider "0 < n" | "n = 0" | "n < 0" by linarith
  then show ?thesis
  proof cases
    case 1 with assms pos show ?thesis by simp
  next
    case 2 then show ?thesis by (simp add: fl_def)
  next
    case 3
    with assms pos [of "- n"] have "fl (- of_int n) = Finite (- of_int n)" by simp
    then show ?thesis using fl_neg [of "- of_int n"] by simp
  qed
qed

text \<open>
  The lemma behind exact display of amounts: divide an integer below \<open>2^52\<close> by a power of
  ten in floating point, scale it back exactly, and the nearest integer is the one started
  from.
\<close>

lemma scaled_round_trip:
  assumes "0 < n" "n < 2 ^ 52" "0 < d" "d \<le> 10 ^ 18"
  shows "\<exists>v. fl (of_int n / of_int d) = Finite v \<and> 0 < v \<and> rne (v * of_int d) = n"
proof -
  let ?x = "of_int n / of_int d :: rat"
  have n1: "(1::rat) \<le> of_int n" using assms(1) by simp
  have d1: "(0::rat) < of_int d" using assms(3) by simp
  have "(of_int d :: rat) \<le> of_int (10 ^ 18)" using assms(4) by (simp only: of_int_le_iff)
  then have dle: "(of_int d :: rat) \<le> 10 ^ 18" by simp
  have "(2::rat) powi (- 1022) \<le> 1 / 10 ^ 18"
    by (simp add: power_int_def field_simps)
  also have "\<dots> \<le> ?x" using n1 d1 dle by (intro frac_le) simp_all
  finally have norm: "(2::rat) powi (- 1022) \<le> ?x" .
  note err = round_mag_error [OF norm]
  let ?v = "round_mag ?x"
  have x0: "0 < ?x" using n1 d1 by simp
  have vpos: "0 < ?v"
  proof -
    have "?x - ?x / 2 ^ 53 \<le> ?v" using err by linarith
    moreover have "0 < ?x - ?x / 2 ^ 53" using x0 by simp
    ultimately show ?thesis by linarith
  qed
  have n52: "(of_int n :: rat) < 2 ^ 52"
  proof -
    have "(of_int n :: rat) < of_int (2 ^ 52)" using assms(2) by (simp only: of_int_less_iff)
    then show ?thesis by simp
  qed
  have d1': "(1::rat) \<le> of_int d" using assms(3) by simp
  have xle: "?x < 2 ^ 52"
  proof -
    have "?x \<le> of_int n" using n1 d1' by (simp add: divide_le_eq)
    with n52 show ?thesis by linarith
  qed
  have "?v \<le> ?x + ?x / 2 ^ 53" using err by linarith
  also have "\<dots> < 2 ^ 1024" using xle by simp
  finally have fin: "fl ?x = Finite ?v" using x0 by (intro fl_finite)
  have "?v * of_int d - of_int n = (?v - ?x) * of_int d"
    using d1 by (simp add: left_diff_distrib)
  then have "\<bar>?v * of_int d - of_int n\<bar> = \<bar>?v - ?x\<bar> * of_int d"
    by (simp only: abs_mult abs_of_pos [OF d1])
  also have "\<dots> \<le> ?x / 2 ^ 53 * of_int d" using err d1 by (intro mult_right_mono) simp_all
  also have "\<dots> = of_int n / 2 ^ 53" using d1 by simp
  also have "\<dots> < 1/2" using n52 by simp
  finally have "rne (?v * of_int d) = n" by (rule rne_eqI)
  with fin vpos show ?thesis by blast
qed

end
