(* ===== verification/Decimal.thy ===== *)
theory Decimal
  imports Float64 "HOL-Library.Sublist"
begin

text \<open>
  Decimal text: the digits of a natural number as \<^verbatim>\<open>big.Int.String\<close> prints them and
  \<^verbatim>\<open>big.Int.SetString(s, 10)\<close> reads them back, fixed-point text with a given number of
  fractional digits, \<^verbatim>\<open>strconv.FormatFloat(f, 'f', prec, 64)\<close> and
  \<^verbatim>\<open>strings.TrimSpace\<close>. Strings are byte strings, as in Go.
\<close>

section \<open>Digits\<close>

definition digit :: "nat \<Rightarrow> char" where
  "digit d = char_of (48 + d)"

definition is_digit :: "char \<Rightarrow> bool" where
  "is_digit c = (48 \<le> (of_char c :: nat) \<and> (of_char c :: nat) \<le> 57)"

definition digit_val :: "char \<Rightarrow> nat" where
  "digit_val c = of_char c - 48"

fun show_nat :: "nat \<Rightarrow> string" where
  "show_nat n = (if n < 10 then [digit n] else show_nat (n div 10) @ [digit (n mod 10)])"

declare show_nat.simps [simp del]

definition show_int :: "int \<Rightarrow> string" where
  "show_int i = (if i < 0 then ''-'' else []) @ show_nat (nat \<bar>i\<bar>)"

definition parse_nat :: "string \<Rightarrow> nat" where
  "parse_nat s = foldl (\<lambda>a c. a * 10 + digit_val c) 0 s"

lemma of_char_digit: "d < 10 \<Longrightarrow> (of_char (digit d) :: nat) = 48 + d"
  by (simp add: digit_def of_char_of)

lemma is_digit_digit [simp]: "d < 10 \<Longrightarrow> is_digit (digit d)"
  by (simp add: is_digit_def of_char_digit)

lemma digit_val_digit [simp]: "d < 10 \<Longrightarrow> digit_val (digit d) = d"
  by (simp add: digit_val_def of_char_digit)

lemma foldl_digits:
  "foldl (\<lambda>a c. a * 10 + digit_val c) a s = a * 10 ^ length s + parse_nat s"
proof (induction s rule: rev_induct)
  case Nil then show ?case by (simp add: parse_nat_def)
next
  case (snoc c s)
  then show ?case by (simp add: parse_nat_def algebra_simps)
qed

lemma parse_nat_Nil [simp]: "parse_nat [] = 0"
  by (simp add: parse_nat_def)

lemma parse_nat_append: "parse_nat (s @ t) = parse_nat s * 10 ^ length t + parse_nat t"
proof -
  have "parse_nat (s @ t) = foldl (\<lambda>a c. a * 10 + digit_val c) (parse_nat s) t"
    by (simp add: parse_nat_def)
  then show ?thesis by (simp only: foldl_digits)
qed

lemma parse_nat_Cons: "parse_nat (c # t) = digit_val c * 10 ^ length t + parse_nat t"
  using parse_nat_append [of "[c]" t] by (simp add: parse_nat_def)

lemma parse_nat_single [simp]: "parse_nat [c] = digit_val c"
  by (simp add: parse_nat_def)

lemma digit_val_0 [simp]: "digit_val CHR ''0'' = 0"
  by (simp add: digit_val_def)

lemma is_digit_0 [simp]: "is_digit CHR ''0''"
  by (simp add: is_digit_def)

lemma parse_show_nat [simp]: "parse_nat (show_nat n) = n"
proof (induction n rule: show_nat.induct)
  case (1 n)
  then show ?case by (subst show_nat.simps) (simp add: parse_nat_append)
qed

lemma show_nat_digits: "list_all is_digit (show_nat n)"
proof (induction n rule: show_nat.induct)
  case (1 n)
  then show ?case by (subst show_nat.simps) simp
qed

lemma show_nat_nonempty [simp]: "show_nat n \<noteq> []"
  by (subst show_nat.simps) simp

lemma length_show_nat: "n < 10 ^ Suc k \<Longrightarrow> length (show_nat n) \<le> Suc k"
proof (induction k arbitrary: n)
  case 0 then show ?case by (subst show_nat.simps) simp
next
  case (Suc k)
  show ?case
  proof (cases "n < 10")
    case True then show ?thesis by (subst show_nat.simps) simp
  next
    case False
    have "n div 10 < 10 ^ Suc k" using Suc.prems by (simp add: less_mult_imp_div_less)
    from Suc.IH [OF this] False show ?thesis by (subst show_nat.simps) simp
  qed
qed

lemma parse_nat_zeros [simp]: "parse_nat (replicate k CHR ''0'') = 0"
  by (induction k) (simp_all add: parse_nat_Cons)

lemma parse_nat_dropWhile_0: "parse_nat (dropWhile (\<lambda>c. c = CHR ''0'') s) = parse_nat s"
  by (induction s) (simp_all add: parse_nat_Cons)

section \<open>Fixed-point text\<close>

text \<open>The text of \<open>n / 10^prec\<close> with exactly \<open>prec\<close> fractional digits.\<close>

definition show_fixed :: "nat \<Rightarrow> nat \<Rightarrow> string" where
  "show_fixed prec n =
     (let frac = show_nat (n mod 10 ^ prec)
      in show_nat (n div 10 ^ prec) @ ''.'' @ replicate (prec - length frac) CHR ''0'' @ frac)"

definition format_float_f :: "float64 \<Rightarrow> nat \<Rightarrow> string" where
  "format_float_f f prec = (case f of
       NaN \<Rightarrow> ''NaN''
     | Infinity neg \<Rightarrow> (if neg then ''-Inf'' else ''+Inf'')
     | Finite x \<Rightarrow> (if x < 0 then ''-'' else []) @ show_fixed prec (nat (rne (\<bar>x\<bar> * 10 ^ prec))))"

section \<open>White space\<close>

text \<open>
  The UTF-8 encodings of the code points \<^verbatim>\<open>unicode.IsSpace\<close> accepts: the ASCII ones, NEL,
  NBSP and the category Z separators.
\<close>

definition utf8_spaces :: "nat list list" where
  "utf8_spaces = [[9], [10], [11], [12], [13], [32], [194, 133], [194, 160], [225, 154, 128],
     [226, 128, 128], [226, 128, 129], [226, 128, 130], [226, 128, 131], [226, 128, 132],
     [226, 128, 133], [226, 128, 134], [226, 128, 135], [226, 128, 136], [226, 128, 137],
     [226, 128, 138], [226, 128, 168], [226, 128, 169], [226, 128, 175], [226, 129, 159],
     [227, 128, 128]]"

definition space_prefix :: "nat list list \<Rightarrow> string \<Rightarrow> nat" where
  "space_prefix sps s =
     (case List.find (\<lambda>p. take (length p) (map of_char s) = p) sps of None \<Rightarrow> 0 | Some p \<Rightarrow> length p)"

function trim_left :: "nat list list \<Rightarrow> string \<Rightarrow> string" where
  "trim_left sps s = (if space_prefix sps s = 0 \<or> s = [] then s
     else trim_left sps (drop (space_prefix sps s) s))"
  by pat_completeness auto
termination
  by (relation "measure (\<lambda>(sps, s). length s)") auto

declare trim_left.simps [simp del]

definition trim_space :: "string \<Rightarrow> string" where
  "trim_space s = rev (trim_left (map rev utf8_spaces) (rev (trim_left utf8_spaces s)))"

lemma trim_left_id: "space_prefix sps s = 0 \<Longrightarrow> trim_left sps s = s"
  by (subst trim_left.simps) simp

text \<open>Text that begins and ends in an ASCII graphic character is not trimmed.\<close>

definition graphic :: "char \<Rightarrow> bool" where
  "graphic c = (33 \<le> (of_char c :: nat) \<and> (of_char c :: nat) \<le> 126)"

lemma space_prefix_graphic:
  assumes "s \<noteq> []" "graphic (hd s)"
    and "list_all (\<lambda>p. p \<noteq> [] \<and> \<not> (33 \<le> hd p \<and> hd p \<le> 126)) sps"
  shows "space_prefix sps s = 0"
proof -
  have "take (length p) (map of_char s) \<noteq> p" if "p \<in> set sps" for p
  proof
    assume eq: "take (length p) (map of_char s) = p"
    from that assms(3) have p: "p \<noteq> []" "\<not> (33 \<le> hd p \<and> hd p \<le> 126)"
      by (auto simp: list_all_iff)
    have "hd p = of_char (hd s)" using eq p(1) assms(1)
      by (metis hd_take length_greater_0_conv list.map_sel(1))
    with p(2) assms(2) show False by (simp add: graphic_def)
  qed
  then have "List.find (\<lambda>p. take (length p) (map of_char s) = p) sps = None"
    by (auto simp: find_None_iff)
  then show ?thesis by (simp add: space_prefix_def)
qed

lemma trim_space_id:
  assumes "s \<noteq> []" "graphic (hd s)" "graphic (last s)"
  shows "trim_space s = s"
proof -
  have "space_prefix utf8_spaces s = 0"
    by (rule space_prefix_graphic) (use assms in \<open>simp_all add: utf8_spaces_def\<close>)
  moreover have "space_prefix (map rev utf8_spaces) (rev s) = 0"
    by (rule space_prefix_graphic) (use assms in \<open>simp_all add: utf8_spaces_def hd_rev\<close>)
  ultimately show ?thesis by (simp add: trim_space_def trim_left_id)
qed

lemma digit_graphic: "is_digit c \<Longrightarrow> graphic c"
  by (simp add: is_digit_def graphic_def)

end
