(* ===== verification/Money.thy ===== *)
theory Money
  imports Decimal
begin

text \<open>
  \<^verbatim>\<open>pkg/money/money.go\<close>: the fixed-point amount every balance of the backend is computed
  with. An amount is an \<^verbatim>\<open>int64\<close> number of stroops, here a \<open>64 word\<close> read with \<open>sint\<close>;
  \<^verbatim>\<open>big.Int\<close> is \<open>int\<close>. The operations come in the order of the source, then the lemmas:
  the overflow checks of \<^verbatim>\<open>Add\<close> and \<^verbatim>\<open>Sub\<close> are exact, \<^verbatim>\<open>roundDiv\<close> is rounding half away
  from zero, and text and floats round-trip.

  The detail a wrapped \<open>ErrInvalidAmount\<close> carries is the quoted input without the escapes
  \<^verbatim>\<open>%q\<close> would add.
\<close>

section \<open>The type\<close>

record money =
  stroops :: int64

definition Precision :: nat where "Precision = 7"

definition StroopsPerUnit :: int where "StroopsPerUnit = 10000000"

definition Zero :: money where "Zero = \<lparr>stroops = 0\<rparr>"

definition FromStroops :: "int64 \<Rightarrow> money" where
  "FromStroops n = \<lparr>stroops = n\<rparr>"

definition Stroops :: "money \<Rightarrow> int64" where
  "Stroops m = stroops m"

abbreviation amount :: "money \<Rightarrow> int" where "amount m \<equiv> sint (stroops m)"

definition in_int64 :: "int \<Rightarrow> bool" where
  "in_int64 v = (- (2 ^ 63) \<le> v \<and> v < 2 ^ 63)"

definition fromBig :: "int \<Rightarrow> money result" where
  "fromBig v = (if v > 2 ^ 63 - 1 \<or> v < - (2 ^ 63) then Inl (Sentinel ErrOverflow)
     else Inr \<lparr>stroops = word_of_int v\<rparr>)"

section \<open>Text\<close>

definition allDigits :: "string \<Rightarrow> bool" where
  "allDigits s = (if s = [] then False else list_all is_digit s)"

definition quoted :: "string \<Rightarrow> string" where
  "quoted s = ''\"'' @ s @ ''\"''"

definition FromString :: "string \<Rightarrow> money result" where
  "FromString str =
     (let s = trim_space str in
      if s = [] then Inl (Detail (Sentinel ErrInvalidAmount) ''empty string'') else
      let negative = (hd s = CHR ''-''); s = (if negative then tl s else s) in
      if s = [] then Inl (Detail (Sentinel ErrInvalidAmount) (quoted s)) else
      let intPart = takeWhile (\<lambda>c. c \<noteq> CHR ''.'') s;
          fracPart = drop (Suc (length intPart)) s in
      if intPart = [] \<and> fracPart = [] then Inl (Detail (Sentinel ErrInvalidAmount) (quoted s)) else
      let intPart = (if intPart = [] then ''0'' else intPart) in
      if length fracPart > Precision
      then Inl (Detail (Sentinel ErrInvalidAmount) (quoted s @ '' has more than 7 decimal places'')) else
      if \<not> allDigits intPart \<or> (fracPart \<noteq> [] \<and> \<not> allDigits fracPart)
      then Inl (Detail (Sentinel ErrInvalidAmount) (quoted s)) else
      let fracPart = fracPart @ replicate (Precision - length fracPart) CHR ''0'';
          digits = dropWhile (\<lambda>c. c = CHR ''0'') (intPart @ fracPart) in
      if digits = [] then Inr Zero else
      let v = int (parse_nat digits) in
      fromBig (if negative then - v else v))"

text \<open>\<open>None\<close> is the panic of the \<^verbatim>\<open>Must\<close> variants.\<close>

definition MustFromString :: "string \<Rightarrow> money option" where
  "MustFromString s = (case FromString s of Inl e \<Rightarrow> None | Inr m \<Rightarrow> Some m)"

definition FromFloat64 :: "float64 \<Rightarrow> money result" where
  "FromFloat64 f =
     (if isNaN f \<or> isInf f then Inl (Detail (Sentinel ErrInvalidAmount) (format_float_f f Precision))
      else FromString (format_float_f f Precision))"

definition MustFromFloat64 :: "float64 \<Rightarrow> money option" where
  "MustFromFloat64 f = (case FromFloat64 f of Inl e \<Rightarrow> None | Inr m \<Rightarrow> Some m)"

definition Float64 :: "money \<Rightarrow> float64" where
  "Float64 m = fdiv (of_int64 (amount m)) (of_int StroopsPerUnit)"

definition String :: "money \<Rightarrow> string" where
  "String m =
     (let value = amount m;
          sign = (if value < 0 then ''-'' else []);
          value = (if value < 0 then \<bar>value\<bar> else value);
          whole = value div StroopsPerUnit;
          frac = value mod StroopsPerUnit;
          fracText = show_nat (nat frac);
          fracText = (if length fracText < Precision
            then replicate (Precision - length fracText) CHR ''0'' @ fracText else fracText)
      in sign @ show_nat (nat whole) @ ''.'' @ fracText)"

section \<open>Comparison\<close>

definition IsZero :: "money \<Rightarrow> bool" where "IsZero m = (stroops m = 0)"
definition IsNegative :: "money \<Rightarrow> bool" where "IsNegative m = (amount m < 0)"
definition IsPositive :: "money \<Rightarrow> bool" where "IsPositive m = (amount m > 0)"

definition Cmp :: "money \<Rightarrow> money \<Rightarrow> int" where
  "Cmp m o' = (if amount m < amount o' then - 1 else if amount m > amount o' then 1 else 0)"

definition Equal :: "money \<Rightarrow> money \<Rightarrow> bool" where
  "Equal m o' = (stroops m = stroops o')"

section \<open>Arithmetic\<close>

definition Neg :: "money \<Rightarrow> money result" where
  "Neg m = (if stroops m = word_of_int (- (2 ^ 63)) then Inl (Sentinel ErrOverflow)
     else Inr \<lparr>stroops = - stroops m\<rparr>)"

definition Add :: "money \<Rightarrow> money \<Rightarrow> money result" where
  "Add m o' =
     (let sum = stroops m + stroops o' in
      if (sint (stroops o') > 0 \<and> sint sum < sint (stroops m))
       \<or> (sint (stroops o') < 0 \<and> sint sum > sint (stroops m))
      then Inl (Sentinel ErrOverflow) else Inr \<lparr>stroops = sum\<rparr>)"

definition Sub :: "money \<Rightarrow> money \<Rightarrow> money result" where
  "Sub m o' =
     (let diff = stroops m - stroops o' in
      if (sint (stroops o') < 0 \<and> sint diff < sint (stroops m))
       \<or> (sint (stroops o') > 0 \<and> sint diff > sint (stroops m))
      then Inl (Sentinel ErrOverflow) else Inr \<lparr>stroops = diff\<rparr>)"

definition MulInt :: "money \<Rightarrow> int64 \<Rightarrow> money result" where
  "MulInt m n = fromBig (amount m * sint n)"

text \<open>\<^verbatim>\<open>big.Int.QuoRem\<close> truncates towards zero.\<close>

definition roundDiv :: "int \<Rightarrow> int \<Rightarrow> int" where
  "roundDiv num den =
     (let q = quo num den;
          rem = num - q * den;
          twice = \<bar>rem * 2\<bar>;
          absDen = \<bar>den\<bar> in
      if twice \<ge> absDen
      then (if (num < 0) \<noteq> (den < 0) then q - 1 else q + 1)
      else q)"

definition MulDiv :: "money \<Rightarrow> int64 \<Rightarrow> int64 \<Rightarrow> money result" where
  "MulDiv m num den =
     (if den = 0 then Inl (Sentinel ErrDivideByZero)
      else fromBig (roundDiv (amount m * sint num) (sint den)))"

definition Percent :: "(float64 \<Rightarrow> int64) \<Rightarrow> money \<Rightarrow> float64 \<Rightarrow> money result" where
  "Percent oor m percent =
     (if isNaN percent \<or> isInf percent
      then Inl (Detail (Sentinel ErrInvalidAmount) (''percent '' @ format_float_f percent Precision))
      else
        let micro = math_Round (fmul percent 1000000) in
        if flt (of_int64 (2 ^ 63 - 1)) (case micro of Finite x \<Rightarrow> Finite \<bar>x\<bar> | Infinity _ \<Rightarrow> Infinity False | NaN \<Rightarrow> NaN)
        then Inl (Sentinel ErrOverflow)
        else MulDiv m (to_int64 oor micro) 100000000)"

fun Sum_from :: "money \<Rightarrow> money list \<Rightarrow> money result" where
  "Sum_from tot [] = Inr tot"
| "Sum_from tot (a # as) = (case Add tot a of Inl e \<Rightarrow> Inl e | Inr t \<Rightarrow> Sum_from t as)"

definition Sum :: "money list \<Rightarrow> money result" where
  "Sum amounts = Sum_from Zero amounts"

section \<open>Database encoding\<close>

datatype scan_src = Src_nil | Src_bytes string | Src_string string | Src_int64 int64
  | Src_float64 float64 | Src_other string

definition Scan :: "scan_src \<Rightarrow> money result" where
  "Scan src = (case src of
       Src_nil \<Rightarrow> Inr Zero
     | Src_bytes v \<Rightarrow> FromString v
     | Src_string v \<Rightarrow> FromString v
     | Src_int64 v \<Rightarrow> Inr (FromStroops v)
     | Src_float64 v \<Rightarrow> FromFloat64 v
     | Src_other t \<Rightarrow> Inl (Detail (Sentinel ErrInvalidAmount) (''cannot scan '' @ t @ '' into Money'')))"

definition Value :: "money \<Rightarrow> string result" where
  "Value m = Inr (String m)"

definition MarshalJSON :: "money \<Rightarrow> string result" where
  "MarshalJSON m = Inr (String m)"

section \<open>Range of amounts\<close>

lemma amount_range: "in_int64 (sint (w :: int64))"
  using sint_ge [of w] sint_lt [of w] by (simp add: in_int64_def)

lemma amount_bounds: "- (2 ^ 63) \<le> sint (w :: int64)" "sint (w :: int64) < 2 ^ 63"
  using amount_range [of w] by (simp_all add: in_int64_def)

lemma sint_wrap: "sint (word_of_int v :: int64) = (v + 2 ^ 63) mod 2 ^ 64 - 2 ^ 63"
  by (simp add: signed_take_bit_eq_take_bit_shift take_bit_eq_mod signed_of_int)

lemma sint_word_of_int64: "in_int64 v \<Longrightarrow> sint (word_of_int v :: int64) = v"
  by (simp add: sint_wrap in_int64_def)

lemma money_eqI: "amount m = amount n \<Longrightarrow> m = (n :: money)"
  by (cases m; cases n) (simp add: signed_word_eqI)

lemma fromBig_in_range: "in_int64 v \<Longrightarrow> \<exists>m. fromBig v = Inr m \<and> amount m = v"
  using sint_word_of_int64 [of v] by (auto simp: fromBig_def in_int64_def)

lemma fromBig_overflow: "\<not> in_int64 v \<Longrightarrow> fromBig v = Inl (Sentinel ErrOverflow)"
  by (auto simp: fromBig_def in_int64_def)

lemma fromBig_Inr: "fromBig v = Inr m \<longleftrightarrow> amount m = v"
proof
  assume m: "fromBig v = Inr m"
  then have "in_int64 v" using fromBig_overflow by fastforce
  with m show "amount m = v" using fromBig_in_range by fastforce
next
  assume v: "amount m = v"
  then obtain n where "fromBig v = Inr n" "amount n = v"
    using fromBig_in_range [OF amount_range] by blast
  with v show "fromBig v = Inr m" by (metis money_eqI)
qed

lemma fromBig_I: "sint w = v \<Longrightarrow> Inr \<lparr>stroops = w\<rparr> = fromBig v"
  by (rule sym) (simp add: fromBig_Inr)

lemma fromBig_amount [simp]: "fromBig (amount m) = Inr m"
  by (simp add: fromBig_Inr)

section \<open>Checked addition and subtraction\<close>

lemma sint_wrap_once:
  assumes "- (3 * 2 ^ 63) \<le> v" "v < 3 * 2 ^ 63"
  shows "sint (word_of_int v :: int64) =
    (if v < - (2 ^ 63) then v + 2 ^ 64 else if 2 ^ 63 \<le> v then v - 2 ^ 64 else v)"
proof -
  consider "v < - (2 ^ 63)" | "2 ^ 63 \<le> v" | "- (2 ^ 63) \<le> v" "v < 2 ^ 63" by linarith
  then show ?thesis
  proof cases
    case 1
    have "(v + 2 ^ 63) mod 2 ^ 64 = (v + 2 ^ 63 + 2 ^ 64) mod 2 ^ 64" by (simp only: mod_add_self2)
    also have "\<dots> = v + 2 ^ 63 + 2 ^ 64" using 1 assms by (intro mod_pos_pos_trivial) simp_all
    finally show ?thesis using 1 by (simp add: sint_wrap)
  next
    case 2
    have "(v + 2 ^ 63) mod 2 ^ 64 = (v + 2 ^ 63 - 2 ^ 64) mod 2 ^ 64" by (simp only: minus_mod_self2)
    also have "\<dots> = v + 2 ^ 63 - 2 ^ 64" using 2 assms by (intro mod_pos_pos_trivial) simp_all
    finally show ?thesis using 2 by (simp add: sint_wrap)
  next
    case 3
    then show ?thesis by (simp add: sint_word_of_int64 in_int64_def)
  qed
qed

lemma sint_add_wrap:
  "sint (a + b :: int64) = (if sint a + sint b < - (2 ^ 63) then sint a + sint b + 2 ^ 64
     else if 2 ^ 63 \<le> sint a + sint b then sint a + sint b - 2 ^ 64 else sint a + sint b)"
  using sint_wrap_once [of "sint a + sint b"] amount_bounds [of a] amount_bounds [of b] by simp

lemma sint_sub_wrap:
  "sint (a - b :: int64) = (if sint a - sint b < - (2 ^ 63) then sint a - sint b + 2 ^ 64
     else if 2 ^ 63 \<le> sint a - sint b then sint a - sint b - 2 ^ 64 else sint a - sint b)"
  using sint_wrap_once [of "sint a - sint b"] amount_bounds [of a] amount_bounds [of b] by simp

lemma Add_eq_fromBig: "Add m n = fromBig (amount m + amount n)"
proof -
  note b = amount_bounds [of "stroops m"] amount_bounds [of "stroops n"]
  show ?thesis
  proof (cases "in_int64 (amount m + amount n)")
    case True
    then have s: "sint (stroops m + stroops n) = amount m + amount n"
      by (simp add: sint_add_wrap in_int64_def)
    then have "Add m n = Inr \<lparr>stroops = stroops m + stroops n\<rparr>" by (simp add: Add_def)
    also have "\<dots> = fromBig (amount m + amount n)" using s by (rule fromBig_I)
    finally show ?thesis .
  next
    case False
    then have "Add m n = Inl (Sentinel ErrOverflow)"
      using b by (auto simp: Add_def Let_def sint_add_wrap in_int64_def)
    with False show ?thesis by (simp add: fromBig_overflow)
  qed
qed

lemma Sub_eq_fromBig: "Sub m n = fromBig (amount m - amount n)"
proof -
  note b = amount_bounds [of "stroops m"] amount_bounds [of "stroops n"]
  show ?thesis
  proof (cases "in_int64 (amount m - amount n)")
    case True
    then have s: "sint (stroops m - stroops n) = amount m - amount n"
      by (simp add: sint_sub_wrap in_int64_def)
    then have "Sub m n = Inr \<lparr>stroops = stroops m - stroops n\<rparr>" by (simp add: Sub_def)
    also have "\<dots> = fromBig (amount m - amount n)" using s by (rule fromBig_I)
    finally show ?thesis .
  next
    case False
    then have "Sub m n = Inl (Sentinel ErrOverflow)"
      using b by (auto simp: Sub_def Let_def sint_sub_wrap in_int64_def)
    with False show ?thesis by (simp add: fromBig_overflow)
  qed
qed

lemma Neg_eq_fromBig: "Neg m = fromBig (- amount m)"
proof (cases "amount m = - (2 ^ 63)")
  case True
  have "stroops m = word_of_int (sint (stroops m))" by simp
  then have "stroops m = word_of_int (- (2 ^ 63))" by (simp only: True)
  then show ?thesis using True by (simp add: Neg_def fromBig_def)
next
  case False
  have ne: "stroops m \<noteq> word_of_int (- (2 ^ 63))"
    using False sint_word_of_int64 [of "- (2 ^ 63)"] by (auto simp: in_int64_def)
  have "sint (- stroops m) = - amount m"
    using sint_sub_wrap [of 0 "stroops m"] False amount_bounds [of "stroops m"] by simp
  then have "Inr \<lparr>stroops = - stroops m\<rparr> = fromBig (- amount m)" by (rule fromBig_I)
  with ne show ?thesis by (simp add: Neg_def)
qed

section \<open>Rounded division\<close>

lemma floor_half:
  assumes "0 < (b :: int)"
  shows "\<lfloor>of_int a / of_int b + 1/2 :: rat\<rfloor> = a div b + (if b \<le> 2 * (a mod b) then 1 else 0)"
proof (rule floor_unique)
  define q where "q = a div b"
  define r where "r = a mod b"
  have r: "0 \<le> r" "r < b" using assms by (simp_all add: r_def)
  have "of_int a = (of_int (q * b + r) :: rat)" by (simp add: q_def r_def)
  then have e: "of_int a / of_int b = (of_int q + of_int r / of_int b :: rat)"
    using assms by (simp add: field_simps)
  define u where "u = (of_int r / of_int b :: rat)"
  have u: "0 \<le> u" "u < 1" using r by (simp_all add: u_def divide_less_eq)
  have half: "b \<le> 2 * r \<longleftrightarrow> 1/2 \<le> u"
    using assms by (simp add: u_def le_divide_eq mult.commute flip: of_int_le_iff [where 'a = rat])
  show "of_int (a div b + (if b \<le> 2 * (a mod b) then 1 else 0)) \<le> (of_int a / of_int b + 1/2 :: rat)"
    using u half unfolding e q_def [symmetric] r_def [symmetric] u_def [symmetric] by auto
  show "(of_int a / of_int b + 1/2 :: rat) < of_int (a div b + (if b \<le> 2 * (a mod b) then 1 else 0)) + 1"
    using u half unfolding e q_def [symmetric] r_def [symmetric] u_def [symmetric] by auto
qed

lemma roundDiv_magnitude:
  assumes "den \<noteq> 0"
  shows "roundDiv num den = (if (num < 0) \<noteq> (den < 0) then - 1 else 1) *
    (\<bar>num\<bar> div \<bar>den\<bar> + (if \<bar>den\<bar> \<le> 2 * (\<bar>num\<bar> mod \<bar>den\<bar>) then 1 else 0))"
proof -
  have "\<bar>num - quo num den * den\<bar> = \<bar>num\<bar> mod \<bar>den\<bar>"
  proof -
    have "num - quo num den * den = sgn num * (\<bar>num\<bar> - (\<bar>num\<bar> div \<bar>den\<bar>) * \<bar>den\<bar>)"
      by (simp add: quo_def abs_sgn algebra_simps)
    also have "\<dots> = sgn num * (\<bar>num\<bar> mod \<bar>den\<bar>)" by (simp add: minus_div_mult_eq_mod)
    finally show ?thesis using assms by (cases "num = 0") (simp_all add: abs_mult)
  qed
  then have t: "\<bar>(num - quo num den * den) * 2\<bar> = 2 * (\<bar>num\<bar> mod \<bar>den\<bar>)" by (simp add: abs_mult)
  have z: "num = 0 \<Longrightarrow> quo num den = 0" by (simp add: quo_def)
  have q: "quo num den = (if (num < 0) \<noteq> (den < 0) then - 1 else 1) * (\<bar>num\<bar> div \<bar>den\<bar>)"
    using assms by (cases "num = 0") (auto simp: quo_def sgn_if)
  show ?thesis unfolding roundDiv_def Let_def t using q by (simp add: algebra_simps)
qed

lemma roundDiv_eq_rna:
  assumes "den \<noteq> 0"
  shows "roundDiv num den = rna (of_int num / of_int den)"
proof -
  have b: "0 < \<bar>den\<bar>" using assms by simp
  have m: "roundDiv num den =
      (if (num < 0) \<noteq> (den < 0) then - 1 else 1) * \<lfloor>of_int \<bar>num\<bar> / of_int \<bar>den\<bar> + 1/2 :: rat\<rfloor>"
    unfolding roundDiv_magnitude [OF assms] floor_half [OF b] ..
  show ?thesis
  proof (cases "(num < 0) \<noteq> (den < 0) \<and> num \<noteq> 0")
    case True
    then have "of_int num / of_int den < (0 :: rat)"
      using assms by (auto simp: divide_less_0_iff)
    moreover have "(of_int \<bar>num\<bar> / of_int \<bar>den\<bar> :: rat) = - (of_int num / of_int den)"
      using True by auto
    ultimately show ?thesis using True by (simp add: m rna_def)
  next
    case False
    then have "0 \<le> (of_int num / of_int den :: rat)"
      using assms by (auto simp: zero_le_divide_iff)
    moreover have "(of_int \<bar>num\<bar> / of_int \<bar>den\<bar> :: rat) = of_int num / of_int den"
      using False assms by (cases "num = 0") auto
    moreover have "\<lfloor>1/2 :: rat\<rfloor> = 0" by (rule floor_unique) simp_all
    ultimately show ?thesis using False assms
      by (cases "num = 0") (auto simp: m rna_def roundDiv_magnitude)
  qed
qed

lemma MulDiv_exact:
  assumes "den \<noteq> 0"
  shows "MulDiv m num den = fromBig (rna (of_int (amount m) * of_int (sint num) / of_int (sint den)))"
proof -
  have "sint den \<noteq> 0" using assms by (metis signed_0 signed_word_eqI)
  then show ?thesis using assms by (simp add: MulDiv_def roundDiv_eq_rna)
qed

section \<open>Text\<close>

lemma show_fixed_parts:
  fixes n :: nat
  defines "whole \<equiv> show_nat (n div 10 ^ 7)"
    and "fract \<equiv> replicate (7 - length (show_nat (n mod 10 ^ 7))) CHR ''0'' @ show_nat (n mod 10 ^ 7)"
  shows "show_fixed 7 n = whole @ ''.'' @ fract"
    and "length fract = 7" and "list_all is_digit whole" and "list_all is_digit fract"
    and "parse_nat (whole @ fract) = n"
proof -
  show "show_fixed 7 n = whole @ ''.'' @ fract" by (simp add: show_fixed_def whole_def fract_def Let_def)
  have "length (show_nat (n mod 10 ^ 7)) \<le> 7" using length_show_nat [of "n mod 10 ^ 7" 6] by simp
  then show l: "length fract = 7" by (simp add: fract_def)
  show "list_all is_digit whole" "list_all is_digit fract"
    by (simp_all add: whole_def fract_def show_nat_digits list_all_iff)
       (use show_nat_digits in \<open>auto simp: list_all_iff\<close>)
  have "parse_nat fract = n mod 10 ^ 7" by (simp add: fract_def parse_nat_append)
  then show "parse_nat (whole @ fract) = n" by (simp add: parse_nat_append l) (simp add: whole_def)
qed

lemma digits_no_dot: "list_all is_digit s \<Longrightarrow> takeWhile (\<lambda>c. c \<noteq> CHR ''.'') (s @ ''.'' @ t) = s"
  by (induction s) (auto simp: is_digit_def)

lemma digit_not_minus: "is_digit c \<Longrightarrow> c \<noteq> CHR ''-''"
  by (auto simp: is_digit_def)

lemma FromString_show_fixed:
  "FromString ((if neg then ''-'' else []) @ show_fixed 7 n) = fromBig (if neg then - int n else int n)"
proof -
  obtain whole fract where p: "show_fixed 7 n = whole @ ''.'' @ fract" "length fract = 7"
      "list_all is_digit whole" "list_all is_digit fract" "parse_nat (whole @ fract) = n" "whole \<noteq> []"
    using show_fixed_parts [of n] show_nat_nonempty by metis
  have f: "fract \<noteq> []" using p(2) by auto
  have lastd: "is_digit (last fract)" and hdd: "is_digit (hd whole)"
    using p f by (simp_all add: list_all_iff)
  let ?s = "(if neg then ''-'' else []) @ whole @ ''.'' @ fract"
  have trim: "trim_space ?s = ?s"
    by (rule trim_space_id) (use p f lastd hdd in \<open>simp_all add: digit_graphic graphic_def [of "CHR ''-''"]\<close>)
  have neg: "hd ?s = CHR ''-'' \<longleftrightarrow> neg" using p(6) digit_not_minus [OF hdd] by simp
  have rest: "(if neg then tl ?s else ?s) = whole @ ''.'' @ fract" by simp
  have "drop (Suc (length whole)) (whole @ ''.'' @ fract) = fract" by simp
  moreover have v: "parse_nat (dropWhile (\<lambda>c. c = CHR ''0'') (whole @ fract)) = n"
    by (simp only: parse_nat_dropWhile_0 p(5))
  moreover have "dropWhile (\<lambda>c. c = CHR ''0'') (whole @ fract) = [] \<Longrightarrow> n = 0"
    using v by (metis parse_nat_Nil)
  moreover have "fromBig 0 = Inr Zero" by (simp add: fromBig_def Zero_def)
  ultimately have "FromString ?s = fromBig (if neg then - int n else int n)"
    unfolding FromString_def Let_def trim neg rest digits_no_dot [OF p(3)]
    using p f by (simp add: allDigits_def Precision_def)
  then show ?thesis by (simp add: p(1))
qed

lemma String_show_fixed: "String m = (if amount m < 0 then ''-'' else []) @ show_fixed 7 (nat \<bar>amount m\<bar>)"
proof -
  have "nat (\<bar>amount m\<bar> div 10000000) = nat \<bar>amount m\<bar> div 10000000"
       "nat (\<bar>amount m\<bar> mod 10000000) = nat \<bar>amount m\<bar> mod 10000000"
    by (simp_all add: nat_div_distrib nat_mod_distrib)
  moreover have "(if length t < 7 then replicate (7 - length t) CHR ''0'' @ t else t) =
      replicate (7 - length t) CHR ''0'' @ t" for t by simp
  moreover have "(if amount m < 0 then \<bar>amount m\<bar> else amount m) = \<bar>amount m\<bar>" by simp
  moreover have "(10 :: nat) ^ 7 = 10000000" by simp
  ultimately show ?thesis
    by (simp only: String_def show_fixed_def StroopsPerUnit_def Precision_def Let_def append_assoc)
qed

lemma FromString_String: "FromString (String m) = Inr m"
proof -
  have "(if amount m < 0 then - int (nat \<bar>amount m\<bar>) else int (nat \<bar>amount m\<bar>)) = amount m" by simp
  then show ?thesis unfolding String_show_fixed FromString_show_fixed by simp
qed

section \<open>Floats\<close>

lemma FromFloat64_Finite:
  "FromFloat64 (Finite x) = fromBig (if x < 0 then - rne (\<bar>x\<bar> * 10 ^ 7) else rne (\<bar>x\<bar> * 10 ^ 7))"
proof -
  let ?r = "rne (\<bar>x\<bar> * 10 ^ 7)"
  have "int (nat ?r) = ?r" using rne_nonneg [of "\<bar>x\<bar> * 10 ^ 7"] by simp
  with FromString_show_fixed [of "x < 0" "nat ?r"] show ?thesis
    by (simp only: FromFloat64_def format_float_f_def Precision_def isNaN.simps isInf.simps
      float64.case simp_thms if_False)
qed

lemma Float64_round_trip:
  assumes "\<bar>amount m\<bar> < 2 ^ 52"
  shows "FromFloat64 (Float64 m) = Inr m"
proof -
  have i: "of_int64 (amount m) = Finite (of_int (amount m))"
    unfolding of_int64_def using assms by (intro fl_of_int) simp
  consider "amount m = 0" | "0 < amount m" | "amount m < 0" by linarith
  then show ?thesis
  proof cases
    case 1
    have "rne 0 = 0" using rne_of_int [of 0] by simp
    with i 1 have "FromFloat64 (Float64 m) = fromBig (amount m)"
      by (simp add: Float64_def fl_def FromFloat64_Finite)
    then show ?thesis by simp
  next
    case 2
    then obtain v where v: "fl (of_int (amount m) / of_int 10000000) = Finite v" "0 < v"
        "rne (v * of_int 10000000) = amount m"
      using scaled_round_trip [of "amount m" 10000000] assms by auto
    then have "FromFloat64 (Float64 m) = fromBig (amount m)"
      by (simp add: Float64_def i StroopsPerUnit_def FromFloat64_Finite)
    then show ?thesis by simp
  next
    case 3
    then obtain v where v: "fl (of_int (- amount m) / of_int 10000000) = Finite v" "0 < v"
        "rne (v * of_int 10000000) = - amount m"
      using scaled_round_trip [of "- amount m" 10000000] assms by auto
    have "fl (of_int (amount m) / 10000000) = Finite (- v)"
      using v(1) fl_neg [of "of_int (- amount m) / of_int 10000000"] by simp
    with v have "FromFloat64 (Float64 m) = fromBig (amount m)"
      by (simp add: Float64_def i StroopsPerUnit_def FromFloat64_Finite)
    then show ?thesis by simp
  qed
qed

section \<open>Percentages and sums\<close>

lemma rna_of_int [simp]: "rna (of_int n) = n"
proof -
  have "\<lfloor>of_int n + 1/2 :: rat\<rfloor> = n" "\<lfloor>1/2 - of_int n :: rat\<rfloor> = - n"
    by (rule floor_unique; simp)+
  then show ?thesis by (simp add: rna_def)
qed

lemma fl_2_63: "fl 9223372036854775807 = Finite (2 ^ 63)"
  by code_simp

text \<open>A whole-number percentage is applied exactly, with one final rounding.\<close>

lemma to_int64_of_int: "in_int64 n \<Longrightarrow> to_int64 oor (Finite (of_int n)) = word_of_int n"
  by (simp add: in_int64_def Let_def)

lemma Percent_whole:
  assumes "\<bar>k\<bar> \<le> 9007199254"
  shows "Percent oor m (Finite (of_int k)) = fromBig (rna (of_int (amount m) * of_int k / 100))"
proof -
  define j where "j = k * 1000000"
  have j: "\<bar>j\<bar> \<le> 2 ^ 53" using assms by (simp add: j_def)
  have f: "fmul (Finite (of_int k)) 1000000 = Finite (of_int j)"
    using fl_of_int [OF j] by (simp add: j_def)
  have "(of_int \<bar>j\<bar> :: rat) \<le> of_int (2 ^ 53)" using j by (simp only: of_int_le_iff)
  then have le: "\<not> (2 ^ 63 < \<bar>of_int j :: rat\<bar>)" by simp
  have in64: "in_int64 j" using j by (auto simp: in_int64_def abs_le_iff)
  have "Percent oor m (Finite (of_int k)) = MulDiv m (word_of_int j) 100000000"
    unfolding Percent_def f Let_def using fl_2_63 le
    by (simp add: of_int64_def to_int64_of_int [OF in64] del: to_int64.simps)
  also have "\<dots> = fromBig (rna (of_int (amount m) * of_int j / 100000000))"
    using sint_word_of_int64 [OF in64] by (subst MulDiv_exact) simp_all
  finally show ?thesis by (simp add: j_def field_simps)
qed

lemma Sum_from_Inr:
  "Sum_from t as = Inr m \<Longrightarrow> amount m = amount t + (\<Sum>a \<leftarrow> as. amount a)"
  by (induction as arbitrary: t) (auto simp: Add_eq_fromBig fromBig_Inr split: sum.splits)

lemma Sum_from_error: "Sum_from t as = Inl e \<Longrightarrow> e = Sentinel ErrOverflow"
  by (induction as arbitrary: t) (auto simp: Add_eq_fromBig fromBig_def split: sum.splits if_splits)

lemma Sum_from_nonneg:
  assumes "0 \<le> amount t" "\<forall>a \<in> set as. 0 \<le> amount a" "in_int64 (amount t + (\<Sum>a \<leftarrow> as. amount a))"
  shows "\<exists>m. Sum_from t as = Inr m"
  using assms
proof (induction as arbitrary: t)
  case (Cons a as)
  have rest: "0 \<le> (\<Sum>a \<leftarrow> as. amount a)" using Cons.prems(2) by (intro sum_list_nonneg) auto
  then have "in_int64 (amount t + amount a)" using Cons.prems by (auto simp: in_int64_def)
  then obtain t' where t': "Add t a = Inr t'" "amount t' = amount t + amount a"
    using fromBig_in_range by (auto simp: Add_eq_fromBig)
  then show ?case using Cons.IH [of t'] Cons.prems by (simp add: algebra_simps)
qed simp

section \<open>Properties\<close>

text \<open>
  C37: \<^verbatim>\<open>Add\<close>, \<^verbatim>\<open>Sub\<close>, \<^verbatim>\<open>Neg\<close> and \<^verbatim>\<open>MulInt\<close> are exact or fail: each returns the amount
  whose integer value is the mathematical result when that fits in an \<^verbatim>\<open>int64\<close>, and
  \<^verbatim>\<open>ErrOverflow\<close> exactly when it does not. The sign tests on the wrapped sum therefore detect
  every overflow and nothing else.
\<close>

theorem arithmetic_exact_or_overflow:
  "Add m n = (if in_int64 (amount m + amount n)
      then Inr \<lparr>stroops = word_of_int (amount m + amount n)\<rparr> else Inl (Sentinel ErrOverflow))
   \<and> Sub m n = (if in_int64 (amount m - amount n)
      then Inr \<lparr>stroops = word_of_int (amount m - amount n)\<rparr> else Inl (Sentinel ErrOverflow))
   \<and> Neg m = (if in_int64 (- amount m)
      then Inr \<lparr>stroops = word_of_int (- amount m)\<rparr> else Inl (Sentinel ErrOverflow))
   \<and> MulInt m k = (if in_int64 (amount m * sint k)
      then Inr \<lparr>stroops = word_of_int (amount m * sint k)\<rparr> else Inl (Sentinel ErrOverflow))"
  unfolding Add_eq_fromBig Sub_eq_fromBig Neg_eq_fromBig MulInt_def
  by (intro conjI; simp add: fromBig_def in_int64_def del: wi_hom_syms)

text \<open>
  C38: the canonical text of an amount is read back as the same amount, for every amount
  including the most negative one: by \<^verbatim>\<open>FromString\<close> and by \<^verbatim>\<open>Scan\<close> on what \<^verbatim>\<open>Value\<close> stored,
  whether the column arrives as text or as bytes.
\<close>

theorem text_round_trip:
  "FromString (String m) = Inr m \<and> Value m = Inr (String m)
   \<and> Scan (Src_string (String m)) = Inr m \<and> Scan (Src_bytes (String m)) = Inr m"
  by (simp add: FromString_String Value_def Scan_def)

text \<open>
  An amount of magnitude below \<open>2^52\<close> stroops (about 450 million tokens) survives the
  conversion to \<^verbatim>\<open>float64\<close> and back, although the division by ten million is rounded.
\<close>

theorem float_round_trip:
  assumes "\<bar>amount m\<bar> < 2 ^ 52"
  shows "FromFloat64 (Float64 m) = Inr m"
  using assms by (rule Float64_round_trip)

theorem float_round_trip_witness: "FromFloat64 (Float64 \<lparr>stroops = 123456789\<rparr>) = Inr \<lparr>stroops = 123456789\<rparr>"
  by (rule float_round_trip) simp

text \<open>
  \<^verbatim>\<open>MulDiv\<close> is the exact quotient rounded half away from zero, or \<^verbatim>\<open>ErrOverflow\<close> when
  that integer does not fit; a zero divisor is \<^verbatim>\<open>ErrDivideByZero\<close>.
\<close>

theorem MulDiv_rounds_half_away:
  "MulDiv m num den = (if den = 0 then Inl (Sentinel ErrDivideByZero) else
     let v = rna (of_int (amount m) * of_int (sint num) / of_int (sint den)) in
     if in_int64 v then Inr \<lparr>stroops = word_of_int v\<rparr> else Inl (Sentinel ErrOverflow))"
  by (simp add: MulDiv_exact MulDiv_def [of m num 0] fromBig_def in_int64_def Let_def)

text \<open>
  \<^verbatim>\<open>FromFloat64\<close> rounds a finite float to the nearest stroop with ties to even, because
  the text it parses comes from \<^verbatim>\<open>strconv.FormatFloat\<close>; its comment promises half away from
  zero. At the tie \<open>1/256\<close> the two differ by one stroop.
\<close>

theorem FromFloat64_ties_to_even:
  "FromFloat64 (Finite x) = fromBig (if x < 0 then - rne (\<bar>x\<bar> * 10 ^ 7) else rne (\<bar>x\<bar> * 10 ^ 7))
   \<and> FromFloat64 (Finite (1/256)) = Inr \<lparr>stroops = 39062\<rparr>
   \<and> float64_wf (Finite (1/256)) \<and> rna (1/256 * 10 ^ 7) = 39063"
proof -
  have "rne (\<bar>1/256\<bar> * 10 ^ 7) = 39062" by code_simp
  then have "FromFloat64 (Finite (1/256)) = fromBig 39062" by (simp add: FromFloat64_Finite)
  also have "\<dots> = Inr \<lparr>stroops = 39062\<rparr>" by (simp add: fromBig_def)
  finally have "FromFloat64 (Finite (1/256)) = Inr \<lparr>stroops = 39062\<rparr>" .
  moreover have "float64_wf (Finite (1/256)) \<and> rna (1/256 * 10 ^ 7) = 39063" by code_simp
  ultimately show ?thesis using FromFloat64_Finite by blast
qed

lemma boundary_percent:
  "float64_wf (Finite (9223372036854 + 397/512))"
  "math_Round (fmul (Finite (9223372036854 + 397/512)) 1000000) = Finite (2 ^ 63)"
  by code_simp+

text \<open>
  The range check of \<^verbatim>\<open>Percent\<close> lets the first value outside \<^verbatim>\<open>int64\<close> through:
  \<^verbatim>\<open>float64(math.MaxInt64)\<close> is \<open>2^63\<close>, so a scaled percentage of exactly \<open>2^63\<close> is not
  greater. The conversion that follows is out of range, and on amd64 a positive percentage
  of one stroop comes back as a negative amount.
\<close>

theorem Percent_boundary_wraps:
  "float64_wf (Finite (9223372036854 + 397/512)) \<and>
   Percent oor_amd64 \<lparr>stroops = 1\<rparr> (Finite (9223372036854 + 397/512))
     = Inr \<lparr>stroops = word_of_int (- 92233720369)\<rparr>"
proof
  show "float64_wf (Finite (9223372036854 + 397/512))" by (rule boundary_percent)
  have "MulDiv \<lparr>stroops = 1\<rparr> (word_of_int (- (2 ^ 63))) 100000000 = Inr \<lparr>stroops = word_of_int (- 92233720369)\<rparr>"
    by code_simp
  then show "Percent oor_amd64 \<lparr>stroops = 1\<rparr> (Finite (9223372036854 + 397/512))
      = Inr \<lparr>stroops = word_of_int (- 92233720369)\<rparr>"
    unfolding Percent_def Let_def boundary_percent(2) using fl_2_63
    by (simp add: of_int64_def oor_amd64_def)
qed

text \<open>
  \<^verbatim>\<open>Sum\<close> of non-negative amounts returns their exact total when it fits in \<^verbatim>\<open>int64\<close> and
  \<^verbatim>\<open>ErrOverflow\<close> when it does not.
\<close>

theorem Sum_nonneg_exact_or_overflow:
  assumes "\<forall>a \<in> set as. 0 \<le> amount a"
  shows "Sum as = (if in_int64 (\<Sum>a \<leftarrow> as. amount a)
    then Inr \<lparr>stroops = word_of_int (\<Sum>a \<leftarrow> as. amount a)\<rparr> else Inl (Sentinel ErrOverflow))"
proof (cases "in_int64 (\<Sum>a \<leftarrow> as. amount a)")
  case True
  then obtain m where m: "Sum_from Zero as = Inr m"
    using Sum_from_nonneg [of Zero as] assms by (auto simp: Zero_def)
  from Sum_from_Inr [OF m] have "amount m = (\<Sum>a \<leftarrow> as. amount a)" by (simp add: Zero_def)
  then have "fromBig (\<Sum>a \<leftarrow> as. amount a) = Inr m" using True by (simp add: fromBig_Inr)
  then show ?thesis using True m by (simp add: Sum_def fromBig_def in_int64_def)
next
  case False
  have "Sum_from Zero as \<noteq> Inr m" for m
  proof
    assume "Sum_from Zero as = Inr m"
    from Sum_from_Inr [OF this] False amount_range [of "stroops m"] show False by (simp add: Zero_def)
  qed
  then obtain e where "Sum_from Zero as = Inl e" by (cases "Sum_from Zero as") auto
  with Sum_from_error [OF this] False show ?thesis by (simp add: Sum_def)
qed

theorem Sum_nonneg_exact_or_overflow_witness:
  "Sum [\<lparr>stroops = 5\<rparr>, \<lparr>stroops = 7\<rparr>] = Inr \<lparr>stroops = 12\<rparr>"
  using Sum_nonneg_exact_or_overflow [of "[\<lparr>stroops = 5\<rparr>, \<lparr>stroops = 7\<rparr>]"] by (simp add: in_int64_def)

end
