(* ===== verification/CircleMath.thy ===== *)
theory CircleMath
  imports Money "HOL-Library.Multiset"
begin

text \<open>
  \<^verbatim>\<open>internal/domain/circle/payout.go\<close> and \<^verbatim>\<open>penalties.go\<close>: who receives a round and how
  much, and what a late or leaving member owes.

  A Go map is iterated in an unspecified order, so \<^verbatim>\<open>AuctionWinner\<close> and \<^verbatim>\<open>VoteTally\<close> take
  the list of entries in the order of one run. \<^verbatim>\<open>rand.Shuffle\<close> swaps position \<open>i\<close> with a
  drawn position \<open>pick i \<le> i\<close>, from the last position down to the first; the draws are the
  parameter \<open>pick\<close>.
\<close>

section \<open>Order of payouts\<close>

definition swap :: "'a list \<Rightarrow> nat \<Rightarrow> nat \<Rightarrow> 'a list" where
  "swap xs i j = xs[i := xs ! j, j := xs ! i]"

fun Shuffle :: "(nat \<Rightarrow> nat) \<Rightarrow> nat \<Rightarrow> 'a list \<Rightarrow> 'a list" where
  "Shuffle pick 0 xs = xs"
| "Shuffle pick (Suc i) xs = Shuffle pick i (swap xs (Suc i) (pick (Suc i)))"

text \<open>\<open>None\<close> is the panic of \<^verbatim>\<open>make\<close> with a negative length.\<close>

definition RandomOrder :: "(nat \<Rightarrow> nat) \<Rightarrow> int \<Rightarrow> nat list option" where
  "RandomOrder pick memberCount =
     (if memberCount < 0 then None
      else let order = [0..<nat memberCount] in Some (Shuffle pick (length order - 1) order))"

fun AuctionWinner_loop :: "(string \<times> float64) list \<Rightarrow> string \<Rightarrow> float64 \<Rightarrow> string \<times> float64" where
  "AuctionWinner_loop [] winner maxBid = (winner, maxBid)"
| "AuctionWinner_loop ((user, bid) # bids) winner maxBid =
     (if flt maxBid bid then AuctionWinner_loop bids user bid
      else AuctionWinner_loop bids winner maxBid)"

definition AuctionWinner :: "(string \<times> float64) list \<Rightarrow> string \<times> float64" where
  "AuctionWinner bids = AuctionWinner_loop bids [] (Finite 0)"

fun VoteTally_loop :: "(string \<times> int) list \<Rightarrow> string \<Rightarrow> int \<Rightarrow> string" where
  "VoteTally_loop [] winner maxVotes = winner"
| "VoteTally_loop ((user, cnt) # votes) winner maxVotes =
     (if cnt > maxVotes then VoteTally_loop votes user cnt
      else VoteTally_loop votes winner maxVotes)"

definition VoteTally :: "(string \<times> int) list \<Rightarrow> string" where
  "VoteTally votes = VoteTally_loop votes [] 0"

section \<open>Amounts\<close>

definition PayoutPool :: "money \<Rightarrow> int64 \<Rightarrow> money \<Rightarrow> money result" where
  "PayoutPool contribution memberCount latePenalties =
     (case MulInt contribution memberCount of
        Inl e \<Rightarrow> Inl e
      | Inr pool \<Rightarrow> Add pool latePenalties)"

definition CalculatePayout :: "float64 \<Rightarrow> int64 \<Rightarrow> int64 \<Rightarrow> float64 \<Rightarrow> float64" where
  "CalculatePayout contributionAmount memberCount roundNumber latePenalties =
     (case FromFloat64 contributionAmount of
        Inl e \<Rightarrow> Finite 0
      | Inr contribution \<Rightarrow>
          (case FromFloat64 latePenalties of
             Inl e \<Rightarrow> Finite 0
           | Inr penalties \<Rightarrow>
               (case PayoutPool contribution memberCount penalties of
                  Inl e \<Rightarrow> Finite 0
                | Inr pool \<Rightarrow> Float64 pool)))"

definition LateFee :: "(float64 \<Rightarrow> int64) \<Rightarrow> money \<Rightarrow> float64 \<Rightarrow> money result" where
  "LateFee oor contribution lateFeePercent = Percent oor contribution lateFeePercent"

definition CalculateLateFee :: "(float64 \<Rightarrow> int64) \<Rightarrow> float64 \<Rightarrow> float64 \<Rightarrow> float64" where
  "CalculateLateFee oor contributionAmount lateFeePercent =
     (case FromFloat64 contributionAmount of
        Inl e \<Rightarrow> Finite 0
      | Inr contribution \<Rightarrow>
          (case LateFee oor contribution lateFeePercent of
             Inl e \<Rightarrow> Finite 0
           | Inr fee \<Rightarrow> Float64 fee))"

definition EarlyExitPenalty :: "money \<Rightarrow> money \<Rightarrow> int64 \<Rightarrow> money result" where
  "EarlyExitPenalty totalContributed collateral strikes =
     (if \<not> IsPositive totalContributed then Inr collateral
      else (case MulDiv collateral (strikes + 1) 10 of
              Inl e \<Rightarrow> Inl e
            | Inr penalty \<Rightarrow>
                Inr (if Cmp penalty totalContributed > 0 then totalContributed else penalty)))"

definition CalculateEarlyExitPenalty :: "float64 \<Rightarrow> float64 \<Rightarrow> int64 \<Rightarrow> float64" where
  "CalculateEarlyExitPenalty totalContributed collateralAmount strikes =
     (case FromFloat64 totalContributed of
        Inl e \<Rightarrow> Finite 0
      | Inr contributed \<Rightarrow>
          (case FromFloat64 collateralAmount of
             Inl e \<Rightarrow> Finite 0
           | Inr collateral \<Rightarrow>
               (case EarlyExitPenalty contributed collateral strikes of
                  Inl e \<Rightarrow> Finite 0
                | Inr penalty \<Rightarrow> Float64 penalty)))"

definition ShouldRemoveMember :: "int \<Rightarrow> int \<Rightarrow> bool" where
  "ShouldRemoveMember strikes maxStrikes = (strikes \<ge> maxStrikes)"

text \<open>\<^verbatim>\<open>ApplyStrikes\<close> does not read the member it is given.\<close>

definition ApplyStrikes :: "string \<Rightarrow> int" where
  "ApplyStrikes penaltyType = (if penaltyType = ''severe'' then 3 else 1)"

section \<open>Lemmas\<close>

lemma length_swap [simp]: "length (swap xs i j) = length xs"
  by (simp add: swap_def)

lemma mset_swap_positions: "i < length xs \<Longrightarrow> j < length xs \<Longrightarrow> mset (swap xs i j) = mset xs"
  by (simp add: swap_def mset_swap)

lemma Shuffle_mset:
  "i < length xs \<Longrightarrow> (\<And>k. k \<le> i \<Longrightarrow> pick k \<le> k) \<Longrightarrow> mset (Shuffle pick i xs) = mset xs"
proof (induction i arbitrary: xs)
  case (Suc i)
  have "pick (Suc i) \<le> Suc i" using Suc.prems(2) by blast
  then have "mset (swap xs (Suc i) (pick (Suc i))) = mset xs"
    using Suc.prems(1) by (intro mset_swap_positions) simp_all
  moreover have "mset (Shuffle pick i (swap xs (Suc i) (pick (Suc i)))) = mset (swap xs (Suc i) (pick (Suc i)))"
    using Suc.prems by (intro Suc.IH) simp_all
  ultimately show ?case by simp
qed simp

lemma VoteTally_loop_max:
  "VoteTally_loop votes winner maxVotes = w \<Longrightarrow>
     (w = winner \<and> (\<forall>(u, c) \<in> set votes. c \<le> maxVotes))
   \<or> (\<exists>c. (w, c) \<in> set votes \<and> maxVotes < c \<and> (\<forall>(u', c') \<in> set votes. c' \<le> c))"
proof (induction votes winner maxVotes rule: VoteTally_loop.induct)
  case (2 user cnt votes winner maxVotes)
  show ?case
  proof (cases "cnt > maxVotes")
    case True
    with "2.prems" have "VoteTally_loop votes user cnt = w" by simp
    from "2.IH"(1) [OF True this] True
    have "\<exists>c. (w, c) \<in> set ((user, cnt) # votes) \<and> maxVotes < c \<and> (\<forall>(u', c') \<in> set ((user, cnt) # votes). c' \<le> c)"
      by (auto intro: exI [of _ cnt])
    then show ?thesis ..
  next
    case False
    with "2.prems" have "VoteTally_loop votes winner maxVotes = w" by simp
    from "2.IH"(2) [OF False this] False show ?thesis by auto
  qed
qed simp

lemma PayoutPool_nonneg:
  assumes "0 \<le> amount c" "0 \<le> sint n" "0 \<le> amount p"
  shows "PayoutPool c n p = fromBig (amount c * sint n + amount p)"
proof (cases "in_int64 (amount c * sint n)")
  case True
  then obtain pool where "MulInt c n = Inr pool" "amount pool = amount c * sint n"
    using fromBig_in_range by (auto simp: MulInt_def)
  then show ?thesis by (simp add: PayoutPool_def Add_eq_fromBig)
next
  case False
  have "0 \<le> amount c * sint n" using assms by simp
  with False assms have "\<not> in_int64 (amount c * sint n + amount p)" by (auto simp: in_int64_def)
  with False show ?thesis by (simp add: PayoutPool_def MulInt_def fromBig_overflow)
qed

lemma sint_succ: "0 \<le> sint (s :: int64) \<Longrightarrow> sint s < 2 ^ 63 - 1 \<Longrightarrow> sint (s + 1) = sint s + 1"
  using sint_word_of_int64 [of "sint s + 1"] by (simp add: in_int64_def wi_hom_add [symmetric])

lemma rna_mono: "x \<le> y \<Longrightarrow> rna x \<le> rna y"
proof -
  assume le: "x \<le> y"
  consider "0 \<le> x" | "x < 0" "0 \<le> y" | "x < 0" "y < 0" by linarith
  then show ?thesis
  proof cases
    case 1 with le show ?thesis by (simp add: rna_def floor_mono)
  next
    case 2
    have "- \<lfloor>\<bar>x\<bar> + 1/2\<rfloor> \<le> 0" "0 \<le> \<lfloor>\<bar>y\<bar> + 1/2\<rfloor>" using 2 by (simp_all add: le_floor_iff)
    then have "- \<lfloor>\<bar>x\<bar> + 1/2\<rfloor> \<le> \<lfloor>\<bar>y\<bar> + 1/2\<rfloor>" by (rule order_trans)
    with 2 show ?thesis by (simp add: rna_def)
  next
    case 3
    with le have "\<lfloor>1/2 - y\<rfloor> \<le> \<lfloor>1/2 - x\<rfloor>" by (intro floor_mono) simp
    with 3 show ?thesis by (simp add: rna_def)
  qed
qed

lemma rna_nonneg: "0 \<le> x \<Longrightarrow> 0 \<le> rna x"
  using rna_mono [of 0 x] rna_of_int [of 0] by simp

lemma percent_bounds:
  assumes "0 \<le> (a::int)" "0 \<le> k" "k \<le> 100"
  shows "0 \<le> rna (of_int a * of_int k / 100)" "rna (of_int a * of_int k / 100) \<le> a"
proof -
  show "0 \<le> rna (of_int a * of_int k / 100)" using assms by (intro rna_nonneg) simp
  have "(of_int k :: rat) \<le> of_int 100" using assms(3) by (simp only: of_int_le_iff)
  then have "(of_int a * of_int k :: rat) \<le> of_int a * 100"
    using assms(1) by (intro mult_left_mono) simp_all
  then have "rna (of_int a * of_int k / 100) \<le> rna (of_int a)" by (intro rna_mono) simp
  then show "rna (of_int a * of_int k / 100) \<le> a" by simp
qed


section \<open>Properties\<close>

text \<open>
  Whatever the draws, as long as each is a position of the part still to be shuffled,
  \<^verbatim>\<open>RandomOrder\<close> gives every one of the \<open>n\<close> members exactly one place in the payout order.
\<close>

theorem RandomOrder_permutation:
  assumes "\<And>k. pick k \<le> k"
  shows "\<exists>order. RandomOrder pick (int n) = Some order \<and> mset order = mset [0..<n] \<and> distinct order"
proof (cases n)
  case 0
  then show ?thesis by (simp add: RandomOrder_def)
next
  case (Suc i)
  have "mset (Shuffle pick i [0..<n]) = mset [0..<n]"
    using assms Suc by (intro Shuffle_mset) auto
  moreover from this have "distinct (Shuffle pick i [0..<n])"
    by (metis distinct_upt mset_eq_imp_distinct_iff)
  moreover have "RandomOrder pick (int n) = Some (Shuffle pick i [0..<n])"
    unfolding RandomOrder_def Let_def by (simp add: Suc del: upt_Suc of_nat_Suc)
  ultimately show ?thesis by blast
qed

theorem RandomOrder_permutation_witness:
  "\<exists>order. RandomOrder (\<lambda>k. k div 2) (int 5) = Some order \<and> mset order = mset [0..<5] \<and> distinct order"
  by (rule RandomOrder_permutation) simp

text \<open>
  A winner named by \<^verbatim>\<open>VoteTally\<close> has at least one vote and no member has more, in every
  iteration order; but the order decides a tie, so two runs on the same tally can name
  different members.
\<close>

theorem VoteTally_winner:
  assumes "\<exists>(u, c) \<in> set votes. 0 < c"
  shows "(\<exists>c. (VoteTally votes, c) \<in> set votes \<and> 0 < c \<and> (\<forall>(u', c') \<in> set votes. c' \<le> c))
    \<and> (\<exists>t t'. mset t = mset t' \<and> VoteTally t \<noteq> VoteTally t')"
proof
  show "\<exists>c. (VoteTally votes, c) \<in> set votes \<and> 0 < c \<and> (\<forall>(u', c') \<in> set votes. c' \<le> c)"
    using VoteTally_loop_max [of votes "[]" 0 "VoteTally votes"] assms
    by (force simp: VoteTally_def)
  show "\<exists>t t'. mset t = mset t' \<and> VoteTally t \<noteq> VoteTally t'"
    by (rule exI [of _ "[(''a'', 2), (''b'', 2)]"], rule exI [of _ "[(''b'', 2), (''a'', 2)]"])
       (simp add: VoteTally_def)
qed

theorem VoteTally_winner_witness:
  "(\<exists>c. (VoteTally [(''a'', 1), (''b'', 4)], c) \<in> set [(''a'', 1 :: int), (''b'', 4)] \<and> 0 < c
      \<and> (\<forall>(u', c') \<in> set [(''a'', 1), (''b'', 4)]. c' \<le> c))
   \<and> (\<exists>t t'. mset t = mset t' \<and> VoteTally t \<noteq> VoteTally t')"
  by (rule VoteTally_winner) simp

text \<open>
  The pool of a round is exactly the contribution times the number of members plus the
  late penalties, or \<^verbatim>\<open>ErrOverflow\<close> when that is no \<^verbatim>\<open>int64\<close>.
\<close>

theorem PayoutPool_exact_or_overflow:
  assumes "0 \<le> amount c" "0 \<le> sint n" "0 \<le> amount p"
  shows "PayoutPool c n p =
    (if in_int64 (amount c * sint n + amount p)
     then Inr \<lparr>stroops = word_of_int (amount c * sint n + amount p)\<rparr>
     else Inl (Sentinel ErrOverflow))"
  unfolding PayoutPool_nonneg [OF assms] by (simp add: fromBig_def in_int64_def)

theorem PayoutPool_exact_or_overflow_witness:
  "PayoutPool \<lparr>stroops = 500000000\<rparr> 10 \<lparr>stroops = 7\<rparr> = Inr \<lparr>stroops = 5000000007\<rparr>"
  using PayoutPool_exact_or_overflow [of "\<lparr>stroops = 500000000\<rparr>" 10 "\<lparr>stroops = 7\<rparr>"]
  by (simp add: in_int64_def)

text \<open>
  A late fee of a whole percentage between 0 and 100 always exists, is never negative
  and never more than the contribution.
\<close>

theorem LateFee_bounded:
  assumes "0 \<le> amount c" "0 \<le> k" "k \<le> 100"
  shows "\<exists>fee. LateFee oor c (Finite (of_int k)) = Inr fee \<and> 0 \<le> amount fee \<and> amount fee \<le> amount c
     \<and> amount fee = rna (of_int (amount c) * of_int k / 100)"
proof -
  let ?r = "rna (of_int (amount c) * of_int k / 100)"
  have b: "0 \<le> ?r" "?r \<le> amount c" using percent_bounds assms by blast+
  then have "in_int64 ?r" using amount_bounds [of "stroops c"] by (auto simp: in_int64_def)
  then obtain fee where "fromBig ?r = Inr fee" "amount fee = ?r" using fromBig_in_range by blast
  then show ?thesis using b assms by (auto simp: LateFee_def Percent_whole)
qed

theorem LateFee_bounded_witness:
  "\<exists>fee. LateFee oor_amd64 \<lparr>stroops = 15\<rparr> (Finite (of_int 10)) = Inr fee \<and> 0 \<le> amount fee
     \<and> amount fee \<le> amount \<lparr>stroops = 15\<rparr>
     \<and> amount fee = rna (of_int (amount \<lparr>stroops = 15\<rparr>) * of_int 10 / 100)"
  by (rule LateFee_bounded) simp_all

text \<open>
  A member who has contributed leaves with a penalty of a tenth of the collateral for
  each strike and one more, rounded half away from zero, and never more than was
  contributed; a member who has not contributed forfeits the whole collateral.
\<close>

theorem EarlyExitPenalty_capped:
  assumes "0 \<le> amount coll" "0 \<le> sint s" "sint s < 2 ^ 63 - 1"
  shows "EarlyExitPenalty t coll s =
    (if amount t \<le> 0 then Inr coll
     else let p = rna (of_int (amount coll) * (of_int (sint s) + 1) / 10) in
       if in_int64 p then Inr \<lparr>stroops = word_of_int (min p (amount t))\<rparr>
       else Inl (Sentinel ErrOverflow))"
proof (cases "amount t \<le> 0")
  case True
  then show ?thesis by (simp add: EarlyExitPenalty_def IsPositive_def)
next
  case False
  define p where "p = rna (of_int (amount coll) * (of_int (sint s) + 1) / 10)"
  have "sint (s + 1) = sint s + 1" using assms(2,3) by (rule sint_succ)
  then have md: "MulDiv coll (s + 1) 10 = fromBig p" by (simp add: MulDiv_exact p_def)
  have eq: "EarlyExitPenalty t coll s =
      (if in_int64 p then Inr \<lparr>stroops = word_of_int (min p (amount t))\<rparr> else Inl (Sentinel ErrOverflow))"
  proof (cases "in_int64 p")
    case True
    then obtain m where m: "fromBig p = Inr m" "amount m = p" using fromBig_in_range by blast
    then have "m = \<lparr>stroops = word_of_int p\<rparr>" using True by (simp add: fromBig_def in_int64_def)
    then show ?thesis using True False md m
      by (auto simp: EarlyExitPenalty_def IsPositive_def Cmp_def min_def)
  next
    case no: False
    then show ?thesis using False md by (simp add: EarlyExitPenalty_def IsPositive_def fromBig_overflow)
  qed
  show ?thesis using False unfolding eq by (simp add: p_def)
qed

theorem EarlyExitPenalty_capped_witness:
  "EarlyExitPenalty \<lparr>stroops = 1000\<rparr> \<lparr>stroops = 555\<rparr> 2 = Inr \<lparr>stroops = 167\<rparr>"
  using EarlyExitPenalty_capped [of "\<lparr>stroops = 555\<rparr>" 2 "\<lparr>stroops = 1000\<rparr>"]
  by (simp add: in_int64_def rna_def floor_divide_of_int_eq [symmetric])

end
