(* ===== verification/CircleRepo.thy ===== *)
theory CircleRepo
  imports CircleMath
begin

text \<open>
  \<^verbatim>\<open>internal/domain/circle/model.go\<close> and \<^verbatim>\<open>repository_pg.go\<close>: the tables of savings circles and
  the statements on them.

  The state \<open>circles_db\<close> has one list of rows per table. Constraints of the migrations that the
  code relies on are checked by the statements: the primary key of circles, one membership per
  user and circle, one vote per voter and round, one bid per bidder and round, one
  configuration snapshot per round, and \<^verbatim>\<open>max_members\<close> between 2 and 100; a unique violation is
  the error \<open>unique_violation\<close>. Any other failure of a statement (foreign keys into users,
  enum values, connection) is a fault of the environment. \<^verbatim>\<open>NUMERIC\<close> columns hold the float that
  was written. \<^verbatim>\<open>MemberCount\<close> is not a column: reading a circle counts its active members.
  \<^verbatim>\<open>B_log\<close> keeps the calls of the broadcaster, the notification service and the audit log.
\<close>

section \<open>Model\<close>

datatype CircleType = CircleTypePublic | CircleTypePrivate | CircleTypePremium | CircleTypeOther string

datatype PayoutType = PayoutTypeRandom | PayoutTypeFixed | PayoutTypeAuction | PayoutTypeVote

datatype CircleFrequency = FrequencyDaily | FrequencyWeekly | FrequencyBiweekly | FrequencyMonthly

datatype CircleCurrency = CurrencyUSDC | CurrencyXLM

datatype CircleStatus =
    CircleStatusPending | CircleStatusActive | CircleStatusCompleted | CircleStatusCancelled
  | CircleStatusOther string

datatype MemberStatus = MemberStatusActive | MemberStatusExited | MemberStatusRemoved | MemberStatusOther string

record circle =
  C_ID :: uuid
  C_ContractID :: "string option"
  C_CommunityID :: "uuid option"
  C_Name :: string
  C_Description :: "string option"
  C_CircleType :: CircleType
  C_PayoutType :: PayoutType
  C_ContributionAmount :: float64
  C_Currency :: CircleCurrency
  C_Frequency :: CircleFrequency
  C_MaxMembers :: int
  C_MinMoiScore :: int
  C_CollateralPercent :: float64
  C_LateFeePercent :: float64
  C_GracePeriodHours :: int
  C_MaxStrikes :: int
  C_MemberCount :: int
  C_RequiresInvite :: bool
  C_StartDate :: "time option"
  C_EndDate :: "time option"
  C_Status :: CircleStatus
  C_CurrentRound :: int
  C_TotalContributions :: float64
  C_OrganizerID :: uuid
  C_CreatedAt :: time
  C_UpdatedAt :: time
  C_DeletedAt :: "time option"

record circle_member =
  CM_CircleID :: uuid
  CM_UserID :: uuid
  CM_Position :: int
  CM_Status :: MemberStatus
  CM_JoinedAt :: time

datatype PenaltyType = PenaltyTypeLate | PenaltyTypeDefault | PenaltyTypeEarlyExit

record penalty =
  PN_ID :: uuid
  PN_CircleID :: uuid
  PN_UserID :: uuid
  PN_RoundNumber :: int
  PN_PenaltyType :: PenaltyType
  PN_Amount :: float64
  PN_StrikesApplied :: int
  PN_Reason :: "string option"
  PN_CreatedAt :: time

record circle_dispute =
  DS_ID :: uuid
  DS_CircleID :: uuid
  DS_RaiserID :: uuid
  DS_Reason :: string
  DS_Details :: "string option"
  DS_Status :: string
  DS_CreatedAt :: time
  DS_UpdatedAt :: time

record circle_vote =
  CV_ID :: uuid
  CV_CircleID :: uuid
  CV_VoterID :: uuid
  CV_RecipientID :: uuid
  CV_RoundNumber :: int
  CV_CreatedAt :: time

record auction_bid =
  AB_ID :: uuid
  AB_CircleID :: uuid
  AB_BidderID :: uuid
  AB_RoundNumber :: int
  AB_BidAmount :: float64
  AB_CreatedAt :: time

record round_config =
  RC_ID :: uuid
  RC_CircleID :: uuid
  RC_RoundNumber :: int
  RC_ConfigHash :: string
  RC_ConfigJSON :: string
  RC_CreatedAt :: time

record raw_contrib =
  CB_ID :: uuid
  CB_CircleID :: uuid
  CB_UserID :: uuid
  CB_RoundNumber :: int
  CB_Amount :: float64
  CB_TxnHash :: "string option"
  CB_Status :: string
  CB_OnTime :: bool
  CB_VerifiedOnchain :: bool
  CB_VerificationStatus :: string
  CB_CreatedAt :: time

record raw_payout =
  PO_ID :: uuid
  PO_CircleID :: uuid
  PO_RecipientID :: uuid
  PO_RoundNumber :: int
  PO_Amount :: float64
  PO_FeeAmount :: float64
  PO_TxnHash :: "string option"
  PO_PayoutType :: string
  PO_VerifiedOnchain :: bool
  PO_VerificationStatus :: string
  PO_CreatedAt :: time

datatype effect =
    CircleCreated string string
  | CircleStatusChanged string string
  | MemberJoined string string
  | MemberLeft string string
  | ContributionRecorded string string int float64
  | MemberPenalized string string int float64
  | NotifyDispute string string string
  | AuditDispute uuid uuid string

record circles_db =
  B_circles :: "circle list"
  B_members :: "circle_member list"
  B_penalties :: "penalty list"
  B_disputes :: "circle_dispute list"
  B_votes :: "circle_vote list"
  B_bids :: "auction_bid list"
  B_configs :: "round_config list"
  B_contribs :: "raw_contrib list"
  B_payouts :: "raw_payout list"
  B_log :: "effect list"

record circle_filter =
  F_Search :: string
  F_Status :: "CircleStatus option"
  F_Type :: "CircleType option"
  F_Page :: int64
  F_Limit :: int64
  F_ExcludeIDs :: "uuid list"
  F_CommunityID :: "uuid option"
  F_OrganizerID :: "uuid option"

section \<open>Statements and environment\<close>

datatype circle_stmt =
    CQ_Begin
  | CQ_BeginRepeatable
  | CQ_Commit
  | CQ_FindByID uuid
  | CQ_FindByContractID string
  | CQ_List
  | CQ_Count
  | CQ_InsertCircle uuid
  | CQ_UpdateCircle uuid
  | CQ_DeleteCircle uuid
  | CQ_InsertMember uuid uuid
  | CQ_GetMembers uuid
  | CQ_GetMemberCount uuid
  | CQ_UpdateMemberStatus uuid uuid MemberStatus
  | CQ_FindMember uuid uuid
  | CQ_FindCirclesByUser uuid
  | CQ_InsertPenalty uuid uuid int
  | CQ_PenaltiesByCircle uuid
  | CQ_PenaltiesByUser uuid
  | CQ_Contributors uuid int
  | CQ_InsertDispute uuid
  | CQ_InsertVote uuid uuid int
  | CQ_VotesByRound uuid int
  | CQ_UpsertBid uuid uuid int
  | CQ_BidsByRound uuid int
  | CQ_SaveConfig uuid int
  | CQ_GetConfig uuid int
  | CQ_SnapshotContribs uuid
  | CQ_SnapshotPayouts uuid
  | CQ_SnapshotConfigs uuid
  | CQ_UserCircleIDs uuid

text \<open>
  What the circle code takes from elsewhere: PostgreSQL's \<^verbatim>\<open>ILIKE\<close>, the score of a user, the
  community membership, \<^verbatim>\<open>json.Marshal\<close> of the round configuration, SHA-256, and the order in
  which a Go map is ranged over.
\<close>

record cenv = "circle_stmt env" +
  ilike :: "string \<Rightarrow> string \<Rightarrow> bool"
  user_moi :: "uuid \<Rightarrow> int result"
  community_member :: "uuid \<Rightarrow> uuid \<Rightarrow> bool result"
  config_json :: "circle \<Rightarrow> string result"
  sha256_hex :: "string \<Rightarrow> string"
  range_tally :: "(string \<times> int) list \<Rightarrow> (string \<times> int) list"
  float_to_int64 :: "float64 \<Rightarrow> int64"

definition unique_violation :: error where
  "unique_violation = Driver ''pq: 23505''"

definition isUniqueViolationPg :: "error \<Rightarrow> bool" where
  "isUniqueViolationPg e = (e = unique_violation)"

section \<open>Circles\<close>

definition active_count :: "circles_db \<Rightarrow> uuid \<Rightarrow> int" where
  "active_count d i = int (length (filter (\<lambda>m. CM_CircleID m = i \<and> CM_Status m = MemberStatusActive) (B_members d)))"

text \<open>A circle as it is read: with its member count, without the deletion mark.\<close>

definition read_circle :: "circles_db \<Rightarrow> circle \<Rightarrow> circle" where
  "read_circle d c = c\<lparr>C_MemberCount := active_count d (C_ID c), C_DeletedAt := None\<rparr>"

definition scanCircle :: "circle option result \<Rightarrow> circle result" where
  "scanCircle r =
     (case r of
        Inl e \<Rightarrow> if e = Sentinel Sql_ErrNoRows then Inl (Sentinel ErrCircleNotFound)
                else Inl (Wrap ''scanning circle row'' e)
      | Inr None \<Rightarrow> Inl (Sentinel ErrCircleNotFound)
      | Inr (Some c) \<Rightarrow> Inr c)"

definition find_circle :: "circles_db \<Rightarrow> uuid \<Rightarrow> circle option" where
  "find_circle d i = List.find (\<lambda>c. C_ID c = i \<and> C_DeletedAt c = None) (B_circles d)"

definition FindByID :: "cenv \<Rightarrow> uuid \<Rightarrow> circles_db \<Rightarrow> circle result" where
  "FindByID env i d =
     scanCircle (run_query env (CQ_FindByID i) (map_option (read_circle d) (find_circle d i)))"

definition FindByContractID :: "cenv \<Rightarrow> string \<Rightarrow> circles_db \<Rightarrow> circle result" where
  "FindByContractID env contractID d =
     scanCircle (run_query env (CQ_FindByContractID contractID)
       (map_option (read_circle d)
         (List.find (\<lambda>c. C_ContractID c = Some contractID \<and> C_DeletedAt c = None) (B_circles d))))"

text \<open>The \<^verbatim>\<open>WHERE\<close> clause shared by \<^verbatim>\<open>List\<close> and \<^verbatim>\<open>Count\<close>, and the number of its parameters.\<close>

definition matches_filter :: "cenv \<Rightarrow> circle_filter \<Rightarrow> circle \<Rightarrow> bool" where
  "matches_filter env f c =
     (C_DeletedAt c = None
      \<and> (F_Search f \<noteq> [] \<longrightarrow> (let pat = ''%'' @ F_Search f @ ''%'' in
           ilike env pat (C_Name c) \<or> (case C_Description c of None \<Rightarrow> False | Some t \<Rightarrow> ilike env pat t)))
      \<and> (case F_Status f of None \<Rightarrow> True | Some s \<Rightarrow> C_Status c = s)
      \<and> (case F_Type f of None \<Rightarrow> True | Some t \<Rightarrow> C_CircleType c = t)
      \<and> (case F_CommunityID f of None \<Rightarrow> True | Some i \<Rightarrow> C_CommunityID c = Some i)
      \<and> (case F_OrganizerID f of None \<Rightarrow> True | Some i \<Rightarrow> C_OrganizerID c = i))"

definition filter_args :: "circle_filter \<Rightarrow> nat" where
  "filter_args f = (if F_Search f \<noteq> [] then 2 else 0) + (if F_Status f \<noteq> None then 1 else 0)
     + (if F_Type f \<noteq> None then 1 else 0) + (if F_CommunityID f \<noteq> None then 1 else 0)
     + (if F_OrganizerID f \<noteq> None then 1 else 0)"

text \<open>
  The placeholders of the exclusion list: in iteration \<open>i\<close> the code writes
  \<^verbatim>\<open>$(len(args)+1+i)\<close> and then appends the argument, so \<^verbatim>\<open>len(args)\<close> has grown by \<open>i\<close> already.
\<close>

fun exclude_placeholders :: "nat \<Rightarrow> nat \<Rightarrow> uuid list \<Rightarrow> nat list" where
  "exclude_placeholders len_args i [] = []"
| "exclude_placeholders len_args i (x # xs) = (len_args + 1 + i) # exclude_placeholders (Suc len_args) (Suc i) xs"

text \<open>
  PostgreSQL refuses a statement with a parameter that no placeholder refers to; the
  exclusion list is bound correctly when its placeholders are the next numbers in order.
\<close>

definition Repo_List :: "cenv \<Rightarrow> circle_filter \<Rightarrow> circles_db \<Rightarrow> circle list result" where
  "Repo_List env f d =
     (let n = filter_args f; excluded = F_ExcludeIDs f in
      wrap_err ''listing circles''
        (case run_query env CQ_List () of
           Inl e \<Rightarrow> Inl e
         | Inr _ \<Rightarrow>
             if exclude_placeholders n 0 excluded \<noteq> [n + 1..<n + 1 + length excluded]
             then Inl (Driver ''pq: could not determine data type of parameter'')
             else map_sum id (map (read_circle d)) (page_rows (F_Page f) (F_Limit f)
               (sort_key (\<lambda>c. - C_CreatedAt c)
                 (filter (\<lambda>c. matches_filter env f c \<and> C_ID c \<notin> set excluded) (B_circles d))))))"

definition Repo_Count :: "cenv \<Rightarrow> circle_filter \<Rightarrow> circles_db \<Rightarrow> nat result" where
  "Repo_Count env f d =
     wrap_err ''counting circles'' (run_query env CQ_Count (length (filter (matches_filter env f) (B_circles d))))"

definition max_members_ok :: "circle \<Rightarrow> bool" where
  "max_members_ok c = (2 \<le> C_MaxMembers c \<and> C_MaxMembers c \<le> 100)"

definition Repo_Create :: "cenv \<Rightarrow> circle \<Rightarrow> circles_db \<Rightarrow> unit result \<times> circles_db" where
  "Repo_Create env c d =
     (case exec_stmt env (CQ_InsertCircle (C_ID c))
             (\<lambda>d. if \<exists>r \<in> set (B_circles d). C_ID r = C_ID c then Some unique_violation
                  else if \<not> max_members_ok c then Some (Driver ''pq: check constraint'') else None)
             (\<lambda>d. d\<lparr>B_circles := B_circles d @ [c\<lparr>C_MemberCount := 0, C_DeletedAt := None\<rparr>]\<rparr>) d of
        (Inl e, d') \<Rightarrow>
          (if isUniqueViolationPg e then Inl (Sentinel App_ErrConflict) else Inl (Wrap ''creating circle'' e), d')
      | (Inr u, d') \<Rightarrow> (Inr u, d'))"

text \<open>The columns an \<^verbatim>\<open>UPDATE\<close> of a circle writes.\<close>

definition write_circle :: "circle \<Rightarrow> circle \<Rightarrow> circle" where
  "write_circle c row = row\<lparr>C_Name := C_Name c, C_Description := C_Description c, C_CircleType := C_CircleType c,
     C_PayoutType := C_PayoutType c, C_ContributionAmount := C_ContributionAmount c, C_Currency := C_Currency c,
     C_Frequency := C_Frequency c, C_MaxMembers := C_MaxMembers c, C_MinMoiScore := C_MinMoiScore c,
     C_CollateralPercent := C_CollateralPercent c, C_LateFeePercent := C_LateFeePercent c,
     C_GracePeriodHours := C_GracePeriodHours c, C_MaxStrikes := C_MaxStrikes c,
     C_RequiresInvite := C_RequiresInvite c, C_StartDate := C_StartDate c, C_EndDate := C_EndDate c,
     C_Status := C_Status c, C_CurrentRound := C_CurrentRound c, C_TotalContributions := C_TotalContributions c,
     C_UpdatedAt := C_UpdatedAt c\<rparr>"

definition Repo_Update :: "cenv \<Rightarrow> circle \<Rightarrow> circles_db \<Rightarrow> unit result \<times> circles_db" where
  "Repo_Update env c d =
     perform (wrap_call ''updating circle''
       (exec_stmt env (CQ_UpdateCircle (C_ID c))
          (\<lambda>d. if (\<exists>r \<in> set (B_circles d). C_ID r = C_ID c) \<and> \<not> max_members_ok c
               then Some (Driver ''pq: check constraint'') else None)
          (\<lambda>d. d\<lparr>B_circles := update_where (\<lambda>r. C_ID r = C_ID c) (write_circle c) (B_circles d)\<rparr>) d)) (\<lambda>_ d'.
     guard (rows_affected (\<lambda>r. C_ID r = C_ID c) (B_circles d) = 0) (Sentinel ErrCircleNotFound) d' (Inr (), d'))"

definition Repo_Delete :: "cenv \<Rightarrow> uuid \<Rightarrow> circles_db \<Rightarrow> unit result \<times> circles_db" where
  "Repo_Delete env i d =
     perform (wrap_call ''deleting circle''
       (exec_stmt env (CQ_DeleteCircle i) no_check
          (\<lambda>d. d\<lparr>B_circles := update_where (\<lambda>r. C_ID r = i) (\<lambda>r. r\<lparr>C_DeletedAt := Some (now env)\<rparr>) (B_circles d)\<rparr>) d)) (\<lambda>_ d'.
     guard (rows_affected (\<lambda>r. C_ID r = i) (B_circles d) = 0) (Sentinel ErrCircleNotFound) d' (Inr (), d'))"

section \<open>Members\<close>

definition find_member :: "circles_db \<Rightarrow> uuid \<Rightarrow> uuid \<Rightarrow> circle_member option" where
  "find_member d i u = List.find (\<lambda>m. CM_CircleID m = i \<and> CM_UserID m = u) (B_members d)"

definition CreateMember :: "cenv \<Rightarrow> circle_member \<Rightarrow> circles_db \<Rightarrow> unit result \<times> circles_db" where
  "CreateMember env m d =
     (case exec_stmt env (CQ_InsertMember (CM_CircleID m) (CM_UserID m))
             (\<lambda>d. if find_member d (CM_CircleID m) (CM_UserID m) \<noteq> None then Some unique_violation else None)
             (\<lambda>d. d\<lparr>B_members := B_members d @ [m]\<rparr>) d of
        (Inl e, d') \<Rightarrow>
          (if isUniqueViolationPg e then Inl (Sentinel ErrAlreadyMember) else Inl (Wrap ''creating circle member'' e), d')
      | (Inr u, d') \<Rightarrow> (Inr u, d'))"

definition Repo_GetMembers :: "cenv \<Rightarrow> uuid \<Rightarrow> circles_db \<Rightarrow> circle_member list result" where
  "Repo_GetMembers env i d =
     wrap_err ''getting circle members''
       (run_query env (CQ_GetMembers i) (sort_key CM_Position (filter (\<lambda>m. CM_CircleID m = i) (B_members d))))"

text \<open>
  The statement is \<^verbatim>\<open>SELECT COUNT(*) ... FOR UPDATE\<close>, which PostgreSQL refuses: \<open>fault env (CQ_GetMemberCount i)\<close> is never \<open>None\<close> there, see
  \<open>Schema\<close>. The count is what a database that allows the clause returns.
\<close>

definition GetMemberCount :: "cenv \<Rightarrow> uuid \<Rightarrow> circles_db \<Rightarrow> int result" where
  "GetMemberCount env i d =
     wrap_err ''getting member count'' (run_query env (CQ_GetMemberCount i) (active_count d i))"

text \<open>
  The enumeration \<^verbatim>\<open>member_status\<close> of the migrations has no value \<^verbatim>\<open>removed\<close>, so with that status the statement is refused there, see \<open>Schema\<close>.
\<close>

definition UpdateMemberStatus :: "cenv \<Rightarrow> uuid \<Rightarrow> uuid \<Rightarrow> MemberStatus \<Rightarrow> circles_db \<Rightarrow> unit result \<times> circles_db" where
  "UpdateMemberStatus env i u st d =
     (let sel = (\<lambda>m. CM_CircleID m = i \<and> CM_UserID m = u) in
      perform (wrap_call ''updating member status''
        (exec_stmt env (CQ_UpdateMemberStatus i u st) no_check
           (\<lambda>d. d\<lparr>B_members := update_where sel (\<lambda>m. m\<lparr>CM_Status := st\<rparr>) (B_members d)\<rparr>) d)) (\<lambda>_ d'.
      guard (rows_affected sel (B_members d) = 0) (Sentinel ErrNotMember) d' (Inr (), d')))"

definition scanCircleMember :: "circle_member option result \<Rightarrow> circle_member result" where
  "scanCircleMember r =
     (case r of
        Inl e \<Rightarrow> if e = Sentinel Sql_ErrNoRows then Inl (Sentinel App_ErrNotFound)
                else Inl (Wrap ''scanning circle member row'' e)
      | Inr None \<Rightarrow> Inl (Sentinel App_ErrNotFound)
      | Inr (Some m) \<Rightarrow> Inr m)"

definition FindMemberByCircleAndUser :: "cenv \<Rightarrow> uuid \<Rightarrow> uuid \<Rightarrow> circles_db \<Rightarrow> circle_member result" where
  "FindMemberByCircleAndUser env i u d =
     scanCircleMember (run_query env (CQ_FindMember i u) (find_member d i u))"

text \<open>The join has no deletion filter: deleted circles are listed too.\<close>

definition FindCirclesByUserID :: "cenv \<Rightarrow> uuid \<Rightarrow> circles_db \<Rightarrow> circle list result" where
  "FindCirclesByUserID env u d =
     wrap_err ''finding circles by user ID''
       (run_query env (CQ_FindCirclesByUser u) (map (read_circle d) (sort_key (\<lambda>c. - C_CreatedAt c)
          (filter (\<lambda>c. \<exists>m \<in> set (B_members d). CM_CircleID m = C_ID c \<and> CM_UserID m = u
             \<and> CM_Status m = MemberStatusActive) (B_circles d)))))"

section \<open>Penalties, disputes, votes, bids, configurations\<close>

definition CreatePenalty :: "cenv \<Rightarrow> penalty \<Rightarrow> circles_db \<Rightarrow> unit result \<times> circles_db" where
  "CreatePenalty env p d =
     exec_stmt env (CQ_InsertPenalty (PN_CircleID p) (PN_UserID p) (PN_RoundNumber p))
       (\<lambda>d. if \<exists>r \<in> set (B_penalties d). PN_ID r = PN_ID p then Some unique_violation else None)
       (\<lambda>d. d\<lparr>B_penalties := B_penalties d @ [p]\<rparr>) d"

definition GetPenaltiesByCircle :: "cenv \<Rightarrow> uuid \<Rightarrow> circles_db \<Rightarrow> penalty list result" where
  "GetPenaltiesByCircle env i d =
     run_query env (CQ_PenaltiesByCircle i)
       (sort_key (\<lambda>p. - PN_CreatedAt p) (filter (\<lambda>p. PN_CircleID p = i) (B_penalties d)))"

definition GetPenaltiesByUser :: "cenv \<Rightarrow> uuid \<Rightarrow> circles_db \<Rightarrow> penalty list result" where
  "GetPenaltiesByUser env u d =
     run_query env (CQ_PenaltiesByUser u)
       (sort_key (\<lambda>p. - PN_CreatedAt p) (filter (\<lambda>p. PN_UserID p = u) (B_penalties d)))"

definition GetContributionsByCircleAndRound :: "cenv \<Rightarrow> uuid \<Rightarrow> int \<Rightarrow> circles_db \<Rightarrow> uuid list result" where
  "GetContributionsByCircleAndRound env i r d =
     run_query env (CQ_Contributors i r)
       (map CB_UserID (filter (\<lambda>c. CB_CircleID c = i \<and> CB_RoundNumber c = r) (B_contribs d)))"

definition CreateDispute :: "cenv \<Rightarrow> circle_dispute \<Rightarrow> circles_db \<Rightarrow> unit result \<times> circles_db" where
  "CreateDispute env x d =
     wrap_call ''creating dispute''
       (exec_stmt env (CQ_InsertDispute (DS_CircleID x)) no_check (\<lambda>d. d\<lparr>B_disputes := B_disputes d @ [x]\<rparr>) d)"

definition CreateVote :: "cenv \<Rightarrow> circle_vote \<Rightarrow> circles_db \<Rightarrow> unit result \<times> circles_db" where
  "CreateVote env v d =
     (case exec_stmt env (CQ_InsertVote (CV_CircleID v) (CV_VoterID v) (CV_RoundNumber v))
             (\<lambda>d. if \<exists>r \<in> set (B_votes d). CV_CircleID r = CV_CircleID v \<and> CV_VoterID r = CV_VoterID v
                       \<and> CV_RoundNumber r = CV_RoundNumber v
                  then Some unique_violation else None)
             (\<lambda>d. d\<lparr>B_votes := B_votes d @ [v]\<rparr>) d of
        (Inl e, d') \<Rightarrow>
          (if isUniqueViolationPg e then Inl (Sentinel App_ErrConflict) else Inl (Wrap ''creating vote'' e), d')
      | (Inr u, d') \<Rightarrow> (Inr u, d'))"

definition GetVotesByRound :: "cenv \<Rightarrow> uuid \<Rightarrow> int \<Rightarrow> circles_db \<Rightarrow> circle_vote list result" where
  "GetVotesByRound env i r d =
     wrap_err ''getting votes by round''
       (run_query env (CQ_VotesByRound i r)
          (sort_key CV_CreatedAt (filter (\<lambda>v. CV_CircleID v = i \<and> CV_RoundNumber v = r) (B_votes d))))"

text \<open>The upsert keeps the identifier of the first bid.\<close>

definition CreateAuctionBid :: "cenv \<Rightarrow> auction_bid \<Rightarrow> circles_db \<Rightarrow> unit result \<times> circles_db" where
  "CreateAuctionBid env b d =
     (let same = (\<lambda>r. AB_CircleID r = AB_CircleID b \<and> AB_BidderID r = AB_BidderID b \<and> AB_RoundNumber r = AB_RoundNumber b) in
      wrap_call ''creating auction bid''
        (exec_stmt env (CQ_UpsertBid (AB_CircleID b) (AB_BidderID b) (AB_RoundNumber b)) no_check
           (\<lambda>d. if \<exists>r \<in> set (B_bids d). same r
                then d\<lparr>B_bids := update_where same
                       (\<lambda>r. r\<lparr>AB_BidAmount := AB_BidAmount b, AB_CreatedAt := AB_CreatedAt b\<rparr>) (B_bids d)\<rparr>
                else d\<lparr>B_bids := B_bids d @ [b]\<rparr>) d))"

text \<open>\<^verbatim>\<open>ORDER BY bid_amount DESC, created_at ASC\<close> is an insertion sort with this comparison.\<close>

definition bid_before :: "auction_bid \<Rightarrow> auction_bid \<Rightarrow> bool" where
  "bid_before a b = (flt (AB_BidAmount b) (AB_BidAmount a)
     \<or> (\<not> flt (AB_BidAmount a) (AB_BidAmount b) \<and> AB_CreatedAt a \<le> AB_CreatedAt b))"

fun insert_bid :: "auction_bid \<Rightarrow> auction_bid list \<Rightarrow> auction_bid list" where
  "insert_bid b [] = [b]"
| "insert_bid b (x # xs) = (if bid_before b x then b # x # xs else x # insert_bid b xs)"

definition GetAuctionBidsByRound :: "cenv \<Rightarrow> uuid \<Rightarrow> int \<Rightarrow> circles_db \<Rightarrow> auction_bid list result" where
  "GetAuctionBidsByRound env i r d =
     wrap_err ''getting auction bids by round''
       (run_query env (CQ_BidsByRound i r)
          (foldr insert_bid (filter (\<lambda>b. AB_CircleID b = i \<and> AB_RoundNumber b = r) (B_bids d)) []))"

definition SaveRoundConfigSnapshot :: "cenv \<Rightarrow> round_config \<Rightarrow> circles_db \<Rightarrow> unit result \<times> circles_db" where
  "SaveRoundConfigSnapshot env s d =
     wrap_call ''saving round config snapshot''
       (exec_stmt env (CQ_SaveConfig (RC_CircleID s) (RC_RoundNumber s)) no_check
          (\<lambda>d. if \<exists>r \<in> set (B_configs d). RC_CircleID r = RC_CircleID s \<and> RC_RoundNumber r = RC_RoundNumber s
               then d else d\<lparr>B_configs := B_configs d @ [s]\<rparr>) d)"

definition GetRoundConfigSnapshot :: "cenv \<Rightarrow> uuid \<Rightarrow> int \<Rightarrow> circles_db \<Rightarrow> round_config result" where
  "GetRoundConfigSnapshot env i r d =
     (case run_query env (CQ_GetConfig i r)
             (List.find (\<lambda>s. RC_CircleID s = i \<and> RC_RoundNumber s = r) (B_configs d)) of
        Inl e \<Rightarrow> if e = Sentinel Sql_ErrNoRows then Inl (Sentinel App_ErrNotFound)
                else Inl (Wrap ''getting round config snapshot'' e)
      | Inr None \<Rightarrow> Inl (Sentinel App_ErrNotFound)
      | Inr (Some s) \<Rightarrow> Inr s)"

section \<open>Snapshots\<close>

record UserBalanceSnapshot =
  UB_UserID :: uuid
  UB_TotalContributed :: float64
  UB_TotalPaidOut :: float64
  UB_NetBalance :: float64
  UB_PendingContribution :: float64
  UB_IsCurrentRoundPaid :: bool

record CircleBalanceSnapshot =
  VB_CircleID :: uuid
  VB_TotalContributed :: float64
  VB_TotalPaidOut :: float64
  VB_VaultBalance :: float64

text \<open>The JSON objects of a contribution and a payout: a null hash is the empty string.\<close>

definition contribMap :: "raw_contrib \<Rightarrow> raw_contrib \<times> string" where
  "contribMap c = (c, case CB_TxnHash c of None \<Rightarrow> [] | Some h \<Rightarrow> h)"

definition payoutMap :: "raw_payout \<Rightarrow> raw_payout \<times> string" where
  "payoutMap p = (p, case PO_TxnHash p of None \<Rightarrow> [] | Some h \<Rightarrow> h)"

record RoundSnapshot =
  RS_RoundNumber :: int
  RS_Status :: string
  RS_Contributions :: "(raw_contrib \<times> string) list"
  RS_Payout :: "(raw_payout \<times> string) option"
  RS_Config :: "round_config option"

record CircleSnapshot =
  CS_Circle :: circle
  CS_Members :: "circle_member list"
  CS_Rounds :: "RoundSnapshot list"
  CS_UserBalance :: UserBalanceSnapshot
  CS_CircleBalance :: CircleBalanceSnapshot
  CS_UserRole :: string
  CS_SnapshotAt :: time

text \<open>The three reads whose failure is replaced by an empty list.\<close>

definition or_empty :: "'a list result \<Rightarrow> 'a list" where
  "or_empty r = (case r of Inl e \<Rightarrow> [] | Inr xs \<Rightarrow> xs)"

definition snapshot_contribs :: "cenv \<Rightarrow> uuid \<Rightarrow> circles_db \<Rightarrow> raw_contrib list" where
  "snapshot_contribs env i d = or_empty (run_query env (CQ_SnapshotContribs i)
     (sort_key CB_RoundNumber (sort_key CB_CreatedAt (filter (\<lambda>c. CB_CircleID c = i) (B_contribs d)))))"

definition snapshot_payouts :: "cenv \<Rightarrow> uuid \<Rightarrow> circles_db \<Rightarrow> raw_payout list" where
  "snapshot_payouts env i d = or_empty (run_query env (CQ_SnapshotPayouts i)
     (sort_key PO_RoundNumber (filter (\<lambda>p. PO_CircleID p = i) (B_payouts d))))"

definition snapshot_configs :: "cenv \<Rightarrow> uuid \<Rightarrow> circles_db \<Rightarrow> round_config list" where
  "snapshot_configs env i d = or_empty (run_query env (CQ_SnapshotConfigs i)
     (sort_key RC_RoundNumber (filter (\<lambda>s. RC_CircleID s = i) (B_configs d))))"

definition snapshot_role :: "circle \<Rightarrow> circle_member list \<Rightarrow> uuid \<Rightarrow> string" where
  "snapshot_role cir members u =
     (if C_OrganizerID cir = u then ''organizer''
      else if \<exists>m \<in> set members. CM_UserID m = u \<and> CM_Status m = MemberStatusActive then ''member''
      else ''none'')"

text \<open>
  The loop over the contributions: the totals of the circle and of the caller, and whether
  the caller has paid the current round.
\<close>

fun contrib_totals :: "circle \<Rightarrow> uuid \<Rightarrow> raw_contrib list \<Rightarrow> float64 \<times> float64 \<times> bool \<Rightarrow> float64 \<times> float64 \<times> bool" where
  "contrib_totals cir u [] acc = acc"
| "contrib_totals cir u (c # cs) (circleContributed, userContributed, paid) =
     contrib_totals cir u cs
       (if CB_Status c \<noteq> ''failed'' then
          (fadd circleContributed (CB_Amount c),
           if CB_UserID c = u then fadd userContributed (CB_Amount c) else userContributed,
           paid \<or> (CB_UserID c = u \<and> CB_RoundNumber c = C_CurrentRound cir
             \<and> CB_Status c \<in> {''confirmed'', ''pending'', ''late''}))
        else (circleContributed, userContributed, paid))"

fun payout_totals :: "uuid \<Rightarrow> raw_payout list \<Rightarrow> float64 \<times> float64 \<Rightarrow> float64 \<times> float64" where
  "payout_totals u [] acc = acc"
| "payout_totals u (p # ps) (circlePaidOut, userPaidOut) =
     payout_totals u ps
       (fadd circlePaidOut (PO_Amount p), if PO_RecipientID p = u then fadd userPaidOut (PO_Amount p) else userPaidOut)"

definition snapshot_round :: "circle \<Rightarrow> raw_contrib list \<Rightarrow> raw_payout list \<Rightarrow> round_config list \<Rightarrow> int \<Rightarrow> RoundSnapshot" where
  "snapshot_round cir contribs payouts configs r =
     \<lparr>RS_RoundNumber = r,
      RS_Status = (if r < C_CurrentRound cir \<or> C_Status cir = CircleStatusCompleted then ''completed''
                   else if r = C_CurrentRound cir \<and> C_Status cir = CircleStatusActive then ''active''
                   else ''pending''),
      RS_Contributions = map contribMap (filter (\<lambda>c. CB_RoundNumber c = r) contribs),
      RS_Payout = map_option payoutMap (List.find (\<lambda>p. PO_RoundNumber p = r) (rev payouts)),
      RS_Config = List.find (\<lambda>s. RC_RoundNumber s = r) (rev configs)\<rparr>"

definition maxRound :: "circle \<Rightarrow> raw_contrib list \<Rightarrow> raw_payout list \<Rightarrow> int" where
  "maxRound cir contribs payouts =
     foldr max (map CB_RoundNumber contribs @ map PO_RoundNumber payouts) (C_CurrentRound cir)"

text \<open>
  \<open>is_db\<close>: the repository holds the database handle and opens its own transaction (first with
  repeatable read, then with read committed), which only reads.
\<close>

definition build_snapshot :: "cenv \<Rightarrow> bool \<Rightarrow> uuid \<Rightarrow> uuid \<Rightarrow> circle \<Rightarrow> circle_member list \<Rightarrow> raw_contrib list
    \<Rightarrow> raw_payout list \<Rightarrow> round_config list \<Rightarrow> CircleSnapshot result" where
  "build_snapshot env is_db i u cir members contribs payouts configs =
     (let role = snapshot_role cir members u in
      if role = ''none'' then Inl (Sentinel App_ErrForbidden)
      else
        let (circleContributed, userContributed, paid) = contrib_totals cir u contribs (Finite 0, Finite 0, False);
            (circlePaidOut, userPaidOut) = payout_totals u payouts (Finite 0, Finite 0);
            pendingContrib = (if C_Status cir = CircleStatusActive \<and> \<not> paid then C_ContributionAmount cir else Finite 0);
            snap = \<lparr>CS_Circle = cir, CS_Members = members,
              CS_Rounds = map (snapshot_round cir contribs payouts configs) [1..maxRound cir contribs payouts],
              CS_UserBalance = \<lparr>UB_UserID = u, UB_TotalContributed = userContributed, UB_TotalPaidOut = userPaidOut,
                 UB_NetBalance = fsub userPaidOut userContributed, UB_PendingContribution = pendingContrib,
                 UB_IsCurrentRoundPaid = paid\<rparr>,
              CS_CircleBalance = \<lparr>VB_CircleID = i, VB_TotalContributed = circleContributed,
                 VB_TotalPaidOut = circlePaidOut, VB_VaultBalance = fsub circleContributed circlePaidOut\<rparr>,
              CS_UserRole = role, CS_SnapshotAt = now env\<rparr>
        in if is_db then wrap_err ''committing snapshot transaction'' (run_query env CQ_Commit snap) else Inr snap)"

definition Repo_GetCircleSnapshot :: "cenv \<Rightarrow> bool \<Rightarrow> uuid \<Rightarrow> uuid \<Rightarrow> circles_db \<Rightarrow> CircleSnapshot result" where
  "Repo_GetCircleSnapshot env is_db i u d =
     (case if is_db \<and> fault env CQ_BeginRepeatable \<noteq> None
           then wrap_err ''beginning snapshot transaction'' (run_query env CQ_Begin ()) else Inr () of
        Inl e \<Rightarrow> Inl e
      | Inr _ \<Rightarrow>
        (case FindByID env i d of
           Inl e \<Rightarrow> Inl e
         | Inr cir \<Rightarrow>
           (case wrap_err ''getting circle members'' (Repo_GetMembers env i d) of
              Inl e \<Rightarrow> Inl e
            | Inr members \<Rightarrow> build_snapshot env is_db i u cir members (snapshot_contribs env i d)
                               (snapshot_payouts env i d) (snapshot_configs env i d))))"

fun bulk_loop :: "(uuid \<Rightarrow> CircleSnapshot result) \<Rightarrow> uuid list \<Rightarrow> CircleSnapshot list result" where
  "bulk_loop snap [] = Inr []"
| "bulk_loop snap (i # is) =
     (case snap i of
        Inl e \<Rightarrow> if errors_Is e App_ErrNotFound then bulk_loop snap is else Inl e
      | Inr s \<Rightarrow> (case bulk_loop snap is of Inl e \<Rightarrow> Inl e | Inr ss \<Rightarrow> Inr (s # ss)))"

text \<open>
  With no identifiers given: every circle with a membership row of the user (of any status),
  united with the circles the user organizes. \<^verbatim>\<open>UNION\<close> has no order of its own; the model takes
  the order of the rows.
\<close>

definition user_circle_ids :: "uuid \<Rightarrow> circles_db \<Rightarrow> uuid list" where
  "user_circle_ids u d =
     remdups (map CM_CircleID (filter (\<lambda>m. CM_UserID m = u) (B_members d))
              @ map C_ID (filter (\<lambda>c. C_OrganizerID c = u \<and> C_DeletedAt c = None) (B_circles d)))"

definition Repo_GetBulkCircleSnapshots :: "cenv \<Rightarrow> bool \<Rightarrow> uuid \<Rightarrow> uuid list \<Rightarrow> circles_db \<Rightarrow> CircleSnapshot list result" where
  "Repo_GetBulkCircleSnapshots env is_db u circleIDs d =
     (case if circleIDs = []
           then wrap_err ''fetching user circle IDs'' (run_query env (CQ_UserCircleIDs u) (user_circle_ids u d))
           else Inr circleIDs of
        Inl e \<Rightarrow> Inl e
      | Inr is \<Rightarrow> bulk_loop (\<lambda>i. Repo_GetCircleSnapshot env is_db i u d) is)"

end
