(* ===== verification/CircleService.thy ===== *)
theory CircleService
  imports CircleRepo
begin

text \<open>
  \<^verbatim>\<open>internal/domain/circle/service.go\<close>: the life of a savings circle, over the tables of
  \<^verbatim>\<open>CircleRepo\<close>.

  The optional collaborators of the service are flags of the record \<open>circle_service\<close>. A call to
  one that is present appends to \<^verbatim>\<open>B_log\<close>; none of those calls can make an operation fail.
  Every operation takes the environment, the service and the database and returns the result
  and the database after the call, on the error paths too.
\<close>

section \<open>Service\<close>

record circle_service =
  has_communityChecker :: bool
  has_broadcaster :: bool
  has_tx :: bool
  has_auditRepo :: bool
  has_notificationSvc :: bool

record CreateCircleInput =
  CI_Name :: string
  CI_Description :: string
  CI_CommunityID :: string
  CI_CircleType :: CircleType
  CI_PayoutType :: PayoutType
  CI_ContributionAmount :: float64
  CI_Currency :: CircleCurrency
  CI_Frequency :: CircleFrequency
  CI_MaxMembers :: int
  CI_MinMoiScore :: int
  CI_CollateralPercent :: float64
  CI_LateFeePercent :: float64
  CI_GracePeriodHours :: int
  CI_MaxStrikes :: int
  CI_RequiresInvite :: bool

record UpdateCircleInput =
  UI_Name :: "string option"
  UI_Description :: "string option"
  UI_ContributionAmount :: "float64 option"
  UI_Currency :: "CircleCurrency option"
  UI_Frequency :: "CircleFrequency option"
  UI_MaxMembers :: "int option"
  UI_MinMoiScore :: "int option"
  UI_CollateralPercent :: "float64 option"
  UI_LateFeePercent :: "float64 option"
  UI_GracePeriodHours :: "int option"
  UI_MaxStrikes :: "int option"

type_synonym 'a op = "circles_db \<Rightarrow> 'a result \<times> circles_db"

definition WithTransaction :: "cenv \<Rightarrow> 'a op \<Rightarrow> 'a op" where
  "WithTransaction env fn d =
     (case fault env CQ_Begin of Some e \<Rightarrow> (Inl e, d) | None \<Rightarrow> transaction env CQ_Commit fn d)"

definition withTransaction :: "cenv \<Rightarrow> circle_service \<Rightarrow> 'a op \<Rightarrow> 'a op" where
  "withTransaction env s fn d = (if \<not> has_tx s then fn d else WithTransaction env fn d)"

text \<open>A call of the broadcaster, when there is one.\<close>

definition broadcast :: "circle_service \<Rightarrow> effect \<Rightarrow> circles_db \<Rightarrow> circles_db" where
  "broadcast s e d = (if has_broadcaster s then d\<lparr>B_log := B_log d @ [e]\<rparr> else d)"

definition parseCommunityID :: "cenv \<Rightarrow> string \<Rightarrow> uuid option" where
  "parseCommunityID env i = (if i = [] then None else uuid_Parse env i)"

definition parseUUID :: "cenv \<Rightarrow> string \<Rightarrow> uuid result" where
  "parseUUID env i = (case uuid_Parse env i of None \<Rightarrow> Inl (Sentinel ErrInvalidUUID) | Some u \<Rightarrow> Inr u)"

section \<open>Reading and updating\<close>

definition Get :: "cenv \<Rightarrow> string \<Rightarrow> circles_db \<Rightarrow> circle result" where
  "Get env i d =
     (case parseUUID env i of
        Inl e \<Rightarrow> Inl e
      | Inr uid \<Rightarrow>
          (case FindByID env uid d of
             Inl e \<Rightarrow> if e = Sentinel ErrCircleNotFound then Inl (Sentinel ErrCircleNotFound)
                     else Inl (Wrap ''getting circle'' e)
           | Inr c \<Rightarrow> Inr c))"

definition Service_List :: "cenv \<Rightarrow> circle_filter \<Rightarrow> circles_db \<Rightarrow> (circle list \<times> nat) result" where
  "Service_List env f d =
     (case wrap_err ''listing circles'' (Repo_List env f d) of
        Inl e \<Rightarrow> Inl e
      | Inr circles \<Rightarrow>
          (case wrap_err ''counting circles'' (Repo_Count env f d) of
             Inl e \<Rightarrow> Inl e
           | Inr n \<Rightarrow> Inr (circles, n)))"

definition apply_input :: "cenv \<Rightarrow> UpdateCircleInput \<Rightarrow> circle \<Rightarrow> circle" where
  "apply_input env input c =
     c\<lparr>C_Name := with_default (UI_Name input) (C_Name c),
       C_Description := (case UI_Description input of None \<Rightarrow> C_Description c
                         | Some t \<Rightarrow> if t = [] then None else Some t),
       C_ContributionAmount := with_default (UI_ContributionAmount input) (C_ContributionAmount c),
       C_Currency := with_default (UI_Currency input) (C_Currency c),
       C_Frequency := with_default (UI_Frequency input) (C_Frequency c),
       C_MaxMembers := with_default (UI_MaxMembers input) (C_MaxMembers c),
       C_MinMoiScore := with_default (UI_MinMoiScore input) (C_MinMoiScore c),
       C_CollateralPercent := with_default (UI_CollateralPercent input) (C_CollateralPercent c),
       C_LateFeePercent := with_default (UI_LateFeePercent input) (C_LateFeePercent c),
       C_GracePeriodHours := with_default (UI_GracePeriodHours input) (C_GracePeriodHours c),
       C_MaxStrikes := with_default (UI_MaxStrikes input) (C_MaxStrikes c),
       C_UpdatedAt := now env\<rparr>"

definition Update :: "cenv \<Rightarrow> string \<Rightarrow> string \<Rightarrow> UpdateCircleInput \<Rightarrow> circle op" where
  "Update env i userID input d =
     attempt (parseUUID env i) d (\<lambda>uid.
     attempt (parseUUID env userID) d (\<lambda>usrID.
     attempt (wrap_err ''finding circle for update'' (FindByID env uid d)) d (\<lambda>c.
     guard (C_OrganizerID c \<noteq> usrID) (Sentinel ErrNotOrganizer) d (
     guard (C_Status c \<noteq> CircleStatusPending \<and> C_Status c \<noteq> CircleStatusActive) (Sentinel ErrCircleNotActive) d (
     let c' = apply_input env input c in
     perform (wrap_call ''updating circle'' (Repo_Update env c' d)) (\<lambda>_ d'. (Inr c', d')))))))"

section \<open>Life cycle\<close>

definition premium_check :: "cenv \<Rightarrow> uuid \<Rightarrow> CreateCircleInput \<Rightarrow> unit result" where
  "premium_check env orgID input =
     (if CI_CircleType input = CircleTypePremium then
        (case wrap_err ''finding organizer for premium check'' (user_moi env orgID) of
           Inl e \<Rightarrow> Inl e
         | Inr score \<Rightarrow>
             if score < 50 then Inl (Errorf ''premium circles require at least 50 MoiScore'')
             else if CI_Currency input = CurrencyUSDC \<and> flt (CI_ContributionAmount input) (Finite 50)
             then Inl (Errorf ''premium circles require minimum 50 USDC contribution'')
             else if CI_Currency input = CurrencyXLM \<and> flt (CI_ContributionAmount input) (Finite 100)
             then Inl (Errorf ''premium circles require minimum 100 XLM contribution'')
             else Inr ())
      else Inr ())"

definition buildCircle :: "cenv \<Rightarrow> uuid \<Rightarrow> CreateCircleInput \<Rightarrow> circle" where
  "buildCircle env orgID input =
     \<lparr>C_ID = uuid_New env 0, C_ContractID = None, C_CommunityID = parseCommunityID env (CI_CommunityID input),
      C_Name = CI_Name input,
      C_Description = (if CI_Description input \<noteq> [] then Some (CI_Description input) else None),
      C_CircleType = CI_CircleType input, C_PayoutType = CI_PayoutType input,
      C_ContributionAmount = CI_ContributionAmount input, C_Currency = CI_Currency input,
      C_Frequency = CI_Frequency input, C_MaxMembers = CI_MaxMembers input, C_MinMoiScore = CI_MinMoiScore input,
      C_CollateralPercent = CI_CollateralPercent input, C_LateFeePercent = CI_LateFeePercent input,
      C_GracePeriodHours = CI_GracePeriodHours input, C_MaxStrikes = CI_MaxStrikes input, C_MemberCount = 0,
      C_RequiresInvite = CI_RequiresInvite input, C_StartDate = None, C_EndDate = None,
      C_Status = CircleStatusPending, C_CurrentRound = 0, C_TotalContributions = Finite 0,
      C_OrganizerID = orgID, C_CreatedAt = now env, C_UpdatedAt = now env, C_DeletedAt = None\<rparr>"

definition conflict_text :: "error \<Rightarrow> error" where
  "conflict_text e =
     (if e = Sentinel App_ErrConflict then Wrap ''circle name conflict'' e else Wrap ''creating circle'' e)"

definition create_body :: "cenv \<Rightarrow> uuid \<Rightarrow> CreateCircleInput \<Rightarrow> circle op" where
  "create_body env orgID input d =
     (let c = buildCircle env orgID input in
      case Repo_Create env c d of
        (Inl e, d') \<Rightarrow> (Inl (conflict_text e), d')
      | (Inr _, d') \<Rightarrow>
          perform (wrap_call ''adding organizer as member''
            (CreateMember env \<lparr>CM_CircleID = C_ID c, CM_UserID = orgID, CM_Position = 1,
               CM_Status = MemberStatusActive, CM_JoinedAt = now env\<rparr> d')) (\<lambda>_ d''. (Inr c, d'')))"

definition Create :: "cenv \<Rightarrow> circle_service \<Rightarrow> string \<Rightarrow> CreateCircleInput \<Rightarrow> circle op" where
  "Create env s organizerID input d =
     attempt (parseUUID env organizerID) d (\<lambda>orgID.
     guard (CI_MaxMembers input < 2) (Sentinel ErrParticipantLimit) d (
     attempt (premium_check env orgID input) d (\<lambda>_.
     perform (withTransaction env s (create_body env orgID input) d) (\<lambda>c d'.
     (Inr c, broadcast s (CircleCreated (uuid_String env (C_ID c)) organizerID) d')))))"

definition snapshotRoundConfig :: "cenv \<Rightarrow> circle \<Rightarrow> int \<Rightarrow> unit op" where
  "snapshotRoundConfig env c r d =
     attempt (config_json env c) d (\<lambda>configData.
     SaveRoundConfigSnapshot env \<lparr>RC_ID = uuid_New env 0, RC_CircleID = C_ID c, RC_RoundNumber = r,
       RC_ConfigHash = sha256_hex env configData, RC_ConfigJSON = configData, RC_CreatedAt = now env\<rparr> d)"

text \<open>The error of the configuration snapshot is ignored.\<close>

definition Start :: "cenv \<Rightarrow> circle_service \<Rightarrow> string \<Rightarrow> string \<Rightarrow> unit op" where
  "Start env s i userID d =
     attempt (parseUUID env i) d (\<lambda>cid.
     attempt (parseUUID env userID) d (\<lambda>usrID.
     attempt (wrap_err ''finding circle for start'' (FindByID env cid d)) d (\<lambda>c.
     guard (C_OrganizerID c \<noteq> usrID) (Sentinel ErrNotOrganizer) d (
     guard (C_Status c \<noteq> CircleStatusPending) (Sentinel ErrCircleNotActive) d (
     attempt (wrap_err ''checking member count'' (GetMemberCount env cid d)) d (\<lambda>count.
     guard (count < 2) (Errorf ''need at least 2 members to start'') d (
     let c' = c\<lparr>C_Status := CircleStatusActive, C_CurrentRound := 1, C_UpdatedAt := now env\<rparr> in
     perform (wrap_call ''activating circle'' (Repo_Update env c' d)) (\<lambda>_ d'.
     (Inr (), broadcast s (CircleStatusChanged i ''active'') (snd (snapshotRoundConfig env c' 1 d')))))))))))"

definition cancel_body :: "cenv \<Rightarrow> uuid \<Rightarrow> uuid \<Rightarrow> unit op" where
  "cancel_body env uid usrID d =
     attempt (wrap_err ''finding circle for cancel'' (FindByID env uid d)) d (\<lambda>c.
     guard (C_OrganizerID c \<noteq> usrID) (Sentinel ErrNotOrganizer) d (
     guard (C_Status c \<noteq> CircleStatusPending) (Sentinel ErrCircleNotActive) d (
     wrap_call ''cancelling circle''
       (Repo_Update env (c\<lparr>C_Status := CircleStatusCancelled, C_UpdatedAt := now env\<rparr>) d))))"

definition Cancel :: "cenv \<Rightarrow> circle_service \<Rightarrow> string \<Rightarrow> string \<Rightarrow> unit op" where
  "Cancel env s i userID d =
     attempt (parseUUID env i) d (\<lambda>uid.
     attempt (parseUUID env userID) d (\<lambda>usrID.
     perform (withTransaction env s (cancel_body env uid usrID) d) (\<lambda>_ d'.
     (Inr (), broadcast s (CircleStatusChanged i ''cancelled'') d'))))"

definition Close :: "cenv \<Rightarrow> circle_service \<Rightarrow> string \<Rightarrow> string \<Rightarrow> unit op" where
  "Close env s i userID d =
     attempt (parseUUID env i) d (\<lambda>cid.
     attempt (parseUUID env userID) d (\<lambda>organizerID.
     attempt (wrap_err ''finding circle for close'' (FindByID env cid d)) d (\<lambda>c.
     guard (C_OrganizerID c \<noteq> organizerID) (Sentinel ErrNotOrganizer) d (
     guard (C_Status c \<noteq> CircleStatusActive) (Sentinel ErrCircleNotActive) d (
     perform (wrap_call ''closing circle''
       (Repo_Update env (c\<lparr>C_Status := CircleStatusCompleted, C_UpdatedAt := now env\<rparr>) d)) (\<lambda>_ d'.
     (Inr (), broadcast s (CircleStatusChanged i ''completed'') d')))))))"

section \<open>Members\<close>

definition premium_join_check :: "cenv \<Rightarrow> uuid \<Rightarrow> circle \<Rightarrow> unit result" where
  "premium_join_check env uid c =
     (if C_CircleType c = CircleTypePremium then
        (case wrap_err ''finding user for premium join check'' (user_moi env uid) of
           Inl e \<Rightarrow> Inl e
         | Inr score \<Rightarrow>
             if score < 50 then Inl (Errorf ''joining premium circles requires at least 50 MoiScore'') else Inr ())
      else Inr ())"

text \<open>Without a community checker the call panics; the panic is a driver error here.\<close>

definition community_check :: "cenv \<Rightarrow> circle_service \<Rightarrow> uuid \<Rightarrow> circle \<Rightarrow> unit result" where
  "community_check env s uid c =
     (case C_CommunityID c of
        Some com \<Rightarrow>
          if C_CircleType c = CircleTypeOther ''community'' then
            if \<not> has_communityChecker s then Inl (Driver ''panic: nil pointer dereference'')
            else (case wrap_err ''checking community membership'' (community_member env com uid) of
                    Inl e \<Rightarrow> Inl e
                  | Inr ok \<Rightarrow> if \<not> ok then Inl (Sentinel ErrNotCommunityMember) else Inr ())
          else Inr ()
      | None \<Rightarrow> Inr ())"

definition join_body :: "cenv \<Rightarrow> circle \<Rightarrow> uuid \<Rightarrow> uuid \<Rightarrow> unit op" where
  "join_body env c cid uid d =
     attempt (wrap_err ''checking member count'' (GetMemberCount env cid d)) d (\<lambda>count.
     guard (count \<ge> C_MaxMembers c) (Sentinel ErrCircleFull) d (
     guard (is_ok (FindMemberByCircleAndUser env cid uid d)) (Sentinel ErrAlreadyMember) d (
     wrap_call ''joining circle''
       (CreateMember env \<lparr>CM_CircleID = cid, CM_UserID = uid, CM_Position = count + 1,
          CM_Status = MemberStatusActive, CM_JoinedAt = now env\<rparr> d))))"

definition Join :: "cenv \<Rightarrow> circle_service \<Rightarrow> string \<Rightarrow> string \<Rightarrow> string \<Rightarrow> unit op" where
  "Join env s circleID userID inviteCode d =
     attempt (parseUUID env circleID) d (\<lambda>cid.
     attempt (parseUUID env userID) d (\<lambda>uid.
     attempt (wrap_err ''finding circle for join'' (FindByID env cid d)) d (\<lambda>c.
     guard (C_Status c \<noteq> CircleStatusPending \<and> C_Status c \<noteq> CircleStatusActive) (Sentinel ErrCircleNotActive) d (
     attempt (premium_join_check env uid c) d (\<lambda>_.
     attempt (community_check env s uid c) d (\<lambda>_.
     guard ((C_CircleType c = CircleTypePrivate \<or> C_RequiresInvite c) \<and> inviteCode = []) (Sentinel ErrInvalidInvite) d (
     perform (withTransaction env s (join_body env c cid uid) d) (\<lambda>_ d'.
     (Inr (), broadcast s (MemberJoined circleID userID) d')))))))))"

text \<open>
  \<^verbatim>\<open>err == apperrors.ErrNotFound\<close> becomes \<^verbatim>\<open>ErrNotMember\<close>, any other error is wrapped. The
  penalty of leaving an active circle is computed and dropped, so it does not appear.
\<close>

definition member_error :: "string \<Rightarrow> circle_member result \<Rightarrow> circle_member result" where
  "member_error m r =
     (case r of
        Inl e \<Rightarrow> if e = Sentinel App_ErrNotFound then Inl (Sentinel ErrNotMember) else Inl (Wrap m e)
      | Inr x \<Rightarrow> Inr x)"

definition Exit :: "cenv \<Rightarrow> circle_service \<Rightarrow> string \<Rightarrow> string \<Rightarrow> unit op" where
  "Exit env s circleID userID d =
     attempt (parseUUID env circleID) d (\<lambda>cid.
     attempt (parseUUID env userID) d (\<lambda>uid.
     attempt (wrap_err ''finding circle for exit'' (FindByID env cid d)) d (\<lambda>c.
     guard (C_OrganizerID c = uid) (Sentinel ErrNotOrganizer) d (
     attempt (member_error ''finding member for exit'' (FindMemberByCircleAndUser env cid uid d)) d (\<lambda>m.
     guard (CM_Status m \<noteq> MemberStatusActive) (Sentinel ErrNotMember) d (
     perform (wrap_call ''exiting circle'' (UpdateMemberStatus env cid uid MemberStatusExited d)) (\<lambda>_ d'.
     (Inr (), broadcast s (MemberLeft circleID userID) d'))))))))"

definition GetMembers :: "cenv \<Rightarrow> string \<Rightarrow> circles_db \<Rightarrow> circle_member list result" where
  "GetMembers env circleID d =
     (case parseUUID env circleID of
        Inl e \<Rightarrow> Inl e
      | Inr cid \<Rightarrow>
          (case wrap_err ''finding circle for members'' (FindByID env cid d) of
             Inl e \<Rightarrow> Inl e
           | Inr _ \<Rightarrow> wrap_err ''getting members'' (Repo_GetMembers env cid d)))"

definition IsMember :: "cenv \<Rightarrow> string \<Rightarrow> string \<Rightarrow> circles_db \<Rightarrow> bool result" where
  "IsMember env circleID userID d =
     (case parseUUID env circleID of
        Inl e \<Rightarrow> Inl e
      | Inr cid \<Rightarrow>
          (case parseUUID env userID of
             Inl e \<Rightarrow> Inl e
           | Inr uid \<Rightarrow>
               (case FindMemberByCircleAndUser env cid uid d of
                  Inl e \<Rightarrow> if e = Sentinel App_ErrNotFound then Inr False else Inl (Wrap ''checking circle membership'' e)
                | Inr m \<Rightarrow> Inr (CM_Status m = MemberStatusActive))))"

definition RemoveMember :: "cenv \<Rightarrow> circle_service \<Rightarrow> string \<Rightarrow> string \<Rightarrow> string \<Rightarrow> string \<Rightarrow> unit op" where
  "RemoveMember env s circleID callerID memberAddress reason d =
     attempt (parseUUID env circleID) d (\<lambda>cid.
     attempt (parseUUID env callerID) d (\<lambda>callerUID.
     attempt (parseUUID env memberAddress) d (\<lambda>memberUID.
     attempt (wrap_err ''finding circle'' (FindByID env cid d)) d (\<lambda>c.
     guard (C_OrganizerID c \<noteq> callerUID) (Sentinel ErrNotOrganizer) d (
     guard (callerUID = memberUID) (Errorf ''organizer cannot remove themselves; use cancel or close'') d (
     attempt (member_error ''finding member'' (FindMemberByCircleAndUser env cid memberUID d)) d (\<lambda>m.
     guard (CM_Status m \<noteq> MemberStatusActive) (Sentinel ErrNotMember) d (
     perform (wrap_call ''removing member'' (UpdateMemberStatus env cid memberUID MemberStatusRemoved d)) (\<lambda>_ d'.
     (Inr (), broadcast s (MemberLeft circleID memberAddress) d'))))))))))"

section \<open>Disputes, votes, bids\<close>

definition active_member :: "circle_member result \<Rightarrow> bool" where
  "active_member r = (case r of Inl e \<Rightarrow> False | Inr m \<Rightarrow> CM_Status m = MemberStatusActive)"

definition log_if :: "bool \<Rightarrow> effect \<Rightarrow> circles_db \<Rightarrow> circles_db" where
  "log_if b e d = (if b then d\<lparr>B_log := B_log d @ [e]\<rparr> else d)"

definition RaiseDispute :: "cenv \<Rightarrow> circle_service \<Rightarrow> string \<Rightarrow> string \<Rightarrow> string \<Rightarrow> string \<Rightarrow> circle_dispute op" where
  "RaiseDispute env s circleID userID reason details d =
     attempt (parseUUID env circleID) d (\<lambda>cid.
     attempt (parseUUID env userID) d (\<lambda>uid.
     attempt (wrap_err ''finding circle for dispute'' (FindByID env cid d)) d (\<lambda>c.
     guard (C_Status c \<noteq> CircleStatusActive \<and> C_Status c \<noteq> CircleStatusPending) (Sentinel ErrCircleNotActive) d (
     guard (\<not> active_member (FindMemberByCircleAndUser env cid uid d)) (Sentinel ErrNotMember) d (
     let dispute = \<lparr>DS_ID = uuid_New env 0, DS_CircleID = cid, DS_RaiserID = uid, DS_Reason = reason,
           DS_Details = (if details \<noteq> [] then Some details else None), DS_Status = ''open'',
           DS_CreatedAt = now env, DS_UpdatedAt = now env\<rparr> in
     perform (wrap_call ''persisting dispute'' (CreateDispute env dispute d)) (\<lambda>_ d'.
     (Inr dispute,
      log_if (has_auditRepo s) (AuditDispute (uuid_New env 1) uid (uuid_String env cid))
        (log_if (has_notificationSvc s) (NotifyDispute (uuid_String env (C_OrganizerID c)) (C_Name c) reason) d'))))))))"

definition current_round :: "circle \<Rightarrow> int" where
  "current_round c = (if C_CurrentRound c < 1 then 1 else C_CurrentRound c)"

definition tallyMap :: "cenv \<Rightarrow> circle_vote list \<Rightarrow> (string \<times> int) list" where
  "tallyMap env votes =
     (let names = map (\<lambda>v. uuid_String env (CV_RecipientID v)) votes in
      map (\<lambda>n. (n, int (count_list names n))) (remdups names))"

text \<open>The answer of \<^verbatim>\<open>CastVote\<close> after the vote is stored: whether all have voted, and the winner.\<close>

definition vote_outcome :: "cenv \<Rightarrow> circle \<Rightarrow> uuid \<Rightarrow> circles_db \<Rightarrow> bool \<times> string" where
  "vote_outcome env c cid d =
     (case GetVotesByRound env cid (current_round c) d of
        Inl e \<Rightarrow> (False, [])
      | Inr votes \<Rightarrow>
          let memberCount = (case GetMemberCount env cid d of
                Inl e \<Rightarrow> C_MaxMembers c
              | Inr n \<Rightarrow> if n = 0 then C_MaxMembers c else n) in
          if int (length votes) \<ge> memberCount then (True, VoteTally (range_tally env (tallyMap env votes)))
          else (False, []))"

definition vote_error :: "error \<Rightarrow> error" where
  "vote_error e =
     (if e = Sentinel App_ErrConflict then Errorf ''user has already voted in this round'' else Wrap ''recording vote'' e)"

definition CastVote :: "cenv \<Rightarrow> string \<Rightarrow> string \<Rightarrow> string \<Rightarrow> (circle_vote \<times> bool \<times> string) op" where
  "CastVote env circleID userID recipient d =
     attempt (parseUUID env circleID) d (\<lambda>cid.
     attempt (parseUUID env userID) d (\<lambda>voterID.
     attempt (parseUUID env recipient) d (\<lambda>recipientID.
     attempt (wrap_err ''finding circle for vote'' (FindByID env cid d)) d (\<lambda>c.
     guard (C_Status c \<noteq> CircleStatusActive) (Sentinel ErrCircleNotActive) d (
     guard (C_PayoutType c \<noteq> PayoutTypeVote) (Errorf ''circle payout type is not vote'') d (
     guard (\<not> active_member (FindMemberByCircleAndUser env cid voterID d)) (Sentinel ErrNotMember) d (
     guard (\<not> active_member (FindMemberByCircleAndUser env cid recipientID d))
       (Errorf ''recipient is not an active circle member'') d (
     let vote = \<lparr>CV_ID = uuid_New env 0, CV_CircleID = cid, CV_VoterID = voterID, CV_RecipientID = recipientID,
           CV_RoundNumber = current_round c, CV_CreatedAt = now env\<rparr> in
     case CreateVote env vote d of
       (Inl e, d') \<Rightarrow> (Inl (vote_error e), d')
     | (Inr _, d') \<Rightarrow> (Inr (vote, vote_outcome env c cid d'), d')))))))))"

definition SubmitAuctionBid :: "cenv \<Rightarrow> string \<Rightarrow> string \<Rightarrow> float64 \<Rightarrow> auction_bid op" where
  "SubmitAuctionBid env circleID userID bidAmount d =
     attempt (parseUUID env circleID) d (\<lambda>cid.
     attempt (parseUUID env userID) d (\<lambda>bidderID.
     attempt (FindByID env cid d) d (\<lambda>c.
     guard (C_Status c \<noteq> CircleStatusActive) (Sentinel ErrCircleNotActive) d (
     guard (C_PayoutType c \<noteq> PayoutTypeAuction) (Errorf ''circle payout type is not auction'') d (
     guard (\<not> active_member (FindMemberByCircleAndUser env cid bidderID d)) (Sentinel ErrNotMember) d (
     guard (fle bidAmount (Finite 0)) (Errorf ''bid amount must be greater than zero'') d (
     let bid = \<lparr>AB_ID = uuid_New env 0, AB_CircleID = cid, AB_BidderID = bidderID,
           AB_RoundNumber = current_round c, AB_BidAmount = bidAmount, AB_CreatedAt = now env\<rparr> in
     perform (wrap_call ''recording auction bid'' (CreateAuctionBid env bid d)) (\<lambda>_ d'. (Inr bid, d')))))))))"

section \<open>Missed contributions\<close>

definition missed_penalty :: "cenv \<Rightarrow> circle \<Rightarrow> uuid \<Rightarrow> int \<Rightarrow> nat \<Rightarrow> uuid \<Rightarrow> penalty" where
  "missed_penalty env c cid roundNumber n u =
     \<lparr>PN_ID = uuid_New env n, PN_CircleID = cid, PN_UserID = u, PN_RoundNumber = roundNumber,
      PN_PenaltyType = PenaltyTypeLate,
      PN_Amount = CalculateLateFee (float_to_int64 env) (C_ContributionAmount c) (C_LateFeePercent c),
      PN_StrikesApplied = ApplyStrikes ''late'',
      PN_Reason = Some (''Missed contribution for round '' @ show_int roundNumber), PN_CreatedAt = now env\<rparr>"

text \<open>The loop over the members; \<open>n\<close> numbers the identifiers drawn so far.\<close>

fun missed_loop :: "cenv \<Rightarrow> circle_service \<Rightarrow> string \<Rightarrow> circle \<Rightarrow> uuid \<Rightarrow> int \<Rightarrow> uuid list \<Rightarrow> nat
    \<Rightarrow> circle_member list \<Rightarrow> unit op" where
  "missed_loop env s circleID c cid roundNumber contributed n [] d = (Inr (), d)"
| "missed_loop env s circleID c cid roundNumber contributed n (m # ms) d =
     (if CM_Status m \<noteq> MemberStatusActive \<or> CM_UserID m \<in> set contributed
      then missed_loop env s circleID c cid roundNumber contributed n ms d
      else let p = missed_penalty env c cid roundNumber n (CM_UserID m) in
        perform (CreatePenalty env p d) (\<lambda>_ d'.
          missed_loop env s circleID c cid roundNumber contributed (Suc n) ms
            (broadcast s (MemberPenalized circleID (uuid_String env (CM_UserID m)) roundNumber (PN_Amount p)) d')))"

definition ProcessMissedContributions :: "cenv \<Rightarrow> circle_service \<Rightarrow> string \<Rightarrow> int \<Rightarrow> unit op" where
  "ProcessMissedContributions env s circleID roundNumber d =
     (case uuid_Parse env circleID of
        None \<Rightarrow> (Inl (Sentinel App_ErrInvalidInput), d)
      | Some cid \<Rightarrow>
          attempt (FindByID env cid d) d (\<lambda>c.
          attempt (Repo_GetMembers env cid d) d (\<lambda>members.
          attempt (GetContributionsByCircleAndRound env cid roundNumber d) d (\<lambda>contributed.
          missed_loop env s circleID c cid roundNumber contributed 0 members d))))"

section \<open>Round configurations and snapshots\<close>

definition QueryRoundConfig :: "cenv \<Rightarrow> string \<Rightarrow> int \<Rightarrow> circles_db \<Rightarrow> round_config result" where
  "QueryRoundConfig env circleID r d =
     (case parseUUID env circleID of Inl e \<Rightarrow> Inl e | Inr cid \<Rightarrow> GetRoundConfigSnapshot env cid r d)"

definition GetCircleSnapshot :: "cenv \<Rightarrow> string \<Rightarrow> string \<Rightarrow> circles_db \<Rightarrow> CircleSnapshot result" where
  "GetCircleSnapshot env circleID userID d =
     (case parseUUID env circleID of
        Inl e \<Rightarrow> Inl e
      | Inr cid \<Rightarrow>
          (case parseUUID env userID of Inl e \<Rightarrow> Inl e | Inr uid \<Rightarrow> Repo_GetCircleSnapshot env True cid uid d))"

fun parse_all :: "cenv \<Rightarrow> string list \<Rightarrow> uuid list result" where
  "parse_all env [] = Inr []"
| "parse_all env (i # is) =
     (case parseUUID env i of
        Inl e \<Rightarrow> Inl e
      | Inr u \<Rightarrow> (case parse_all env is of Inl e \<Rightarrow> Inl e | Inr us \<Rightarrow> Inr (u # us)))"

definition GetBulkCircleSnapshots :: "cenv \<Rightarrow> string \<Rightarrow> string list \<Rightarrow> circles_db \<Rightarrow> CircleSnapshot list result" where
  "GetBulkCircleSnapshots env userID circleIDs d =
     (case parseUUID env userID of
        Inl e \<Rightarrow> Inl e
      | Inr uid \<Rightarrow>
          (case parse_all env circleIDs of
             Inl e \<Rightarrow> Inl e
           | Inr ids \<Rightarrow> Repo_GetBulkCircleSnapshots env True uid ids d))"

section \<open>All calls\<close>

datatype circle_call =
    Call_Update string string UpdateCircleInput
  | Call_Create string CreateCircleInput
  | Call_Start string string
  | Call_Cancel string string
  | Call_Close string string
  | Call_Join string string string
  | Call_Exit string string
  | Call_RemoveMember string string string string
  | Call_RaiseDispute string string string string
  | Call_CastVote string string string
  | Call_SubmitAuctionBid string string float64
  | Call_ProcessMissed string int

fun run_call :: "cenv \<Rightarrow> circle_service \<Rightarrow> circle_call \<Rightarrow> circles_db \<Rightarrow> circles_db" where
  "run_call env s (Call_Update i u x) d = snd (Update env i u x d)"
| "run_call env s (Call_Create u x) d = snd (Create env s u x d)"
| "run_call env s (Call_Start i u) d = snd (Start env s i u d)"
| "run_call env s (Call_Cancel i u) d = snd (Cancel env s i u d)"
| "run_call env s (Call_Close i u) d = snd (Close env s i u d)"
| "run_call env s (Call_Join i u code) d = snd (Join env s i u code d)"
| "run_call env s (Call_Exit i u) d = snd (Exit env s i u d)"
| "run_call env s (Call_RemoveMember i u m reason) d = snd (RemoveMember env s i u m reason d)"
| "run_call env s (Call_RaiseDispute i u reason details) d = snd (RaiseDispute env s i u reason details d)"
| "run_call env s (Call_CastVote i u r) d = snd (CastVote env i u r d)"
| "run_call env s (Call_SubmitAuctionBid i u x) d = snd (SubmitAuctionBid env i u x d)"
| "run_call env s (Call_ProcessMissed i r) d = snd (ProcessMissedContributions env s i r d)"

fun caller :: "cenv \<Rightarrow> circle_call \<Rightarrow> uuid option" where
  "caller env (Call_Update i u x) = uuid_Parse env u"
| "caller env (Call_Create u x) = uuid_Parse env u"
| "caller env (Call_Start i u) = uuid_Parse env u"
| "caller env (Call_Cancel i u) = uuid_Parse env u"
| "caller env (Call_Close i u) = uuid_Parse env u"
| "caller env (Call_Join i u code) = uuid_Parse env u"
| "caller env (Call_Exit i u) = uuid_Parse env u"
| "caller env (Call_RemoveMember i u m reason) = uuid_Parse env u"
| "caller env (Call_RaiseDispute i u reason details) = uuid_Parse env u"
| "caller env (Call_CastVote i u r) = uuid_Parse env u"
| "caller env (Call_SubmitAuctionBid i u x) = uuid_Parse env u"
| "caller env (Call_ProcessMissed i r) = None"

text \<open>
  One call of the service with a transactor, in any environment: any clock, any identifiers,
  any failing statements.
\<close>

inductive circle_step :: "circles_db \<Rightarrow> circles_db \<Rightarrow> bool" where
  circle_stepI: "has_tx s \<Longrightarrow> circle_step d (run_call env s k d)"

definition circles_init :: circles_db where
  "circles_init = \<lparr>B_circles = [], B_members = [], B_penalties = [], B_disputes = [], B_votes = [],
     B_bids = [], B_configs = [], B_contribs = [], B_payouts = [], B_log = []\<rparr>"

section \<open>Abstract specification\<close>

text \<open>
  What a call may do to the circles, the memberships and the votes, without the error paths,
  the statements and the transactions: \<open>spec_step u d d'\<close>, where \<open>u\<close> is the user who calls.
\<close>

definition open_status :: "CircleStatus \<Rightarrow> bool" where
  "open_status st = (st = CircleStatusPending \<or> st = CircleStatusActive)"

inductive moves :: "CircleStatus \<Rightarrow> CircleStatus \<Rightarrow> bool" where
  "moves CircleStatusPending CircleStatusActive"
| "moves CircleStatusPending CircleStatusCancelled"
| "moves CircleStatusActive CircleStatusCompleted"

text \<open>The columns that an edit by the organizer leaves alone.\<close>

definition fixed_columns where
  "fixed_columns c = ((C_ID c, C_ContractID c, C_CommunityID c, C_CircleType c, C_PayoutType c),
     (C_RequiresInvite c, C_StartDate c, C_EndDate c, C_Status c, C_CurrentRound c),
     C_TotalContributions c, C_OrganizerID c, C_CreatedAt c, C_DeletedAt c)"

definition vote_key :: "circle_vote \<Rightarrow> uuid \<times> uuid \<times> int" where
  "vote_key v = (CV_CircleID v, CV_VoterID v, CV_RoundNumber v)"

definition is_active :: "circles_db \<Rightarrow> uuid \<Rightarrow> uuid \<Rightarrow> bool" where
  "is_active d i u = (\<exists>m. find_member d i u = Some m \<and> CM_Status m = MemberStatusActive)"

inductive spec_step :: "uuid option \<Rightarrow> circles_db \<Rightarrow> circles_db \<Rightarrow> bool" where
  sp_quiet: "B_circles d' = B_circles d \<Longrightarrow> B_members d' = B_members d \<Longrightarrow> B_votes d' = B_votes d \<Longrightarrow>
     spec_step u d d'"
| sp_create: "C_Status c = CircleStatusPending \<Longrightarrow> C_CurrentRound c = 0 \<Longrightarrow> C_DeletedAt c = None \<Longrightarrow>
     max_members_ok c \<Longrightarrow> C_OrganizerID c = u \<Longrightarrow> C_ID c \<notin> C_ID ` set (B_circles d) \<Longrightarrow>
     find_member d (C_ID c) u = None \<Longrightarrow>
     B_circles d' = B_circles d @ [c] \<Longrightarrow>
     B_members d' = B_members d @ [\<lparr>CM_CircleID = C_ID c, CM_UserID = u, CM_Position = 1,
       CM_Status = MemberStatusActive, CM_JoinedAt = t\<rparr>] \<Longrightarrow> B_votes d' = B_votes d \<Longrightarrow>
     spec_step (Some u) d d'"
| sp_edit: "find_circle d i = Some c \<Longrightarrow> C_OrganizerID c = u \<Longrightarrow> open_status (C_Status c) \<Longrightarrow>
     fixed_columns c' = fixed_columns c \<Longrightarrow> max_members_ok c' \<Longrightarrow>
     B_circles d' = update_where (\<lambda>r. C_ID r = i) (\<lambda>_. c') (B_circles d) \<Longrightarrow>
     B_members d' = B_members d \<Longrightarrow> B_votes d' = B_votes d \<Longrightarrow> spec_step (Some u) d d'"
| sp_move: "find_circle d i = Some c \<Longrightarrow> C_OrganizerID c = u \<Longrightarrow> moves (C_Status c) st \<Longrightarrow>
     (st = CircleStatusActive \<longrightarrow> 2 \<le> active_count d i) \<Longrightarrow>
     B_circles d' = update_where (\<lambda>r. C_ID r = i) (\<lambda>_. c\<lparr>C_Status := st,
       C_CurrentRound := (if st = CircleStatusActive then 1 else C_CurrentRound c), C_UpdatedAt := t\<rparr>) (B_circles d) \<Longrightarrow>
     B_members d' = B_members d \<Longrightarrow> B_votes d' = B_votes d \<Longrightarrow> spec_step (Some u) d d'"
| sp_join: "find_circle d i = Some c \<Longrightarrow> open_status (C_Status c) \<Longrightarrow> active_count d i < C_MaxMembers c \<Longrightarrow>
     find_member d i u = None \<Longrightarrow> B_circles d' = B_circles d \<Longrightarrow>
     B_members d' = B_members d @ [\<lparr>CM_CircleID = i, CM_UserID = u, CM_Position = active_count d i + 1,
       CM_Status = MemberStatusActive, CM_JoinedAt = t\<rparr>] \<Longrightarrow> B_votes d' = B_votes d \<Longrightarrow> spec_step (Some u) d d'"
| sp_leave: "find_circle d i = Some c \<Longrightarrow> v \<noteq> C_OrganizerID c \<Longrightarrow>
     (u = v \<and> st = MemberStatusExited \<or> u = C_OrganizerID c \<and> st = MemberStatusRemoved) \<Longrightarrow>
     is_active d i v \<Longrightarrow> B_circles d' = B_circles d \<Longrightarrow>
     B_members d' = update_where (\<lambda>m. CM_CircleID m = i \<and> CM_UserID m = v) (\<lambda>m. m\<lparr>CM_Status := st\<rparr>) (B_members d) \<Longrightarrow>
     B_votes d' = B_votes d \<Longrightarrow> spec_step (Some u) d d'"
| sp_vote: "find_circle d i = Some c \<Longrightarrow> C_Status c = CircleStatusActive \<Longrightarrow> C_PayoutType c = PayoutTypeVote \<Longrightarrow>
     is_active d i u \<Longrightarrow> is_active d i (CV_RecipientID v) \<Longrightarrow> CV_CircleID v = i \<Longrightarrow> CV_VoterID v = u \<Longrightarrow>
     vote_key v \<notin> vote_key ` set (B_votes d) \<Longrightarrow> B_circles d' = B_circles d \<Longrightarrow> B_members d' = B_members d \<Longrightarrow>
     B_votes d' = B_votes d @ [v] \<Longrightarrow> spec_step (Some u) d d'"

text \<open>The invariant of the tables.\<close>

definition member_key :: "circle_member \<Rightarrow> uuid \<times> uuid" where
  "member_key m = (CM_CircleID m, CM_UserID m)"

definition circle_ok :: "circle \<Rightarrow> bool" where
  "circle_ok c = (C_DeletedAt c = None \<and> max_members_ok c \<and>
     (C_Status c, C_CurrentRound c) \<in> {(CircleStatusPending, 0), (CircleStatusCancelled, 0),
        (CircleStatusActive, 1), (CircleStatusCompleted, 1)})"

definition circles_ok :: "circles_db \<Rightarrow> bool" where
  "circles_ok d = (distinct (map C_ID (B_circles d)) \<and> distinct (map member_key (B_members d))
     \<and> distinct (map vote_key (B_votes d))
     \<and> (\<forall>c \<in> set (B_circles d). circle_ok c \<and> is_active d (C_ID c) (C_OrganizerID c)))"

text \<open>The refinement below needs no more of the invariant than that circles are told apart by their identifier.\<close>

abbreviation ids_unique :: "circles_db \<Rightarrow> bool" where
  "ids_unique d \<equiv> distinct (map C_ID (B_circles d))"

section \<open>What the statements do\<close>

lemma snd_checked_update [simp]: "snd (perform c (\<lambda>_ d'. guard b e d' (Inr (), d'))) = snd c"
  by (cases c; cases "fst c") (auto simp: guard_def)

lemma Repo_Update_cases:
  obtains "snd (Repo_Update env c d) = d"
  | "max_members_ok c" "snd (Repo_Update env c d)
       = d\<lparr>B_circles := update_where (\<lambda>r. C_ID r = C_ID c) (write_circle c) (B_circles d)\<rparr>"
proof (cases "fault env (CQ_UpdateCircle (C_ID c)) = None \<and> (\<exists>r \<in> set (B_circles d). C_ID r = C_ID c) \<and> max_members_ok c")
  case True
  then show ?thesis using that(2) by (simp add: Repo_Update_def guard_def)
next
  case False
  then have "snd (Repo_Update env c d) = d"
    by (auto simp: Repo_Update_def exec_stmt_def update_where_none split: option.splits)
  then show ?thesis by (rule that(1))
qed

lemma find_circle_D:
  "find_circle d i = Some c \<Longrightarrow> c \<in> set (B_circles d) \<and> C_ID c = i \<and> C_DeletedAt c = None"
  by (auto simp: find_circle_def find_Some_iff)

lemma FindByID_Inr: "FindByID env i d = Inr c \<longleftrightarrow>
    fault env (CQ_FindByID i) = None \<and> (\<exists>r. find_circle d i = Some r \<and> c = read_circle d r)"
  by (auto simp: FindByID_def scanCircle_def run_query_def split: option.splits sum.splits if_splits)

text \<open>A circle that was read, changed and written back.\<close>

lemma write_back:
  assumes "ids_unique d" "find_circle d i = Some c" "C_ID c' = i"
  shows "update_where (\<lambda>r. C_ID r = C_ID c') (write_circle c') (B_circles d)
    = update_where (\<lambda>r. C_ID r = i) (\<lambda>_. write_circle c' c) (B_circles d)"
proof -
  have "c \<in> set (B_circles d)" "C_ID c = i" using find_circle_D [OF assms(2)] by auto
  moreover have "distinct (map C_ID (B_circles d))" by (rule assms(1))
  ultimately show ?thesis using update_where_only [of C_ID "B_circles d" c "write_circle c'"] assms(3) by simp
qed

lemma broadcast_tables [simp]:
  "B_circles (broadcast s e d) = B_circles d" "B_members (broadcast s e d) = B_members d"
  "B_votes (broadcast s e d) = B_votes d" "B_penalties (broadcast s e d) = B_penalties d"
  "B_contribs (broadcast s e d) = B_contribs d" "B_configs (broadcast s e d) = B_configs d"
  by (simp_all add: broadcast_def)

lemma log_if_tables [simp]:
  "B_circles (log_if b e d) = B_circles d" "B_members (log_if b e d) = B_members d"
  "B_votes (log_if b e d) = B_votes d"
  by (simp_all add: log_if_def)

lemma spec_refl [simp, intro]: "spec_step u d d"
  by (rule sp_quiet) simp_all

lemma spec_tables:
  "B_circles d1 = B_circles d2 \<Longrightarrow> B_members d1 = B_members d2 \<Longrightarrow> B_votes d1 = B_votes d2 \<Longrightarrow>
     spec_step u d d1 \<longleftrightarrow> spec_step u d d2"
  by (simp add: spec_step.simps [of u d])

lemma spec_broadcast [simp]: "spec_step u d (broadcast s e d') \<longleftrightarrow> spec_step u d d'"
  by (rule spec_tables) simp_all


section \<open>The service implements the specification\<close>

lemma read_circle_simps [simp]:
  "C_ID (read_circle d c) = C_ID c" "C_OrganizerID (read_circle d c) = C_OrganizerID c"
  "C_Status (read_circle d c) = C_Status c" "C_PayoutType (read_circle d c) = C_PayoutType c"
  "C_CurrentRound (read_circle d c) = C_CurrentRound c" "C_MaxMembers (read_circle d c) = C_MaxMembers c"
  by (simp_all add: read_circle_def)

lemma parseUUID_Inr [svc]: "parseUUID env x = Inr u \<longleftrightarrow> uuid_Parse env x = Some u"
  by (simp add: parseUUID_def split: option.splits)

lemma GetMemberCount_Inr: "GetMemberCount env i d = Inr n \<Longrightarrow> n = active_count d i"
  by (simp add: GetMemberCount_def svc)

text \<open>Decomposition of an operation along its early returns.\<close>

lemmas spec_frame = attempt_frame [where P = "spec_step u d" for u d] guard_frame [where P = "spec_step u d" for u d]

lemma Update_spec: "ids_unique d \<Longrightarrow> spec_step (uuid_Parse env u) d (snd (Update env i u input d))"
  unfolding Update_def Let_def
proof (intro spec_frame spec_refl)
  fix uid usr c
  assume ok: "ids_unique d" and u: "parseUUID env u = Inr usr" and c: "wrap_err ''finding circle for update'' (FindByID env uid d) = Inr c"
    and org: "\<not> C_OrganizerID c \<noteq> usr" and st: "\<not> (C_Status c \<noteq> CircleStatusPending \<and> C_Status c \<noteq> CircleStatusActive)"
  let ?c = "apply_input env input c"
  obtain r where r: "find_circle d uid = Some r" "c = read_circle d r" using c by (auto simp: FindByID_Inr)
  have id: "C_ID ?c = uid" using find_circle_D [OF r(1)] r(2) by (simp add: apply_input_def)
  show "spec_step (uuid_Parse env u) d (snd (perform (wrap_call ''updating circle'' (Repo_Update env ?c d)) (\<lambda>_ d'. (Inr ?c, d'))))"
  proof (rule perform_frame)
    show "spec_step (uuid_Parse env u) d (snd (wrap_call ''updating circle'' (Repo_Update env ?c d)))"
    proof (cases rule: Repo_Update_cases [of env ?c d])
      case 2
      have "spec_step (Some usr) d (d\<lparr>B_circles := update_where (\<lambda>r. C_ID r = uid) (\<lambda>_. write_circle ?c r) (B_circles d)\<rparr>)"
        by (rule sp_edit [OF r(1), where c' = "write_circle ?c r"])
           (use org st r(2) 2(1) in \<open>auto simp: open_status_def fixed_columns_def write_circle_def apply_input_def
              read_circle_def max_members_ok_def\<close>)
      then show ?thesis using 2(2) write_back [OF ok r(1) id] u by (simp add: parseUUID_Inr)
    qed simp
  qed simp
qed

lemma Repo_Update_move:
  assumes "ids_unique d" "find_circle d i = Some r" "C_OrganizerID r = u" "moves (C_Status r) st"
    and "st = CircleStatusActive \<longrightarrow> 2 \<le> active_count d i" "C_ID c' = i"
    and "write_circle c' r = r\<lparr>C_Status := st,
       C_CurrentRound := (if st = CircleStatusActive then 1 else C_CurrentRound r), C_UpdatedAt := t\<rparr>"
  shows "spec_step (Some u) d (snd (Repo_Update env c' d))"
proof (cases rule: Repo_Update_cases [of env c' d])
  case 2
  then show ?thesis
    using sp_move [OF assms(2-5), of _ t] write_back [OF assms(1,2,6)] assms(7) by simp
qed simp

lemma withTransaction_frame:
  "has_tx s \<Longrightarrow> P d \<Longrightarrow> (\<And>y v. fn d = (Inr y, v) \<Longrightarrow> P v) \<Longrightarrow> P (snd (withTransaction env s fn d))"
  by (auto simp: withTransaction_def WithTransaction_def transaction_def split: option.splits prod.splits sum.splits)

lemma withTransaction_Inr:
  "withTransaction env s fn d = (Inr y, v) \<Longrightarrow> fn d = (Inr y, v)"
  by (auto simp: withTransaction_def WithTransaction_def transaction_def split: option.splits prod.splits sum.splits if_splits)

lemma snapshotRoundConfig_tables [simp]:
  "B_circles (snd (snapshotRoundConfig env c r d)) = B_circles d"
  "B_members (snd (snapshotRoundConfig env c r d)) = B_members d"
  "B_votes (snd (snapshotRoundConfig env c r d)) = B_votes d"
  by (cases "config_json env c";
      simp add: snapshotRoundConfig_def SaveRoundConfigSnapshot_def exec_stmt_def split: option.splits)+

lemma Start_spec: "ids_unique d \<Longrightarrow> spec_step (uuid_Parse env u) d (snd (Start env s i u d))"
  unfolding Start_def Let_def
proof (intro spec_frame spec_refl)
  fix cid usr c count
  assume ok: "ids_unique d" and u: "parseUUID env u = Inr usr" and c: "wrap_err ''finding circle for start'' (FindByID env cid d) = Inr c"
    and org: "\<not> C_OrganizerID c \<noteq> usr" and st: "\<not> C_Status c \<noteq> CircleStatusPending"
    and n: "wrap_err ''checking member count'' (GetMemberCount env cid d) = Inr count" "\<not> count < 2"
  let ?c = "c\<lparr>C_Status := CircleStatusActive, C_CurrentRound := 1, C_UpdatedAt := now env\<rparr>"
  obtain r where r: "find_circle d cid = Some r" "c = read_circle d r" using c by (auto simp: FindByID_Inr)
  have step: "spec_step (Some usr) d (snd (Repo_Update env ?c d))"
    by (rule Repo_Update_move [OF ok r(1), where st = CircleStatusActive and t = "now env"])
       (use org st n GetMemberCount_Inr find_circle_D [OF r(1)] in
         \<open>auto simp: r(2) moves.simps write_circle_def read_circle_def\<close>)
  show "spec_step (uuid_Parse env u) d (snd (perform (wrap_call ''activating circle'' (Repo_Update env ?c d)) (\<lambda>_ d'.
     (Inr (), broadcast s (CircleStatusChanged i ''active'') (snd (snapshotRoundConfig env ?c 1 d'))))))"
    by (rule perform_frame) (use step u in \<open>simp_all add: parseUUID_Inr spec_tables [of "snd (snapshotRoundConfig env c' 1 d')" d' for c' d']\<close>)
qed

lemma cancel_body_spec: "ids_unique d \<Longrightarrow> spec_step (Some usr) d (snd (cancel_body env cid usr d))"
  unfolding cancel_body_def
proof (intro spec_frame spec_refl)
  fix c
  assume ok: "ids_unique d" and c: "wrap_err ''finding circle for cancel'' (FindByID env cid d) = Inr c"
    and org: "\<not> C_OrganizerID c \<noteq> usr" and st: "\<not> C_Status c \<noteq> CircleStatusPending"
  let ?c = "c\<lparr>C_Status := CircleStatusCancelled, C_UpdatedAt := now env\<rparr>"
  obtain r where r: "find_circle d cid = Some r" "c = read_circle d r" using c by (auto simp: FindByID_Inr)
  have "spec_step (Some usr) d (snd (Repo_Update env ?c d))"
    by (rule Repo_Update_move [OF ok r(1), where st = CircleStatusCancelled and t = "now env"])
       (use org st find_circle_D [OF r(1)] in \<open>auto simp: r(2) moves.simps write_circle_def read_circle_def\<close>)
  then show "spec_step (Some usr) d (snd (wrap_call ''cancelling circle'' (Repo_Update env ?c d)))" by simp
qed

lemma Cancel_spec: "ids_unique d \<Longrightarrow> has_tx s \<Longrightarrow> spec_step (uuid_Parse env u) d (snd (Cancel env s i u d))"
  unfolding Cancel_def
  by (intro spec_frame spec_refl perform_frame [where P = "spec_step (uuid_Parse env u) d"]
        withTransaction_frame [where P = "spec_step (uuid_Parse env u) d"])
     (auto simp: parseUUID_Inr, metis cancel_body_spec snd_conv)

lemma Close_spec: "ids_unique d \<Longrightarrow> spec_step (uuid_Parse env u) d (snd (Close env s i u d))"
  unfolding Close_def
proof (intro spec_frame spec_refl)
  fix cid usr c
  assume ok: "ids_unique d" and u: "parseUUID env u = Inr usr" and c: "wrap_err ''finding circle for close'' (FindByID env cid d) = Inr c"
    and org: "\<not> C_OrganizerID c \<noteq> usr" and st: "\<not> C_Status c \<noteq> CircleStatusActive"
  let ?c = "c\<lparr>C_Status := CircleStatusCompleted, C_UpdatedAt := now env\<rparr>"
  obtain r where r: "find_circle d cid = Some r" "c = read_circle d r" using c by (auto simp: FindByID_Inr)
  have step: "spec_step (Some usr) d (snd (Repo_Update env ?c d))"
    by (rule Repo_Update_move [OF ok r(1), where st = CircleStatusCompleted and t = "now env"])
       (use org st find_circle_D [OF r(1)] in \<open>auto simp: r(2) moves.simps write_circle_def read_circle_def\<close>)
  show "spec_step (uuid_Parse env u) d (snd (perform (wrap_call ''closing circle'' (Repo_Update env ?c d)) (\<lambda>_ d'.
     (Inr (), broadcast s (CircleStatusChanged i ''completed'') d'))))"
    by (rule perform_frame) (use step u in \<open>simp_all add: parseUUID_Inr\<close>)
qed

lemma CreateMember_Inr: "CreateMember env m d = (Inr y, v) \<Longrightarrow>
    find_member d (CM_CircleID m) (CM_UserID m) = None \<and> v = d\<lparr>B_members := B_members d @ [m]\<rparr>"
  by (auto simp: CreateMember_def exec_stmt_def split: option.splits if_splits prod.splits sum.splits)

lemma Repo_Create_Inr: "Repo_Create env c d = (Inr y, v) \<Longrightarrow>
    C_ID c \<notin> C_ID ` set (B_circles d) \<and> max_members_ok c
    \<and> v = d\<lparr>B_circles := B_circles d @ [c\<lparr>C_MemberCount := 0, C_DeletedAt := None\<rparr>]\<rparr>"
  by (auto simp: Repo_Create_def exec_stmt_def split: option.splits if_splits prod.splits sum.splits)

lemma create_body_spec:
  assumes "create_body env org input d = (Inr y, v)"
  shows "spec_step (Some org) d v"
proof -
  let ?c = "buildCircle env org input"
  from assms obtain w where w: "Repo_Create env ?c d = (Inr (), w)"
    by (auto simp: create_body_def Let_def split: prod.splits sum.splits)
  note new = Repo_Create_Inr [OF w]
  have c: "?c\<lparr>C_MemberCount := 0, C_DeletedAt := None\<rparr> = ?c" by (simp add: buildCircle_def)
  let ?m = "\<lparr>CM_CircleID = C_ID ?c, CM_UserID = org, CM_Position = 1,
     CM_Status = MemberStatusActive, CM_JoinedAt = now env\<rparr>"
  have "CreateMember env ?m w = (Inr (), v)" using assms by (auto simp: create_body_def w Let_def svc)
  then have m: "find_member w (C_ID ?c) org = None" "v = w\<lparr>B_members := B_members w @ [?m]\<rparr>"
    using CreateMember_Inr [of env ?m w] by auto
  have none: "find_member d (C_ID ?c) org = None" using m(1) new by (auto simp: find_member_def)
  have v: "B_circles v = B_circles d @ [?c]" "B_members v = B_members d @ [?m]" "B_votes v = B_votes d"
    using new m(2) c by auto
  show ?thesis
    by (rule sp_create [OF _ _ _ _ _ _ none v])
       (use new in \<open>simp_all add: buildCircle_def\<close>)
qed

lemma Create_spec: "has_tx s \<Longrightarrow> spec_step (uuid_Parse env u) d (snd (Create env s u input d))"
  unfolding Create_def
  by (intro spec_frame spec_refl perform_frame [where P = "spec_step (uuid_Parse env u) d"]
        withTransaction_frame [where P = "spec_step (uuid_Parse env u) d"])
     (auto simp: parseUUID_Inr create_body_spec)

lemma join_body_spec:
  assumes c: "FindByID env cid d = Inr c" and st: "open_status (C_Status c)"
    and j: "join_body env c cid uid d = (Inr y, v)"
  shows "spec_step (Some uid) d v"
proof -
  let ?m = "\<lparr>CM_CircleID = cid, CM_UserID = uid, CM_Position = active_count d cid + 1,
     CM_Status = MemberStatusActive, CM_JoinedAt = now env\<rparr>"
  obtain r where r: "find_circle d cid = Some r" "c = read_circle d r" using c by (auto simp: FindByID_Inr)
  obtain count where "GetMemberCount env cid d = Inr count" and n: "\<not> C_MaxMembers c \<le> count"
    "CreateMember env \<lparr>CM_CircleID = cid, CM_UserID = uid, CM_Position = count + 1,
       CM_Status = MemberStatusActive, CM_JoinedAt = now env\<rparr> d = (Inr y, v)"
    using j by (auto simp: join_body_def attempt_Inr guard_Inr wrap_call_Inr)
  then have count: "count = active_count d cid" by (simp add: GetMemberCount_Inr)
  note m = CreateMember_Inr [OF n(2)]
  show ?thesis
    by (rule sp_join [OF r(1), where t = "now env"]) (use m n(1) count st r(2) in simp_all)
qed

lemma Join_spec: "has_tx s \<Longrightarrow> spec_step (uuid_Parse env u) d (snd (Join env s i u code d))"
  unfolding Join_def
  by (intro spec_frame spec_refl perform_frame [where P = "spec_step (uuid_Parse env u) d"]
        withTransaction_frame [where P = "spec_step (uuid_Parse env u) d"])
     (auto simp: parseUUID_Inr open_status_def intro: join_body_spec)

lemma UpdateMemberStatus_tables:
  "snd (UpdateMemberStatus env i u st d) = d \<or> snd (UpdateMemberStatus env i u st d)
     = d\<lparr>B_members := update_where (\<lambda>m. CM_CircleID m = i \<and> CM_UserID m = u) (\<lambda>m. m\<lparr>CM_Status := st\<rparr>) (B_members d)\<rparr>"
  by (auto simp: UpdateMemberStatus_def exec_stmt_def Let_def split: option.splits)

lemma FindMember_Inr: "FindMemberByCircleAndUser env i u d = Inr m \<longleftrightarrow>
    fault env (CQ_FindMember i u) = None \<and> find_member d i u = Some m"
  by (auto simp: FindMemberByCircleAndUser_def scanCircleMember_def run_query_def split: option.splits sum.splits if_splits)

lemma member_error_Inr [svc]: "member_error t r = Inr m \<longleftrightarrow> r = Inr m"
  by (auto simp: member_error_def split: sum.splits)

lemma leave_spec:
  assumes "FindByID env cid d = Inr c" "FindMemberByCircleAndUser env cid v d = Inr m"
    and "CM_Status m = MemberStatusActive" "v \<noteq> C_OrganizerID c"
    and "u = v \<and> st = MemberStatusExited \<or> u = C_OrganizerID c \<and> st = MemberStatusRemoved"
  shows "spec_step (Some u) d (snd (UpdateMemberStatus env cid v st d))"
proof -
  obtain r where r: "find_circle d cid = Some r" "c = read_circle d r" using assms(1) by (auto simp: FindByID_Inr)
  have "is_active d cid v" using assms(2,3) by (auto simp: is_active_def FindMember_Inr)
  then show ?thesis
    using UpdateMemberStatus_tables [of env cid v st d] sp_leave [OF r(1), of v u st d] assms(4,5) r(2)
    by (auto intro: sp_leave [OF r(1)])
qed

lemma Exit_spec: "spec_step (uuid_Parse env u) d (snd (Exit env s i u d))"
  unfolding Exit_def
  by (intro spec_frame spec_refl perform_frame [where P = "spec_step (uuid_Parse env u) d"])
     (auto simp: parseUUID_Inr member_error_Inr intro!: leave_spec)

lemma RemoveMember_spec: "spec_step (uuid_Parse env u) d (snd (RemoveMember env s i u v reason d))"
  unfolding RemoveMember_def
  by (intro spec_frame spec_refl perform_frame [where P = "spec_step (uuid_Parse env u) d"])
     (auto simp: parseUUID_Inr member_error_Inr intro!: leave_spec)

lemma CreateDispute_tables [simp]:
  "B_circles (snd (CreateDispute env x d)) = B_circles d" "B_members (snd (CreateDispute env x d)) = B_members d"
  "B_votes (snd (CreateDispute env x d)) = B_votes d"
  by (simp_all add: CreateDispute_def exec_stmt_def split: option.splits)

lemma CreateAuctionBid_tables [simp]:
  "B_circles (snd (CreateAuctionBid env x d)) = B_circles d" "B_members (snd (CreateAuctionBid env x d)) = B_members d"
  "B_votes (snd (CreateAuctionBid env x d)) = B_votes d"
  by (simp_all add: CreateAuctionBid_def exec_stmt_def Let_def split: option.splits)

lemma CreatePenalty_tables [simp]:
  "B_circles (snd (CreatePenalty env x d)) = B_circles d" "B_members (snd (CreatePenalty env x d)) = B_members d"
  "B_votes (snd (CreatePenalty env x d)) = B_votes d"
  by (simp_all add: CreatePenalty_def exec_stmt_def split: option.splits)

lemma RaiseDispute_spec: "spec_step (uuid_Parse env u) d (snd (RaiseDispute env s i u reason details d))"
  unfolding RaiseDispute_def Let_def
  by (intro spec_frame spec_refl perform_frame [where P = "spec_step (uuid_Parse env u) d"])
     (auto intro: sp_quiet simp: spec_tables [of "log_if b e d'" d' for b e d'])

lemma SubmitAuctionBid_spec: "spec_step (uuid_Parse env u) d (snd (SubmitAuctionBid env i u x d))"
  unfolding SubmitAuctionBid_def Let_def
  by (intro spec_frame spec_refl perform_frame [where P = "spec_step (uuid_Parse env u) d"])
     (auto intro: sp_quiet)

lemma missed_loop_tables:
  "B_circles (snd (missed_loop env s i c cid r us n ms d)) = B_circles d
   \<and> B_members (snd (missed_loop env s i c cid r us n ms d)) = B_members d
   \<and> B_votes (snd (missed_loop env s i c cid r us n ms d)) = B_votes d"
proof (induction ms arbitrary: n d)
  case (Cons m ms)
  let ?p = "missed_penalty env c cid r n (CM_UserID m)"
  have "B_circles (snd (CreatePenalty env ?p d)) = B_circles d" "B_members (snd (CreatePenalty env ?p d)) = B_members d"
    "B_votes (snd (CreatePenalty env ?p d)) = B_votes d" by simp_all
  then show ?case using Cons.IH
    by (cases "CreatePenalty env ?p d"; cases "fst (CreatePenalty env ?p d)") (auto simp: Let_def)
qed simp

lemma ProcessMissed_spec: "spec_step u d (snd (ProcessMissedContributions env s i r d))"
  by (auto simp: ProcessMissedContributions_def missed_loop_tables split: option.splits
      intro!: spec_frame sp_quiet [where d' = "snd (missed_loop env s i c cid r us n ms d)" for c cid us n ms])

lemma CreateVote_Inr: "CreateVote env v d = (Inr y, d') \<Longrightarrow>
    vote_key v \<notin> vote_key ` set (B_votes d) \<and> d' = d\<lparr>B_votes := B_votes d @ [v]\<rparr>"
  by (auto simp: CreateVote_def exec_stmt_def vote_key_def split: option.splits if_splits prod.splits sum.splits)

lemma CreateVote_Inl: "CreateVote env v d = (Inl e, d') \<Longrightarrow> d' = d"
  by (auto simp: CreateVote_def exec_stmt_def split: option.splits if_splits prod.splits sum.splits)

lemma active_member_iff: "active_member (FindMemberByCircleAndUser env i u d) \<Longrightarrow> is_active d i u"
  by (auto simp: active_member_def is_active_def FindMember_Inr split: sum.splits)

lemma CastVote_spec: "spec_step (uuid_Parse env u) d (snd (CastVote env i u x d))"
  unfolding CastVote_def Let_def
proof (intro spec_frame spec_refl)
  fix cid voter recip c
  assume u: "parseUUID env u = Inr voter" and c: "wrap_err ''finding circle for vote'' (FindByID env cid d) = Inr c"
    and st: "\<not> C_Status c \<noteq> CircleStatusActive" "\<not> C_PayoutType c \<noteq> PayoutTypeVote"
    and act: "\<not> \<not> active_member (FindMemberByCircleAndUser env cid voter d)"
      "\<not> \<not> active_member (FindMemberByCircleAndUser env cid recip d)"
  let ?v = "\<lparr>CV_ID = uuid_New env 0, CV_CircleID = cid, CV_VoterID = voter, CV_RecipientID = recip,
           CV_RoundNumber = current_round c, CV_CreatedAt = now env\<rparr>"
  obtain r where r: "find_circle d cid = Some r" "c = read_circle d r" using c by (auto simp: FindByID_Inr)
  have "spec_step (Some voter) d d'" if "CreateVote env ?v d = (Inr y, d')" for y d'
    by (rule sp_vote [OF r(1), where v = ?v])
       (use CreateVote_Inr [OF that] st act r(2) active_member_iff in simp_all)
  then show "spec_step (uuid_Parse env u) d (snd (case CreateVote env ?v d of (Inl e, d') \<Rightarrow> (Inl (vote_error e), d')
     | (Inr _, d') \<Rightarrow> (Inr (?v, vote_outcome env c cid d'), d')))"
    using u by (auto simp: parseUUID_Inr dest: CreateVote_Inl split: prod.splits sum.splits)
qed

lemma run_call_refines:
  "ids_unique d \<Longrightarrow> has_tx s \<Longrightarrow> spec_step (caller env k) d (run_call env s k d)"
  by (cases k) (simp_all add: Update_spec Create_spec Start_spec Cancel_spec Close_spec Join_spec Exit_spec
      RemoveMember_spec RaiseDispute_spec CastVote_spec SubmitAuctionBid_spec ProcessMissed_spec)

end
