(* ===== verification/CircleLife.thy ===== *)
theory CircleLife
  imports CircleService
begin

text \<open>
  The life of a savings circle under any sequence of calls: the invariant of the tables, the
  life cycles of circles and of memberships (two instances of the locale \<open>lifecycle\<close>), and the
  properties of the circle service that follow from the abstract specification.
\<close>

section \<open>The invariant\<close>

lemma find_member_append:
  "find_member (d\<lparr>B_members := B_members d @ [m]\<rparr>) i u =
     (case find_member d i u of Some r \<Rightarrow> Some r
      | None \<Rightarrow> if member_key m = (i, u) then Some m else None)"
  by (simp add: find_member_def find_append member_key_def split: option.splits)

lemma find_member_update:
  "find_member (d\<lparr>B_members := update_where p (\<lambda>m. m\<lparr>CM_Status := st\<rparr>) (B_members d)\<rparr>) i u
     = map_option (\<lambda>m. if p m then m\<lparr>CM_Status := st\<rparr> else m) (find_member d i u)"
  by (simp add: find_member_def find_update_where_pred)

lemma find_member_same: "B_members d' = B_members d \<Longrightarrow> find_member d' = find_member d"
  by (simp add: find_member_def fun_eq_iff)

lemma find_member_D:
  "find_member d i u = Some m \<Longrightarrow> m \<in> set (B_members d) \<and> CM_CircleID m = i \<and> CM_UserID m = u"
  by (auto simp: find_member_def find_Some_iff)

lemma find_member_None: "find_member d i u = None \<longleftrightarrow> (i, u) \<notin> member_key ` set (B_members d)"
  by (auto simp: find_member_def find_None_iff member_key_def)

text \<open>How a step of the specification changes one membership.\<close>

definition member_next :: "circle_member \<Rightarrow> circle_member \<Rightarrow> bool" where
  "member_next m m' = (CM_Status m = MemberStatusActive
     \<and> (m' = m\<lparr>CM_Status := MemberStatusExited\<rparr> \<or> m' = m\<lparr>CM_Status := MemberStatusRemoved\<rparr>))"

lemma spec_member:
  assumes "spec_step u d d'" "find_member d i v = Some m"
  shows "find_member d' i v = Some m \<or> (\<exists>m'. find_member d' i v = Some m' \<and> member_next m m'
    \<and> (\<exists>c. find_circle d i = Some c \<and> v \<noteq> C_OrganizerID c \<and> (u = Some v \<or> u = Some (C_OrganizerID c))))"
  using assms
proof cases
  case (sp_create c w t)
  then show ?thesis using assms(2) by (simp add: find_member_def find_append)
next
  case (sp_join j c w t)
  then show ?thesis using assms(2) by (simp add: find_member_def find_append)
next
  case (sp_leave j c w x st)
  then have "find_member d' i v = map_option (\<lambda>m. if CM_CircleID m = j \<and> CM_UserID m = w then m\<lparr>CM_Status := st\<rparr> else m)
      (find_member d i v)"
    by (simp add: find_member_def find_update_where_pred)
  then show ?thesis
    using assms(2) find_member_D [OF assms(2)] sp_leave by (auto simp: is_active_def member_next_def)
qed (use assms(2) in \<open>simp_all add: find_member_def\<close>)

lemma spec_active_organizer:
  assumes "spec_step u d d'" "circles_ok d" "c \<in> set (B_circles d)"
  shows "is_active d' (C_ID c) (C_OrganizerID c)"
proof -
  obtain m where m: "find_member d (C_ID c) (C_OrganizerID c) = Some m" "CM_Status m = MemberStatusActive"
    using assms(2,3) by (auto simp: circles_ok_def is_active_def)
  have "C_OrganizerID r = C_OrganizerID c" if "find_circle d (C_ID c) = Some r" for r
    using find_circle_D [OF that] assms(2,3) by (metis circles_ok_def distinct_map inj_onD)
  with spec_member [OF assms(1) m(1)] m(2) show ?thesis by (auto simp: is_active_def)
qed

text \<open>How a step changes the circle stored under an identifier.\<close>

definition circle_row :: "circles_db \<Rightarrow> uuid \<Rightarrow> circle option" where
  "circle_row d i = List.find (\<lambda>c. C_ID c = i) (B_circles d)"

definition circle_next :: "circle \<Rightarrow> circle \<Rightarrow> bool" where
  "circle_next c c' =
     (open_status (C_Status c) \<and> fixed_columns c' = fixed_columns c \<and> max_members_ok c'
      \<or> (\<exists>st t. moves (C_Status c) st \<and> c' = c\<lparr>C_Status := st,
           C_CurrentRound := (if st = CircleStatusActive then 1 else C_CurrentRound c), C_UpdatedAt := t\<rparr>))"

lemma fixed_columns_key: "fixed_columns c' = fixed_columns c \<Longrightarrow> C_ID c' = C_ID c \<and> C_OrganizerID c' = C_OrganizerID c
    \<and> C_Status c' = C_Status c \<and> C_CurrentRound c' = C_CurrentRound c \<and> C_DeletedAt c' = C_DeletedAt c
    \<and> C_CreatedAt c' = C_CreatedAt c \<and> C_CircleType c' = C_CircleType c \<and> C_PayoutType c' = C_PayoutType c"
  by (simp add: fixed_columns_def)

lemma circle_next_key: "circle_next c c' \<Longrightarrow> C_ID c' = C_ID c \<and> C_OrganizerID c' = C_OrganizerID c
    \<and> C_CreatedAt c' = C_CreatedAt c \<and> C_CircleType c' = C_CircleType c \<and> C_PayoutType c' = C_PayoutType c"
  by (auto simp: circle_next_def dest: fixed_columns_key)

lemma circle_next_ok: "circle_next c c' \<Longrightarrow> circle_ok c \<Longrightarrow> circle_ok c'"
  by (auto simp: circle_next_def circle_ok_def max_members_ok_def moves.simps dest: fixed_columns_key)

lemma circle_next_status: "circle_next c c' \<Longrightarrow> C_Status c' = C_Status c \<or> moves (C_Status c) (C_Status c')"
  by (auto simp: circle_next_def dest: fixed_columns_key)

lemma circle_final: "\<not> open_status (C_Status c) \<Longrightarrow> \<not> circle_next c c'"
  by (auto simp: circle_next_def open_status_def moves.simps)

lemma circle_row_D: "circle_row d i = Some c \<Longrightarrow> c \<in> set (B_circles d) \<and> C_ID c = i"
  by (auto simp: circle_row_def find_Some_iff)

text \<open>
  The part of the invariant that chain events keep as well: keys are unique, no circle is deleted, and the organizer of every circle
  has a membership of it, in whatever status.
\<close>

definition row_ok :: "circles_db \<Rightarrow> circle \<Rightarrow> bool" where
  "row_ok d c = (C_DeletedAt c = None \<and> max_members_ok c \<and> 0 \<le> C_CurrentRound c \<and> find_member d (C_ID c) (C_OrganizerID c) \<noteq> None)"

definition circles_keyed :: "circles_db \<Rightarrow> bool" where
  "circles_keyed d = (distinct (map C_ID (B_circles d)) \<and> distinct (map member_key (B_members d))
     \<and> distinct (map vote_key (B_votes d)) \<and> (\<forall>c \<in> set (B_circles d). row_ok d c))"

lemma circles_ok_keyed: "circles_ok d \<Longrightarrow> circles_keyed d"
  by (auto simp: circles_ok_def circles_keyed_def row_ok_def circle_ok_def is_active_def)

lemma circles_keyed_ids: "circles_keyed d \<Longrightarrow> ids_unique d"
  by (simp add: circles_keyed_def)

lemma circle_row_ok: "circles_keyed d \<Longrightarrow> c \<in> set (B_circles d) \<longleftrightarrow> circle_row d (C_ID c) = Some c"
proof
  assume ok: "circles_keyed d" and c: "c \<in> set (B_circles d)"
  then obtain r where r: "circle_row d (C_ID c) = Some r" by (cases "circle_row d (C_ID c)") (auto simp: circle_row_def find_None_iff)
  then have "r = c" using circle_row_D [OF r] ok c by (metis circles_keyed_def distinct_map inj_onD)
  with r show "circle_row d (C_ID c) = Some c" by simp
qed (auto dest: circle_row_D)

lemma find_circle_row: "circles_keyed d \<Longrightarrow> find_circle d i = Some c \<longleftrightarrow> circle_row d i = Some c"
proof -
  assume ok: "circles_keyed d"
  then have "find_circle d i = circle_row d i"
    unfolding find_circle_def circle_row_def
    by (intro find_cong refl) (auto simp: circles_keyed_def row_ok_def)
  then show ?thesis by simp
qed

lemma circle_row_update:
  assumes "circle_row d i = Some c" "C_ID c' = i"
    and "B_circles d' = update_where (\<lambda>r. C_ID r = i) (\<lambda>_. c') (B_circles d)"
  shows "circle_row d' j = (if j = i then Some c' else circle_row d j)"
proof -
  have "List.find (\<lambda>r. C_ID r = j) (update_where (\<lambda>r. C_ID r = i) (\<lambda>_. c') rows)
     = (if j = i then map_option (\<lambda>_. c') (List.find (\<lambda>r. C_ID r = i) rows) else List.find (\<lambda>r. C_ID r = j) rows)" for rows
    using assms(2) by (induction rows) auto
  then show ?thesis using assms(1,3) by (simp add: circle_row_def)
qed

lemma spec_circle:
  assumes "spec_step u d d'" "circles_keyed d" "circle_row d i = Some c"
  shows "circle_row d' i = Some c \<or> (\<exists>c'. circle_row d' i = Some c' \<and> circle_next c c' \<and> u = Some (C_OrganizerID c))"
  using assms(1)
proof cases
  case (sp_create c0 v t)
  then show ?thesis using assms(3) by (simp add: circle_row_def find_append)
next
  case (sp_edit j c0 v c')
  then have "circle_row d j = Some c0" using assms(2) by (simp add: find_circle_row)
  moreover have "C_ID c' = j" using sp_edit(2,5) by (auto dest: find_circle_D fixed_columns_key)
  ultimately have "circle_row d' i = (if i = j then Some c' else circle_row d i)"
    using sp_edit(7) by (rule circle_row_update)
  moreover have "circle_next c0 c'" "u = Some (C_OrganizerID c0)" using sp_edit(1,3-6) by (simp_all add: circle_next_def)
  ultimately show ?thesis using assms(3) \<open>circle_row d j = Some c0\<close> by (cases "i = j") auto
next
  case (sp_move j c0 v st t)
  then have "circle_row d j = Some c0" using assms(2) by (simp add: find_circle_row)
  define c' where "c' = c0\<lparr>C_Status := st,
       C_CurrentRound := (if st = CircleStatusActive then 1 else C_CurrentRound c0), C_UpdatedAt := t\<rparr>"
  have "C_ID c' = j" using sp_move(2) find_circle_D by (auto simp: c'_def)
  have "B_circles d' = update_where (\<lambda>r. C_ID r = j) (\<lambda>_. c') (B_circles d)" using sp_move(6) by (simp add: c'_def)
  with \<open>circle_row d j = Some c0\<close> \<open>C_ID c' = j\<close> have "circle_row d' i = (if i = j then Some c' else circle_row d i)"
    by (rule circle_row_update)
  moreover have "circle_next c0 c'" "u = Some (C_OrganizerID c0)"
    using sp_move(1,3,4) by (auto simp: circle_next_def c'_def)
  ultimately show ?thesis using assms(3) \<open>circle_row d j = Some c0\<close> by (cases "i = j") auto
qed (use assms(3) in \<open>simp_all add: circle_row_def\<close>)


lemma update_where_map: "map k (update_where p f rows) = map k rows" if "\<And>r. r \<in> set rows \<Longrightarrow> p r \<Longrightarrow> k (f r) = k r"
  using that by (induction rows) auto

lemma spec_keys:
  assumes "spec_step u d d'" "circles_keyed d"
  shows "distinct (map C_ID (B_circles d')) \<and> distinct (map member_key (B_members d')) \<and> distinct (map vote_key (B_votes d'))"
proof -
  have *: "distinct (map C_ID (B_circles d))" "distinct (map member_key (B_members d))" "distinct (map vote_key (B_votes d))"
    using assms(2) by (simp_all add: circles_keyed_def)
  show ?thesis using assms(1)
  proof cases
    case (sp_create c v t)
    then show ?thesis using * by (auto simp: find_member_None member_key_def)
  next
    case (sp_edit i c v c')
    moreover have "C_ID c' = i" using sp_edit(2,5) by (auto dest: find_circle_D fixed_columns_key)
    ultimately show ?thesis using * by (simp add: update_where_map)
  next
    case (sp_move i c v st t)
    moreover have "C_ID c = i" using sp_move(2) by (auto dest: find_circle_D)
    ultimately show ?thesis using * by (simp add: update_where_map)
  next
    case (sp_join i c v t)
    then show ?thesis using * by (auto simp: find_member_None member_key_def)
  next
    case (sp_leave i c v w st)
    then show ?thesis using * by (simp add: update_where_map member_key_def)
  next
    case (sp_vote i c v w)
    then show ?thesis using * by auto
  qed (use * in simp_all)
qed

lemma circle_row_None: "circle_row d i = None \<longleftrightarrow> i \<notin> set (map C_ID (B_circles d))"
  by (auto simp: circle_row_def find_None_iff)

lemma spec_new_circle:
  assumes "spec_step u d d'" "circle_row d i = None" "circle_row d' i = Some c"
  shows "circle_ok c \<and> is_active d' i (C_OrganizerID c) \<and> u = Some (C_OrganizerID c)"
  using assms(1)
proof cases
  case (sp_create c0 v t)
  then have "c = c0" "i = C_ID c0" using assms(2,3) by (auto simp: circle_row_def find_append split: if_splits)
  moreover have "is_active d' (C_ID c0) v"
    using sp_create(8,10) by (simp add: is_active_def find_member_def find_append)
  ultimately show ?thesis using sp_create by (simp add: circle_ok_def)
next
  case (sp_edit j c0 v c')
  have "C_ID c' = j" using sp_edit(2,5) by (auto dest: find_circle_D fixed_columns_key)
  then have "map C_ID (B_circles d') = map C_ID (B_circles d)" using sp_edit(7) by (simp add: update_where_map)
  then show ?thesis using assms(2,3) circle_row_None by (metis option.distinct(1))
next
  case (sp_move j c0 v st t)
  have "C_ID c0 = j" using sp_move(2) by (auto dest: find_circle_D)
  then have "map C_ID (B_circles d') = map C_ID (B_circles d)" using sp_move(6) by (simp add: update_where_map)
  then show ?thesis using assms(2,3) circle_row_None by (metis option.distinct(1))
qed (use assms(2,3) in \<open>simp_all add: circle_row_def\<close>)

text \<open>Where the row of a circle after a step comes from.\<close>

lemma spec_row_origin:
  assumes "spec_step u d d'" "circles_keyed d" "c \<in> set (B_circles d')"
  obtains "circle_row d (C_ID c) = None" "circle_ok c" "is_active d' (C_ID c) (C_OrganizerID c)"
  | c0 where "c0 \<in> set (B_circles d)" "C_ID c0 = C_ID c" "c = c0 \<or> circle_next c0 c"
proof (cases "circle_row d (C_ID c)")
  case None
  obtain r where r: "circle_row d' (C_ID c) = Some r"
    using assms(3) by (cases "circle_row d' (C_ID c)") (auto simp: circle_row_def find_None_iff)
  then have "r = c" using circle_row_D [OF r] spec_keys [OF assms(1,2)] assms(3) by (metis distinct_map inj_onD)
  with r show ?thesis using that(1) [OF None] spec_new_circle [OF assms(1) None] by simp
next
  case (Some c0)
  obtain r where r: "circle_row d' (C_ID c) = Some r"
    using assms(3) by (cases "circle_row d' (C_ID c)") (auto simp: circle_row_def find_None_iff)
  then have "r = c" using circle_row_D [OF r] spec_keys [OF assms(1,2)] assms(3) by (metis distinct_map inj_onD)
  with r have "c = c0 \<or> circle_next c0 c" using spec_circle [OF assms(1,2) Some] by auto
  then show ?thesis using that(2) circle_row_D [OF Some] by blast
qed

lemma spec_step_ok:
  assumes "spec_step u d d'" "circles_ok d"
  shows "circles_ok d'"
proof -
  note keyed = circles_ok_keyed [OF assms(2)]
  have "circle_ok c \<and> is_active d' (C_ID c) (C_OrganizerID c)" if c: "c \<in> set (B_circles d')" for c
    using assms(1) keyed c
  proof (cases rule: spec_row_origin)
    case (2 c0)
    then have "circle_ok c0" using assms(2) by (auto simp: circles_ok_def)
    then show ?thesis using spec_active_organizer [OF assms 2(1)] 2(2,3) circle_next_ok circle_next_key by metis
  qed auto
  with spec_keys [OF assms(1) keyed] show ?thesis by (simp add: circles_ok_def)
qed

lemma circle_next_row: "circle_next c c' \<Longrightarrow> row_ok d c \<Longrightarrow> row_ok d c'"
  by (auto simp: circle_next_def row_ok_def max_members_ok_def dest: fixed_columns_key)

lemma spec_step_keyed:
  assumes "spec_step u d d'" "circles_keyed d"
  shows "circles_keyed d'"
proof -
  have "row_ok d' c" if c: "c \<in> set (B_circles d')" for c
    using assms c
  proof (cases rule: spec_row_origin)
    case (2 c0)
    then have ok: "row_ok d c0" using assms(2) by (auto simp: circles_keyed_def)
    then have "find_member d' (C_ID c0) (C_OrganizerID c0) \<noteq> None" using spec_member [OF assms(1)] by (force simp: row_ok_def)
    then have "row_ok d' c0" using ok by (simp add: row_ok_def)
    then show ?thesis using 2(3) circle_next_row by blast
  qed (auto simp: row_ok_def circle_ok_def is_active_def)
  with spec_keys [OF assms] show ?thesis by (simp add: circles_keyed_def)
qed

section \<open>Life cycles\<close>

text \<open>The steps of the specification between states that satisfy the invariant.\<close>

definition ok_step :: "circles_db \<Rightarrow> circles_db \<Rightarrow> bool" where
  "ok_step d d' = (circles_keyed d \<and> (\<exists>u. spec_step u d d'))"

interpretation circles: lifecycle ok_step circle_row circle_next
  by unfold_locales (auto simp: ok_step_def dest: spec_circle)

interpretation members: lifecycle ok_step "\<lambda>d (i, u). find_member d i u" member_next
  by unfold_locales (auto simp: ok_step_def dest: spec_member)

lemma circle_step_ok: "circle_step d d' \<Longrightarrow> circles_ok d \<Longrightarrow> ok_step d d' \<and> circles_ok d'"
  by (auto elim!: circle_step.cases simp: ok_step_def intro: run_call_refines circles_ok_keyed spec_step_ok [OF run_call_refines]
      circles_keyed_ids)

lemma circle_steps_ok:
  "circle_step\<^sup>*\<^sup>* d d' \<Longrightarrow> circles_ok d \<Longrightarrow> ok_step\<^sup>*\<^sup>* d d' \<and> circles_ok d'"
  by (induction rule: rtranclp_induct) (auto dest: circle_step_ok intro: rtranclp.rtrancl_into_rtrancl)

lemma circles_init_ok: "circles_ok circles_init"
  by (simp add: circles_ok_def circles_init_def)

lemma circles_reachable_ok: "circle_step\<^sup>*\<^sup>* circles_init d \<Longrightarrow> circles_ok d"
  using circle_steps_ok circles_init_ok by blast

section \<open>Demonstration\<close>

text \<open>Five users \<open>o\<close>, \<open>a\<close>, \<open>b\<close>, \<open>c\<close> and a circle \<open>k\<close>; nothing fails.\<close>

definition demo_parse :: "string \<Rightarrow> uuid option" where
  "demo_parse x = map_of [(''o'', 1), (''a'', 2), (''b'', 3), (''c'', 4), (''k'', 100)] x"

definition demo_cenv :: cenv where
  "demo_cenv = \<lparr>uuid_Parse = demo_parse, uuid_String = (\<lambda>u. if u = 2 then ''a'' else ''x''), uuid_New = (\<lambda>n. 100 + of_nat n), now = 5,
     fault = (\<lambda>_. None), ilike = (\<lambda>_ _. True), user_moi = (\<lambda>_. Inr 60), community_member = (\<lambda>_ _. Inr True),
     config_json = (\<lambda>c. Inr (C_Name c)), sha256_hex = (\<lambda>x. x), range_tally = (\<lambda>x. x), float_to_int64 = oor_amd64\<rparr>"

definition demo_svc :: circle_service where
  "demo_svc = \<lparr>has_communityChecker = True, has_broadcaster = False, has_tx = True, has_auditRepo = False,
     has_notificationSvc = False\<rparr>"

definition demo_input :: CreateCircleInput where
  "demo_input = \<lparr>CI_Name = ''ajo'', CI_Description = [], CI_CommunityID = [], CI_CircleType = CircleTypePublic,
     CI_PayoutType = PayoutTypeVote, CI_ContributionAmount = Finite 10, CI_Currency = CurrencyUSDC,
     CI_Frequency = FrequencyWeekly, CI_MaxMembers = 5, CI_MinMoiScore = 900, CI_CollateralPercent = Finite 0,
     CI_LateFeePercent = Finite 5, CI_GracePeriodHours = 0, CI_MaxStrikes = 3, CI_RequiresInvite = False\<rparr>"

definition no_change :: UpdateCircleInput where
  "no_change = \<lparr>UI_Name = None, UI_Description = None, UI_ContributionAmount = None, UI_Currency = None,
     UI_Frequency = None, UI_MaxMembers = None, UI_MinMoiScore = None, UI_CollateralPercent = None,
     UI_LateFeePercent = None, UI_GracePeriodHours = None, UI_MaxStrikes = None\<rparr>"

fun run_calls :: "circle_call list \<Rightarrow> circles_db \<Rightarrow> circles_db" where
  "run_calls [] d = d"
| "run_calls (k # ks) d = run_calls ks (run_call demo_cenv demo_svc k d)"

lemma run_calls_steps: "circle_step\<^sup>*\<^sup>* d (run_calls ks d)"
proof (induction ks arbitrary: d)
  case (Cons k ks)
  have "circle_step d (run_call demo_cenv demo_svc k d)" by (rule circle_stepI) (simp add: demo_svc_def)
  with Cons.IH show ?case by (auto intro: converse_rtranclp_into_rtranclp)
qed simp

definition demo_open :: circles_db where
  "demo_open = run_calls [Call_Create ''o'' demo_input, Call_Join ''k'' ''a'' [], Call_Join ''k'' ''b'' []] circles_init"

definition demo_active :: circles_db where
  "demo_active = run_calls [Call_Start ''k'' ''o''] demo_open"

definition demo_closed :: circles_db where
  "demo_closed = run_calls [Call_Close ''k'' ''o''] demo_active"

lemma demo_open_reachable: "circle_step\<^sup>*\<^sup>* circles_init demo_open"
  unfolding demo_open_def by (rule run_calls_steps)

lemma demo_active_reachable: "circle_step\<^sup>*\<^sup>* circles_init demo_active"
  using demo_open_reachable run_calls_steps unfolding demo_active_def by (rule rtranclp_trans)

section \<open>Properties\<close>

text \<open>
  C1: every call of the circle service, in every reachable state and environment, with any failing
  statements, implements one step of the abstract specification on behalf of its caller.
\<close>

theorem circle_service_refines:
  assumes "circle_step\<^sup>*\<^sup>* circles_init d" "has_tx s"
  shows "spec_step (caller env k) d (run_call env s k d)"
  using circles_keyed_ids [OF circles_ok_keyed [OF circles_reachable_ok [OF assms(1)]]] assms(2) by (rule run_call_refines)

theorem circle_service_refines_witness:
  "spec_step (Some 1) demo_open (run_call demo_cenv demo_svc (Call_Start ''k'' ''o'') demo_open)
   \<and> map C_Status (B_circles (run_call demo_cenv demo_svc (Call_Start ''k'' ''o'') demo_open)) = [CircleStatusActive]"
proof
  have "caller demo_cenv (Call_Start ''k'' ''o'') = Some 1" by (simp add: demo_cenv_def demo_parse_def)
  with circle_service_refines [OF demo_open_reachable, of demo_svc demo_cenv "Call_Start ''k'' ''o''"]
  show "spec_step (Some 1) demo_open (run_call demo_cenv demo_svc (Call_Start ''k'' ''o'') demo_open)"
    by (simp add: demo_svc_def)
qed code_simp

text \<open>
  In every state that calls of the circle service alone lead to (\<open>Platform\<close> adds the events of the indexer) identifiers are unique, nobody has two memberships of one circle or two
  votes in one round, every circle's status agrees with its round, and the organizer of every
  circle is an active member of it.
\<close>

theorem organizer_stays_member:
  assumes "circle_step\<^sup>*\<^sup>* circles_init d"
  shows "distinct (map C_ID (B_circles d)) \<and> distinct (map member_key (B_members d)) \<and> distinct (map vote_key (B_votes d))
    \<and> (\<forall>c \<in> set (B_circles d). circle_ok c \<and> is_active d (C_ID c) (C_OrganizerID c))"
  using circles_reachable_ok [OF assms] by (simp add: circles_ok_def)

theorem organizer_stays_member_witness:
  "map C_ID (B_circles demo_active) = [100] \<and> distinct (map member_key (B_members demo_active))
    \<and> is_active demo_active 100 1"
proof -
  have "map (\<lambda>c. (C_ID c, C_OrganizerID c)) (B_circles demo_active) = [(100, 1)]" by code_simp
  then show ?thesis using organizer_stays_member [OF demo_active_reachable] by auto
qed

text \<open>
  The life of a circle under calls of the circle service alone: whatever calls follow, the circle stays stored under its identifier with its
  organizer, type, payout type and creation time; its status only moves from pending to active or
  cancelled and from active to completed; and a completed or cancelled circle never changes again,
  in any column.
\<close>

theorem circle_life:
  assumes "circle_step\<^sup>*\<^sup>* circles_init d" "circle_step\<^sup>*\<^sup>* d d'" "circle_row d i = Some c"
  shows "\<exists>c'. circle_row d' i = Some c' \<and> moves\<^sup>*\<^sup>* (C_Status c) (C_Status c')
     \<and> (C_OrganizerID c', C_CircleType c', C_PayoutType c', C_CreatedAt c')
        = (C_OrganizerID c, C_CircleType c, C_PayoutType c, C_CreatedAt c)
     \<and> (open_status (C_Status c) \<or> c' = c)"
proof -
  note ok = circles_reachable_ok [OF assms(1)]
  have steps: "ok_step\<^sup>*\<^sup>* d d'" using circle_steps_ok [OF assms(2) ok] by simp
  obtain c' where c': "circle_row d' i = Some c'" "circle_next\<^sup>*\<^sup>* c c'"
    using circles.entry_path [OF steps assms(3)] by blast
  have "moves\<^sup>*\<^sup>* (C_Status c) (C_Status c')" using c'(2)
    by induction (auto dest: circle_next_status intro: rtranclp.rtrancl_into_rtrancl)
  moreover have "(C_OrganizerID c', C_CircleType c', C_PayoutType c', C_CreatedAt c')
      = (C_OrganizerID c, C_CircleType c, C_PayoutType c, C_CreatedAt c)" using c'(2)
    by induction (auto dest: circle_next_key)
  moreover have "c' = c" if "\<not> open_status (C_Status c)"
    using circles.entry_final [OF steps assms(3) circle_final [OF that]] c'(1) by simp
  ultimately show ?thesis using c'(1) by blast
qed

theorem circle_life_witness:
  "\<exists>c c'. circle_row demo_open 100 = Some c \<and> circle_row demo_closed 100 = Some c'
     \<and> moves\<^sup>*\<^sup>* (C_Status c) (C_Status c') \<and> C_Status c = CircleStatusPending \<and> C_Status c' = CircleStatusCompleted"
proof -
  have st: "map_option C_Status (circle_row demo_open 100) = Some CircleStatusPending"
      "map_option C_Status (circle_row demo_closed 100) = Some CircleStatusCompleted" by code_simp+
  then obtain c where c: "circle_row demo_open 100 = Some c" by auto
  have "circle_step\<^sup>*\<^sup>* demo_open demo_closed"
    unfolding demo_closed_def demo_active_def by (rule rtranclp_trans [OF run_calls_steps run_calls_steps])
  from circle_life [OF demo_open_reachable this c] c st show ?thesis by auto
qed

text \<open>
  Who may change what through the circle service, in states that its calls alone lead to: a call that changes the row of a circle was made by its organizer while the
  circle was pending or active, and a call that changes an existing membership was made by that
  member or by the organizer, and is never the organizer's own membership.
\<close>

theorem only_authorized_changes:
  assumes "circle_step\<^sup>*\<^sup>* circles_init d" "has_tx s" "circle_row d i = Some c"
  shows "(circle_row (run_call env s k d) i \<noteq> Some c \<longrightarrow>
            caller env k = Some (C_OrganizerID c) \<and> open_status (C_Status c))
     \<and> (find_member d i v \<noteq> None \<and> find_member (run_call env s k d) i v \<noteq> find_member d i v \<longrightarrow>
            v \<noteq> C_OrganizerID c \<and> (caller env k = Some v \<or> caller env k = Some (C_OrganizerID c)))"
proof -
  note ok = circles_ok_keyed [OF circles_reachable_ok [OF assms(1)]]
  note step = run_call_refines [OF circles_keyed_ids [OF ok] assms(2), of env k]
  have "caller env k = Some (C_OrganizerID c) \<and> open_status (C_Status c)"
    if "circle_row (run_call env s k d) i \<noteq> Some c"
    using spec_circle [OF step ok assms(3)] that circle_final by blast
  moreover have "v \<noteq> C_OrganizerID c \<and> (caller env k = Some v \<or> caller env k = Some (C_OrganizerID c))"
    if m: "find_member d i v = Some m" "find_member (run_call env s k d) i v \<noteq> Some m" for m
    using spec_member [OF step m(1)] m(2) assms(3) find_circle_row [OF ok] by auto
  ultimately show ?thesis by auto
qed

theorem only_authorized_changes_witness:
  "\<exists>c. circle_row demo_open 100 = Some c \<and> circle_row (run_call demo_cenv demo_svc (Call_Start ''k'' ''o'') demo_open) 100 \<noteq> Some c
     \<and> caller demo_cenv (Call_Start ''k'' ''o'') = Some (C_OrganizerID c) \<and> open_status (C_Status c)"
proof -
  let ?d = "run_call demo_cenv demo_svc (Call_Start ''k'' ''o'') demo_open"
  have st: "map_option C_Status (circle_row demo_open 100) = Some CircleStatusPending"
      "map_option C_Status (circle_row ?d 100) = Some CircleStatusActive" by code_simp+
  then obtain c where c: "circle_row demo_open 100 = Some c" by auto
  with st have "circle_row ?d 100 \<noteq> Some c" by auto
  with only_authorized_changes [OF demo_open_reachable _ c, of demo_svc demo_cenv "Call_Start ''k'' ''o''" 0] c
  show ?thesis by (auto simp: demo_svc_def)
qed

lemma Join_Inr:
  assumes "Join env s i u code d = (Inr y, d')"
  obtains cid uid c where "uuid_Parse env i = Some cid" "uuid_Parse env u = Some uid" "find_circle d cid = Some c"
    "open_status (C_Status c)" "premium_join_check env uid (read_circle d c) = Inr ()" "community_check env s uid (read_circle d c) = Inr ()"
    "(C_CircleType c = CircleTypePrivate \<or> C_RequiresInvite c) \<longrightarrow> code \<noteq> []"
    "active_count d cid < C_MaxMembers c" "find_member d cid uid = None"
    "B_circles d' = B_circles d" "B_members d' = B_members d @ [\<lparr>CM_CircleID = cid, CM_UserID = uid,
       CM_Position = active_count d cid + 1, CM_Status = MemberStatusActive, CM_JoinedAt = now env\<rparr>]"
proof -
  from assms obtain cid uid c v where 1: "uuid_Parse env i = Some cid" "uuid_Parse env u = Some uid"
      "FindByID env cid d = Inr c" "open_status (C_Status c)" "premium_join_check env uid c = Inr ()" "community_check env s uid c = Inr ()"
      "\<not> ((C_CircleType c = CircleTypePrivate \<or> C_RequiresInvite c) \<and> code = [])"
      "join_body env c cid uid d = (Inr (), v)" "d' = broadcast s (MemberJoined i u) v"
    by (auto simp: Join_def attempt_Inr guard_Inr perform_Inr parseUUID_Inr open_status_def dest!: withTransaction_Inr)
  obtain r where r: "find_circle d cid = Some r" "c = read_circle d r" using 1(3) by (auto simp: FindByID_Inr)
  obtain count where "GetMemberCount env cid d = Inr count" and n: "\<not> C_MaxMembers c \<le> count"
    "CreateMember env \<lparr>CM_CircleID = cid, CM_UserID = uid, CM_Position = count + 1,
       CM_Status = MemberStatusActive, CM_JoinedAt = now env\<rparr> d = (Inr (), v)"
    using 1(8) by (auto simp: join_body_def attempt_Inr guard_Inr wrap_call_Inr)
  then have "count = active_count d cid" by (simp add: GetMemberCount_Inr)
  then show ?thesis
    using that [OF 1(1,2) r(1)] 1(4-7,9) n(1) CreateMember_Inr [OF n(2)] by (auto simp: r(2) read_circle_def)
qed

text \<open>
  Joining: a successful \<^verbatim>\<open>Join\<close> was into an open circle with a free place, by a user without a
  membership row, with an invite code where the circle asks for one, a score of at least 50
  where it is a premium circle and a membership of the community where it is a community circle; it adds one active member and the roster stays within
  \<^verbatim>\<open>MaxMembers\<close>.
\<close>

theorem Join_effect:
  assumes "Join env s i u code d = (Inr (), d')"
  shows "\<exists>cid uid c. uuid_Parse env i = Some cid \<and> uuid_Parse env u = Some uid \<and> find_circle d cid = Some c
     \<and> open_status (C_Status c)
     \<and> (C_CircleType c = CircleTypePrivate \<or> C_RequiresInvite c \<longrightarrow> code \<noteq> [])
     \<and> (C_CircleType c = CircleTypePremium \<longrightarrow> (\<exists>score \<ge> 50. user_moi env uid = Inr score))
     \<and> (\<forall>k. C_CircleType c = CircleTypeOther ''community'' \<longrightarrow> C_CommunityID c = Some k \<longrightarrow> community_member env k uid = Inr True)
     \<and> find_member d cid uid = None \<and> is_active d' cid uid
     \<and> active_count d' cid = active_count d cid + 1 \<and> active_count d' cid \<le> C_MaxMembers c
     \<and> B_circles d' = B_circles d"
proof -
  from assms obtain cid uid c where *: "uuid_Parse env i = Some cid" "uuid_Parse env u = Some uid" "find_circle d cid = Some c"
    "open_status (C_Status c)" "premium_join_check env uid (read_circle d c) = Inr ()" "community_check env s uid (read_circle d c) = Inr ()"
    "(C_CircleType c = CircleTypePrivate \<or> C_RequiresInvite c) \<longrightarrow> code \<noteq> []"
    "active_count d cid < C_MaxMembers c" "find_member d cid uid = None" "B_circles d' = B_circles d"
    and m: "B_members d' = B_members d @ [\<lparr>CM_CircleID = cid, CM_UserID = uid,
       CM_Position = active_count d cid + 1, CM_Status = MemberStatusActive, CM_JoinedAt = now env\<rparr>]"
    by (rule Join_Inr)
  have "is_active d' cid uid" using m *(9) by (simp add: is_active_def find_member_def find_append)
  moreover have "active_count d' cid = active_count d cid + 1" using m by (simp add: active_count_def)
  moreover have "\<exists>score \<ge> 50. user_moi env uid = Inr score" if "C_CircleType c = CircleTypePremium"
    using *(5) that by (auto simp: premium_join_check_def read_circle_def split: sum.splits if_splits)
  moreover have "community_member env k uid = Inr True" if "C_CircleType c = CircleTypeOther ''community''" "C_CommunityID c = Some k" for k
    using *(6) that by (auto simp: community_check_def read_circle_def split: sum.splits if_splits)
  ultimately show ?thesis using * by auto
qed

theorem Join_effect_witness:
  "Join demo_cenv demo_svc ''k'' ''c'' [] demo_open = (Inr (), run_call demo_cenv demo_svc (Call_Join ''k'' ''c'' []) demo_open)
   \<and> is_active (run_call demo_cenv demo_svc (Call_Join ''k'' ''c'' []) demo_open) 100 4"
proof
  show j: "Join demo_cenv demo_svc ''k'' ''c'' [] demo_open = (Inr (), run_call demo_cenv demo_svc (Call_Join ''k'' ''c'' []) demo_open)"
    by (rule prod_eqI) (code_simp, simp)
  have "demo_parse ''k'' = Some 100" "demo_parse ''c'' = Some 4" by code_simp+
  then show "is_active (run_call demo_cenv demo_svc (Call_Join ''k'' ''c'' []) demo_open) 100 4"
    using Join_effect [OF j] by (auto simp: demo_cenv_def)
qed

text \<open>
  C5: memberships are for ever: a user who once was a member of a circle, whether still active,
  exited or removed, can never join it again, whatever happens in between.
\<close>

theorem no_second_membership:
  assumes "circle_step\<^sup>*\<^sup>* circles_init d" "find_member d cid uid = Some m" "circle_step\<^sup>*\<^sup>* d d'"
    and "uuid_Parse env i = Some cid" "uuid_Parse env u = Some uid"
  shows "\<not> is_ok (fst (Join env s i u code d'))"
proof
  assume "is_ok (fst (Join env s i u code d'))"
  then obtain y v where j: "Join env s i u code d' = (Inr y, v)"
    by (cases "Join env s i u code d'"; cases "fst (Join env s i u code d')") auto
  have "ok_step\<^sup>*\<^sup>* d d'" using circle_steps_ok [OF assms(3) circles_reachable_ok [OF assms(1)]] by simp
  then obtain m' where "find_member d' cid uid = Some m'"
    using members.entry_path [of d d' "(cid, uid)" m] assms(2) by auto
  then show False using j assms(4,5) by (auto elim: Join_Inr)
qed

theorem no_second_membership_witness:
  "\<not> is_ok (fst (Join demo_cenv demo_svc ''k'' ''a'' [] (run_calls [Call_Exit ''k'' ''a''] demo_open)))"
proof -
  have "find_member demo_open 100 2 \<noteq> None" by code_simp
  then obtain m where m: "find_member demo_open 100 2 = Some m" by blast
  have p: "uuid_Parse demo_cenv ''k'' = Some 100" "uuid_Parse demo_cenv ''a'' = Some 2" by code_simp+
  show ?thesis by (rule no_second_membership [OF demo_open_reachable m run_calls_steps p])
qed

text \<open>
  The payout position given to a new member is the number of active members plus one, so after
  somebody has left two active members can hold the same position.
\<close>

theorem positions_collide:
  "\<exists>d m m'. circle_step\<^sup>*\<^sup>* circles_init d \<and> {m, m'} \<subseteq> set (B_members d) \<and> CM_CircleID m = CM_CircleID m'
     \<and> CM_UserID m \<noteq> CM_UserID m' \<and> CM_Status m = MemberStatusActive \<and> CM_Status m' = MemberStatusActive
     \<and> CM_Position m = CM_Position m'"
proof -
  define d where "d = run_calls [Call_Exit ''k'' ''a'', Call_Join ''k'' ''c'' []] demo_open"
  have reach: "circle_step\<^sup>*\<^sup>* circles_init d"
    unfolding d_def by (rule rtranclp_trans [OF demo_open_reachable run_calls_steps])
  have "map (\<lambda>m. (CM_CircleID m, CM_UserID m, CM_Status m, CM_Position m)) (drop 2 (B_members d))
      = [(100, 3, MemberStatusActive, 3), (100, 4, MemberStatusActive, 3)]" unfolding d_def by code_simp
  then obtain m m' where "drop 2 (B_members d) = [m, m']" and mm: "CM_CircleID m = 100" "CM_CircleID m' = 100"
      "CM_UserID m = 3" "CM_UserID m' = 4" "CM_Status m = MemberStatusActive" "CM_Status m' = MemberStatusActive"
      "CM_Position m = 3" "CM_Position m' = 3"
    by (auto simp: map_eq_Cons_conv)
  then have "{m, m'} \<subseteq> set (B_members d)" by (metis in_set_dropD empty_set insert_subset list.simps(15) set_drop_subset)
  with reach mm show ?thesis by (intro exI [of _ d] exI [of _ m] exI [of _ m']) simp
qed

text \<open>
  The limits of a circle are not limits: \<^verbatim>\<open>Update\<close> may set \<^verbatim>\<open>MaxMembers\<close> below the number of active
  members, and \<^verbatim>\<open>Join\<close> never compares the joiner's score with \<^verbatim>\<open>MinMoiScore\<close>.
\<close>

theorem limits_not_enforced:
  "(\<exists>d c. circle_step\<^sup>*\<^sup>* circles_init d \<and> c \<in> set (B_circles d) \<and> C_MaxMembers c < active_count d (C_ID c))
   \<and> (\<exists>c. find_circle demo_open 100 = Some c \<and> C_MinMoiScore c = 900 \<and> user_moi demo_cenv 4 = Inr 60
       \<and> is_ok (fst (Join demo_cenv demo_svc ''k'' ''c'' [] demo_open)))"
proof
  define d where "d = run_calls [Call_Update ''k'' ''o'' (no_change\<lparr>UI_MaxMembers := Some 2\<rparr>)] demo_open"
  have reach: "circle_step\<^sup>*\<^sup>* circles_init d"
    unfolding d_def by (rule rtranclp_trans [OF demo_open_reachable run_calls_steps])
  have "map (\<lambda>c. (C_ID c, C_MaxMembers c)) (B_circles d) = [(100, 2)]" "active_count d 100 = 3"
    unfolding d_def by code_simp+
  with reach show "\<exists>d c. circle_step\<^sup>*\<^sup>* circles_init d \<and> c \<in> set (B_circles d) \<and> C_MaxMembers c < active_count d (C_ID c)"
    by (intro exI [of _ d]) (auto simp: map_eq_Cons_conv)
  have "map_option C_MinMoiScore (find_circle demo_open 100) = Some 900" by code_simp
  moreover have "is_ok (fst (Join demo_cenv demo_svc ''k'' ''c'' [] demo_open))" by code_simp
  ultimately show "\<exists>c. find_circle demo_open 100 = Some c \<and> C_MinMoiScore c = 900 \<and> user_moi demo_cenv 4 = Inr 60
       \<and> is_ok (fst (Join demo_cenv demo_svc ''k'' ''c'' [] demo_open))" by (auto simp: demo_cenv_def)
qed

lemma missed_loop_Inr:
  assumes "missed_loop env s i c cid r us n ms d = (Inr y, d')"
  shows "\<exists>new. B_penalties d' = B_penalties d @ new
    \<and> map PN_UserID new = map CM_UserID (filter (\<lambda>m. CM_Status m = MemberStatusActive \<and> CM_UserID m \<notin> set us) ms)
    \<and> (\<forall>p \<in> set new. \<exists>k v. k < n + length ms \<and> p = missed_penalty env c cid r k v) \<and> B_contribs d' = B_contribs d"
  using assms
proof (induction ms arbitrary: n d)
  case (Cons m ms)
  let ?p = "missed_penalty env c cid r n (CM_UserID m)"
  show ?case
  proof (cases "CM_Status m \<noteq> MemberStatusActive \<or> CM_UserID m \<in> set us")
    case True
    then have "missed_loop env s i c cid r us n ms d = (Inr y, d')" using Cons.prems by auto
    from Cons.IH [OF this] True show ?thesis by (auto; metis less_SucI)
  next
    case False
    let ?d = "broadcast s (MemberPenalized i (uuid_String env (CM_UserID m)) r (PN_Amount ?p)) (d\<lparr>B_penalties := B_penalties d @ [?p]\<rparr>)"
    have "missed_loop env s i c cid r us (Suc n) ms ?d = (Inr y, d')"
      using Cons.prems False by (auto simp: Let_def perform_Inr CreatePenalty_def exec_stmt_Inr)
    from Cons.IH [OF this] obtain new where new: "B_penalties d' = B_penalties d @ ?p # new"
        "map PN_UserID new = map CM_UserID (filter (\<lambda>m. CM_Status m = MemberStatusActive \<and> CM_UserID m \<notin> set us) ms)"
        "\<forall>p \<in> set new. \<exists>k v. k < n + length (m # ms) \<and> p = missed_penalty env c cid r k v"
        "B_contribs d' = B_contribs d" by auto
    moreover have "PN_UserID ?p = CM_UserID m" by (simp add: missed_penalty_def)
    moreover have "\<exists>k v. k < n + length (m # ms) \<and> ?p = missed_penalty env c cid r k v" by (intro exI [of _ n]) auto
    ultimately show ?thesis using False by (intro exI [of _ "?p # new"]) auto
  qed
qed auto

lemma ProcessMissed_tables:
  "B_circles (snd (ProcessMissedContributions env s i r d)) = B_circles d"
  "B_members (snd (ProcessMissedContributions env s i r d)) = B_members d"
  by (auto simp: ProcessMissedContributions_def attempt_def missed_loop_tables split: option.splits sum.splits)

text \<open>The members of a circle who have not paid a round.\<close>

definition owing :: "circles_db \<Rightarrow> uuid \<Rightarrow> int \<Rightarrow> circle_member list" where
  "owing d cid r = filter (\<lambda>m. CM_Status m = MemberStatusActive
       \<and> CM_UserID m \<notin> CB_UserID ` set (filter (\<lambda>c. CB_CircleID c = cid \<and> CB_RoundNumber c = r) (B_contribs d)))
     (sort_key CM_Position (filter (\<lambda>m. CM_CircleID m = cid) (B_members d)))"

lemma missed_Inr:
  assumes "ProcessMissedContributions env s i r d = (Inr y, d')"
  shows "\<exists>cid c new. uuid_Parse env i = Some cid \<and> find_circle d cid = Some c \<and> B_penalties d' = B_penalties d @ new
    \<and> map PN_UserID new = map CM_UserID (owing d cid r)
    \<and> (\<forall>p \<in> set new. \<exists>k v. k < length (B_members d) \<and> p = missed_penalty env (read_circle d c) cid r k v)
    \<and> B_contribs d' = B_contribs d \<and> B_members d' = B_members d"
proof -
  from assms obtain cid c where 1: "uuid_Parse env i = Some cid" "find_circle d cid = Some c"
    and l: "missed_loop env s i (read_circle d c) cid r
       (map CB_UserID (filter (\<lambda>c. CB_CircleID c = cid \<and> CB_RoundNumber c = r) (B_contribs d))) 0
       (sort_key CM_Position (filter (\<lambda>m. CM_CircleID m = cid) (B_members d))) d = (Inr y, d')"
    by (auto simp: ProcessMissedContributions_def attempt_Inr FindByID_Inr Repo_GetMembers_def
        GetContributionsByCircleAndRound_def run_query_Inr split: option.splits)
  have "B_members d' = B_members d"
    using ProcessMissed_tables(2) [of env s i r d] assms by simp
  moreover have "length (filter (\<lambda>m. CM_CircleID m = cid) (B_members d)) \<le> length (B_members d)" by simp
  moreover from missed_loop_Inr [OF l] obtain new where "B_penalties d' = B_penalties d @ new"
      "map PN_UserID new = map CM_UserID (owing d cid r)" "B_contribs d' = B_contribs d"
      and "\<forall>p \<in> set new. \<exists>k v. k < length (filter (\<lambda>m. CM_CircleID m = cid) (B_members d))
         \<and> p = missed_penalty env (read_circle d c) cid r k v"
    unfolding owing_def set_map by auto
  ultimately show ?thesis using 1 by (meson order_less_le_trans)
qed

lemma missed_loop_total:
  assumes "\<And>q. fault env q = None" "inj_on (uuid_New env) {n..<n + length ms}"
    and "\<forall>p \<in> set (B_penalties d). PN_ID p \<notin> uuid_New env ` {n..<n + length ms}"
  shows "fst (missed_loop env s i c cid r us n ms d) = Inr ()"
  using assms
proof (induction ms arbitrary: n d)
  case (Cons m ms)
  let ?p = "missed_penalty env c cid r n (CM_UserID m)"
  let ?d = "broadcast s (MemberPenalized i (uuid_String env (CM_UserID m)) r (PN_Amount ?p)) (d\<lparr>B_penalties := B_penalties d @ [?p]\<rparr>)"
  have sub: "{n..<n + length ms} \<subseteq> {n..<n + length (m # ms)}" "{Suc n..<Suc n + length ms} \<subseteq> {n..<n + length (m # ms)}"
    by auto
  show ?case
  proof (cases "CM_Status m \<noteq> MemberStatusActive \<or> CM_UserID m \<in> set us")
    case True
    have "fst (missed_loop env s i c cid r us n ms d) = Inr ()"
      by (rule Cons.IH) (use Cons.prems sub(1) in \<open>auto intro: inj_on_subset\<close>)
    with True show ?thesis by auto
  next
    case False
    have id: "PN_ID ?p = uuid_New env n" by (simp add: missed_penalty_def)
    have "CreatePenalty env ?p d = (Inr (), d\<lparr>B_penalties := B_penalties d @ [?p]\<rparr>)"
      using Cons.prems(1,3) by (auto simp: CreatePenalty_def exec_stmt_def id)
    moreover have "fst (missed_loop env s i c cid r us (Suc n) ms ?d) = Inr ()"
    proof (rule Cons.IH)
      show "inj_on (uuid_New env) {Suc n..<Suc n + length ms}" using Cons.prems(2) sub(2) by (rule inj_on_subset)
      have "uuid_New env n \<notin> uuid_New env ` {Suc n..<Suc n + length ms}"
        using Cons.prems(2) by (auto dest: inj_onD [of _ _ n])
      then show "\<forall>p \<in> set (B_penalties ?d). PN_ID p \<notin> uuid_New env ` {Suc n..<Suc n + length ms}"
        using Cons.prems(3) sub(2) by (auto simp: id)
    qed (rule Cons.prems(1))
    ultimately show ?thesis using False by (simp add: Let_def)
  qed
qed simp

lemma missed_total:
  assumes "\<And>q. fault env q = None" "uuid_Parse env i = Some cid" "find_circle d cid = Some c"
    and "inj_on (uuid_New env) {..<length (B_members d)}"
    and "\<forall>p \<in> set (B_penalties d). PN_ID p \<notin> uuid_New env ` {..<length (B_members d)}"
  shows "fst (ProcessMissedContributions env s i r d) = Inr ()"
proof -
  let ?ms = "sort_key CM_Position (filter (\<lambda>m. CM_CircleID m = cid) (B_members d))"
  have "length ?ms \<le> length (B_members d)" by simp
  then have sub: "{0..<0 + length ?ms} \<subseteq> {..<length (B_members d)}" by (auto simp del: length_sort)
  have "fst (missed_loop env s i (read_circle d c) cid r us 0 ?ms d) = Inr ()" for us
    by (rule missed_loop_total) (use assms(1,4,5) sub in \<open>auto intro: inj_on_subset\<close>)
  then show ?thesis using assms(1-3)
    by (simp add: ProcessMissedContributions_def FindByID_def scanCircle_def Repo_GetMembers_def
        GetContributionsByCircleAndRound_def)
qed

text \<open>
  C6: missed contributions: a successful run adds exactly one late penalty for every active member of
  the circle without a contribution in the round, in the order of their positions, with the late
  fee of the circle and one strike; and running it again charges all of them again.
\<close>

theorem missed_contributions_charged:
  assumes "ProcessMissedContributions env s i r d = (Inr (), d')"
    and "ProcessMissedContributions env' s' i r d' = (Inr (), d'')" "uuid_Parse env' i = uuid_Parse env i"
  shows "\<exists>cid c new again. uuid_Parse env i = Some cid \<and> find_circle d cid = Some c
     \<and> B_penalties d' = B_penalties d @ new \<and> map PN_UserID new = map CM_UserID (owing d cid r)
     \<and> (\<forall>p \<in> set new. PN_CircleID p = cid \<and> PN_RoundNumber p = r \<and> PN_PenaltyType p = PenaltyTypeLate
          \<and> PN_StrikesApplied p = 1
          \<and> PN_Amount p = CalculateLateFee (float_to_int64 env) (C_ContributionAmount c) (C_LateFeePercent c))
     \<and> B_penalties d'' = B_penalties d @ new @ again \<and> map PN_UserID again = map PN_UserID new"
proof -
  from missed_Inr [OF assms(1)] obtain cid c new where 1: "uuid_Parse env i = Some cid" "find_circle d cid = Some c"
      "B_penalties d' = B_penalties d @ new" "map PN_UserID new = map CM_UserID (owing d cid r)"
      "\<forall>p \<in> set new. \<exists>k v. k < length (B_members d) \<and> p = missed_penalty env (read_circle d c) cid r k v"
      "B_contribs d' = B_contribs d" "B_members d' = B_members d" by blast
  from missed_Inr [OF assms(2)] obtain again where "B_penalties d'' = B_penalties d' @ again"
      "map PN_UserID again = map CM_UserID (owing d' cid r)" using 1(1) assms(3) by auto
  moreover have "owing d' cid r = owing d cid r" using 1(6,7) by (simp add: owing_def)
  moreover have "PN_CircleID p = cid \<and> PN_RoundNumber p = r \<and> PN_PenaltyType p = PenaltyTypeLate
          \<and> PN_StrikesApplied p = 1
          \<and> PN_Amount p = CalculateLateFee (float_to_int64 env) (C_ContributionAmount c) (C_LateFeePercent c)"
    if "p \<in> set new" for p
    using 1(5) that by (auto simp: missed_penalty_def ApplyStrikes_def read_circle_def)
  ultimately show ?thesis using 1(1-4) by (intro exI [of _ cid] exI [of _ c] exI [of _ new] exI [of _ again]) simp
qed

definition demo_charged :: circles_db where
  "demo_charged = snd (ProcessMissedContributions demo_cenv demo_svc ''k'' 1 demo_active)"

definition demo_cenv2 :: cenv where
  "demo_cenv2 = demo_cenv\<lparr>uuid_New := (\<lambda>n. 200 + of_nat n)\<rparr>"

theorem missed_contributions_charged_witness:
  "\<exists>cid c new again. uuid_Parse demo_cenv ''k'' = Some cid \<and> find_circle demo_active cid = Some c
     \<and> B_penalties demo_charged = B_penalties demo_active @ new \<and> map PN_UserID new = map CM_UserID (owing demo_active cid 1)
     \<and> B_penalties (snd (ProcessMissedContributions demo_cenv2 demo_svc ''k'' 1 demo_charged))
        = B_penalties demo_active @ new @ again \<and> map PN_UserID again = map PN_UserID new"
proof -
  have c: "find_circle demo_active 100 \<noteq> None" "length (B_members demo_active) = 3" "B_penalties demo_active = []"
    by code_simp+
  have p: "demo_parse ''k'' = Some 100" by code_simp
  have three: "{..<3} = {0, 1, 2 :: nat}" by auto
  have "fst (ProcessMissedContributions demo_cenv demo_svc ''k'' 1 demo_active) = Inr ()"
    using c p by (auto intro!: missed_total simp: demo_cenv_def three)
  then have 1: "ProcessMissedContributions demo_cenv demo_svc ''k'' 1 demo_active = (Inr (), demo_charged)"
    unfolding demo_charged_def by (simp add: prod_eq_iff)
  have id: "PN_ID (missed_penalty env x cid r k v) = uuid_New env k" for env x cid r k v by (simp add: missed_penalty_def)
  from missed_Inr [OF 1] c have old: "\<forall>p \<in> set (B_penalties demo_charged). \<exists>k < 3. PN_ID p = uuid_New demo_cenv k"
      "length (B_members demo_charged) = 3" by (force simp: id)+
  have ids: "\<forall>p \<in> set (B_penalties demo_charged). PN_ID p \<in> {100, 101, 102}"
  proof
    fix p
    assume "p \<in> set (B_penalties demo_charged)"
    with old(1) obtain k where "k \<in> {0, 1, 2 :: nat}" "PN_ID p = uuid_New demo_cenv k" using three by blast
    then show "PN_ID p \<in> {100, 101, 102}" by (auto simp: demo_cenv_def)
  qed
  have "B_circles demo_charged = B_circles demo_active"
    using ProcessMissed_tables(1) [of demo_cenv demo_svc "''k''" 1 demo_active] by (simp add: demo_charged_def)
  then have c2: "find_circle demo_charged 100 \<noteq> None" using c(1) by (simp add: find_circle_def)
  have "fst (ProcessMissedContributions demo_cenv2 demo_svc ''k'' 1 demo_charged) = Inr ()"
  proof (rule missed_total)
    show "\<forall>p \<in> set (B_penalties demo_charged). PN_ID p \<notin> uuid_New demo_cenv2 ` {..<length (B_members demo_charged)}"
      unfolding old(2) three
    proof
      fix p
      assume "p \<in> set (B_penalties demo_charged)"
      then have "PN_ID p \<in> {100, 101, 102}" using ids by blast
      then show "PN_ID p \<notin> uuid_New demo_cenv2 ` {0, 1, 2}" by (auto simp: demo_cenv2_def demo_cenv_def)
    qed
    show "find_circle demo_charged 100 = Some (the (find_circle demo_charged 100))" using c2 by simp
    show "inj_on (uuid_New demo_cenv2) {..<length (B_members demo_charged)}"
      unfolding old(2) three by (simp add: demo_cenv2_def demo_cenv_def)
  qed (use p in \<open>simp_all add: demo_cenv2_def demo_cenv_def\<close>)
  then have 2: "ProcessMissedContributions demo_cenv2 demo_svc ''k'' 1 demo_charged
      = (Inr (), snd (ProcessMissedContributions demo_cenv2 demo_svc ''k'' 1 demo_charged))"
    by (simp add: prod_eq_iff)
  have "uuid_Parse demo_cenv2 ''k'' = uuid_Parse demo_cenv ''k''" by (simp add: demo_cenv2_def)
  from missed_contributions_charged [OF 1 2 this] show ?thesis by blast
qed

lemma Repo_Update_Inr: "Repo_Update env c d = (Inr y, v) \<Longrightarrow>
    v = d\<lparr>B_circles := update_where (\<lambda>r. C_ID r = C_ID c) (write_circle c) (B_circles d)\<rparr>"
  by (auto simp: Repo_Update_def perform_Inr guard_Inr wrap_call_Inr exec_stmt_Inr)

lemma current_round_read [simp]: "current_round (read_circle d c) = current_round c"
  by (simp add: current_round_def)

text \<open>
  Starting: a successful \<^verbatim>\<open>Start\<close> was made by the organizer of a pending circle with at least two
  active members; afterwards the circle is active in round 1, the roster is unchanged, and the
  first round's configuration is on record with its hash, unless that write failed, which
  \<^verbatim>\<open>Start\<close> does not report.
\<close>

theorem Start_effect:
  assumes "circle_step\<^sup>*\<^sup>* circles_init d" "Start env s i u d = (Inr (), d')"
  shows "\<exists>cid uid c c'. uuid_Parse env i = Some cid \<and> uuid_Parse env u = Some uid \<and> circle_row d cid = Some c
     \<and> C_OrganizerID c = uid \<and> C_Status c = CircleStatusPending \<and> 2 \<le> active_count d cid
     \<and> circle_row d' cid = Some c' \<and> c' = c\<lparr>C_Status := CircleStatusActive, C_CurrentRound := 1, C_UpdatedAt := now env\<rparr>
     \<and> B_members d' = B_members d
     \<and> (fault env (CQ_SaveConfig cid 1) = None \<and> (\<exists>j. config_json env (read_circle d c') = Inr j) \<longrightarrow>
          (\<exists>x \<in> set (B_configs d'). RC_CircleID x = cid \<and> RC_RoundNumber x = 1
             \<and> (x \<notin> set (B_configs d) \<longrightarrow> config_json env (read_circle d c') = Inr (RC_ConfigJSON x)
                  \<and> RC_ConfigHash x = sha256_hex env (RC_ConfigJSON x))))"
proof -
  note ok = circles_ok_keyed [OF circles_reachable_ok [OF assms(1)]]
  from assms(2) obtain cid uid r v where 1: "uuid_Parse env i = Some cid" "uuid_Parse env u = Some uid"
      "find_circle d cid = Some r" "C_OrganizerID r = uid" "C_Status r = CircleStatusPending" "\<not> active_count d cid < 2"
    and w: "Repo_Update env ((read_circle d r)\<lparr>C_Status := CircleStatusActive, C_CurrentRound := 1, C_UpdatedAt := now env\<rparr>) d = (Inr (), v)"
    and d': "d' = broadcast s (CircleStatusChanged i ''active'') (snd (snapshotRoundConfig env
       ((read_circle d r)\<lparr>C_Status := CircleStatusActive, C_CurrentRound := 1, C_UpdatedAt := now env\<rparr>) 1 v))"
    by (auto simp: Start_def attempt_Inr guard_Inr perform_Inr wrap_call_Inr parseUUID_Inr FindByID_Inr Let_def
        dest: GetMemberCount_Inr)
  let ?c = "r\<lparr>C_Status := CircleStatusActive, C_CurrentRound := 1, C_UpdatedAt := now env\<rparr>"
  have id: "C_ID r = cid" using find_circle_D [OF 1(3)] by simp
  have rd: "(read_circle d r)\<lparr>C_Status := CircleStatusActive, C_CurrentRound := 1, C_UpdatedAt := now env\<rparr> = read_circle d ?c"
    by (simp add: read_circle_def)
  have "write_circle (read_circle d ?c) r = ?c" by (simp add: write_circle_def read_circle_def)
  then have v: "v = d\<lparr>B_circles := update_where (\<lambda>r. C_ID r = cid) (\<lambda>_. ?c) (B_circles d)\<rparr>"
    using Repo_Update_Inr [OF w] write_back [OF circles_keyed_ids [OF ok] 1(3), of "read_circle d ?c"] id unfolding rd by simp
  have row: "circle_row d cid = Some r" using 1(3) find_circle_row [OF ok] by blast
  have "B_circles d' = B_circles v" "B_members d' = B_members d" by (simp_all add: d' v)
  then have row': "circle_row d' cid = Some ?c"
    using circle_row_update [OF row, of ?c v] id v by (simp add: circle_row_def)
  have cfg: "\<exists>x \<in> set (B_configs d'). RC_CircleID x = cid \<and> RC_RoundNumber x = 1
       \<and> (x \<notin> set (B_configs d) \<longrightarrow> config_json env (read_circle d ?c) = Inr (RC_ConfigJSON x)
            \<and> RC_ConfigHash x = sha256_hex env (RC_ConfigJSON x))"
    if "fault env (CQ_SaveConfig cid 1) = None" "config_json env (read_circle d ?c) = Inr j" for j
    using that id unfolding d' rd by (auto simp: snapshotRoundConfig_def SaveRoundConfigSnapshot_def v)
  show ?thesis
    by (rule exI [of _ cid], rule exI [of _ uid], rule exI [of _ r], rule exI [of _ ?c])
       (use 1 row row' cfg \<open>B_members d' = B_members d\<close> in auto)
qed

theorem Start_effect_witness:
  "\<exists>cid c'. uuid_Parse demo_cenv ''k'' = Some cid \<and> circle_row demo_active cid = Some c' \<and> C_Status c' = CircleStatusActive
     \<and> C_CurrentRound c' = 1 \<and> 2 \<le> active_count demo_open cid"
proof -
  have "Start demo_cenv demo_svc ''k'' ''o'' demo_open = (Inr (), demo_active)"
    by (rule prod_eqI) (code_simp, simp add: demo_active_def)
  from Start_effect [OF demo_open_reachable this] show ?thesis by auto
qed

lemma tallyMap_iff: "(w, n) \<in> set (tallyMap env votes) \<longleftrightarrow>
    w \<in> set (map (\<lambda>v. uuid_String env (CV_RecipientID v)) votes)
    \<and> n = int (count_list (map (\<lambda>v. uuid_String env (CV_RecipientID v)) votes) w)"
  by (auto simp: tallyMap_def Let_def)

lemma tally_winner:
  assumes "mset t = mset (tallyMap env votes)" "votes \<noteq> []"
  defines "names \<equiv> map (\<lambda>v. uuid_String env (CV_RecipientID v)) votes"
  shows "VoteTally t \<in> set names \<and> count_list names w \<le> count_list names (VoteTally t)"
proof -
  have t: "set t = set (tallyMap env votes)" using assms(1) by (metis set_mset_mset)
  obtain n where n: "n \<in> set names" using assms(2) by (cases votes) (auto simp: names_def)
  then have "(n, int (count_list names n)) \<in> set t" "0 < int (count_list names n)"
    unfolding t tallyMap_iff names_def by (auto simp: count_list_0_iff) (metis count_list_0_iff gr0I image_eqI set_map list.set_map)
  then obtain c where c: "(VoteTally t, c) \<in> set t" "\<forall>(u', c') \<in> set t. c' \<le> c"
    using VoteTally_loop_max [of t "[]" 0 "VoteTally t"] by (force simp: VoteTally_def)
  have "count_list names w \<le> count_list names (VoteTally t)"
  proof (cases "w \<in> set names")
    case True
    then have "(w, int (count_list names w)) \<in> set t" unfolding t tallyMap_iff names_def by auto
    with c(2) have "int (count_list names w) \<le> c" by fastforce
    moreover have "c = int (count_list names (VoteTally t))" using c(1) unfolding t tallyMap_iff names_def by simp
    ultimately show ?thesis by simp
  qed (simp add: count_list_0_iff)
  with c(1) show ?thesis unfolding t tallyMap_iff names_def by simp
qed

lemma vote_case_Inr:
  "(case c of (Inl e, d') \<Rightarrow> (Inl (f e), d') | (Inr y, d') \<Rightarrow> (Inr (g d'), d')) = (Inr z, v)
     \<longleftrightarrow> (\<exists>y. c = (Inr y, v)) \<and> g v = z"
  by (cases c; cases "fst c") auto

text \<open>
  The winner of a round's vote: when \<^verbatim>\<open>CastVote\<close> reports the round complete, at least as many votes
  as there are active members (or places, when there are none) are on record for the round, and
  the announced recipient has at least one vote and no other recipient has more, in whatever
  order the tally is ranged over.
\<close>

theorem CastVote_winner:
  assumes "CastVote env i u x d = (Inr (v, True, w), d')" "\<And>t. mset (range_tally env t) = mset t"
  shows "\<exists>cid c. uuid_Parse env i = Some cid \<and> find_circle d cid = Some c \<and>
    (let votes = filter (\<lambda>v. CV_CircleID v = cid \<and> CV_RoundNumber v = current_round c) (B_votes d');
         names = map (\<lambda>v. uuid_String env (CV_RecipientID v)) votes in
     v \<in> set votes \<and> w \<in> set names \<and> (\<forall>w'. count_list names w' \<le> count_list names w)
     \<and> (fault env (CQ_GetMemberCount cid) = None \<and> active_count d cid \<noteq> 0 \<longrightarrow> active_count d cid \<le> int (length votes)))"
proof -
  from assms(1) obtain cid c where 1: "uuid_Parse env i = Some cid" "find_circle d cid = Some c"
    and cv: "CreateVote env v d = (Inr (), d')" "CV_CircleID v = cid" "CV_RoundNumber v = current_round c"
    and out: "vote_outcome env (read_circle d c) cid d' = (True, w)"
    by (auto simp: CastVote_def attempt_Inr guard_Inr parseUUID_Inr FindByID_Inr Let_def vote_case_Inr)
  let ?votes = "filter (\<lambda>v. CV_CircleID v = cid \<and> CV_RoundNumber v = current_round c) (B_votes d')"
  let ?sorted = "sort_key CV_CreatedAt ?votes"
  have d': "d' = d\<lparr>B_votes := B_votes d @ [v]\<rparr>" using CreateVote_Inr [OF cv(1)] by simp
  then have v: "v \<in> set ?votes" using cv(2,3) by simp
  have w: "w = VoteTally (range_tally env (tallyMap env ?sorted))"
    and n: "fault env (CQ_GetMemberCount cid) = None \<and> active_count d cid \<noteq> 0 \<longrightarrow> active_count d cid \<le> int (length ?votes)"
    using out d' unfolding vote_outcome_def
    by (auto simp: GetVotesByRound_def GetMemberCount_def run_query_def active_count_def Let_def
        split: option.splits if_splits sum.splits)
  have perm: "mset (map (\<lambda>v. uuid_String env (CV_RecipientID v)) ?sorted)
      = mset (map (\<lambda>v. uuid_String env (CV_RecipientID v)) ?votes)" by (simp add: mset_map)
  have cnt: "count_list (map (\<lambda>v. uuid_String env (CV_RecipientID v)) ?sorted) z
      = count_list (map (\<lambda>v. uuid_String env (CV_RecipientID v)) ?votes) z" for z
    by (simp only: perm flip: count_mset)
  have "length ?sorted = length ?votes" by simp
  moreover have "0 < length ?votes" using v by (rule length_pos_if_in_set)
  ultimately have "?sorted \<noteq> []" by (metis length_greater_0_conv)
  note win = tally_winner [of "range_tally env (tallyMap env ?sorted)" env ?sorted, OF assms(2) this, folded w, unfolded cnt]
  have "w \<in> set (map (\<lambda>v. uuid_String env (CV_RecipientID v)) ?votes)" using win by simp
  then show ?thesis using 1 v n win by (auto simp: Let_def)
qed

definition demo_voting :: circles_db where
  "demo_voting = run_calls [Call_CastVote ''k'' ''o'' ''a'', Call_CastVote ''k'' ''a'' ''b''] demo_active"

definition demo_last_vote :: circle_vote where
  "demo_last_vote = \<lparr>CV_ID = 100, CV_CircleID = 100, CV_VoterID = 3, CV_RecipientID = 2, CV_RoundNumber = 1, CV_CreatedAt = 5\<rparr>"

theorem CastVote_winner_witness:
  "\<exists>d' cid c. CastVote demo_cenv ''k'' ''b'' ''a'' demo_voting = (Inr (demo_last_vote, True, ''a''), d')
    \<and> uuid_Parse demo_cenv ''k'' = Some cid \<and> find_circle demo_voting cid = Some c \<and>
    (let votes = filter (\<lambda>v. CV_CircleID v = cid \<and> CV_RoundNumber v = current_round c) (B_votes d');
         names = map (\<lambda>v. uuid_String demo_cenv (CV_RecipientID v)) votes in
     demo_last_vote \<in> set votes \<and> ''a'' \<in> set names \<and> (\<forall>w'. count_list names w' \<le> count_list names ''a''))"
proof -
  define d' where "d' = snd (CastVote demo_cenv ''k'' ''b'' ''a'' demo_voting)"
  have "fst (CastVote demo_cenv ''k'' ''b'' ''a'' demo_voting) = Inr (demo_last_vote, True, ''a'')" by code_simp
  then have 1: "CastVote demo_cenv ''k'' ''b'' ''a'' demo_voting = (Inr (demo_last_vote, True, ''a''), d')"
    by (simp add: prod_eq_iff d'_def)
  have "mset (range_tally demo_cenv t) = mset t" for t by (simp add: demo_cenv_def)
  from CastVote_winner [OF 1 this] 1 show ?thesis by (auto simp: Let_def)
qed

end
