(* ===== verification/CircleQueries.thy ===== *)
theory CircleQueries
  imports CircleLife
begin

text \<open>
  The reads of the circle service: pages of circles, the ranking of auction bids, and the
  snapshots of one or of all circles of a user.
\<close>

section \<open>Pages\<close>

lemma exclude_placeholders_one: "length xs \<le> 1 \<Longrightarrow> exclude_placeholders n 0 xs = [n + 1..<n + 1 + length xs]"
  by (cases xs) auto

lemma exclude_placeholders_two: "2 \<le> length xs \<Longrightarrow> exclude_placeholders n 0 xs \<noteq> [n + 1..<n + 1 + length xs]"
proof -
  assume "2 \<le> length xs"
  then obtain x y zs where "xs = x # y # zs" by (metis Suc_le_length_iff numeral_2_eq_2)
  moreover have "[n + 1..<n + 1 + length (x # y # zs)] ! 1 = n + 2" by (subst nth_upt) auto
  ultimately show ?thesis by (metis One_nat_def add_2_eq_Suc' add_Suc_right exclude_placeholders.simps(2) n_not_Suc_n nth_Cons_0 nth_Cons_Suc plus_1_eq_Suc)
qed

lemma Repo_List_fails:
  assumes "2 \<le> length (F_ExcludeIDs f)"
  shows "\<not> is_ok (Repo_List env f d)"
  using exclude_placeholders_two [OF assms]
  by (auto simp: Repo_List_def run_query_def Let_def split: option.splits)

lemma Repo_List_Inr:
  assumes "Repo_List env f d = Inr cs"
  shows "\<exists>rows. cs = map (read_circle d) rows \<and> sorted (map (\<lambda>c. - C_CreatedAt c) rows) \<and> length rows \<le> 100
    \<and> set rows \<subseteq> {c \<in> set (B_circles d). matches_filter env f c \<and> C_ID c \<notin> set (F_ExcludeIDs f)}"
proof -
  let ?rows = "sort_key (\<lambda>c. - C_CreatedAt c)
    (filter (\<lambda>c. matches_filter env f c \<and> C_ID c \<notin> set (F_ExcludeIDs f)) (B_circles d))"
  obtain page where "page_rows (F_Page f) (F_Limit f) ?rows = Inr page" and cs: "cs = map (read_circle d) page"
    using assms by (cases "page_rows (F_Page f) (F_Limit f) ?rows")
      (auto simp: Repo_List_def Let_def split: sum.splits if_splits)
  from page_rows_Inr [OF this(1), of "\<lambda>c. - C_CreatedAt c"] cs show ?thesis
    by (intro exI [of _ page]) auto
qed

text \<open>
  A page of circles: whatever \<^verbatim>\<open>List\<close> returns is at most 100 circles, newest first, each of them
  stored, not deleted, matching the filter and not excluded. But with two or more excluded
  identifiers the placeholders are numbered wrongly and every call fails.
\<close>

theorem Service_List_pages:
  "(\<forall>cs n. Service_List env f d = Inr (cs, n) \<longrightarrow>
      (\<exists>rows. cs = map (read_circle d) rows \<and> sorted (map (\<lambda>c. - C_CreatedAt c) rows) \<and> length rows \<le> 100
       \<and> set rows \<subseteq> {c \<in> set (B_circles d). C_DeletedAt c = None \<and> matches_filter env f c \<and> C_ID c \<notin> set (F_ExcludeIDs f)}
       \<and> n = length (filter (matches_filter env f) (B_circles d))))
   \<and> (2 \<le> length (F_ExcludeIDs f) \<longrightarrow> \<not> is_ok (Service_List env f d))"
proof (intro conjI allI impI)
  fix cs n
  assume "Service_List env f d = Inr (cs, n)"
  then have l: "Repo_List env f d = Inr cs" and n: "Repo_Count env f d = Inr n"
    by (auto simp: Service_List_def split: sum.splits)
  have "C_DeletedAt c = None" if "matches_filter env f c" for c using that by (simp add: matches_filter_def)
  with Repo_List_Inr [OF l] n show "\<exists>rows. cs = map (read_circle d) rows \<and> sorted (map (\<lambda>c. - C_CreatedAt c) rows)
      \<and> length rows \<le> 100
      \<and> set rows \<subseteq> {c \<in> set (B_circles d). C_DeletedAt c = None \<and> matches_filter env f c \<and> C_ID c \<notin> set (F_ExcludeIDs f)}
      \<and> n = length (filter (matches_filter env f) (B_circles d))"
    by (fastforce simp: Repo_Count_def run_query_Inr)
next
  assume "2 \<le> length (F_ExcludeIDs f)"
  then have "\<not> is_ok (Repo_List env f d)" by (rule Repo_List_fails)
  then show "\<not> is_ok (Service_List env f d)"
    by (cases "Repo_List env f d") (auto simp: Service_List_def)
qed

section \<open>Bids\<close>

lemma mset_insert_bid: "mset (insert_bid b bs) = add_mset b (mset bs)"
  by (induction bs) auto

lemma mset_bid_sort: "mset (foldr insert_bid bs []) = mset bs"
  by (induction bs) (simp_all add: mset_insert_bid)

definition finite_bid :: "auction_bid \<Rightarrow> bool" where
  "finite_bid b = (case AB_BidAmount b of Finite x \<Rightarrow> True | _ \<Rightarrow> False)"

lemma bid_before_total: "finite_bid a \<Longrightarrow> finite_bid b \<Longrightarrow> bid_before a b \<or> bid_before b a"
  by (auto simp: finite_bid_def bid_before_def split: float64.splits)

lemma bid_before_trans:
  "finite_bid a \<Longrightarrow> finite_bid b \<Longrightarrow> finite_bid c \<Longrightarrow> bid_before a b \<Longrightarrow> bid_before b c \<Longrightarrow> bid_before a c"
  by (auto simp: finite_bid_def bid_before_def split: float64.splits)

lemma sorted_insert_bid:
  assumes "sorted_wrt bid_before bs" "\<forall>x \<in> set (b # bs). finite_bid x"
  shows "sorted_wrt bid_before (insert_bid b bs)"
  using assms
proof (induction bs)
  case (Cons x bs)
  have set: "set (insert_bid b bs) = insert b (set bs)" by (metis mset_insert_bid set_mset_add_mset_insert set_mset_mset)
  show ?case
  proof (cases "bid_before b x")
    case True
    then have "bid_before b y" if "y \<in> set bs" for y
      using that Cons.prems bid_before_trans [of b x y] by simp
    with True Cons.prems show ?thesis by simp
  next
    case False
    then have "bid_before x b" using bid_before_total [of x b] Cons.prems(2) by simp
    with False Cons show ?thesis by (simp add: set)
  qed
qed simp

lemma sorted_bid_sort: "\<forall>x \<in> set bs. finite_bid x \<Longrightarrow> sorted_wrt bid_before (foldr insert_bid bs [])"
proof (induction bs)
  case (Cons b bs)
  have "set (foldr insert_bid bs []) = set bs" by (metis mset_bid_sort set_mset_mset)
  with Cons show ?case by (simp add: sorted_insert_bid)
qed simp

text \<open>
  The bids of a round are ranked: \<^verbatim>\<open>GetAuctionBidsByRound\<close> returns exactly the stored bids of the
  round, the highest first and of equal bids the earliest first, so the head of the list is the
  winning bid.
\<close>

theorem bids_ranked:
  assumes "GetAuctionBidsByRound env i r d = Inr bs" "\<forall>b \<in> set (B_bids d). finite_bid b"
  shows "mset bs = mset (filter (\<lambda>b. AB_CircleID b = i \<and> AB_RoundNumber b = r) (B_bids d)) \<and> sorted_wrt bid_before bs"
  using assms by (auto simp: GetAuctionBidsByRound_def run_query_Inr mset_bid_sort intro: sorted_bid_sort)

definition demo_bid :: "uuid \<Rightarrow> rat \<Rightarrow> time \<Rightarrow> auction_bid" where
  "demo_bid u x t = \<lparr>AB_ID = u, AB_CircleID = 100, AB_BidderID = u, AB_RoundNumber = 1, AB_BidAmount = Finite x, AB_CreatedAt = t\<rparr>"

definition demo_bids :: circles_db where
  "demo_bids = circles_init\<lparr>B_bids := [demo_bid 1 5 1, demo_bid 2 9 3, demo_bid 3 9 2]\<rparr>"

theorem bids_ranked_witness:
  "GetAuctionBidsByRound demo_cenv 100 1 demo_bids = Inr [demo_bid 3 9 2, demo_bid 2 9 3, demo_bid 1 5 1]
   \<and> sorted_wrt bid_before [demo_bid 3 9 2, demo_bid 2 9 3, demo_bid 1 5 1]"
proof
  show 1: "GetAuctionBidsByRound demo_cenv 100 1 demo_bids = Inr [demo_bid 3 9 2, demo_bid 2 9 3, demo_bid 1 5 1]" by code_simp
  have "\<forall>b \<in> set (B_bids demo_bids). finite_bid b" by (simp add: demo_bids_def demo_bid_def finite_bid_def)
  from bids_ranked [OF 1 this] show "sorted_wrt bid_before [demo_bid 3 9 2, demo_bid 2 9 3, demo_bid 1 5 1]" by (rule conjunct2)
qed

definition two_excluded :: circle_filter where
  "two_excluded = \<lparr>F_Search = [], F_Status = None, F_Type = None, F_Page = 1, F_Limit = 20, F_ExcludeIDs = [7, 8],
     F_CommunityID = None, F_OrganizerID = None\<rparr>"

theorem Service_List_pages_witness:
  "\<not> is_ok (Service_List demo_cenv two_excluded demo_bids)
   \<and> Service_List demo_cenv (two_excluded\<lparr>F_ExcludeIDs := [7]\<rparr>) demo_bids = Inr ([], 0)"
proof
  show "\<not> is_ok (Service_List demo_cenv two_excluded demo_bids)"
    using Service_List_pages [of demo_cenv two_excluded demo_bids] by (simp add: two_excluded_def)
qed code_simp

section \<open>Snapshots\<close>

definition insider :: "circles_db \<Rightarrow> uuid \<Rightarrow> circle \<Rightarrow> bool" where
  "insider d u c = (C_OrganizerID c = u
     \<or> (\<exists>m \<in> set (B_members d). CM_CircleID m = C_ID c \<and> CM_UserID m = u \<and> CM_Status m = MemberStatusActive))"

lemma snapshot_role_none:
  "snapshot_role (read_circle d c) (sort_key CM_Position (filter (\<lambda>m. CM_CircleID m = C_ID c) (B_members d))) u = ''none''
     \<longleftrightarrow> \<not> insider d u c"
  by (auto simp: snapshot_role_def insider_def read_circle_def)

lemma snapshot_Inr:
  assumes "Repo_GetCircleSnapshot env b i u d = Inr snap"
  obtains c members where "find_circle d i = Some c" "Repo_GetMembers env i d = Inr members"
    "build_snapshot env b i u (read_circle d c) members (snapshot_contribs env i d)
       (snapshot_payouts env i d) (snapshot_configs env i d) = Inr snap"
  using assms by (auto simp: Repo_GetCircleSnapshot_def FindByID_Inr split: sum.splits if_splits)

lemma GetMembers_Inr: "Repo_GetMembers env i d = Inr ms \<Longrightarrow>
    ms = sort_key CM_Position (filter (\<lambda>m. CM_CircleID m = i) (B_members d))"
  by (simp add: Repo_GetMembers_def run_query_Inr)

lemma mset_concat_rounds:
  assumes "\<forall>x \<in> set xs. k x \<in> set rs" "distinct rs"
  shows "mset (concat (map (\<lambda>r. filter (\<lambda>x. k x = r) xs) rs)) = mset xs"
  using assms
proof (induction rs arbitrary: xs)
  case (Cons r rs)
  let ?ys = "filter (\<lambda>x. k x \<noteq> r) xs"
  have eq: "map (\<lambda>r. filter (\<lambda>x. k x = r) xs) rs = map (\<lambda>r. filter (\<lambda>x. k x = r) ?ys) rs"
    using Cons.prems(2) by (auto simp: filter_filter intro!: map_cong filter_cong)
  have IH: "mset (concat (map (\<lambda>r. filter (\<lambda>x. k x = r) ?ys) rs)) = mset ?ys"
    by (rule Cons.IH) (use Cons.prems in auto)
  have "mset (filter (\<lambda>x. k x = r) xs) + mset ?ys = mset xs" by (induction xs) auto
  then show ?case by (simp only: list.map concat.simps mset_append eq IH)
qed simp

lemma foldr_max_ge: "x \<in> set xs \<Longrightarrow> x \<le> foldr max xs (a :: int)"
  by (induction xs) auto

lemma maxRound_ge: "c \<in> set contribs \<Longrightarrow> CB_RoundNumber c \<le> maxRound cir contribs payouts"
  unfolding maxRound_def by (rule foldr_max_ge) simp

text \<open>
  A snapshot of a circle is only given to its organizer or an active member; it holds the circle
  with its current member count, the rounds from 1 up without a gap, every contribution of a
  round from 1 on exactly once, and balances that are the differences of the totals shown.
\<close>

theorem snapshot_private_and_complete:
  assumes "GetCircleSnapshot env circleID userID d = Inr snap"
  shows "\<exists>i u c. uuid_Parse env circleID = Some i \<and> uuid_Parse env userID = Some u \<and> find_circle d i = Some c
     \<and> insider d u c \<and> CS_Circle snap = read_circle d c
     \<and> map RS_RoundNumber (CS_Rounds snap) = [1..int (length (CS_Rounds snap))]
     \<and> UB_NetBalance (CS_UserBalance snap) = fsub (UB_TotalPaidOut (CS_UserBalance snap)) (UB_TotalContributed (CS_UserBalance snap))
     \<and> VB_VaultBalance (CS_CircleBalance snap) = fsub (VB_TotalContributed (CS_CircleBalance snap)) (VB_TotalPaidOut (CS_CircleBalance snap))
     \<and> (fault env (CQ_SnapshotContribs i) = None \<and> (\<forall>x \<in> set (B_contribs d). 1 \<le> CB_RoundNumber x) \<longrightarrow>
          mset (concat (map RS_Contributions (CS_Rounds snap))) = mset (map contribMap (filter (\<lambda>c. CB_CircleID c = i) (B_contribs d))))"
proof -
  from assms obtain i u where iu: "uuid_Parse env circleID = Some i" "uuid_Parse env userID = Some u"
      "Repo_GetCircleSnapshot env True i u d = Inr snap"
    by (auto simp: GetCircleSnapshot_def parseUUID_def split: option.splits)
  from snapshot_Inr [OF iu(3)] obtain c members where c: "find_circle d i = Some c" "Repo_GetMembers env i d = Inr members"
    and b: "build_snapshot env True i u (read_circle d c) members (snapshot_contribs env i d)
       (snapshot_payouts env i d) (snapshot_configs env i d) = Inr snap" by metis
  let ?cs = "snapshot_contribs env i d" and ?ps = "snapshot_payouts env i d"
  let ?rs = "[1..maxRound (read_circle d c) ?cs ?ps]"
  have i: "C_ID c = i" using find_circle_D [OF c(1)] by simp
  have ins: "insider d u c"
    using b snapshot_role_none [of d c u] GetMembers_Inr [OF c(2)] i by (auto simp: build_snapshot_def Let_def)
  have rounds: "CS_Rounds snap = map (snapshot_round (read_circle d c) ?cs ?ps (snapshot_configs env i d)) ?rs"
    and rest: "CS_Circle snap = read_circle d c"
      "UB_NetBalance (CS_UserBalance snap) = fsub (UB_TotalPaidOut (CS_UserBalance snap)) (UB_TotalContributed (CS_UserBalance snap))"
      "VB_VaultBalance (CS_CircleBalance snap) = fsub (VB_TotalContributed (CS_CircleBalance snap)) (VB_TotalPaidOut (CS_CircleBalance snap))"
    using b by (auto simp: build_snapshot_def Let_def run_query_Inr split: prod.splits if_splits)
  have nums: "map RS_RoundNumber (CS_Rounds snap) = [1..int (length (CS_Rounds snap))]"
    unfolding rounds by (simp add: snapshot_round_def comp_def)
  have complete: "mset (concat (map RS_Contributions (CS_Rounds snap))) = mset (map contribMap (filter (\<lambda>c. CB_CircleID c = i) (B_contribs d)))"
    if f: "fault env (CQ_SnapshotContribs i) = None" and pos: "\<forall>x \<in> set (B_contribs d). 1 \<le> CB_RoundNumber x"
  proof -
    have cs: "mset ?cs = mset (filter (\<lambda>c. CB_CircleID c = i) (B_contribs d))"
      using f by (simp add: snapshot_contribs_def or_empty_def)
    then have "set ?cs \<subseteq> set (B_contribs d)" by (metis filter_is_subset set_mset_mset)
    then have "\<forall>x \<in> set ?cs. CB_RoundNumber x \<in> set ?rs" using pos maxRound_ge by auto
    then have "mset (concat (map (\<lambda>r. filter (\<lambda>x. CB_RoundNumber x = r) ?cs) ?rs)) = mset ?cs"
      by (rule mset_concat_rounds) simp
    moreover have "concat (map RS_Contributions (CS_Rounds snap))
        = map contribMap (concat (map (\<lambda>r. filter (\<lambda>x. CB_RoundNumber x = r) ?cs) ?rs))"
      unfolding rounds by (simp add: snapshot_round_def comp_def map_concat)
    ultimately show ?thesis using cs by (simp add: mset_map flip: mset_filter)
  qed
  show ?thesis
    by (rule exI [of _ i], rule exI [of _ u], rule exI [of _ c]) (intro conjI impI iu c(1) ins rest nums complete; elim conjE)
qed

theorem snapshot_private_and_complete_witness:
  "\<exists>snap c. GetCircleSnapshot demo_cenv ''k'' ''a'' demo_active = Inr snap \<and> find_circle demo_active 100 = Some c
     \<and> insider demo_active 2 c \<and> CS_Circle snap = read_circle demo_active c"
proof -
  have "is_ok (GetCircleSnapshot demo_cenv ''k'' ''a'' demo_active)" by code_simp
  then obtain snap where 1: "GetCircleSnapshot demo_cenv ''k'' ''a'' demo_active = Inr snap"
    by (cases "GetCircleSnapshot demo_cenv ''k'' ''a'' demo_active") auto
  have "uuid_Parse demo_cenv ''k'' = Some 100" "uuid_Parse demo_cenv ''a'' = Some 2" by code_simp+
  with snapshot_private_and_complete [OF 1] 1 show ?thesis by auto
qed

lemma bulk_loop_fails:
  "i \<in> set is \<Longrightarrow> snap i = Inl e \<Longrightarrow> \<not> errors_Is e App_ErrNotFound \<Longrightarrow> \<not> is_ok (bulk_loop snap is)"
  by (induction "is") (auto split: sum.splits)

lemma snapshot_refused:
  assumes "\<And>q. fault env q = None" "\<And>c. find_circle d i = Some c \<Longrightarrow> \<not> insider d u c"
  shows "\<exists>e. Repo_GetCircleSnapshot env b i u d = Inl e \<and> \<not> errors_Is e App_ErrNotFound"
proof (cases "find_circle d i")
  case None
  then show ?thesis using assms(1) by (simp add: Repo_GetCircleSnapshot_def FindByID_def scanCircle_def)
next
  case (Some c)
  then have "C_ID c = i" using find_circle_D by simp
  then have "snapshot_role (read_circle d c) (sort_key CM_Position (filter (\<lambda>m. CM_CircleID m = i) (B_members d))) u = ''none''"
    using assms(2) Some snapshot_role_none by blast
  then show ?thesis using assms(1) Some
    by (simp add: Repo_GetCircleSnapshot_def FindByID_def scanCircle_def Repo_GetMembers_def build_snapshot_def)
qed

text \<open>
  One old membership spoils the overview: a user with a membership row in a circle where they are
  neither organizer nor active any more (they left, were removed, or the circle was deleted) gets
  no snapshots at all from the call without identifiers, although nothing fails.
\<close>

theorem bulk_snapshots_blocked:
  assumes "\<And>q. fault env q = None" "uuid_Parse env userID = Some u"
    and "m \<in> set (B_members d)" "CM_UserID m = u" "\<And>c. find_circle d (CM_CircleID m) = Some c \<Longrightarrow> \<not> insider d u c"
  shows "\<not> is_ok (GetBulkCircleSnapshots env userID [] d)"
proof -
  obtain e where "Repo_GetCircleSnapshot env True (CM_CircleID m) u d = Inl e" "\<not> errors_Is e App_ErrNotFound"
    using snapshot_refused [OF assms(1), of d "CM_CircleID m" u True] assms(5) by blast
  moreover have "CM_CircleID m \<in> set (user_circle_ids u d)" using assms(3,4) by (auto simp: user_circle_ids_def)
  ultimately have "\<not> is_ok (bulk_loop (\<lambda>i. Repo_GetCircleSnapshot env True i u d) (user_circle_ids u d))"
    by (intro bulk_loop_fails [of "CM_CircleID m"]) auto
  then show ?thesis using assms(1,2)
    by (simp add: GetBulkCircleSnapshots_def parseUUID_def Repo_GetBulkCircleSnapshots_def)
qed

theorem bulk_snapshots_blocked_witness:
  "\<not> is_ok (GetBulkCircleSnapshots demo_cenv ''a'' [] (run_calls [Call_Exit ''k'' ''a''] demo_open))"
proof -
  let ?d = "run_calls [Call_Exit ''k'' ''a''] demo_open"
  have no_fault: "fault demo_cenv q = None" for q by (simp add: demo_cenv_def)
  have p: "uuid_Parse demo_cenv ''a'' = Some 2" by code_simp
  have "map (\<lambda>m. (CM_CircleID m, CM_UserID m, CM_Status m)) (B_members ?d)
      = [(100, 1, MemberStatusActive), (100, 2, MemberStatusExited), (100, 3, MemberStatusActive)]" by code_simp
  then obtain m1 m m3 where ms: "B_members ?d = [m1, m, m3]" and m: "CM_CircleID m = 100" "CM_UserID m = 2"
      "CM_Status m = MemberStatusExited" "CM_UserID m1 = 1" "CM_UserID m3 = 3" by (auto simp: map_eq_Cons_conv)
  have "map_option C_OrganizerID (find_circle ?d 100) = Some 1" by code_simp
  then have "\<not> insider ?d 2 c" if "find_circle ?d (CM_CircleID m) = Some c" for c
    using that ms m by (auto simp: insider_def)
  then show ?thesis using bulk_snapshots_blocked [OF no_fault p, of m ?d] ms m by simp
qed

end
