(* ===== verification/Contribution.thy ===== *)
theory Contribution
  imports CircleLife
begin

text \<open>
  \<^verbatim>\<open>internal/domain/contribution\<close>: recording what members pay into a round.

  A contribution is a row of the table \<^verbatim>\<open>contributions\<close> that the circle code reads too, so the
  state is \<open>circles_db\<close> and the row type \<open>raw_contrib\<close>; \<^verbatim>\<open>UpdatedAt\<close> is written but never read and
  is left out. The insert checks the primary key, the unique index on \<^verbatim>\<open>txn_hash\<close> (nulls excluded)
  and the constraint of one contribution per circle, user and round. The circle service is the one of \<^verbatim>\<open>CircleService\<close>, in its own environment
  \<open>on_circle\<close>; the payout schedule and Horizon are parameters.
\<close>

section \<open>Ledgers keyed by transaction hash\<close>

text \<open>
  What contributions and payouts promise alike: rows are only appended or rewritten in place,
  and no two rows carry the same transaction hash.
\<close>

locale hash_ledger =
  fixes insert_row :: "'e \<Rightarrow> 'r \<Rightarrow> 'd \<Rightarrow> unit result \<times> 'd"
    and by_hash :: "'e \<Rightarrow> string \<Rightarrow> 'd \<Rightarrow> 'r result"
    and rows :: "'d \<Rightarrow> 'r list" and hash_of :: "'r \<Rightarrow> string option"
  assumes by_hash_Inr: "by_hash e h d = Inr r \<Longrightarrow> r \<in> set (rows d) \<and> hash_of r = Some h"
    and insert_Inr: "insert_row e r d = (Inr y, d') \<Longrightarrow> rows d' = rows d @ [r]
          \<and> (\<forall>h. hash_of r = Some h \<longrightarrow> (\<forall>x \<in> set (rows d). hash_of x \<noteq> Some h))"
    and insert_Inl: "insert_row e r d = (Inl x, d') \<Longrightarrow> d' = d"
begin

definition hashes_distinct :: "'d \<Rightarrow> bool" where
  "hashes_distinct d = distinct (filter (\<lambda>h. h \<noteq> None) (map hash_of (rows d)))"

lemma insert_distinct: "hashes_distinct d \<Longrightarrow> hashes_distinct (snd (insert_row e r d))"
proof (cases "insert_row e r d"; cases "fst (insert_row e r d)")
  fix x d' y
  assume "hashes_distinct d" "insert_row e r d = (x, d')" "fst (insert_row e r d) = Inr y"
  then show "hashes_distinct (snd (insert_row e r d))"
    using insert_Inr [of e r d y d'] by (cases "hash_of r") (auto simp: hashes_distinct_def)
qed (auto dest: insert_Inl)

lemma hash_unique:
  assumes "hashes_distinct d" "x \<in> set (rows d)" "y \<in> set (rows d)" "hash_of x = Some h" "hash_of y = Some h"
  shows "x = y"
proof -
  have "x = y" if "distinct (filter (\<lambda>h. h \<noteq> None) (map hash_of xs))" "x \<in> set xs" "y \<in> set xs" for xs
    using that assms(4,5)
  proof (induction xs)
    case (Cons z zs)
    have "Some h \<notin> hash_of ` set zs" if "hash_of z = Some h" using Cons.prems(1) that by auto
    then have "hash_of v \<noteq> Some h" if "hash_of z = Some h" "v \<in> set zs" for v using that by (metis image_eqI)
    moreover have "distinct (filter (\<lambda>h. h \<noteq> None) (map hash_of zs))" using Cons.prems(1) by (auto split: if_splits)
    ultimately show ?case using Cons.IH Cons.prems(2-5) by auto
  qed simp
  then show ?thesis using assms(1-3) unfolding hashes_distinct_def by blast
qed

end

section \<open>Model and environment\<close>

abbreviation StatusPending :: string where "StatusPending \<equiv> ''pending''"
abbreviation StatusConfirmed :: string where "StatusConfirmed \<equiv> ''confirmed''"
abbreviation StatusFailed :: string where "StatusFailed \<equiv> ''failed''"
abbreviation StatusLate :: string where "StatusLate \<equiv> ''late''"

abbreviation VerificationStatusUnverified :: string where "VerificationStatusUnverified \<equiv> ''unverified''"
abbreviation VerificationStatusPending :: string where "VerificationStatusPending \<equiv> ''pending''"
abbreviation VerificationStatusVerified :: string where "VerificationStatusVerified \<equiv> ''verified''"

datatype contrib_stmt =
    KQ_FindByID uuid
  | KQ_FindByCircleAndUser uuid uuid
  | KQ_FindByTxnHash string
  | KQ_Insert uuid
  | KQ_UpdateStatus uuid
  | KQ_UpdateVerification uuid
  | KQ_CountByUser uuid
  | KQ_ListByUser uuid
  | KQ_CountByCircle uuid
  | KQ_ListByCircle uuid
  | KQ_Begin
  | KQ_Commit

record contrib_env = "contrib_stmt env" +
  on_circle :: cenv
  IsPayoutScheduled :: "string \<Rightarrow> int \<Rightarrow> bool result"
  VerifyTransaction :: "string \<Rightarrow> string \<Rightarrow> string \<Rightarrow> bool result"

record contrib_service =
  has_contrib_broadcaster :: bool
  has_horizon :: bool
  has_payoutChecker :: bool
  masterPublicKey :: string
  has_circleService :: bool

record RecordInput =
  RI_CircleID :: string
  RI_UserID :: string
  RI_RoundNumber :: int
  RI_Amount :: float64
  RI_TxnHash :: string
  RI_PayoutScheduled :: bool
  RI_VerifiedOnchain :: "bool option"
  RI_VerificationStatus :: "string option"

section \<open>Repository\<close>

definition scanContribution :: "raw_contrib option result \<Rightarrow> raw_contrib result" where
  "scanContribution r =
     (case r of
        Inl e \<Rightarrow> if e = Sentinel Sql_ErrNoRows then Inl (Sentinel App_ErrNotFound)
                else Inl (Wrap ''scanning contribution row'' e)
      | Inr None \<Rightarrow> Inl (Sentinel App_ErrNotFound)
      | Inr (Some c) \<Rightarrow> Inr c)"

definition Contrib_FindByID :: "contrib_env \<Rightarrow> uuid \<Rightarrow> circles_db \<Rightarrow> raw_contrib result" where
  "Contrib_FindByID env i d =
     scanContribution (run_query env (KQ_FindByID i) (List.find (\<lambda>c. CB_ID c = i) (B_contribs d)))"

definition FindByCircleAndUser :: "contrib_env \<Rightarrow> uuid \<Rightarrow> uuid \<Rightarrow> circles_db \<Rightarrow> raw_contrib result" where
  "FindByCircleAndUser env i u d =
     scanContribution (run_query env (KQ_FindByCircleAndUser i u)
       (case sort_key (\<lambda>c. - CB_CreatedAt c) (filter (\<lambda>c. CB_CircleID c = i \<and> CB_UserID c = u) (B_contribs d)) of
          [] \<Rightarrow> None | c # _ \<Rightarrow> Some c))"

definition FindByTxnHash :: "contrib_env \<Rightarrow> string \<Rightarrow> circles_db \<Rightarrow> raw_contrib result" where
  "FindByTxnHash env h d =
     scanContribution (run_query env (KQ_FindByTxnHash h) (List.find (\<lambda>c. CB_TxnHash c = Some h) (B_contribs d)))"

definition contrib_key :: "raw_contrib \<Rightarrow> uuid \<times> uuid \<times> int" where
  "contrib_key c = (CB_CircleID c, CB_UserID c, CB_RoundNumber c)"

text \<open>
  The insert names the columns \<^verbatim>\<open>created_at\<close> and \<^verbatim>\<open>updated_at\<close>, which no migration adds to the table: with the migrations of the
  repository alone it is refused, see \<open>Schema\<close>.
\<close>

definition Contrib_Create :: "contrib_env \<Rightarrow> raw_contrib \<Rightarrow> circles_db \<Rightarrow> unit result \<times> circles_db" where
  "Contrib_Create env c d =
     (case exec_stmt env (KQ_Insert (CB_ID c))
             (\<lambda>d. if \<exists>r \<in> set (B_contribs d). CB_ID r = CB_ID c \<or> contrib_key r = contrib_key c
                       \<or> (CB_TxnHash c \<noteq> None \<and> CB_TxnHash r = CB_TxnHash c)
                  then Some unique_violation else None)
             (\<lambda>d. d\<lparr>B_contribs := B_contribs d @ [c]\<rparr>) d of
        (Inl e, d') \<Rightarrow>
          (if isUniqueViolationPg e then Inl (Sentinel App_ErrConflict) else Inl (Wrap ''creating contribution'' e), d')
      | (Inr u, d') \<Rightarrow> (Inr u, d'))"

definition Contrib_UpdateStatus :: "contrib_env \<Rightarrow> uuid \<Rightarrow> string \<Rightarrow> string \<Rightarrow> circles_db \<Rightarrow> unit result \<times> circles_db" where
  "Contrib_UpdateStatus env i st h d =
     perform (wrap_call ''updating contribution status''
       (exec_stmt env (KQ_UpdateStatus i)
          (\<lambda>d. if (\<exists>r \<in> set (B_contribs d). CB_ID r = i) \<and> (\<exists>r \<in> set (B_contribs d). CB_ID r \<noteq> i \<and> CB_TxnHash r = Some h)
               then Some unique_violation else None)
          (\<lambda>d. d\<lparr>B_contribs := update_where (\<lambda>r. CB_ID r = i) (\<lambda>r. r\<lparr>CB_Status := st, CB_TxnHash := Some h\<rparr>) (B_contribs d)\<rparr>) d)) (\<lambda>_ d'.
     guard (rows_affected (\<lambda>r. CB_ID r = i) (B_contribs d) = 0) (Sentinel App_ErrNotFound) d' (Inr (), d'))"

definition UpdateVerificationStatus :: "contrib_env \<Rightarrow> uuid \<Rightarrow> bool \<Rightarrow> string \<Rightarrow> circles_db \<Rightarrow> unit result \<times> circles_db" where
  "UpdateVerificationStatus env i verified st d =
     perform (wrap_call ''updating contribution verification status''
       (exec_stmt env (KQ_UpdateVerification i) no_check
          (\<lambda>d. d\<lparr>B_contribs := update_where (\<lambda>r. CB_ID r = i)
             (\<lambda>r. r\<lparr>CB_VerifiedOnchain := verified, CB_VerificationStatus := st\<rparr>) (B_contribs d)\<rparr>) d)) (\<lambda>_ d'.
     guard (rows_affected (\<lambda>r. CB_ID r = i) (B_contribs d) = 0) (Sentinel App_ErrNotFound) d' (Inr (), d'))"

text \<open>A listing counts first and then reads a page, newest first.\<close>

definition counted_page :: "('q, 'z) env_scheme \<Rightarrow> 'q \<Rightarrow> 'q \<Rightarrow> string \<Rightarrow> string \<Rightarrow> 'r list \<Rightarrow> ('r \<Rightarrow> int) \<Rightarrow> int64 \<Rightarrow> int64
    \<Rightarrow> ('r list \<times> nat) result" where
  "counted_page env qcount qlist mcount mlist rows created page limit =
     (case wrap_err mcount (run_query env qcount (length rows)) of
        Inl e \<Rightarrow> Inl e
      | Inr n \<Rightarrow>
          (case wrap_err mlist (case run_query env qlist () of
                  Inl e \<Rightarrow> Inl e
                | Inr _ \<Rightarrow> page_rows page limit (sort_key (\<lambda>r. - created r) rows)) of
             Inl e \<Rightarrow> Inl e
           | Inr xs \<Rightarrow> Inr (xs, n)))"

definition ListByUser :: "contrib_env \<Rightarrow> uuid \<Rightarrow> int64 \<Rightarrow> int64 \<Rightarrow> circles_db \<Rightarrow> (raw_contrib list \<times> nat) result" where
  "ListByUser env u page limit d =
     counted_page env (KQ_CountByUser u) (KQ_ListByUser u) ''counting user contributions'' ''listing user contributions''
       (filter (\<lambda>c. CB_UserID c = u) (B_contribs d)) CB_CreatedAt page limit"

definition ListByCircle :: "contrib_env \<Rightarrow> uuid \<Rightarrow> int64 \<Rightarrow> int64 \<Rightarrow> circles_db \<Rightarrow> (raw_contrib list \<times> nat) result" where
  "ListByCircle env i page limit d =
     counted_page env (KQ_CountByCircle i) (KQ_ListByCircle i) ''counting circle contributions'' ''listing circle contributions''
       (filter (\<lambda>c. CB_CircleID c = i) (B_contribs d)) CB_CreatedAt page limit"

section \<open>Service\<close>

definition contrib_WithTransaction :: "contrib_env \<Rightarrow> 'a op \<Rightarrow> 'a op" where
  "contrib_WithTransaction env fn d =
     (case fault env KQ_Begin of
        Some e \<Rightarrow> (Inl (Wrap ''beginning transaction'' e), d)
      | None \<Rightarrow> transaction env KQ_Commit fn d)"

definition parse_wrapped :: "('q, 'z) env_scheme \<Rightarrow> string \<Rightarrow> string \<Rightarrow> uuid result" where
  "parse_wrapped env m x =
     (case uuid_Parse env x of None \<Rightarrow> Inl (Wrap m (Driver ''invalid UUID'')) | Some u \<Rightarrow> Inr u)"

definition payout_begun :: "contrib_env \<Rightarrow> contrib_service \<Rightarrow> RecordInput \<Rightarrow> bool" where
  "payout_begun env s input =
     (RI_PayoutScheduled input
      \<or> (has_payoutChecker s \<and> IsPayoutScheduled env (RI_CircleID input) (RI_RoundNumber input) = Inr True))"

definition ended_check :: "contrib_env \<Rightarrow> contrib_service \<Rightarrow> RecordInput \<Rightarrow> circles_db \<Rightarrow> unit result" where
  "ended_check env s input d =
     (if has_circleService s then
        (case wrap_err ''getting circle'' (Get (on_circle env) (RI_CircleID input) d) of
           Inl e \<Rightarrow> Inl e
         | Inr cir \<Rightarrow> if C_Status cir = CircleStatusCompleted \<or> C_Status cir = CircleStatusCancelled
                      then Inl (Sentinel App_ErrCircleEnded) else Inr ())
      else Inr ())"

text \<open>The verification state: overridden by the caller, or asked from Horizon.\<close>

definition verification :: "contrib_env \<Rightarrow> contrib_service \<Rightarrow> RecordInput \<Rightarrow> (bool \<times> string) result" where
  "verification env s input =
     (if has_horizon s \<and> RI_TxnHash input \<noteq> [] \<and> RI_VerifiedOnchain input = None \<and> RI_VerificationStatus input = None then
        (case wrap_err ''invalid contribution amount'' (FromFloat64 (RI_Amount input)) of
           Inl e \<Rightarrow> Inl e
         | Inr amt \<Rightarrow>
             (case VerifyTransaction env (RI_TxnHash input) (masterPublicKey s) (String amt) of
                Inl e \<Rightarrow> Inr (False, VerificationStatusPending)
              | Inr ok \<Rightarrow>
                  if \<not> ok then Inl (Errorf (''on-chain verification failed: txnHash '' @ RI_TxnHash input
                    @ '' does not match expected sender/amount''))
                  else Inr (True, VerificationStatusVerified)))
      else Inr (with_default (RI_VerifiedOnchain input) False,
                with_default (RI_VerificationStatus input) VerificationStatusUnverified))"

definition on_time :: "contrib_env \<Rightarrow> contrib_service \<Rightarrow> RecordInput \<Rightarrow> circles_db \<Rightarrow> bool result" where
  "on_time env s input d =
     (if has_circleService s then
        (case wrap_err ''checking membership'' (IsMember (on_circle env) (RI_CircleID input) (RI_UserID input) d) of
           Inl e \<Rightarrow> Inl e
         | Inr ok \<Rightarrow>
             if \<not> ok then Inl (Errorf ''user is not a member of this circle'')
             else (case wrap_err ''getting circle'' (Get (on_circle env) (RI_CircleID input) d) of
                     Inl e \<Rightarrow> Inl e
                   | Inr cir \<Rightarrow> Inr (RI_RoundNumber input \<ge> 1 \<and> RI_RoundNumber input \<le> C_CurrentRound cir)))
      else Inr (RI_RoundNumber input \<ge> 1))"

definition new_contribution :: "contrib_env \<Rightarrow> RecordInput \<Rightarrow> uuid \<Rightarrow> uuid \<Rightarrow> bool \<Rightarrow> string \<Rightarrow> bool \<Rightarrow> raw_contrib" where
  "new_contribution env input cid uid verified vstatus ontime =
     \<lparr>CB_ID = uuid_New env 0, CB_CircleID = cid, CB_UserID = uid, CB_RoundNumber = RI_RoundNumber input,
      CB_Amount = RI_Amount input, CB_TxnHash = (if RI_TxnHash input \<noteq> [] then Some (RI_TxnHash input) else None),
      CB_Status = (if verified then StatusConfirmed else StatusPending), CB_OnTime = ontime,
      CB_VerifiedOnchain = verified, CB_VerificationStatus = vstatus, CB_CreatedAt = now env\<rparr>"

text \<open>Saving: on a conflict the row with the same hash is returned instead.\<close>

definition save_contribution :: "contrib_env \<Rightarrow> contrib_service \<Rightarrow> RecordInput \<Rightarrow> raw_contrib \<Rightarrow> raw_contrib op" where
  "save_contribution env s input c d =
     (case Contrib_Create env c d of
        (Inl e, d') \<Rightarrow>
          (if e = Sentinel App_ErrConflict \<and> is_ok (FindByTxnHash env (RI_TxnHash input) d')
           then FindByTxnHash env (RI_TxnHash input) d' else Inl (Wrap ''saving contribution'' e), d')
      | (Inr _, d') \<Rightarrow>
          (Inr c, log_if (has_contrib_broadcaster s)
             (ContributionRecorded (RI_CircleID input) (RI_UserID input) (RI_RoundNumber input) (RI_Amount input)) d'))"

definition Contrib_Record :: "contrib_env \<Rightarrow> contrib_service \<Rightarrow> RecordInput \<Rightarrow> raw_contrib op" where
  "Contrib_Record env s input d =
     attempt (parse_wrapped env ''invalid circleID'' (RI_CircleID input)) d (\<lambda>cid.
     attempt (parse_wrapped env ''invalid userID'' (RI_UserID input)) d (\<lambda>uid.
     guard (payout_begun env s input) (Sentinel App_ErrLateContributionRejected) d (
     attempt (ended_check env s input d) d (\<lambda>_.
     if RI_TxnHash input \<noteq> [] \<and> is_ok (FindByTxnHash env (RI_TxnHash input) d)
     then (FindByTxnHash env (RI_TxnHash input) d, d)
     else
       attempt (verification env s input) d (\<lambda>(verified, vstatus).
       attempt (on_time env s input d) d (\<lambda>ontime.
       save_contribution env s input (new_contribution env input cid uid verified vstatus ontime) d))))))"

definition GetUserHistory :: "contrib_env \<Rightarrow> string \<Rightarrow> int64 \<Rightarrow> int64 \<Rightarrow> circles_db \<Rightarrow> (raw_contrib list \<times> nat) result" where
  "GetUserHistory env userID page limit d =
     (case parse_wrapped env ''invalid userID'' userID of Inl e \<Rightarrow> Inl e | Inr u \<Rightarrow> ListByUser env u page limit d)"

definition GetCircleHistory :: "contrib_env \<Rightarrow> string \<Rightarrow> int64 \<Rightarrow> int64 \<Rightarrow> circles_db \<Rightarrow> (raw_contrib list \<times> nat) result" where
  "GetCircleHistory env circleID page limit d =
     (case parse_wrapped env ''invalid circleID'' circleID of Inl e \<Rightarrow> Inl e | Inr i \<Rightarrow> ListByCircle env i page limit d)"

definition UpdateVerification :: "contrib_env \<Rightarrow> string \<Rightarrow> bool \<Rightarrow> string \<Rightarrow> unit op" where
  "UpdateVerification env i verified st d =
     attempt (parse_wrapped env ''invalid contribution ID'' i) d (\<lambda>uid. UpdateVerificationStatus env uid verified st d)"

section \<open>Lemmas\<close>

lemma scanContribution_Inr: "scanContribution r = Inr c \<longleftrightarrow> r = Inr (Some c)"
  by (auto simp: scanContribution_def split: sum.splits option.splits if_splits)

lemma Contrib_Create_Inr: "Contrib_Create env c d = (Inr y, v) \<Longrightarrow>
    v = d\<lparr>B_contribs := B_contribs d @ [c]\<rparr> \<and>
    (\<forall>r \<in> set (B_contribs d). CB_ID r \<noteq> CB_ID c \<and> contrib_key r \<noteq> contrib_key c \<and> (CB_TxnHash c = None \<or> CB_TxnHash r \<noteq> CB_TxnHash c))"
  by (auto simp: Contrib_Create_def exec_stmt_def split: option.splits if_splits prod.splits sum.splits)

lemma Contrib_Create_Inl: "Contrib_Create env c d = (Inl e, v) \<Longrightarrow> v = d"
  by (auto simp: Contrib_Create_def exec_stmt_def split: option.splits if_splits prod.splits sum.splits)

lemma FindByTxnHash_Inr:
  "FindByTxnHash env h d = Inr c \<Longrightarrow> c \<in> set (B_contribs d) \<and> CB_TxnHash c = Some h"
  by (auto simp: FindByTxnHash_def scanContribution_Inr run_query_Inr dest: find_Some_D)

interpretation contribs: hash_ledger Contrib_Create FindByTxnHash B_contribs CB_TxnHash
  by unfold_locales (auto dest: FindByTxnHash_Inr Contrib_Create_Inr Contrib_Create_Inl)

lemma parse_wrapped_Inr: "parse_wrapped env m x = Inr u \<longleftrightarrow> uuid_Parse env x = Some u"
  by (simp add: parse_wrapped_def split: option.splits)

text \<open>The two ways \<^verbatim>\<open>Record\<close> can succeed.\<close>

lemma Record_Inr:
  assumes "Contrib_Record env s input d = (Inr c, d')"
  obtains (replay) "d' = d" "c \<in> set (B_contribs d)"
      "CB_TxnHash c = Some (RI_TxnHash input)"
    | (fresh) cid uid verified vstatus ontime where "uuid_Parse env (RI_CircleID input) = Some cid"
      "uuid_Parse env (RI_UserID input) = Some uid" "verification env s input = Inr (verified, vstatus)"
      "on_time env s input d = Inr ontime" "c = new_contribution env input cid uid verified vstatus ontime"
      "B_contribs d' = B_contribs d @ [c]" "B_circles d' = B_circles d" "B_members d' = B_members d"
      "\<forall>r \<in> set (B_contribs d). CB_ID r \<noteq> CB_ID c \<and> contrib_key r \<noteq> contrib_key c \<and> (CB_TxnHash c = None \<or> CB_TxnHash r \<noteq> CB_TxnHash c)"
proof -
  from assms obtain cid uid where p: "uuid_Parse env (RI_CircleID input) = Some cid" "uuid_Parse env (RI_UserID input) = Some uid"
    and rest: "(if RI_TxnHash input \<noteq> [] \<and> is_ok (FindByTxnHash env (RI_TxnHash input) d)
     then (FindByTxnHash env (RI_TxnHash input) d, d)
     else attempt (verification env s input) d (\<lambda>(verified, vstatus).
       attempt (on_time env s input d) d (\<lambda>ontime.
       save_contribution env s input (new_contribution env input cid uid verified vstatus ontime) d))) = (Inr c, d')"
    by (auto simp: Contrib_Record_def attempt_Inr guard_Inr parse_wrapped_Inr)
  show thesis
  proof (cases "RI_TxnHash input \<noteq> [] \<and> is_ok (FindByTxnHash env (RI_TxnHash input) d)")
    case True
    then show ?thesis using rest FindByTxnHash_Inr replay by auto
  next
    case False
    then obtain verified vstatus ontime where v: "verification env s input = Inr (verified, vstatus)"
        "on_time env s input d = Inr ontime"
      and sv: "save_contribution env s input (new_contribution env input cid uid verified vstatus ontime) d = (Inr c, d')"
      using rest by (auto simp: attempt_Inr)
    let ?c = "new_contribution env input cid uid verified vstatus ontime"
    show ?thesis
    proof (cases "fst (Contrib_Create env ?c d)")
      case (Inl e)
      then have "FindByTxnHash env (RI_TxnHash input) d = Inr c" "d' = d"
        using sv Contrib_Create_Inl [of env ?c d] by (auto simp: save_contribution_def split: prod.splits sum.splits if_splits)
      then show ?thesis using FindByTxnHash_Inr [of env "RI_TxnHash input" d c] replay by blast
    next
      case (Inr y)
      then obtain w where w: "Contrib_Create env ?c d = (Inr y, w)" by (cases "Contrib_Create env ?c d") auto
      then have "c = ?c" "B_contribs d' = B_contribs w" "B_circles d' = B_circles w" "B_members d' = B_members w"
        using sv by (auto simp: save_contribution_def log_if_def)
      then show ?thesis using fresh [OF p v] Contrib_Create_Inr [OF w] by auto
    qed
  qed
qed

lemma Record_Inl: "fst (Contrib_Record env s input d) = Inl e \<Longrightarrow> snd (Contrib_Record env s input d) = d"
proof -
  have save: "snd (save_contribution env s input c d) = d" if "fst (save_contribution env s input c d) = Inl e" for c
    using that Contrib_Create_Inl [of env c d] by (auto simp: save_contribution_def split: prod.splits sum.splits)
  show "fst (Contrib_Record env s input d) = Inl e \<Longrightarrow> ?thesis"
    by (auto simp: Contrib_Record_def attempt_def guard_def save split: sum.splits if_splits)
qed

lemma ended_check_Inr: "has_circleService s \<Longrightarrow> ended_check env s input d = Inr () \<Longrightarrow>
    \<exists>c. Get (on_circle env) (RI_CircleID input) d = Inr c \<and> C_Status c \<noteq> CircleStatusCompleted \<and> C_Status c \<noteq> CircleStatusCancelled"
  by (auto simp: ended_check_def split: sum.splits if_splits)

lemma Get_Inr: "Get env i d = Inr c \<longleftrightarrow> (\<exists>cid r. uuid_Parse env i = Some cid \<and> fault env (CQ_FindByID cid) = None
    \<and> find_circle d cid = Some r \<and> c = read_circle d r)"
  by (auto simp: Get_def parseUUID_Inr FindByID_Inr split: sum.splits if_splits)
     (metis FindByID_Inr parseUUID_Inr sum.exhaust sum.sel sum.disc)+

lemma IsMember_True: "IsMember env i u d = Inr True \<Longrightarrow>
    \<exists>cid uid m. uuid_Parse env i = Some cid \<and> uuid_Parse env u = Some uid \<and> find_member d cid uid = Some m
      \<and> CM_Status m = MemberStatusActive"
  by (auto simp: IsMember_def parseUUID_def FindMember_Inr split: sum.splits option.splits if_splits)

text \<open>
  C7: recording a contribution: a successful \<^verbatim>\<open>Record\<close> either returns the stored contribution with the
  submitted hash and changes nothing, or appends one row for a user who is an active member of a
  circle that is neither completed nor cancelled, whose payout has not begun and who had no
  contribution in that round; the row is confirmed exactly when it was verified on chain.
\<close>

theorem Contrib_Record_effect:
  assumes "Contrib_Record env s input d = (Inr c, d')" "has_circleService s"
    and "uuid_Parse (on_circle env) = uuid_Parse env"
  shows "(d' = d \<and> c \<in> set (B_contribs d) \<and> CB_TxnHash c = Some (RI_TxnHash input))
    \<or> (B_contribs d' = B_contribs d @ [c] \<and> B_circles d' = B_circles d \<and> B_members d' = B_members d
       \<and> contrib_key c \<notin> contrib_key ` set (B_contribs d) \<and> \<not> payout_begun env s input
       \<and> CB_RoundNumber c = RI_RoundNumber input \<and> CB_Amount c = RI_Amount input
       \<and> CB_Status c = (if CB_VerifiedOnchain c then StatusConfirmed else StatusPending)
       \<and> (\<exists>r m. find_circle d (CB_CircleID c) = Some r
            \<and> C_Status r \<noteq> CircleStatusCompleted \<and> C_Status r \<noteq> CircleStatusCancelled
            \<and> find_member d (CB_CircleID c) (CB_UserID c) = Some m \<and> CM_Status m = MemberStatusActive
            \<and> CB_OnTime c = (1 \<le> CB_RoundNumber c \<and> CB_RoundNumber c \<le> C_CurrentRound r)))"
  using assms(1)
proof (cases rule: Record_Inr)
  case (fresh cid uid verified vstatus ontime)
  have guards: "\<not> payout_begun env s input" "ended_check env s input d = Inr ()"
    using assms(1) by (auto simp: Contrib_Record_def attempt_Inr guard_Inr)
  from ended_check_Inr [OF assms(2) guards(2)] obtain r where r: "find_circle d cid = Some r"
      "C_Status r \<noteq> CircleStatusCompleted" "C_Status r \<noteq> CircleStatusCancelled"
    using fresh(1) assms(3) by (auto simp: Get_Inr)
  from fresh(4) assms(2) have mem: "IsMember (on_circle env) (RI_CircleID input) (RI_UserID input) d = Inr True"
    and ot: "ontime = (1 \<le> RI_RoundNumber input \<and> RI_RoundNumber input \<le> C_CurrentRound r)"
    using r(1) fresh(1) assms(3) by (auto simp: on_time_def Get_Inr split: sum.splits if_splits)
  from IsMember_True [OF mem] obtain m where m: "find_member d cid uid = Some m" "CM_Status m = MemberStatusActive"
    using fresh(1,2) assms(3) by auto
  show ?thesis
    using fresh(5-9) guards(1) r m ot by (auto simp: new_contribution_def)
qed simp

text \<open>
  A transaction hash is recorded once: after a \<^verbatim>\<open>Record\<close> that returned a contribution for a hash, every
  later \<^verbatim>\<open>Record\<close> with that hash, from whomever, for whatever circle and with any failures, adds
  nothing, and when it succeeds it returns that same contribution.
\<close>

theorem Contrib_Record_idempotent:
  assumes "distinct (filter (\<lambda>h. h \<noteq> None) (map CB_TxnHash (B_contribs d)))"
    and "Contrib_Record env s input d = (Inr c, d')" "RI_TxnHash input \<noteq> []"
    and "RI_TxnHash input' = RI_TxnHash input"
  shows "B_contribs (snd (Contrib_Record env' s' input' d')) = B_contribs d'
    \<and> (\<forall>c'. fst (Contrib_Record env' s' input' d') = Inr c' \<longrightarrow> c' = c)"
proof -
  have c: "c \<in> set (B_contribs d') \<and> CB_TxnHash c = Some (RI_TxnHash input) \<and> contribs.hashes_distinct d'"
    using assms(2)
  proof (cases rule: Record_Inr)
    case (fresh cid uid verified vstatus ontime)
    then have "CB_TxnHash c = Some (RI_TxnHash input)" using assms(3) by (simp add: new_contribution_def)
    moreover have "contribs.hashes_distinct d'"
      using fresh(6,9) assms(1) calculation by (auto simp: contribs.hashes_distinct_def)
    ultimately show ?thesis using fresh(6) by simp
  qed (use assms(1) in \<open>simp_all add: contribs.hashes_distinct_def\<close>)
  have none: "B_contribs d2 = B_contribs d' \<and> c' = c" if "Contrib_Record env' s' input' d' = (Inr c', d2)" for c' d2
    using that
  proof (cases rule: Record_Inr)
    case replay
    then show ?thesis using contribs.hash_unique [of d' c' c] c assms(4) by simp
  next
    case (fresh cid uid verified vstatus ontime)
    then have "CB_TxnHash c' = Some (RI_TxnHash input)" using assms(3,4) by (simp add: new_contribution_def)
    with fresh(9) c show ?thesis by auto
  qed
  moreover have "B_contribs (snd (Contrib_Record env' s' input' d')) = B_contribs d'"
    if "fst (Contrib_Record env' s' input' d') = Inl e" for e
    using Record_Inl [OF that] by simp
  ultimately show ?thesis
    by (cases "Contrib_Record env' s' input' d'"; cases "fst (Contrib_Record env' s' input' d')") auto
qed

section \<open>Demonstration\<close>

definition demo_kenv :: contrib_env where
  "demo_kenv = \<lparr>uuid_Parse = demo_parse, uuid_String = (\<lambda>_. []), uuid_New = (\<lambda>n. 500 + of_nat n), now = 9, fault = (\<lambda>_. None),
     on_circle = demo_cenv, IsPayoutScheduled = (\<lambda>_ _. Inr False), VerifyTransaction = (\<lambda>_ _ _. Inr True)\<rparr>"

definition demo_ksvc :: contrib_service where
  "demo_ksvc = \<lparr>has_contrib_broadcaster = True, has_horizon = True, has_payoutChecker = True, masterPublicKey = ''G'', has_circleService = True\<rparr>"

definition demo_pay :: RecordInput where
  "demo_pay = \<lparr>RI_CircleID = ''k'', RI_UserID = ''a'', RI_RoundNumber = 1, RI_Amount = Finite 10, RI_TxnHash = ''h'',
     RI_PayoutScheduled = False, RI_VerifiedOnchain = Some True, RI_VerificationStatus = Some ''verified''\<rparr>"

definition demo_paid :: circles_db where
  "demo_paid = snd (Contrib_Record demo_kenv demo_ksvc demo_pay demo_active)"

definition demo_contribution :: raw_contrib where
  "demo_contribution = new_contribution demo_kenv demo_pay 100 2 True ''verified'' True"

lemma demo_paid_ok: "Contrib_Record demo_kenv demo_ksvc demo_pay demo_active = (Inr demo_contribution, demo_paid)"
  unfolding demo_paid_def by (rule prod_eqI) (code_simp, simp)

theorem Contrib_Record_effect_witness:
  "B_contribs demo_paid = B_contribs demo_active @ [demo_contribution]
   \<and> (\<exists>m. find_member demo_active (CB_CircleID demo_contribution) (CB_UserID demo_contribution) = Some m \<and> CM_Status m = MemberStatusActive)"
proof -
  have "uuid_Parse (on_circle demo_kenv) = uuid_Parse demo_kenv" by (simp add: demo_kenv_def demo_cenv_def)
  moreover have "B_contribs demo_active = []" by code_simp
  ultimately show ?thesis
    using Contrib_Record_effect [OF demo_paid_ok] by (auto simp: demo_ksvc_def)
qed

theorem Contrib_Record_idempotent_witness:
  "B_contribs (snd (Contrib_Record demo_kenv demo_ksvc (demo_pay\<lparr>RI_UserID := ''b''\<rparr>) demo_paid)) = B_contribs demo_paid
   \<and> fst (Contrib_Record demo_kenv demo_ksvc (demo_pay\<lparr>RI_UserID := ''b''\<rparr>) demo_paid) = Inr demo_contribution"
proof
  have "B_contribs demo_active = []" by code_simp
  then show "B_contribs (snd (Contrib_Record demo_kenv demo_ksvc (demo_pay\<lparr>RI_UserID := ''b''\<rparr>) demo_paid)) = B_contribs demo_paid"
    using Contrib_Record_idempotent [OF _ demo_paid_ok, of "demo_pay\<lparr>RI_UserID := ''b''\<rparr>" demo_kenv demo_ksvc]
    by (simp add: demo_pay_def)
qed code_simp

end
