(* ===== verification/Payout.thy ===== *)
theory Payout
  imports Contribution
begin

text \<open>
  \<^verbatim>\<open>internal/domain/payout\<close>: recording what members receive.

  A payout extends the stored row \<open>raw_payout\<close> with \<^verbatim>\<open>OnTime\<close>, which the service computes and
  returns but which is not a column: a payout that is read back has the zero value \<open>False\<close>.
\<close>

section \<open>Model and environment\<close>

record payout = raw_payout +
  PT_OnTime :: bool

definition scanned :: "raw_payout \<Rightarrow> payout" where
  "scanned r = raw_payout.extend r \<lparr>PT_OnTime = False\<rparr>"

definition stored_row :: "payout \<Rightarrow> raw_payout" where
  "stored_row p = raw_payout.truncate p"

datatype payout_stmt =
    YQ_FindByID uuid
  | YQ_FindByTxnHash string
  | YQ_Insert uuid
  | YQ_UpdateVerification uuid
  | YQ_CountByUser uuid
  | YQ_ListByUser uuid
  | YQ_CountByCircle uuid
  | YQ_ListByCircle uuid

record payout_env = "payout_stmt env" +
  via_circle :: cenv
  VerifyPayment :: "string \<Rightarrow> string \<Rightarrow> string \<Rightarrow> bool result"
  WalletAddressForUser :: "uuid \<Rightarrow> string result"

record payout_service =
  pays_horizon :: bool
  pays_walletLookup :: bool
  pays_circleService :: bool

record PayoutInput =
  PI_CircleID :: string
  PI_RecipientID :: string
  PI_RoundNumber :: int
  PI_Amount :: float64
  PI_FeeAmount :: float64
  PI_TxnHash :: string
  PI_PayoutType :: string
  PI_VerifiedOnchain :: "bool option"
  PI_VerificationStatus :: "string option"

section \<open>Repository\<close>

definition scanPayout :: "raw_payout option result \<Rightarrow> payout result" where
  "scanPayout r =
     (case r of
        Inl e \<Rightarrow> if e = Sentinel Sql_ErrNoRows then Inl (Sentinel App_ErrNotFound)
                else Inl (Wrap ''scanning payout row'' e)
      | Inr None \<Rightarrow> Inl (Sentinel App_ErrNotFound)
      | Inr (Some p) \<Rightarrow> Inr (scanned p))"

definition Payout_FindByID :: "payout_env \<Rightarrow> uuid \<Rightarrow> circles_db \<Rightarrow> payout result" where
  "Payout_FindByID env i d =
     scanPayout (run_query env (YQ_FindByID i) (List.find (\<lambda>p. PO_ID p = i) (B_payouts d)))"

definition Payout_FindByTxnHash :: "payout_env \<Rightarrow> string \<Rightarrow> circles_db \<Rightarrow> payout result" where
  "Payout_FindByTxnHash env h d =
     scanPayout (run_query env (YQ_FindByTxnHash h) (List.find (\<lambda>p. PO_TxnHash p = Some h) (B_payouts d)))"

text \<open>The insert names the column \<^verbatim>\<open>created_at\<close>, which no migration adds to the table, see \<open>Schema\<close>.\<close>

definition Payout_Create :: "payout_env \<Rightarrow> payout \<Rightarrow> circles_db \<Rightarrow> unit result \<times> circles_db" where
  "Payout_Create env p d =
     (case exec_stmt env (YQ_Insert (PO_ID p))
             (\<lambda>d. if \<exists>r \<in> set (B_payouts d). PO_ID r = PO_ID p \<or> (PO_TxnHash p \<noteq> None \<and> PO_TxnHash r = PO_TxnHash p)
                  then Some unique_violation else None)
             (\<lambda>d. d\<lparr>B_payouts := B_payouts d @ [stored_row p]\<rparr>) d of
        (Inl e, d') \<Rightarrow>
          (if isUniqueViolationPg e then Inl (Sentinel App_ErrConflict) else Inl (Wrap ''creating payout'' e), d')
      | (Inr u, d') \<Rightarrow> (Inr u, d'))"

definition Payout_UpdateVerificationStatus :: "payout_env \<Rightarrow> uuid \<Rightarrow> bool \<Rightarrow> string \<Rightarrow> circles_db \<Rightarrow> unit result \<times> circles_db" where
  "Payout_UpdateVerificationStatus env i verified st d =
     perform (wrap_call ''updating payout verification status''
       (exec_stmt env (YQ_UpdateVerification i) no_check
          (\<lambda>d. d\<lparr>B_payouts := update_where (\<lambda>r. PO_ID r = i)
             (\<lambda>r. r\<lparr>PO_VerifiedOnchain := verified, PO_VerificationStatus := st\<rparr>) (B_payouts d)\<rparr>) d)) (\<lambda>_ d'.
     guard (rows_affected (\<lambda>r. PO_ID r = i) (B_payouts d) = 0) (Sentinel App_ErrNotFound) d' (Inr (), d'))"

definition Payout_ListByUser :: "payout_env \<Rightarrow> uuid \<Rightarrow> int64 \<Rightarrow> int64 \<Rightarrow> circles_db \<Rightarrow> (payout list \<times> nat) result" where
  "Payout_ListByUser env u page limit d =
     counted_page env (YQ_CountByUser u) (YQ_ListByUser u) ''counting user payouts'' ''listing user payouts''
       (map scanned (filter (\<lambda>p. PO_RecipientID p = u) (B_payouts d))) PO_CreatedAt page limit"

definition Payout_ListByCircle :: "payout_env \<Rightarrow> uuid \<Rightarrow> int64 \<Rightarrow> int64 \<Rightarrow> circles_db \<Rightarrow> (payout list \<times> nat) result" where
  "Payout_ListByCircle env i page limit d =
     counted_page env (YQ_CountByCircle i) (YQ_ListByCircle i) ''counting circle payouts'' ''listing circle payouts''
       (map scanned (filter (\<lambda>p. PO_CircleID p = i) (B_payouts d))) PO_CreatedAt page limit"

section \<open>Service\<close>

definition payout_on_time :: "payout_env \<Rightarrow> payout_service \<Rightarrow> PayoutInput \<Rightarrow> circles_db \<Rightarrow> bool result" where
  "payout_on_time env s input d =
     (if pays_circleService s then
        (case wrap_err ''checking membership'' (IsMember (via_circle env) (PI_CircleID input) (PI_RecipientID input) d) of
           Inl e \<Rightarrow> Inl e
         | Inr ok \<Rightarrow>
             if \<not> ok then Inl (Errorf ''recipient is not a member of this circle'')
             else (case wrap_err ''getting circle'' (Get (via_circle env) (PI_CircleID input) d) of
                     Inl e \<Rightarrow> Inl e
                   | Inr cir \<Rightarrow> Inr (PI_RoundNumber input \<ge> 1 \<and> PI_RoundNumber input \<le> C_CurrentRound cir)))
      else Inr (PI_RoundNumber input \<ge> 1))"

definition resolveRecipientWallet :: "payout_env \<Rightarrow> payout_service \<Rightarrow> uuid \<Rightarrow> string result" where
  "resolveRecipientWallet env s u =
     (if \<not> pays_walletLookup s then Inl (Errorf ''no wallet lookup available'') else WalletAddressForUser env u)"

definition payout_verification :: "payout_env \<Rightarrow> payout_service \<Rightarrow> PayoutInput \<Rightarrow> uuid \<Rightarrow> (bool \<times> string) result" where
  "payout_verification env s input recipient =
     (if pays_horizon s \<and> PI_TxnHash input \<noteq> [] \<and> PI_VerifiedOnchain input = None \<and> PI_VerificationStatus input = None then
        (case resolveRecipientWallet env s recipient of
           Inl e \<Rightarrow> Inr (False, VerificationStatusPending)
         | Inr wallet \<Rightarrow>
             (case wrap_err ''invalid payout amount'' (FromFloat64 (PI_Amount input)) of
                Inl e \<Rightarrow> Inl e
              | Inr amt \<Rightarrow>
                  (case VerifyPayment env (PI_TxnHash input) wallet (String amt) of
                     Inl e \<Rightarrow> Inr (False, VerificationStatusPending)
                   | Inr ok \<Rightarrow>
                       if \<not> ok then Inl (Errorf (''on-chain verification failed: txnHash '' @ PI_TxnHash input
                         @ '' does not match recipient/amount''))
                       else Inr (True, VerificationStatusVerified))))
      else Inr (with_default (PI_VerifiedOnchain input) False,
                with_default (PI_VerificationStatus input) VerificationStatusUnverified))"

text \<open>The guard against a second payout looks at the newest hundred of the circle; a failed listing counts as empty.\<close>

definition duplicate_payout :: "payout_env \<Rightarrow> PayoutInput \<Rightarrow> uuid \<Rightarrow> uuid \<Rightarrow> circles_db \<Rightarrow> payout option" where
  "duplicate_payout env input cid recipient d =
     List.find (\<lambda>p. PO_RecipientID p = recipient \<and> PO_RoundNumber p = PI_RoundNumber input)
       (case Payout_ListByCircle env cid 1 100 d of Inl e \<Rightarrow> [] | Inr (ps, n) \<Rightarrow> ps)"

definition new_payout :: "payout_env \<Rightarrow> PayoutInput \<Rightarrow> uuid \<Rightarrow> uuid \<Rightarrow> bool \<Rightarrow> string \<Rightarrow> bool \<Rightarrow> payout" where
  "new_payout env input cid recipient verified vstatus ontime =
     \<lparr>PO_ID = uuid_New env 0, PO_CircleID = cid, PO_RecipientID = recipient, PO_RoundNumber = PI_RoundNumber input,
      PO_Amount = PI_Amount input, PO_FeeAmount = PI_FeeAmount input,
      PO_TxnHash = (if PI_TxnHash input \<noteq> [] then Some (PI_TxnHash input) else None),
      PO_PayoutType = PI_PayoutType input, PO_VerifiedOnchain = verified, PO_VerificationStatus = vstatus,
      PO_CreatedAt = now env, PT_OnTime = ontime\<rparr>"

definition save_payout :: "payout_env \<Rightarrow> PayoutInput \<Rightarrow> payout \<Rightarrow> payout op" where
  "save_payout env input p d =
     (case Payout_Create env p d of
        (Inl e, d') \<Rightarrow>
          (if e = Sentinel App_ErrConflict \<and> PI_TxnHash input \<noteq> [] \<and> is_ok (Payout_FindByTxnHash env (PI_TxnHash input) d')
           then Payout_FindByTxnHash env (PI_TxnHash input) d' else Inl (Wrap ''saving payout'' e), d')
      | (Inr _, d') \<Rightarrow> (Inr p, d'))"

definition Payout_Record :: "payout_env \<Rightarrow> payout_service \<Rightarrow> PayoutInput \<Rightarrow> payout op" where
  "Payout_Record env s input d =
     attempt (parse_wrapped env ''invalid circleID'' (PI_CircleID input)) d (\<lambda>cid.
     attempt (parse_wrapped env ''invalid recipientID'' (PI_RecipientID input)) d (\<lambda>recipient.
     if PI_TxnHash input \<noteq> [] \<and> is_ok (Payout_FindByTxnHash env (PI_TxnHash input) d)
     then (Payout_FindByTxnHash env (PI_TxnHash input) d, d)
     else
       attempt (payout_on_time env s input d) d (\<lambda>ontime.
       attempt (payout_verification env s input recipient) d (\<lambda>(verified, vstatus).
       case duplicate_payout env input cid recipient d of
         Some p \<Rightarrow> (Inr p, d)
       | None \<Rightarrow> save_payout env input (new_payout env input cid recipient verified vstatus ontime) d))))"

definition Payout_GetUserHistory :: "payout_env \<Rightarrow> string \<Rightarrow> int64 \<Rightarrow> int64 \<Rightarrow> circles_db \<Rightarrow> (payout list \<times> nat) result" where
  "Payout_GetUserHistory env userID page limit d =
     (case parse_wrapped env ''invalid userID'' userID of Inl e \<Rightarrow> Inl e | Inr u \<Rightarrow> Payout_ListByUser env u page limit d)"

definition Payout_GetCircleHistory :: "payout_env \<Rightarrow> string \<Rightarrow> int64 \<Rightarrow> int64 \<Rightarrow> circles_db \<Rightarrow> (payout list \<times> nat) result" where
  "Payout_GetCircleHistory env circleID page limit d =
     (case parse_wrapped env ''invalid circleID'' circleID of Inl e \<Rightarrow> Inl e | Inr i \<Rightarrow> Payout_ListByCircle env i page limit d)"

definition Payout_UpdateVerification :: "payout_env \<Rightarrow> string \<Rightarrow> bool \<Rightarrow> string \<Rightarrow> unit op" where
  "Payout_UpdateVerification env i verified st d =
     attempt (parse_wrapped env ''invalid payout ID'' i) d (\<lambda>uid. Payout_UpdateVerificationStatus env uid verified st d)"

section \<open>Lemmas\<close>

lemma stored_scanned [simp]: "stored_row (scanned r) = r"
  by (simp add: stored_row_def scanned_def raw_payout.defs)

lemma scanned_simps [simp]:
  "PO_RecipientID (scanned r) = PO_RecipientID r" "PO_RoundNumber (scanned r) = PO_RoundNumber r"
  "PO_TxnHash (scanned r) = PO_TxnHash r" "PO_CircleID (scanned r) = PO_CircleID r" "PO_ID (scanned r) = PO_ID r"
  "PO_CreatedAt (scanned r) = PO_CreatedAt r" "PT_OnTime (scanned r) = False"
  by (simp_all add: scanned_def raw_payout.defs)

lemma stored_row_simps [simp]:
  "PO_RecipientID (stored_row p) = PO_RecipientID p" "PO_RoundNumber (stored_row p) = PO_RoundNumber p"
  "PO_TxnHash (stored_row p) = PO_TxnHash p" "PO_CircleID (stored_row p) = PO_CircleID p" "PO_ID (stored_row p) = PO_ID p"
  by (simp_all add: stored_row_def raw_payout.defs)

lemma scanned_stored: "scanned (stored_row p) = p\<lparr>PT_OnTime := False\<rparr>"
  by (simp add: stored_row_def scanned_def raw_payout.defs)

lemma scanPayout_Inr: "scanPayout r = Inr p \<longleftrightarrow> (\<exists>x. r = Inr (Some x) \<and> p = scanned x)"
  by (auto simp: scanPayout_def split: sum.splits option.splits if_splits)

lemma Payout_FindByTxnHash_Inr: "Payout_FindByTxnHash env h d = Inr p \<Longrightarrow>
    stored_row p \<in> set (B_payouts d) \<and> PO_TxnHash p = Some h \<and> p = scanned (stored_row p)"
  by (auto simp: Payout_FindByTxnHash_def scanPayout_Inr run_query_Inr dest: find_Some_D)

lemma Payout_Create_Inr: "Payout_Create env p d = (Inr y, v) \<Longrightarrow>
    v = d\<lparr>B_payouts := B_payouts d @ [stored_row p]\<rparr>
    \<and> (\<forall>r \<in> set (B_payouts d). PO_ID r \<noteq> PO_ID p \<and> (PO_TxnHash p = None \<or> PO_TxnHash r \<noteq> PO_TxnHash p))"
  by (auto simp: Payout_Create_def exec_stmt_def split: option.splits if_splits prod.splits sum.splits)

lemma Payout_Create_Inl: "Payout_Create env p d = (Inl e, v) \<Longrightarrow> v = d"
  by (auto simp: Payout_Create_def exec_stmt_def split: option.splits if_splits prod.splits sum.splits)

interpretation payouts: hash_ledger "\<lambda>e r. Payout_Create e (scanned r)"
    "\<lambda>e h d. map_sum id stored_row (Payout_FindByTxnHash e h d)" B_payouts PO_TxnHash
proof
  fix e h d r
  assume "map_sum id stored_row (Payout_FindByTxnHash e h d) = Inr r"
  then obtain p where "Payout_FindByTxnHash e h d = Inr p" "r = stored_row p"
    by (cases "Payout_FindByTxnHash e h d") auto
  then show "r \<in> set (B_payouts d) \<and> PO_TxnHash r = Some h" using Payout_FindByTxnHash_Inr by fastforce
qed (auto dest!: Payout_Create_Inr Payout_Create_Inl)

lemma first_page: "page_rows 1 100 rows = Inr (take 100 rows)"
  by (simp add: page_rows_def page_offset_def page_limit_def)

lemma duplicate_payout_None:
  assumes "duplicate_payout env input cid u d = None" "fault env (YQ_CountByCircle cid) = None"
    "fault env (YQ_ListByCircle cid) = None" "length (filter (\<lambda>p. PO_CircleID p = cid) (B_payouts d)) \<le> 100"
    and "r \<in> set (B_payouts d)" "PO_CircleID r = cid"
  shows "\<not> (PO_RecipientID r = u \<and> PO_RoundNumber r = PI_RoundNumber input)"
proof -
  let ?rows = "map scanned (filter (\<lambda>p. PO_CircleID p = cid) (B_payouts d))"
  let ?sorted = "sort_key (\<lambda>p. - PO_CreatedAt p) ?rows"
  have "Payout_ListByCircle env cid 1 100 d = Inr (take 100 ?sorted, length ?rows)"
    using assms(2,3) by (simp add: Payout_ListByCircle_def counted_page_def first_page)
  moreover have "take 100 ?sorted = ?sorted" using assms(4) by simp
  ultimately have none: "List.find (\<lambda>p. PO_RecipientID p = u \<and> PO_RoundNumber p = PI_RoundNumber input) ?sorted = None"
    using assms(1) by (simp add: duplicate_payout_def)
  have "scanned r \<in> set ?sorted" using assms(5,6) by simp
  then have "\<not> (PO_RecipientID (scanned r) = u \<and> PO_RoundNumber (scanned r) = PI_RoundNumber input)"
    using none unfolding find_None_iff by blast
  then show ?thesis by simp
qed

lemma duplicate_payout_Some:
  assumes "duplicate_payout env input cid u d = Some p"
  shows "stored_row p \<in> set (B_payouts d) \<and> PO_CircleID p = cid \<and> PO_RecipientID p = u \<and> PO_RoundNumber p = PI_RoundNumber input"
proof -
  let ?sorted = "sort_key (\<lambda>p. - PO_CreatedAt p) (map scanned (filter (\<lambda>p. PO_CircleID p = cid) (B_payouts d)))"
  have "p \<in> set (take 100 ?sorted)" "PO_RecipientID p = u \<and> PO_RoundNumber p = PI_RoundNumber input"
    using assms find_Some_D [of "\<lambda>p. PO_RecipientID p = u \<and> PO_RoundNumber p = PI_RoundNumber input"]
    by (auto simp: duplicate_payout_def Payout_ListByCircle_def counted_page_def first_page run_query_def
        split: option.splits sum.splits)
  moreover from this(1) have "p \<in> set ?sorted" by (rule in_set_takeD)
  ultimately show ?thesis by auto
qed

text \<open>The three ways \<^verbatim>\<open>Record\<close> can succeed.\<close>

lemma Payout_Record_Inr:
  assumes "Payout_Record env s input d = (Inr p, d')"
  obtains (replay) "d' = d" "stored_row p \<in> set (B_payouts d)" "PO_TxnHash p = Some (PI_TxnHash input)"
    | (duplicate) cid u where "d' = d" "uuid_Parse env (PI_CircleID input) = Some cid" "uuid_Parse env (PI_RecipientID input) = Some u"
      "duplicate_payout env input cid u d = Some p"
    | (fresh) cid u verified vstatus ontime where "uuid_Parse env (PI_CircleID input) = Some cid"
      "uuid_Parse env (PI_RecipientID input) = Some u" "payout_on_time env s input d = Inr ontime"
      "duplicate_payout env input cid u d = None" "p = new_payout env input cid u verified vstatus ontime"
      "d' = d\<lparr>B_payouts := B_payouts d @ [stored_row p]\<rparr>"
      "\<forall>r \<in> set (B_payouts d). PO_ID r \<noteq> PO_ID p \<and> (PO_TxnHash p = None \<or> PO_TxnHash r \<noteq> PO_TxnHash p)"
proof -
  from assms obtain cid u where c: "uuid_Parse env (PI_CircleID input) = Some cid" "uuid_Parse env (PI_RecipientID input) = Some u"
    and rest: "(if PI_TxnHash input \<noteq> [] \<and> is_ok (Payout_FindByTxnHash env (PI_TxnHash input) d)
     then (Payout_FindByTxnHash env (PI_TxnHash input) d, d)
     else attempt (payout_on_time env s input d) d (\<lambda>ontime.
       attempt (payout_verification env s input u) d (\<lambda>(verified, vstatus).
       case duplicate_payout env input cid u d of
         Some p \<Rightarrow> (Inr p, d)
       | None \<Rightarrow> save_payout env input (new_payout env input cid u verified vstatus ontime) d))) = (Inr p, d')"
    by (auto simp: Payout_Record_def attempt_Inr parse_wrapped_Inr)
  show thesis
  proof (cases "PI_TxnHash input \<noteq> [] \<and> is_ok (Payout_FindByTxnHash env (PI_TxnHash input) d)")
    case True
    then show ?thesis using rest Payout_FindByTxnHash_Inr replay by auto
  next
    case False
    then obtain ontime verified vstatus where o: "payout_on_time env s input d = Inr ontime"
      and k: "(case duplicate_payout env input cid u d of Some p \<Rightarrow> (Inr p, d)
         | None \<Rightarrow> save_payout env input (new_payout env input cid u verified vstatus ontime) d) = (Inr p, d')"
      using rest by (auto simp: attempt_Inr)
    let ?p = "new_payout env input cid u verified vstatus ontime"
    show ?thesis
    proof (cases "duplicate_payout env input cid u d")
      case (Some q)
      then show ?thesis using k duplicate c by auto
    next
      case None
      then have sv: "save_payout env input ?p d = (Inr p, d')" using k by simp
      show ?thesis
      proof (cases "fst (Payout_Create env ?p d)")
        case (Inl e)
        then have "Payout_FindByTxnHash env (PI_TxnHash input) d = Inr p" "d' = d"
          using sv Payout_Create_Inl [of env ?p d] by (auto simp: save_payout_def split: prod.splits sum.splits if_splits)
        then show ?thesis using Payout_FindByTxnHash_Inr [of env "PI_TxnHash input" d p] replay by auto
      next
        case (Inr y)
        then obtain w where w: "Payout_Create env ?p d = (Inr y, w)" by (cases "Payout_Create env ?p d") auto
        then have "p = ?p" "d' = w" using sv by (auto simp: save_payout_def)
        then show ?thesis using fresh [OF c o None] Payout_Create_Inr [OF w] by auto
      qed
    qed
  qed
qed

section \<open>Properties\<close>

text \<open>
  C8: recording a payout: a successful \<^verbatim>\<open>Record\<close> either changes nothing and returns a stored payout that
  has the submitted hash or is for the same circle, round and recipient, or appends one row for
  an active member of the circle with a new hash; and while a circle has at most a hundred
  payouts and the listing does not fail, nobody is paid twice in a round.
\<close>

theorem Payout_Record_effect:
  assumes "Payout_Record env s input d = (Inr p, d')" "pays_circleService s" "uuid_Parse (via_circle env) = uuid_Parse env"
  shows "(d' = d \<and> stored_row p \<in> set (B_payouts d) \<and> (PO_TxnHash p = Some (PI_TxnHash input) \<or>
            (uuid_Parse env (PI_CircleID input) = Some (PO_CircleID p) \<and> uuid_Parse env (PI_RecipientID input) = Some (PO_RecipientID p)
             \<and> PO_RoundNumber p = PI_RoundNumber input)))
    \<or> (d' = d\<lparr>B_payouts := B_payouts d @ [stored_row p]\<rparr>
       \<and> (\<forall>r \<in> set (B_payouts d). PO_TxnHash p = None \<or> PO_TxnHash r \<noteq> PO_TxnHash p)
       \<and> (\<exists>m. find_member d (PO_CircleID p) (PO_RecipientID p) = Some m \<and> CM_Status m = MemberStatusActive)
       \<and> (fault env (YQ_CountByCircle (PO_CircleID p)) = None \<and> fault env (YQ_ListByCircle (PO_CircleID p)) = None
            \<and> length (filter (\<lambda>x. PO_CircleID x = PO_CircleID p) (B_payouts d)) \<le> 100 \<longrightarrow>
          (\<forall>r \<in> set (B_payouts d). \<not> (PO_CircleID r = PO_CircleID p \<and> PO_RecipientID r = PO_RecipientID p
             \<and> PO_RoundNumber r = PO_RoundNumber p))))"
  using assms(1)
proof (cases rule: Payout_Record_Inr)
  case (duplicate cid u)
  then show ?thesis using duplicate_payout_Some [OF duplicate(4)] by auto
next
  case (fresh cid u verified vstatus ontime)
  have p: "PO_CircleID p = cid" "PO_RecipientID p = u" "PO_RoundNumber p = PI_RoundNumber input"
    using fresh(5) by (simp_all add: new_payout_def)
  from fresh(3) assms(2) have "IsMember (via_circle env) (PI_CircleID input) (PI_RecipientID input) d = Inr True"
    by (auto simp: payout_on_time_def split: sum.splits if_splits)
  from IsMember_True [OF this] have "\<exists>m. find_member d cid u = Some m \<and> CM_Status m = MemberStatusActive"
    using fresh(1,2) assms(3) by auto
  then show ?thesis using fresh(6,7) duplicate_payout_None [OF fresh(4)] unfolding p by auto
qed simp

text \<open>
  A replayed payout is not the payout that was returned: \<^verbatim>\<open>OnTime\<close> is computed for a new payout but
  not stored, so submitting the same hash again returns the same payout with \<^verbatim>\<open>OnTime\<close> false.
\<close>

theorem payout_replay_loses_on_time:
  assumes "Payout_Record env s input d = (Inr p, d')" "d' \<noteq> d" "PI_TxnHash input \<noteq> []"
    and "fault env' (YQ_FindByTxnHash (PI_TxnHash input)) = None" "uuid_Parse env' = uuid_Parse env"
  shows "Payout_Record env' s' input d' = (Inr (p\<lparr>PT_OnTime := False\<rparr>), d')"
  using assms(1)
proof (cases rule: Payout_Record_Inr)
  case (fresh cid u verified vstatus ontime)
  have h: "PO_TxnHash p = Some (PI_TxnHash input)" using fresh(5) assms(3) by (simp add: new_payout_def)
  have "List.find (\<lambda>r. PO_TxnHash r = Some (PI_TxnHash input)) (B_payouts d) = None"
    using fresh(7) h by (auto simp: find_None_iff)
  then have "Payout_FindByTxnHash env' (PI_TxnHash input) d' = Inr (p\<lparr>PT_OnTime := False\<rparr>)"
    using assms(4) h fresh(6) by (simp add: Payout_FindByTxnHash_def scanPayout_def find_append scanned_stored)
  then show ?thesis using fresh(1,2) assms(3,5) by (simp add: Payout_Record_def parse_wrapped_def)
qed (use assms(2) in auto)

section \<open>Demonstration\<close>

definition demo_yenv :: "nat \<Rightarrow> payout_env" where
  "demo_yenv k = \<lparr>uuid_Parse = demo_parse, uuid_String = (\<lambda>_. []), uuid_New = (\<lambda>n. 700 + of_nat (k + n)), now = 9, fault = (\<lambda>_. None),
     via_circle = demo_cenv, VerifyPayment = (\<lambda>_ _ _. Inr True), WalletAddressForUser = (\<lambda>_. Inr ''W'')\<rparr>"

definition demo_ysvc :: payout_service where
  "demo_ysvc = \<lparr>pays_horizon = True, pays_walletLookup = True, pays_circleService = True\<rparr>"

definition demo_payout :: "string \<Rightarrow> string \<Rightarrow> PayoutInput" where
  "demo_payout u h = \<lparr>PI_CircleID = ''k'', PI_RecipientID = u, PI_RoundNumber = 1, PI_Amount = Finite 30, PI_FeeAmount = Finite 0,
     PI_TxnHash = h, PI_PayoutType = ''vote'', PI_VerifiedOnchain = Some True, PI_VerificationStatus = Some ''verified''\<rparr>"

definition demo_payout_a :: payout where
  "demo_payout_a = new_payout (demo_yenv 0) (demo_payout ''a'' ''p'') 100 2 True ''verified'' True"

definition demo_paid_out :: circles_db where
  "demo_paid_out = snd (Payout_Record (demo_yenv 0) demo_ysvc (demo_payout ''a'' ''p'') demo_active)"

lemma demo_paid_out_ok:
  "Payout_Record (demo_yenv 0) demo_ysvc (demo_payout ''a'' ''p'') demo_active = (Inr demo_payout_a, demo_paid_out)"
  unfolding demo_paid_out_def by (rule prod_eqI) (code_simp, simp)

lemma demo_paid_out_rows: "B_payouts demo_active = []" "length (B_payouts demo_paid_out) = 1"
  by code_simp+

theorem Payout_Record_effect_witness:
  "demo_paid_out = demo_active\<lparr>B_payouts := [stored_row demo_payout_a]\<rparr>
   \<and> (\<exists>m. find_member demo_active (PO_CircleID demo_payout_a) (PO_RecipientID demo_payout_a) = Some m \<and> CM_Status m = MemberStatusActive)"
proof -
  have "uuid_Parse (via_circle (demo_yenv 0)) = uuid_Parse (demo_yenv 0)" by (simp add: demo_yenv_def demo_cenv_def)
  with Payout_Record_effect [OF demo_paid_out_ok] demo_paid_out_rows show ?thesis by (auto simp: demo_ysvc_def)
qed

theorem payout_replay_loses_on_time_witness:
  "PT_OnTime demo_payout_a \<and> Payout_Record (demo_yenv 1) demo_ysvc (demo_payout ''a'' ''p'') demo_paid_out
     = (Inr (demo_payout_a\<lparr>PT_OnTime := False\<rparr>), demo_paid_out)"
proof
  have "demo_paid_out \<noteq> demo_active" using demo_paid_out_rows by auto
  then show "Payout_Record (demo_yenv 1) demo_ysvc (demo_payout ''a'' ''p'') demo_paid_out
     = (Inr (demo_payout_a\<lparr>PT_OnTime := False\<rparr>), demo_paid_out)"
    by (intro payout_replay_loses_on_time [OF demo_paid_out_ok]) (simp_all add: demo_payout_def demo_yenv_def)
qed (simp add: demo_payout_a_def new_payout_def)

text \<open>
  One round can be paid out to two members: nothing compares a payout with the other payouts of its
  round, or with what the circle has collected.
\<close>

theorem round_paid_twice:
  "\<exists>d p q. Payout_Record (demo_yenv 0) demo_ysvc (demo_payout ''a'' ''p'') demo_active = (Inr p, d)
     \<and> fst (Payout_Record (demo_yenv 1) demo_ysvc (demo_payout ''b'' ''q'') d) = Inr q
     \<and> PO_RoundNumber p = PO_RoundNumber q \<and> PO_CircleID p = PO_CircleID q \<and> PO_RecipientID p \<noteq> PO_RecipientID q
     \<and> length (B_payouts (snd (Payout_Record (demo_yenv 1) demo_ysvc (demo_payout ''b'' ''q'') d))) = 2 \<and> B_contribs d = []"
proof -
  let ?q = "new_payout (demo_yenv 1) (demo_payout ''b'' ''q'') 100 3 True ''verified'' True"
  have "fst (Payout_Record (demo_yenv 1) demo_ysvc (demo_payout ''b'' ''q'') demo_paid_out) = Inr ?q" by code_simp
  moreover have "length (B_payouts (snd (Payout_Record (demo_yenv 1) demo_ysvc (demo_payout ''b'' ''q'') demo_paid_out))) = 2" by code_simp
  moreover have "B_contribs demo_paid_out = []" by code_simp
  ultimately show ?thesis using demo_paid_out_ok
    by (intro exI [of _ demo_paid_out] exI [of _ demo_payout_a] exI [of _ ?q])
       (simp add: demo_payout_a_def new_payout_def demo_payout_def)
qed

end
