(* ===== verification/Users.thy ===== *)
theory Users
  imports CircleRepo
begin

text \<open>
  \<^verbatim>\<open>internal/domain/user\<close>: accounts, their soft deletion, profile and notification settings, and
  the generated display names.

  The state \<open>users_db\<close> holds the table \<^verbatim>\<open>users\<close> and the counter of \<^verbatim>\<open>user_name_counter\<close>. The
  statements check the primary key and the unique columns \<^verbatim>\<open>wallet_address\<close>, \<^verbatim>\<open>email\<close> and
  \<^verbatim>\<open>passkey_credential_id\<close> (nulls excluded), which also cover deleted rows; the trigger on updates
  writes \<^verbatim>\<open>updated_at\<close>. The hash of e-mail addresses (SHA-256) and \<^verbatim>\<open>ILIKE\<close> are parameters.
\<close>

section \<open>Model\<close>

abbreviation RoleUser :: string where "RoleUser \<equiv> ''user''"
abbreviation RoleAdmin :: string where "RoleAdmin \<equiv> ''admin''"

record user =
  U_ID :: uuid
  U_WalletAddress :: string
  U_Email :: "string option"
  U_Phone :: "string option"
  U_DisplayName :: "string option"
  U_AvatarIpfsHash :: "string option"
  U_CountryCode :: "string option"
  U_PreferredLanguage :: string
  U_MoiScore :: int
  U_Role :: string
  U_SessionTTLMinutes :: int
  U_PasswordHash :: "string option"
  U_TOTPSecret :: "string option"
  U_TOTPEnabled :: bool
  U_BackupCodes :: "string list"
  U_EmailVerified :: bool
  U_PasskeyCredentialID :: "string option"
  U_NotificationChannels :: "string list"
  U_NotificationsMuted :: bool
  U_DigestEnabled :: bool
  U_DigestIntervalMinutes :: int
  U_PushToken :: "string option"
  U_CreatedAt :: time
  U_UpdatedAt :: time
  U_DeletedAt :: "time option"

record users_db =
  D_users :: "user list"
  D_nameCounter :: "int option"

record user_filter =
  UF_Search :: string
  UF_Page :: int64
  UF_Limit :: int64

datatype user_stmt =
    UQ_FindByID uuid
  | UQ_FindByWallet string
  | UQ_FindByEmail string
  | UQ_FindByPasskey string
  | UQ_FindAny uuid
  | UQ_Insert uuid
  | UQ_Update uuid
  | UQ_UpdateMoi uuid
  | UQ_List
  | UQ_Count
  | UQ_ListDeleted
  | UQ_CountDeleted
  | UQ_NextName
  | UQ_Delete uuid
  | UQ_Restore uuid
  | UQ_DeletionState uuid

record uenv = "user_stmt env" +
  HashEmail :: "string \<Rightarrow> string"
  user_ilike :: "string \<Rightarrow> string \<Rightarrow> bool"
  score_to_int64 :: "float64 \<Rightarrow> int64"

section \<open>Repository\<close>

definition scanUser :: "user option result \<Rightarrow> user result" where
  "scanUser r =
     (case r of
        Inl e \<Rightarrow> if e = Sentinel Sql_ErrNoRows then Inl (Sentinel App_ErrNotFound) else Inl (Wrap ''scanning user row'' e)
      | Inr None \<Rightarrow> Inl (Sentinel App_ErrNotFound)
      | Inr (Some u) \<Rightarrow> Inr u)"

definition live_user :: "(user \<Rightarrow> bool) \<Rightarrow> users_db \<Rightarrow> user option" where
  "live_user p d = List.find (\<lambda>u. p u \<and> U_DeletedAt u = None) (D_users d)"

definition User_FindByID :: "uenv \<Rightarrow> uuid \<Rightarrow> users_db \<Rightarrow> user result" where
  "User_FindByID env i d = scanUser (run_query env (UQ_FindByID i) (live_user (\<lambda>u. U_ID u = i) d))"

definition FindByWalletAddress :: "uenv \<Rightarrow> string \<Rightarrow> users_db \<Rightarrow> user result" where
  "FindByWalletAddress env w d =
     scanUser (run_query env (UQ_FindByWallet w) (live_user (\<lambda>u. U_WalletAddress u = w) d))"

definition FindByEmail :: "uenv \<Rightarrow> string \<Rightarrow> users_db \<Rightarrow> user result" where
  "FindByEmail env email d =
     scanUser (run_query env (UQ_FindByEmail email) (live_user (\<lambda>u. U_Email u = Some (HashEmail env email)) d))"

definition FindByPasskeyCredentialID :: "uenv \<Rightarrow> string \<Rightarrow> users_db \<Rightarrow> user result" where
  "FindByPasskeyCredentialID env k d =
     scanUser (run_query env (UQ_FindByPasskey k) (live_user (\<lambda>u. U_PasskeyCredentialID u = Some k) d))"

definition FindByIDIncludingDeleted :: "uenv \<Rightarrow> uuid \<Rightarrow> users_db \<Rightarrow> user result" where
  "FindByIDIncludingDeleted env i d =
     scanUser (run_query env (UQ_FindAny i) (List.find (\<lambda>u. U_ID u = i) (D_users d)))"

text \<open>Two rows that the unique constraints do not allow together.\<close>

definition users_clash :: "user \<Rightarrow> user \<Rightarrow> bool" where
  "users_clash a b = (U_ID a = U_ID b \<or> U_WalletAddress a = U_WalletAddress b
     \<or> (U_Email a \<noteq> None \<and> U_Email a = U_Email b)
     \<or> (U_PasskeyCredentialID a \<noteq> None \<and> U_PasskeyCredentialID a = U_PasskeyCredentialID b))"

text \<open>The insert leaves the notification columns and the deletion mark to their defaults.\<close>

definition User_Create :: "uenv \<Rightarrow> user \<Rightarrow> users_db \<Rightarrow> unit result \<times> users_db" where
  "User_Create env u d =
     (case exec_stmt env (UQ_Insert (U_ID u))
             (\<lambda>d. if \<exists>r \<in> set (D_users d). users_clash u r then Some unique_violation else None)
             (\<lambda>d. d\<lparr>D_users := D_users d @ [u\<lparr>U_NotificationChannels := [''inapp''], U_NotificationsMuted := False,
                U_DigestEnabled := False, U_DigestIntervalMinutes := 1440, U_PushToken := None, U_DeletedAt := None\<rparr>]\<rparr>) d of
        (Inl e, d') \<Rightarrow>
          (if isUniqueViolationPg e then Inl (Sentinel App_ErrConflict) else Inl (Wrap ''creating user'' e), d')
      | (Inr x, d') \<Rightarrow> (Inr x, d'))"

text \<open>The columns an \<^verbatim>\<open>UPDATE\<close> writes: not the wallet, the push token, or the deletion mark.\<close>

definition write_user :: "time \<Rightarrow> user \<Rightarrow> user \<Rightarrow> user" where
  "write_user t u row = row\<lparr>U_Email := U_Email u, U_Phone := U_Phone u, U_DisplayName := U_DisplayName u,
     U_AvatarIpfsHash := U_AvatarIpfsHash u, U_CountryCode := U_CountryCode u,
     U_PreferredLanguage := U_PreferredLanguage u, U_MoiScore := U_MoiScore u, U_Role := U_Role u,
     U_SessionTTLMinutes := U_SessionTTLMinutes u, U_PasswordHash := U_PasswordHash u,
     U_TOTPSecret := U_TOTPSecret u, U_TOTPEnabled := U_TOTPEnabled u, U_BackupCodes := U_BackupCodes u,
     U_EmailVerified := U_EmailVerified u, U_PasskeyCredentialID := U_PasskeyCredentialID u,
     U_NotificationChannels := U_NotificationChannels u, U_NotificationsMuted := U_NotificationsMuted u,
     U_DigestEnabled := U_DigestEnabled u, U_DigestIntervalMinutes := U_DigestIntervalMinutes u, U_UpdatedAt := t\<rparr>"

definition user_sel :: "uuid \<Rightarrow> user \<Rightarrow> bool" where
  "user_sel i u = (U_ID u = i)"

definition update_check :: "user \<Rightarrow> users_db \<Rightarrow> error option" where
  "update_check u d =
     (if (\<exists>r \<in> set (D_users d). U_ID r = U_ID u) \<and>
         (\<exists>r \<in> set (D_users d). U_ID r \<noteq> U_ID u \<and> ((U_Email u \<noteq> None \<and> U_Email r = U_Email u)
            \<or> (U_PasskeyCredentialID u \<noteq> None \<and> U_PasskeyCredentialID r = U_PasskeyCredentialID u)))
      then Some unique_violation else None)"

definition User_Update :: "uenv \<Rightarrow> user \<Rightarrow> users_db \<Rightarrow> unit result \<times> users_db" where
  "User_Update env u d =
     perform (wrap_call ''updating user''
       (exec_stmt env (UQ_Update (U_ID u)) (update_check u)
          (\<lambda>d. d\<lparr>D_users := update_where (user_sel (U_ID u)) (write_user (now env) u) (D_users d)\<rparr>) d)) (\<lambda>_ d'.
     guard (rows_affected (user_sel (U_ID u)) (D_users d) = 0) (Sentinel ErrUserNotFound) d' (Inr (), d'))"

definition UpdateMoiScore :: "uenv \<Rightarrow> uuid \<Rightarrow> int \<Rightarrow> users_db \<Rightarrow> unit result \<times> users_db" where
  "UpdateMoiScore env i score d =
     perform (wrap_call ''updating moi score''
       (exec_stmt env (UQ_UpdateMoi i) no_check
          (\<lambda>d. d\<lparr>D_users := update_where (user_sel i) (\<lambda>u. u\<lparr>U_MoiScore := score, U_UpdatedAt := now env\<rparr>) (D_users d)\<rparr>) d)) (\<lambda>_ d'.
     guard (rows_affected (user_sel i) (D_users d) = 0) (Sentinel ErrUserNotFound) d' (Inr (), d'))"

definition user_matches :: "uenv \<Rightarrow> user_filter \<Rightarrow> user \<Rightarrow> bool" where
  "user_matches env f u =
     (UF_Search f \<noteq> [] \<longrightarrow> (let pat = ''%'' @ UF_Search f @ ''%''; like = (\<lambda>x. case x of None \<Rightarrow> False | Some t \<Rightarrow> user_ilike env pat t) in
        like (U_DisplayName u) \<or> user_ilike env pat (U_WalletAddress u) \<or> like (U_Email u)))"

definition User_List :: "uenv \<Rightarrow> user_filter \<Rightarrow> users_db \<Rightarrow> user list result" where
  "User_List env f d =
     wrap_err ''listing users'' (case run_query env UQ_List () of
        Inl e \<Rightarrow> Inl e
      | Inr _ \<Rightarrow> page_rows (UF_Page f) (UF_Limit f) (sort_key (\<lambda>u. - U_CreatedAt u)
          (filter (\<lambda>u. U_DeletedAt u = None \<and> user_matches env f u) (D_users d))))"

definition User_Count :: "uenv \<Rightarrow> user_filter \<Rightarrow> users_db \<Rightarrow> nat result" where
  "User_Count env f d =
     wrap_err ''counting users'' (run_query env UQ_Count
       (length (filter (\<lambda>u. U_DeletedAt u = None \<and> user_matches env f u) (D_users d))))"

definition deleted_at :: "user \<Rightarrow> time" where
  "deleted_at u = with_default (U_DeletedAt u) 0"

definition ListDeleted :: "uenv \<Rightarrow> user_filter \<Rightarrow> users_db \<Rightarrow> user list result" where
  "ListDeleted env f d =
     wrap_err ''listing deleted users'' (case run_query env UQ_ListDeleted () of
        Inl e \<Rightarrow> Inl e
      | Inr _ \<Rightarrow> page_rows (UF_Page f) (UF_Limit f) (sort_key (\<lambda>u. - deleted_at u)
          (filter (\<lambda>u. U_DeletedAt u \<noteq> None \<and> user_matches env f u) (D_users d))))"

definition CountDeleted :: "uenv \<Rightarrow> user_filter \<Rightarrow> users_db \<Rightarrow> nat result" where
  "CountDeleted env f d =
     wrap_err ''counting deleted users'' (run_query env UQ_CountDeleted
       (length (filter (\<lambda>u. U_DeletedAt u \<noteq> None \<and> user_matches env f u) (D_users d))))"

text \<open>The counter is a \<^verbatim>\<open>BIGINT\<close>: its increment fails at the end of the range.\<close>

definition ClaimNextName :: "uenv \<Rightarrow> users_db \<Rightarrow> int result \<times> users_db" where
  "ClaimNextName env d =
     wrap_call ''claiming name''
       (case run_query env UQ_NextName (D_nameCounter d) of
          Inl e \<Rightarrow> (Inl e, d)
        | Inr None \<Rightarrow> (Inl (Sentinel Sql_ErrNoRows), d)
        | Inr (Some v) \<Rightarrow>
            if v + 1 \<ge> 2 ^ 63 then (Inl (Driver ''pq: bigint out of range''), d)
            else (Inr (v + 1), d\<lparr>D_nameCounter := Some (v + 1)\<rparr>))"

text \<open>When nothing was deleted or restored, a second query tells the cases apart.\<close>

definition deletion_state :: "uenv \<Rightarrow> uuid \<Rightarrow> users_db \<Rightarrow> time option result" where
  "deletion_state env i d =
     (case run_query env (UQ_DeletionState i) (List.find (user_sel i) (D_users d)) of
        Inl e \<Rightarrow> if errors_Is e Sql_ErrNoRows then Inl (Sentinel ErrUserNotFound)
                else Inl (Wrap ''checking user deletion state'' e)
      | Inr None \<Rightarrow> Inl (Sentinel ErrUserNotFound)
      | Inr (Some u) \<Rightarrow> Inr (U_DeletedAt u))"

definition User_Delete :: "uenv \<Rightarrow> uuid \<Rightarrow> users_db \<Rightarrow> unit result \<times> users_db" where
  "User_Delete env i d =
     (let sel = (\<lambda>u. user_sel i u \<and> U_DeletedAt u = None) in
      perform (wrap_call ''deleting user''
        (exec_stmt env (UQ_Delete i) no_check
           (\<lambda>d. d\<lparr>D_users := update_where sel (\<lambda>u. u\<lparr>U_DeletedAt := Some (now env), U_UpdatedAt := now env\<rparr>) (D_users d)\<rparr>) d)) (\<lambda>_ d'.
      if rows_affected sel (D_users d) = 0
      then attempt (deletion_state env i d') d' (\<lambda>deletedAt.
        (Inl (Sentinel (if deletedAt \<noteq> None then ErrUserNotDeleted else ErrUserNotFound)), d'))
      else (Inr (), d')))"

definition Restore :: "uenv \<Rightarrow> uuid \<Rightarrow> users_db \<Rightarrow> unit result \<times> users_db" where
  "Restore env i d =
     (let sel = (\<lambda>u. user_sel i u \<and> U_DeletedAt u \<noteq> None) in
      perform (wrap_call ''restoring user''
        (exec_stmt env (UQ_Restore i) no_check
           (\<lambda>d. d\<lparr>D_users := update_where sel (\<lambda>u. u\<lparr>U_DeletedAt := None, U_UpdatedAt := now env\<rparr>) (D_users d)\<rparr>) d)) (\<lambda>_ d'.
      if rows_affected sel (D_users d) = 0
      then attempt (deletion_state env i d') d' (\<lambda>deletedAt. (Inl (Sentinel ErrUserNotDeleted), d'))
      else (Inr (), d')))"

section \<open>Service\<close>

record UpdateProfileInput =
  UP_DisplayName :: "string option"
  UP_Email :: "string option"
  UP_Phone :: "string option"
  UP_CountryCode :: "string option"
  UP_PreferredLanguage :: "string option"
  UP_SessionTTL :: "int option"

record NotificationPrefsInput =
  NP_Channels :: "string list"
  NP_Muted :: bool
  NP_DigestEnabled :: "bool option"
  NP_DigestIntervalMinutes :: "int option"

record MoiScoreResponse =
  MS_Score :: int
  MS_Level :: string
  MS_Streaks :: int
  MS_Completions :: int
  MS_Volume :: int
  MS_Recency :: int

abbreviation MinDigestIntervalMinutes :: int where "MinDigestIntervalMinutes \<equiv> 15"
abbreviation MaxDigestIntervalMinutes :: int where "MaxDigestIntervalMinutes \<equiv> 10080"
abbreviation DefaultDigestIntervalMinutes :: int where "DefaultDigestIntervalMinutes \<equiv> 1440"

definition user_parseUUID :: "uenv \<Rightarrow> string \<Rightarrow> uuid result" where
  "user_parseUUID env x = (case uuid_Parse env x of None \<Rightarrow> Inl (Sentinel User_ErrInvalidUUID) | Some u \<Rightarrow> Inr u)"

text \<open>How the service reports a failed lookup.\<close>

definition user_lookup :: "string \<Rightarrow> user result \<Rightarrow> user result" where
  "user_lookup what r =
     (case r of
        Inl e \<Rightarrow> if e = Sentinel App_ErrNotFound then Inl (Sentinel ErrUserNotFound) else Inl (Wrap what e)
      | Inr u \<Rightarrow> Inr u)"

definition GetByID :: "uenv \<Rightarrow> string \<Rightarrow> users_db \<Rightarrow> user result" where
  "GetByID env i d =
     (case user_parseUUID env i of Inl e \<Rightarrow> Inl e
      | Inr uid \<Rightarrow> user_lookup ''getting user by id'' (User_FindByID env uid d))"

definition GetByWallet :: "uenv \<Rightarrow> string \<Rightarrow> users_db \<Rightarrow> user result" where
  "GetByWallet env wallet d = user_lookup ''getting user by wallet'' (FindByWalletAddress env wallet d)"

definition GetByEmail :: "uenv \<Rightarrow> string \<Rightarrow> users_db \<Rightarrow> user result" where
  "GetByEmail env email d = user_lookup ''getting user by email'' (FindByEmail env email d)"

definition new_user :: "uenv \<Rightarrow> string \<Rightarrow> user" where
  "new_user env wallet =
     \<lparr>U_ID = uuid_New env 0, U_WalletAddress = wallet, U_Email = None, U_Phone = None, U_DisplayName = None,
      U_AvatarIpfsHash = None, U_CountryCode = None, U_PreferredLanguage = ''en'', U_MoiScore = 0, U_Role = RoleUser,
      U_SessionTTLMinutes = 0, U_PasswordHash = None, U_TOTPSecret = None, U_TOTPEnabled = False, U_BackupCodes = [],
      U_EmailVerified = False, U_PasskeyCredentialID = None, U_NotificationChannels = [], U_NotificationsMuted = False,
      U_DigestEnabled = False, U_DigestIntervalMinutes = 0, U_PushToken = None, U_CreatedAt = now env,
      U_UpdatedAt = now env, U_DeletedAt = None\<rparr>"

definition UserService_Create :: "uenv \<Rightarrow> string \<Rightarrow> users_db \<Rightarrow> user result \<times> users_db" where
  "UserService_Create env wallet d =
     (case FindByWalletAddress env wallet d of
        Inr existing \<Rightarrow> (Inr existing, d)
      | Inl e \<Rightarrow>
          if e \<noteq> Sentinel App_ErrNotFound then (Inl (Wrap ''checking existing user'' e), d)
          else (case User_Create env (new_user env wallet) d of
                  (Inl e, d') \<Rightarrow>
                    (if e = Sentinel App_ErrConflict
                     then wrap_err ''conflict resolution failed'' (FindByWalletAddress env wallet d')
                     else Inl (Wrap ''creating user'' e), d')
                | (Inr _, d') \<Rightarrow> (Inr (new_user env wallet), d')))"

definition UserService_Delete :: "uenv \<Rightarrow> string \<Rightarrow> users_db \<Rightarrow> unit result \<times> users_db" where
  "UserService_Delete env i d =
     attempt (user_parseUUID env i) d (\<lambda>uid. wrap_call ''deleting user'' (User_Delete env uid d))"

definition clamp_ttl :: "int \<Rightarrow> int" where
  "clamp_ttl ttl = (let t = (if ttl < 60 then 60 else ttl) in if t > 1440 then 1440 else t)"

definition apply_profile :: "uenv \<Rightarrow> UpdateProfileInput \<Rightarrow> user \<Rightarrow> user" where
  "apply_profile env updates u =
     u\<lparr>U_DisplayName := (case UP_DisplayName updates of None \<Rightarrow> U_DisplayName u | x \<Rightarrow> x),
       U_Email := (case UP_Email updates of None \<Rightarrow> U_Email u | Some e \<Rightarrow> Some (HashEmail env e)),
       U_Phone := (case UP_Phone updates of None \<Rightarrow> U_Phone u | x \<Rightarrow> x),
       U_CountryCode := (case UP_CountryCode updates of None \<Rightarrow> U_CountryCode u | x \<Rightarrow> x),
       U_PreferredLanguage := with_default (UP_PreferredLanguage updates) (U_PreferredLanguage u),
       U_SessionTTLMinutes := (case UP_SessionTTL updates of None \<Rightarrow> U_SessionTTLMinutes u | Some t \<Rightarrow> clamp_ttl t),
       U_UpdatedAt := now env\<rparr>"

definition UpdateProfile :: "uenv \<Rightarrow> string \<Rightarrow> UpdateProfileInput \<Rightarrow> users_db \<Rightarrow> user result \<times> users_db" where
  "UpdateProfile env i updates d =
     attempt (user_parseUUID env i) d (\<lambda>uid.
     attempt (user_lookup ''finding user for update'' (User_FindByID env uid d)) d (\<lambda>u.
     perform (wrap_call ''updating profile'' (User_Update env (apply_profile env updates u) d)) (\<lambda>_ d'.
     (Inr (apply_profile env updates u), d'))))"

definition valid_channel :: "string \<Rightarrow> bool" where
  "valid_channel ch = (ch \<in> {''inapp'', ''email'', ''sms'', ''push''})"

definition channels_ok :: "NotificationPrefsInput \<Rightarrow> unit result" where
  "channels_ok prefs =
     (case List.find (\<lambda>ch. \<not> valid_channel ch) (NP_Channels prefs) of
        Some ch \<Rightarrow> Inl (Errorf (''invalid notification channel '' @ ch @ '': must be one of inapp, email, sms, push''))
      | None \<Rightarrow> Inr ())"

definition apply_prefs :: "uenv \<Rightarrow> NotificationPrefsInput \<Rightarrow> user \<Rightarrow> user result" where
  "apply_prefs env prefs u =
     (let interval = with_default (NP_DigestIntervalMinutes prefs) (U_DigestIntervalMinutes u);
          enabled = with_default (NP_DigestEnabled prefs) (U_DigestEnabled u) in
      if NP_DigestIntervalMinutes prefs \<noteq> None \<and> (interval < MinDigestIntervalMinutes \<or> interval > MaxDigestIntervalMinutes)
      then Inl (Errorf (''invalid digest interval '' @ show_int interval @ '' minutes: must be between 15 and 10080''))
      else Inr (u\<lparr>U_NotificationChannels := NP_Channels prefs, U_NotificationsMuted := NP_Muted prefs, U_UpdatedAt := now env,
        U_DigestEnabled := enabled,
        U_DigestIntervalMinutes := (if enabled \<and> interval = 0 then DefaultDigestIntervalMinutes else interval)\<rparr>))"

definition UpdateNotificationPreferences :: "uenv \<Rightarrow> string \<Rightarrow> NotificationPrefsInput \<Rightarrow> users_db \<Rightarrow> user result \<times> users_db" where
  "UpdateNotificationPreferences env i prefs d =
     attempt (user_parseUUID env i) d (\<lambda>uid.
     attempt (channels_ok prefs) d (\<lambda>_.
     attempt (user_lookup ''finding user for notification prefs update'' (User_FindByID env uid d)) d (\<lambda>u.
     attempt (apply_prefs env prefs u) d (\<lambda>u'.
     perform (wrap_call ''saving notification preferences'' (User_Update env u' d)) (\<lambda>_ d'. (Inr u', d'))))))"

definition calcLevel :: "int \<Rightarrow> string" where
  "calcLevel score =
     (if score > 800 then ''Diamond'' else if score > 600 then ''Platinum'' else if score > 400 then ''Gold''
      else if score > 200 then ''Silver'' else ''Bronze'')"

text \<open>\<^verbatim>\<open>int(math.Min(float64(score)*share, cap))\<close>; the shares are float constants.\<close>

definition float_const :: "rat \<Rightarrow> rat" where
  "float_const q = (case fl q of Finite x \<Rightarrow> x | _ \<Rightarrow> 0)"

definition math_Min :: "float64 \<Rightarrow> float64 \<Rightarrow> float64" where
  "math_Min x y = (if isNaN x \<or> isNaN y then NaN else if flt x y then x else y)"

definition moi_share :: "uenv \<Rightarrow> int \<Rightarrow> rat \<Rightarrow> rat \<Rightarrow> int" where
  "moi_share env score share cap =
     sint (to_int64 (score_to_int64 env) (math_Min (fmul (of_int64 score) (float_const share)) (Finite cap)))"

definition GetMoiScore :: "uenv \<Rightarrow> string \<Rightarrow> users_db \<Rightarrow> MoiScoreResponse result" where
  "GetMoiScore env i d =
     (case user_parseUUID env i of Inl e \<Rightarrow> Inl e
      | Inr uid \<Rightarrow> (case user_lookup ''finding user for moi score'' (User_FindByID env uid d) of Inl e \<Rightarrow> Inl e
          | Inr u \<Rightarrow> Inr \<lparr>MS_Score = U_MoiScore u, MS_Level = calcLevel (U_MoiScore u),
              MS_Streaks = moi_share env (U_MoiScore u) (35/100) 350, MS_Completions = moi_share env (U_MoiScore u) (30/100) 300,
              MS_Volume = moi_share env (U_MoiScore u) (20/100) 200, MS_Recency = moi_share env (U_MoiScore u) (15/100) 150\<rparr>))"

definition GetCircles :: "uenv \<Rightarrow> cenv \<Rightarrow> string \<Rightarrow> users_db \<Rightarrow> circles_db \<Rightarrow> circle list result" where
  "GetCircles env env' i d cdb =
     (case user_parseUUID env i of Inl e \<Rightarrow> Inl e
      | Inr uid \<Rightarrow> (case user_lookup ''finding user for circles'' (User_FindByID env uid d) of Inl e \<Rightarrow> Inl e
          | Inr _ \<Rightarrow> wrap_err ''finding circles for user'' (FindCirclesByUserID env' uid cdb)))"

definition IsEmailTaken :: "uenv \<Rightarrow> string \<Rightarrow> users_db \<Rightarrow> bool result" where
  "IsEmailTaken env email d =
     (case FindByEmail env email d of
        Inr _ \<Rightarrow> Inr True
      | Inl e \<Rightarrow> if e \<noteq> Sentinel App_ErrNotFound then Inl (Wrap ''checking email availability in users'' e) else Inr False)"

definition UserService_Update :: "uenv \<Rightarrow> user \<Rightarrow> users_db \<Rightarrow> unit result \<times> users_db" where
  "UserService_Update env u d = User_Update env u d"

section \<open>Generated names\<close>

definition adjectives :: "string list" where
  "adjectives = [
    ''Stealth'', ''Swift'', ''Quiet'', ''Bold'', ''Fierce'', ''Noble'', ''Silent'', ''Brave'', ''Cosmic'', ''Wild'',
    ''Ancient'', ''Bright'', ''Calm'', ''Deep'', ''Eager'', ''Frozen'', ''Golden'', ''Hidden'', ''Icy'', ''Jade'',
    ''Keen'', ''Lucky'', ''Misty'', ''Neon'', ''Odd'', ''Proud'', ''Royal'', ''Sharp'', ''Tough'', ''Urban'',
    ''Vivid'', ''Wise'', ''Young'', ''Zesty'', ''Amber'', ''Bliss'', ''Crisp'', ''Dusk'', ''Elite'', ''Frost'',
    ''Grand'', ''Hazy'', ''Iron'', ''Jolly'', ''Kind'', ''Lunar'', ''Merry'', ''Nova'', ''Olive'', ''Pearl'',
    ''Quest'', ''Rapid'', ''Solar'', ''Topaz'', ''Ultra'', ''Velvet'', ''Warm'', ''Azure'', ''Blaze'', ''Coral'',
    ''Dawn'', ''Ember'', ''Flint'', ''Glade'', ''Heath'', ''Ivory'', ''Jewel'', ''Karma'', ''Lark'', ''Moss'',
    ''Nimbus'', ''Onyx'', ''Plush'', ''Raven'', ''Sage'', ''Thorn'', ''Umber'', ''Vale'', ''Wren'', ''Yarrow'',
    ''Zephyr'', ''Alpine'', ''Birch'', ''Cedar'', ''Drift'', ''Echo'', ''Fjord'', ''Glen'', ''Haven'', ''Isle'',
    ''Juniper'', ''Krill'', ''Lagoon'', ''Meadow'', ''Nacre'', ''Orbit'', ''Pine'', ''Quartz'', ''Reef'', ''Storm'',
    ''Tide'', ''Urchin'', ''Veil'', ''Whisper'', ''Aura'', ''Bloom'', ''Cliff'', ''Dune'', ''Ever'', ''Flare'',
    ''Grove'', ''Hollow'', ''Indigo'', ''Knot'', ''Loom'', ''Mirth'', ''Nectar'', ''Oaken'', ''Plume'',
    ''Ridge'', ''Shale'', ''Thistle'', ''Under'', ''Violet'', ''Wisp'', ''Zen'', ''Arcane'', ''Beryl'', ''Crypt'',
    ''Dragon'', ''Elf'', ''Fairy'', ''Giant'', ''Harpy'', ''Imp'', ''Jinn'', ''Kraken'', ''Lyre'', ''Mage'',
    ''Nymph'', ''Ogre'', ''Phoenix'', ''Quill'', ''Rune'', ''Sprite'', ''Troll'', ''Unicorn'', ''Valkyrie'', ''Wyrm'',
    ''Yeti'', ''Abyss'', ''Brine'', ''Crest'', ''Delve'', ''Ebony'', ''Fathom'', ''Glyph'', ''Horde'',
    ''Kaleid'', ''Lumen'', ''Mirage'', ''Nebula'', ''Oracle'', ''Prism'', ''Quasar'', ''Ripple'', ''Sable'', ''Tidal'',
    ''Vertex'', ''Warp'', ''Aegis'', ''Bolt'', ''Cipher'', ''Dynamo'', ''Epoch'', ''Flux'', ''Gauss'', ''Helix'',
    ''Kernel'', ''Logic'', ''Matrix'', ''Neural'', ''Octal'', ''Pixel'', ''Quantum'', ''Radar'', ''Sigma'', ''Turbo'',
    ''Union'', ''Vector'', ''Watt'', ''Xenon'', ''Yield'', ''Zetta'', ''Agile'', ''Brisk'', ''Chill'', ''Dapper'',
    ''Elastic'', ''Fleet'', ''Gleam'', ''Humble'', ''Jovial'', ''Lithe'', ''Mellow'', ''Nimble'', ''Pebble'', ''Rustic'',
    ''Snug'', ''Tender'', ''Upbeat'', ''Vibrant'', ''Whimsy'', ''Ample'', ''Bouncy'', ''Cozy'', ''Dimple'', ''Fizzy'',
    ''Giddy'', ''Hilarious'', ''Jazzy'', ''Loopy'', ''Mimic'', ''Nutty'', ''Perky'', ''Quirky'', ''Silly'', ''Tipsy'',
    ''Wacky'', ''Zany'', ''Breezy'', ''Curly'', ''Dizzy'', ''Frumpy'', ''Goofy'', ''Huffy'', ''Jumpy'', ''Kooky'',
    ''Lanky'', ''Moppy'', ''Nerdy'', ''Plucky'', ''Rusty'', ''Sassy'', ''Tacky'', ''Weedy'', ''Brawny'', ''Chunky'',
    ''Drafty'', ''Fluffy'', ''Grumpy'', ''Hefty'', ''Jumbo'', ''Lumpy'', ''Muddy'', ''Plump'', ''Scruffy'', ''Stocky'',
    ''Sturdy'', ''Bulky'', ''Crafty'', ''Drowsy'', ''Frugal'', ''Gloomy'', ''Hungry'', ''Jaunty'', ''Lively'', ''Moody'',
    ''Peppy'', ''Roomy'', ''Shady'', ''Sleepy'', ''Spiffy'', ''Testy'', ''Wily'', ''Woozy'', ''Beefy'', ''Bumpy'',
    ''Canny'', ''Dingy'', ''Feisty'', ''Hasty'', ''Lacy'', ''Manky'', ''Nifty'', ''Paltry'',
    ''Randy'', ''Saucy'', ''Tawdry'', ''Vasty'', ''Yucky'', ''Balky'', ''Cagey'', ''Dicey'', ''Flimsy'',
    ''Gauzy'', ''Hokey'', ''Jiffy'', ''Mimsy'', ''Pithy'', ''Risky'', ''Seedy'', ''Tricky'', ''Veiny'',
    ''Wispy'', ''Crisp'', ''Dusky'', ''Frosty'', ''Glist'', ''Hazel'', ''Jasper'', ''Lilac'', ''Mauve'',
    ''Ochre'', ''Plum'', ''Russet'', ''Sienna'', ''Vermil'', ''Wheat'', ''Auburn'', ''Beryl'',
    ''Cerise'', ''Denim'', ''Fawn'', ''Ginger'', ''Indigo'', ''Khaki'', ''Lemon'', ''Maroon'', ''Navy'', ''Olive'',
    ''Peach'', ''Rust'', ''Salmon'', ''Teal'', ''Blond'', ''Chest'', ''Dun'', ''Fallow'', ''Honey'',
    ''Ivory'', ''Jade'', ''Lime'', ''Mint'', ''Plum'', ''Rose'', ''Ruby'', ''Slate'', ''Taupe'', ''Violet'',
    ''Abrupt'', ''Blunt'', ''Chaste'', ''Dire'', ''Earnest'', ''Fond'', ''Grim'', ''Hale'', ''Irate'', ''Jaded'',
    ''Keen'', ''Lax'', ''Mild'', ''Naive'', ''Obtuse'', ''Pert'', ''Rash'', ''Stern'', ''Terse'', ''Uptight'',
    ''Vain'', ''Wary'', ''Yawning'', ''Zealous'', ''Arid'', ''Boggy'', ''Chilly'', ''Damp'', ''Frigid'', ''Gusty'',
    ''Humid'', ''Muggy'', ''Raw'', ''Soggy'', ''Tepid'', ''Windy'', ''Balmy'', ''Crisp'', ''Drizzly'',
    ''Frosty'', ''Glacial'', ''Hazy'', ''Misty'', ''Rainy'', ''Showery'', ''Steamy'', ''Temperate'', ''Breezy'', ''Cloudy'',
    ''Dewy'', ''Foggy'', ''Gloomy'', ''Overcast'', ''Smoggy'', ''Sunny'', ''Thundery'', ''Blustery'', ''Calm'', ''Dry'',
    ''Electric'', ''Fair'', ''Grey'', ''Mild'', ''Severe'', ''Stormy'', ''Warm'', ''Wet'', ''Angry'', ''Crowded'',
    ''Desolate'', ''Fertile'', ''Green'', ''Lush'', ''Pristine'', ''Rocky'', ''Sandy'', ''Untamed'', ''Vast'', ''Wooded'',
    ''Barren'', ''Crystal'', ''Dark'', ''Enchanted'', ''Fallen'', ''Ghostly'', ''Haunted'', ''Lonely'', ''Misty'', ''Mystic'',
    ''Peaceful'', ''Quiet'', ''Restless'', ''Sacred'', ''Silent'', ''Tranquil'', ''Wild'', ''Ancient'', ''Blessed'', ''Cursed'',
    ''Forbidden'', ''Hidden'', ''Lost'', ''Magical'', ''Mythic'', ''Sacred'', ''Secret'', ''Silent'', ''Twilight'', ''Untold'',
    ''Arctic'', ''Boreal'', ''Coastal'', ''Desert'', ''Forest'', ''Glacial'', ''Highland'', ''Island'', ''Lowland'', ''Mountain'',
    ''Oceanic'', ''Polar'', ''River'', ''Sea'', ''Sky'', ''Summit'', ''Tundra'', ''Valley'', ''Volcanic'', ''Wetland'',
    ''Amber'', ''Bronze'', ''Copper'', ''Gold'', ''Iron'', ''Nickel'', ''Platinum'', ''Silver'', ''Steel'', ''Tin'',
    ''Titanium'', ''Zinc'', ''Brass'', ''Chrome'', ''Lead'', ''Mercury'', ''Quicksilver'', ''Alabaster'', ''Bone'', ''Coral'',
    ''Crystal'', ''Diamond'', ''Emerald'', ''Flint'', ''Granite'', ''Ivory'', ''Jade'', ''Lapis'', ''Marble'', ''Onyx'',
    ''Opal'', ''Pearl'', ''Quartz'', ''Ruby'', ''Sapphire'', ''Topaz'', ''Turquoise'', ''Agate'', ''Beryl'', ''Citrine'',
    ''Garnet'', ''Jet'', ''Malachite'', ''Obsidian'', ''Pyrite'', ''Spinel'', ''Amethyst'', ''Azurite'', ''Bloodstone'', ''Coal'']"

definition animals :: "string list" where
  "animals = [
    ''Eel'', ''Fox'', ''Hawk'', ''Wolf'', ''Bear'', ''Lion'', ''Deer'', ''Owl'', ''Tiger'', ''Vole'',
    ''Ant'', ''Bat'', ''Cat'', ''Dog'', ''Elk'', ''Fawn'', ''Gnu'', ''Hare'', ''Ibex'', ''Jay'',
    ''Koala'', ''Lynx'', ''Mole'', ''Newt'', ''Oryx'', ''Pig'', ''Quail'', ''Roach'', ''Seal'', ''Toad'',
    ''Urchin'', ''Viper'', ''Wren'', ''Yak'', ''Zebra'', ''Anole'', ''Badger'', ''Camel'', ''Dove'', ''Emu'',
    ''Finch'', ''Gecko'', ''Heron'', ''Iguana'', ''Jackal'', ''Kite'', ''Lemur'', ''Manta'', ''Narwhal'', ''Okapi'',
    ''Panther'', ''Raven'', ''Salmon'', ''Turtle'', ''Whale'', ''Xerus'', ''Alpaca'', ''Beaver'', ''Coyote'',
    ''Dingo'', ''Ermine'', ''Ferret'', ''Gopher'', ''Hyena'', ''Impala'', ''Jaguar'', ''Llama'', ''Mink'',
    ''Numbat'', ''Otter'', ''Panda'', ''Quokka'', ''Raccoon'', ''Skunk'', ''Tapir'', ''Urial'', ''Vicuna'', ''Wallaby'',
    ''Xenops'', ''Yapok'', ''Zorilla'', ''Aardvark'', ''Buffalo'', ''Cheetah'', ''Dolphin'', ''Elephant'', ''Flamingo'', ''Gazelle'',
    ''Hamster'', ''Ibis'', ''Jellyfish'', ''Kangaroo'', ''Lobster'', ''Monkey'', ''Octopus'', ''Penguin'', ''Rhinoceros'',
    ''Squirrel'', ''Umbrellabird'', ''Vulture'', ''Walrus'', ''Anglerfish'', ''Barracuda'', ''Chameleon'', ''Dragonfly'',
    ''Earthworm'', ''Falcon'', ''Gorilla'', ''Hedgehog'', ''Jackrabbit'', ''Kingfisher'', ''Ladybug'', ''Manatee'',
    ''Parrot'', ''Rattlesnake'', ''Salamander'', ''Tarantula'', ''Wolverine'', ''Axolotl'', ''Bison'', ''Caribou'',
    ''Echidna'', ''Frog'', ''Giraffe'', ''Hippo'', ''Kookaburra'', ''Loris'', ''Moose'', ''Nutria'', ''Orangutan'',
    ''Peacock'', ''Rhea'', ''Sloth'', ''Toucan'', ''Viperfish'', ''Wombat'', ''Zebu'', ''Ape'',
    ''Bobcat'', ''Cobra'', ''Eagle'', ''Fossa'', ''Gavial'', ''Hornet'', ''Insect'',
    ''Lizard'', ''Marmot'', ''Nautilus'', ''Oyster'', ''Porpoise'', ''Rabbit'', ''Scorpion'', ''Tuna'',
    ''Wasp'', ''Yabby'', ''Zander'', ''Anaconda'', ''Boa'', ''Condor'', ''Firefly'', ''Grasshopper'',
    ''Kestrel'', ''Leech'', ''Mantis'', ''Opossum'', ''Puffin'',
    ''Tern'', ''Vervet'', ''Weasel'', ''Addax'', ''Bongo'',
    ''Civet'', ''Dugong'', ''Eland'', ''Fennec'', ''Gaur'', ''Indri'',
    ''Kiang'', ''Langur'', ''Margay'', ''Nyala'', ''Oribi'', ''Puku'', ''Quoll'', ''Ratel'', ''Sable'',
    ''Wildebeest'', ''Agouti'', ''Capybara'', ''Gelada'',
    ''Macaque'', ''Nilgai'', ''Pademelon'', ''Quetzal'',
    ''Rosella'', ''Siamang'', ''Tamarin'', ''Vanga'', ''Wagtail'',
    ''Aardwolf'', ''Grysbok'', ''Humpback'', ''Lechwe'', ''Muntjac'',
    ''Pronghorn'', ''Quelea'', ''Screamer'', ''Waterbuck'',
    ''Albatross'', ''Bettong'', ''Cuscus'', ''Dunnart'',
    ''Gundi'', ''Hutia'', ''Kowari'', ''Monito'', ''Nabarlek'', ''Olingo'',
    ''Potoroo'', ''Quokka'', ''Solenodon'', ''Tenrec'', ''Vombat'', ''Wallaroo'',
    ''Anchovy'', ''Blenny'', ''Clownfish'', ''Damselfish'', ''Eel'', ''Flounder'', ''Goby'', ''Haddock'',
    ''Jackfish'', ''Killifish'', ''Lamprey'', ''Mackerel'', ''Needlefish'', ''Opah'', ''Parrotfish'',
    ''Sardine'', ''Tetra'', ''Vendace'', ''Wrasse'', ''Yellowtail'', ''Zebrafish'',
    ''Arowana'', ''Betta'', ''Catfish'', ''Dogfish'',
    ''Grouper'', ''Halibut'', ''Koi'', ''Lungfish'', ''MahiMahi'', ''Oscar'',
    ''Pufferfish'', ''Rasbora'', ''Triggerfish'', ''Whiting'', ''Yellowfin'', ''Angelfish'',
    ''Barracuda'', ''Cod'', ''Eel'', ''Flounder'', ''Gar'', ''Herring'', ''Icefish'',
    ''Loach'', ''Minnow'', ''Perch'', ''Roach'', ''Smelt'', ''Trout'', ''Wrasse'',
    ''Anemone'', ''Barnacle'', ''Coral'', ''Limpet'', ''Mussel'',
    ''Nudibranch'', ''Oyster'', ''Sponge'', ''Tunicate'', ''Urchin'',
    ''Beetle'', ''Cricket'', ''Damselfly'', ''Earwig'', ''Flea'',
    ''Grub'', ''Horsefly'', ''Ladybug'', ''Moth'', ''Silverfish'',
    ''Termite'', ''Weevil'', ''Caterpillar'', ''Dragonfly'', ''Firefly'',
    ''Grasshopper'', ''Hornet'', ''Locust'', ''Mosquito'', ''Scorpion'',
    ''Tarantula'', ''Wasp'', ''Crab'', ''Lobster'', ''Prawn'', ''Shrimp'',
    ''Crayfish'', ''Krill'', ''Barnacle'', ''Squid'', ''Octopus'',
    ''Jellyfish'', ''Starfish'', ''Dolphin'', ''Porpoise'', ''Whale'',
    ''Orca'', ''Beluga'', ''Narwhal'', ''Spermwhale'', ''Humpback'',
    ''Bluewhale'', ''Rightwhale'', ''Finwhale'', ''Minkewhale'', ''Seiwhale'',
    ''Bryde'', ''Graywhale'', ''Pilotwhale'', ''Killerwhale'', ''Falsekiller'',
    ''Melonhead'', ''Pygmykiller'', ''Frasers'', ''Rissos'', ''Spotted'',
    ''Spinner'', ''Bottlenose'', ''Common'', ''Striped'', ''Clymene'',
    ''Rough'', ''Hector'', ''Chilean'', ''Peruvian'', ''Commerson'',
    ''Peale'', ''Austral'', ''Hourglass'', ''Fitzroy'', ''Dusky'']"

text \<open>The counter is positive, so \<^verbatim>\<open>/\<close> and \<^verbatim>\<open>%\<close> are the natural ones and the indices are in range.\<close>

definition generateName :: "int \<Rightarrow> string" where
  "generateName counter =
     (let adjLen = int (length adjectives); animLen = int (length animals);
          animIdx = counter mod animLen; adjIdx = (counter div animLen) mod adjLen;
          numSuffix = 10 + (counter div (animLen * adjLen)) mod 90 in
      adjectives ! nat adjIdx @ ''-'' @ animals ! nat animIdx @ ''-'' @ show_int numSuffix)"

definition ClaimName :: "uenv \<Rightarrow> users_db \<Rightarrow> string result \<times> users_db" where
  "ClaimName env d =
     perform (wrap_call ''claiming name'' (ClaimNextName env d)) (\<lambda>counter d'. (Inr (generateName counter), d'))"

section \<open>Steps\<close>

datatype user_call =
    Call_Create string
  | Call_Delete string
  | Call_UpdateProfile string UpdateProfileInput
  | Call_UpdateNotificationPreferences string NotificationPrefsInput
  | Call_Update user
  | Call_UpdateMoiScore uuid int
  | Call_Restore uuid
  | Call_ClaimName

fun run_user_call :: "uenv \<Rightarrow> user_call \<Rightarrow> users_db \<Rightarrow> users_db" where
  "run_user_call env (Call_Create w) d = snd (UserService_Create env w d)"
| "run_user_call env (Call_Delete i) d = snd (UserService_Delete env i d)"
| "run_user_call env (Call_UpdateProfile i x) d = snd (UpdateProfile env i x d)"
| "run_user_call env (Call_UpdateNotificationPreferences i x) d = snd (UpdateNotificationPreferences env i x d)"
| "run_user_call env (Call_Update u) d = snd (UserService_Update env u d)"
| "run_user_call env (Call_UpdateMoiScore i n) d = snd (UpdateMoiScore env i n d)"
| "run_user_call env (Call_Restore i) d = snd (Restore env i d)"
| "run_user_call env Call_ClaimName d = snd (ClaimName env d)"

inductive users_step :: "users_db \<Rightarrow> users_db \<Rightarrow> bool" where
  call: "users_step d (run_user_call env c d)"

definition users_init :: users_db where
  "users_init = \<lparr>D_users = [], D_nameCounter = Some 0\<rparr>"

section \<open>Lemmas\<close>

text \<open>
  What every step keeps of a row, and the uniqueness of rows. A step rewrites rows in place
  and may append one that clashes with none.
\<close>

definition same_account :: "user \<Rightarrow> user \<Rightarrow> bool" where
  "same_account a b = (U_ID b = U_ID a \<and> U_WalletAddress b = U_WalletAddress a \<and> U_CreatedAt b = U_CreatedAt a)"

definition accounts_ok :: "users_db \<Rightarrow> bool" where
  "accounts_ok d = sorted_wrt (\<lambda>a b. \<not> users_clash a b) (D_users d)"

definition users_evolve :: "users_db \<Rightarrow> users_db \<Rightarrow> bool" where
  "users_evolve d d' = (\<exists>f new. D_users d' = map f (D_users d) @ new \<and> (\<forall>u. same_account u (f u))
     \<and> (accounts_ok d \<longrightarrow> accounts_ok d'))"

lemma same_account_refl [simp]: "same_account u u"
  by (simp add: same_account_def)

lemma users_clash_sym: "users_clash a b \<longleftrightarrow> users_clash b a"
  unfolding users_clash_def by metis

lemma users_clash_ID: "\<not> users_clash a b \<Longrightarrow> U_ID a \<noteq> U_ID b"
  by (simp add: users_clash_def)

lemma users_evolve_same: "D_users d' = D_users d \<Longrightarrow> users_evolve d d'"
  unfolding users_evolve_def by (intro exI [of _ id] exI [of _ "[]"]) (simp add: accounts_ok_def)

lemma users_evolve_refl [simp]: "users_evolve d d"
  by (simp add: users_evolve_same)

lemma users_evolve_update:
  assumes "\<And>u. same_account u (f u)"
    and "\<And>a b. U_ID a \<noteq> U_ID b \<Longrightarrow> a \<in> set (D_users d) \<Longrightarrow> b \<in> set (D_users d) \<Longrightarrow> \<not> users_clash a b
           \<Longrightarrow> \<not> users_clash (if p a then f a else a) (if p b then f b else b)"
  shows "users_evolve d (d\<lparr>D_users := update_where p f (D_users d)\<rparr>)"
proof -
  have "accounts_ok (d\<lparr>D_users := update_where p f (D_users d)\<rparr>)" if "accounts_ok d"
    using sorted_wrt_mono_rel [OF _ that [unfolded accounts_ok_def],
        of "\<lambda>a b. \<not> users_clash (if p a then f a else a) (if p b then f b else b)"] assms(2)
    by (simp add: accounts_ok_def update_where_def sorted_wrt_map users_clash_ID)
  then show ?thesis using assms(1) unfolding users_evolve_def
    by (intro exI [of _ "\<lambda>u. if p u then f u else u"] exI [of _ "[]"]) (auto simp: update_where_def)
qed

lemma users_evolve_append:
  assumes "\<And>r. r \<in> set (D_users d) \<Longrightarrow> \<not> users_clash u r"
  shows "users_evolve d (d\<lparr>D_users := D_users d @ [u]\<rparr>)"
  using assms unfolding users_evolve_def
  by (intro exI [of _ id] exI [of _ "[u]"]) (auto simp: accounts_ok_def sorted_wrt_append users_clash_sym [of _ u])

lemma update_check_None:
  assumes "update_check u d = None" "a \<in> set (D_users d)" "U_ID a = U_ID u" "b \<in> set (D_users d)" "U_ID b \<noteq> U_ID u"
    and "U_WalletAddress b \<noteq> U_WalletAddress a"
  shows "\<not> users_clash (write_user t u a) b"
proof -
  have "\<not> ((U_Email u \<noteq> None \<and> U_Email b = U_Email u)
      \<or> (U_PasskeyCredentialID u \<noteq> None \<and> U_PasskeyCredentialID b = U_PasskeyCredentialID u))"
    using assms(1-5) by (auto simp: update_check_def split: if_splits)
  then show ?thesis using assms(3,5,6) unfolding users_clash_def write_user_def by simp metis
qed

lemma User_Update_evolve: "users_evolve d (snd (User_Update env u d))"
proof -
  have "users_evolve d (d\<lparr>D_users := update_where (user_sel (U_ID u)) (write_user (now env) u) (D_users d)\<rparr>)"
    if "update_check u d = None"
  proof (rule users_evolve_update)
    show "same_account v (write_user (now env) u v)" for v by (simp add: same_account_def write_user_def)
    fix a b
    assume ab: "U_ID a \<noteq> U_ID b" "a \<in> set (D_users d)" "b \<in> set (D_users d)" "\<not> users_clash a b"
    then have "U_WalletAddress a \<noteq> U_WalletAddress b" by (simp add: users_clash_def)
    then show "\<not> users_clash (if user_sel (U_ID u) a then write_user (now env) u a else a)
        (if user_sel (U_ID u) b then write_user (now env) u b else b)"
      using ab update_check_None [OF that, of a b] update_check_None [OF that, of b a]
      by (auto simp: user_sel_def users_clash_sym [of a] split: if_splits)
  qed
  then show ?thesis unfolding User_Update_def
    by (intro perform_frame [where P = "users_evolve d"] guard_frame [where P = "users_evolve d"])
       (auto intro!: exec_stmt_frame [where P = "users_evolve d"])
qed

lemma in_place_evolve:
  assumes "\<And>u. same_account u (f u)" "\<And>u. U_Email (f u) = U_Email u" "\<And>u. U_PasskeyCredentialID (f u) = U_PasskeyCredentialID u"
  shows "users_evolve d (d\<lparr>D_users := update_where p f (D_users d)\<rparr>)"
proof (rule users_evolve_update [OF assms(1)])
  fix a b
  have "users_clash (if p a then f a else a) (if p b then f b else b) = users_clash a b"
    using assms(1) [of a] assms(1) [of b] by (simp add: users_clash_def same_account_def assms(2,3))
  then show "\<not> users_clash a b \<Longrightarrow> \<not> users_clash (if p a then f a else a) (if p b then f b else b)" by simp
qed

lemmas evolve_frame = perform_frame [where P = "users_evolve d" for d] guard_frame [where P = "users_evolve d" for d]
  attempt_frame [where P = "users_evolve d" for d] exec_stmt_frame [where P = "users_evolve d" for d]

lemma UpdateMoiScore_evolve: "users_evolve d (snd (UpdateMoiScore env i n d))"
  unfolding UpdateMoiScore_def
  by (intro evolve_frame) (auto intro!: evolve_frame in_place_evolve simp: same_account_def)

lemma User_Delete_evolve: "users_evolve d (snd (User_Delete env i d))"
  unfolding User_Delete_def Let_def
  by (intro evolve_frame) (auto intro!: evolve_frame in_place_evolve simp: same_account_def)

lemma Restore_evolve: "users_evolve d (snd (Restore env i d))"
  unfolding Restore_def Let_def
  by (intro evolve_frame) (auto intro!: evolve_frame in_place_evolve simp: same_account_def)

lemma User_Create_evolve: "users_evolve d (snd (User_Create env u d))"
proof -
  let ?u = "u\<lparr>U_NotificationChannels := [''inapp''], U_NotificationsMuted := False, U_DigestEnabled := False,
     U_DigestIntervalMinutes := 1440, U_PushToken := None, U_DeletedAt := None\<rparr>"
  have "users_evolve d (d\<lparr>D_users := D_users d @ [?u]\<rparr>)" if "\<forall>r \<in> set (D_users d). \<not> users_clash u r"
    using that by (intro users_evolve_append) (simp add: users_clash_def)
  then show ?thesis unfolding User_Create_def exec_stmt_def by (auto split: option.splits)
qed

lemma users_step_evolve: "users_step d d' \<Longrightarrow> users_evolve d d'"
proof (induction rule: users_step.induct)
  case (call d env c)
  show ?case
  proof (cases c)
    case (Call_Create w)
    then show ?thesis using User_Create_evolve [of d env "new_user env w"]
      by (auto simp: UserService_Create_def split: sum.splits prod.splits)
  next
    case Call_ClaimName
    then show ?thesis
      by (auto intro!: evolve_frame users_evolve_same
          simp: ClaimName_def ClaimNextName_def perform_def wrap_call_def split: sum.splits option.splits prod.splits)
  qed (auto intro!: evolve_frame User_Update_evolve UpdateMoiScore_evolve User_Delete_evolve Restore_evolve
        simp: UserService_Delete_def UpdateProfile_def UpdateNotificationPreferences_def UserService_Update_def)
qed

definition account :: "users_db \<Rightarrow> uuid \<Rightarrow> user option" where
  "account d i = List.find (user_sel i) (D_users d)"

lemma account_evolve:
  assumes "users_evolve d d'" "account d i = Some u"
  shows "\<exists>v. account d' i = Some v \<and> (v = u \<or> same_account u v)"
proof -
  from assms(1) obtain f new where f: "D_users d' = map f (D_users d) @ new" "\<And>u. same_account u (f u)"
    unfolding users_evolve_def by blast
  then have "U_ID (f u) = U_ID u" for u by (simp add: same_account_def)
  then have "List.find (user_sel i) (map f (D_users d)) = map_option f (account d i)"
    using find_map_key [of U_ID f i "D_users d"] by (simp add: account_def user_sel_def [abs_def])
  then show ?thesis using f assms(2) by (simp add: account_def find_append)
qed

interpretation accounts: lifecycle users_step account same_account
  by unfold_locales (rule account_evolve [OF users_step_evolve])

lemma users_reachable_ok: "users_step\<^sup>*\<^sup>* users_init d \<Longrightarrow> accounts_ok d"
proof (induction rule: rtranclp_induct)
  case (step y z)
  then show ?case using users_step_evolve by (auto simp: users_evolve_def)
qed (simp add: accounts_ok_def users_init_def)

section \<open>Properties\<close>

lemma accounts_ok_unique:
  assumes "accounts_ok d" "u \<in> set (D_users d)" "v \<in> set (D_users d)" "users_clash u v"
  shows "u = v"
proof -
  have "u = v" if "sorted_wrt (\<lambda>a b. \<not> users_clash a b) rows" "u \<in> set rows" "v \<in> set rows" for rows
    using that assms(4) users_clash_sym by (induction rows) auto
  then show ?thesis using assms(1-3) unfolding accounts_ok_def by blast
qed

text \<open>
  C31: accounts are unique and permanent: in every state the service can reach, no two rows (deleted ones
  included) share an identifier, a wallet, an e-mail hash or a passkey; and from then on an
  account keeps its identifier, wallet and creation time for ever, whatever calls follow and
  whichever of their statements fail.
\<close>

theorem accounts_unique_and_permanent:
  assumes "users_step\<^sup>*\<^sup>* users_init d" "users_step\<^sup>*\<^sup>* d d'"
  shows "(\<forall>u v. u \<in> set (D_users d) \<and> v \<in> set (D_users d) \<and> users_clash u v \<longrightarrow> u = v)
    \<and> (\<forall>i u. account d i = Some u \<longrightarrow> (\<exists>v. account d' i = Some v \<and> same_account u v))"
proof (intro conjI allI impI)
  show "u = v" if "u \<in> set (D_users d) \<and> v \<in> set (D_users d) \<and> users_clash u v" for u v
    using accounts_ok_unique [OF users_reachable_ok [OF assms(1)]] that by blast
next
  fix i u
  assume "account d i = Some u"
  then show "\<exists>v. account d' i = Some v \<and> same_account u v"
    using accounts.entry_keeps [OF assms(2), of i u "\<lambda>u. (U_ID u, U_WalletAddress u, U_CreatedAt u)"]
    by (auto simp: same_account_def)
qed

lemma live_user_None: "(\<And>u. u \<in> set (D_users d) \<Longrightarrow> p u \<Longrightarrow> U_DeletedAt u \<noteq> None) \<Longrightarrow> live_user p d = None"
  by (auto simp: live_user_def find_None_iff)

lemma account_D: "account d i = Some u \<Longrightarrow> u \<in> set (D_users d) \<and> U_ID u = i"
  by (auto simp: account_def user_sel_def dest: find_Some_D)

text \<open>Marking a live account as deleted, and its effect on the lookups.\<close>

abbreviation mark_deleted :: "time \<Rightarrow> uuid \<Rightarrow> users_db \<Rightarrow> users_db" where
  "mark_deleted t i d \<equiv> d\<lparr>D_users := update_where (user_sel i) (\<lambda>r. r\<lparr>U_DeletedAt := Some t, U_UpdatedAt := t\<rparr>) (D_users d)\<rparr>"

lemma live_account_only:
  assumes "accounts_ok d" "account d i = Some u" "r \<in> set (D_users d)" "U_ID r = i \<or> U_WalletAddress r = U_WalletAddress u"
  shows "r = u"
  using accounts_ok_unique [OF assms(1,3)] account_D [OF assms(2)] assms(4) by (auto simp: users_clash_def)

lemma User_Delete_live:
  assumes "accounts_ok d" "account d i = Some u" "U_DeletedAt u = None" "\<And>q. fault env q = None"
  shows "User_Delete env i d = (Inr (), mark_deleted (now env) i d)"
proof -
  have live: "user_sel i r \<and> U_DeletedAt r = None \<longleftrightarrow> user_sel i r" if "r \<in> set (D_users d)" for r
    using live_account_only [OF assms(1,2) that] assms(3) by (auto simp: user_sel_def)
  then have "update_where (\<lambda>r. user_sel i r \<and> U_DeletedAt r = None) f (D_users d) = update_where (user_sel i) f (D_users d)" for f
    by (auto simp: update_where_def)
  moreover have "rows_affected (\<lambda>r. user_sel i r \<and> U_DeletedAt r = None) (D_users d) \<noteq> 0"
    using account_D [OF assms(2)] live by (auto simp: user_sel_def)
  ultimately show ?thesis using assms(4) by (simp add: User_Delete_def Let_def del: rows_affected_0)
qed

lemma deleted_invisible:
  assumes "accounts_ok d" "account d i = Some u" "\<And>r. p r \<Longrightarrow> U_ID r = i \<or> U_WalletAddress r = U_WalletAddress u"
  shows "live_user p (mark_deleted t i d) = None"
proof (rule live_user_None)
  fix r
  assume "r \<in> set (D_users (mark_deleted t i d))" "p r"
  then obtain r0 where r0: "r0 \<in> set (D_users d)"
      "r = (if user_sel i r0 then r0\<lparr>U_DeletedAt := Some t, U_UpdatedAt := t\<rparr> else r0)"
    using set_update_where [of r "user_sel i"] by auto
  then have "U_ID r0 = i \<or> U_WalletAddress r0 = U_WalletAddress u" using assms(3) [OF \<open>p r\<close>] by (auto split: if_splits)
  then show "U_DeletedAt r \<noteq> None"
    using live_account_only [OF assms(1,2) r0(1)] r0(2) account_D [OF assms(2)] by (auto simp: user_sel_def)
qed

lemma undelete: "U_DeletedAt r = None \<Longrightarrow> r\<lparr>U_DeletedAt := None, U_UpdatedAt := t\<rparr> = r\<lparr>U_UpdatedAt := t\<rparr>"
  by (cases r) simp

lemma Restore_deleted:
  assumes "accounts_ok d" "account d i = Some u" "U_DeletedAt u = None" "\<And>q. fault env q = None"
  shows "Restore env i (mark_deleted t i d)
    = (Inr (), d\<lparr>D_users := update_where (user_sel i) (\<lambda>r. r\<lparr>U_UpdatedAt := now env\<rparr>) (D_users d)\<rparr>)"
proof -
  have "U_DeletedAt r = None" if "r \<in> set (D_users d)" "U_ID r = i" for r
    using live_account_only [OF assms(1,2)] that assms(3) by auto
  then have "update_where (\<lambda>r. user_sel i r \<and> U_DeletedAt r \<noteq> None) (\<lambda>r. r\<lparr>U_DeletedAt := None, U_UpdatedAt := now env\<rparr>)
        (D_users (mark_deleted t i d))
      = update_where (user_sel i) (\<lambda>r. r\<lparr>U_UpdatedAt := now env\<rparr>) (D_users d)"
    by (auto simp: update_where_def user_sel_def undelete)
  moreover have "rows_affected (\<lambda>r. user_sel i r \<and> U_DeletedAt r \<noteq> None) (D_users (mark_deleted t i d)) \<noteq> 0"
    using account_D [OF assms(2)] by (auto simp: user_sel_def update_where_def intro!: bexI [of _ "u\<lparr>U_DeletedAt := Some t, U_UpdatedAt := t\<rparr>"])
  ultimately show ?thesis using assms(4) by (simp add: Restore_def Let_def del: rows_affected_0)
qed

text \<open>
  Deleting and restoring: deleting a live account makes it invisible to the lookups by identifier
  and wallet that serve requests, touches no other row, and restoring it later gives the row
  back as it was, with only its update time changed.
\<close>

theorem delete_restore_round_trip:
  assumes "users_step\<^sup>*\<^sup>* users_init d" "account d i = Some u" "U_DeletedAt u = None"
    and "\<And>q. fault env q = None" "\<And>q. fault env' q = None"
  shows "\<exists>d'. User_Delete env i d = (Inr (), d')
     \<and> User_FindByID env' i d' = Inl (Sentinel App_ErrNotFound)
     \<and> FindByWalletAddress env' (U_WalletAddress u) d' = Inl (Sentinel App_ErrNotFound)
     \<and> Restore env' i d' = (Inr (), d\<lparr>D_users := update_where (user_sel i) (\<lambda>r. r\<lparr>U_UpdatedAt := now env'\<rparr>) (D_users d)\<rparr>)"
  using User_Delete_live [OF users_reachable_ok [OF assms(1)] assms(2-4)] assms(5)
    Restore_deleted [OF users_reachable_ok [OF assms(1)] assms(2,3,5)] deleted_invisible [OF users_reachable_ok [OF assms(1)] assms(2)]
  by (simp add: User_FindByID_def FindByWalletAddress_def scanUser_def)

text \<open>
  A deleted wallet is locked out: the unique index also covers deleted rows while the lookups skip
  them, so signing up again with the wallet of a deleted account always ends in
  \<^verbatim>\<open>conflict resolution failed\<close> and changes nothing.
\<close>

theorem deleted_wallet_locked_out:
  assumes "users_step\<^sup>*\<^sup>* users_init d" "r \<in> set (D_users d)" "U_WalletAddress r = wallet" "U_DeletedAt r \<noteq> None"
    and "\<And>q. fault env q = None"
  shows "UserService_Create env wallet d
    = (Inl (Wrap ''conflict resolution failed'' (Sentinel App_ErrNotFound)), d)"
proof -
  have "live_user (\<lambda>u. U_WalletAddress u = wallet) d = None"
    using accounts_ok_unique [OF users_reachable_ok [OF assms(1)] _ assms(2)] assms(3,4)
    by (intro live_user_None) (auto simp: users_clash_def)
  then have "FindByWalletAddress env wallet d = Inl (Sentinel App_ErrNotFound)"
    using assms(5) by (simp add: FindByWalletAddress_def scanUser_def)
  moreover have "users_clash (new_user env wallet) r" using assms(3) by (simp add: users_clash_def new_user_def)
  then have "User_Create env (new_user env wallet) d = (Inl (Sentinel App_ErrConflict), d)"
    using assms(2,5) by (auto simp: User_Create_def exec_stmt_def isUniqueViolationPg_def)
  ultimately show ?thesis by (simp add: UserService_Create_def)
qed

lemma word_counts: "length adjectives = 529" "length animals = 356"
  by (simp_all add: adjectives_def animals_def)

text \<open>
  Generated names: the counter always selects an adjective and an animal inside the lists and a
  suffix between 10 and 99, but the lists repeat words, so two of the first 220 names are equal.
\<close>

theorem generated_names_collide:
  "(\<forall>c. \<exists>a b n. generateName c = a @ ''-'' @ b @ ''-'' @ show_int n \<and> a \<in> set adjectives \<and> b \<in> set animals \<and> 10 \<le> n \<and> n \<le> 99)
   \<and> generateName 71 = generateName 219"
proof (intro conjI allI)
  fix c
  show "\<exists>a b n. generateName c = a @ ''-'' @ b @ ''-'' @ show_int n \<and> a \<in> set adjectives \<and> b \<in> set animals \<and> 10 \<le> n \<and> n \<le> 99"
    unfolding generateName_def Let_def
    by (intro exI conjI, rule refl) (auto intro!: nth_mem simp: word_counts nat_less_iff)
next
  have "animals ! 71 = animals ! 219" by (simp add: animals_def)
  then show "generateName 71 = generateName 219" by (simp add: generateName_def word_counts)
qed

section \<open>Demonstration\<close>

definition demo_uenv :: "time \<Rightarrow> uenv" where
  "demo_uenv t = \<lparr>uuid_Parse = (\<lambda>s. if s = ''one'' then Some 1 else None), uuid_String = (\<lambda>_. []), uuid_New = (\<lambda>n. 1 + of_nat n),
     now = t, fault = (\<lambda>_. None), HashEmail = (\<lambda>x. x), user_ilike = (\<lambda>_ _. False), score_to_int64 = oor_amd64\<rparr>"

definition demo_users :: users_db where
  "demo_users = run_user_call (demo_uenv 5) (Call_Create ''W'') users_init"

definition demo_user :: user where
  "demo_user = (new_user (demo_uenv 5) ''W'')\<lparr>U_NotificationChannels := [''inapp''], U_DigestIntervalMinutes := 1440\<rparr>"

definition demo_deleted :: users_db where
  "demo_deleted = run_user_call (demo_uenv 6) (Call_Delete ''one'') demo_users"

lemma demo_users_rows: "D_users demo_users = [demo_user]" "account demo_users 1 = Some demo_user"
  by code_simp+

lemma demo_deleted_rows: "D_users demo_deleted = [demo_user\<lparr>U_DeletedAt := Some 6, U_UpdatedAt := 6\<rparr>]"
  by code_simp

lemma demo_users_reachable: "users_step\<^sup>*\<^sup>* users_init demo_users" "users_step\<^sup>*\<^sup>* demo_users demo_deleted"
  unfolding demo_users_def demo_deleted_def by (rule r_into_rtranclp, rule users_step.call)+

lemma demo_deleted_reachable: "users_step\<^sup>*\<^sup>* users_init demo_deleted"
  using demo_users_reachable by (rule rtranclp_trans)

theorem accounts_unique_and_permanent_witness:
  "\<exists>v. account demo_deleted 1 = Some v \<and> same_account demo_user v"
  using accounts_unique_and_permanent [OF demo_users_reachable] demo_users_rows(2) by blast

theorem delete_restore_round_trip_witness:
  "\<exists>d'. User_Delete (demo_uenv 6) 1 demo_users = (Inr (), d') \<and> Restore (demo_uenv 7) 1 d'
     = (Inr (), demo_users\<lparr>D_users := [demo_user\<lparr>U_UpdatedAt := 7\<rparr>]\<rparr>)"
  using delete_restore_round_trip [OF demo_users_reachable(1) demo_users_rows(2), of "demo_uenv 6" "demo_uenv 7"]
  by (auto simp: demo_users_rows(1) demo_uenv_def user_sel_def demo_user_def new_user_def)

theorem deleted_wallet_locked_out_witness:
  "UserService_Create (demo_uenv 8) ''W'' demo_deleted
    = (Inl (Wrap ''conflict resolution failed'' (Sentinel App_ErrNotFound)), demo_deleted)"
  by (rule deleted_wallet_locked_out [OF demo_deleted_reachable, of "demo_user\<lparr>U_DeletedAt := Some 6, U_UpdatedAt := 6\<rparr>"])
     (simp_all add: demo_deleted_rows demo_uenv_def demo_user_def new_user_def)

end
