(* ===== verification/Reputation.thy ===== *)
theory Reputation
  imports Users
begin

text \<open>
  \<^verbatim>\<open>internal/domain/reputation\<close>: the score of a member and its monthly snapshots.

  \<^verbatim>\<open>math.Log\<close> is a field of the environment. The column \<^verbatim>\<open>month\<close> is a \<^verbatim>\<open>DATE\<close>, so a snapshot is keyed by
  user and day; \<^verbatim>\<open>breakdown\<close> is a \<^verbatim>\<open>JSONB NOT NULL\<close> column: an insert without a breakdown (the nil value
  of \<^verbatim>\<open>json.RawMessage\<close>, which the driver sends as NULL or as an empty text) is refused.
\<close>

section \<open>Model and repository\<close>

record ScoreBreakdown =
  SB_Streaks :: int
  SB_Completions :: int
  SB_Volume :: int
  SB_Recency :: int

record ReputationSnapshot =
  RP_UserID :: uuid
  RP_Score :: int
  RP_Level :: string
  RP_Breakdown :: "ScoreBreakdown option"
  RP_Month :: time
  RP_CreatedAt :: time

datatype rep_stmt = RQ_GetByUser uuid | RQ_Save uuid | RQ_History uuid

record renv = "rep_stmt env" +
  math_Log :: "float64 \<Rightarrow> float64"
  rep_to_int64 :: "float64 \<Rightarrow> int64"
  months_ago :: "int \<Rightarrow> time"

type_synonym rep_db = "ReputationSnapshot list"

abbreviation day :: duration where "day \<equiv> 86400 * second"

definition date_of :: "time \<Rightarrow> time" where
  "date_of t = (t div day) * day"

definition scanSnapshot :: "ReputationSnapshot option result \<Rightarrow> ReputationSnapshot result" where
  "scanSnapshot r =
     (case r of
        Inl e \<Rightarrow> if e = Sentinel Sql_ErrNoRows then Inl (Sentinel App_ErrNotFound)
                else Inl (Wrap ''scanning reputation snapshot'' e)
      | Inr None \<Rightarrow> Inl (Sentinel App_ErrNotFound)
      | Inr (Some s) \<Rightarrow> Inr s)"

definition GetByUser :: "renv \<Rightarrow> uuid \<Rightarrow> rep_db \<Rightarrow> ReputationSnapshot result" where
  "GetByUser env u d =
     scanSnapshot (run_query env (RQ_GetByUser u)
       (case sort_key (\<lambda>s. - RP_Month s) (filter (\<lambda>s. RP_UserID s = u) d) of [] \<Rightarrow> None | s # _ \<Rightarrow> Some s))"

definition SaveSnapshot :: "renv \<Rightarrow> ReputationSnapshot \<Rightarrow> rep_db \<Rightarrow> unit result \<times> rep_db" where
  "SaveSnapshot env s d =
     (let row = s\<lparr>RP_Month := date_of (RP_Month s)\<rparr>;
          same = (\<lambda>r. RP_UserID r = RP_UserID s \<and> RP_Month r = date_of (RP_Month s)) in
      case exec_stmt env (RQ_Save (RP_UserID s))
             (\<lambda>d. if RP_Breakdown s = None then Some (Driver ''pq: invalid breakdown'') else None)
             (\<lambda>d. if \<exists>r \<in> set d. same r
                  then update_where same (\<lambda>r. r\<lparr>RP_Score := RP_Score s, RP_Level := RP_Level s,
                         RP_Breakdown := RP_Breakdown s, RP_CreatedAt := RP_CreatedAt s\<rparr>) d
                  else d @ [row]) d of
        (Inl e, d') \<Rightarrow>
          (if isUniqueViolationPg e then Inl (Sentinel App_ErrConflict) else Inl (Wrap ''saving reputation snapshot'' e), d')
      | (Inr x, d') \<Rightarrow> (Inr x, d'))"

definition GetHistory :: "renv \<Rightarrow> uuid \<Rightarrow> int \<Rightarrow> rep_db \<Rightarrow> ReputationSnapshot list result" where
  "GetHistory env u months d =
     (let m = (if months < 1 then 12 else months) in
      wrap_err ''getting reputation history'' (run_query env (RQ_History u)
        (sort_key RP_Month (filter (\<lambda>s. RP_UserID s = u \<and> RP_Month s \<ge> date_of (months_ago env m)) d))))"

section \<open>Service\<close>

definition rep_parseUUID :: "renv \<Rightarrow> string \<Rightarrow> uuid result" where
  "rep_parseUUID env x = (case uuid_Parse env x of None \<Rightarrow> Inl (Wrap ''invalid UUID'' (Driver ''invalid UUID'')) | Some u \<Rightarrow> Inr u)"

definition math_Max :: "float64 \<Rightarrow> float64 \<Rightarrow> float64" where
  "math_Max x y = (if isNaN x \<or> isNaN y then NaN else if flt x y then y else x)"

definition streak_part :: "int \<Rightarrow> float64" where
  "streak_part n = math_Min (fmul (of_int64 n) 35) (Finite 350)"

definition completion_part :: "int \<Rightarrow> float64" where
  "completion_part n = math_Min (fmul (of_int64 n) 50) (Finite 300)"

definition volume_part :: "renv \<Rightarrow> float64 \<Rightarrow> float64" where
  "volume_part env v = math_Min (fmul (math_Log env (math_Max v (Finite 1))) 30) (Finite 200)"

definition recency_part :: "int \<Rightarrow> float64" where
  "recency_part n = math_Max (Finite 0) (fsub (Finite 150) (fmul (of_int64 n) 5))"

definition total_score :: "renv \<Rightarrow> int \<Rightarrow> int \<Rightarrow> float64 \<Rightarrow> int \<Rightarrow> int" where
  "total_score env streaks completed volume days =
     (let t = sint (to_int64 (rep_to_int64 env) (math_Round
            (fadd (fadd (fadd (streak_part streaks) (completion_part completed)) (volume_part env volume)) (recency_part days)))) in
      if t > 1000 then 1000 else t)"

definition CalculateScore :: "renv \<Rightarrow> string \<Rightarrow> int \<Rightarrow> int \<Rightarrow> float64 \<Rightarrow> int \<Rightarrow> ReputationSnapshot result" where
  "CalculateScore env userID streaks completed volume days =
     (case rep_parseUUID env userID of
        Inl e \<Rightarrow> Inl e
      | Inr uid \<Rightarrow>
          let total = total_score env streaks completed volume days; int_of = (\<lambda>f. sint (to_int64 (rep_to_int64 env) f)) in
          Inr \<lparr>RP_UserID = uid, RP_Score = total, RP_Level = calcLevel total,
            RP_Breakdown = Some \<lparr>SB_Streaks = int_of (streak_part streaks), SB_Completions = int_of (completion_part completed),
              SB_Volume = int_of (volume_part env volume), SB_Recency = int_of (recency_part days)\<rparr>,
            RP_Month = now env, RP_CreatedAt = now env\<rparr>)"

definition UpdateScore :: "renv \<Rightarrow> string \<Rightarrow> int \<Rightarrow> int \<Rightarrow> float64 \<Rightarrow> int \<Rightarrow> rep_db \<Rightarrow> ReputationSnapshot result \<times> rep_db" where
  "UpdateScore env userID streaks completed volume days d =
     attempt (CalculateScore env userID streaks completed volume days) d (\<lambda>snap.
     perform (wrap_call ''saving reputation snapshot'' (SaveSnapshot env snap d)) (\<lambda>_ d'. (Inr snap, d')))"

section \<open>Bounds\<close>

definition fbetween :: "float64 \<Rightarrow> rat \<Rightarrow> rat \<Rightarrow> bool" where
  "fbetween f a b = (case f of Finite x \<Rightarrow> a \<le> x \<and> x \<le> b | _ \<Rightarrow> False)"

lemma round_mag_near: "\<bar>round_mag x - x\<bar> \<le> 2 powi quantum x / 2"
proof -
  define q where "q = (2 powi quantum x :: rat)"
  have q: "0 < q" by (simp add: q_def)
  have "round_mag x - x = (of_int (rne (x / q)) - x / q) * q" using q by (simp add: round_mag_def q_def [symmetric] left_diff_distrib)
  then have "\<bar>round_mag x - x\<bar> = \<bar>of_int (rne (x / q)) - x / q\<bar> * q" using q by (simp add: abs_mult)
  also have "\<dots> \<le> 1/2 * q" using q by (intro mult_right_mono rne_error) simp
  finally show ?thesis by (simp add: q_def)
qed

lemma fl_small:
  assumes "0 \<le> x" "x \<le> 2 ^ 20"
  shows "fbetween (fl x) 0 (x + 1/8)"
proof (cases "x = 0")
  case False
  then have x: "0 < x" using assms(1) by simp
  have "x < 2 powi 21" using assms(2) by simp
  then have "ilog2 x < 21" by (rule ilog2_less [OF x])
  then have "quantum x \<le> -3" using x by (simp add: quantum_def)
  then have "(2 :: rat) powi quantum x \<le> 2 powi (-3)" by (intro power_int_increasing) simp_all
  then have near: "\<bar>round_mag x - x\<bar> \<le> 1/8" using round_mag_near [of x] by simp
  have "0 \<le> round_mag x" using x rne_nonneg [of "x / 2 powi quantum x"] by (simp add: round_mag_def)
  moreover have hi: "round_mag x \<le> x + 1/8" using near by linarith
  moreover have "round_mag x < 2 ^ 1024"
  proof -
    note hi
    also have "\<dots> \<le> 2 ^ 21" using assms(2) by simp
    also have "\<dots> < (2 :: rat) ^ 1024" by (intro power_strict_increasing) simp_all
    finally show ?thesis .
  qed
  ultimately show ?thesis using fl_finite [OF x] by (simp add: fbetween_def)
qed (simp add: fl_def fbetween_def)

lemma fadd_between:
  assumes "fbetween f 0 a" "fbetween g 0 b" "a + b \<le> 2 ^ 20"
  shows "fbetween (fadd f g) 0 (a + b + 1/8)"
proof (cases f; cases g)
  fix x y
  assume "f = Finite x" "g = Finite y"
  then show ?thesis using assms fl_small [of "x + y"] by (cases "fl (x + y)") (auto simp: fbetween_def)
qed (use assms in \<open>auto simp: fbetween_def\<close>)

lemma capped_product:
  assumes "0 \<le> n" "n \<le> 2 ^ 40" "0 < k" "k \<le> 2 ^ 10"
  shows "fbetween (math_Min (fmul (of_int64 n) (of_int k)) (Finite cap)) 0 cap \<or> cap < 0"
proof -
  have "fl (of_int n) = Finite (of_int n)" using assms(1,2) by (intro fl_of_int) simp
  moreover have "n * k \<le> 2 ^ 40 * 2 ^ 10" using assms by (intro mult_mono) simp_all
  then have "fl (of_int (n * k)) = Finite (of_int (n * k))" using assms(1,3) by (intro fl_of_int) simp
  ultimately show ?thesis using assms(1,3) by (auto simp: math_Min_def of_int64_def fbetween_def)
qed

lemma streak_part_between: "0 \<le> n \<Longrightarrow> n \<le> 2 ^ 40 \<Longrightarrow> fbetween (streak_part n) 0 350"
  using capped_product [of n 35 350] by (simp add: streak_part_def)

lemma completion_part_between: "0 \<le> n \<Longrightarrow> n \<le> 2 ^ 40 \<Longrightarrow> fbetween (completion_part n) 0 300"
  using capped_product [of n 50 300] by (simp add: completion_part_def)

lemma recency_part_between:
  assumes "0 \<le> n" "n \<le> 2 ^ 40"
  shows "fbetween (recency_part n) 0 150"
proof -
  have "fl (of_int n) = Finite (of_int n)" using assms by (intro fl_of_int) simp
  moreover have "fl (of_int (n * 5)) = Finite (of_int (n * 5))" using assms by (intro fl_of_int) simp
  moreover have "fl (of_int (150 - n * 5)) = Finite (of_int (150 - n * 5))" using assms by (intro fl_of_int) simp
  ultimately show ?thesis using assms(1)
    by (auto simp: recency_part_def math_Max_def of_int64_def fbetween_def fsub_def)
qed

text \<open>
  What the score needs of \<^verbatim>\<open>math.Log\<close>: the logarithm of a number from 1 on is a non-negative number,
  finite for finite arguments.
\<close>

definition log_ok :: "renv \<Rightarrow> bool" where
  "log_ok env = (\<forall>v. (case v of Finite x \<Rightarrow> 1 \<le> x | Infinity neg \<Rightarrow> \<not> neg | NaN \<Rightarrow> False) \<longrightarrow>
     (case math_Log env v of Finite y \<Rightarrow> 0 \<le> y | Infinity neg \<Rightarrow> \<not> neg | NaN \<Rightarrow> False))"

lemma fl_nonneg: "0 \<le> x \<Longrightarrow> (case fl x of Finite y \<Rightarrow> 0 \<le> y | Infinity neg \<Rightarrow> \<not> neg | NaN \<Rightarrow> False)"
  using rne_nonneg [of "x / 2 powi quantum x"] by (simp add: fl_def round_mag_def)

lemma volume_part_between:
  assumes "log_ok env" "\<not> isNaN v"
  shows "fbetween (volume_part env v) 0 200"
proof -
  let ?m = "math_Max v (Finite 1)"
  have "case ?m of Finite x \<Rightarrow> 1 \<le> x | Infinity neg \<Rightarrow> \<not> neg | NaN \<Rightarrow> False"
    using assms(2) by (cases v) (auto simp: math_Max_def)
  then have "case math_Log env ?m of Finite y \<Rightarrow> 0 \<le> y | Infinity neg \<Rightarrow> \<not> neg | NaN \<Rightarrow> False"
    using assms(1) unfolding log_ok_def by blast
  then have "case fmul (math_Log env ?m) 30 of Finite y \<Rightarrow> 0 \<le> y | Infinity neg \<Rightarrow> \<not> neg | NaN \<Rightarrow> False"
    by (cases "math_Log env ?m") (auto intro: fl_nonneg)
  then show ?thesis unfolding volume_part_def
    by (cases "fmul (math_Log env ?m) 30") (auto simp: math_Min_def fbetween_def)
qed

lemma rna_between: "0 \<le> x \<Longrightarrow> x \<le> of_int n \<Longrightarrow> 0 \<le> rna x \<and> rna x \<le> n"
  by (auto simp: rna_def floor_le_iff)

section \<open>Properties\<close>

text \<open>
  C32: the score stays on its scale: for counts between 0 and \<open>2^40\<close>, any volume that is a number and a logarithm with
  the usual bounds, a calculated score is between 0 and 1000 and its level is the one of the score.
\<close>

theorem score_on_scale:
  assumes "0 \<le> streaks" "streaks \<le> 2 ^ 40" "0 \<le> completed" "completed \<le> 2 ^ 40" "0 \<le> days" "days \<le> 2 ^ 40"
    and "\<not> isNaN volume" "log_ok env" "CalculateScore env userID streaks completed volume days = Inr snap"
  shows "0 \<le> RP_Score snap \<and> RP_Score snap \<le> 1000 \<and> RP_Level snap = calcLevel (RP_Score snap)"
proof -
  let ?f = "fadd (fadd (fadd (streak_part streaks) (completion_part completed)) (volume_part env volume)) (recency_part days)"
  have "fbetween (fadd (streak_part streaks) (completion_part completed)) 0 (350 + 300 + 1/8)"
    using assms by (intro fadd_between streak_part_between completion_part_between) simp_all
  from fadd_between [OF this volume_part_between [OF assms(8,7)]]
  have "fbetween (fadd (fadd (streak_part streaks) (completion_part completed)) (volume_part env volume)) 0 (350 + 300 + 1/8 + 200 + 1/8)"
    by simp
  from fadd_between [OF this recency_part_between [OF assms(5,6)]]
  have "fbetween ?f 0 (350 + 300 + 1/8 + 200 + 1/8 + 150 + 1/8)" by simp
  then obtain x where x: "?f = Finite x" "0 \<le> x" "x \<le> of_int 1001" by (cases ?f) (auto simp: fbetween_def)
  then have "0 \<le> rna x" "rna x \<le> 1001" using rna_between by blast+
  then have "0 \<le> total_score env streaks completed volume days" "total_score env streaks completed volume days \<le> 1000"
    using x(1) by (simp_all add: total_score_def Let_def sint_word_of_int64 in_int64_def)
  moreover have "RP_Score snap = total_score env streaks completed volume days" "RP_Level snap = calcLevel (RP_Score snap)"
    using assms(9) by (auto simp: CalculateScore_def Let_def split: sum.splits)
  ultimately show ?thesis by simp
qed

definition demo_renv :: renv where
  "demo_renv = \<lparr>uuid_Parse = (\<lambda>s. if s = ''one'' then Some 1 else None), uuid_String = (\<lambda>_. []), uuid_New = (\<lambda>n. of_nat n), now = 9,
     fault = (\<lambda>_. None), math_Log = (\<lambda>_. Finite 2), rep_to_int64 = oor_amd64, months_ago = (\<lambda>_. 0)\<rparr>"

lemma demo_log_ok: "log_ok demo_renv"
  by (simp add: log_ok_def demo_renv_def)

theorem score_on_scale_witness:
  "\<exists>snap. CalculateScore demo_renv ''one'' 3 1 (Finite 100) 2 = Inr snap \<and> 0 \<le> RP_Score snap \<and> RP_Score snap \<le> 1000"
proof -
  obtain snap where "CalculateScore demo_renv ''one'' 3 1 (Finite 100) 2 = Inr snap"
    by (simp add: CalculateScore_def rep_parseUUID_def demo_renv_def Let_def)
  with score_on_scale [of 3 1 2 "Finite 100" demo_renv "''one''" snap] demo_log_ok show ?thesis by auto
qed

end
