(* ===== verification/XdrParser.thy ===== *)
theory XdrParser
  imports Float64 Decimal "HOL-Library.AList" "HOL-Library.List_Lexorder" "HOL-Library.Char_ord"
begin

text \<open>
  \<^verbatim>\<open>internal/indexer/xdr_parser.go\<close> and \<^verbatim>\<open>events.go\<close>: from the result metadata of a transaction to typed
  contract events, and the accessors of \<^verbatim>\<open>processor.go\<close> that read their payload.

  The XDR library is outside the repository: \<open>sc_val\<close>, \<open>sc_address\<close> and \<open>raw_event\<close> are the unions its
  generated types represent, and \<open>decode_meta\<close> is what unmarshalling yields (the events of the
  Soroban part of a version 3 metadata, or nothing). Go values of type \<^verbatim>\<open>any\<close> are the datatype
  \<open>gval\<close>; a Go map is an association list with distinct keys.
\<close>

section \<open>Values\<close>

type_synonym byte = "8 word"

datatype sc_address = AccountAddress "byte list option" | ContractAddress "byte list option" | OtherAddress

datatype sc_val =
    ScvBool bool
  | ScvVoid
  | ScvU32 "32 word"
  | ScvI32 "32 word"
  | ScvU64 int64
  | ScvI64 int64
  | ScvU128 int64 int64
  | ScvI128 int64 int64
  | ScvSymbol string
  | ScvString string
  | ScvBytes "byte list"
  | ScvAddress sc_address
  | ScvVec "sc_val list option"
  | ScvMap "(sc_val \<times> sc_val) list option"
  | ScvOther nat

datatype gval =
    GNil
  | GBool bool
  | GString string
  | GUint32 "32 word"
  | GInt32 "32 word"
  | GUint64 int64
  | GInt64 int64
  | GInt int64
  | GFloat32 float64
  | GFloat64 float64
  | GSlice "gval list"
  | GMap "(string \<times> gval) list"

type_synonym payload = "(string \<times> gval) list"

record raw_event =
  RE_isContract :: bool
  RE_ContractId :: "byte list option"
  RE_Body :: "(sc_val list \<times> sc_val) option"

datatype meta_decoding =
    Base64_error error
  | Xdr_error error
  | Meta "raw_event list option"

record xenv =
  decode_meta :: "string \<Rightarrow> meta_decoding"
  account_Address :: "byte list \<Rightarrow> string"

record ContractEvent =
  CE_ContractID :: string
  CE_EventType :: string
  CE_Ledger :: int
  CE_TxHash :: string
  CE_LedgerCloseTime :: time
  CE_Payload :: payload

text \<open>The zero value of \<^verbatim>\<open>time.Time\<close> is the first of January of the year 1.\<close>

definition zero_time :: time where
  "zero_time = - 62135596800 * second"

section \<open>Texts\<close>

definition hex_digit :: "nat \<Rightarrow> char" where
  "hex_digit n = ''0123456789abcdef'' ! n"

definition hex :: "byte list \<Rightarrow> string" where
  "hex bs = concat (map (\<lambda>b. [hex_digit (unat b div 16), hex_digit (unat b mod 16)]) bs)"

definition base64_char :: "nat \<Rightarrow> char" where
  "base64_char n = ''ABCDEFGHIJKLMNOPQRSTUVWXYZabcdefghijklmnopqrstuvwxyz0123456789+/'' ! n"

fun base64_encode :: "byte list \<Rightarrow> string" where
  "base64_encode [] = []"
| "base64_encode [a] = (let n = unat a * 16 in [base64_char (n div 64), base64_char (n mod 64), CHR ''='', CHR ''=''])"
| "base64_encode [a, b] =
     (let n = (unat a * 256 + unat b) * 4 in
      [base64_char (n div 4096), base64_char (n div 64 mod 64), base64_char (n mod 64), CHR ''=''])"
| "base64_encode (a # b # c # rest) =
     (let n = unat a * 65536 + unat b * 256 + unat c in
      [base64_char (n div 262144), base64_char (n div 4096 mod 64), base64_char (n div 64 mod 64), base64_char (n mod 64)]
        @ base64_encode rest)"

text \<open>\<^verbatim>\<open>%018d\<close> pads to eighteen digits.\<close>

definition pad18 :: "nat \<Rightarrow> string" where
  "pad18 n = replicate (18 - length (show_nat n)) CHR ''0'' @ show_nat n"

definition payloadSnippet :: "string \<Rightarrow> string" where
  "payloadSnippet s = (if length s > 128 then take 128 s @ ''...'' else s)"

definition join :: "string list \<Rightarrow> string" where
  "join xs = (case xs of [] \<Rightarrow> [] | y # ys \<Rightarrow> y @ concat (map (\<lambda>z. '' '' @ z) ys))"

text \<open>\<^verbatim>\<open>fmt.Sprintf("%v", v)\<close> for the values decoding produces; maps print with sorted keys.\<close>

primrec fmt_v :: "gval \<Rightarrow> string" where
  "fmt_v GNil = ''<nil>''"
| "fmt_v (GBool b) = (if b then ''true'' else ''false'')"
| "fmt_v (GString s) = s"
| "fmt_v (GUint32 w) = show_nat (unat w)"
| "fmt_v (GInt32 w) = show_int (sint w)"
| "fmt_v (GUint64 w) = show_nat (unat w)"
| "fmt_v (GInt64 w) = show_int (sint w)"
| "fmt_v (GInt w) = show_int (sint w)"
| "fmt_v (GFloat32 f) = []"
| "fmt_v (GFloat64 f) = []"
| "fmt_v (GSlice vs) = ''['' @ join (map fmt_v vs) @ '']''"
| "fmt_v (GMap kvs) =
     ''map['' @ join (map (\<lambda>(k, t). k @ '':'' @ t) (sort_key fst (map (map_prod id fmt_v) kvs))) @ '']''"

section \<open>Decoding\<close>

definition scAddressToString :: "xenv \<Rightarrow> sc_address \<Rightarrow> string" where
  "scAddressToString env a =
     (case a of
        AccountAddress (Some k) \<Rightarrow> account_Address env k
      | ContractAddress (Some k) \<Rightarrow> hex k
      | _ \<Rightarrow> [])"

definition decodeSymbol :: "sc_val \<Rightarrow> string" where
  "decodeSymbol v = (case v of ScvSymbol s \<Rightarrow> s | ScvString s \<Rightarrow> s | _ \<Rightarrow> [])"

definition u128_text :: "int64 \<Rightarrow> int64 \<Rightarrow> string" where
  "u128_text hi lo = (if hi = 0 then show_nat (unat lo) else show_nat (unat hi) @ pad18 (unat lo))"

definition i128_text :: "int64 \<Rightarrow> int64 \<Rightarrow> string" where
  "i128_text hi lo = (if hi = 0 then show_nat (unat lo) else show_int (sint hi) @ pad18 (unat lo))"

definition map_entries :: "(gval \<times> gval) list \<Rightarrow> payload" where
  "map_entries es = foldl (\<lambda>m (k, v). AList.update (fmt_v k) v m) [] es"

primrec scValToGo :: "xenv \<Rightarrow> sc_val \<Rightarrow> gval" where
  "scValToGo env (ScvBool b) = GBool b"
| "scValToGo env ScvVoid = GNil"
| "scValToGo env (ScvU32 w) = GUint32 w"
| "scValToGo env (ScvI32 w) = GInt32 w"
| "scValToGo env (ScvU64 w) = GUint64 w"
| "scValToGo env (ScvI64 w) = GInt64 w"
| "scValToGo env (ScvU128 hi lo) = GString (u128_text hi lo)"
| "scValToGo env (ScvI128 hi lo) = GString (i128_text hi lo)"
| "scValToGo env (ScvSymbol s) = GString s"
| "scValToGo env (ScvString s) = GString s"
| "scValToGo env (ScvBytes bs) = GString (base64_encode bs)"
| "scValToGo env (ScvAddress a) = GString (scAddressToString env a)"
| "scValToGo env (ScvVec vs) =
     (case map_option (map (scValToGo env)) vs of None \<Rightarrow> GNil | Some gs \<Rightarrow> GSlice gs)"
| "scValToGo env (ScvMap kvs) =
     (case map_option (map (map_prod (scValToGo env) (scValToGo env))) kvs of
        None \<Rightarrow> GNil | Some es \<Rightarrow> GMap (map_entries es))"
| "scValToGo env (ScvOther t) = GString (''<SCVal type='' @ show_nat t @ ''>'')"

definition topic_key :: "nat \<Rightarrow> string" where
  "topic_key i = ''topic_'' @ show_nat (i + 1)"

definition decodePayload :: "xenv \<Rightarrow> sc_val list \<Rightarrow> sc_val \<Rightarrow> payload" where
  "decodePayload env remainingTopics dta =
     map (\<lambda>(i, t). (topic_key i, scValToGo env t)) (enumerate 0 remainingTopics)
     @ (if scValToGo env dta \<noteq> GNil then [(''data'', scValToGo env dta)] else [])"

definition decodeContractEvent :: "xenv \<Rightarrow> string \<Rightarrow> int \<Rightarrow> raw_event \<Rightarrow> ContractEvent option" where
  "decodeContractEvent env txHash l raw =
     (if \<not> RE_isContract raw then None
      else case RE_Body raw of
        None \<Rightarrow> None
      | Some (topics, dta) \<Rightarrow>
          (case topics of
             [] \<Rightarrow> None
           | t # remaining \<Rightarrow>
               if decodeSymbol t = [] then None
               else Some \<lparr>CE_ContractID = (case RE_ContractId raw of None \<Rightarrow> [] | Some h \<Rightarrow> hex h),
                      CE_EventType = decodeSymbol t, CE_Ledger = l, CE_TxHash = txHash,
                      CE_LedgerCloseTime = zero_time, CE_Payload = decodePayload env remaining dta\<rparr>))"

fun decode_loop :: "xenv \<Rightarrow> string \<Rightarrow> int \<Rightarrow> raw_event list \<Rightarrow> ContractEvent list \<Rightarrow> nat \<Rightarrow> ContractEvent list \<times> nat" where
  "decode_loop env txHash l [] events skipped = (events, skipped)"
| "decode_loop env txHash l (raw # raws) events skipped =
     (case decodeContractEvent env txHash l raw of
        None \<Rightarrow> decode_loop env txHash l raws events (Suc skipped)
      | Some ev \<Rightarrow> decode_loop env txHash l raws (events @ [ev]) skipped)"

definition ParseContractEvents :: "xenv \<Rightarrow> string \<Rightarrow> int \<Rightarrow> string \<Rightarrow> (ContractEvent list \<times> nat) result" where
  "ParseContractEvents env txHash l resultMetaXDR =
     (if resultMetaXDR = [] then Inr ([], 0)
      else case decode_meta env resultMetaXDR of
        Base64_error e \<Rightarrow> Inl (Wrap ''base64 decode result_meta_xdr'' e)
      | Xdr_error e \<Rightarrow> Inl (Wrap ''xdr unmarshal TransactionMeta'' e)
      | Meta None \<Rightarrow> Inr ([], 0)
      | Meta (Some raws) \<Rightarrow> Inr (decode_loop env txHash l raws [] 0))"

section \<open>Payload accessors\<close>

definition payloadStr :: "payload \<Rightarrow> string \<Rightarrow> string" where
  "payloadStr p key = (case map_of p key of Some (GString s) \<Rightarrow> s | _ \<Rightarrow> [])"

definition payloadFloat :: "payload \<Rightarrow> string \<Rightarrow> float64" where
  "payloadFloat p key =
     (case map_of p key of
        Some (GFloat64 f) \<Rightarrow> f
      | Some (GFloat32 f) \<Rightarrow> f
      | Some (GInt i) \<Rightarrow> of_int64 (sint i)
      | Some (GInt64 i) \<Rightarrow> of_int64 (sint i)
      | Some (GUint64 i) \<Rightarrow> of_int64 (uint i)
      | _ \<Rightarrow> Finite 0)"

text \<open>\<open>oor\<close> is the conversion of a float that does not fit.\<close>

definition payloadInt :: "(float64 \<Rightarrow> int64) \<Rightarrow> payload \<Rightarrow> string \<Rightarrow> int" where
  "payloadInt oor p key =
     (case map_of p key of
        Some (GInt i) \<Rightarrow> sint i
      | Some (GInt32 i) \<Rightarrow> sint i
      | Some (GInt64 i) \<Rightarrow> sint i
      | Some (GUint32 i) \<Rightarrow> uint i
      | Some (GFloat64 f) \<Rightarrow> sint (to_int64 oor f)
      | _ \<Rightarrow> 0)"

section \<open>Lemmas\<close>

lemma decode_loop_spec:
  "decode_loop env h l raws evs k =
     (evs @ List.map_filter (decodeContractEvent env h l) raws,
      k + length (filter (\<lambda>r. decodeContractEvent env h l r = None) raws))"
  by (induction env h l raws evs k rule: decode_loop.induct) (auto simp: List.map_filter_simps split: option.splits)

lemma length_map_filter: "length (List.map_filter f xs) + length (filter (\<lambda>x. f x = None) xs) = length xs"
  by (induction xs) (auto simp: List.map_filter_simps split: option.splits)

text \<open>A name that decoding never uses as a key.\<close>

definition named_field :: "string \<Rightarrow> bool" where
  "named_field k = (k \<noteq> ''data'' \<and> take 6 k \<noteq> ''topic_'')"

lemma decodePayload_named: "named_field k \<Longrightarrow> map_of (decodePayload env ts dta) k = None"
  by (auto simp: decodePayload_def named_field_def topic_key_def map_of_eq_None_iff)

lemma decoded_payload: "decodeContractEvent env h l raw = Some ev \<Longrightarrow> \<exists>ts dta. CE_Payload ev = decodePayload env ts dta"
  unfolding decodeContractEvent_def by (fastforce split: if_splits option.splits list.splits)

lemma ParseContractEvents_decoded:
  assumes "ParseContractEvents env h l x = Inr (evs, n)" "ev \<in> set evs"
  shows "\<exists>raw. decodeContractEvent env h l raw = Some ev"
  using assms unfolding ParseContractEvents_def decode_loop_spec List.map_filter_def
  by (fastforce split: if_splits meta_decoding.splits option.splits)

lemma decoded_named:
  assumes "ParseContractEvents env h l x = Inr (evs, n)" "ev \<in> set evs" "named_field k"
  shows "map_of (CE_Payload ev) k = None"
  using ParseContractEvents_decoded [OF assms(1,2)] decoded_payload decodePayload_named [OF assms(3)] by metis

section \<open>Properties\<close>

text \<open>
  Every event of a transaction is accounted for: parsing either reports a decoding error of the whole
  metadata, or returns, in order, exactly the events that decode, together with the number of
  those that do not; each returned event carries the hash and ledger of the transaction.
\<close>

theorem every_event_accounted:
  assumes "ParseContractEvents env h l x = Inr (evs, skipped)" "decode_meta env x = Meta (Some raws)" "x \<noteq> []"
  shows "evs = List.map_filter (decodeContractEvent env h l) raws \<and> length evs + skipped = length raws
    \<and> (\<forall>ev \<in> set evs. CE_TxHash ev = h \<and> CE_Ledger ev = l \<and> CE_EventType ev \<noteq> [])"
proof -
  have evs: "evs = List.map_filter (decodeContractEvent env h l) raws"
      "skipped = length (filter (\<lambda>r. decodeContractEvent env h l r = None) raws)"
    using assms by (auto simp: ParseContractEvents_def decode_loop_spec)
  moreover have "CE_TxHash ev = h \<and> CE_Ledger ev = l \<and> CE_EventType ev \<noteq> []" if "ev \<in> set evs" for ev
    using ParseContractEvents_decoded [OF assms(1) that]
    by (auto simp: decodeContractEvent_def split: if_splits option.splits list.splits)
  ultimately show ?thesis using length_map_filter [of "decodeContractEvent env h l" raws] by simp
qed

text \<open>
  Decoded payloads have no named fields: their keys are \<^verbatim>\<open>data\<close> and \<^verbatim>\<open>topic_1\<close>, \<^verbatim>\<open>topic_2\<close> and so on, so every
  accessor that the event handlers apply to a decoded event, for \<^verbatim>\<open>circle_id\<close>, \<^verbatim>\<open>member\<close>,
  \<^verbatim>\<open>amount\<close>, \<^verbatim>\<open>round\<close> or any other field name, returns the zero value.
\<close>

theorem decoded_payload_has_no_fields:
  assumes "ParseContractEvents env h l x = Inr (evs, skipped)" "ev \<in> set evs"
    and "k \<in> {''circle_id'', ''creator'', ''member'', ''amount'', ''round'', ''recipient'', ''payout_type'', ''penalty_amount'',
       ''strikes'', ''penalty'', ''total_contributions'', ''bidder'', ''discount_bips'', ''voter'', ''vote_for'', ''evidence_hash''}"
  shows "payloadStr (CE_Payload ev) k = [] \<and> payloadFloat (CE_Payload ev) k = Finite 0 \<and> payloadInt oor (CE_Payload ev) k = 0"
proof -
  have "named_field k" using assms(3) by (auto simp: named_field_def)
  from decoded_named [OF assms(1,2) this] show ?thesis by (simp add: payloadStr_def payloadFloat_def payloadInt_def)
qed

lemma digit_zero: "digit 0 = CHR ''0''"
  by code_simp

lemma show_nat_ten: "0 < n \<Longrightarrow> show_nat (10 * n) = show_nat n @ ''0''"
  by (subst show_nat.simps) (simp add: digit_zero)

lemma show_nat_power: "show_nat (10 ^ k) = CHR ''1'' # replicate k CHR ''0''"
proof (induction k)
  case 0
  have "digit 1 = CHR ''1''" by code_simp
  then show ?case by (simp add: show_nat.simps)
next
  case (Suc k)
  then show ?case by (simp add: show_nat_ten replicate_append_same)
qed

lemma pad18_value [simp]: "parse_nat (pad18 n) = n"
  by (simp add: pad18_def parse_nat_append)

lemma pad18_length: "0 < length (pad18 n)"
  by (simp add: pad18_def)

lemma ten_power_not_two_64: "0 < k \<Longrightarrow> (10 :: nat) ^ k \<noteq> 2 ^ 64"
proof
  assume "0 < k" "(10 :: nat) ^ k = 2 ^ 64"
  then have "(2 :: nat) ^ 64 mod 5 = 10 ^ k mod 5" by simp
  also have "(10 :: nat) ^ k mod 5 = 0"
  proof -
    have "(10 :: nat) dvd 10 ^ k" using \<open>0 < k\<close> by (simp add: dvd_power)
    then have "(5 :: nat) dvd 10 ^ k" by (rule dvd_trans [rotated]) simp
    then show ?thesis by simp
  qed
  finally show False by simp
qed

text \<open>
  The decimal text of a 128-bit amount is the amount exactly when it fits in 64 bits; above that it is
  always a different number, since the two halves are printed side by side in base ten, and
  the texts of different amounts coincide.
\<close>

theorem u128_text_exact_below_2_64:
  "(parse_nat (u128_text hi lo) = unat hi * 2 ^ 64 + unat lo \<longleftrightarrow> hi = 0)
   \<and> scValToGo env (ScvU128 1 0) = scValToGo env (ScvU128 0 (10 ^ 18))"
proof
  show "parse_nat (u128_text hi lo) = unat hi * 2 ^ 64 + unat lo \<longleftrightarrow> hi = 0"
    using ten_power_not_two_64 [OF pad18_length [of "unat lo"]]
    by (auto simp: u128_text_def parse_nat_append unat_eq_zero)
  have "u128_text 1 0 = u128_text 0 (10 ^ 18)" 
  proof -
    have "show_nat 0 = ''0''" by (simp add: show_nat.simps digit_zero)
    then have "pad18 0 = replicate 18 CHR ''0''" by (simp add: pad18_def replicate_append_same flip: replicate_Suc)
    moreover have "unat (10 ^ 18 :: int64) = 10 ^ 18" by simp
    ultimately show ?thesis using show_nat_power [of 0] show_nat_power [of 18] by (simp add: u128_text_def)
  qed
  then show "scValToGo env (ScvU128 1 0) = scValToGo env (ScvU128 0 (10 ^ 18))" by simp
qed

section \<open>Demonstration\<close>

text \<open>A contribution as the contract emits it: the event name as a topic and the fields as data.\<close>

definition demo_raw :: raw_event where
  "demo_raw = \<lparr>RE_isContract = True, RE_ContractId = Some [202, 254], RE_Body = Some ([ScvSymbol ''ContributionReceived''],
     ScvMap (Some [(ScvSymbol ''circle_id'', ScvString ''C1''), (ScvSymbol ''member'', ScvString ''W''), (ScvSymbol ''round'', ScvU32 1)]))\<rparr>"

definition demo_xenv :: xenv where
  "demo_xenv = \<lparr>decode_meta = (\<lambda>_. Meta (Some [demo_raw, demo_raw\<lparr>RE_Body := None\<rparr>])), account_Address = (\<lambda>_. ''G'')\<rparr>"

definition demo_event :: ContractEvent where
  "demo_event = \<lparr>CE_ContractID = ''cafe'', CE_EventType = ''ContributionReceived'', CE_Ledger = 7, CE_TxHash = ''h'',
     CE_LedgerCloseTime = zero_time, CE_Payload = [(''data'',
       GMap [(''circle_id'', GString ''C1''), (''member'', GString ''W''), (''round'', GUint32 1)])]\<rparr>"

lemma demo_parsed: "ParseContractEvents demo_xenv ''h'' 7 ''x'' = Inr ([demo_event], 1)"
  by code_simp

lemma demo_meta: "decode_meta demo_xenv ''x'' = Meta (Some [demo_raw, demo_raw\<lparr>RE_Body := None\<rparr>])"
  by (simp add: demo_xenv_def)

theorem every_event_accounted_witness:
  "[demo_event] = List.map_filter (decodeContractEvent demo_xenv ''h'' 7) [demo_raw, demo_raw\<lparr>RE_Body := None\<rparr>]
   \<and> CE_TxHash demo_event = ''h''"
proof -
  have "''x'' \<noteq> []" by simp
  note w = every_event_accounted [OF demo_parsed demo_meta this]
  have "demo_event \<in> set [demo_event]" by simp
  from bspec [OF conjunct2 [OF conjunct2 [OF w]] this] show ?thesis using conjunct1 [OF w] by (intro conjI) (assumption, elim conjE)
qed

theorem decoded_payload_has_no_fields_witness:
  "payloadStr (CE_Payload demo_event) ''circle_id'' = [] \<and> payloadInt oor_amd64 (CE_Payload demo_event) ''round'' = 0"
  using decoded_payload_has_no_fields [OF demo_parsed, of demo_event "''circle_id''"]
    decoded_payload_has_no_fields [OF demo_parsed, of demo_event "''round''" oor_amd64] by simp

end
