(* ===== verification/LedgerHistory.thy ===== *)
theory LedgerHistory
  imports Prelude "HOL-Library.AList"
begin

text \<open>
  \<^verbatim>\<open>internal/indexer/ledger_history.go\<close>: the bounded record of the hashes of indexed ledgers.

  The code keeps a map and, beside it, the sorted slice of its keys; the map is an association
  list here. The locale \<open>hash_history\<close> is what the reorg check relies on: recording is an
  update of a finite map that then forgets all but the \<open>window\<close> newest ledgers, truncation
  restricts it. The interpretation shows that the pair of map and slice implements that.
\<close>

section \<open>The data structure\<close>

record ledger_history =
  H_hashes :: "(int \<times> string) list"
  H_order :: "int list"
  H_window :: int

definition defaultReorgWindow :: int where "defaultReorgWindow = 10"

definition NewLedgerHistory :: "int \<Rightarrow> ledger_history" where
  "NewLedgerHistory window =
     \<lparr>H_hashes = [], H_order = [], H_window = (if window \<le> 0 then defaultReorgWindow else window)\<rparr>"

text \<open>The eviction loop over the slice, oldest ledger first.\<close>

fun evict_loop :: "int \<Rightarrow> int list \<Rightarrow> (int \<times> string) list \<Rightarrow> int list \<times> (int \<times> string) list" where
  "evict_loop window [] hashes = ([], hashes)"
| "evict_loop window (oldest # order) hashes =
     (if int (length (oldest # order)) > window
      then evict_loop window order (AList.delete oldest hashes)
      else (oldest # order, hashes))"

definition evict :: "ledger_history \<Rightarrow> ledger_history" where
  "evict h = (let (order, hashes) = evict_loop (H_window h) (H_order h) (H_hashes h) in
     h\<lparr>H_order := order, H_hashes := hashes\<rparr>)"

definition Record :: "int \<Rightarrow> string \<Rightarrow> ledger_history \<Rightarrow> ledger_history" where
  "Record sequence hash h =
     (if hash = [] then h
      else let h1 = (if map_of (H_hashes h) sequence = None
                     then h\<lparr>H_order := sort (H_order h @ [sequence])\<rparr> else h) in
        evict (h1\<lparr>H_hashes := AList.update sequence hash (H_hashes h1)\<rparr>))"

definition Hash :: "int \<Rightarrow> ledger_history \<Rightarrow> string option" where
  "Hash sequence h = map_of (H_hashes h) sequence"

fun truncate_loop :: "int \<Rightarrow> int list \<Rightarrow> (int \<times> string) list \<Rightarrow> int list \<times> (int \<times> string) list" where
  "truncate_loop sequence [] hashes = ([], hashes)"
| "truncate_loop sequence (s # order) hashes =
     (if s < sequence then
        (let (kept, hashes') = truncate_loop sequence order hashes in (s # kept, hashes'))
      else truncate_loop sequence order (AList.delete s hashes))"

definition Truncate :: "int \<Rightarrow> ledger_history \<Rightarrow> ledger_history" where
  "Truncate sequence h =
     (let (kept, hashes) = truncate_loop sequence (H_order h) (H_hashes h) in
      h\<lparr>H_order := kept, H_hashes := hashes\<rparr>)"

definition Size :: "ledger_history \<Rightarrow> nat" where
  "Size h = length (H_hashes h)"

definition Oldest :: "ledger_history \<Rightarrow> int" where
  "Oldest h = (if length (H_order h) = 0 then 0 else hd (H_order h))"

definition Newest :: "ledger_history \<Rightarrow> int" where
  "Newest h = (if length (H_order h) = 0 then 0 else last (H_order h))"

section \<open>The interface: a map of the newest ledgers\<close>

text \<open>\<open>newest w m\<close> keeps the entries with fewer than \<open>w\<close> greater keys.\<close>

definition newest :: "int \<Rightarrow> (int \<rightharpoonup> 'a) \<Rightarrow> int \<rightharpoonup> 'a" where
  "newest w m = (\<lambda>k. if int (card {k' \<in> dom m. k < k'}) < w then m k else None)"

locale hash_history =
  fixes look :: "int \<Rightarrow> 'h \<Rightarrow> string option"
    and rec :: "int \<Rightarrow> string \<Rightarrow> 'h \<Rightarrow> 'h"
    and trunc :: "int \<Rightarrow> 'h \<Rightarrow> 'h"
    and win :: "'h \<Rightarrow> int"
    and inv :: "'h \<Rightarrow> bool"
  assumes inv_rec: "inv h \<Longrightarrow> inv (rec s x h)"
    and inv_trunc: "inv h \<Longrightarrow> inv (trunc s h)"
    and win_pos: "inv h \<Longrightarrow> 0 < win h"
    and win_rec: "win (rec s x h) = win h"
    and look_rec: "inv h \<Longrightarrow> x \<noteq> [] \<Longrightarrow> (\<lambda>q. look q (rec s x h)) = newest (win h) ((\<lambda>q. look q h)(s \<mapsto> x))"
    and look_rec_empty: "rec s [] h = h"
    and look_trunc: "inv h \<Longrightarrow> look q (trunc s h) = (if q < s then look q h else None)"
begin

lemma look_newest_recorded:
  assumes "inv h" "x \<noteq> []" "\<And>q y. look q h = Some y \<Longrightarrow> q \<le> s"
  shows "look s (rec s x h) = Some x"
proof -
  have e: "{k' \<in> dom ((\<lambda>q. look q h)(s \<mapsto> x)). s < k'} = {}" using assms(3) by (fastforce split: if_splits)
  have "newest (win h) ((\<lambda>q. look q h)(s \<mapsto> x)) s = Some x"
    unfolding newest_def e using win_pos [OF assms(1)] by simp
  then show ?thesis using fun_cong [OF look_rec [OF assms(1,2)], of s] by simp
qed

lemma look_rec_old:
  assumes "inv h" "look q (rec s x h) = Some y" "q \<noteq> s"
  shows "look q h = Some y"
proof (cases "x = []")
  case True
  with assms show ?thesis by (simp add: look_rec_empty)
next
  case False
  then show ?thesis using fun_cong [OF look_rec [OF assms(1) False], of q] assms(2,3)
    by (auto simp: newest_def split: if_splits)
qed

end

section \<open>The map and the slice implement it\<close>

definition history_ok :: "ledger_history \<Rightarrow> bool" where
  "history_ok h \<longleftrightarrow> sorted (H_order h) \<and> distinct (H_order h) \<and> distinct (map fst (H_hashes h))
     \<and> set (H_order h) = fst ` set (H_hashes h) \<and> 0 < H_window h \<and> int (length (H_order h)) \<le> H_window h"

text \<open>The same without the bound: what holds between the insertion and the eviction.\<close>

definition history_pre :: "ledger_history \<Rightarrow> bool" where
  "history_pre h \<longleftrightarrow> sorted (H_order h) \<and> distinct (H_order h) \<and> distinct (map fst (H_hashes h))
     \<and> set (H_order h) = fst ` set (H_hashes h) \<and> 0 < H_window h"

lemma history_pre_keys: "history_pre h \<Longrightarrow> dom (map_of (H_hashes h)) = set (H_order h)"
  by (simp add: history_pre_def dom_map_of_conv_image_fst)

lemma fst_delete: "fst ` set (AList.delete k al) = fst ` set al - {k}"
  by (auto simp: AList.delete_eq)

lemma evict_step:
  "evict h =
     (if int (length (H_order h)) > H_window h \<and> H_order h \<noteq> [] then
        evict (h\<lparr>H_order := tl (H_order h), H_hashes := AList.delete (hd (H_order h)) (H_hashes h)\<rparr>)
      else h)"
  by (cases "H_order h") (auto simp: evict_def)

lemma evict_pre:
  assumes "history_pre h"
  shows "history_ok (evict h) \<and> map_of (H_hashes (evict h)) = newest (H_window h) (map_of (H_hashes h))
    \<and> H_window (evict h) = H_window h"
  using assms
proof (induction "length (H_order h)" arbitrary: h rule: less_induct)
  case (less h)
  note 1 = less
  show ?case
  proof (cases "int (length (H_order h)) > H_window h \<and> H_order h \<noteq> []")
    case False
    then have stop: "evict h = h" by (subst evict_step) auto
    have len: "int (length (H_order h)) \<le> H_window h" using False 1(2) by (auto simp: history_pre_def)
    have "newest (H_window h) (map_of (H_hashes h)) k = map_of (H_hashes h) k" for k
    proof (cases "map_of (H_hashes h) k")
      case (Some y)
      then have k: "k \<in> set (H_order h)" using history_pre_keys [OF 1(2)] by blast
      have "{k' \<in> dom (map_of (H_hashes h)). k < k'} \<subset> set (H_order h)"
        using history_pre_keys [OF 1(2)] k by auto
      then have "card {k' \<in> dom (map_of (H_hashes h)). k < k'} < card (set (H_order h))"
        by (intro psubset_card_mono) auto
      also have "\<dots> \<le> length (H_order h)" by (rule card_length)
      finally show ?thesis using len by (simp add: newest_def)
    qed (simp add: newest_def)
    then show ?thesis using 1(2) len stop by (auto simp: history_ok_def history_pre_def)
  next
    case True
    then obtain o1 os where ord: "H_order h = o1 # os" by (cases "H_order h") auto
    define h1 where "h1 = h\<lparr>H_order := os, H_hashes := AList.delete o1 (H_hashes h)\<rparr>"
    have step: "evict h = evict h1" using True ord by (subst evict_step) (simp add: h1_def)
    have pre1: "history_pre h1"
      using 1(2) ord by (auto simp: history_pre_def h1_def distinct_delete fst_delete)
    have least: "o1 < k" if "k \<in> set os" for k
      using 1(2) ord that by (auto simp: history_pre_def order_less_le)
    have long: "H_window h \<le> int (length os)" using True ord by simp
    have "newest (H_window h) (map_of (H_hashes h1)) = newest (H_window h) (map_of (H_hashes h))"
    proof
      fix k
      have dom1: "dom (map_of (H_hashes h1)) = set os" "dom (map_of (H_hashes h)) = insert o1 (set os)"
        using history_pre_keys [OF pre1] history_pre_keys [OF 1(2)] ord by (simp_all add: h1_def)
      show "newest (H_window h) (map_of (H_hashes h1)) k = newest (H_window h) (map_of (H_hashes h)) k"
      proof (cases "k = o1")
        case True
        have e: "{k' \<in> insert o1 (set os). o1 < k'} = set os" using least by auto
        have "distinct os" using 1(2) ord by (simp add: history_pre_def)
        then have "int (card {k' \<in> dom (map_of (H_hashes h)). k < k'}) = int (length os)"
          unfolding dom1 True e by (simp add: distinct_card)
        then have "newest (H_window h) (map_of (H_hashes h)) k = None" using long by (simp add: newest_def)
        moreover have "map_of (H_hashes h1) k = None" using True by (simp add: h1_def delete_conv')
        ultimately show ?thesis by (simp add: newest_def)
      next
        case False
        show ?thesis
        proof (cases "k \<in> set os")
          case True
          then have "{k' \<in> insert o1 (set os). k < k'} = {k' \<in> set os. k < k'}" using least by fastforce
          then show ?thesis using False unfolding newest_def dom1 by (simp add: h1_def delete_conv')
        next
          case no: False
          then have "map_of (H_hashes h1) k = None" "map_of (H_hashes h) k = None" using dom1 False by blast+
          then show ?thesis by (simp add: newest_def)
        qed
      qed
    qed
    then show ?thesis using 1(1) [of h1] True pre1 step ord by (simp add: h1_def)
  qed
qed

lemma Record_ok:
  assumes "history_ok h" "x \<noteq> []"
  shows "history_ok (Record s x h) \<and> map_of (H_hashes (Record s x h)) = newest (H_window h) ((map_of (H_hashes h))(s \<mapsto> x))
    \<and> H_window (Record s x h) = H_window h"
proof -
  define h1 where "h1 = (if map_of (H_hashes h) s = None then h\<lparr>H_order := sort (H_order h @ [s])\<rparr> else h)"
  define h2 where "h2 = h1\<lparr>H_hashes := AList.update s x (H_hashes h1)\<rparr>"
  have eq: "Record s x h = evict h2" using assms(2) by (simp add: Record_def Let_def h1_def h2_def)
  have keys: "s \<in> set (H_order h) \<longleftrightarrow> map_of (H_hashes h) s \<noteq> None"
    using assms(1) by (simp add: history_ok_def map_of_eq_None_iff)
  have fst_upd: "fst ` set (AList.update s x al) = insert s (fst ` set al)" for al :: "(int \<times> string) list"
    by (metis dom_map_of_conv_image_fst update_conv' dom_fun_upd option.distinct(1))
  have "history_pre h2"
    using assms(1) keys unfolding h2_def h1_def
    by (auto simp: history_pre_def history_ok_def distinct_update fst_upd)
  from evict_pre [OF this] show ?thesis unfolding eq by (simp add: h2_def h1_def update_conv')
qed

lemma truncate_loop_spec:
  "distinct (map fst hs) \<Longrightarrow> truncate_loop s ord hs = (kept, hs') \<Longrightarrow>
     kept = filter (\<lambda>q. q < s) ord \<and> distinct (map fst hs')
     \<and> map_of hs' = map_of hs |` (- {q \<in> set ord. s \<le> q})"
proof (induction s ord hs arbitrary: kept hs' rule: truncate_loop.induct)
  case (1 s hs)
  then show ?case by (simp add: restrict_map_def)
next
  case (2 s q ord hs)
  show ?case
  proof (cases "q < s")
    case True
    then obtain k where k: "truncate_loop s ord hs = (k, hs')" "kept = q # k"
      using "2.prems"(2) by (auto split: prod.splits)
    from "2.IH"(1) [OF True "2.prems"(1) k(1)] True k(2) show ?thesis by (auto intro: arg_cong [of _ _ "restrict_map _"])
  next
    case False
    have "distinct (map fst (AList.delete q hs))" using "2.prems"(1) by (rule distinct_delete)
    from "2.IH"(2) [OF False this] False "2.prems"(2) show ?thesis
      by (auto simp: delete_conv' restrict_map_def fun_eq_iff)
  qed
qed

lemma Truncate_ok:
  assumes "history_ok h"
  shows "history_ok (Truncate s h) \<and> map_of (H_hashes (Truncate s h)) = map_of (H_hashes h) |` {q. q < s}
    \<and> H_window (Truncate s h) = H_window h"
proof -
  obtain kept hs' where t: "truncate_loop s (H_order h) (H_hashes h) = (kept, hs')" by fastforce
  have spec: "kept = filter (\<lambda>q. q < s) (H_order h)" "distinct (map fst hs')"
      "map_of hs' = map_of (H_hashes h) |` (- {q \<in> set (H_order h). s \<le> q})"
    using truncate_loop_spec [OF _ t] assms by (auto simp: history_ok_def)
  have dom: "dom (map_of (H_hashes h)) = set (H_order h)"
    using assms by (simp add: history_ok_def dom_map_of_conv_image_fst)
  have m: "map_of hs' = map_of (H_hashes h) |` {q. q < s}"
    unfolding spec(3) using dom by (auto simp: restrict_map_def fun_eq_iff)
  have "fst ` set hs' = set kept"
    using dom unfolding dom_map_of_conv_image_fst [symmetric] m spec(1) by auto
  moreover have "int (length kept) \<le> H_window h"
    using assms unfolding spec(1) history_ok_def by (metis length_filter_le of_nat_mono order_trans)
  ultimately show ?thesis using assms spec(1,2) t m
    by (simp add: Truncate_def history_ok_def sorted_wrt_filter)
qed

lemma evict_window: "H_window (evict h) = H_window h"
  by (simp add: evict_def split: prod.splits)

lemma Record_empty [simp]: "Record s [] h = h"
  by (simp add: Record_def)

interpretation history: hash_history Hash Record Truncate H_window history_ok
proof
  fix h s x q
  show "history_ok h \<Longrightarrow> history_ok (Record s x h)"
    using Record_ok [of h x s] by (cases "x = []") auto
  show "history_ok h \<Longrightarrow> history_ok (Truncate s h)" using Truncate_ok by blast
  show "history_ok h \<Longrightarrow> 0 < H_window h" by (simp add: history_ok_def)
  show "H_window (Record s x h) = H_window h" by (simp add: Record_def evict_window Let_def)
  show "history_ok h \<Longrightarrow> x \<noteq> [] \<Longrightarrow>
      (\<lambda>q. Hash q (Record s x h)) = newest (H_window h) ((\<lambda>q. Hash q h)(s \<mapsto> x))"
    using Record_ok [of h x s] by (simp add: Hash_def [abs_def])
  show "Record s [] h = h" by simp
  show "history_ok h \<Longrightarrow> Hash q (Truncate s h) = (if q < s then Hash q h else None)"
    using Truncate_ok [of h s] by (simp add: Hash_def restrict_map_def)
qed

lemma NewLedgerHistory_ok: "history_ok (NewLedgerHistory w)"
  by (simp add: history_ok_def NewLedgerHistory_def defaultReorgWindow_def)

section \<open>Properties\<close>

text \<open>
  C33: \<^verbatim>\<open>LedgerHistory\<close> implements a map of the newest ledgers: recording a non-empty hash is an
  update of the map followed by forgetting every ledger that has at least \<open>window\<close> newer
  ones, an empty hash changes nothing, truncation forgets exactly the ledgers at or above
  its argument, and the slice stays the sorted list of the keys, never longer than the
  window.
\<close>

theorem ledger_history_refines_newest_map:
  assumes "history_ok h"
  shows "history_ok (Record s x h) \<and> history_ok (Truncate s h)
    \<and> (\<lambda>q. Hash q (Record s x h)) =
        (if x = [] then (\<lambda>q. Hash q h) else newest (H_window h) ((\<lambda>q. Hash q h)(s \<mapsto> x)))
    \<and> (\<lambda>q. Hash q (Truncate s h)) = (\<lambda>q. Hash q h) |` {q. q < s}
    \<and> int (Size (Record s x h)) \<le> H_window h"
proof -
  have ok: "history_ok (Record s x h)" using assms by (rule history.inv_rec)
  have "Size h' = length (H_order h')" if "history_ok h'" for h'
  proof -
    have "Size h' = card (fst ` set (H_hashes h'))"
      using that by (simp add: Size_def history_ok_def card_image distinct_map distinct_card)
    also have "\<dots> = card (set (H_order h'))" using that by (simp add: history_ok_def)
    also have "\<dots> = length (H_order h')"
      using that unfolding history_ok_def by (blast intro: distinct_card)
    finally show ?thesis .
  qed
  then have "int (Size (Record s x h)) \<le> H_window h"
    using ok history.win_rec [of s x h] by (simp add: history_ok_def)
  then show ?thesis
    using ok history.inv_trunc [OF assms] history.look_rec [OF assms] history.look_trunc [OF assms]
    by (auto simp: restrict_map_def)
qed

theorem ledger_history_refines_newest_map_witness:
  "history_ok (Record 7 ''h7'' (NewLedgerHistory 2)) \<and> history_ok (Truncate 7 (NewLedgerHistory 2))
    \<and> (\<lambda>q. Hash q (Record 7 ''h7'' (NewLedgerHistory 2))) =
        (if ''h7'' = [] then (\<lambda>q. Hash q (NewLedgerHistory 2))
         else newest (H_window (NewLedgerHistory 2)) ((\<lambda>q. Hash q (NewLedgerHistory 2))(7 \<mapsto> ''h7'')))
    \<and> (\<lambda>q. Hash q (Truncate 7 (NewLedgerHistory 2))) = (\<lambda>q. Hash q (NewLedgerHistory 2)) |` {q. q < 7}
    \<and> int (Size (Record 7 ''h7'' (NewLedgerHistory 2))) \<le> H_window (NewLedgerHistory 2)"
  by (rule ledger_history_refines_newest_map) (rule NewLedgerHistory_ok)

end
