(* ===== verification/Indexer.thy ===== *)
theory Indexer
  imports LedgerHistory
begin

text \<open>
  \<^verbatim>\<open>internal/indexer\<close>: the poll loop and the parts it drives. \<^verbatim>\<open>poller.go\<close> (Horizon requests
  and the contract filter), \<^verbatim>\<open>cursor.go\<close>, \<^verbatim>\<open>deduplicator.go\<close>, \<^verbatim>\<open>deadletter.go\<close>, \<^verbatim>\<open>reorg.go\<close>, the
  rewinder of \<^verbatim>\<open>ledger_history.go\<close> and \<^verbatim>\<open>engine.go\<close>.

  Horizon is outside the repository: its answers are the fields \<open>hz_ledgers\<close> and
  \<open>hz_transactions\<close> of the environment, one value per way a request can end. The processor
  of a transaction is the argument \<open>process\<close> of the engine operations; it can change the
  events table and whatever else the world carries (\<open>W_app\<close>), and can fail. Metrics and logs
  are left out. The clock is read once per poll cycle.
\<close>

section \<open>Horizon\<close>

record ledger =
  L_Sequence :: int
  L_ClosedAt :: time
  L_TxCount :: int
  L_Hash :: string
  L_PrevHash :: string

record operation =
  O_ID :: int
  O_Type :: string
  O_SourceAccount :: string
  O_ContractID :: string
  O_ResultMetaXDR :: string

record transaction =
  T_Hash :: string
  T_Ledger :: int
  T_CreatedAt :: time
  T_SourceAccount :: string
  T_Successful :: bool
  T_Operations :: "operation list"
  T_LedgerCloseTime :: time

datatype 'a response =
    Request_error error
  | Transport_error error
  | Status_error int string
  | Body_error int error
  | Decode_error error
  | Records 'a

record poller =
  PL_contractIDs :: "string list"

text \<open>Statements of the indexer's own tables.\<close>

datatype ix_stmt =
    IQ_ReadCursor
  | IQ_RewindCursor int
  | IQ_UpdateCursor int
  | IQ_CursorRowsAffected int
  | IQ_VerifyCursor
  | IQ_DeleteEvents int
  | IQ_DeadLetter string
  | IQ_ListDeadLetters int
  | IQ_CountDeadLetters
  | IQ_ResolveDeadLetter uuid
  | IQ_ResolveRowsAffected uuid

record ienv = "ix_stmt env" +
  hz_ledgers :: "int \<Rightarrow> int \<Rightarrow> ledger list response"
  hz_transactions :: "int \<Rightarrow> transaction list response"
  MarshalPayload :: "transaction \<Rightarrow> string result"

definition decode :: "string \<Rightarrow> string \<Rightarrow> 'a response \<Rightarrow> 'a result" where
  "decode what decoding r =
     (case r of
        Request_error e \<Rightarrow> Inl (Wrap ''creating request'' e)
      | Transport_error e \<Rightarrow> Inl (Wrap what e)
      | Status_error code body \<Rightarrow> Inl (Errorf (''horizon error: '' @ body))
      | Body_error code e \<Rightarrow> Inl (Wrap ''horizon error: failed to read response body'' e)
      | Decode_error e \<Rightarrow> Inl (Wrap decoding e)
      | Records x \<Rightarrow> Inr x)"

text \<open>The paging token of a ledger is its sequence in the upper half of an \<^verbatim>\<open>int64\<close>.\<close>

definition paging_token :: "int \<Rightarrow> int" where
  "paging_token cursor = (if cursor > 0 then sint (push_bit 32 (word_of_int cursor :: int64)) else cursor)"

definition FetchLedgers :: "ienv \<Rightarrow> int \<Rightarrow> int \<Rightarrow> ledger list result" where
  "FetchLedgers env cursor limit =
     decode ''fetching ledgers'' ''decoding ledgers'' (hz_ledgers env (paging_token cursor) limit)"

definition FetchLedgersInRange :: "ienv \<Rightarrow> int \<Rightarrow> int \<Rightarrow> ledger list result" where
  "FetchLedgersInRange env from to =
     (if to < from then Inr [] else FetchLedgers env (from - 1) (to - from + 1))"

definition FetchTransactions :: "ienv \<Rightarrow> int \<Rightarrow> transaction list result" where
  "FetchTransactions env l =
     decode ''fetching transactions'' ''decoding transactions'' (hz_transactions env l)"

definition MatchesContract :: "string list \<Rightarrow> transaction \<Rightarrow> bool" where
  "MatchesContract wanted t =
     (\<exists>oper \<in> set (T_Operations t). O_SourceAccount oper \<in> set wanted
        \<or> (O_ContractID oper \<noteq> [] \<and> O_ContractID oper \<in> set wanted))"

definition FilterByContract :: "poller \<Rightarrow> transaction list \<Rightarrow> transaction list" where
  "FilterByContract p txns =
     (if length (PL_contractIDs p) = 0 then txns else filter (MatchesContract (PL_contractIDs p)) txns)"

definition GetLedgerCount :: "ienv \<Rightarrow> int \<Rightarrow> int result" where
  "GetLedgerCount env cursor =
     (case FetchLedgers env cursor 1 of
        Inl e \<Rightarrow> Inl e
      | Inr ledgers \<Rightarrow> (case ledgers of [] \<Rightarrow> Inr 0 | l # ls \<Rightarrow> Inr (L_Sequence l - cursor)))"

section \<open>State\<close>

record cursor =
  Cur_Chain :: string
  Cur_LastLedger :: int
  Cur_LastProcessedAt :: time

record event_row =
  EV_TxHash :: string
  EV_Ledger :: int
  EV_ContractID :: string
  EV_Type :: string
  EV_Version :: string
  EV_Payload :: string
  EV_ProcessedAt :: time

record dead_letter =
  DL_ID :: uuid
  DL_Chain :: string
  DL_TxHash :: string
  DL_Ledger :: int
  DL_Error :: string
  DL_Attempts :: int
  DL_Payload :: "string option"
  DL_Status :: string
  DL_CreatedAt :: time
  DL_UpdatedAt :: time
  DL_ResolvedAt :: "time option"

record dedup =
  DD_seen :: "(string \<times> time) list"
  DD_maxAge :: duration

record 'a world =
  W_cursor :: "cursor option"
  W_events :: "event_row list"
  W_dead :: "dead_letter list"
  W_app :: 'a

record 'a engine =
  E_world :: "'a world"
  E_dedup :: dedup
  E_history :: ledger_history

record engine_config =
  EC_window :: int
  EC_batch :: int
  EC_poller :: poller

type_synonym 'a process = "ienv \<Rightarrow> transaction \<Rightarrow> 'a world \<Rightarrow> unit result \<times> 'a world"

section \<open>Cursor\<close>

definition Lag :: "cursor \<Rightarrow> time \<Rightarrow> duration" where
  "Lag c t = t - Cur_LastProcessedAt c"

definition GetCurrent :: "ienv \<Rightarrow> 'a world \<Rightarrow> cursor result" where
  "GetCurrent env w =
     wrap_err ''reading cursor''
       (case run_query env IQ_ReadCursor (W_cursor w) of
          Inl e \<Rightarrow> Inl e
        | Inr None \<Rightarrow> Inl (Sentinel Sql_ErrNoRows)
        | Inr (Some c) \<Rightarrow> Inr c)"

definition Cursor_Rewind :: "ienv \<Rightarrow> int \<Rightarrow> 'a world \<Rightarrow> unit result \<times> 'a world" where
  "Cursor_Rewind env lastLedger w =
     wrap_call ''rewinding cursor''
       (exec_stmt env (IQ_RewindCursor lastLedger) no_check
          (\<lambda>w. w\<lparr>W_cursor := map_option (\<lambda>c. c\<lparr>Cur_LastLedger := lastLedger, Cur_LastProcessedAt := now env\<rparr>)
                  (W_cursor w)\<rparr>) w)"

text \<open>
  \<^verbatim>\<open>Update\<close>: when no row was touched, or the driver cannot tell, the row is read back to find
  out whether it exists.
\<close>

definition Cursor_Update :: "ienv \<Rightarrow> int \<Rightarrow> 'a world \<Rightarrow> unit result \<times> 'a world" where
  "Cursor_Update env lastLedger w =
     guard (lastLedger < 0) (Errorf ''updating cursor: invalid ledger'') w
     (let behind = (case W_cursor w of None \<Rightarrow> False | Some c \<Rightarrow> Cur_LastLedger c < lastLedger) in
      perform (wrap_call ''updating cursor''
        (exec_stmt env (IQ_UpdateCursor lastLedger) no_check
           (\<lambda>w. if behind then w\<lparr>W_cursor := map_option (\<lambda>c. c\<lparr>Cur_LastLedger := lastLedger,
                                    Cur_LastProcessedAt := now env\<rparr>) (W_cursor w)\<rparr> else w) w)) (\<lambda>_ w'.
      if fault env (IQ_CursorRowsAffected lastLedger) = None \<and> behind then (Inr (), w')
      else (case run_query env IQ_VerifyCursor (W_cursor w') of
              Inl e \<Rightarrow> (if errors_Is e Sql_ErrNoRows then Inl (Sentinel ErrCursorMissing)
                       else Inl (Wrap ''verifying cursor'' e), w')
            | Inr None \<Rightarrow> (Inl (Sentinel ErrCursorMissing), w')
            | Inr (Some c) \<Rightarrow> (Inr (), w'))))"

section \<open>Deduplicator\<close>

definition NewDeduplicator :: "duration \<Rightarrow> dedup" where
  "NewDeduplicator age = \<lparr>DD_seen = [], DD_maxAge = age\<rparr>"

definition Has :: "time \<Rightarrow> string \<Rightarrow> dedup \<Rightarrow> bool" where
  "Has t hash d = (case map_of (DD_seen d) hash of None \<Rightarrow> False | Some t0 \<Rightarrow> t - t0 < DD_maxAge d)"

definition Dedup_Add :: "time \<Rightarrow> string \<Rightarrow> dedup \<Rightarrow> dedup" where
  "Dedup_Add t hash d = d\<lparr>DD_seen := AList.update hash t (DD_seen d)\<rparr>"

definition Dedup_Size :: "dedup \<Rightarrow> nat" where
  "Dedup_Size d = length (DD_seen d)"

definition Prune :: "time \<Rightarrow> dedup \<Rightarrow> dedup" where
  "Prune t d = d\<lparr>DD_seen := filter (\<lambda>(k, v). \<not> v < t - DD_maxAge d) (DD_seen d)\<rparr>"

section \<open>Dead letters\<close>

definition DeadLetter_Record :: "ienv \<Rightarrow> dead_letter \<Rightarrow> 'a world \<Rightarrow> uuid result \<times> 'a world" where
  "DeadLetter_Record env entry w =
     guard (DL_TxHash entry = []) (Errorf ''recording dead letter: tx hash is required'') w
     (let e1 = (if DL_Chain entry = [] then entry\<lparr>DL_Chain := ''stellar''\<rparr> else entry);
          e2 = (if DL_Attempts e1 \<le> 0 then e1\<lparr>DL_Attempts := 1\<rparr> else e1);
          e3 = e2\<lparr>DL_Payload := (case DL_Payload e2 of Some [] \<Rightarrow> None | p \<Rightarrow> p)\<rparr> in
      case fault env (IQ_DeadLetter (DL_TxHash entry)) of
        Some e \<Rightarrow> (Inl (Wrap (''recording dead letter for tx '' @ DL_TxHash entry) e), w)
      | None \<Rightarrow>
          (case List.find (\<lambda>r. DL_TxHash r = DL_TxHash entry) (W_dead w) of
             Some r \<Rightarrow>
               (Inr (DL_ID r), w\<lparr>W_dead := update_where (\<lambda>r. DL_TxHash r = DL_TxHash entry)
                  (\<lambda>r. r\<lparr>DL_Attempts := DL_Attempts r + 1, DL_Error := DL_Error e3, DL_Ledger := DL_Ledger e3,
                         DL_Status := ''dead_letter'', DL_ResolvedAt := None, DL_UpdatedAt := now env\<rparr>) (W_dead w)\<rparr>)
           | None \<Rightarrow>
               let row = e3\<lparr>DL_ID := uuid_New env (length (W_dead w)), DL_Status := ''dead_letter'',
                            DL_CreatedAt := now env, DL_UpdatedAt := now env, DL_ResolvedAt := None\<rparr> in
               (Inr (DL_ID row), w\<lparr>W_dead := W_dead w @ [row]\<rparr>)))"

definition DeadLetter_List :: "ienv \<Rightarrow> int \<Rightarrow> 'a world \<Rightarrow> dead_letter list result" where
  "DeadLetter_List env limit w =
     (let n = (if limit \<le> 0 \<or> limit > 500 then 100 else limit) in
      wrap_err ''listing indexer dead letter entries''
        (run_query env (IQ_ListDeadLetters n) (take (nat n)
           (sort_key (\<lambda>r. - DL_CreatedAt r) (filter (\<lambda>r. DL_Status r = ''dead_letter'') (W_dead w))))))"

definition DeadLetter_Count :: "ienv \<Rightarrow> 'a world \<Rightarrow> nat result" where
  "DeadLetter_Count env w =
     wrap_err ''counting indexer dead letter entries''
       (run_query env IQ_CountDeadLetters (length (filter (\<lambda>r. DL_Status r = ''dead_letter'') (W_dead w))))"

definition DeadLetter_Resolve :: "ienv \<Rightarrow> uuid \<Rightarrow> 'a world \<Rightarrow> unit result \<times> 'a world" where
  "DeadLetter_Resolve env i w =
     (let sel = (\<lambda>r. DL_ID r = i \<and> DL_Status r = ''dead_letter'') in
      perform (wrap_call ''resolving indexer dead letter''
        (exec_stmt env (IQ_ResolveDeadLetter i) no_check
           (\<lambda>w. w\<lparr>W_dead := update_where sel (\<lambda>r. r\<lparr>DL_Status := ''resolved'', DL_ResolvedAt := Some (now env),
                    DL_UpdatedAt := now env\<rparr>) (W_dead w)\<rparr>) w)) (\<lambda>_ w'.
      attempt (wrap_err ''checking rows affected for dead letter''
        (run_query env (IQ_ResolveRowsAffected i) (rows_affected sel (W_dead w)))) w' (\<lambda>rows.
      guard (rows = 0) (Errorf ''indexer dead letter entry not found'') w' (Inr (), w'))))"

section \<open>Reorganisations\<close>

record reorg_plan =
  RP_ForkLedger :: int
  RP_LastLedger :: int
  RP_Scanned :: int

fun fork_loop :: "ledger_history \<Rightarrow> ledger list \<Rightarrow> int \<Rightarrow> int" where
  "fork_loop history [] fork = fork"
| "fork_loop history (l # ledgers) fork =
     (case Hash (L_Sequence l) history of
        None \<Rightarrow> fork_loop history ledgers fork
      | Some recorded \<Rightarrow>
          if recorded = L_Hash l then fork_loop history ledgers fork
          else if fork = 0 \<or> L_Sequence l < fork then fork_loop history ledgers (L_Sequence l)
          else fork_loop history ledgers fork)"

definition DetectReorg :: "ienv \<Rightarrow> int \<Rightarrow> ledger_history \<Rightarrow> int \<Rightarrow> reorg_plan option result" where
  "DetectReorg env window history lastLedger =
     (if window \<le> 0 \<or> lastLedger \<le> 0 then Inr None
      else let from0 = lastLedger - window + 1; from = (if from0 < 1 then 1 else from0) in
        case FetchLedgersInRange env from lastLedger of
          Inl e \<Rightarrow> Inl (Wrap ''fetching reorg window'' e)
        | Inr ledgers \<Rightarrow>
            (case ledgers of
               [] \<Rightarrow> Inr None
             | l0 # _ \<Rightarrow>
                 let boundary = L_Sequence l0; fork = fork_loop history ledgers 0 in
                 if fork = 0 then Inr None
                 else if fork \<le> boundary
                 then Inl (Detail (Sentinel ErrReorgTooDeep) ''fork is at or below the window boundary'')
                 else Inr (Some \<lparr>RP_ForkLedger = fork, RP_LastLedger = fork - 1,
                                 RP_Scanned = int (length ledgers)\<rparr>)))"

definition DeleteEventsFrom :: "ienv \<Rightarrow> int \<Rightarrow> 'a world \<Rightarrow> unit result \<times> 'a world" where
  "DeleteEventsFrom env forkLedger w =
     wrap_call ''deleting contract_events''
       (exec_stmt env (IQ_DeleteEvents forkLedger) no_check
          (\<lambda>w. w\<lparr>W_events := filter (\<lambda>ev. \<not> EV_Ledger ev \<ge> forkLedger) (W_events w)\<rparr>) w)"

definition Rewind :: "ienv \<Rightarrow> int \<Rightarrow> 'a world \<Rightarrow> unit result \<times> 'a world" where
  "Rewind env lastLedger w = wrap_call ''rewinding cursor'' (Cursor_Rewind env lastLedger w)"

definition checkReorg :: "ienv \<Rightarrow> engine_config \<Rightarrow> cursor \<Rightarrow> 'a engine \<Rightarrow> cursor result \<times> 'a engine" where
  "checkReorg env cfg c e =
     (if Cur_LastLedger c \<le> 0 then (Inr c, e)
      else case DetectReorg env (EC_window cfg) (E_history e) (Cur_LastLedger c) of
        Inl err \<Rightarrow> (Inl (Wrap ''reorg check'' err), e)
      | Inr None \<Rightarrow> (Inr c, e)
      | Inr (Some plan) \<Rightarrow>
          (case DeleteEventsFrom env (RP_ForkLedger plan) (E_world e) of
             (Inl err, w) \<Rightarrow> (Inl (Wrap ''reorg rollback'' err), e\<lparr>E_world := w\<rparr>)
           | (Inr _, w) \<Rightarrow>
               (case Rewind env (RP_LastLedger plan) w of
                  (Inl err, w') \<Rightarrow> (Inl (Wrap ''reorg rollback'' err), e\<lparr>E_world := w'\<rparr>)
                | (Inr _, w') \<Rightarrow>
                    (Inr \<lparr>Cur_Chain = Cur_Chain c, Cur_LastLedger = RP_LastLedger plan,
                          Cur_LastProcessedAt = now env\<rparr>,
                     e\<lparr>E_world := w', E_history := Truncate (RP_ForkLedger plan) (E_history e)\<rparr>))))"

section \<open>The poll cycle\<close>

definition deadLetter :: "ienv \<Rightarrow> transaction \<Rightarrow> error \<Rightarrow> 'a world \<Rightarrow> 'a world" where
  "deadLetter env txn cause w =
     snd (DeadLetter_Record env
       \<lparr>DL_ID = 0, DL_Chain = ''stellar'', DL_TxHash = T_Hash txn, DL_Ledger = T_Ledger txn,
        DL_Error = error_text cause, DL_Attempts = 1,
        DL_Payload = (case MarshalPayload env txn of Inl e \<Rightarrow> None | Inr b \<Rightarrow> Some b),
        DL_Status = ''dead_letter'', DL_CreatedAt = 0, DL_UpdatedAt = 0, DL_ResolvedAt = None\<rparr> w)"

definition handle_txn :: "'a process \<Rightarrow> ienv \<Rightarrow> transaction \<Rightarrow> 'a engine \<Rightarrow> 'a engine" where
  "handle_txn process env txn e =
     (if Has (now env) (T_Hash txn) (E_dedup e) then e
      else let e1 = e\<lparr>E_dedup := Dedup_Add (now env) (T_Hash txn) (E_dedup e)\<rparr> in
        case process env txn (E_world e1) of
          (Inl err, w) \<Rightarrow> e1\<lparr>E_world := deadLetter env txn err w\<rparr>
        | (Inr _, w) \<Rightarrow> e1\<lparr>E_world := w\<rparr>)"

definition handle_ledger :: "'a process \<Rightarrow> ienv \<Rightarrow> engine_config \<Rightarrow> ledger \<Rightarrow> 'a engine \<Rightarrow> 'a engine" where
  "handle_ledger process env cfg l e =
     (let e1 = e\<lparr>E_history := Record (L_Sequence l) (L_Hash l) (E_history e)\<rparr> in
      case FetchTransactions env (L_Sequence l) of
        Inl err \<Rightarrow> e1
      | Inr txns \<Rightarrow>
          fold (\<lambda>txn. handle_txn process env (txn\<lparr>T_LedgerCloseTime := L_ClosedAt l\<rparr>))
            (FilterByContract (EC_poller cfg) txns) e1)"

definition poll :: "'a process \<Rightarrow> ienv \<Rightarrow> engine_config \<Rightarrow> 'a engine \<Rightarrow> unit result \<times> 'a engine" where
  "poll process env cfg e =
     attempt (wrap_err ''reading cursor'' (GetCurrent env (E_world e))) e (\<lambda>c0.
     perform (checkReorg env cfg c0 e) (\<lambda>c e1.
     attempt (wrap_err ''fetching ledgers'' (FetchLedgers env (Cur_LastLedger c) (EC_batch cfg))) e1 (\<lambda>ledgers.
     if ledgers = [] then (Inr (), e1)
     else let e2 = fold (handle_ledger process env cfg) ledgers e1 in
       (case Cursor_Update env (L_Sequence (last ledgers)) (E_world e2) of
          (Inl err, w) \<Rightarrow> (Inl (Wrap ''updating cursor'' err), e2\<lparr>E_world := w\<rparr>)
        | (Inr _, w) \<Rightarrow> (Inr (), e2\<lparr>E_world := w\<rparr>)))))"

definition NewEngine :: "engine_config \<Rightarrow> 'a world \<Rightarrow> engine_config \<times> 'a engine" where
  "NewEngine cfg w =
     (let window = (if EC_window cfg \<le> 0 then defaultReorgWindow else EC_window cfg) in
      (cfg\<lparr>EC_window := window\<rparr>,
       \<lparr>E_world = w, E_dedup = NewDeduplicator (86400 * second), E_history = NewLedgerHistory window\<rparr>))"

section \<open>Lemmas\<close>

text \<open>The ledgers whose recorded hash differs from the one Horizon reports now.\<close>

definition mismatches :: "ledger_history \<Rightarrow> ledger list \<Rightarrow> int set" where
  "mismatches h ls = {L_Sequence l | l. l \<in> set ls \<and> Hash (L_Sequence l) h \<notin> {None, Some (L_Hash l)}}"

lemma mismatches_Nil [simp]: "mismatches h [] = {}"
  by (simp add: mismatches_def)

lemma mismatches_Cons:
  "mismatches h (l # ls) =
     (if Hash (L_Sequence l) h \<in> {None, Some (L_Hash l)} then {} else {L_Sequence l}) \<union> mismatches h ls"
  by (auto simp: mismatches_def)

lemma finite_mismatches [simp]: "finite (mismatches h ls)"
  by (induction ls) (simp_all add: mismatches_Cons)

lemma Min_insert_above: "finite A \<Longrightarrow> a \<in> A \<Longrightarrow> a \<le> x \<Longrightarrow> Min (insert x A) = Min (A :: int set)"
  by (metis Min.coboundedI Min_insert empty_iff min.absorb2 order_trans)

lemma fork_loop_Min:
  assumes "\<And>l. l \<in> set ls \<Longrightarrow> 0 < L_Sequence l" "0 \<le> fork"
  shows "fork_loop h ls fork =
    (let M = mismatches h ls \<union> (if fork = 0 then {} else {fork}) in if M = {} then 0 else Min M)"
  using assms
proof (induction h ls fork rule: fork_loop.induct)
  case (2 h l ls fork)
  have pos: "0 < L_Sequence l" "\<And>l'. l' \<in> set ls \<Longrightarrow> 0 < L_Sequence l'" using 2(5) by auto
  show ?case
  proof (cases "Hash (L_Sequence l) h \<in> {None, Some (L_Hash l)}")
    case True
    then have "fork_loop h (l # ls) fork = fork_loop h ls fork" by auto
    moreover have "mismatches h (l # ls) = mismatches h ls" using True by (simp add: mismatches_Cons)
    moreover have "fork_loop h ls fork =
        (let M = mismatches h ls \<union> (if fork = 0 then {} else {fork}) in if M = {} then 0 else Min M)"
      using True 2(1,2) pos(2) 2(6) by (cases "Hash (L_Sequence l) h") auto
    ultimately show ?thesis by simp
  next
    case False
    then obtain r where r: "Hash (L_Sequence l) h = Some r" "r \<noteq> L_Hash l" by auto
    have M: "mismatches h (l # ls) = insert (L_Sequence l) (mismatches h ls)" using r by (simp add: mismatches_Cons)
    show ?thesis
    proof (cases "fork = 0 \<or> L_Sequence l < fork")
      case lower: True
      have "fork_loop h (l # ls) fork = fork_loop h ls (L_Sequence l)" using r lower by simp
      also have "\<dots> = Min (mismatches h ls \<union> {L_Sequence l})" using 2(3) r lower pos by simp
      also have "\<dots> = (let M = mismatches h (l # ls) \<union> (if fork = 0 then {} else {fork}) in if M = {} then 0 else Min M)"
      proof (cases "fork = 0")
        case True then show ?thesis by (simp add: M)
      next
        case nz: False
        then have "Min (mismatches h ls \<union> {L_Sequence l}) = Min (insert fork (insert (L_Sequence l) (mismatches h ls)))"
          using lower Min_insert_above [of "insert (L_Sequence l) (mismatches h ls)" "L_Sequence l" fork] by simp
        then show ?thesis using nz by (simp add: M insert_commute)
      qed
      finally show ?thesis .
    next
      case False': False
      have "fork_loop h (l # ls) fork = fork_loop h ls fork" using r False' by simp
      also have "\<dots> = Min (mismatches h ls \<union> {fork})" using 2(4) r False' pos 2(6) by simp
      also have "\<dots> = Min (insert (L_Sequence l) (insert fork (mismatches h ls)))"
        using False' Min_insert_above [of "insert fork (mismatches h ls)" fork "L_Sequence l"] by simp
      finally show ?thesis using False' by (simp add: M insert_commute)
    qed
  qed
qed simp

lemma DetectReorg_Min:
  assumes "0 < window" "0 < lst" "FetchLedgersInRange env (max 1 (lst - window + 1)) lst = Inr (l0 # ls)"
    and "\<And>l. l \<in> set (l0 # ls) \<Longrightarrow> 0 < L_Sequence l"
  shows "DetectReorg env window h lst =
    (let M = mismatches h (l0 # ls) in
     if M = {} then Inr None
     else if Min M \<le> L_Sequence l0
     then Inl (Detail (Sentinel ErrReorgTooDeep) ''fork is at or below the window boundary'')
     else Inr (Some \<lparr>RP_ForkLedger = Min M, RP_LastLedger = Min M - 1, RP_Scanned = int (length (l0 # ls))\<rparr>))"
proof -
  have m: "(if lst - window + 1 < 1 then 1 else lst - window + 1) = max 1 (lst - window + 1)" by (simp add: max_def)
  let ?M = "mismatches h (l0 # ls)"
  have f: "fork_loop h (l0 # ls) 0 = (if ?M = {} then 0 else Min ?M)"
    using fork_loop_Min [of "l0 # ls" 0 h] assms(4) by (simp add: Let_def)
  have "Min ?M \<noteq> 0" if "?M \<noteq> {}"
  proof -
    have "Min ?M \<in> ?M" using that by (intro Min_in) simp_all
    then show ?thesis using assms(4) unfolding mismatches_def by fastforce
  qed
  then show ?thesis using assms(1,2) unfolding DetectReorg_def Let_def m assms(3)
    by (cases "?M = {}") (simp_all add: f del: fork_loop.simps)
qed

lemma Cursor_Update_state:
  assumes "0 \<le> n" "\<And>q. fault env q = None"
  shows "Cursor_Update env n w =
    (case W_cursor w of
       None \<Rightarrow> (Inl (Sentinel ErrCursorMissing), w)
     | Some c \<Rightarrow> (Inr (), if Cur_LastLedger c < n
         then w\<lparr>W_cursor := Some (c\<lparr>Cur_LastLedger := n, Cur_LastProcessedAt := now env\<rparr>)\<rparr> else w))"
  using assms by (cases "W_cursor w") (auto simp: Cursor_Update_def Let_def)

lemma Has_Add: "t' - t < DD_maxAge d \<Longrightarrow> Has t' x (Dedup_Add t x d)"
  by (simp add: Has_def Dedup_Add_def update_conv')

lemma Has_Add_other: "x \<noteq> y \<Longrightarrow> Has t' x (Dedup_Add t y d) = Has t' x d"
  by (simp add: Has_def Dedup_Add_def update_conv' split: option.splits)

lemma maxAge_Add [simp]: "DD_maxAge (Dedup_Add t x d) = DD_maxAge d"
  by (simp add: Dedup_Add_def)

lemma map_of_filter_value:
  "distinct (map fst al) \<Longrightarrow> map_of (filter (\<lambda>(k, v). P v) al) k =
     (case map_of al k of None \<Rightarrow> None | Some v \<Rightarrow> if P v then Some v else None)"
proof (induction al)
  case (Cons a al)
  have "map_of al k = None" if "k = fst a" using Cons.prems that by (auto simp: map_of_eq_None_iff)
  then show ?case using Cons by (cases a) (auto split: option.splits)
qed simp

lemma Has_Prune: "distinct (map fst (DD_seen d)) \<Longrightarrow> t \<le> t' \<Longrightarrow> Has t' x (Prune t d) = Has t' x d"
  by (auto simp: Has_def Prune_def map_of_filter_value split: option.splits)

text \<open>A failed transaction leaves a dead letter with its cause; the letters of other transactions stay.\<close>

lemma deadLetter_row:
  assumes "fault env (IQ_DeadLetter (T_Hash txn)) = None" "T_Hash txn \<noteq> []"
  shows "\<exists>r \<in> set (W_dead (deadLetter env txn cause w)). DL_TxHash r = T_Hash txn \<and> DL_Ledger r = T_Ledger txn
           \<and> DL_Error r = error_text cause \<and> DL_Status r = ''dead_letter''"
proof (cases "List.find (\<lambda>r. DL_TxHash r = T_Hash txn) (W_dead w)")
  case None
  then show ?thesis using assms by (auto simp: deadLetter_def DeadLetter_Record_def Let_def)
next
  case (Some r)
  then have "r \<in> set (W_dead w)" "DL_TxHash r = T_Hash txn" by (blast dest: find_Some_D)+
  then show ?thesis using assms Some
    by (intro bexI [of _ "r\<lparr>DL_Attempts := DL_Attempts r + 1, DL_Error := error_text cause, DL_Ledger := T_Ledger txn, DL_Status := ''dead_letter'',
          DL_ResolvedAt := None, DL_UpdatedAt := now env\<rparr>"]) (auto simp: deadLetter_def DeadLetter_Record_def Let_def update_where_def)
qed

lemma deadLetter_keeps: "r \<in> set (W_dead w) \<Longrightarrow> DL_TxHash r \<noteq> T_Hash txn \<Longrightarrow> r \<in> set (W_dead (deadLetter env txn cause w))"
  by (auto simp: deadLetter_def DeadLetter_Record_def Let_def guard_def update_where_def image_iff split: option.splits)

definition keeps_dead_letters :: "'a process \<Rightarrow> bool" where
  "keeps_dead_letters process \<longleftrightarrow> (\<forall>env txn w. W_dead (snd (process env txn w)) = W_dead w)"

text \<open>
  What is to be delivered: of every hash the first transaction, unless the hash was seen before; and what a delivery is: the state the processor leaves, with
  a dead letter if it fails.
\<close>

primrec unseen :: "(string \<Rightarrow> bool) \<Rightarrow> transaction list \<Rightarrow> transaction list" where
  "unseen seen [] = []"
| "unseen seen (t # ts) = (if seen (T_Hash t) then unseen seen ts else t # unseen (\<lambda>h. h = T_Hash t \<or> seen h) ts)"

definition deliver :: "'a process \<Rightarrow> ienv \<Rightarrow> transaction \<Rightarrow> 'a world \<Rightarrow> 'a world" where
  "deliver process env txn w =
     (case process env txn w of (Inl err, w') \<Rightarrow> deadLetter env txn err w' | (Inr _, w') \<Rightarrow> w')"

lemma unseen_distinct: "distinct (map T_Hash (unseen seen ts)) \<and> (\<forall>t \<in> set (unseen seen ts). t \<in> set ts \<and> \<not> seen (T_Hash t))"
proof (induction ts arbitrary: seen)
  case (Cons t ts)
  then show ?case using Cons.IH [of seen] Cons.IH [of "\<lambda>h. h = T_Hash t \<or> seen h"] by force
qed simp

lemma handle_txn_seen:
  "Has (now env) (T_Hash txn) (E_dedup e) \<Longrightarrow> handle_txn process env txn e = e"
  by (simp add: handle_txn_def)

lemma handle_txn_new:
  assumes "\<not> Has (now env) (T_Hash txn) (E_dedup e)"
  shows "E_world (handle_txn process env txn e) = deliver process env txn (E_world e)"
    "E_dedup (handle_txn process env txn e) = Dedup_Add (now env) (T_Hash txn) (E_dedup e)"
  using assms by (auto simp: handle_txn_def deliver_def Let_def split: prod.splits sum.splits)

lemma Has_Add_eq: "0 < DD_maxAge d \<Longrightarrow> Has t h (Dedup_Add t x d) = (h = x \<or> Has t h d)"
  using Has_Add [of t t d x] Has_Add_other [of h x t t d] by auto

lemma fold_handle_txn:
  "0 < DD_maxAge (E_dedup e) \<Longrightarrow>
     E_world (fold (handle_txn process env) ts e) = fold (deliver process env) (unseen (\<lambda>h. Has (now env) h (E_dedup e)) ts) (E_world e)
     \<and> (\<forall>h. Has (now env) h (E_dedup (fold (handle_txn process env) ts e)) = (Has (now env) h (E_dedup e) \<or> h \<in> T_Hash ` set ts))"
proof (induction ts arbitrary: e)
  case (Cons t ts)
  show ?case
  proof (cases "Has (now env) (T_Hash t) (E_dedup e)")
    case True
    then show ?thesis using Cons by (auto simp: handle_txn_seen)
  next
    case False
    note n = handle_txn_new [OF False, of process]
    show ?thesis using Cons.IH [of "handle_txn process env t e"] Cons.prems False by (auto simp: n Has_Add_eq)
  qed
qed simp

lemma deliver_keeps:
  assumes "keeps_dead_letters process" "r \<in> set (W_dead w)" "DL_TxHash r \<noteq> T_Hash txn"
  shows "r \<in> set (W_dead (deliver process env txn w))"
proof -
  obtain x w' where p: "process env txn w = (x, w')" by fastforce
  then have "r \<in> set (W_dead w')" using assms(1,2) unfolding keeps_dead_letters_def by (metis snd_conv)
  then show ?thesis using p deadLetter_keeps [OF _ assms(3)] by (auto simp: deliver_def split: sum.split)
qed

lemma fold_deliver_keeps:
  "keeps_dead_letters process \<Longrightarrow> r \<in> set (W_dead w) \<Longrightarrow> DL_TxHash r \<notin> T_Hash ` set ts \<Longrightarrow> r \<in> set (W_dead (fold (deliver process env) ts w))"
  by (induction ts arbitrary: w) (auto intro: deliver_keeps)

section \<open>Properties\<close>

text \<open>
  A small chain for the witnesses: every ledger from 3 to 5 has the hash given by \<open>hs\<close>, ledger 5
  holds the transactions \<open>txs\<close>; the processor stores one event per transaction and rejects
  the transaction \<open>bad\<close>.
\<close>

definition chain_ledger :: "(int \<Rightarrow> string) \<Rightarrow> int \<Rightarrow> ledger" where
  "chain_ledger hs n = \<lparr>L_Sequence = n, L_ClosedAt = 1000 + n, L_TxCount = 1, L_Hash = hs n, L_PrevHash = hs (n - 1)\<rparr>"

definition chain_txn :: "string \<Rightarrow> transaction" where
  "chain_txn x = \<lparr>T_Hash = x, T_Ledger = 5, T_CreatedAt = 0, T_SourceAccount = ''G'', T_Successful = True,
     T_Operations = [], T_LedgerCloseTime = 0\<rparr>"

definition chain_env :: "(int \<Rightarrow> string) \<Rightarrow> string list response \<Rightarrow> time \<Rightarrow> ienv" where
  "chain_env hs txs t = \<lparr>uuid_Parse = (\<lambda>s. None), uuid_String = (\<lambda>u. []), uuid_New = (\<lambda>n. of_nat n), now = t,
     fault = (\<lambda>q. None),
     hz_ledgers = (\<lambda>token limit. Records (filter (\<lambda>l. token < paging_token (L_Sequence l))
        (take (nat limit) (map (chain_ledger hs) (filter (\<lambda>n. token < paging_token n) [3, 4, 5]))))),
     hz_transactions = (\<lambda>l. if l = 5 then (case txs of Records xs \<Rightarrow> Records (map chain_txn xs)
          | Request_error e \<Rightarrow> Request_error e | Transport_error e \<Rightarrow> Transport_error e
          | Status_error c b \<Rightarrow> Status_error c b | Body_error c e \<Rightarrow> Body_error c e
          | Decode_error e \<Rightarrow> Decode_error e) else Records []),
     MarshalPayload = (\<lambda>t. Inr ''{}'')\<rparr>"

definition store_event :: "unit process" where
  "store_event env txn w =
     (if T_Hash txn = ''bad'' then (Inl (Errorf ''unsupported event''), w)
      else (Inr (), w\<lparr>W_events := W_events w @ [\<lparr>EV_TxHash = T_Hash txn, EV_Ledger = T_Ledger txn, EV_ContractID = [],
        EV_Type = ''contribution'', EV_Version = [], EV_Payload = [], EV_ProcessedAt = 0\<rparr>]\<rparr>))"

definition chain_cfg :: engine_config where
  "chain_cfg = \<lparr>EC_window = 3, EC_batch = 10, EC_poller = \<lparr>PL_contractIDs = []\<rparr>\<rparr>"

definition start_engine :: "unit engine" where
  "start_engine = snd (NewEngine chain_cfg
     \<lparr>W_cursor = Some \<lparr>Cur_Chain = ''stellar'', Cur_LastLedger = 2, Cur_LastProcessedAt = 0\<rparr>, W_events = [],
      W_dead = [], W_app = ()\<rparr>)"

definition old_branch :: "int \<Rightarrow> string" where
  "old_branch n = (if n = 3 then ''h3'' else if n = 4 then ''h4'' else ''h5'')"

definition new_branch :: "int \<Rightarrow> string" where
  "new_branch n = (if n = 3 then ''h3'' else if n = 4 then ''h4'' else ''k5'')"

text \<open>The engine after \<open>n\<close> ledgers of the old branch, with the events \<open>evs\<close> and the hashes \<open>seen\<close>.\<close>

definition engine_at :: "int \<Rightarrow> event_row list \<Rightarrow> (string \<times> time) list \<Rightarrow> (int \<times> string) list \<Rightarrow> time \<Rightarrow> unit engine" where
  "engine_at n evs seen hashes t =
     \<lparr>E_world = \<lparr>W_cursor = Some \<lparr>Cur_Chain = ''stellar'', Cur_LastLedger = n, Cur_LastProcessedAt = t\<rparr>,
        W_events = evs, W_dead = [], W_app = ()\<rparr>,
      E_dedup = \<lparr>DD_seen = seen, DD_maxAge = 86400 * second\<rparr>,
      E_history = \<lparr>H_hashes = hashes, H_order = map fst hashes, H_window = 3\<rparr>\<rparr>"

abbreviation "event_a \<equiv> \<lparr>EV_TxHash = ''a'', EV_Ledger = 5, EV_ContractID = [], EV_Type = ''contribution'', EV_Version = [],
  EV_Payload = [], EV_ProcessedAt = 0\<rparr>"

definition indexed_engine :: "unit engine" where
  "indexed_engine = engine_at 5 [event_a] [(''a'', 100)] [(3, ''h3''), (4, ''h4''), (5, ''h5'')] 100"

abbreviation "replayed_engine \<equiv> engine_at 5 [] [(''a'', 100)] [(3, ''h3''), (4, ''h4''), (5, ''k5'')] 200"

lemma indexing_old_branch:
  "poll store_event (chain_env old_branch (Records [''a'']) 100) chain_cfg start_engine = (Inr (), indexed_engine)"
proof -
  let ?env = "chain_env old_branch (Records [''a'']) 100"
  let ?c = "\<lparr>Cur_Chain = ''stellar'', Cur_LastLedger = 2, Cur_LastProcessedAt = 0\<rparr>"
  have s: "start_engine = engine_at 2 [] [] [] 0" by code_simp
  have c: "GetCurrent ?env (E_world (engine_at 2 [] [] [] 0)) = Inr ?c" by code_simp
  have r: "checkReorg ?env chain_cfg ?c (engine_at 2 [] [] [] 0) = (Inr ?c, engine_at 2 [] [] [] 0)" by code_simp
  have f: "FetchLedgers ?env 2 (EC_batch chain_cfg) = Inr [chain_ledger old_branch 3, chain_ledger old_branch 4, chain_ledger old_branch 5]"
    by code_simp
  have l: "handle_ledger store_event ?env chain_cfg (chain_ledger old_branch 3) (engine_at 2 [] [] [] 0) =
        engine_at 2 [] [] [(3, ''h3'')] 0"
      "handle_ledger store_event ?env chain_cfg (chain_ledger old_branch 4) (engine_at 2 [] [] [(3, ''h3'')] 0) =
        engine_at 2 [] [] [(3, ''h3''), (4, ''h4'')] 0"
      "handle_ledger store_event ?env chain_cfg (chain_ledger old_branch 5) (engine_at 2 [] [] [(3, ''h3''), (4, ''h4'')] 0) =
        engine_at 2 [event_a] [(''a'', 100)] [(3, ''h3''), (4, ''h4''), (5, ''h5'')] 0"
    by code_simp+
  have u: "Cursor_Update ?env 5 (E_world (engine_at 2 [event_a] [(''a'', 100)] [(3, ''h3''), (4, ''h4''), (5, ''h5'')] 0)) =
      (Inr (), E_world indexed_engine)"
    by code_simp
  have n: "L_Sequence (chain_ledger old_branch 5) = 5" by (simp add: chain_ledger_def)
  show ?thesis unfolding poll_def s
    by (simp add: c r f l n u Let_def) (simp add: indexed_engine_def engine_at_def)
qed

lemma replay_new_branch:
  "poll store_event (chain_env new_branch (Records [''a'']) 200) chain_cfg indexed_engine = (Inr (), replayed_engine)"
proof -
  let ?env = "chain_env new_branch (Records [''a'']) 200"
  let ?c = "\<lparr>Cur_Chain = ''stellar'', Cur_LastLedger = 5, Cur_LastProcessedAt = 100\<rparr>"
  let ?c' = "\<lparr>Cur_Chain = ''stellar'', Cur_LastLedger = 4, Cur_LastProcessedAt = 200\<rparr>"
  let ?e = "engine_at 4 [] [(''a'', 100)] [(3, ''h3''), (4, ''h4'')] 200"
  let ?e' = "engine_at 4 [] [(''a'', 100)] [(3, ''h3''), (4, ''h4''), (5, ''k5'')] 200"
  have c: "GetCurrent ?env (E_world indexed_engine) = Inr ?c" by code_simp
  have r: "checkReorg ?env chain_cfg ?c indexed_engine = (Inr ?c', ?e)" by code_simp
  have f: "FetchLedgers ?env 4 (EC_batch chain_cfg) = Inr [chain_ledger new_branch 5]" by code_simp
  have l: "handle_ledger store_event ?env chain_cfg (chain_ledger new_branch 5) ?e = ?e'" by code_simp
  have u: "Cursor_Update ?env 5 (E_world ?e') = (Inr (), E_world replayed_engine)" by code_simp
  have n: "L_Sequence (chain_ledger new_branch 5) = 5" by (simp add: chain_ledger_def)
  show ?thesis unfolding poll_def by (simp add: c r f l n u Let_def) (simp add: engine_at_def)
qed

text \<open>
  \<^verbatim>\<open>DetectReorg\<close> finds the fork: on the ledgers Horizon returns for the window, it reports no
  reorganisation exactly when every recorded hash matches, the lowest mismatching ledger as
  the fork when that lies above the first ledger of the window, and \<^verbatim>\<open>ErrReorgTooDeep\<close> when
  it does not.
\<close>

theorem DetectReorg_lowest_mismatch:
  assumes "0 < window" "0 < lst" "FetchLedgersInRange env (max 1 (lst - window + 1)) lst = Inr (l0 # ls)"
    and "\<And>l. l \<in> set (l0 # ls) \<Longrightarrow> 0 < L_Sequence l"
  shows "DetectReorg env window h lst =
    (let M = {L_Sequence l | l. l \<in> set (l0 # ls) \<and> Hash (L_Sequence l) h \<notin> {None, Some (L_Hash l)}} in
     if M = {} then Inr None
     else if Min M \<le> L_Sequence l0
     then Inl (Detail (Sentinel ErrReorgTooDeep) ''fork is at or below the window boundary'')
     else Inr (Some \<lparr>RP_ForkLedger = Min M, RP_LastLedger = Min M - 1, RP_Scanned = int (length (l0 # ls))\<rparr>))"
  using DetectReorg_Min [OF assms] unfolding mismatches_def .

theorem DetectReorg_lowest_mismatch_witness:
  "DetectReorg (chain_env new_branch (Records []) 200) 3 (E_history indexed_engine) 5 =
    (let M = {L_Sequence l | l. l \<in> set [chain_ledger new_branch 3, chain_ledger new_branch 4, chain_ledger new_branch 5]
           \<and> Hash (L_Sequence l) (E_history indexed_engine) \<notin> {None, Some (L_Hash l)}} in
     if M = {} then Inr None
     else if Min M \<le> L_Sequence (chain_ledger new_branch 3)
     then Inl (Detail (Sentinel ErrReorgTooDeep) ''fork is at or below the window boundary'')
     else Inr (Some \<lparr>RP_ForkLedger = Min M, RP_LastLedger = Min M - 1,
       RP_Scanned = int (length [chain_ledger new_branch 3, chain_ledger new_branch 4, chain_ledger new_branch 5])\<rparr>))"
proof (rule DetectReorg_lowest_mismatch)
  show "FetchLedgersInRange (chain_env new_branch (Records []) 200) (max 1 (5 - 3 + 1)) 5 =
      Inr [chain_ledger new_branch 3, chain_ledger new_branch 4, chain_ledger new_branch 5]" by code_simp
qed (auto simp: chain_ledger_def)



text \<open>
  C34: the transactions of a fetched ledger reach the processor once each. Of the matching transactions, the first one of every hash that the deduplicator does not have is
  handed to the processor, with the close time of the ledger, in the order of the ledger and in the state its predecessors left, and no other; the state
  the processor leaves is kept, whether or not it fails; afterwards the deduplicator has the hashes of all of them and no others in addition; and if the processor failed
  on a transaction with a hash, the statement that records its dead letter runs and the processor itself does not touch dead letters, then at the end of the ledger
  an unresolved dead letter has its hash, its ledger and the cause. The deduplicator keeps its entries for a positive time.
\<close>

theorem ledger_transactions_delivered:
  fixes process :: "'a process"
  assumes "FetchTransactions env (L_Sequence l) = Inr txns" "0 < DD_maxAge (E_dedup e)"
    and "matching = map (\<lambda>t. t\<lparr>T_LedgerCloseTime := L_ClosedAt l\<rparr>) (FilterByContract (EC_poller cfg) txns)"
    and "new = unseen (\<lambda>h. Has (now env) h (E_dedup e)) matching"
  shows "E_world (handle_ledger process env cfg l e) = fold (deliver process env) new (E_world e)
    \<and> (\<forall>h. Has (now env) h (E_dedup (handle_ledger process env cfg l e)) = (Has (now env) h (E_dedup e) \<or> h \<in> T_Hash ` set matching))
    \<and> (\<forall>before t after err w. new = before @ t # after \<longrightarrow> process env t (fold (deliver process env) before (E_world e)) = (Inl err, w) \<longrightarrow>
         T_Hash t \<noteq> [] \<longrightarrow> fault env (IQ_DeadLetter (T_Hash t)) = None \<longrightarrow> keeps_dead_letters process \<longrightarrow>
         (\<exists>r \<in> set (W_dead (E_world (handle_ledger process env cfg l e))). DL_TxHash r = T_Hash t \<and> DL_Ledger r = T_Ledger t
            \<and> DL_Error r = error_text err \<and> DL_Status r = ''dead_letter''))"
proof (intro conjI allI impI)
  let ?e = "e\<lparr>E_history := Record (L_Sequence l) (L_Hash l) (E_history e)\<rparr>"
  have h: "handle_ledger process env cfg l e = fold (handle_txn process env) matching ?e"
    using assms(1,3) by (simp add: handle_ledger_def Let_def fold_map comp_def)
  note run = fold_handle_txn [of ?e process env matching, folded h]
  show world: "E_world (handle_ledger process env cfg l e) = fold (deliver process env) new (E_world e)" using run assms(2,4) by simp
  show "Has (now env) x (E_dedup (handle_ledger process env cfg l e)) = (Has (now env) x (E_dedup e) \<or> x \<in> T_Hash ` set matching)" for x
    using run assms(2) by simp
  fix before t after err w
  assume t: "new = before @ t # after" "process env t (fold (deliver process env) before (E_world e)) = (Inl err, w)"
    "T_Hash t \<noteq> []" "fault env (IQ_DeadLetter (T_Hash t)) = None" "keeps_dead_letters process"
  have "T_Hash t \<notin> T_Hash ` set after" using unseen_distinct [of "\<lambda>h. Has (now env) h (E_dedup e)" matching] unfolding assms(4) [symmetric] t(1) by simp
  moreover have "E_world (handle_ledger process env cfg l e) = fold (deliver process env) after (deadLetter env t err w)"
    unfolding world t(1) by (simp add: deliver_def t(2))
  moreover obtain r where "r \<in> set (W_dead (deadLetter env t err w))" "DL_TxHash r = T_Hash t" "DL_Ledger r = T_Ledger t"
      "DL_Error r = error_text err" "DL_Status r = ''dead_letter''"
    using deadLetter_row [OF t(4,3)] by blast
  ultimately show "\<exists>r \<in> set (W_dead (E_world (handle_ledger process env cfg l e))). DL_TxHash r = T_Hash t \<and> DL_Ledger r = T_Ledger t
            \<and> DL_Error r = error_text err \<and> DL_Status r = ''dead_letter''"
    using fold_deliver_keeps [OF t(5)] by metis
qed

theorem ledger_transactions_delivered_witness:
  "\<exists>r \<in> set (W_dead (E_world (handle_ledger store_event (chain_env old_branch (Records [''a'', ''bad'']) 100) chain_cfg
        (chain_ledger old_branch 5) start_engine))). DL_TxHash r = ''bad'' \<and> DL_Error r = ''unsupported event'' \<and> DL_Status r = ''dead_letter''"
proof -
  let ?env = "chain_env old_branch (Records [''a'', ''bad'']) 100"
  let ?l = "chain_ledger old_branch 5"
  let ?t = "\<lambda>h. (chain_txn h)\<lparr>T_LedgerCloseTime := L_ClosedAt ?l\<rparr>"
  let ?w = "fold (deliver store_event ?env) [?t ''a''] (E_world start_engine)"
  have f: "FetchTransactions ?env (L_Sequence ?l) = Inr [chain_txn ''a'', chain_txn ''bad'']" by code_simp
  have a: "0 < DD_maxAge (E_dedup start_engine)" by code_simp
  have m: "map ?t [''a'', ''bad''] = map (\<lambda>t. t\<lparr>T_LedgerCloseTime := L_ClosedAt ?l\<rparr>) (FilterByContract (EC_poller chain_cfg) [chain_txn ''a'', chain_txn ''bad''])"
    by code_simp
  have n: "[?t ''a'', ?t ''bad''] = unseen (\<lambda>h. Has (now ?env) h (E_dedup start_engine)) (map ?t [''a'', ''bad''])" by code_simp
  have "\<exists>r \<in> set (W_dead (E_world (handle_ledger store_event ?env chain_cfg ?l start_engine))). DL_TxHash r = T_Hash (?t ''bad'') \<and> DL_Ledger r = T_Ledger (?t ''bad'')
      \<and> DL_Error r = error_text (Errorf ''unsupported event'') \<and> DL_Status r = ''dead_letter''"
  proof (rule ledger_transactions_delivered [OF f a m n, THEN conjunct2, THEN conjunct2, rule_format])
    show "[?t ''a'', ?t ''bad''] = [?t ''a''] @ ?t ''bad'' # []" by simp
    show "store_event ?env (?t ''bad'') ?w = (Inl (Errorf ''unsupported event''), ?w)" by (simp add: store_event_def chain_txn_def)
    show "keeps_dead_letters store_event" by (auto simp: keeps_dead_letters_def store_event_def)
  qed (simp_all add: chain_txn_def chain_env_def)
  then show ?thesis by (auto simp: chain_txn_def)
qed

text \<open>
  A ledger whose transactions cannot be fetched is lost: when the fetch fails for every ledger of a
  batch, the poll cycle still succeeds, the cursor moves past the batch, and no transaction
  is processed or dead-lettered. Nothing later comes back for these ledgers.
\<close>

theorem unfetched_ledgers_are_skipped:
  fixes process :: "'a process"
  assumes "\<And>q. fault env q = None" "W_cursor (E_world e) = Some c" "checkReorg env cfg c e = (Inr c, e)"
    and "FetchLedgers env (Cur_LastLedger c) (EC_batch cfg) = Inr ledgers" "ledgers \<noteq> []"
    and "\<And>l. l \<in> set ledgers \<Longrightarrow> \<exists>err. FetchTransactions env (L_Sequence l) = Inl err"
    and "Cur_LastLedger c < L_Sequence (last ledgers)" "0 \<le> Cur_LastLedger c"
  shows "\<exists>e'. poll process env cfg e = (Inr (), e')
    \<and> map_option Cur_LastLedger (W_cursor (E_world e')) = Some (L_Sequence (last ledgers))
    \<and> W_events (E_world e') = W_events (E_world e) \<and> W_dead (E_world e') = W_dead (E_world e)
    \<and> W_app (E_world e') = W_app (E_world e) \<and> E_dedup e' = E_dedup e"
proof -
  have skip: "E_world (fold (handle_ledger process env cfg) ls e0) = E_world e0
      \<and> E_dedup (fold (handle_ledger process env cfg) ls e0) = E_dedup e0"
    if "\<And>l. l \<in> set ls \<Longrightarrow> \<exists>err. FetchTransactions env (L_Sequence l) = Inl err" for ls e0
    using that
  proof (induction ls arbitrary: e0)
    case (Cons l ls)
    from Cons.prems [of l] obtain err where "FetchTransactions env (L_Sequence l) = Inl err" by auto
    then have "handle_ledger process env cfg l e0 = e0\<lparr>E_history := Record (L_Sequence l) (L_Hash l) (E_history e0)\<rparr>"
      by (simp add: handle_ledger_def Let_def)
    then show ?case using Cons.IH Cons.prems by simp
  qed simp
  have gc: "GetCurrent env (E_world e) = Inr c" using assms(1,2) by (simp add: GetCurrent_def)
  have "Cursor_Update env (L_Sequence (last ledgers)) (E_world e) = (Inr (), (E_world e)\<lparr>W_cursor :=
      Some (c\<lparr>Cur_LastLedger := L_Sequence (last ledgers), Cur_LastProcessedAt := now env\<rparr>)\<rparr>)"
    using assms(2,7,8) Cursor_Update_state [of "L_Sequence (last ledgers)" env "E_world e", OF _ assms(1)] by simp
  then show ?thesis using assms(2-5) gc skip [of ledgers e, OF assms(6)] by (simp add: poll_def Let_def)
qed

theorem unfetched_ledgers_are_skipped_witness:
  "\<exists>e'. poll store_event (chain_env old_branch (Transport_error (Driver ''timeout'')) 100)
      (chain_cfg\<lparr>EC_batch := 10\<rparr>)
      (start_engine\<lparr>E_world := (E_world start_engine)\<lparr>W_cursor := Some \<lparr>Cur_Chain = ''stellar'', Cur_LastLedger = 4, Cur_LastProcessedAt = 0\<rparr>\<rparr>\<rparr>) = (Inr (), e')
    \<and> map_option Cur_LastLedger (W_cursor (E_world e')) = Some 5
    \<and> W_events (E_world e') = [] \<and> W_dead (E_world e') = []"
proof -
  let ?env = "chain_env old_branch (Transport_error (Driver ''timeout'')) 100"
  let ?c = "\<lparr>Cur_Chain = ''stellar'', Cur_LastLedger = 4, Cur_LastProcessedAt = 0\<rparr>"
  let ?e = "start_engine\<lparr>E_world := (E_world start_engine)\<lparr>W_cursor := Some ?c\<rparr>\<rparr>"
  have "\<exists>e'. poll store_event ?env (chain_cfg\<lparr>EC_batch := 10\<rparr>) ?e = (Inr (), e')
    \<and> map_option Cur_LastLedger (W_cursor (E_world e')) = Some (L_Sequence (last [chain_ledger old_branch 5]))
    \<and> W_events (E_world e') = W_events (E_world ?e) \<and> W_dead (E_world e') = W_dead (E_world ?e)
    \<and> W_app (E_world e') = W_app (E_world ?e) \<and> E_dedup e' = E_dedup ?e"
  proof (rule unfetched_ledgers_are_skipped)
    show "checkReorg ?env (chain_cfg\<lparr>EC_batch := 10\<rparr>) ?c ?e = (Inr ?c, ?e)" by code_simp
    show "FetchLedgers ?env (Cur_LastLedger ?c) (EC_batch (chain_cfg\<lparr>EC_batch := 10\<rparr>)) = Inr [chain_ledger old_branch 5]"
      by code_simp
  qed (auto simp: chain_env_def chain_ledger_def FetchTransactions_def decode_def)
  moreover have "W_events (E_world ?e) = []" "W_dead (E_world ?e) = []" "L_Sequence (last [chain_ledger old_branch 5]) = 5"
    by code_simp+
  ultimately show ?thesis by metis
qed

text \<open>
  After a reorganisation a transaction that the new branch contains again is lost. The
  rollback deletes its events and rewinds the cursor, but the deduplicator still holds its
  hash, so the replay skips it: the poll succeeds, the cursor is back at the tip and the
  event of the transaction is gone for good.
\<close>

theorem replay_after_reorg_loses_events:
  "poll store_event (chain_env old_branch (Records [''a'']) 100) chain_cfg start_engine = (Inr (), indexed_engine)
   \<and> map EV_TxHash (W_events (E_world indexed_engine)) = [''a'']
   \<and> (\<exists>e'. poll store_event (chain_env new_branch (Records [''a'']) 200) chain_cfg indexed_engine = (Inr (), e')
        \<and> W_events (E_world e') = [] \<and> W_dead (E_world e') = []
        \<and> map_option Cur_LastLedger (W_cursor (E_world e')) = Some 5)"
  using indexing_old_branch replay_new_branch by (simp add: indexed_engine_def engine_at_def)

text \<open>
  Without driver failures \<^verbatim>\<open>Update\<close> moves the stored cursor to the maximum of its position and
  the given ledger, refuses a negative ledger, and reports a missing row instead of losing
  the checkpoint.
\<close>

theorem cursor_update_monotone:
  assumes "\<And>q. fault env q = None"
  shows "map_option Cur_LastLedger (W_cursor (snd (Cursor_Update env n w))) =
      map_option (\<lambda>c. if 0 \<le> n then max (Cur_LastLedger c) n else Cur_LastLedger c) (W_cursor w)
    \<and> (is_ok (fst (Cursor_Update env n w)) \<longleftrightarrow> 0 \<le> n \<and> W_cursor w \<noteq> None)
    \<and> (0 \<le> n \<and> W_cursor w = None \<longrightarrow> fst (Cursor_Update env n w) = Inl (Sentinel ErrCursorMissing))"
proof (cases "0 \<le> n")
  case True
  show ?thesis unfolding Cursor_Update_state [of n env w, OF True assms] using True
    by (cases "W_cursor w") auto
next
  case False
  then show ?thesis by (cases "W_cursor w") (auto simp: Cursor_Update_def)
qed

theorem cursor_update_monotone_witness:
  "map_option Cur_LastLedger (W_cursor (snd (Cursor_Update (chain_env old_branch (Records []) 1) 1 (E_world indexed_engine))))
     = Some 5"
proof -
  have "\<And>q. fault (chain_env old_branch (Records []) 1) q = None" by (simp add: chain_env_def)
  moreover have "map_option Cur_LastLedger (W_cursor (E_world indexed_engine)) = Some 5" by code_simp
  ultimately show ?thesis using cursor_update_monotone [of "chain_env old_branch (Records []) 1" 1 "E_world indexed_engine"]
    by auto
qed

text \<open>
  A transaction handled once is not handled again while its entry is younger than the maximal
  age, no matter whether the pruner ran in between: the second attempt changes nothing.
\<close>

theorem handled_once_within_window:
  fixes process :: "'a process"
  assumes "\<not> Has (now env) (T_Hash txn) (E_dedup e)" "distinct (map fst (DD_seen (E_dedup e)))"
    and "e1 = handle_txn process env txn e" "now env \<le> t" "t \<le> now env'" "now env' - now env < DD_maxAge (E_dedup e)"
    and "e2 = e1\<lparr>E_dedup := Prune t (E_dedup e1)\<rparr>" "T_Hash txn' = T_Hash txn"
  shows "handle_txn process env' txn' e2 = e2"
proof -
  have d1: "E_dedup e1 = Dedup_Add (now env) (T_Hash txn) (E_dedup e)"
    using assms(1,3) by (auto simp: handle_txn_def Let_def split: prod.splits sum.splits)
  have "distinct (map fst (DD_seen (E_dedup e1)))"
    using assms(2) unfolding d1 by (simp add: Dedup_Add_def distinct_update)
  then have "Has (now env') (T_Hash txn) (Prune t (E_dedup e1)) = Has (now env') (T_Hash txn) (E_dedup e1)"
    using assms(5) by (rule Has_Prune)
  also have "Has (now env') (T_Hash txn) (E_dedup e1)" unfolding d1 using assms(6) by (rule Has_Add)
  finally show ?thesis using assms(7,8) by (simp add: handle_txn_seen)
qed

theorem handled_once_within_window_witness:
  "let e1 = handle_txn store_event (chain_env old_branch (Records []) 100) (chain_txn ''a'') start_engine;
       e2 = e1\<lparr>E_dedup := Prune 150 (E_dedup e1)\<rparr> in
   handle_txn store_event (chain_env old_branch (Records []) 200) (chain_txn ''a'') e2 = e2"
  unfolding Let_def
  by (rule handled_once_within_window [where env = "chain_env old_branch (Records []) 100" and e = start_engine
        and txn = "chain_txn ''a''" and t = 150, OF _ _ refl])
     (simp_all add: start_engine_def NewEngine_def NewDeduplicator_def Has_def chain_env_def Let_def)

end
