(* ===== verification/Processor.thy ===== *)
theory Processor
  imports Payout Reputation XdrParser Indexer
begin

text \<open>
  \<^verbatim>\<open>internal/indexer/processor.go\<close> and \<^verbatim>\<open>circle_tx.go\<close>: what the indexer does with a transaction.

  The state of the application behind the event processor is \<open>app\<close>: the circle tables, users,
  reputation snapshots, treasury fees, and the messages sent to WebSocket rooms and to RabbitMQ.
  It is the \<open>W_app\<close> part of the indexer's world, whose events table is the audit log. The
  processor's optional dependencies are the flags of \<open>event_processor\<close>; using one that is nil is
  the panic \<open>nil_panic\<close>. A transaction draws identifiers event by event, so the environment is a
  function of the operation and the event number. Work on one circle is serialised by the
  advisory lock, so each transaction on the database is one atomic function of the state.

  Constraints the statements check besides those of the circle tables: one row of
  \<^verbatim>\<open>treasury_fees\<close> per transaction and circle, one row of \<^verbatim>\<open>contract_events\<close> per transaction,
  contract and type. The \<^verbatim>\<open>ON CONFLICT\<close> clause of the dispute insert names columns without a
  unique constraint, which PostgreSQL refuses.
\<close>

section \<open>State and environment\<close>

record fee_row =
  TF_CircleID :: string
  TF_Amount :: float64
  TF_TxHash :: string
  TF_Ledger :: int
  TF_CreatedAt :: time

datatype sent =
    WebSocket string payload
  | Published string string payload time

record app =
  A_circles :: circles_db
  A_users :: users_db
  A_reps :: rep_db
  A_fees :: "fee_row list"
  A_sent :: "sent list"

record event_processor =
  EP_db :: bool
  EP_rmqClient :: bool
  EP_wsBroadcast :: bool
  EP_circleRepo :: bool
  EP_userRepo :: bool
  EP_reputationRepo :: bool
  EP_knownContracts :: "string list"
  EP_versions :: bool

datatype proc_stmt =
    PQ_BeginContribution uuid
  | PQ_Lock int64
  | PQ_CountContributors uuid int
  | PQ_CountActive uuid
  | PQ_ApplyContribution uuid
  | PQ_CommitContribution uuid
  | PQ_BeginPayout uuid
  | PQ_AdvanceRound uuid
  | PQ_CommitPayout uuid
  | PQ_InsertDispute uuid uuid
  | PQ_InsertFee string string
  | PQ_FeeSummary string
  | PQ_EventRecorded string string string
  | PQ_InsertEvent string string string
  | PQ_Publish string

record penv = "proc_stmt env" +
  p_circle :: cenv
  p_contrib :: contrib_env
  p_payout :: payout_env
  p_user :: uenv
  p_rep :: renv
  p_xdr :: xenv
  p_float_to_int :: "float64 \<Rightarrow> int64"
  json_payload :: "payload \<Rightarrow> string result"
  ResolveContractVersion :: "string \<Rightarrow> string result"
  strkey_Decode :: "string \<Rightarrow> byte list result"

definition NewEventProcessor :: "bool \<Rightarrow> bool \<Rightarrow> bool \<Rightarrow> bool \<Rightarrow> bool \<Rightarrow> event_processor" where
  "NewEventProcessor db rmq circleRepo reputationRepo userRepo =
     \<lparr>EP_db = db, EP_rmqClient = rmq, EP_wsBroadcast = False, EP_circleRepo = circleRepo, EP_userRepo = userRepo,
      EP_reputationRepo = reputationRepo, EP_knownContracts = [], EP_versions = False\<rparr>"

definition SetWebSocketBroadcast :: "bool \<Rightarrow> event_processor \<Rightarrow> event_processor" where
  "SetWebSocketBroadcast fn p = p\<lparr>EP_wsBroadcast := fn\<rparr>"

definition SetContractVersionResolver :: "bool \<Rightarrow> event_processor \<Rightarrow> event_processor" where
  "SetContractVersionResolver r p = p\<lparr>EP_versions := r\<rparr>"

definition SetKnownContracts :: "penv \<Rightarrow> string list \<Rightarrow> event_processor \<Rightarrow> event_processor" where
  "SetKnownContracts env ids p =
     p\<lparr>EP_knownContracts := concat (map (\<lambda>i. i # (case strkey_Decode env i of Inl e \<Rightarrow> [] | Inr raw \<Rightarrow> [hex raw])) ids)\<rparr>"

definition isUnknownContract :: "event_processor \<Rightarrow> string \<Rightarrow> bool" where
  "isUnknownContract p contractID = (EP_knownContracts p \<noteq> [] \<and> contractID \<notin> set (EP_knownContracts p))"

definition nil_panic :: error where
  "nil_panic = Errorf ''runtime error: invalid memory address or nil pointer dereference''"

text \<open>Running a call of the circle or user code on its part of the state.\<close>

definition on_circles :: "'a op \<Rightarrow> app \<Rightarrow> 'a result \<times> app" where
  "on_circles f a = (case f (A_circles a) of (r, d) \<Rightarrow> (r, a\<lparr>A_circles := d\<rparr>))"

definition on_users :: "(users_db \<Rightarrow> 'a result \<times> users_db) \<Rightarrow> app \<Rightarrow> 'a result \<times> app" where
  "on_users f a = (case f (A_users a) of (r, d) \<Rightarrow> (r, a\<lparr>A_users := d\<rparr>))"

definition on_reps :: "(rep_db \<Rightarrow> 'a result \<times> rep_db) \<Rightarrow> app \<Rightarrow> 'a result \<times> app" where
  "on_reps f a = (case f (A_reps a) of (r, d) \<Rightarrow> (r, a\<lparr>A_reps := d\<rparr>))"

section \<open>Helpers\<close>

definition txnTime :: "penv \<Rightarrow> transaction \<Rightarrow> time" where
  "txnTime env txn = (if T_LedgerCloseTime txn \<noteq> zero_time then T_LedgerCloseTime txn else now env)"

definition evTime :: "penv \<Rightarrow> ContractEvent \<Rightarrow> time" where
  "evTime env ev = (if CE_LedgerCloseTime ev \<noteq> zero_time then CE_LedgerCloseTime ev else now env)"

definition isNotFound :: "error \<Rightarrow> bool" where
  "isNotFound e = (error_text e = ''not found'' \<or> e = Sentinel Sql_ErrNoRows)"

definition reputationLevel :: "int \<Rightarrow> string" where
  "reputationLevel score =
     (if score > 800 then ''Diamond'' else if score > 600 then ''Platinum'' else if score > 400 then ''Gold''
      else if score > 200 then ''Silver'' else ''Bronze'')"

text \<open>\<^verbatim>\<open>json.Marshal\<close> of a message fails on a float that is not a number or infinite.\<close>

primrec json_ok :: "gval \<Rightarrow> bool" where
  "json_ok GNil = True"
| "json_ok (GBool b) = True"
| "json_ok (GString s) = True"
| "json_ok (GUint32 w) = True"
| "json_ok (GInt32 w) = True"
| "json_ok (GUint64 w) = True"
| "json_ok (GInt64 w) = True"
| "json_ok (GInt w) = True"
| "json_ok (GFloat32 f) = (\<not> isNaN f \<and> \<not> isInf f)"
| "json_ok (GFloat64 f) = (\<not> isNaN f \<and> \<not> isInf f)"
| "json_ok (GSlice vs) = list_all id (map json_ok vs)"
| "json_ok (GMap kvs) = list_all snd (map (map_prod id json_ok) kvs)"

definition Broadcast :: "event_processor \<Rightarrow> penv \<Rightarrow> string \<Rightarrow> string \<Rightarrow> payload \<Rightarrow> time \<Rightarrow> app \<Rightarrow> app" where
  "Broadcast p env circleID eventType pl ts a =
     (let a1 = (if EP_wsBroadcast p then a\<lparr>A_sent := A_sent a @ [WebSocket circleID pl]\<rparr> else a) in
      if \<not> json_ok (GMap pl) then a1
      else if EP_rmqClient p \<and> fault env (PQ_Publish eventType) = None
      then a1\<lparr>A_sent := A_sent a1 @ [Published (''circle.'' @ eventType) circleID pl ts]\<rparr>
      else a1)"

text \<open>The lookup idiom of the handlers: a missing entity is skipped, any other error returned.\<close>

definition found :: "string \<Rightarrow> 'b result \<Rightarrow> app \<Rightarrow> ('b \<Rightarrow> unit result \<times> app) \<Rightarrow> unit result \<times> app" where
  "found what r a k =
     (case r of
        Inl e \<Rightarrow> (if isNotFound e then Inr () else Inl (Wrap what e), a)
      | Inr x \<Rightarrow> k x)"

definition find_circle_by_contract :: "event_processor \<Rightarrow> penv \<Rightarrow> string \<Rightarrow> string \<Rightarrow> app \<Rightarrow> (circle \<Rightarrow> unit result \<times> app)
    \<Rightarrow> unit result \<times> app" where
  "find_circle_by_contract p env what contractID a k =
     guard (\<not> EP_circleRepo p) nil_panic a (found what (FindByContractID (p_circle env) contractID (A_circles a)) a k)"

definition find_user_by_wallet :: "event_processor \<Rightarrow> penv \<Rightarrow> string \<Rightarrow> string \<Rightarrow> app \<Rightarrow> (user \<Rightarrow> unit result \<times> app)
    \<Rightarrow> unit result \<times> app" where
  "find_user_by_wallet p env what wallet a k =
     guard (\<not> EP_userRepo p) nil_panic a (found what (FindByWalletAddress (p_user env) wallet (A_users a)) a k)"

section \<open>Contribution and payout transactions\<close>

text \<open>The key of the advisory lock: the first eight bytes of the identifier without the sign bit.\<close>

definition circleLockKey :: "uuid \<Rightarrow> int64" where
  "circleLockKey circleID =
     (let key = and (ucast (drop_bit 64 circleID) :: int64) (not (push_bit 63 1)); maxInt64 = drop_bit 1 (not 0 :: int64) in
      if key > maxInt64 then maxInt64 else key)"

record RoundAdvance =
  RA_Advanced :: bool
  RA_NextRound :: int

text \<open>Addition in a \<^verbatim>\<open>NUMERIC\<close> column is exact.\<close>

fun numeric_add :: "float64 \<Rightarrow> float64 \<Rightarrow> float64" where
  "numeric_add (Finite x) (Finite y) = Finite (x + y)"
| "numeric_add x y = fadd x y"

definition count_contributors :: "circles_db \<Rightarrow> uuid \<Rightarrow> int \<Rightarrow> nat" where
  "count_contributors d i r =
     length (remdups (map CB_UserID (filter (\<lambda>c. CB_CircleID c = i \<and> CB_RoundNumber c = r) (B_contribs d))))"

definition advanceRoundInTx :: "penv \<Rightarrow> raw_contrib \<Rightarrow> RoundAdvance op" where
  "advanceRoundInTx env c d =
     (let i = CB_CircleID c; r = CB_RoundNumber c in
      attempt (wrap_err ''counting round contributors'' (run_query env (PQ_CountContributors i r) (int (count_contributors d i r)))) d (\<lambda>contributed.
      attempt (wrap_err ''counting active members'' (run_query env (PQ_CountActive i) (active_count d i))) d (\<lambda>activeMembers.
      let complete = (activeMembers > 0 \<and> contributed \<ge> activeMembers); nxt = r + 1 in
      perform (wrap_call ''applying contribution to circle''
        (exec_stmt env (PQ_ApplyContribution i) no_check
           (\<lambda>d. d\<lparr>B_circles := update_where (\<lambda>x. C_ID x = i \<and> C_DeletedAt x = None)
              (\<lambda>x. x\<lparr>C_TotalContributions := numeric_add (C_TotalContributions x) (CB_Amount c),
                     C_CurrentRound := (if complete then max (C_CurrentRound x) nxt else C_CurrentRound x),
                     C_UpdatedAt := now env\<rparr>) (B_circles d)\<rparr>) d)) (\<lambda>_ d'.
      (Inr \<lparr>RA_Advanced = complete, RA_NextRound = nxt\<rparr>, d')))))"

text \<open>A transaction with its own error texts: begin, body, commit; rolled back otherwise.\<close>

definition tx_block :: "penv \<Rightarrow> proc_stmt \<Rightarrow> string \<Rightarrow> proc_stmt \<Rightarrow> string \<Rightarrow> 'a op \<Rightarrow> 'a op" where
  "tx_block env begin_stmt begin_what commit_stmt commit_what body d =
     (case fault env begin_stmt of
        Some e \<Rightarrow> (Inl (Wrap begin_what e), d)
      | None \<Rightarrow>
          (case body d of
             (Inl e, d') \<Rightarrow> (Inl e, d)
           | (Inr x, d') \<Rightarrow> (case fault env commit_stmt of Some e \<Rightarrow> (Inl (Wrap commit_what e), d) | None \<Rightarrow> (Inr x, d'))))"

definition applyContribution :: "event_processor \<Rightarrow> penv \<Rightarrow> raw_contrib \<Rightarrow> RoundAdvance op" where
  "applyContribution p env c d =
     guard (\<not> EP_db p) (Sentinel ErrNoDatabase) d
     (tx_block env (PQ_BeginContribution (CB_CircleID c)) ''beginning contribution transaction''
        (PQ_CommitContribution (CB_CircleID c)) ''committing contribution'' (\<lambda>d.
        attempt (wrap_err ''acquiring circle advisory lock'' (run_query env (PQ_Lock (circleLockKey (CB_CircleID c))) ())) d (\<lambda>_.
        perform (Contrib_Create (p_contrib env) c d) (\<lambda>_ d'. advanceRoundInTx env c d'))) d)"

definition recordPayoutAndAdvance :: "event_processor \<Rightarrow> penv \<Rightarrow> payout \<Rightarrow> unit op" where
  "recordPayoutAndAdvance p env po d =
     guard (\<not> EP_db p) (Sentinel ErrNoDatabase) d
     (tx_block env (PQ_BeginPayout (PO_CircleID po)) ''beginning payout transaction''
        (PQ_CommitPayout (PO_CircleID po)) ''committing payout'' (\<lambda>d.
        attempt (wrap_err ''acquiring circle advisory lock'' (run_query env (PQ_Lock (circleLockKey (PO_CircleID po))) ())) d (\<lambda>_.
        perform (Payout_Create (p_payout env) po d) (\<lambda>_ d'.
        wrap_call ''advancing circle round''
          (exec_stmt env (PQ_AdvanceRound (PO_CircleID po)) no_check
             (\<lambda>d. d\<lparr>B_circles := update_where (\<lambda>x. C_ID x = PO_CircleID po \<and> C_DeletedAt x = None)
                (\<lambda>x. x\<lparr>C_CurrentRound := max (C_CurrentRound x) (PO_RoundNumber po + 1), C_UpdatedAt := now env\<rparr>) (B_circles d)\<rparr>) d')))) d)"

section \<open>Event handlers\<close>

abbreviation pstr :: "ContractEvent \<Rightarrow> string \<Rightarrow> string" where "pstr ev \<equiv> payloadStr (CE_Payload ev)"
abbreviation pflt :: "ContractEvent \<Rightarrow> string \<Rightarrow> float64" where "pflt ev \<equiv> payloadFloat (CE_Payload ev)"
abbreviation pint :: "penv \<Rightarrow> ContractEvent \<Rightarrow> string \<Rightarrow> int" where "pint env ev \<equiv> payloadInt (p_float_to_int env) (CE_Payload ev)"
abbreviation gint :: "int \<Rightarrow> gval" where "gint n \<equiv> GInt (word_of_int n)"

definition onCircleCreated :: "event_processor \<Rightarrow> penv \<Rightarrow> ContractEvent \<Rightarrow> app \<Rightarrow> unit result \<times> app" where
  "onCircleCreated p env ev a =
     (let contractID = (if pstr ev ''circle_id'' = [] then CE_ContractID ev else pstr ev ''circle_id'');
          done = (Inr (), Broadcast p env contractID ''circle.created''
            [(''contract_id'', GString contractID), (''creator'', GString (pstr ev ''creator'')),
             (''tx_hash'', GString (CE_TxHash ev)), (''ledger'', GInt64 (word_of_int (CE_Ledger ev)))] (evTime env ev) a) in
      guard (\<not> EP_circleRepo p) nil_panic a
      (case FindByContractID (p_circle env) contractID (A_circles a) of
         Inl e \<Rightarrow> if \<not> isNotFound e then (Inl (Wrap ''onCircleCreated find'' e), a) else done
       | Inr existing \<Rightarrow> done))"

definition onMemberJoined :: "event_processor \<Rightarrow> penv \<Rightarrow> ContractEvent \<Rightarrow> app \<Rightarrow> unit result \<times> app" where
  "onMemberJoined p env ev a =
     (let walletAddr = pstr ev ''member'' in
      find_circle_by_contract p env ''onMemberJoined find circle'' (pstr ev ''circle_id'') a (\<lambda>c.
      find_user_by_wallet p env ''onMemberJoined find user'' walletAddr a (\<lambda>u.
      let member = \<lparr>CM_CircleID = C_ID c, CM_UserID = U_ID u, CM_Position = 0, CM_Status = MemberStatusActive, CM_JoinedAt = evTime env ev\<rparr> in
      case on_circles (CreateMember (p_circle env) member) a of
        (Inl e, a') \<Rightarrow> (if errors_Is e ErrAlreadyMember then Inr () else Inl (Wrap ''onMemberJoined create member'' e), a')
      | (Inr _, a') \<Rightarrow>
          (Inr (), Broadcast p env (uuid_String env (C_ID c)) ''member.joined''
             [(''circle_id'', GString (uuid_String env (C_ID c))), (''user_id'', GString (uuid_String env (U_ID u))),
              (''wallet'', GString walletAddr), (''tx_hash'', GString (CE_TxHash ev))] (evTime env ev) a'))))"

definition chain_contribution :: "penv \<Rightarrow> ContractEvent \<Rightarrow> circle \<Rightarrow> user \<Rightarrow> raw_contrib" where
  "chain_contribution env ev c u =
     \<lparr>CB_ID = uuid_New env 0, CB_CircleID = C_ID c, CB_UserID = U_ID u, CB_RoundNumber = pint env ev ''round'',
      CB_Amount = pflt ev ''amount'', CB_TxnHash = Some (CE_TxHash ev), CB_Status = StatusConfirmed, CB_OnTime = True,
      CB_VerifiedOnchain = False, CB_VerificationStatus = [], CB_CreatedAt = now env\<rparr>"

definition onContributionReceived :: "event_processor \<Rightarrow> penv \<Rightarrow> ContractEvent \<Rightarrow> app \<Rightarrow> unit result \<times> app" where
  "onContributionReceived p env ev a =
     find_circle_by_contract p env ''onContributionReceived find circle'' (pstr ev ''circle_id'') a (\<lambda>c.
     find_user_by_wallet p env ''onContributionReceived find user'' (pstr ev ''member'') a (\<lambda>u.
     let contrib = chain_contribution env ev c u in
     case on_circles (applyContribution p env contrib) a of
       (Inl e, a') \<Rightarrow> (if errors_Is e App_ErrConflict then Inr () else Inl (Wrap ''onContributionReceived record contribution'' e), a')
     | (Inr advance, a') \<Rightarrow>
         (Inr (), Broadcast p env (uuid_String env (C_ID c)) ''contribution.confirmed''
            [(''circle_id'', GString (uuid_String env (C_ID c))), (''user_id'', GString (uuid_String env (U_ID u))),
             (''amount'', GFloat64 (CB_Amount contrib)), (''round'', gint (CB_RoundNumber contrib)),
             (''contribution_id'', GString (uuid_String env (CB_ID contrib))), (''tx_hash'', GString (CE_TxHash ev))] (evTime env ev) a')))"

definition chain_payout_type :: "string \<Rightarrow> string" where
  "chain_payout_type t = (if t = ''fixed'' then ''fixed'' else if t = ''auction'' then ''auction'' else if t = ''vote'' then ''vote'' else ''random'')"

definition chain_payout :: "penv \<Rightarrow> ContractEvent \<Rightarrow> circle \<Rightarrow> user \<Rightarrow> payout" where
  "chain_payout env ev c u =
     \<lparr>PO_ID = uuid_New env 0, PO_CircleID = C_ID c, PO_RecipientID = U_ID u, PO_RoundNumber = pint env ev ''round'',
      PO_Amount = pflt ev ''amount'', PO_FeeAmount = Finite 0, PO_TxnHash = Some (CE_TxHash ev),
      PO_PayoutType = chain_payout_type (pstr ev ''payout_type''), PO_VerifiedOnchain = False, PO_VerificationStatus = [],
      PO_CreatedAt = now env, PT_OnTime = False\<rparr>"

definition onPayoutExecuted :: "event_processor \<Rightarrow> penv \<Rightarrow> ContractEvent \<Rightarrow> app \<Rightarrow> unit result \<times> app" where
  "onPayoutExecuted p env ev a =
     find_circle_by_contract p env ''onPayoutExecuted find circle'' (pstr ev ''circle_id'') a (\<lambda>c.
     find_user_by_wallet p env ''onPayoutExecuted find recipient'' (pstr ev ''recipient'') a (\<lambda>u.
     let p2 = chain_payout env ev c u in
     case on_circles (recordPayoutAndAdvance p env p2) a of
       (Inl e, a') \<Rightarrow> (if errors_Is e App_ErrConflict then Inr () else Inl (Wrap ''onPayoutExecuted record payout'' e), a')
     | (Inr _, a') \<Rightarrow>
         (Inr (), Broadcast p env (uuid_String env (C_ID c)) ''payout.received''
            [(''circle_id'', GString (uuid_String env (C_ID c))), (''recipient_id'', GString (uuid_String env (U_ID u))),
             (''amount'', GFloat64 (PO_Amount p2)), (''round'', gint (PO_RoundNumber p2)),
             (''payout_id'', GString (uuid_String env (PO_ID p2))), (''tx_hash'', GString (CE_TxHash ev))] (evTime env ev) a')))"

definition onLateReported :: "event_processor \<Rightarrow> penv \<Rightarrow> ContractEvent \<Rightarrow> app \<Rightarrow> unit result \<times> app" where
  "onLateReported p env ev a =
     find_circle_by_contract p env ''onLateReported find circle'' (pstr ev ''circle_id'') a (\<lambda>c.
     find_user_by_wallet p env ''onLateReported find user'' (pstr ev ''member'') a (\<lambda>u.
     (Inr (), Broadcast p env (uuid_String env (C_ID c)) ''contribution.late''
        [(''circle_id'', GString (uuid_String env (C_ID c))), (''user_id'', GString (uuid_String env (U_ID u))),
         (''penalty_amount'', GFloat64 (pflt ev ''penalty_amount'')), (''strikes'', gint (pint env ev ''strikes'')),
         (''tx_hash'', GString (CE_TxHash ev))] (evTime env ev) a)))"

definition onMemberExited :: "event_processor \<Rightarrow> penv \<Rightarrow> ContractEvent \<Rightarrow> app \<Rightarrow> unit result \<times> app" where
  "onMemberExited p env ev a =
     find_circle_by_contract p env ''onMemberExited find circle'' (pstr ev ''circle_id'') a (\<lambda>c.
     find_user_by_wallet p env ''onMemberExited find user'' (pstr ev ''member'') a (\<lambda>u.
     perform (wrap_call ''onMemberExited update status''
       (on_circles (UpdateMemberStatus (p_circle env) (C_ID c) (U_ID u) MemberStatusExited) a)) (\<lambda>_ a'.
     (Inr (), Broadcast p env (uuid_String env (C_ID c)) ''member.exited''
        [(''circle_id'', GString (uuid_String env (C_ID c))), (''user_id'', GString (uuid_String env (U_ID u))),
         (''penalty'', GFloat64 (pflt ev ''penalty'')), (''tx_hash'', GString (CE_TxHash ev))] (evTime env ev) a'))))"

definition onDefaultRecorded :: "event_processor \<Rightarrow> penv \<Rightarrow> ContractEvent \<Rightarrow> app \<Rightarrow> unit result \<times> app" where
  "onDefaultRecorded p env ev a =
     find_user_by_wallet p env ''onDefaultRecorded find user'' (pstr ev ''member'') a (\<lambda>u.
     guard (\<not> EP_reputationRepo p) nil_panic a
     (attempt (case GetByUser (p_rep env) (U_ID u) (A_reps a) of
                 Inl e \<Rightarrow> if \<not> isNotFound e then Inl (Wrap ''onDefaultRecorded get reputation'' e) else Inr 0
               | Inr existing \<Rightarrow> Inr (RP_Score existing)) a (\<lambda>currentScore.
      let newScore = (if currentScore - 50 < 0 then 0 else currentScore - 50); level = reputationLevel newScore in
      perform (wrap_call ''onDefaultRecorded save snapshot''
        (on_reps (SaveSnapshot (p_rep env) \<lparr>RP_UserID = U_ID u, RP_Score = newScore, RP_Level = level, RP_Breakdown = None,
           RP_Month = now env, RP_CreatedAt = now env\<rparr>) a)) (\<lambda>_ a1.
      let a2 = snd (on_users (UpdateMoiScore (p_user env) (U_ID u) newScore) a1) in
      (Inr (), Broadcast p env (pstr ev ''circle_id'') ''reputation.updated''
         [(''user_id'', GString (uuid_String env (U_ID u))), (''new_score'', gint newScore), (''level'', GString level),
          (''reason'', GString ''default''), (''tx_hash'', GString (CE_TxHash ev))] (evTime env ev) a2)))))"

definition onCircleCompleted :: "event_processor \<Rightarrow> penv \<Rightarrow> ContractEvent \<Rightarrow> app \<Rightarrow> unit result \<times> app" where
  "onCircleCompleted p env ev a =
     find_circle_by_contract p env ''onCircleCompleted find circle'' (pstr ev ''circle_id'') a (\<lambda>c.
     let c' = c\<lparr>C_Status := CircleStatusCompleted, C_TotalContributions := pflt ev ''total_contributions'', C_EndDate := Some (now env)\<rparr> in
     perform (wrap_call ''onCircleCompleted update'' (on_circles (Repo_Update (p_circle env) c') a)) (\<lambda>_ a'.
     (Inr (), Broadcast p env (uuid_String env (C_ID c)) ''circle.completed''
        [(''circle_id'', GString (uuid_String env (C_ID c))), (''total_contributions'', GFloat64 (pflt ev ''total_contributions'')),
         (''tx_hash'', GString (CE_TxHash ev))] (evTime env ev) a')))"

definition onAuctionBid :: "event_processor \<Rightarrow> penv \<Rightarrow> ContractEvent \<Rightarrow> app \<Rightarrow> unit result \<times> app" where
  "onAuctionBid p env ev a =
     (let contractID = (if pstr ev ''circle_id'' = [] then CE_ContractID ev else pstr ev ''circle_id'');
          bidder = pstr ev ''bidder''; discountBips = pint env ev ''discount_bips''; r = pint env ev ''round'' in
      if \<not> EP_circleRepo p \<or> \<not> EP_userRepo p then
        (Inr (), Broadcast p env contractID ''auction.bid''
           [(''contract_id'', GString contractID), (''bidder'', GString bidder), (''discount_bips'', gint discountBips),
            (''round'', gint r), (''tx_hash'', GString (CE_TxHash ev))] (evTime env ev) a)
      else
        find_circle_by_contract p env ''onAuctionBid find circle'' contractID a (\<lambda>c.
        find_user_by_wallet p env ''onAuctionBid find user'' bidder a (\<lambda>u.
        perform (wrap_call ''onAuctionBid create auction bid''
          (on_circles (CreateAuctionBid (p_circle env) \<lparr>AB_ID = uuid_New env 0, AB_CircleID = C_ID c, AB_BidderID = U_ID u,
             AB_RoundNumber = r, AB_BidAmount = of_int64 discountBips, AB_CreatedAt = now env\<rparr>) a)) (\<lambda>_ a'.
        (Inr (), Broadcast p env (uuid_String env (C_ID c)) ''auction.bid''
           [(''circle_id'', GString (uuid_String env (C_ID c))), (''bidder_id'', GString (uuid_String env (U_ID u))),
            (''contract_id'', GString contractID), (''bidder'', GString bidder), (''discount_bips'', gint discountBips),
            (''round'', gint r), (''tx_hash'', GString (CE_TxHash ev))] (evTime env ev) a')))))"

definition onVoteCast :: "event_processor \<Rightarrow> penv \<Rightarrow> ContractEvent \<Rightarrow> app \<Rightarrow> unit result \<times> app" where
  "onVoteCast p env ev a =
     (let contractID = (if pstr ev ''circle_id'' = [] then CE_ContractID ev else pstr ev ''circle_id'');
          voter = pstr ev ''voter''; voteFor = pstr ev ''vote_for''; r = pint env ev ''round'' in
      if \<not> EP_circleRepo p \<or> \<not> EP_userRepo p then
        (Inr (), Broadcast p env contractID ''vote.cast''
           [(''contract_id'', GString contractID), (''voter'', GString voter), (''vote_for'', GString voteFor),
            (''round'', gint r), (''tx_hash'', GString (CE_TxHash ev))] (evTime env ev) a)
      else
        find_circle_by_contract p env ''onVoteCast find circle'' contractID a (\<lambda>c.
        find_user_by_wallet p env ''onVoteCast find voter'' voter a (\<lambda>u.
        find_user_by_wallet p env ''onVoteCast find recipient'' voteFor a (\<lambda>v.
        case on_circles (CreateVote (p_circle env) \<lparr>CV_ID = uuid_New env 0, CV_CircleID = C_ID c, CV_VoterID = U_ID u,
               CV_RecipientID = U_ID v, CV_RoundNumber = r, CV_CreatedAt = now env\<rparr>) a of
          (Inl e, a') \<Rightarrow> (if errors_Is e App_ErrConflict then Inr () else Inl (Wrap ''onVoteCast create vote'' e), a')
        | (Inr _, a') \<Rightarrow>
            (Inr (), Broadcast p env (uuid_String env (C_ID c)) ''vote.cast''
               [(''circle_id'', GString (uuid_String env (C_ID c))), (''contract_id'', GString contractID),
                (''voter_id'', GString (uuid_String env (U_ID u))), (''recipient_id'', GString (uuid_String env (U_ID v))),
                (''round'', gint r), (''tx_hash'', GString (CE_TxHash ev))] (evTime env ev) a')))))"

text \<open>No unique constraint covers the columns of the \<^verbatim>\<open>ON CONFLICT\<close> clause.\<close>

definition insert_chain_dispute :: "penv \<Rightarrow> ContractEvent \<Rightarrow> uuid \<Rightarrow> uuid \<Rightarrow> unit op" where
  "insert_chain_dispute env ev cid raiser d =
     exec_stmt env (PQ_InsertDispute cid raiser)
       (\<lambda>d. Some (Driver ''pq: there is no unique or exclusion constraint matching the ON CONFLICT specification''))
       (\<lambda>d. d\<lparr>B_disputes := B_disputes d @ [\<lparr>DS_ID = uuid_New env 1, DS_CircleID = cid, DS_RaiserID = raiser,
          DS_Reason = ''Dispute raised via on-chain event'',
          DS_Details = Some (''evidence_hash: '' @ pstr ev ''evidence_hash'' @ '', tx_hash: '' @ CE_TxHash ev), DS_Status = ''open'',
          DS_CreatedAt = now env, DS_UpdatedAt = now env\<rparr>]\<rparr>) d"

definition onDisputeRaised :: "event_processor \<Rightarrow> penv \<Rightarrow> ContractEvent \<Rightarrow> app \<Rightarrow> unit result \<times> app" where
  "onDisputeRaised p env ev a =
     (let member = pstr ev ''member''; evidenceHash = pstr ev ''evidence_hash'' in
      find_circle_by_contract p env ''onDisputeRaised find circle'' (pstr ev ''circle_id'') a (\<lambda>c.
      perform (wrap_call ''onDisputeRaised update circle status''
        (on_circles (Repo_Update (p_circle env) (c\<lparr>C_Status := CircleStatusOther ''disputed''\<rparr>)) a)) (\<lambda>_ a1.
      let raiser = (if member \<noteq> [] \<and> EP_userRepo p
                    then (case FindByWalletAddress (p_user env) member (A_users a1) of Inl e \<Rightarrow> None | Inr u \<Rightarrow> Some (U_ID u)) else None);
          a2 = (case raiser of Some u \<Rightarrow> if EP_db p then snd (on_circles (insert_chain_dispute env ev (C_ID c) u) a1) else a1 | None \<Rightarrow> a1) in
      (Inr (), Broadcast p env (uuid_String env (C_ID c)) ''dispute.raised''
         [(''circle_id'', GString (uuid_String env (C_ID c))), (''member_wallet'', GString member),
          (''evidence_hash'', GString evidenceHash), (''tx_hash'', GString (CE_TxHash ev))] (evTime env ev) a2))))"

definition insert_fee :: "penv \<Rightarrow> ContractEvent \<Rightarrow> fee_row list \<Rightarrow> fee_row list" where
  "insert_fee env ev fees =
     (let row = \<lparr>TF_CircleID = pstr ev ''circle_id'', TF_Amount = pflt ev ''amount'', TF_TxHash = CE_TxHash ev,
            TF_Ledger = CE_Ledger ev, TF_CreatedAt = CE_LedgerCloseTime ev\<rparr> in
      if fault env (PQ_InsertFee (TF_TxHash row) (TF_CircleID row)) \<noteq> None
         \<or> (\<exists>r \<in> set fees. TF_TxHash r = TF_TxHash row \<and> TF_CircleID r = TF_CircleID row)
      then fees else fees @ [row])"

definition onFeeDeposited :: "event_processor \<Rightarrow> penv \<Rightarrow> ContractEvent \<Rightarrow> app \<Rightarrow> unit result \<times> app" where
  "onFeeDeposited p env ev a =
     (let circleID = pstr ev ''circle_id''; a1 = (if EP_db p then a\<lparr>A_fees := insert_fee env ev (A_fees a)\<rparr> else a) in
      (Inr (), Broadcast p env circleID ''fee.deposited''
         [(''circle_id'', GString circleID), (''amount'', GFloat64 (pflt ev ''amount'')), (''tx_hash'', GString (CE_TxHash ev)),
          (''ledger'', GInt64 (word_of_int (CE_Ledger ev)))] (evTime env ev) a1))"

definition GetTreasuryFeesSummary :: "event_processor \<Rightarrow> penv \<Rightarrow> string \<Rightarrow> app \<Rightarrow> (float64 \<times> nat) result" where
  "GetTreasuryFeesSummary p env circleID a =
     (if \<not> EP_db p then Inr (Finite 0, 0)
      else let rows = filter (\<lambda>f. circleID \<noteq> [] \<longrightarrow> TF_CircleID f = circleID) (A_fees a) in
        run_query env (PQ_FeeSummary circleID) (foldr (\<lambda>f. numeric_add (TF_Amount f)) rows (Finite 0), length rows))"

section \<open>The audit log\<close>

definition event_key :: "event_row \<Rightarrow> string \<times> string \<times> string" where
  "event_key r = (EV_TxHash r, EV_ContractID r, EV_Type r)"

definition eventRecorded :: "event_processor \<Rightarrow> penv \<Rightarrow> ContractEvent \<Rightarrow> app world \<Rightarrow> bool" where
  "eventRecorded p env ev w =
     (EP_db p \<and> (case run_query env (PQ_EventRecorded (CE_TxHash ev) (CE_ContractID ev) (CE_EventType ev))
          (\<exists>r \<in> set (W_events w). event_key r = (CE_TxHash ev, CE_ContractID ev, CE_EventType ev)) of
        Inl e \<Rightarrow> False | Inr exists \<Rightarrow> exists))"

abbreviation ContractVersionUnknown :: string where "ContractVersionUnknown \<equiv> ''unknown''"

definition contractVersion :: "event_processor \<Rightarrow> penv \<Rightarrow> string \<Rightarrow> string" where
  "contractVersion p env contractID =
     (if \<not> EP_versions p then ContractVersionUnknown
      else case ResolveContractVersion env contractID of
        Inl e \<Rightarrow> ContractVersionUnknown
      | Inr version \<Rightarrow> if version = [] then ContractVersionUnknown else version)"

definition persistContractEvent :: "event_processor \<Rightarrow> penv \<Rightarrow> ContractEvent \<Rightarrow> app world \<Rightarrow> unit result \<times> app world" where
  "persistContractEvent p env ev w =
     attempt (wrap_err ''marshaling event payload'' (json_payload env (CE_Payload ev))) w (\<lambda>payloadJSON.
     exec_stmt env (PQ_InsertEvent (CE_TxHash ev) (CE_ContractID ev) (CE_EventType ev)) no_check
       (\<lambda>w. let row = \<lparr>EV_TxHash = CE_TxHash ev, EV_Ledger = CE_Ledger ev, EV_ContractID = CE_ContractID ev, EV_Type = CE_EventType ev,
                EV_Version = contractVersion p env (CE_ContractID ev), EV_Payload = payloadJSON, EV_ProcessedAt = CE_LedgerCloseTime ev\<rparr> in
            if \<exists>r \<in> set (W_events w). event_key r = event_key row then w else w\<lparr>W_events := W_events w @ [row]\<rparr>) w)"

section \<open>Transactions\<close>

definition dispatchEvent :: "event_processor \<Rightarrow> penv \<Rightarrow> ContractEvent \<Rightarrow> app \<Rightarrow> unit result \<times> app" where
  "dispatchEvent p env ev a =
     (let t = CE_EventType ev in
      if t = ''CircleCreated'' then onCircleCreated p env ev a
      else if t = ''MemberJoined'' then onMemberJoined p env ev a
      else if t = ''ContributionReceived'' then onContributionReceived p env ev a
      else if t = ''PayoutExecuted'' then onPayoutExecuted p env ev a
      else if t = ''LateReported'' then onLateReported p env ev a
      else if t = ''MemberExited'' then onMemberExited p env ev a
      else if t = ''DefaultRecorded'' then onDefaultRecorded p env ev a
      else if t = ''CircleCompleted'' then onCircleCompleted p env ev a
      else if t = ''AuctionBid'' then onAuctionBid p env ev a
      else if t = ''VoteCast'' then onVoteCast p env ev a
      else if t = ''DisputeRaised'' then onDisputeRaised p env ev a
      else if t = ''FeeDeposited'' then onFeeDeposited p env ev a
      else (Inr (), a))"

text \<open>A panic becomes an error.\<close>

definition safeDispatchEvent :: "event_processor \<Rightarrow> penv \<Rightarrow> ContractEvent \<Rightarrow> app \<Rightarrow> unit result \<times> app" where
  "safeDispatchEvent p env ev a =
     (case dispatchEvent p env ev a of
        (Inl e, a') \<Rightarrow>
          (Inl (if e = nil_panic then Errorf (''panic dispatching '' @ CE_EventType ev @ '': '' @ error_text e) else e), a')
      | (Inr x, a') \<Rightarrow> (Inr x, a'))"

fun dispatch_loop :: "event_processor \<Rightarrow> (nat \<Rightarrow> penv) \<Rightarrow> nat \<Rightarrow> ContractEvent list \<Rightarrow> app \<Rightarrow> app" where
  "dispatch_loop p env n [] a = a"
| "dispatch_loop p env n (ev # evs) a =
     dispatch_loop p env (Suc n) evs
       (if isUnknownContract p (CE_ContractID ev) then a else snd (safeDispatchEvent p (env n) ev a))"

fun persist_loop :: "event_processor \<Rightarrow> (nat \<Rightarrow> penv) \<Rightarrow> nat \<Rightarrow> ContractEvent list \<Rightarrow> app world \<Rightarrow> app world" where
  "persist_loop p env n [] w = w"
| "persist_loop p env n (ev # evs) w = persist_loop p env (Suc n) evs (snd (persistContractEvent p (env n) ev w))"

definition processContractEvents :: "event_processor \<Rightarrow> (nat \<Rightarrow> penv) \<Rightarrow> ContractEvent list \<Rightarrow> time \<Rightarrow> app world \<Rightarrow> app world" where
  "processContractEvents p env events closeTime w =
     (let evs = map (\<lambda>ev. ev\<lparr>CE_LedgerCloseTime := closeTime\<rparr>) events;
          w1 = w\<lparr>W_app := dispatch_loop p env 0 evs (W_app w)\<rparr> in
      if \<not> EP_db p then w1 else persist_loop p env 0 evs w1)"

definition app_broadcast :: "event_processor \<Rightarrow> penv \<Rightarrow> string \<Rightarrow> string \<Rightarrow> payload \<Rightarrow> time \<Rightarrow> app world \<Rightarrow> app world" where
  "app_broadcast p env room eventType pl ts w = w\<lparr>W_app := Broadcast p env room eventType pl ts (W_app w)\<rparr>"

definition handleCreateAccount :: "event_processor \<Rightarrow> penv \<Rightarrow> transaction \<Rightarrow> operation \<Rightarrow> app world \<Rightarrow> unit result \<times> app world" where
  "handleCreateAccount p env txn oper w =
     (Inr (), app_broadcast p env (O_SourceAccount oper) ''account_created''
        [(''hash'', GString (T_Hash txn)), (''account'', GString (O_SourceAccount oper)),
         (''ledger'', GInt64 (word_of_int (T_Ledger txn)))] (txnTime env txn) w)"

definition handlePayment :: "event_processor \<Rightarrow> penv \<Rightarrow> transaction \<Rightarrow> operation \<Rightarrow> app world \<Rightarrow> unit result \<times> app world" where
  "handlePayment p env txn oper w =
     (Inr (), app_broadcast p env (O_SourceAccount oper) ''payment_detected''
        [(''hash'', GString (T_Hash txn)), (''source'', GString (O_SourceAccount oper)),
         (''ledger'', GInt64 (word_of_int (T_Ledger txn)))] (txnTime env txn) w)"

definition handleSorobanInvoke :: "event_processor \<Rightarrow> (nat \<Rightarrow> penv) \<Rightarrow> transaction \<Rightarrow> operation \<Rightarrow> app world \<Rightarrow> unit result \<times> app world" where
  "handleSorobanInvoke p env txn oper w =
     (case ParseContractEvents (p_xdr (env 0)) (T_Hash txn) (T_Ledger txn) (O_ResultMetaXDR oper) of
        Inl e \<Rightarrow> (Inr (), w)
      | Inr (events, skipped) \<Rightarrow> (Inr (), processContractEvents p env events (txnTime (env 0) txn) w))"

definition handleExtendTTL :: "transaction \<Rightarrow> operation \<Rightarrow> app world \<Rightarrow> unit result \<times> app world" where
  "handleExtendTTL txn oper w = (Inr (), w)"

definition processOperation :: "event_processor \<Rightarrow> (nat \<Rightarrow> penv) \<Rightarrow> transaction \<Rightarrow> operation \<Rightarrow> app world \<Rightarrow> unit result \<times> app world" where
  "processOperation p env txn oper w =
     (if O_Type oper = ''create_account'' then handleCreateAccount p (env 0) txn oper w
      else if O_Type oper = ''payment'' then handlePayment p (env 0) txn oper w
      else if O_Type oper = ''invoke_host_function'' then handleSorobanInvoke p env txn oper w
      else if O_Type oper = ''extend_footprint_ttl'' then handleExtendTTL txn oper w
      else (Inr (), w))"

fun operations_loop :: "event_processor \<Rightarrow> (nat \<Rightarrow> nat \<Rightarrow> penv) \<Rightarrow> transaction \<Rightarrow> nat \<Rightarrow> operation list \<Rightarrow> error list \<Rightarrow> app world
    \<Rightarrow> error list \<times> app world" where
  "operations_loop p env txn n [] errs w = (errs, w)"
| "operations_loop p env txn n (oper # opers) errs w =
     (case processOperation p (env n) txn oper w of
        (Inl e, w') \<Rightarrow> operations_loop p env txn (Suc n) opers (errs @ [e]) w'
      | (Inr _, w') \<Rightarrow> operations_loop p env txn (Suc n) opers errs w')"

definition ProcessTransaction :: "event_processor \<Rightarrow> (nat \<Rightarrow> nat \<Rightarrow> penv) \<Rightarrow> transaction \<Rightarrow> app world \<Rightarrow> unit result \<times> app world" where
  "ProcessTransaction p env txn w =
     (if T_Operations txn = [] then (Inr (), w)
      else case operations_loop p env txn 0 (T_Operations txn) [] w of
        ([], w') \<Rightarrow> (Inr (), w')
      | (e # es, w') \<Rightarrow>
          (Inl (Wrap (''processing '' @ show_nat (Suc (length es)) @ ''/'' @ show_nat (length (T_Operations txn)) @ '' operations'') e), w'))"

end
