(* ===== verification/ChainEvents.thy ===== *)
theory ChainEvents
  imports Processor
begin

text \<open>
  What contract events do to the application, proved of the definitions of \<^verbatim>\<open>Processor\<close>: the
  atomicity of the contribution transaction, replays, the interplay of the API and the chain,
  the life cycle of circles under chain events, and the effect of the events that the parser
  really produces.
\<close>

section \<open>The contribution transaction\<close>

lemma tx_block_Inl: "tx_block env b bw c cw body d = (Inl e, d') \<Longrightarrow> d' = d"
  by (auto simp: tx_block_def split: option.splits prod.splits sum.splits)

lemma tx_block_Inr [svc]: "tx_block env b bw c cw body d = (Inr x, d') \<longleftrightarrow>
    fault env b = None \<and> body d = (Inr x, d') \<and> fault env c = None"
  by (auto simp: tx_block_def split: option.splits prod.splits sum.splits)

text \<open>The circle row after a contribution.\<close>

definition contributed_row :: "time \<Rightarrow> bool \<Rightarrow> raw_contrib \<Rightarrow> circle \<Rightarrow> circle" where
  "contributed_row t full c x =
     x\<lparr>C_TotalContributions := numeric_add (C_TotalContributions x) (CB_Amount c),
       C_CurrentRound := (if full then max (C_CurrentRound x) (CB_RoundNumber c + 1) else C_CurrentRound x), C_UpdatedAt := t\<rparr>"

definition round_funded :: "circles_db \<Rightarrow> uuid \<Rightarrow> int \<Rightarrow> bool" where
  "round_funded d i r = (0 < active_count d i \<and> active_count d i \<le> int (count_contributors d i r))"

lemma applyContribution_Inr:
  assumes "applyContribution p env c d = (Inr adv, d')"
  shows "\<exists>d1. d1 = d\<lparr>B_contribs := B_contribs d @ [c]\<rparr>
    \<and> (\<forall>r \<in> set (B_contribs d). CB_ID r \<noteq> CB_ID c \<and> contrib_key r \<noteq> contrib_key c \<and> (CB_TxnHash c = None \<or> CB_TxnHash r \<noteq> CB_TxnHash c))
    \<and> RA_Advanced adv = round_funded d1 (CB_CircleID c) (CB_RoundNumber c) \<and> RA_NextRound adv = CB_RoundNumber c + 1
    \<and> d' = d1\<lparr>B_circles := update_where (\<lambda>x. C_ID x = CB_CircleID c \<and> C_DeletedAt x = None)
        (contributed_row (now env) (RA_Advanced adv) c) (B_circles d)\<rparr>"
proof -
  from assms obtain y d1 where "Contrib_Create (p_contrib env) c d = (Inr y, d1)" "advanceRoundInTx env c d1 = (Inr adv, d')"
    by (auto simp: applyContribution_def guard_Inr tx_block_Inr attempt_Inr perform_Inr)
  moreover from Contrib_Create_Inr [OF this(1)] have "B_circles d1 = B_circles d" by simp
  ultimately show ?thesis using Contrib_Create_Inr [of "p_contrib env" c d y d1]
    by (auto simp: advanceRoundInTx_def Let_def attempt_Inr perform_Inr wrap_call_Inr exec_stmt_Inr run_query_Inr
        round_funded_def contributed_row_def [abs_def])
qed

lemma applyContribution_Inl: "applyContribution p env c d = (Inl e, d') \<Longrightarrow> d' = d"
  by (auto simp: applyContribution_def guard_def split: if_splits dest: tx_block_Inl)

text \<open>A stored hash stops every later contribution that carries it.\<close>

lemma applyContribution_known_hash:
  assumes "r \<in> set (B_contribs d)" "CB_TxnHash r = Some h" "CB_TxnHash c = Some h"
  shows "\<exists>e. applyContribution p env c d = (Inl e, d)"
proof (cases "applyContribution p env c d")
  case (Pair x d')
  show ?thesis
  proof (cases x)
    case (Inl e)
    then show ?thesis using Pair applyContribution_Inl by blast
  next
    case (Inr adv)
    then show ?thesis using applyContribution_Inr [of p env c d adv d'] Pair assms by auto
  qed
qed

text \<open>
  C28: a contribution from the chain is all or nothing: \<^verbatim>\<open>applyContribution\<close> fails and changes nothing,
  or it stores the contribution, adds its amount to the total of its circle, and reports whether the circle has active
  members and at most as many as the round has contributors; if so, the round of the circle becomes the larger one of its
  value and the round after that of the contribution, otherwise it stays; every other column of the circle but the time of
  the update, every other circle and every other table is left alone. A contribution
  with a stored hash, or of the same member for the same round, is always refused.
\<close>

theorem applyContribution_atomic:
  assumes "applyContribution p env c d = (res, d')"
  shows "(\<exists>e. res = Inl e \<and> d' = d)
    \<or> (\<exists>adv. res = Inr adv \<and> B_contribs d' = B_contribs d @ [c]
        \<and> RA_Advanced adv = round_funded d' (CB_CircleID c) (CB_RoundNumber c) \<and> RA_NextRound adv = CB_RoundNumber c + 1
        \<and> d' = d\<lparr>B_contribs := B_contribs d', B_circles := B_circles d'\<rparr>
        \<and> (\<forall>r \<in> set (B_contribs d). contrib_key r \<noteq> contrib_key c \<and> (CB_TxnHash c = None \<or> CB_TxnHash r \<noteq> CB_TxnHash c))
        \<and> list_all2 (\<lambda>x y. if C_ID x = CB_CircleID c \<and> C_DeletedAt x = None
             then y = x\<lparr>C_TotalContributions := numeric_add (C_TotalContributions x) (CB_Amount c),
                 C_CurrentRound := (if RA_Advanced adv then max (C_CurrentRound x) (CB_RoundNumber c + 1) else C_CurrentRound x), C_UpdatedAt := now env\<rparr>
             else y = x) (B_circles d) (B_circles d'))"
proof (cases res)
  case (Inl e)
  then show ?thesis using assms applyContribution_Inl by blast
next
  case (Inr adv)
  from applyContribution_Inr [OF assms [unfolded Inr]] obtain d1
    where d: "d1 = d\<lparr>B_contribs := B_contribs d @ [c]\<rparr>" "RA_Advanced adv = round_funded d1 (CB_CircleID c) (CB_RoundNumber c)"
      "d' = d1\<lparr>B_circles := update_where (\<lambda>x. C_ID x = CB_CircleID c \<and> C_DeletedAt x = None)
        (contributed_row (now env) (RA_Advanced adv) c) (B_circles d)\<rparr>" "RA_NextRound adv = CB_RoundNumber c + 1"
      "\<forall>r \<in> set (B_contribs d). CB_ID r \<noteq> CB_ID c \<and> contrib_key r \<noteq> contrib_key c \<and> (CB_TxnHash c = None \<or> CB_TxnHash r \<noteq> CB_TxnHash c)"
    by blast
  have "round_funded d' i r = round_funded d1 i r" for i r
    using d(1,3) by (simp add: round_funded_def active_count_def count_contributors_def)
  moreover have "list_all2 (\<lambda>x y. if C_ID x = CB_CircleID c \<and> C_DeletedAt x = None
             then y = x\<lparr>C_TotalContributions := numeric_add (C_TotalContributions x) (CB_Amount c),
                 C_CurrentRound := (if RA_Advanced adv then max (C_CurrentRound x) (CB_RoundNumber c + 1) else C_CurrentRound x), C_UpdatedAt := now env\<rparr>
             else y = x) (B_circles d) (B_circles d')"
    unfolding d(3) by (auto simp: update_where_def list_all2_map2 contributed_row_def intro!: list_all2_refl)
  ultimately show ?thesis using Inr d by (intro disjI2 exI [of _ adv]) auto
qed

section \<open>When a round is funded\<close>

definition payers :: "circles_db \<Rightarrow> uuid \<Rightarrow> int \<Rightarrow> uuid set" where
  "payers d i r = {CB_UserID x | x. x \<in> set (B_contribs d) \<and> CB_CircleID x = i \<and> CB_RoundNumber x = r}"

definition active_users :: "circles_db \<Rightarrow> uuid \<Rightarrow> uuid set" where
  "active_users d i = {CM_UserID m | m. m \<in> set (B_members d) \<and> CM_CircleID m = i \<and> CM_Status m = MemberStatusActive}"

lemma count_contributors_card: "count_contributors d i r = card (payers d i r)"
proof -
  have "set (map CB_UserID (filter (\<lambda>c. CB_CircleID c = i \<and> CB_RoundNumber c = r) (B_contribs d))) = payers d i r"
    by (auto simp: payers_def)
  then show ?thesis unfolding count_contributors_def by (metis length_remdups_card_conv)
qed

lemma active_count_card: "distinct (map member_key (B_members d)) \<Longrightarrow> active_count d i = int (card (active_users d i))"
proof -
  assume keys: "distinct (map member_key (B_members d))"
  let ?ms = "filter (\<lambda>m. CM_CircleID m = i \<and> CM_Status m = MemberStatusActive) (B_members d)"
  have "distinct (map member_key ?ms)" using keys by (rule distinct_map_filter)
  then have "inj_on member_key (set ?ms)" "distinct ?ms" by (simp_all add: distinct_map)
  then have "distinct (map CM_UserID ?ms)" unfolding distinct_map inj_on_def member_key_def by simp
  moreover have "set (map CM_UserID ?ms) = active_users d i" by (auto simp: active_users_def)
  ultimately show ?thesis unfolding active_count_def using distinct_card [of "map CM_UserID ?ms"] by simp
qed

lemma finite_payers: "finite (payers d i r)" "finite (active_users d i)"
proof -
  have "payers d i r \<subseteq> CB_UserID ` set (B_contribs d)" "active_users d i \<subseteq> CM_UserID ` set (B_members d)"
    by (auto simp: payers_def active_users_def)
  then show "finite (payers d i r)" "finite (active_users d i)" by (auto intro: finite_subset)
qed

text \<open>
  C29: the round moves on exactly when everyone has paid, provided that nobody has two memberships of one circle, which the unique key of the
  table excludes, and that all payers of the round are active members when the contribution arrives:
  then \<^verbatim>\<open>applyContribution\<close> reports a completed round if and only if every active member of the
  circle has a contribution for it, this one included.
\<close>

theorem round_advances_when_all_paid:
  assumes "applyContribution p env c d = (Inr adv, d')" "distinct (map member_key (B_members d))"
    and "payers d' (CB_CircleID c) (CB_RoundNumber c) \<subseteq> active_users d (CB_CircleID c)"
  shows "RA_Advanced adv \<longleftrightarrow> active_users d (CB_CircleID c) \<subseteq> payers d' (CB_CircleID c) (CB_RoundNumber c)"
proof -
  let ?i = "CB_CircleID c" and ?r = "CB_RoundNumber c"
  from applyContribution_Inr [OF assms(1)] obtain d1 where d1: "d1 = d\<lparr>B_contribs := B_contribs d @ [c]\<rparr>"
      "RA_Advanced adv = round_funded d1 ?i ?r" "B_contribs d' = B_contribs d1" by auto
  have same: "payers d' ?i ?r = payers d1 ?i ?r" using d1(3) by (simp add: payers_def)
  have "CB_UserID c \<in> payers d1 ?i ?r" using d1(1) by (auto simp: payers_def)
  then have "0 < card (active_users d ?i)" using assms(3) same finite_payers(2) by (metis card_gt_0_iff empty_iff subsetD)
  moreover have "active_count d1 ?i = int (card (active_users d ?i))"
    using active_count_card [OF assms(2)] d1(1) by (simp add: active_count_def)
  ultimately have "RA_Advanced adv \<longleftrightarrow> card (active_users d ?i) \<le> card (payers d' ?i ?r)"
    using d1(2) same by (simp add: round_funded_def count_contributors_card)
  also have "\<dots> \<longleftrightarrow> active_users d ?i \<subseteq> payers d' ?i ?r"
    using assms(3) finite_payers by (metis card_mono card_seteq)
  finally show ?thesis .
qed

section \<open>Replays\<close>

lemma Broadcast_app [simp]:
  "A_circles (Broadcast p env i t pl ts a) = A_circles a" "A_users (Broadcast p env i t pl ts a) = A_users a"
  "A_reps (Broadcast p env i t pl ts a) = A_reps a" "A_fees (Broadcast p env i t pl ts a) = A_fees a"
  by (simp_all add: Broadcast_def Let_def)

lemma found_frame: "P a \<Longrightarrow> (\<And>x. r = Inr x \<Longrightarrow> P (snd (k x))) \<Longrightarrow> P (snd (found what r a k))"
  by (cases r) (auto simp: found_def)

lemma find_circle_by_contract_frame:
  "P a \<Longrightarrow> (\<And>c. FindByContractID (p_circle env) i (A_circles a) = Inr c \<Longrightarrow> P (snd (k c)))
     \<Longrightarrow> P (snd (find_circle_by_contract p env what i a k))"
  unfolding find_circle_by_contract_def by (intro guard_frame [where P = P] found_frame [where P = P])

lemma find_user_by_wallet_frame:
  "P a \<Longrightarrow> (\<And>u. FindByWalletAddress (p_user env) wa (A_users a) = Inr u \<Longrightarrow> P (snd (k u)))
     \<Longrightarrow> P (snd (find_user_by_wallet p env what wa a k))"
  unfolding find_user_by_wallet_def by (intro guard_frame [where P = P] found_frame [where P = P])

lemma on_circles_same [simp]: "snd (f (A_circles a)) = A_circles a \<Longrightarrow> snd (on_circles f a) = a"
  by (auto simp: on_circles_def split: prod.splits)

text \<open>The last step of a handler that records something and announces it.\<close>

lemma announce_frame:
  "P (snd x) \<Longrightarrow> (\<And>y a'. x = (Inr y, a') \<Longrightarrow> P (b y a')) \<Longrightarrow>
     P (snd (case x of (Inl e, a') \<Rightarrow> (f e, a') | (Inr y, a') \<Rightarrow> (g y, b y a')))"
  by (cases x; cases "fst x") auto

lemma snd_on_circles: "A_circles (snd (on_circles f a)) = snd (f (A_circles a))"
  by (simp add: on_circles_def split: prod.split)

lemma on_circles_Inl: "f (A_circles a) = (Inl e, A_circles a) \<Longrightarrow> on_circles f a = (Inl e, a)"
  by (simp add: on_circles_def)

lemma on_circles_Inr: "on_circles f a = (Inr y, a') \<Longrightarrow> \<exists>d. f (A_circles a) = (Inr y, d) \<and> a' = a\<lparr>A_circles := d\<rparr>"
  by (auto simp: on_circles_def split: prod.splits)

lemmas handler_frame = find_circle_by_contract_frame find_user_by_wallet_frame announce_frame

lemma known_hash_event:
  assumes "r \<in> set (B_contribs (A_circles a))" "CB_TxnHash r = Some (CE_TxHash ev)"
  shows "snd (onContributionReceived p env ev a) = a"
proof -
  have "\<exists>e. applyContribution p env (chain_contribution env ev c u) (A_circles a) = (Inl e, A_circles a)" for c u
    using assms by (intro applyContribution_known_hash) (auto simp: chain_contribution_def)
  then have "\<exists>e. on_circles (applyContribution p env (chain_contribution env ev c u)) a = (Inl e, a)" for c u
    using on_circles_Inl by metis
  then show ?thesis unfolding onContributionReceived_def Let_def
    by (intro handler_frame [where P = "\<lambda>b. b = a"] refl) (metis snd_conv, metis Inl_Inr_False prod.inject)
qed

text \<open>What a contribution event that changed the circles has stored.\<close>

lemma contribution_event_stored:
  assumes "A_circles (snd (onContributionReceived p env ev a)) \<noteq> A_circles a"
  shows "\<exists>r \<in> set (B_contribs (A_circles (snd (onContributionReceived p env ev a)))). CB_TxnHash r = Some (CE_TxHash ev)"
proof -
  let ?P = "\<lambda>b. A_circles b = A_circles a \<or> (\<exists>r \<in> set (B_contribs (A_circles b)). CB_TxnHash r = Some (CE_TxHash ev))"
  have ok: "?P (snd (on_circles (applyContribution p env (chain_contribution env ev c u)) a))" for c u
  proof -
    let ?c = "chain_contribution env ev c u"
    have h: "CB_TxnHash ?c = Some (CE_TxHash ev)" by (simp add: chain_contribution_def)
    have "snd (applyContribution p env ?c (A_circles a)) = A_circles a
        \<or> ?c \<in> set (B_contribs (snd (applyContribution p env ?c (A_circles a))))"
      using applyContribution_Inl [of p env ?c "A_circles a"] applyContribution_Inr [of p env ?c "A_circles a"]
      by (cases "applyContribution p env ?c (A_circles a)"; cases "fst (applyContribution p env ?c (A_circles a))") auto
    then show ?thesis using h unfolding snd_on_circles by blast
  qed
  have "?P (snd (onContributionReceived p env ev a))" unfolding onContributionReceived_def Let_def
  proof (intro handler_frame [where P = ?P])
    fix c u y a'
    assume "on_circles (applyContribution p env (chain_contribution env ev c u)) a = (Inr y, a')"
    with ok [of c u] show "?P (Broadcast p env i t pl ts a')" for i t pl ts by simp
  qed (use ok in auto)
  then show ?thesis using assms by blast
qed

text \<open>
  A transaction pays once: when an event has recorded a contribution, every further contribution event of
  the same transaction changes nothing at all, in any environment. So a replay is harmless;
  but a transaction with two contributions loses the second.
\<close>

theorem contribution_event_once:
  assumes "A_circles (snd (onContributionReceived p env ev a)) \<noteq> A_circles a" "CE_TxHash ev' = CE_TxHash ev"
  shows "snd (onContributionReceived p env' ev' (snd (onContributionReceived p env ev a))) = snd (onContributionReceived p env ev a)"
proof -
  obtain r where "r \<in> set (B_contribs (A_circles (snd (onContributionReceived p env ev a))))" "CB_TxnHash r = Some (CE_TxHash ev)"
    using contribution_event_stored [OF assms(1)] by blast
  then show ?thesis using known_hash_event assms(2) by simp
qed

text \<open>
  A contribution that was recorded through the API is never counted: \<^verbatim>\<open>Record\<close> leaves the circle row alone, and the
  chain event of the same transaction, finding the hash, changes nothing, so neither the total
  nor the round of the circle ever reflects the payment.
\<close>

theorem api_contribution_never_counted:
  assumes "Contrib_Record env s input d = (Inr c, d')" "RI_TxnHash input \<noteq> []"
    and "A_circles a = d'" "CE_TxHash ev = RI_TxnHash input"
  shows "B_circles d' = B_circles d \<and> snd (onContributionReceived p env' ev a) = a"
proof -
  have "B_circles d' = B_circles d \<and> (\<exists>r \<in> set (B_contribs d'). CB_TxnHash r = Some (RI_TxnHash input))"
    using assms(1)
  proof (cases rule: Record_Inr)
    case (fresh cid uid verified vstatus ontime)
    then show ?thesis using assms(2) by (simp add: new_contribution_def)
  qed auto
  then show ?thesis using known_hash_event [of _ a ev] assms(3,4) by auto
qed

section \<open>Missing circles and users\<close>

lemma FindByContractID_not_recognised: "FindByContractID env i d = Inl e \<Longrightarrow> \<not> isNotFound e"
  by (auto simp: FindByContractID_def scanCircle_def isNotFound_def split: sum.splits option.splits if_splits)

lemma FindByWalletAddress_not_recognised: "FindByWalletAddress env i d = Inl e \<Longrightarrow> \<not> isNotFound e"
  by (auto simp: FindByWalletAddress_def scanUser_def isNotFound_def split: sum.splits option.splits if_splits)

lemma GetByUser_not_recognised: "GetByUser env i d = Inl e \<Longrightarrow> \<not> isNotFound e"
  by (auto simp: GetByUser_def scanSnapshot_def isNotFound_def split: sum.splits option.splits if_splits)

text \<open>
  C30: missing circles are errors: the handlers have a branch that skips an event whose circle is not in the database, but no error that
  the circle repository returns is recognised as such. So each of the ten handlers that look up a circle - by the identifier in
  the event, where three of them fall back on the contract that emitted it - fails when the look-up fails, for whatever reason, and
  changes nothing. For bids and votes this holds when the processor has both repositories; without them they only broadcast.
\<close>

theorem missing_entities_are_errors:
  assumes "EP_circleRepo p" "FindByContractID (p_circle env) i (A_circles a) = Inl e"
    and "h \<in> {onMemberJoined, onContributionReceived, onPayoutExecuted, onLateReported, onMemberExited, onCircleCompleted, onDisputeRaised}
           \<and> i = pstr ev ''circle_id''
       \<or> (h = onCircleCreated \<or> EP_userRepo p \<and> h \<in> {onAuctionBid, onVoteCast})
           \<and> i = (if pstr ev ''circle_id'' = [] then CE_ContractID ev else pstr ev ''circle_id'')"
  shows "\<exists>what. h p env ev a = (Inl (Wrap what e), a) \<and> \<not> isNotFound e"
proof -
  note nf = FindByContractID_not_recognised [OF assms(2)]
  have f: "find_circle_by_contract p env wh i a k = (Inl (Wrap wh e), a)" for wh k
    using assms(1,2) nf by (simp add: find_circle_by_contract_def found_def)
  from assms(3) show ?thesis
  proof
    assume "h \<in> {onMemberJoined, onContributionReceived, onPayoutExecuted, onLateReported, onMemberExited, onCircleCompleted, onDisputeRaised}
           \<and> i = pstr ev ''circle_id''"
    then show ?thesis using f nf
      by (auto simp: onMemberJoined_def onContributionReceived_def onPayoutExecuted_def onLateReported_def onMemberExited_def
          onCircleCompleted_def onDisputeRaised_def Let_def)
  next
    assume "(h = onCircleCreated \<or> EP_userRepo p \<and> h \<in> {onAuctionBid, onVoteCast})
           \<and> i = (if pstr ev ''circle_id'' = [] then CE_ContractID ev else pstr ev ''circle_id'')"
    then show ?thesis using assms(1,2) f nf
      by (auto simp: onCircleCreated_def onAuctionBid_def onVoteCast_def Let_def)
  qed
qed

lemma SaveSnapshot_without_breakdown: "RP_Breakdown s = None \<Longrightarrow> \<exists>e. SaveSnapshot env s d = (Inl e, d)"
  by (auto simp: SaveSnapshot_def Let_def exec_stmt_def split: option.splits if_splits)

text \<open>
  A default never costs reputation: the handler of \<^verbatim>\<open>DefaultRecorded\<close> always fails and changes neither the
  snapshots nor the score of the member, since the snapshot it saves has no breakdown and a
  member without a snapshot is an error.
\<close>

theorem defaults_never_penalised:
  "\<exists>e. onDefaultRecorded p env ev a = (Inl e, a)"
proof -
  have "\<exists>e. on_reps (SaveSnapshot (p_rep env) \<lparr>RP_UserID = i, RP_Score = n, RP_Level = l, RP_Breakdown = None,
      RP_Month = m, RP_CreatedAt = t\<rparr>) a = (Inl e, a)" for i n l m t
    using SaveSnapshot_without_breakdown [of "\<lparr>RP_UserID = i, RP_Score = n, RP_Level = l, RP_Breakdown = None,
      RP_Month = m, RP_CreatedAt = t\<rparr>" "p_rep env" "A_reps a"] by (auto simp: on_reps_def)
  then have fails: "\<exists>e. wrap_call x (on_reps (SaveSnapshot (p_rep env) \<lparr>RP_UserID = i, RP_Score = n, RP_Level = l, RP_Breakdown = None,
      RP_Month = m, RP_CreatedAt = t\<rparr>) a) = (Inl e, a)" for x i n l m t by (metis wrap_call_simps(1))
  have "\<exists>e. perform (wrap_call x (on_reps (SaveSnapshot (p_rep env) \<lparr>RP_UserID = i, RP_Score = n, RP_Level = l, RP_Breakdown = None,
      RP_Month = m, RP_CreatedAt = t\<rparr>) a)) k = (Inl e, a)" for x i n l m t and k :: "unit \<Rightarrow> app \<Rightarrow> unit result \<times> app"
    using fails [of x i n l m t] by (metis perform_simps(1))
  then show ?thesis
    by (auto simp: onDefaultRecorded_def find_user_by_wallet_def found_def guard_def attempt_def Let_def
        split: sum.split dest: FindByWalletAddress_not_recognised)
qed

section \<open>What decoded events do\<close>

text \<open>No circle has the empty contract identifier and no user the empty wallet.\<close>

definition nameless :: "app \<Rightarrow> bool" where
  "nameless a = ((\<forall>c \<in> set (B_circles (A_circles a)). C_ContractID c \<noteq> Some [])
     \<and> (\<forall>u \<in> set (D_users (A_users a)). U_WalletAddress u \<noteq> []))"

definition same_data :: "app \<Rightarrow> app \<Rightarrow> bool" where
  "same_data a b = (A_circles b = A_circles a \<and> A_users b = A_users a \<and> A_reps b = A_reps a)"

definition fieldless :: "ContractEvent \<Rightarrow> bool" where
  "fieldless ev = (\<forall>k. named_field k \<longrightarrow> map_of (CE_Payload ev) k = None)"

lemma fieldless_pstr: "fieldless ev \<Longrightarrow> named_field k \<Longrightarrow> pstr ev k = []"
  by (simp add: fieldless_def payloadStr_def)

lemma named_fields [simp]: "named_field ''circle_id''" "named_field ''member''" "named_field ''recipient''" "named_field ''bidder''" "named_field ''voter''"
  by (simp_all add: named_field_def)

lemma no_empty_contract: "nameless a \<Longrightarrow> FindByContractID env [] (A_circles a) = Inr c \<Longrightarrow> P"
  by (auto simp: nameless_def FindByContractID_def scanCircle_def run_query_def split: sum.splits option.splits if_splits
      dest: find_Some_D)

lemma no_empty_wallet: "nameless a \<Longrightarrow> FindByWalletAddress env [] (A_users a) = Inr u \<Longrightarrow> P"
  by (auto simp: nameless_def FindByWalletAddress_def scanUser_def live_user_def run_query_def split: sum.splits option.splits if_splits
      dest: find_Some_D)

lemma same_data_refl [simp]: "same_data a a"
  by (simp add: same_data_def)

lemma same_data_Broadcast [simp]: "same_data a (Broadcast p env i t pl ts b) = same_data a b"
  by (simp add: same_data_def)

lemma dispatch_fieldless:
  assumes "fieldless ev" "nameless a"
  shows "same_data a (snd (dispatchEvent p env ev a))"
proof -
  have nc: "same_data a (snd (find_circle_by_contract p env what (pstr ev ''circle_id'') a k))" for what k
    by (rule find_circle_by_contract_frame [where P = "same_data a"])
       (use fieldless_pstr [OF assms(1), of "''circle_id''"] no_empty_contract [OF assms(2)] in auto)
  have nu: "same_data a (snd (find_user_by_wallet p env what (pstr ev k) a f))" if "named_field k" for what k f
    by (rule find_user_by_wallet_frame [where P = "same_data a"])
       (use fieldless_pstr [OF assms(1) that] no_empty_wallet [OF assms(2)] in auto)
  have nb: "same_data a (snd (find_circle_by_contract p env what i a (\<lambda>c. find_user_by_wallet p env what' (pstr ev k) a (f c))))"
    if "named_field k" for what what' i k f
    by (rule find_circle_by_contract_frame [where P = "same_data a"]) (use nu [OF that] in auto)
  show ?thesis unfolding dispatchEvent_def Let_def
    by (auto simp: onMemberJoined_def onContributionReceived_def onPayoutExecuted_def onLateReported_def onMemberExited_def
        onDefaultRecorded_def onCircleCompleted_def onDisputeRaised_def Let_def onCircleCreated_def onAuctionBid_def onVoteCast_def
        onFeeDeposited_def same_data_def [of a "a\<lparr>A_fees := _\<rparr>"] nc nu nb guard_def split: sum.split)
qed

lemma same_data_nameless: "same_data a b \<Longrightarrow> nameless a \<Longrightarrow> nameless b"
  by (simp add: same_data_def nameless_def)

lemma same_data_trans: "same_data a b \<Longrightarrow> same_data b c \<Longrightarrow> same_data a c"
  by (simp add: same_data_def)

lemma snd_safeDispatch: "snd (safeDispatchEvent p env ev a) = snd (dispatchEvent p env ev a)"
  by (auto simp: safeDispatchEvent_def split: prod.split sum.split)

lemma dispatch_loop_fieldless:
  "\<forall>ev \<in> set evs. fieldless ev \<Longrightarrow> nameless a \<Longrightarrow> same_data a (dispatch_loop p env n evs a)"
proof (induction evs arbitrary: n a)
  case (Cons ev evs)
  let ?b = "if isUnknownContract p (CE_ContractID ev) then a else snd (safeDispatchEvent p (env n) ev a)"
  have "same_data a ?b" using dispatch_fieldless [of ev a p "env n"] Cons.prems by (simp add: snd_safeDispatch)
  moreover from this have "same_data ?b (dispatch_loop p env (Suc n) evs ?b)"
    using Cons.IH Cons.prems same_data_nameless by simp
  ultimately have "same_data a (dispatch_loop p env (Suc n) evs ?b)" by (rule same_data_trans)
  then show ?case by (simp only: dispatch_loop.simps)
qed simp

lemma persist_world: "W_app (snd (persistContractEvent p env ev w)) = W_app w" "W_dead (snd (persistContractEvent p env ev w)) = W_dead w"
  "W_cursor (snd (persistContractEvent p env ev w)) = W_cursor w"
  by (auto simp: persistContractEvent_def attempt_def exec_stmt_def Let_def split: sum.split option.split)

lemma persist_loop_world: "W_app (persist_loop p env n evs w) = W_app w" "W_dead (persist_loop p env n evs w) = W_dead w"
  "W_cursor (persist_loop p env n evs w) = W_cursor w"
  by (induction p env n evs w rule: persist_loop.induct) (simp_all add: persist_world)

lemma processContractEvents_world:
  "W_app (processContractEvents p env evs t w) = dispatch_loop p env 0 (map (\<lambda>ev. ev\<lparr>CE_LedgerCloseTime := t\<rparr>) evs) (W_app w)"
  "W_dead (processContractEvents p env evs t w) = W_dead w" "W_cursor (processContractEvents p env evs t w) = W_cursor w"
  by (simp_all add: processContractEvents_def Let_def persist_loop_world)

lemma decoded_fieldless:
  assumes "ParseContractEvents env h l x = Inr (evs, n)"
  shows "\<forall>ev \<in> set (map (\<lambda>ev. ev\<lparr>CE_LedgerCloseTime := t\<rparr>) evs). fieldless ev"
  using decoded_named [OF assms] by (auto simp: fieldless_def)

lemma operation_world:
  assumes "nameless (W_app w)"
  shows "fst (processOperation p env txn oper w) = Inr ()" "same_data (W_app w) (W_app (snd (processOperation p env txn oper w)))"
    "W_dead (snd (processOperation p env txn oper w)) = W_dead w"
  using dispatch_loop_fieldless [OF decoded_fieldless assms]
  by (auto simp: processOperation_def handleCreateAccount_def handlePayment_def handleSorobanInvoke_def handleExtendTTL_def
      app_broadcast_def processContractEvents_world split: sum.split prod.split)

lemma operations_loop_world:
  "nameless (W_app w) \<Longrightarrow> operations_loop p env txn n opers errs w = (errs', w') \<Longrightarrow>
     errs' = errs \<and> same_data (W_app w) (W_app w') \<and> W_dead w' = W_dead w"
proof (induction opers arbitrary: n errs w)
  case (Cons oper opers)
  let ?r = "processOperation p (env n) txn oper w"
  note o = operation_world [OF Cons.prems(1), of p "env n" txn oper]
  obtain v where v: "?r = (Inr (), v)" using o(1) by (cases ?r) auto
  then have "operations_loop p env txn (Suc n) opers errs v = (errs', w')" using Cons.prems(2) by simp
  moreover have "nameless (W_app v)" using o(2) v same_data_nameless Cons.prems(1) by simp
  ultimately show ?case using Cons.IH [of v "Suc n" errs] o(2,3) v same_data_trans by auto
qed simp

lemma ProcessTransaction_world:
  assumes "nameless (W_app w)"
  shows "fst (ProcessTransaction p env txn w) = Inr () \<and> same_data (W_app w) (W_app (snd (ProcessTransaction p env txn w)))
    \<and> W_dead (snd (ProcessTransaction p env txn w)) = W_dead w"
proof -
  obtain errs v where v: "operations_loop p env txn 0 (T_Operations txn) [] w = (errs, v)" by fastforce
  with operations_loop_world [OF assms v] have "ProcessTransaction p env txn w = (Inr (), v) \<or> ProcessTransaction p env txn w = (Inr (), w)"
    by (simp add: ProcessTransaction_def)
  with operations_loop_world [OF assms v] show ?thesis by auto
qed

section \<open>The engine with this processor\<close>

definition chain_process :: "event_processor \<Rightarrow> (ienv \<Rightarrow> transaction \<Rightarrow> nat \<Rightarrow> nat \<Rightarrow> penv) \<Rightarrow> app process" where
  "chain_process p envs ienv txn w = ProcessTransaction p (envs ienv txn) txn w"

text \<open>A property of the world that the processor and the indexer's own statements keep.\<close>

definition undisturbed :: "app world \<Rightarrow> app world \<Rightarrow> bool" where
  "undisturbed w v = (same_data (W_app w) (W_app v) \<and> W_dead v = W_dead w)"

lemma undisturbed_trans: "undisturbed u v \<Longrightarrow> undisturbed v w \<Longrightarrow> undisturbed u w"
  by (auto simp: undisturbed_def intro: same_data_trans)

lemma handle_txn_undisturbed:
  assumes "nameless (W_app (E_world e))"
  shows "undisturbed (E_world e) (E_world (handle_txn (chain_process p envs) env txn e))"
proof -
  obtain v where v: "chain_process p envs env txn (E_world e) = (Inr (), v)" "undisturbed (E_world e) v"
    using ProcessTransaction_world [OF assms, of p "envs env txn" txn]
    by (cases "chain_process p envs env txn (E_world e)") (auto simp: undisturbed_def chain_process_def)
  moreover have "undisturbed (E_world e) (E_world e)" by (simp add: undisturbed_def)
  ultimately show ?thesis by (simp add: handle_txn_def Let_def)
qed

lemma fold_undisturbed:
  assumes "\<And>x e. x \<in> set xs \<Longrightarrow> nameless (W_app (E_world e)) \<Longrightarrow> undisturbed (E_world e) (E_world (f x e))" "nameless (W_app (E_world e))"
  shows "undisturbed (E_world e) (E_world (fold f xs e))"
  using assms
proof (induction xs arbitrary: e)
  case (Cons x xs)
  have 1: "undisturbed (E_world e) (E_world (f x e))" using Cons.prems by simp
  then have "nameless (W_app (E_world (f x e)))" using Cons.prems(2) by (auto simp: undisturbed_def intro: same_data_nameless)
  then show ?case using Cons.IH [of "f x e"] Cons.prems(1) 1 undisturbed_trans by simp
qed (simp add: undisturbed_def)

lemma handle_ledger_undisturbed:
  assumes "nameless (W_app (E_world e))"
  shows "undisturbed (E_world e) (E_world (handle_ledger (chain_process p envs) env cfg l e))"
proof (cases "FetchTransactions env (L_Sequence l)")
  case (Inr txns)
  let ?e = "e\<lparr>E_history := Record (L_Sequence l) (L_Hash l) (E_history e)\<rparr>"
  have "undisturbed (E_world ?e) (E_world (fold (\<lambda>txn. handle_txn (chain_process p envs) env (txn\<lparr>T_LedgerCloseTime := L_ClosedAt l\<rparr>))
      (FilterByContract (EC_poller cfg) txns) ?e))"
    by (rule fold_undisturbed) (use assms handle_txn_undisturbed in auto)
  then show ?thesis using Inr by (simp add: handle_ledger_def)
qed (simp add: handle_ledger_def undisturbed_def)

lemma checkReorg_undisturbed: "undisturbed (E_world e) (E_world (snd (checkReorg env cfg c e)))"
  by (auto simp: checkReorg_def undisturbed_def DeleteEventsFrom_def Rewind_def Cursor_Rewind_def wrap_call_def exec_stmt_def
      split: sum.split option.split prod.split)

lemma Cursor_Update_undisturbed: "undisturbed w (snd (Cursor_Update env l w))"
  by (auto simp: Cursor_Update_def undisturbed_def guard_def Let_def perform_def wrap_call_def exec_stmt_def
      split: option.split sum.split prod.split)

lemma poll_undisturbed:
  assumes "nameless (W_app (E_world e))"
  shows "undisturbed (E_world e) (E_world (snd (poll (chain_process p envs) env cfg e)))"
  unfolding poll_def
proof (intro attempt_frame [where P = "\<lambda>x. undisturbed (E_world e) (E_world x)"]
    perform_frame [where P = "\<lambda>x. undisturbed (E_world e) (E_world x)"] checkReorg_undisturbed)
  fix c0 c ledgers and e1 :: "app engine"
  assume e1: "undisturbed (E_world e) (E_world e1)"
  let ?e2 = "fold (handle_ledger (chain_process p envs) env cfg) ledgers e1"
  have "nameless (W_app (E_world e1))" using e1 assms by (auto simp: undisturbed_def intro: same_data_nameless)
  then have "undisturbed (E_world e1) (E_world ?e2)" by (intro fold_undisturbed handle_ledger_undisturbed)
  then have "undisturbed (E_world e) (snd (Cursor_Update env n (E_world ?e2)))" for n
    using Cursor_Update_undisturbed e1 undisturbed_trans by blast
  then show "undisturbed (E_world e) (E_world (snd (if ledgers = [] then (Inr (), e1)
     else let e2 = ?e2 in
       (case Cursor_Update env (L_Sequence (last ledgers)) (E_world e2) of
          (Inl err, w) \<Rightarrow> (Inl (Wrap ''updating cursor'' err), e2\<lparr>E_world := w\<rparr>)
        | (Inr _, w) \<Rightarrow> (Inr (), e2\<lparr>E_world := w\<rparr>)))))"
    using e1 by (auto simp: Let_def split: prod.split sum.split) (metis snd_conv)+
qed (simp add: undisturbed_def)

text \<open>
  The indexer changes nothing: with the parser and the processor of the repository, no number of poll cycles,
  whatever transactions the chain holds and whatever fails, ever changes a circle, a
  membership, a contribution, a payout, a vote, a user or a reputation snapshot, or records a
  dead letter, as long as no circle has the empty contract identifier and no user the empty
  wallet. The parser puts the fields of an event under \<^verbatim>\<open>data\<close>, and the handlers look for them at
  the top.
\<close>

theorem indexer_changes_nothing:
  assumes "nameless (W_app (E_world e))"
  shows "undisturbed (E_world e) (E_world (fold (\<lambda>(envs, env, cfg) e. snd (poll (chain_process p envs) env cfg e)) cycles e))"
  using assms
  by (rule fold_undisturbed [rotated]) (auto intro: poll_undisturbed)

text \<open>
  No transaction is ever dead-lettered: \<^verbatim>\<open>ProcessTransaction\<close> never returns an error, whatever its handlers
  ran into, so the engine has no reason to keep a transaction whose events were not applied.
\<close>

theorem ProcessTransaction_never_fails:
  "fst (ProcessTransaction p env txn w) = Inr ()"
proof -
  have op: "\<exists>v. processOperation p env' txn oper w' = (Inr (), v)" for env' oper w'
    by (auto simp: processOperation_def handleCreateAccount_def handlePayment_def handleSorobanInvoke_def handleExtendTTL_def
        split: sum.split prod.split)
  have "fst (operations_loop p env txn n opers [] w) = []" for n opers
  proof (induction opers arbitrary: n w)
    case (Cons oper opers)
    obtain v where "processOperation p (env n) txn oper w = (Inr (), v)" using op by blast
    then show ?case using Cons.IH by simp
  qed simp
  then show ?thesis by (auto simp: ProcessTransaction_def split: prod.split list.split) (metis fst_conv list.distinct(1))
qed

section \<open>Chain events and the life cycle\<close>

lemma FindByContractID_Inr:
  "FindByContractID env i d = Inr c \<Longrightarrow> \<exists>x \<in> set (B_circles d). c = read_circle d x \<and> C_ContractID x = Some i \<and> C_DeletedAt x = None"
  by (auto simp: FindByContractID_def scanCircle_def run_query_Inr split: sum.splits option.splits if_splits dest: find_Some_D)

lemma Repo_Update_ok:
  assumes "fault env (CQ_UpdateCircle (C_ID c)) = None" "max_members_ok c" "x \<in> set (B_circles d)" "C_ID x = C_ID c"
  shows "Repo_Update env c d = (Inr (), d\<lparr>B_circles := update_where (\<lambda>r. C_ID r = C_ID c) (write_circle c) (B_circles d)\<rparr>)"
  using assms by (auto simp: Repo_Update_def guard_def)

text \<open>
  Chain events ignore the life cycle: a dispute event makes its circle disputed and a completion event makes it
  completed whatever its status was, so a completed circle can become disputed and a cancelled
  one completed, which no call of the service allows.
\<close>

theorem chain_events_ignore_life_cycle:
  assumes "EP_circleRepo p" "FindByContractID (p_circle env) (pstr ev ''circle_id'') (A_circles a) = Inr c"
    and "fault (p_circle env) (CQ_UpdateCircle (C_ID c)) = None" "max_members_ok c"
    and "x \<in> set (B_circles (A_circles (snd (h p env ev a))))" "C_ID x = C_ID c"
  shows "(h = onDisputeRaised \<longrightarrow> C_Status x = CircleStatusOther ''disputed'') \<and> (h = onCircleCompleted \<longrightarrow> C_Status x = CircleStatusCompleted)"
proof -
  from FindByContractID_Inr [OF assms(2)] obtain y where y: "y \<in> set (B_circles (A_circles a))" "C_ID y = C_ID c" by auto
  have up: "on_circles (Repo_Update (p_circle env) c') a = (Inr (), a\<lparr>A_circles := (A_circles a)\<lparr>B_circles :=
      update_where (\<lambda>r. C_ID r = C_ID c) (write_circle c') (B_circles (A_circles a))\<rparr>\<rparr>)"
    if "C_ID c' = C_ID c" "C_MaxMembers c' = C_MaxMembers c" for c'
    using Repo_Update_ok [of "p_circle env" c' y "A_circles a"] assms(3,4) y that by (simp add: on_circles_def max_members_ok_def)
  have ins: "A_circles (snd (on_circles (insert_chain_dispute env ev i u) b)) = A_circles b" for i u b
    by (simp add: snd_on_circles insert_chain_dispute_def exec_stmt_def split: option.split)
  show ?thesis using assms(1,2,5,6)
    by (auto simp: onDisputeRaised_def onCircleCompleted_def Let_def find_circle_by_contract_def found_def up ins write_circle_def
        dest!: set_update_where split: if_splits option.splits)
qed

section \<open>Paying and being charged\<close>

text \<open>
  Who has paid is not charged: after a contribution from the chain, no run of \<^verbatim>\<open>ProcessMissedContributions\<close> for its
  circle and round gives its member a penalty, as long as the contributions are kept.
\<close>

theorem paid_members_not_charged:
  assumes "applyContribution p env c d = (Inr adv, d1)" "ProcessMissedContributions env' s i (CB_RoundNumber c) d2 = (Inr y, d3)"
    and "uuid_Parse env' i = Some (CB_CircleID c)" "set (B_contribs d1) \<subseteq> set (B_contribs d2)"
  shows "\<exists>new. B_penalties d3 = B_penalties d2 @ new \<and> CB_UserID c \<notin> PN_UserID ` set new"
proof -
  from missed_Inr [OF assms(2)] assms(3) obtain new where new: "B_penalties d3 = B_penalties d2 @ new"
      "map PN_UserID new = map CM_UserID (owing d2 (CB_CircleID c) (CB_RoundNumber c))" by auto
  have "c \<in> set (B_contribs d2)" using applyContribution_Inr [OF assms(1)] assms(4) by auto
  then have "CB_UserID c \<in> CB_UserID ` set (filter (\<lambda>x. CB_CircleID x = CB_CircleID c \<and> CB_RoundNumber x = CB_RoundNumber c) (B_contribs d2))"
    by simp
  then have "CB_UserID c \<notin> CM_UserID ` set (owing d2 (CB_CircleID c) (CB_RoundNumber c))" unfolding owing_def by force
  then have "CB_UserID c \<notin> PN_UserID ` set new" using new(2) by (metis list.set_map)
  then show ?thesis using new(1) by blast
qed

section \<open>The lock key\<close>

lemma lock_masks: "not (push_bit 63 1 :: int64) = mask 63" "drop_bit 1 (not 0 :: int64) = mask 63"
  by code_simp+

text \<open>
  The advisory lock key of a circle is a non-negative \<^verbatim>\<open>int64\<close>, it is the first eight bytes of the identifier without
  the top bit, and the clamp to the largest integer is never taken.
\<close>

theorem lock_key_non_negative:
  "0 \<le> sint (circleLockKey i) \<and> uint (circleLockKey i) = uint (drop_bit 64 i) mod 2 ^ 63"
proof -
  have "and x (mask 63) \<le> (mask 63 :: int64)" for x by (rule word_and_le1)
  then have "\<not> mask 63 < and (ucast (drop_bit 64 i) :: int64) (mask 63)" by (simp add: not_less)
  then have key: "circleLockKey i = take_bit 63 (ucast (drop_bit 64 i))"
    by (simp only: circleLockKey_def Let_def lock_masks if_False take_bit_eq_mask)
  have u: "uint (take_bit 63 w) = uint w mod 2 ^ 63" for w :: int64 by (simp only: unsigned_take_bit_eq) (simp add: take_bit_eq_mod)
  have "uint (drop_bit 64 i) < 2 ^ 64"
    using uint_bounded [of i] by (simp only: unsigned_drop_bit_eq) (simp add: drop_bit_eq_div take_bit_int_eq_self)
  then have "uint (ucast (drop_bit 64 i) :: int64) = uint (drop_bit 64 i)" by (simp add: unsigned_ucast_eq take_bit_int_eq_self)
  moreover have "sint (take_bit 63 w) = uint (take_bit 63 w)" for w :: int64
    by (simp add: signed_take_bit_eq unsigned_take_bit_eq sint_uint signed_take_bit_eq_if_positive bit_take_bit_iff)
  ultimately show ?thesis using u by (simp add: key)
qed

section \<open>Demonstration\<close>

text \<open>The started circle \<open>k\<close> of \<^verbatim>\<open>CircleLife\<close> with the contract \<open>C\<close> and three users with wallets.\<close>

definition demo_account :: "uuid \<Rightarrow> string \<Rightarrow> user" where
  "demo_account i w = demo_user\<lparr>U_ID := i, U_WalletAddress := w\<rparr>"

definition linked :: "circles_db \<Rightarrow> circles_db" where
  "linked d = d\<lparr>B_circles := map (\<lambda>c. c\<lparr>C_ContractID := Some ''C''\<rparr>) (B_circles d)\<rparr>"

definition demo_app :: "circles_db \<Rightarrow> app" where
  "demo_app d = \<lparr>A_circles = linked d, A_users = \<lparr>D_users = [demo_account 1 ''O'', demo_account 2 ''A'', demo_account 3 ''B''], D_nameCounter = Some 0\<rparr>,
     A_reps = [], A_fees = [], A_sent = []\<rparr>"

definition demo_processor :: event_processor where
  "demo_processor = NewEventProcessor True False True True True"

definition demo_penv :: "nat \<Rightarrow> penv" where
  "demo_penv k = \<lparr>uuid_Parse = demo_parse, uuid_String = (\<lambda>_. []), uuid_New = (\<lambda>n. 900 + of_nat (k + n)), now = 7, fault = (\<lambda>_. None),
     p_circle = demo_cenv, p_contrib = demo_kenv, p_payout = demo_yenv 0, p_user = demo_uenv 7, p_rep = demo_renv, p_xdr = demo_xenv,
     p_float_to_int = oor_amd64, json_payload = (\<lambda>_. Inr ''{}''), ResolveContractVersion = (\<lambda>_. Inr ''v1''), strkey_Decode = (\<lambda>_. Inr [])\<rparr>"

text \<open>An event with the fields where the handlers look for them.\<close>

definition paid_event :: "string \<Rightarrow> string \<Rightarrow> ContractEvent" where
  "paid_event w h = \<lparr>CE_ContractID = ''C'', CE_EventType = ''ContributionReceived'', CE_Ledger = 7, CE_TxHash = h, CE_LedgerCloseTime = 3,
     CE_Payload = [(''circle_id'', GString ''C''), (''member'', GString w), (''amount'', GFloat64 (Finite 10)), (''round'', GInt 1)]\<rparr>"

definition demo_chain_contrib :: "uuid \<Rightarrow> uuid \<Rightarrow> string \<Rightarrow> raw_contrib" where
  "demo_chain_contrib k u h = \<lparr>CB_ID = k, CB_CircleID = 100, CB_UserID = u, CB_RoundNumber = 1, CB_Amount = Finite 10, CB_TxnHash = Some h,
     CB_Status = StatusConfirmed, CB_OnTime = True, CB_VerifiedOnchain = False, CB_VerificationStatus = [], CB_CreatedAt = 7\<rparr>"

definition demo_applied :: circles_db where
  "demo_applied = snd (applyContribution demo_processor (demo_penv 0) (demo_chain_contrib 900 2 ''h'') demo_active)"

lemma demo_applied_ok: "applyContribution demo_processor (demo_penv 0) (demo_chain_contrib 900 2 ''h'') demo_active
    = (Inr \<lparr>RA_Advanced = False, RA_NextRound = 2\<rparr>, demo_applied)"
  unfolding demo_applied_def by (rule prod_eqI) (code_simp, simp)

lemma demo_empty: "B_contribs demo_active = []"
  by code_simp

lemma found_active: "map_option CM_Status (find_member d i u) = Some MemberStatusActive \<Longrightarrow> u \<in> active_users d i"
  by (auto simp: find_member_def active_users_def dest!: find_Some_D)

theorem applyContribution_atomic_witness:
  "B_contribs demo_applied = [demo_chain_contrib 900 2 ''h''] \<and> \<not> round_funded demo_applied 100 1"
  using applyContribution_atomic [OF demo_applied_ok] by (auto simp: demo_empty demo_chain_contrib_def)

theorem round_advances_when_all_paid_witness:
  "\<not> active_users demo_active 100 \<subseteq> payers demo_applied 100 1"
proof -
  have c: "CB_CircleID (demo_chain_contrib 900 2 ''h'') = 100" "CB_RoundNumber (demo_chain_contrib 900 2 ''h'') = 1"
    by (simp_all add: demo_chain_contrib_def)
  have "B_contribs demo_applied = [demo_chain_contrib 900 2 ''h'']" by code_simp
  then have "payers demo_applied 100 1 = {2}" by (auto simp: payers_def demo_chain_contrib_def)
  moreover have "map_option CM_Status (find_member demo_active 100 2) = Some MemberStatusActive" by code_simp
  then have "2 \<in> active_users demo_active 100" by (rule found_active)
  moreover have "distinct (map member_key (B_members demo_active))"
    using circles_reachable_ok [OF demo_active_reachable] by (simp add: circles_ok_def)
  ultimately show ?thesis
    using round_advances_when_all_paid [OF demo_applied_ok] unfolding c by simp
qed

text \<open>
  A round can end without everyone's payment: the contributors are counted, not matched with the members, so the
  contribution of a member who has left makes up for one that an active member still owes.
\<close>

theorem round_advances_without_payment:
  "\<exists>d adv d'. d = run_calls [Call_Exit ''k'' ''b''] (snd (applyContribution demo_processor (demo_penv 0) (demo_chain_contrib 900 3 ''g'') demo_active))
     \<and> applyContribution demo_processor (demo_penv 1) (demo_chain_contrib 901 2 ''h'') d = (Inr adv, d') \<and> RA_Advanced adv
     \<and> map C_CurrentRound (B_circles d') = [2] \<and> 1 \<in> active_users d' 100 \<and> 1 \<notin> payers d' 100 1"
proof -
  define d where "d = run_calls [Call_Exit ''k'' ''b''] (snd (applyContribution demo_processor (demo_penv 0) (demo_chain_contrib 900 3 ''g'') demo_active))"
  define r where "r = applyContribution demo_processor (demo_penv 1) (demo_chain_contrib 901 2 ''h'') d"
  have "fst r = Inr \<lparr>RA_Advanced = True, RA_NextRound = 2\<rparr>" "map C_CurrentRound (B_circles (snd r)) = [2]"
      "map_option CM_Status (find_member (snd r) 100 1) = Some MemberStatusActive" "map CB_UserID (B_contribs (snd r)) = [3, 2]"
    unfolding r_def d_def by code_simp+
  note r = this
  have "set (map CB_UserID (B_contribs (snd r))) = {3, 2}" unfolding r(4) by simp
  then have "CB_UserID x \<in> {3, 2}" if "x \<in> set (B_contribs (snd r))" for x using that by auto
  then have out: "1 \<notin> payers (snd r) 100 1" by (fastforce simp: payers_def)
  have res: "applyContribution demo_processor (demo_penv 1) (demo_chain_contrib 901 2 ''h'') d = (Inr \<lparr>RA_Advanced = True, RA_NextRound = 2\<rparr>, snd r)"
    using r(1) unfolding r_def by (metis prod.collapse)
  show ?thesis unfolding d_def [symmetric]
    by (rule exI [of _ d], rule exI [of _ "\<lparr>RA_Advanced = True, RA_NextRound = 2\<rparr>"], rule exI [of _ "snd r"])
       (intro conjI refl res r(2) out found_active r(3), simp)
qed

definition demo_joint :: app where
  "demo_joint = snd (onContributionReceived demo_processor (demo_penv 0) (paid_event ''A'' ''h'') (demo_app demo_active))"

theorem contribution_event_once_witness:
  "length (B_contribs (A_circles demo_joint)) = 1
   \<and> snd (onContributionReceived demo_processor (demo_penv 1) (paid_event ''B'' ''h'') demo_joint) = demo_joint"
proof
  have n: "length (B_contribs (A_circles demo_joint)) = 1" "length (B_contribs (A_circles (demo_app demo_active))) = 0"
    by code_simp+
  then have "A_circles demo_joint \<noteq> A_circles (demo_app demo_active)" by (metis zero_neq_one)
  then show "snd (onContributionReceived demo_processor (demo_penv 1) (paid_event ''B'' ''h'') demo_joint) = demo_joint"
    unfolding demo_joint_def by (rule contribution_event_once) (simp add: paid_event_def)
  show "length (B_contribs (A_circles demo_joint)) = 1" by (rule n(1))
qed

theorem api_contribution_never_counted_witness:
  "B_circles demo_paid = B_circles demo_active
   \<and> snd (onContributionReceived demo_processor (demo_penv 0) (paid_event ''A'' ''h'') ((demo_app demo_paid)\<lparr>A_circles := demo_paid\<rparr>))
     = (demo_app demo_paid)\<lparr>A_circles := demo_paid\<rparr>"
  by (rule api_contribution_never_counted [OF demo_paid_ok]) (simp_all add: demo_pay_def paid_event_def)

theorem missing_entities_are_errors_witness:
  "\<exists>what. onPayoutExecuted demo_processor (demo_penv 0) (paid_event ''A'' ''h'') (demo_app circles_init)
     = (Inl (Wrap what (Sentinel ErrCircleNotFound)), demo_app circles_init) \<and> \<not> isNotFound (Sentinel ErrCircleNotFound)"
  by (rule missing_entities_are_errors [where i = "pstr (paid_event ''A'' ''h'') ''circle_id''"]) (code_simp, code_simp, simp)

definition demo_engine :: "app engine" where
  "demo_engine = snd (NewEngine chain_cfg \<lparr>W_cursor = Some \<lparr>Cur_Chain = ''stellar'', Cur_LastLedger = 2, Cur_LastProcessedAt = 0\<rparr>,
     W_events = [], W_dead = [], W_app = demo_app demo_active\<rparr>)"

definition demo_poll :: "app engine \<Rightarrow> app engine" where
  "demo_poll e = snd (poll (chain_process demo_processor (\<lambda>_ _ k n. demo_penv (k + n))) (chain_env old_branch (Records [''a'']) 100) chain_cfg e)"

theorem indexer_changes_nothing_witness:
  "A_circles (W_app (E_world (demo_poll demo_engine))) = linked demo_active \<and> W_dead (E_world (demo_poll demo_engine)) = []"
proof -
  have "nameless (W_app (E_world demo_engine))"
    by (auto simp: demo_engine_def NewEngine_def Let_def nameless_def demo_app_def linked_def demo_account_def)
  from indexer_changes_nothing [OF this, of demo_processor
      "[(\<lambda>_ _ k n. demo_penv (k + n), chain_env old_branch (Records [''a'']) 100, chain_cfg)]"]
  have "undisturbed (E_world demo_engine) (E_world (demo_poll demo_engine))" by (simp add: demo_poll_def)
  then show ?thesis by (simp add: undisturbed_def same_data_def demo_engine_def NewEngine_def Let_def demo_app_def)
qed

definition demo_disputed :: app where
  "demo_disputed = snd (onDisputeRaised demo_processor (demo_penv 0) (paid_event ''A'' ''h'') (demo_app demo_closed))"

theorem chain_events_ignore_life_cycle_witness:
  "map C_Status (B_circles (A_circles (demo_app demo_closed))) = [CircleStatusCompleted]
   \<and> C_Status (hd (B_circles (A_circles demo_disputed))) = CircleStatusOther ''disputed''"
proof
  show "map C_Status (B_circles (A_circles (demo_app demo_closed))) = [CircleStatusCompleted]" by code_simp
  let ?x = "hd (B_circles (A_circles demo_disputed))"
  have f: "case FindByContractID (p_circle (demo_penv 0)) (pstr (paid_event ''A'' ''h'') ''circle_id'') (A_circles (demo_app demo_closed)) of
      Inr c \<Rightarrow> C_ID c = 100 \<and> max_members_ok c | Inl e \<Rightarrow> False" by code_simp
  then obtain c where c: "FindByContractID (p_circle (demo_penv 0)) (pstr (paid_event ''A'' ''h'') ''circle_id'') (A_circles (demo_app demo_closed)) = Inr c"
      "C_ID c = 100" "max_members_ok c" by (auto split: sum.splits)
  have "map C_ID (B_circles (A_circles demo_disputed)) = [100]" by code_simp
  then have x: "?x \<in> set (B_circles (A_circles (snd (onDisputeRaised demo_processor (demo_penv 0) (paid_event ''A'' ''h'') (demo_app demo_closed)))))"
      "C_ID ?x = C_ID c" using c(2) unfolding demo_disputed_def by (cases "B_circles (A_circles (snd (onDisputeRaised demo_processor (demo_penv 0) (paid_event ''A'' ''h'') (demo_app demo_closed))))"; simp)+
  show "C_Status ?x = CircleStatusOther ''disputed''"
    using chain_events_ignore_life_cycle [where h = onDisputeRaised, OF _ c(1) _ c(3) x] by (simp add: demo_processor_def NewEventProcessor_def demo_penv_def demo_cenv_def)
qed

theorem paid_members_not_charged_witness:
  "\<exists>new. B_penalties (snd (ProcessMissedContributions demo_cenv demo_svc ''k'' 1 demo_applied)) = B_penalties demo_applied @ new
     \<and> 2 \<notin> PN_UserID ` set new"
proof -
  have c: "find_circle demo_applied 100 \<noteq> None" "length (B_members demo_applied) = 3" "B_penalties demo_applied = []" "demo_parse ''k'' = Some 100"
    by code_simp+
  have three: "{..<3} = {0, 1, 2 :: nat}" by auto
  have "fst (ProcessMissedContributions demo_cenv demo_svc ''k'' 1 demo_applied) = Inr ()"
    using c by (auto intro!: missed_total simp: demo_cenv_def three)
  then have "ProcessMissedContributions demo_cenv demo_svc ''k'' (CB_RoundNumber (demo_chain_contrib 900 2 ''h'')) demo_applied
      = (Inr (), snd (ProcessMissedContributions demo_cenv demo_svc ''k'' 1 demo_applied))"
    by (simp add: prod_eq_iff demo_chain_contrib_def)
  from paid_members_not_charged [OF demo_applied_ok this] c(4) show ?thesis
    by (simp add: demo_chain_contrib_def demo_cenv_def)
qed

end
