(* ===== verification/Governance.thy ===== *)
theory Governance
  imports Money "HOL-Library.AList"
begin

text \<open>
  \<^verbatim>\<open>internal/domain/governance/model.go\<close> and the in-memory paths of \<^verbatim>\<open>service.go\<close>:
  proposals, weighted votes on a snapshot taken at creation, the execution timelock and the
  cancellation vote.

  A Go map is an association list with distinct keys. Where the code ranges over a map the
  order is unspecified in Go; it is the parameter \<open>range_order\<close> of the operation. Head counts are
  unbounded integers (each grows by one per stored vote); weights are \<^verbatim>\<open>int64\<close> and wrap.
  The functions \<^verbatim>\<open>EligibleVoters\<close>, \<^verbatim>\<open>VotingWeight\<close> and \<^verbatim>\<open>ExecuteProposalAction\<close> are
  interfaces implemented outside this package: they are fields of \<open>gov_service\<close>, passed with
  every call because their answers (live balances) change between calls. The log
  \<open>G_actions\<close> keeps the calls of the executor.
\<close>

section \<open>Model\<close>

datatype ProposalStatus =
    ProposalStatusPending | ProposalStatusPassed | ProposalStatusRejected
  | ProposalStatusExecuted | ProposalStatusCancelled

record proposal =
  P_ID :: uuid
  P_Title :: string
  P_Description :: string
  P_ProposalType :: string
  P_CreatorID :: uuid
  P_Status :: ProposalStatus
  P_ForVotes :: int
  P_AgainstVotes :: int
  P_ExecutedAt :: "time option"
  P_CreatedAt :: time
  P_UpdatedAt :: time
  P_WeightSnapshot :: "(uuid \<times> int64) list"
  P_ForWeight :: int64
  P_AgainstWeight :: int64
  P_SnapshotAt :: "time option"
  P_SnapshotTotalWeight :: int64
  P_ExecutableAt :: "time option"
  P_CancelledAt :: "time option"
  P_CancellationVotes :: int

definition TierWeightFactors :: "string \<Rightarrow> int64 option" where
  "TierWeightFactors = map_of [(''Bronze'', 100), (''Silver'', 125), (''Gold'', 150),
     (''Platinum'', 175), (''Diamond'', 200)]"

definition DefaultTierFactor :: int64 where "DefaultTierFactor = 100"

definition ApplyTierFactor :: "int64 \<Rightarrow> string \<Rightarrow> int64" where
  "ApplyTierFactor balance tier =
     (let factor = (case TierWeightFactors tier of Some f \<Rightarrow> f | None \<Rightarrow> DefaultTierFactor) in
      if sint balance < 0 then 0 else word_of_int (quo (sint (balance * factor)) 100))"

record TimelockConfig =
  Delay :: duration
  CancelThresholdPct :: int

definition DefaultCancelThresholdPct :: int where "DefaultCancelThresholdPct = 33"

definition Normalize :: "TimelockConfig \<Rightarrow> TimelockConfig" where
  "Normalize c =
     (if CancelThresholdPct c < 1 \<or> CancelThresholdPct c > 100
      then c\<lparr>CancelThresholdPct := DefaultCancelThresholdPct\<rparr> else c)"

definition CancellationThreshold :: "int \<Rightarrow> int \<Rightarrow> int" where
  "CancellationThreshold totalVotes pct =
     (if totalVotes \<le> 0 then 1
      else let threshold = quo (totalVotes * pct + 99) 100 in
        if threshold < 1 then 1 else threshold)"

record CreateProposalInput =
  I_Title :: string
  I_Description :: string
  I_ProposalType :: string
  I_CreatorID :: string

section \<open>The service and its in-memory state\<close>

record gov_service =
  executor :: "(proposal \<Rightarrow> error option) option"
  EligibleVoters :: "string list result"
  VotingWeight :: "string \<Rightarrow> int64 result"
  timelock :: TimelockConfig

record gov =
  G_proposals :: "(uuid \<times> proposal) list"
  G_votesByID :: "(uuid \<times> (uuid \<times> bool) list) list"
  G_cancelsByID :: "(uuid \<times> uuid list) list"
  G_actions :: "proposal list"

text \<open>\<^verbatim>\<open>WeightSnapshotter\<close>, the resolver of a service built without one.\<close>

definition WeightSnapshotter_VotingWeight :: "string \<Rightarrow> int64 result" where
  "WeightSnapshotter_VotingWeight u = Inr 1"

definition WeightSnapshotter_EligibleVoters :: "string list result" where
  "WeightSnapshotter_EligibleVoters = Inr []"

definition NewService :: "gov_service \<times> gov" where
  "NewService =
     (\<lparr>executor = None, EligibleVoters = WeightSnapshotter_EligibleVoters,
       VotingWeight = WeightSnapshotter_VotingWeight,
       timelock = Normalize \<lparr>Delay = 0, CancelThresholdPct = 0\<rparr>\<rparr>,
      \<lparr>G_proposals = [], G_votesByID = [], G_cancelsByID = [], G_actions = []\<rparr>)"

definition WithTimelock :: "TimelockConfig \<Rightarrow> gov_service \<Rightarrow> gov_service" where
  "WithTimelock cfg s = s\<lparr>timelock := Normalize cfg\<rparr>"

definition SetExecutor :: "(proposal \<Rightarrow> error option) option \<Rightarrow> gov_service \<Rightarrow> gov_service" where
  "SetExecutor ex s = s\<lparr>executor := ex\<rparr>"

definition gov_parseUUID :: "'q env \<Rightarrow> string \<Rightarrow> uuid result" where
  "gov_parseUUID env s =
     (case uuid_Parse env s of
        None \<Rightarrow> Inl (Wrap ''invalid UUID'' (Driver ''invalid UUID''))
      | Some u \<Rightarrow> Inr u)"

fun snapshot_loop :: "'q env \<Rightarrow> gov_service \<Rightarrow> string list \<Rightarrow> (uuid \<times> int64) list \<Rightarrow> int64
    \<Rightarrow> (uuid \<times> int64) list \<times> int64" where
  "snapshot_loop env s [] snapshot tot = (snapshot, tot)"
| "snapshot_loop env s (voterID # voters) snapshot tot =
     (case gov_parseUUID env voterID of
        Inl e \<Rightarrow> snapshot_loop env s voters snapshot tot
      | Inr parsed \<Rightarrow>
          (let weight = (case VotingWeight s voterID of
                           Inl e \<Rightarrow> 1
                         | Inr w \<Rightarrow> if sint w < 0 then 1 else w) in
           snapshot_loop env s voters (AList.update parsed weight snapshot) (tot + weight)))"

definition snapshotWeights :: "'q env \<Rightarrow> gov_service \<Rightarrow> (uuid \<times> int64) list \<times> int64" where
  "snapshotWeights env s =
     (case EligibleVoters s of
        Inl e \<Rightarrow> ([], 0)
      | Inr voters \<Rightarrow> snapshot_loop env s voters [] 0)"

definition resolveVoteWeight :: "'q env \<Rightarrow> gov_service \<Rightarrow> proposal \<Rightarrow> uuid \<Rightarrow> int64" where
  "resolveVoteWeight env s p voterID =
     (case (if P_SnapshotAt p \<noteq> None then map_of (P_WeightSnapshot p) voterID else None) of
        Some weight \<Rightarrow> weight
      | None \<Rightarrow>
          if length (P_WeightSnapshot p) = 0 then 1
          else (case VotingWeight s (uuid_String env voterID) of
                  Inl e \<Rightarrow> 1
                | Inr weight \<Rightarrow> if sint weight < 0 then 1 else weight))"

text \<open>The proposal that \<^verbatim>\<open>CreateProposal\<close> builds before it is stored.\<close>

definition new_proposal :: "'q env \<Rightarrow> gov_service \<Rightarrow> CreateProposalInput \<Rightarrow> uuid \<Rightarrow> proposal" where
  "new_proposal env s input creatorID =
     (let (snapshot, tot) = snapshotWeights env s in
      \<lparr>P_ID = uuid_New env 0, P_Title = I_Title input, P_Description = I_Description input,
       P_ProposalType = I_ProposalType input, P_CreatorID = creatorID,
       P_Status = ProposalStatusPending, P_ForVotes = 0, P_AgainstVotes = 0,
       P_ExecutedAt = None, P_CreatedAt = now env, P_UpdatedAt = now env,
       P_WeightSnapshot = snapshot, P_ForWeight = 0, P_AgainstWeight = 0,
       P_SnapshotAt = Some (now env), P_SnapshotTotalWeight = tot,
       P_ExecutableAt = None, P_CancelledAt = None, P_CancellationVotes = 0\<rparr>)"

definition CreateProposal :: "'q env \<Rightarrow> gov_service \<Rightarrow> CreateProposalInput \<Rightarrow> gov \<Rightarrow> proposal result \<times> gov" where
  "CreateProposal env s input g =
     attempt (gov_parseUUID env (I_CreatorID input)) g (\<lambda>creatorID.
     guard (I_Title input = [] \<or> I_Description input = [] \<or> I_ProposalType input = [])
       (Errorf ''title, description, and proposal type are required'') g
     (let p = new_proposal env s input creatorID in
      (Inr p, g\<lparr>G_proposals := AList.update (P_ID p) p (G_proposals g),
                G_votesByID := AList.update (P_ID p) [] (G_votesByID g)\<rparr>)))"

text \<open>
  A page of the proposals, newest first. The map is ranged over in the order \<open>range_order\<close> of the
  run and \<^verbatim>\<open>sort.Slice\<close> need not be stable, so every order of equal keys comes from some
  \<open>range_order\<close>. \<open>None\<close> is the panic of a slice expression out of range: the offset is computed in
  \<^verbatim>\<open>int\<close> and can wrap.
\<close>

definition ListProposals :: "((uuid \<times> proposal) list \<Rightarrow> (uuid \<times> proposal) list) \<Rightarrow> int64 \<Rightarrow> int64 \<Rightarrow> gov
    \<Rightarrow> (proposal list \<times> nat) option" where
  "ListProposals range_order page0 limit0 g =
     (let proposals = sort_key (\<lambda>p. - P_CreatedAt p) (map snd (range_order (G_proposals g)));
          n = length proposals;
          page = (if sint page0 \<le> 0 then 1 else page0);
          limit = (if sint limit0 \<le> 0 then 10 else limit0);
          offset = (page - 1) * limit in
      if sint offset \<ge> int n then Some ([], n)
      else let end0 = offset + limit;
               end' = (if sint end0 > int n then word_of_int (int n) else end0) in
        if sint offset < 0 \<or> sint end' < sint offset then None
        else Some (take (nat (sint end' - sint offset)) (drop (nat (sint offset)) proposals), n))"

definition GetProposal :: "'q env \<Rightarrow> string \<Rightarrow> gov \<Rightarrow> proposal result" where
  "GetProposal env i g =
     (case gov_parseUUID env i of
        Inl e \<Rightarrow> Inl e
      | Inr proposalID \<Rightarrow>
          (case map_of (G_proposals g) proposalID of
             None \<Rightarrow> Inl (Sentinel ErrProposalNotFound)
           | Some p \<Rightarrow> Inr p))"

text \<open>The tally both stores apply to a proposal when a vote of a given weight is cast.\<close>

definition count_vote :: "bool \<Rightarrow> int64 \<Rightarrow> time \<Rightarrow> proposal \<Rightarrow> proposal" where
  "count_vote vote weight t p =
     (if vote then p\<lparr>P_ForVotes := P_ForVotes p + 1, P_ForWeight := P_ForWeight p + weight,
                     P_UpdatedAt := t\<rparr>
      else p\<lparr>P_AgainstVotes := P_AgainstVotes p + 1,
             P_AgainstWeight := P_AgainstWeight p + weight, P_UpdatedAt := t\<rparr>)"

definition votes_of :: "gov \<Rightarrow> uuid \<Rightarrow> (uuid \<times> bool) list" where
  "votes_of g i = (case map_of (G_votesByID g) i of None \<Rightarrow> [] | Some vs \<Rightarrow> vs)"

definition cancels_of :: "gov \<Rightarrow> uuid \<Rightarrow> uuid list" where
  "cancels_of g i = (case map_of (G_cancelsByID g) i of None \<Rightarrow> [] | Some cs \<Rightarrow> cs)"

definition VoteProposal :: "'q env \<Rightarrow> gov_service \<Rightarrow> string \<Rightarrow> string \<Rightarrow> bool \<Rightarrow> gov \<Rightarrow> unit result \<times> gov" where
  "VoteProposal env s proposalID userID vote g =
     attempt (gov_parseUUID env proposalID) g (\<lambda>proposalUUID.
     attempt (gov_parseUUID env userID) g (\<lambda>voterID.
     (case map_of (G_proposals g) proposalUUID of
        None \<Rightarrow> (Inl (Sentinel ErrProposalNotFound), g)
      | Some p \<Rightarrow>
          guard (P_Status p \<noteq> ProposalStatusPending) (Errorf ''proposal is no longer active'') g
          (let votes = votes_of g proposalUUID in
           guard (map_of votes voterID \<noteq> None) (Sentinel ErrAlreadyVoted)
             (g\<lparr>G_votesByID := AList.update proposalUUID votes (G_votesByID g)\<rparr>)
           (Inr (),
            g\<lparr>G_votesByID := AList.update proposalUUID (AList.update voterID vote votes) (G_votesByID g),
              G_proposals := AList.update proposalUUID
                (count_vote vote (resolveVoteWeight env s p voterID) (now env) p) (G_proposals g)\<rparr>)))))"

definition passed :: "proposal \<Rightarrow> bool" where
  "passed p =
     (if P_SnapshotAt p \<noteq> None then sint (P_AgainstWeight p) < sint (P_ForWeight p)
      else P_AgainstVotes p < P_ForVotes p)"

definition mark_executed :: "time \<Rightarrow> proposal \<Rightarrow> proposal" where
  "mark_executed t p =
     p\<lparr>P_Status := ProposalStatusExecuted, P_ExecutedAt := Some t, P_UpdatedAt := t\<rparr>"

text \<open>
  The in-memory path stores the new status first and calls the executor afterwards, on the
  stored proposal.
\<close>

definition run_executed :: "gov_service \<Rightarrow> uuid \<Rightarrow> proposal \<Rightarrow> gov \<Rightarrow> unit result \<times> gov" where
  "run_executed s i p g =
     (let g' = g\<lparr>G_proposals := AList.update i p (G_proposals g)\<rparr> in
      case executor s of
        None \<Rightarrow> (Inr (), g')
      | Some exec \<Rightarrow>
          ((case exec p of None \<Rightarrow> Inr () | Some e \<Rightarrow> Inl e),
           g'\<lparr>G_actions := G_actions g' @ [p]\<rparr>))"

definition executeInMemory :: "gov_service \<Rightarrow> uuid \<Rightarrow> time \<Rightarrow> gov \<Rightarrow> unit result \<times> gov" where
  "executeInMemory s proposalID t g =
     (case map_of (G_proposals g) proposalID of
        None \<Rightarrow> (Inl (Sentinel ErrProposalNotFound), g)
      | Some p \<Rightarrow>
          (case P_Status p of
             ProposalStatusPending \<Rightarrow>
               if \<not> passed p then
                 (Inr (), g\<lparr>G_proposals := AList.update proposalID
                    (p\<lparr>P_Status := ProposalStatusRejected, P_UpdatedAt := t\<rparr>) (G_proposals g)\<rparr>)
               else if Delay (timelock s) \<le> 0 then run_executed s proposalID (mark_executed t p) g
               else
                 (Inr (), g\<lparr>G_proposals := AList.update proposalID
                    (p\<lparr>P_Status := ProposalStatusPassed,
                       P_ExecutableAt := Some (t + Delay (timelock s)), P_UpdatedAt := t\<rparr>)
                    (G_proposals g)\<rparr>)
           | ProposalStatusPassed \<Rightarrow>
               if (case P_ExecutableAt p of None \<Rightarrow> False | Some x \<Rightarrow> t < x)
               then (Inl (Sentinel ErrTimelockActive), g)
               else run_executed s proposalID (mark_executed t p) g
           | _ \<Rightarrow> (Inl (Errorf ''proposal has already been processed''), g)))"

definition ExecuteProposal :: "'q env \<Rightarrow> gov_service \<Rightarrow> string \<Rightarrow> gov \<Rightarrow> unit result \<times> gov" where
  "ExecuteProposal env s i g =
     attempt (gov_parseUUID env i) g (\<lambda>proposalID. executeInMemory s proposalID (now env) g)"

definition cancellable :: "proposal \<Rightarrow> time \<Rightarrow> error option" where
  "cancellable p t =
     (if P_Status p \<noteq> ProposalStatusPassed then Some (Sentinel ErrNotCancellable)
      else if (case P_ExecutableAt p of None \<Rightarrow> False | Some x \<Rightarrow> \<not> t < x)
      then Some (Sentinel ErrNotCancellable)
      else None)"

text \<open>
  \<^verbatim>\<open>cancels[uid]\<close> only ever holds \<^verbatim>\<open>true\<close>, so the map is the list of its keys.
\<close>

definition cancelInMemory :: "gov_service \<Rightarrow> uuid \<Rightarrow> uuid \<Rightarrow> time \<Rightarrow> gov \<Rightarrow> bool result \<times> gov" where
  "cancelInMemory s pid uid t g =
     (case map_of (G_proposals g) pid of
        None \<Rightarrow> (Inl (Sentinel ErrProposalNotFound), g)
      | Some p \<Rightarrow>
          (case cancellable p t of
             Some e \<Rightarrow> (Inl e, g)
           | None \<Rightarrow>
               let cancels = cancels_of g pid in
               guard (uid \<in> set cancels) (Sentinel ErrAlreadyCancelledVote)
                 (g\<lparr>G_cancelsByID := AList.update pid cancels (G_cancelsByID g)\<rparr>)
               (let cancels' = uid # cancels;
                    p' = p\<lparr>P_CancellationVotes := int (length cancels')\<rparr>;
                    threshold = CancellationThreshold (P_ForVotes p' + P_AgainstVotes p')
                      (CancelThresholdPct (timelock s));
                    g' = g\<lparr>G_cancelsByID := AList.update pid cancels' (G_cancelsByID g)\<rparr> in
                if P_CancellationVotes p' < threshold then
                  (Inr False, g'\<lparr>G_proposals := AList.update pid p' (G_proposals g)\<rparr>)
                else
                  (Inr True, g'\<lparr>G_proposals := AList.update pid
                     (p'\<lparr>P_Status := ProposalStatusCancelled, P_CancelledAt := Some t,
                         P_UpdatedAt := t\<rparr>) (G_proposals g)\<rparr>))))"

definition CancelProposal :: "'q env \<Rightarrow> gov_service \<Rightarrow> string \<Rightarrow> string \<Rightarrow> gov \<Rightarrow> bool result \<times> gov" where
  "CancelProposal env s proposalID userID g =
     attempt (gov_parseUUID env proposalID) g (\<lambda>pid.
     attempt (gov_parseUUID env userID) g (\<lambda>uid. cancelInMemory s pid uid (now env) g))"

section \<open>The life of a proposal\<close>

text \<open>
  The specification both stores implement: the moves a stored proposal can make. A move
  keeps the identity, the text and the weight snapshot.
\<close>

inductive evolves :: "proposal \<Rightarrow> proposal \<Rightarrow> bool" where
  ev_vote: "P_Status p = ProposalStatusPending \<Longrightarrow> evolves p (count_vote v w t p)"
| ev_reject: "P_Status p = ProposalStatusPending \<Longrightarrow> \<not> passed p \<Longrightarrow>
    evolves p (p\<lparr>P_Status := ProposalStatusRejected, P_UpdatedAt := t\<rparr>)"
| ev_pass: "P_Status p = ProposalStatusPending \<Longrightarrow> passed p \<Longrightarrow> 0 < d \<Longrightarrow>
    evolves p (p\<lparr>P_Status := ProposalStatusPassed, P_ExecutableAt := Some (t + d), P_UpdatedAt := t\<rparr>)"
| ev_execute_now: "P_Status p = ProposalStatusPending \<Longrightarrow> passed p \<Longrightarrow> evolves p (mark_executed t p)"
| ev_execute: "P_Status p = ProposalStatusPassed \<Longrightarrow>
    \<not> (case P_ExecutableAt p of None \<Rightarrow> False | Some x \<Rightarrow> t < x) \<Longrightarrow> evolves p (mark_executed t p)"
| ev_cancel_vote: "cancellable p t = None \<Longrightarrow> evolves p (p\<lparr>P_CancellationVotes := n\<rparr>)"
| ev_cancel: "cancellable p t = None \<Longrightarrow>
    evolves p (p\<lparr>P_CancellationVotes := n, P_Status := ProposalStatusCancelled,
      P_CancelledAt := Some t, P_UpdatedAt := t\<rparr>)"

inductive_cases evolvesE: "evolves p p'"

definition terminal :: "ProposalStatus \<Rightarrow> bool" where
  "terminal st = (st \<in> {ProposalStatusRejected, ProposalStatusExecuted, ProposalStatusCancelled})"

definition frozen :: "proposal \<Rightarrow> proposal \<Rightarrow> bool" where
  "frozen p p' \<longleftrightarrow> P_ID p' = P_ID p \<and> P_Title p' = P_Title p \<and> P_CreatorID p' = P_CreatorID p
     \<and> P_ProposalType p' = P_ProposalType p \<and> P_WeightSnapshot p' = P_WeightSnapshot p
     \<and> P_SnapshotAt p' = P_SnapshotAt p \<and> P_SnapshotTotalWeight p' = P_SnapshotTotalWeight p"

definition same_tally :: "proposal \<Rightarrow> proposal \<Rightarrow> bool" where
  "same_tally p p' \<longleftrightarrow> P_ForVotes p' = P_ForVotes p \<and> P_AgainstVotes p' = P_AgainstVotes p
     \<and> P_ForWeight p' = P_ForWeight p \<and> P_AgainstWeight p' = P_AgainstWeight p"

text \<open>What the time stamps and the tally of a proposal say about its status.\<close>

fun status_ok :: "ProposalStatus \<Rightarrow> proposal \<Rightarrow> bool" where
  "status_ok ProposalStatusPending p =
     (P_ExecutedAt p = None \<and> P_ExecutableAt p = None \<and> P_CancelledAt p = None)"
| "status_ok ProposalStatusPassed p =
     (passed p \<and> P_ExecutedAt p = None \<and> P_ExecutableAt p \<noteq> None \<and> P_CancelledAt p = None)"
| "status_ok ProposalStatusRejected p =
     (\<not> passed p \<and> P_ExecutedAt p = None \<and> P_ExecutableAt p = None \<and> P_CancelledAt p = None)"
| "status_ok ProposalStatusExecuted p =
     (passed p \<and> P_CancelledAt p = None \<and>
      (case P_ExecutedAt p of None \<Rightarrow> False
       | Some t \<Rightarrow> (case P_ExecutableAt p of None \<Rightarrow> True | Some x \<Rightarrow> x \<le> t)))"
| "status_ok ProposalStatusCancelled p =
     (passed p \<and> P_ExecutedAt p = None \<and>
      (case P_CancelledAt p of None \<Rightarrow> False
       | Some t \<Rightarrow> (case P_ExecutableAt p of None \<Rightarrow> False | Some x \<Rightarrow> t < x)))"

abbreviation proposal_ok :: "proposal \<Rightarrow> bool" where
  "proposal_ok p \<equiv> status_ok (P_Status p) p"

definition fresh_proposal :: "proposal \<Rightarrow> bool" where
  "fresh_proposal p \<longleftrightarrow> P_Status p = ProposalStatusPending \<and> proposal_ok p \<and> P_SnapshotAt p \<noteq> None
     \<and> P_ForVotes p = 0 \<and> P_AgainstVotes p = 0 \<and> P_ForWeight p = 0 \<and> P_AgainstWeight p = 0"

lemma count_vote_simps [simp]:
  "P_Status (count_vote v w t p) = P_Status p" "P_ID (count_vote v w t p) = P_ID p"
  "P_ExecutedAt (count_vote v w t p) = P_ExecutedAt p"
  "P_ExecutableAt (count_vote v w t p) = P_ExecutableAt p"
  "P_CancelledAt (count_vote v w t p) = P_CancelledAt p"
  "P_WeightSnapshot (count_vote v w t p) = P_WeightSnapshot p"
  "P_SnapshotAt (count_vote v w t p) = P_SnapshotAt p"
  "P_CancellationVotes (count_vote v w t p) = P_CancellationVotes p"
  by (simp_all add: count_vote_def)

lemma passed_update [simp]:
  "passed (p\<lparr>P_Status := st\<rparr>) = passed p" "passed (p\<lparr>P_UpdatedAt := t\<rparr>) = passed p"
  "passed (p\<lparr>P_ExecutableAt := x\<rparr>) = passed p" "passed (p\<lparr>P_ExecutedAt := x\<rparr>) = passed p"
  "passed (p\<lparr>P_CancelledAt := x\<rparr>) = passed p" "passed (p\<lparr>P_CancellationVotes := n\<rparr>) = passed p"
  by (simp_all add: passed_def)

lemma cancellable_None:
  "cancellable p t = None \<longleftrightarrow>
     P_Status p = ProposalStatusPassed \<and> (\<forall>x. P_ExecutableAt p = Some x \<longrightarrow> t < x)"
  by (simp add: cancellable_def split: option.splits)

lemma evolves_ok: "evolves p p' \<Longrightarrow> proposal_ok p \<Longrightarrow> proposal_ok p'"
  by (erule evolvesE) (auto simp: mark_executed_def cancellable_None split: option.splits)

lemma evolves_not_terminal: "evolves p p' \<Longrightarrow> \<not> terminal (P_Status p)"
  by (erule evolvesE) (auto simp: terminal_def cancellable_None)

lemma evolves_frozen: "evolves p p' \<Longrightarrow> frozen p p'"
  by (erule evolvesE) (auto simp: frozen_def count_vote_def mark_executed_def)

lemma evolves_tally: "evolves p p' \<Longrightarrow> P_Status p \<noteq> ProposalStatusPending \<Longrightarrow> same_tally p p'"
  by (erule evolvesE) (auto simp: same_tally_def mark_executed_def)

lemma evolves_star_ok: "evolves\<^sup>*\<^sup>* p p' \<Longrightarrow> proposal_ok p \<Longrightarrow> proposal_ok p'"
  by (induction rule: rtranclp_induct) (auto dest: evolves_ok)

lemma evolves_star_terminal: "evolves\<^sup>*\<^sup>* p p' \<Longrightarrow> terminal (P_Status p) \<Longrightarrow> p' = p"
  by (erule converse_rtranclpE) (auto dest: evolves_not_terminal)

lemma evolves_star_frozen: "evolves\<^sup>*\<^sup>* p p' \<Longrightarrow> frozen p p'"
  by (induction rule: rtranclp_induct) (auto dest: evolves_frozen simp: frozen_def)

section \<open>The interface of a proposal store\<close>

text \<open>
  \<open>shown w i\<close> is what a store shows under an identifier, \<open>step\<close> one call of the service.
\<close>

locale proposal_store =
  fixes shown :: "'w \<Rightarrow> uuid \<Rightarrow> proposal option"
    and step :: "'w \<Rightarrow> 'w \<Rightarrow> bool"
  assumes evolve: "step w w' \<Longrightarrow> shown w i = Some p \<Longrightarrow> \<exists>p'. shown w' i = Some p' \<and> evolves\<^sup>*\<^sup>* p p'"
    and create: "step w w' \<Longrightarrow> shown w i = None \<Longrightarrow> shown w' i = Some p \<Longrightarrow> fresh_proposal p"
begin

lemma evolve_star: "step\<^sup>*\<^sup>* w w' \<Longrightarrow> shown w i = Some p \<Longrightarrow> \<exists>p'. shown w' i = Some p' \<and> evolves\<^sup>*\<^sup>* p p'"
proof (induction rule: rtranclp_induct)
  case (step y z)
  then obtain q where q: "shown y i = Some q" "evolves\<^sup>*\<^sup>* p q" by blast
  from evolve [OF step.hyps(2) q(1)] q(2) show ?case by (auto intro: rtranclp_trans)
qed auto

lemma settled_forever:
  "step\<^sup>*\<^sup>* w w' \<Longrightarrow> shown w i = Some p \<Longrightarrow> terminal (P_Status p) \<Longrightarrow> shown w' i = Some p"
  using evolve_star evolves_star_terminal by blast

lemma snapshot_frozen:
  "step\<^sup>*\<^sup>* w w' \<Longrightarrow> shown w i = Some p \<Longrightarrow> \<exists>p'. shown w' i = Some p' \<and> frozen p p'"
  using evolve_star evolves_star_frozen by blast

lemma store_ok:
  "step\<^sup>*\<^sup>* w w' \<Longrightarrow> (\<And>i. shown w i = None) \<Longrightarrow> shown w' i = Some p \<Longrightarrow> proposal_ok p"
proof (induction arbitrary: i p rule: rtranclp_induct)
  case (step y z)
  show ?case
  proof (cases "shown y i")
    case None
    then show ?thesis
      using create [OF step.hyps(2) None step.prems(2)] unfolding fresh_proposal_def by blast
  next
    case (Some q)
    then show ?thesis
      using evolve [OF step.hyps(2) Some] step.IH [OF step.prems(1) Some] step.prems(2) evolves_star_ok
      by fastforce
  qed
qed auto

end

section \<open>The in-memory store\<close>

text \<open>
  One call of the service on the in-memory store. Identifiers drawn by \<^verbatim>\<open>uuid.New\<close> are taken
  to be unused.
\<close>

inductive gov_step :: "gov \<Rightarrow> gov \<Rightarrow> bool" where
  step_create: "map_of (G_proposals g) (uuid_New env 0) = None \<Longrightarrow>
    gov_step g (snd (CreateProposal (env :: unit env) s input g))"
| step_vote: "gov_step g (snd (VoteProposal (env :: unit env) s proposalID userID vote g))"
| step_execute: "gov_step g (snd (ExecuteProposal (env :: unit env) s i g))"
| step_cancel: "gov_step g (snd (CancelProposal (env :: unit env) s proposalID userID g))"

inductive_cases gov_stepE: "gov_step g g'"

definition gov_init :: gov where
  "gov_init = snd NewService"

lemma update_absent: "k \<notin> fst ` set al \<Longrightarrow> AList.update k v al = al @ [(k, v)]"
  by (induction al) auto

lemma votes_of_update [simp]:
  "votes_of (g\<lparr>G_votesByID := AList.update i vs (G_votesByID h)\<rparr>) j = (if j = i then vs else votes_of h j)"
  by (simp add: votes_of_def update_conv')

lemma cancels_of_update [simp]:
  "cancels_of (g\<lparr>G_cancelsByID := AList.update i cs (G_cancelsByID h)\<rparr>) j = (if j = i then cs else cancels_of h j)"
  by (simp add: cancels_of_def update_conv')

lemma votes_cancels_frame [simp]:
  "votes_of (g\<lparr>G_proposals := ps\<rparr>) = votes_of g" "votes_of (g\<lparr>G_cancelsByID := cs\<rparr>) = votes_of g"
  "votes_of (g\<lparr>G_actions := l\<rparr>) = votes_of g"
  "cancels_of (g\<lparr>G_proposals := ps\<rparr>) = cancels_of g" "cancels_of (g\<lparr>G_votesByID := vs\<rparr>) = cancels_of g"
  "cancels_of (g\<lparr>G_actions := l\<rparr>) = cancels_of g"
  by (rule ext; simp add: votes_of_def cancels_of_def)+

text \<open>
  What a call does: it fails and shows the same proposals, votes and cancellation votes, or
  it does exactly one of the things below.
\<close>

definition same_view :: "gov \<Rightarrow> gov \<Rightarrow> bool" where
  "same_view g g' \<longleftrightarrow> map_of (G_proposals g') = map_of (G_proposals g) \<and> votes_of g' = votes_of g
     \<and> cancels_of g' = cancels_of g \<and> G_actions g' = G_actions g"

lemma same_view_refl [simp]: "same_view g g"
  by (simp add: same_view_def)

lemma same_view_votes [simp]: "same_view g (g\<lparr>G_votesByID := AList.update i (votes_of g i) (G_votesByID g)\<rparr>)"
  by (auto simp: same_view_def)

lemma same_view_cancels [simp]:
  "same_view g (g\<lparr>G_cancelsByID := AList.update i (cancels_of g i) (G_cancelsByID g)\<rparr>)"
  by (auto simp: same_view_def)

lemma CreateProposal_cases:
  "same_view g (snd (CreateProposal env s input g)) \<or>
   (\<exists>c. snd (CreateProposal env s input g) =
     g\<lparr>G_proposals := AList.update (uuid_New env 0) (new_proposal env s input c) (G_proposals g),
       G_votesByID := AList.update (uuid_New env 0) [] (G_votesByID g)\<rparr>)"
  by (cases "gov_parseUUID env (I_CreatorID input)")
     (auto simp: CreateProposal_def guard_def Let_def new_proposal_def split: prod.splits)

lemma VoteProposal_cases:
  "same_view g (snd (VoteProposal env s pid uid vote g)) \<or>
   (\<exists>i v p. map_of (G_proposals g) i = Some p \<and> P_Status p = ProposalStatusPending
      \<and> map_of (votes_of g i) v = None
      \<and> snd (VoteProposal env s pid uid vote g) =
         g\<lparr>G_votesByID := AList.update i (AList.update v vote (votes_of g i)) (G_votesByID g),
           G_proposals := AList.update i (count_vote vote (resolveVoteWeight env s p v) (now env) p) (G_proposals g)\<rparr>)"
proof (cases "gov_parseUUID env pid"; cases "gov_parseUUID env uid")
  fix i v assume "gov_parseUUID env pid = Inr i" "gov_parseUUID env uid = Inr v"
  then show ?thesis
    by (cases "map_of (G_proposals g) i") (auto simp: VoteProposal_def guard_def Let_def)
qed (auto simp: VoteProposal_def)

lemma run_executed_state:
  "\<exists>l. snd (run_executed s i p g) = g\<lparr>G_proposals := AList.update i p (G_proposals g), G_actions := l\<rparr>
     \<and> l = G_actions g @ (if executor s = None then [] else [p])"
  by (auto simp: run_executed_def Let_def split: option.splits)

lemma executeInMemory_cases:
  "snd (executeInMemory s i t g) = g \<or>
   (\<exists>p p' l. map_of (G_proposals g) i = Some p \<and> evolves p p' \<and> P_Status p' \<noteq> ProposalStatusPending
      \<and> same_tally p p' \<and> P_CancellationVotes p' = P_CancellationVotes p
      \<and> snd (executeInMemory s i t g) =
         g\<lparr>G_proposals := AList.update i p' (G_proposals g), G_actions := G_actions g @ l\<rparr>
      \<and> l = (if P_Status p' = ProposalStatusExecuted \<and> executor s \<noteq> None then [p'] else []))"
proof (cases "map_of (G_proposals g) i")
  case None
  then show ?thesis by (simp add: executeInMemory_def)
next
  case (Some p)
  have ex: "evolves p (mark_executed t p) \<Longrightarrow> snd (executeInMemory s i t g) = snd (run_executed s i (mark_executed t p) g) \<Longrightarrow> ?thesis"
    using run_executed_state [of s i "mark_executed t p" g] Some
    by (intro disjI2 exI [of _ p] exI [of _ "mark_executed t p"])
       (auto simp: mark_executed_def same_tally_def)
  show ?thesis
  proof (cases "P_Status p")
    case ProposalStatusPending
    consider "\<not> passed p" | "passed p" "Delay (timelock s) \<le> 0" | "passed p" "0 < Delay (timelock s)" by linarith
    then show ?thesis
    proof cases
      case 1
      then show ?thesis using Some ProposalStatusPending
        by (intro disjI2 exI [of _ p] exI [of _ "p\<lparr>P_Status := ProposalStatusRejected, P_UpdatedAt := t\<rparr>"])
           (auto simp: executeInMemory_def same_tally_def intro: ev_reject)
    next
      case 2
      then show ?thesis using Some ProposalStatusPending
        by (intro ex) (auto simp: executeInMemory_def intro: ev_execute_now)
    next
      case 3
      then show ?thesis using Some ProposalStatusPending
        by (intro disjI2 exI [of _ p] exI [of _ "p\<lparr>P_Status := ProposalStatusPassed,
              P_ExecutableAt := Some (t + Delay (timelock s)), P_UpdatedAt := t\<rparr>"])
           (auto simp: executeInMemory_def same_tally_def intro: ev_pass)
    qed
  next
    case ProposalStatusPassed
    show ?thesis
    proof (cases "case P_ExecutableAt p of None \<Rightarrow> False | Some x \<Rightarrow> t < x")
      case True
      then show ?thesis using Some ProposalStatusPassed by (simp add: executeInMemory_def)
    next
      case False
      then show ?thesis using Some ProposalStatusPassed
        by (intro ex) (auto simp: executeInMemory_def intro: ev_execute)
    qed
  qed (use Some in \<open>simp_all add: executeInMemory_def\<close>)
qed

lemma cancelInMemory_cases:
  "same_view g (snd (cancelInMemory s i u t g)) \<or>
   (\<exists>p p'. map_of (G_proposals g) i = Some p \<and> u \<notin> set (cancels_of g i) \<and> evolves p p'
      \<and> P_Status p' \<noteq> ProposalStatusPending
      \<and> same_tally p p' \<and> P_CancellationVotes p' = int (length (u # cancels_of g i))
      \<and> snd (cancelInMemory s i u t g) =
         g\<lparr>G_cancelsByID := AList.update i (u # cancels_of g i) (G_cancelsByID g),
           G_proposals := AList.update i p' (G_proposals g)\<rparr>)"
proof (cases "map_of (G_proposals g) i")
  case None
  then show ?thesis by (simp add: cancelInMemory_def)
next
  case (Some p)
  show ?thesis
  proof (cases "cancellable p t = None \<and> u \<notin> set (cancels_of g i)")
    case False
    then show ?thesis using Some
      by (auto simp: cancelInMemory_def Let_def guard_def split: option.splits)
  next
    case True
    define q where "q = p\<lparr>P_CancellationVotes := int (length (u # cancels_of g i))\<rparr>"
    define q' where "q' = q\<lparr>P_Status := ProposalStatusCancelled, P_CancelledAt := Some t, P_UpdatedAt := t\<rparr>"
    have st: "P_Status p = ProposalStatusPassed" using True by (simp add: cancellable_None)
    have "evolves p q" "evolves p q'"
      using True unfolding q'_def q_def by (auto intro: ev_cancel_vote ev_cancel)
    moreover have "\<exists>p' \<in> {q, q'}. snd (cancelInMemory s i u t g) =
         g\<lparr>G_cancelsByID := AList.update i (u # cancels_of g i) (G_cancelsByID g),
           G_proposals := AList.update i p' (G_proposals g)\<rparr>"
      using True Some by (simp add: cancelInMemory_def Let_def q_def q'_def)
    ultimately show ?thesis using True Some st by (auto simp: same_tally_def q_def q'_def)
  qed
qed

lemma new_proposal_fresh: "fresh_proposal (new_proposal env s input c)"
  by (simp add: new_proposal_def fresh_proposal_def split: prod.splits)

lemma new_proposal_simps [simp]:
  "P_CancellationVotes (new_proposal env s input c) = 0" "P_ID (new_proposal env s input c) = uuid_New env 0"
  by (simp_all add: new_proposal_def split: prod.splits)

lemma gov_step_shape:
  assumes "gov_step g g'"
  obtains (same) "same_view g g'"
  | (created) i p where "map_of (G_proposals g) i = None" "fresh_proposal p" "P_CancellationVotes p = 0" "P_ID p = i"
      "g' = g\<lparr>G_proposals := AList.update i p (G_proposals g), G_votesByID := AList.update i [] (G_votesByID g)\<rparr>"
  | (voted) env :: "unit env" and s i v b p where "map_of (G_proposals g) i = Some p"
      "P_Status p = ProposalStatusPending" "map_of (votes_of g i) v = None"
      "g' = g\<lparr>G_votesByID := AList.update i (AList.update v b (votes_of g i)) (G_votesByID g),
           G_proposals := AList.update i (count_vote b (resolveVoteWeight env s p v) (now env) p) (G_proposals g)\<rparr>"
  | (moved) i p p' l where "map_of (G_proposals g) i = Some p" "evolves p p'"
      "P_Status p' \<noteq> ProposalStatusPending" "same_tally p p'" "P_CancellationVotes p' = P_CancellationVotes p"
      "g' = g\<lparr>G_proposals := AList.update i p' (G_proposals g), G_actions := G_actions g @ l\<rparr>"
      "l = [] \<or> l = [p'] \<and> P_Status p' = ProposalStatusExecuted"
  | (cancelling) i u p p' where "map_of (G_proposals g) i = Some p" "u \<notin> set (cancels_of g i)" "evolves p p'"
      "P_Status p' \<noteq> ProposalStatusPending" "same_tally p p'"
      "P_CancellationVotes p' = int (length (u # cancels_of g i))"
      "g' = g\<lparr>G_cancelsByID := AList.update i (u # cancels_of g i) (G_cancelsByID g),
           G_proposals := AList.update i p' (G_proposals g)\<rparr>"
  using assms
proof (cases rule: gov_step.cases)
  case (step_create env s input)
  then show ?thesis using CreateProposal_cases [of g env s input] same created new_proposal_fresh
    by (metis new_proposal_simps)
next
  case (step_vote env s pid uid vote)
  then show ?thesis using VoteProposal_cases [of g env s pid uid vote] same voted by metis
next
  case (step_execute env s j)
  show ?thesis
  proof (cases "gov_parseUUID env j")
    case (Inl e)
    then show ?thesis using step_execute same by (simp add: ExecuteProposal_def)
  next
    case (Inr i)
    then have "g' = snd (executeInMemory s i (now env) g)" using step_execute by (simp add: ExecuteProposal_def)
    then show ?thesis using executeInMemory_cases [of s i "now env" g] same moved same_view_refl by metis
  qed
next
  case (step_cancel env s pid uid)
  show ?thesis
  proof (cases "\<exists>i u. gov_parseUUID env pid = Inr i \<and> gov_parseUUID env uid = Inr u")
    case False
    then show ?thesis using step_cancel same
      by (cases "gov_parseUUID env pid"; cases "gov_parseUUID env uid") (auto simp: CancelProposal_def)
  next
    case True
    then obtain i u where "g' = snd (cancelInMemory s i u (now env) g)"
      using step_cancel by (auto simp: CancelProposal_def)
    then show ?thesis using cancelInMemory_cases [of g s i u "now env"] same cancelling by metis
  qed
qed

lemma ev_vote_star: "P_Status p = ProposalStatusPending \<Longrightarrow> evolves\<^sup>*\<^sup>* p (count_vote v w t p)"
  by (rule r_into_rtranclp) (rule ev_vote)

lemma gov_step_evolve:
  "gov_step g g' \<Longrightarrow> map_of (G_proposals g) i = Some p \<Longrightarrow>
     \<exists>p'. map_of (G_proposals g') i = Some p' \<and> evolves\<^sup>*\<^sup>* p p'"
  by (erule gov_step_shape) (auto simp: same_view_def update_conv' intro: ev_vote_star r_into_rtranclp)

lemma gov_step_create:
  "gov_step g g' \<Longrightarrow> map_of (G_proposals g) i = None \<Longrightarrow> map_of (G_proposals g') i = Some p \<Longrightarrow>
     fresh_proposal p"
  by (erule gov_step_shape) (auto simp: same_view_def update_conv' split: if_splits)

interpretation mem: proposal_store "\<lambda>g. map_of (G_proposals g)" gov_step
  by unfold_locales (auto intro: gov_step_evolve gov_step_create)

section \<open>Tallies\<close>

text \<open>
  The weight a vote has on a proposal with a snapshot: the snapshotted one, or 1 when nothing
  was snapshotted.
\<close>

definition snapshot_weight :: "proposal \<Rightarrow> uuid \<Rightarrow> int64" where
  "snapshot_weight p v = (case map_of (P_WeightSnapshot p) v of Some w \<Rightarrow> w | None \<Rightarrow> 1)"

definition covered :: "proposal \<Rightarrow> (uuid \<times> bool) list \<Rightarrow> bool" where
  "covered p vs \<longleftrightarrow> P_WeightSnapshot p = [] \<or> fst ` set vs \<subseteq> fst ` set (P_WeightSnapshot p)"

definition tally_ok :: "proposal \<Rightarrow> (uuid \<times> bool) list \<Rightarrow> bool" where
  "tally_ok p vs \<longleftrightarrow> P_SnapshotAt p \<noteq> None \<and> distinct (map fst vs)
     \<and> P_ForVotes p = int (length (filter snd vs))
     \<and> P_AgainstVotes p = int (length (filter (Not \<circ> snd) vs))
     \<and> (covered p vs \<longrightarrow>
          P_ForWeight p = (\<Sum>(v, b) \<leftarrow> filter snd vs. snapshot_weight p v)
        \<and> P_AgainstWeight p = (\<Sum>(v, b) \<leftarrow> filter (Not \<circ> snd) vs. snapshot_weight p v))"

definition cancels_ok :: "proposal \<Rightarrow> uuid list \<Rightarrow> bool" where
  "cancels_ok p cs \<longleftrightarrow> distinct cs \<and> P_CancellationVotes p = int (length cs)"

fun entry_ok :: "proposal option \<Rightarrow> (uuid \<times> bool) list \<Rightarrow> uuid list \<Rightarrow> bool" where
  "entry_ok None vs cs \<longleftrightarrow> cs = []"
| "entry_ok (Some p) vs cs \<longleftrightarrow> tally_ok p vs \<and> cancels_ok p cs"

definition gov_inv :: "gov \<Rightarrow> bool" where
  "gov_inv g \<longleftrightarrow> (\<forall>i. entry_ok (map_of (G_proposals g) i) (votes_of g i) (cancels_of g i))"

lemma resolve_covered:
  "P_SnapshotAt p \<noteq> None \<Longrightarrow> P_WeightSnapshot p = [] \<or> v \<in> fst ` set (P_WeightSnapshot p) \<Longrightarrow>
     resolveVoteWeight env s p v = snapshot_weight p v"
  by (cases "map_of (P_WeightSnapshot p) v")
     (auto simp: resolveVoteWeight_def snapshot_weight_def map_of_eq_None_iff)

lemma snapshot_weight_cong: "P_WeightSnapshot p' = P_WeightSnapshot p \<Longrightarrow> snapshot_weight p' = snapshot_weight p"
  by (rule ext) (simp add: snapshot_weight_def)

lemma covered_cong: "P_WeightSnapshot p' = P_WeightSnapshot p \<Longrightarrow> covered p' vs = covered p vs"
  by (simp add: covered_def)

lemma tally_ok_frozen: "tally_ok p vs \<Longrightarrow> same_tally p p' \<Longrightarrow> frozen p p' \<Longrightarrow> tally_ok p' vs"
  using covered_cong [of p' p vs] snapshot_weight_cong [of p' p]
  by (simp add: tally_ok_def same_tally_def frozen_def)

lemma tally_ok_vote:
  assumes "tally_ok p vs" "map_of vs v = None"
  shows "tally_ok (count_vote b (resolveVoteWeight env s p v) t p) (AList.update v b vs)"
proof -
  let ?p = "count_vote b (resolveVoteWeight env s p v) t p"
  have upd: "AList.update v b vs = vs @ [(v, b)]" using assms(2) by (simp add: update_absent map_of_eq_None_iff)
  have sw: "snapshot_weight ?p = snapshot_weight p" by (rule snapshot_weight_cong) simp
  have cov: "covered p vs \<and> resolveVoteWeight env s p v = snapshot_weight p v" if "covered ?p (vs @ [(v, b)])"
    using that assms(1) resolve_covered [of p v env s] by (auto simp: covered_def tally_ok_def)
  have "distinct (map fst (vs @ [(v, b)]))"
    using assms by (auto simp: tally_ok_def map_of_eq_None_iff)
  then show ?thesis using assms(1) cov unfolding upd tally_ok_def sw
    by (cases b) (auto simp: count_vote_def)
qed

lemma gov_inv_entry: "gov_inv g \<Longrightarrow> entry_ok (map_of (G_proposals g) i) (votes_of g i) (cancels_of g i)"
  by (simp add: gov_inv_def)

lemma gov_inv_local:
  assumes "gov_inv g" "entry_ok (map_of (G_proposals g') i) (votes_of g' i) (cancels_of g' i)"
    and "\<And>j. j \<noteq> i \<Longrightarrow> map_of (G_proposals g') j = map_of (G_proposals g) j"
    and "\<And>j. j \<noteq> i \<Longrightarrow> votes_of g' j = votes_of g j" "\<And>j. j \<noteq> i \<Longrightarrow> cancels_of g' j = cancels_of g j"
  shows "gov_inv g'"
  unfolding gov_inv_def using assms by (metis gov_inv_def)

lemma gov_inv_step: "gov_step g g' \<Longrightarrow> gov_inv g \<Longrightarrow> gov_inv g'"
proof (erule gov_step_shape)
  assume "gov_inv g" "same_view g g'"
  then show "gov_inv g'" unfolding gov_inv_def same_view_def by simp
next
  fix i p assume inv: "gov_inv g" and n: "map_of (G_proposals g) i = None" and f: "fresh_proposal p" "P_CancellationVotes p = 0"
    and g': "g' = g\<lparr>G_proposals := AList.update i p (G_proposals g), G_votesByID := AList.update i [] (G_votesByID g)\<rparr>"
  have "cancels_of g i = []" using gov_inv_entry [OF inv, of i] n by simp
  then show "gov_inv g'" using f unfolding g'
    by (intro gov_inv_local [OF inv, of _ i])
       (auto simp: update_conv' fresh_proposal_def tally_ok_def cancels_ok_def)
next
  fix env :: "unit env" and s i v b p
  assume inv: "gov_inv g" and p: "map_of (G_proposals g) i = Some p" and v: "map_of (votes_of g i) v = None"
    and g': "g' = g\<lparr>G_votesByID := AList.update i (AList.update v b (votes_of g i)) (G_votesByID g),
           G_proposals := AList.update i (count_vote b (resolveVoteWeight env s p v) (now env) p) (G_proposals g)\<rparr>"
  show "gov_inv g'" using gov_inv_entry [OF inv, of i] p tally_ok_vote [OF _ v] unfolding g'
    by (intro gov_inv_local [OF inv, of _ i]) (auto simp: update_conv' cancels_ok_def)
next
  fix i p p' l assume inv: "gov_inv g" and p: "map_of (G_proposals g) i = Some p" and ev: "evolves p p'" "same_tally p p'"
     "P_CancellationVotes p' = P_CancellationVotes p"
    and g': "g' = g\<lparr>G_proposals := AList.update i p' (G_proposals g), G_actions := G_actions g @ l\<rparr>"
  show "gov_inv g'" using gov_inv_entry [OF inv, of i] p ev evolves_frozen tally_ok_frozen unfolding g'
    by (intro gov_inv_local [OF inv, of _ i]) (auto simp: update_conv' cancels_ok_def)
next
  fix i u p p' assume inv: "gov_inv g" and p: "map_of (G_proposals g) i = Some p" and u: "u \<notin> set (cancels_of g i)"
    and ev: "evolves p p'" "same_tally p p'" "P_CancellationVotes p' = int (length (u # cancels_of g i))"
    and g': "g' = g\<lparr>G_cancelsByID := AList.update i (u # cancels_of g i) (G_cancelsByID g),
           G_proposals := AList.update i p' (G_proposals g)\<rparr>"
  show "gov_inv g'" using gov_inv_entry [OF inv, of i] p u ev evolves_frozen tally_ok_frozen unfolding g'
    by (intro gov_inv_local [OF inv, of _ i]) (auto simp: update_conv' cancels_ok_def)
qed

lemma gov_init_inv: "gov_inv gov_init"
  by (simp add: gov_inv_def gov_init_def NewService_def cancels_of_def)

lemma gov_reachable_inv: "gov_step\<^sup>*\<^sup>* gov_init g \<Longrightarrow> gov_inv g"
  by (induction rule: rtranclp_induct) (auto intro: gov_init_inv gov_inv_step)

section \<open>Votes and actions over time\<close>

lemma voted_step:
  "gov_step g g' \<Longrightarrow> map_of (G_proposals g) i \<noteq> None \<Longrightarrow> map_of (votes_of g i) v \<noteq> None \<Longrightarrow>
     map_of (G_proposals g') i \<noteq> None \<and> map_of (votes_of g' i) v \<noteq> None"
  by (erule gov_step_shape) (auto simp: same_view_def update_conv')

lemma voted_star:
  "gov_step\<^sup>*\<^sup>* g g' \<Longrightarrow> map_of (G_proposals g) i \<noteq> None \<Longrightarrow> map_of (votes_of g i) v \<noteq> None \<Longrightarrow>
     map_of (G_proposals g') i \<noteq> None \<and> map_of (votes_of g' i) v \<noteq> None"
proof (induction rule: rtranclp_induct)
  case (step y z)
  then show ?case using voted_step [of y z i v] by blast
qed blast

lemma VoteProposal_Inr:
  assumes "VoteProposal env s pid uid b g = (Inr (), g')" "gov_parseUUID env pid = Inr i" "gov_parseUUID env uid = Inr v"
  shows "map_of (G_proposals g') i \<noteq> None \<and> map_of (votes_of g' i) v = Some b"
  using assms by (cases "map_of (G_proposals g) i") (auto simp: VoteProposal_def Let_def guard_Inr update_conv')

lemma VoteProposal_again:
  assumes "map_of (G_proposals g) i \<noteq> None" "map_of (votes_of g i) v \<noteq> None"
    "gov_parseUUID env pid = Inr i" "gov_parseUUID env uid = Inr v"
  shows "same_view g (snd (VoteProposal env s pid uid b g)) \<and>
    fst (VoteProposal env s pid uid b g) \<in> {Inl (Sentinel ErrAlreadyVoted), Inl (Errorf ''proposal is no longer active'')}"
  using assms by (cases "map_of (G_proposals g) i") (auto simp: VoteProposal_def guard_def Let_def)

definition action_inv :: "gov \<Rightarrow> bool" where
  "action_inv g \<longleftrightarrow> (\<forall>i p. map_of (G_proposals g) i = Some p \<longrightarrow> P_ID p = i)
     \<and> distinct (map P_ID (G_actions g))
     \<and> (\<forall>a \<in> set (G_actions g). map_of (G_proposals g) (P_ID a) = Some a \<and> P_Status a = ProposalStatusExecuted)"

lemma action_inv_update:
  assumes inv: "action_inv g" and p: "\<And>p. map_of (G_proposals g) i = Some p \<Longrightarrow> \<not> terminal (P_Status p)"
    and i: "P_ID p' = i"
    and l: "l = [] \<or> l = [p'] \<and> P_Status p' = ProposalStatusExecuted"
    and g': "map_of (G_proposals g') = (map_of (G_proposals g)) (i \<mapsto> p')" "G_actions g' = G_actions g @ l"
  shows "action_inv g'"
proof -
  note invs = inv [unfolded action_inv_def]
  have ni: "P_ID a \<noteq> i" if "a \<in> set (G_actions g)" for a
  proof
    assume "P_ID a = i"
    with that invs have "map_of (G_proposals g) i = Some a" "P_Status a = ProposalStatusExecuted" by blast+
    with p show False by (simp add: terminal_def)
  qed
  show ?thesis unfolding action_inv_def g'
  proof (intro conjI)
    show "\<forall>j q. ((map_of (G_proposals g)) (i \<mapsto> p')) j = Some q \<longrightarrow> P_ID q = j"
      using invs i by (metis fun_upd_apply option.inject)
    have "distinct (map P_ID (G_actions g))" using invs by blast
    moreover have "i \<notin> P_ID ` set (G_actions g)" using ni by blast
    ultimately show "distinct (map P_ID (G_actions g @ l))" using l i by (elim disjE) auto
    show "\<forall>a \<in> set (G_actions g @ l). ((map_of (G_proposals g)) (i \<mapsto> p')) (P_ID a) = Some a
        \<and> P_Status a = ProposalStatusExecuted"
    proof
      fix a assume "a \<in> set (G_actions g @ l)"
      then consider "a \<in> set (G_actions g)" | "a = p'" "P_Status p' = ProposalStatusExecuted" using l by auto
      then show "((map_of (G_proposals g)) (i \<mapsto> p')) (P_ID a) = Some a \<and> P_Status a = ProposalStatusExecuted"
        by cases (use invs ni i in \<open>metis fun_upd_apply\<close>)+
    qed
  qed
qed

lemma action_inv_ID: "action_inv g \<Longrightarrow> map_of (G_proposals g) i = Some p \<Longrightarrow> P_ID p = i"
  unfolding action_inv_def by blast

lemma action_inv_step: "gov_step g g' \<Longrightarrow> action_inv g \<Longrightarrow> action_inv g'"
proof (erule gov_step_shape)
  assume inv: "action_inv g" and "same_view g g'"
  then have eqs: "map_of (G_proposals g') = map_of (G_proposals g)" "G_actions g' = G_actions g"
    by (simp_all add: same_view_def)
  show "action_inv g'" using inv unfolding action_inv_def eqs .
next
  fix i p assume "action_inv g" "map_of (G_proposals g) i = None" "P_ID p = i"
    "g' = g\<lparr>G_proposals := AList.update i p (G_proposals g), G_votesByID := AList.update i [] (G_votesByID g)\<rparr>"
  then show "action_inv g'"
    by - (rule action_inv_update [where g = g and i = i and l = "[]"], simp_all add: update_conv')
next
  fix env :: "unit env" and s i v b p
  assume inv: "action_inv g" and p: "map_of (G_proposals g) i = Some p" "P_Status p = ProposalStatusPending"
    and "g' = g\<lparr>G_votesByID := AList.update i (AList.update v b (votes_of g i)) (G_votesByID g),
           G_proposals := AList.update i (count_vote b (resolveVoteWeight env s p v) (now env) p) (G_proposals g)\<rparr>"
  then show "action_inv g'" using action_inv_ID [OF inv p(1)]
    by - (rule action_inv_update [where g = g and i = i and l = "[]"], simp_all add: update_conv' terminal_def)
next
  fix i p p' l assume inv: "action_inv g" and p: "map_of (G_proposals g) i = Some p" "evolves p p'"
    and "g' = g\<lparr>G_proposals := AList.update i p' (G_proposals g), G_actions := G_actions g @ l\<rparr>"
    "l = [] \<or> l = [p'] \<and> P_Status p' = ProposalStatusExecuted"
  then show "action_inv g'" using action_inv_ID [OF inv p(1)] evolves_not_terminal [OF p(2)] evolves_frozen [OF p(2)]
    by - (rule action_inv_update [where g = g and i = i and l = l], simp_all add: update_conv' frozen_def)
next
  fix i u p p' assume inv: "action_inv g" and p: "map_of (G_proposals g) i = Some p" "evolves p p'"
    and "g' = g\<lparr>G_cancelsByID := AList.update i (u # cancels_of g i) (G_cancelsByID g),
           G_proposals := AList.update i p' (G_proposals g)\<rparr>"
  then show "action_inv g'" using action_inv_ID [OF inv p(1)] evolves_not_terminal [OF p(2)] evolves_frozen [OF p(2)]
    by - (rule action_inv_update [where g = g and i = i and l = "[]"], simp_all add: update_conv' frozen_def)
qed

lemma gov_reachable_actions: "gov_step\<^sup>*\<^sup>* gov_init g \<Longrightarrow> action_inv g"
proof (induction rule: rtranclp_induct)
  case base
  show ?case by (simp add: action_inv_def gov_init_def NewService_def)
qed (rule action_inv_step)

lemma gov_reachable_ok: "gov_step\<^sup>*\<^sup>* gov_init g \<Longrightarrow> map_of (G_proposals g) i = Some p \<Longrightarrow> proposal_ok p"
  by (erule mem.store_ok) (simp_all add: gov_init_def NewService_def)

section \<open>The cancellation threshold\<close>

lemma CancellationThreshold_ceiling:
  assumes "0 < n" "1 \<le> pct" "pct \<le> 100"
  shows "CancellationThreshold n pct = \<lceil>(of_int (n * pct) / 100 :: rat)\<rceil>"
proof -
  define m z where "m = n * pct" and "z = (m + 99) div 100"
  have pos: "1 \<le> m" using mult_mono [of 1 n 1 pct] assms by (simp add: m_def)
  have b: "100 * z \<le> m + 99" "m + 99 < 100 * z + 100"
    using div_mult_mod_eq [of "m + 99" 100] pos_mod_bound [of 100 "m + 99"] pos_mod_sign [of 100 "m + 99"]
    unfolding z_def by linarith+
  then have "1 \<le> z" using pos by linarith
  then have "CancellationThreshold n pct = z"
    using assms pos by (auto simp: CancellationThreshold_def quo_def Let_def m_def z_def)
  also have "z = \<lceil>(of_int m / 100 :: rat)\<rceil>"
  proof (rule ceiling_unique [symmetric])
    have "(of_int (100 * z - 100) :: rat) < of_int m" using b by (simp only: of_int_less_iff)
    then show "of_int z - 1 < (of_int m / 100 :: rat)" by simp
    have "(of_int m :: rat) \<le> of_int (100 * z)" using b by (simp only: of_int_le_iff)
    then show "(of_int m / 100 :: rat) \<le> of_int z" by simp
  qed
  finally show ?thesis by (simp add: m_def)
qed

lemma cancelInMemory_True:
  assumes "cancelInMemory s i u t g = (Inr True, g')"
  obtains p where "map_of (G_proposals g) i = Some p" "cancellable p t = None" "u \<notin> set (cancels_of g i)"
    "CancellationThreshold (P_ForVotes p + P_AgainstVotes p) (CancelThresholdPct (timelock s))
       \<le> int (length (u # cancels_of g i))"
  using assms by (auto simp: cancelInMemory_def Let_def guard_def split: option.splits if_splits)

section \<open>Properties\<close>

text \<open>
  A concrete session for the witnesses: member 1 opens a proposal on which members 1 and 2
  have weights 5 and 3, both vote, and the vote is decided under a delay of one day.
\<close>

definition demo_env :: "time \<Rightarrow> unit env" where
  "demo_env t = \<lparr>uuid_Parse = (\<lambda>s. if s = ''m1'' then Some 1 else if s = ''m2'' then Some 2
       else if s = ''p'' then Some 77 else None),
     uuid_String = (\<lambda>u. if u = 1 then ''m1'' else if u = 2 then ''m2'' else ''p''),
     uuid_New = (\<lambda>n. 77), now = t, fault = (\<lambda>q. None)\<rparr>"

definition demo_service :: gov_service where
  "demo_service = \<lparr>executor = Some (\<lambda>p. None), EligibleVoters = Inr [''m1'', ''m2''],
     VotingWeight = (\<lambda>u. Inr (if u = ''m1'' then 5 else 3)),
     timelock = \<lparr>Delay = 86400, CancelThresholdPct = 33\<rparr>\<rparr>"

definition demo_input :: CreateProposalInput where
  "demo_input = \<lparr>I_Title = ''t'', I_Description = ''d'', I_ProposalType = ''x'', I_CreatorID = ''m1''\<rparr>"

definition demo_created :: gov where
  "demo_created = snd (CreateProposal (demo_env 100) demo_service demo_input gov_init)"

definition demo_voted :: gov where
  "demo_voted = snd (VoteProposal (demo_env 110) demo_service ''p'' ''m2'' False
     (snd (VoteProposal (demo_env 105) demo_service ''p'' ''m1'' True demo_created)))"

definition demo_passed :: gov where
  "demo_passed = snd (ExecuteProposal (demo_env 200) demo_service ''p'' demo_voted)"

definition demo_executed :: gov where
  "demo_executed = snd (ExecuteProposal (demo_env 90000) demo_service ''p'' demo_passed)"

lemmas demo_defs = demo_env_def demo_service_def demo_input_def demo_created_def demo_voted_def
  demo_passed_def demo_executed_def gov_init_def NewService_def

lemma demo_reachable: "gov_step\<^sup>*\<^sup>* gov_init demo_voted" "gov_step demo_voted demo_passed" "gov_step demo_passed demo_executed"
proof -
  have "gov_step gov_init demo_created"
    unfolding demo_created_def by (rule step_create) (simp add: gov_init_def NewService_def)
  moreover have "gov_step demo_created (snd (VoteProposal (demo_env 105) demo_service ''p'' ''m1'' True demo_created))"
    by (rule step_vote)
  moreover have "gov_step (snd (VoteProposal (demo_env 105) demo_service ''p'' ''m1'' True demo_created)) demo_voted"
    unfolding demo_voted_def by (rule step_vote)
  ultimately show "gov_step\<^sup>*\<^sup>* gov_init demo_voted" by (meson r_into_rtranclp rtranclp_trans)
  show "gov_step demo_voted demo_passed" unfolding demo_passed_def by (rule step_execute)
  show "gov_step demo_passed demo_executed" unfolding demo_executed_def by (rule step_execute)
qed

lemma demo_created_proposal:
  "map_of (G_proposals demo_created) 77 = Some
     \<lparr>P_ID = 77, P_Title = ''t'', P_Description = ''d'', P_ProposalType = ''x'', P_CreatorID = 1,
      P_Status = ProposalStatusPending, P_ForVotes = 0, P_AgainstVotes = 0, P_ExecutedAt = None,
      P_CreatedAt = 100, P_UpdatedAt = 100, P_WeightSnapshot = [(1, 5), (2, 3)], P_ForWeight = 0,
      P_AgainstWeight = 0, P_SnapshotAt = Some 100, P_SnapshotTotalWeight = 8,
      P_ExecutableAt = None, P_CancelledAt = None, P_CancellationVotes = 0\<rparr>"
  by code_simp

text \<open>
  In every state the in-memory service can reach, whatever the order of the calls, the clock and
  the answers of the weight resolver and the executor, a stored proposal is consistent: its
  status agrees with its time stamps (executed only at or after \<^verbatim>\<open>executableAt\<close>, cancelled only
  before it) and with its tally (passed, executed and cancelled proposals carried the vote,
  rejected ones did not); its head counts are the numbers of stored votes, one per member;
  its weights are the sums of the snapshotted weights whenever the snapshot covers the
  voters; its cancellation count is the number of distinct members who asked for it.
\<close>

theorem governance_reachable_consistent:
  assumes "gov_step\<^sup>*\<^sup>* gov_init g" "map_of (G_proposals g) i = Some p"
  shows "proposal_ok p \<and> tally_ok p (votes_of g i) \<and> cancels_ok p (cancels_of g i)"
  using gov_reachable_ok [OF assms] gov_inv_entry [OF gov_reachable_inv [OF assms(1)], of i] assms(2) by simp

theorem governance_reachable_consistent_witness:
  "\<exists>p. map_of (G_proposals demo_voted) 77 = Some p \<and> P_ForWeight p = 5 \<and> P_AgainstWeight p = 3
     \<and> proposal_ok p \<and> tally_ok p (votes_of demo_voted 77) \<and> cancels_ok p (cancels_of demo_voted 77)"
proof -
  have "\<exists>p. map_of (G_proposals demo_voted) 77 = Some p \<and> P_ForWeight p = 5 \<and> P_AgainstWeight p = 3"
    unfolding Bex_def [symmetric] by (rule exI [of _ "the (map_of (G_proposals demo_voted) 77)"]) code_simp
  then show ?thesis using governance_reachable_consistent [OF demo_reachable(1)] by blast
qed

text \<open>
  The executor is called at most once for a proposal, and only for one that is stored as
  executed, carried its vote and had waited out its timelock. This holds although the
  executor may fail and although anybody may call \<^verbatim>\<open>ExecuteProposal\<close> any number of times.
\<close>

theorem executor_at_most_once:
  assumes "gov_step\<^sup>*\<^sup>* gov_init g"
  shows "distinct (map P_ID (G_actions g)) \<and>
    (\<forall>a \<in> set (G_actions g). map_of (G_proposals g) (P_ID a) = Some a \<and> passed a \<and>
       (\<exists>t. P_ExecutedAt a = Some t \<and> (\<forall>x. P_ExecutableAt a = Some x \<longrightarrow> x \<le> t)))"
proof -
  note inv = gov_reachable_actions [OF assms, unfolded action_inv_def]
  have "passed a \<and> (\<exists>t. P_ExecutedAt a = Some t \<and> (\<forall>x. P_ExecutableAt a = Some x \<longrightarrow> x \<le> t))"
    if "a \<in> set (G_actions g)" for a
  proof -
    have "map_of (G_proposals g) (P_ID a) = Some a" "P_Status a = ProposalStatusExecuted" using inv that by blast+
    with gov_reachable_ok [OF assms] have "status_ok ProposalStatusExecuted a" by metis
    then show ?thesis by (auto split: option.splits)
  qed
  with inv show ?thesis by blast
qed

theorem executor_at_most_once_witness:
  "\<exists>a t. G_actions demo_executed = [a] \<and> map_of (G_proposals demo_executed) (P_ID a) = Some a \<and> passed a
     \<and> P_ExecutedAt a = Some t \<and> (case P_ExecutableAt a of None \<Rightarrow> True | Some x \<Rightarrow> x \<le> t)"
proof -
  have "length (G_actions demo_executed) = 1" by code_simp
  then obtain a where a: "G_actions demo_executed = [a]" by (auto simp: length_Suc_conv)
  have "gov_step\<^sup>*\<^sup>* gov_init demo_executed"
    using demo_reachable by (meson r_into_rtranclp rtranclp_trans)
  from executor_at_most_once [OF this] a show ?thesis by (auto split: option.splits)
qed

text \<open>
  One vote per member and proposal, for ever: after a successful vote, and any calls in
  between, a second vote of the same member on the same proposal is refused and changes
  no proposal, vote or cancellation vote.
\<close>

theorem one_vote_per_member:
  assumes "VoteProposal env s pid uid b g = (Inr (), g')" "gov_step\<^sup>*\<^sup>* g' g''"
    and "gov_parseUUID env pid = Inr i" "gov_parseUUID env uid = Inr v"
    and "gov_parseUUID env' pid' = Inr i" "gov_parseUUID env' uid' = Inr v"
  shows "fst (VoteProposal env' s' pid' uid' b' g'')
      \<in> {Inl (Sentinel ErrAlreadyVoted), Inl (Errorf ''proposal is no longer active'')}
    \<and> same_view g'' (snd (VoteProposal env' s' pid' uid' b' g''))"
proof -
  have "map_of (G_proposals g'') i \<noteq> None \<and> map_of (votes_of g'' i) v \<noteq> None"
    using voted_star [OF assms(2)] VoteProposal_Inr [OF assms(1,3,4)] by auto
  then show ?thesis using VoteProposal_again [of g'' i v env' pid' uid' s' b'] assms(5,6) by blast
qed

theorem one_vote_per_member_witness:
  "fst (VoteProposal (demo_env 120) demo_service ''p'' ''m2'' True demo_passed)
      \<in> {Inl (Sentinel ErrAlreadyVoted), Inl (Errorf ''proposal is no longer active'')}
    \<and> same_view demo_passed (snd (VoteProposal (demo_env 120) demo_service ''p'' ''m2'' True demo_passed))"
proof (rule one_vote_per_member)
  show "VoteProposal (demo_env 110) demo_service ''p'' ''m2'' False
      (snd (VoteProposal (demo_env 105) demo_service ''p'' ''m1'' True demo_created)) = (Inr (), demo_voted)"
    unfolding demo_voted_def by (rule prod_eqI) (code_simp, simp)
  show "gov_step\<^sup>*\<^sup>* demo_voted demo_passed" using demo_reachable(2) by (rule r_into_rtranclp)
qed (simp_all add: gov_parseUUID_def demo_env_def)

text \<open>
  A vote of a member in the snapshot does not depend on the live weight resolver: whatever
  balances the service reports at the time of the vote, the outcome and the new tally are
  the same. Tokens moved after creation cannot change a vote.
\<close>

theorem snapshotted_vote_ignores_live_weight:
  assumes "gov_parseUUID env pid = Inr i" "gov_parseUUID env uid = Inr v"
    and "map_of (G_proposals g) i = Some p" "P_SnapshotAt p \<noteq> None" "v \<in> fst ` set (P_WeightSnapshot p)"
  shows "VoteProposal env s pid uid b g = VoteProposal env s' pid uid b g"
  using assms resolve_covered [of p v env s] resolve_covered [of p v env s'] by (simp add: VoteProposal_def)

theorem snapshotted_vote_ignores_live_weight_witness:
  "VoteProposal (demo_env 105) demo_service ''p'' ''m1'' True demo_created
   = VoteProposal (demo_env 105) (demo_service\<lparr>VotingWeight := (\<lambda>u. Inr 1000000)\<rparr>) ''p'' ''m1'' True demo_created"
  by (rule snapshotted_vote_ignores_live_weight [where v = 1, OF _ _ demo_created_proposal])
     (simp_all add: gov_parseUUID_def demo_env_def)

text \<open>
  The threshold is the configured share of the votes cast, rounded up, and a proposal is
  cancelled only when that many different members asked for it. The share says nothing
  against a single member when few voted: at the default of 33 percent one member cancels any
  proposal decided by up to three votes.
\<close>

theorem cancellation_needs_share:
  assumes "gov_step\<^sup>*\<^sup>* gov_init g" "cancelInMemory s i u t g = (Inr True, g')"
    and "1 \<le> CancelThresholdPct (timelock s)" "CancelThresholdPct (timelock s) \<le> 100"
  shows "\<exists>p. map_of (G_proposals g) i = Some p \<and> cancellable p t = None \<and> distinct (u # cancels_of g i)
     \<and> (P_ForVotes p + P_AgainstVotes p) * CancelThresholdPct (timelock s) \<le> 100 * int (length (u # cancels_of g i))
     \<and> (P_ForVotes p + P_AgainstVotes p \<le> 3 \<longrightarrow>
          CancellationThreshold (P_ForVotes p + P_AgainstVotes p) DefaultCancelThresholdPct = 1)"
proof -
  obtain p where p: "map_of (G_proposals g) i = Some p" "cancellable p t = None" "u \<notin> set (cancels_of g i)"
    and th: "CancellationThreshold (P_ForVotes p + P_AgainstVotes p) (CancelThresholdPct (timelock s))
       \<le> int (length (u # cancels_of g i))"
    using assms(2) by (rule cancelInMemory_True)
  let ?n = "P_ForVotes p + P_AgainstVotes p" and ?c = "CancelThresholdPct (timelock s)"
  have d: "distinct (u # cancels_of g i)"
    using gov_inv_entry [OF gov_reachable_inv [OF assms(1)], of i] p by (simp add: cancels_ok_def)
  have share: "?n * ?c \<le> 100 * int (length (u # cancels_of g i))"
  proof (cases "0 < ?n")
    case True
    then have "CancellationThreshold ?n ?c = \<lceil>(of_int (?n * ?c) / 100 :: rat)\<rceil>"
      using assms(3,4) by (rule CancellationThreshold_ceiling)
    then have "(of_int (?n * ?c) / 100 :: rat) \<le> of_int (int (length (u # cancels_of g i)))"
      using th by (metis ceiling_le_iff)
    then have "(of_int (?n * ?c) :: rat) \<le> of_int (100 * int (length (u # cancels_of g i)))" by simp
    then show ?thesis by (simp only: of_int_le_iff)
  next
    case False
    then have "?n * ?c \<le> 0" using assms(3) by (simp add: mult_nonpos_nonneg)
    then show ?thesis by simp
  qed
  have "CancellationThreshold ?n DefaultCancelThresholdPct = 1" if "?n \<le> 3"
  proof (cases "0 < ?n")
    case True
    with that consider "?n = 1" | "?n = 2" | "?n = 3" by linarith
    then show ?thesis
      by cases (simp_all add: CancellationThreshold_def DefaultCancelThresholdPct_def quo_def)
  qed (simp add: CancellationThreshold_def)
  with p d share show ?thesis by blast
qed

theorem cancellation_needs_share_witness:
  "\<exists>p. map_of (G_proposals demo_passed) 77 = Some p \<and> cancellable p 300 = None \<and> distinct (2 # cancels_of demo_passed 77)
     \<and> (P_ForVotes p + P_AgainstVotes p) * CancelThresholdPct (timelock demo_service) \<le> 100 * int (length (2 # cancels_of demo_passed 77))"
proof -
  have "cancelInMemory demo_service 77 2 300 demo_passed =
      (Inr True, snd (cancelInMemory demo_service 77 2 300 demo_passed))"
    by (rule prod_eqI) (code_simp, simp)
  moreover have "gov_step\<^sup>*\<^sup>* gov_init demo_passed"
    using demo_reachable(1,2) by (meson r_into_rtranclp rtranclp_trans)
  ultimately show ?thesis
    using cancellation_needs_share [of demo_passed demo_service 77 2 300] by (auto simp: demo_service_def)
qed

text \<open>
  A voting weight is the balance scaled by the tier factor while the product fits in
  \<^verbatim>\<open>int64\<close>; a large balance overflows the product, and the weight of a holder of
  \<open>5 \<cdot> 10^16\<close> units in the highest tier comes out negative.
\<close>

theorem ApplyTierFactor_scales:
  assumes "0 \<le> sint b" "TierWeightFactors tier = Some f" "in_int64 (sint b * sint f)"
  shows "sint (ApplyTierFactor b tier) = quo (sint b * sint f) 100
    \<and> sint (ApplyTierFactor 50000000000000000 ''Diamond'') < 0"
proof
  have "sint (b * f) = sint b * sint f" using sint_word_of_int64 [OF assms(3)] by simp
  moreover have "0 \<le> sint b * sint f"
    using assms(1,2) by (auto simp: TierWeightFactors_def split: if_splits)
  then have "0 \<le> quo (sint b * sint f) 100" "quo (sint b * sint f) 100 \<le> sint b * sint f"
    using zdiv_mono2 [of "sint b * sint f" 1 100] by (simp_all add: quo_def sgn_if)
  then have "in_int64 (quo (sint b * sint f) 100)" using assms(3) by (auto simp: in_int64_def)
  ultimately show "sint (ApplyTierFactor b tier) = quo (sint b * sint f) 100"
    using assms by (simp add: ApplyTierFactor_def sint_word_of_int64)
  show "sint (ApplyTierFactor 50000000000000000 ''Diamond'') < 0" by code_simp
qed

theorem ApplyTierFactor_scales_witness:
  "sint (ApplyTierFactor 1000 ''Gold'') = quo (sint (1000 :: int64) * sint (150 :: int64)) 100
    \<and> sint (ApplyTierFactor 50000000000000000 ''Diamond'') < 0"
  by (rule ApplyTierFactor_scales) (simp_all add: TierWeightFactors_def in_int64_def)

end
