(* ===== verification/GovernanceRepo.thy ===== *)
theory GovernanceRepo
  imports Governance
begin

text \<open>
  \<^verbatim>\<open>internal/domain/governance/repository_pg.go\<close> and the persisted paths of
  \<^verbatim>\<open>service.go\<close>. The state \<open>gov_db\<close> has one list of rows per table, with the constraints of the
  migrations (primary keys, \<^verbatim>\<open>weight >= 0\<close>, \<^verbatim>\<open>BIGINT\<close> range, the reference of a vote to its
  proposal); foreign keys into the users table and every other failure are faults of the
  statement. A row of \<open>D_proposals\<close> has an empty \<open>P_WeightSnapshot\<close> and no
  \<open>P_CancellationVotes\<close>: those fields are not columns. \<^verbatim>\<open>NOW()\<close> is the clock of the call.
\<close>

section \<open>Tables and statements\<close>

record vote_row =
  V_ProposalID :: uuid
  V_VoterID :: uuid
  V_Vote :: bool
  V_Weight :: int64
  V_CreatedAt :: time

record gov_db =
  D_proposals :: "proposal list"
  D_weights :: "(uuid \<times> uuid \<times> int64) list"
  D_votes :: "vote_row list"
  D_cancels :: "(uuid \<times> uuid) list"
  D_actions :: "proposal list"

datatype gov_stmt =
    Q_InsertProposal proposal
  | Q_InsertWeight uuid uuid int64
  | Q_SelectWeights uuid
  | Q_SelectProposal uuid
  | Q_CountProposals
  | Q_ListProposals int64 int64
  | Q_MarkPassed uuid time
  | Q_MarkCancelled uuid time
  | Q_RecordCancellation uuid uuid
  | Q_CountCancellations uuid
  | Q_HasVoted uuid uuid
  | Q_BeginVote uuid uuid
  | Q_InsertVote uuid uuid bool int64
  | Q_CountVote uuid bool int64
  | Q_CommitVote uuid uuid
  | Q_UpdateStatus uuid ProposalStatus "time option"
  | Q_RowsAffected gov_stmt

type_synonym genv = "gov_stmt env"

section \<open>Repository\<close>

definition find_proposal :: "gov_db \<Rightarrow> uuid \<Rightarrow> proposal option" where
  "find_proposal d i = List.find (\<lambda>p. P_ID p = i) (D_proposals d)"

definition insertWeight :: "genv \<Rightarrow> uuid \<Rightarrow> uuid \<Rightarrow> int64 \<Rightarrow> gov_db \<Rightarrow> unit result \<times> gov_db" where
  "insertWeight env proposalID voterID weight d =
     wrap_call ''inserting governance weight snapshot''
       (exec_stmt env (Q_InsertWeight proposalID voterID weight)
          (\<lambda>d. if sint weight < 0 then Some (Driver ''check constraint'') else None)
          (\<lambda>d. d\<lparr>D_weights := filter (\<lambda>(i, v, w). \<not> (i = proposalID \<and> v = voterID)) (D_weights d)
                  @ [(proposalID, voterID, weight)]\<rparr>) d)"

fun insert_weights :: "genv \<Rightarrow> uuid \<Rightarrow> (uuid \<times> int64) list \<Rightarrow> gov_db \<Rightarrow> unit result \<times> gov_db" where
  "insert_weights env i [] d = (Inr (), d)"
| "insert_weights env i ((voterID, weight) # ws) d =
     perform (insertWeight env i voterID weight d) (\<lambda>_ d'. insert_weights env i ws d')"

definition row_of :: "proposal \<Rightarrow> proposal" where
  "row_of p = p\<lparr>P_WeightSnapshot := [], P_CancellationVotes := 0\<rparr>"

definition Repo_CreateProposal :: "genv \<Rightarrow> ((uuid \<times> int64) list \<Rightarrow> (uuid \<times> int64) list) \<Rightarrow> proposal
    \<Rightarrow> gov_db \<Rightarrow> unit result \<times> gov_db" where
  "Repo_CreateProposal env range_order p d =
     perform (wrap_call ''inserting governance proposal''
       (exec_stmt env (Q_InsertProposal p)
          (\<lambda>d. if find_proposal d (P_ID p) \<noteq> None then Some (Driver ''duplicate key'') else None)
          (\<lambda>d. d\<lparr>D_proposals := D_proposals d @ [row_of p]\<rparr>) d)) (\<lambda>_ d'.
     insert_weights env (P_ID p) (range_order (P_WeightSnapshot p)) d')"

text \<open>The map built from the rows of a proposal's snapshot.\<close>

definition snapshot_rows :: "gov_db \<Rightarrow> uuid \<Rightarrow> (uuid \<times> int64) list" where
  "snapshot_rows d i = foldl (\<lambda>m (j, v, w). AList.update v w m) [] (filter (\<lambda>(j, v, w). j = i) (D_weights d))"

definition loadWeightSnapshot :: "genv \<Rightarrow> proposal \<Rightarrow> gov_db \<Rightarrow> proposal result" where
  "loadWeightSnapshot env p d =
     (case wrap_err ''loading governance weight snapshot''
             (run_query env (Q_SelectWeights (P_ID p)) (snapshot_rows d (P_ID p))) of
        Inl e \<Rightarrow> Inl e
      | Inr snapshot \<Rightarrow>
          Inr (if length snapshot > 0 then p\<lparr>P_WeightSnapshot := snapshot\<rparr> else p))"

definition CountCancellationVotes :: "genv \<Rightarrow> uuid \<Rightarrow> gov_db \<Rightarrow> int result" where
  "CountCancellationVotes env i d =
     wrap_err ''counting governance cancellation votes''
       (run_query env (Q_CountCancellations i) (int (length (filter (\<lambda>(j, u). j = i) (D_cancels d)))))"

definition loadCancellationVotes :: "genv \<Rightarrow> proposal \<Rightarrow> gov_db \<Rightarrow> proposal" where
  "loadCancellationVotes env p d =
     (case CountCancellationVotes env (P_ID p) d of
        Inl e \<Rightarrow> p
      | Inr count \<Rightarrow> p\<lparr>P_CancellationVotes := count\<rparr>)"

definition Repo_GetProposal :: "genv \<Rightarrow> uuid \<Rightarrow> gov_db \<Rightarrow> proposal result" where
  "Repo_GetProposal env i d =
     (case (case run_query env (Q_SelectProposal i) (find_proposal d i) of
              Inl e \<Rightarrow> Inl e
            | Inr None \<Rightarrow> Inl (Sentinel Sql_ErrNoRows)
            | Inr (Some p) \<Rightarrow> Inr p) of
        Inl e \<Rightarrow> if errors_Is e Sql_ErrNoRows then Inl (Sentinel ErrProposalNotFound)
                else Inl (Wrap ''getting governance proposal'' e)
      | Inr p \<Rightarrow>
          (case loadWeightSnapshot env p d of
             Inl e \<Rightarrow> Inl e
           | Inr p' \<Rightarrow> Inr (loadCancellationVotes env p' d)))"

definition load_listed :: "genv \<Rightarrow> gov_db \<Rightarrow> proposal \<Rightarrow> proposal" where
  "load_listed env d p =
     loadCancellationVotes env (case loadWeightSnapshot env p d of Inl e \<Rightarrow> p | Inr p' \<Rightarrow> p') d"

definition Repo_ListProposals :: "genv \<Rightarrow> int64 \<Rightarrow> int64 \<Rightarrow> gov_db \<Rightarrow> (proposal list \<times> nat) result" where
  "Repo_ListProposals env page0 limit0 d =
     (let page = (if sint page0 \<le> 0 then 1 else page0);
          limit1 = (if sint limit0 \<le> 0 then 10 else limit0);
          limit = (if sint limit1 > 100 then 100 else limit1);
          offset = (page - 1) * limit in
      case wrap_err ''counting governance proposals'' (run_query env Q_CountProposals (length (D_proposals d))) of
        Inl e \<Rightarrow> Inl e
      | Inr n \<Rightarrow>
          (case wrap_err ''listing governance proposals''
             (case run_query env (Q_ListProposals limit offset) () of
                Inl e \<Rightarrow> Inl e
              | Inr u \<Rightarrow>
                  if sint offset < 0 then Inl (Driver ''OFFSET must not be negative'')
                  else Inr (take (nat (sint limit)) (drop (nat (sint offset))
                         (sort_key (\<lambda>p. - P_CreatedAt p) (D_proposals d))))) of
             Inl e \<Rightarrow> Inl e
           | Inr proposals \<Rightarrow> Inr (map (load_listed env d) proposals, n)))"

text \<open>
  The conditional updates: the error of \<^verbatim>\<open>RowsAffected\<close> comes after the update took effect.
\<close>

definition conditional_update :: "genv \<Rightarrow> gov_stmt \<Rightarrow> string \<Rightarrow> (proposal \<Rightarrow> bool) \<Rightarrow> (proposal \<Rightarrow> proposal)
    \<Rightarrow> gov_db \<Rightarrow> unit result \<times> gov_db" where
  "conditional_update env q msg sel f d =
     perform (wrap_call msg
       (exec_stmt env q no_check (\<lambda>d. d\<lparr>D_proposals := update_where sel f (D_proposals d)\<rparr>) d)) (\<lambda>_ d'.
     attempt (run_query env (Q_RowsAffected q) (rows_affected sel (D_proposals d))) d' (\<lambda>rows.
     guard (rows = 0) (Sentinel App_ErrConflict) d' (Inr (), d')))"

definition MarkPassed :: "genv \<Rightarrow> uuid \<Rightarrow> time \<Rightarrow> gov_db \<Rightarrow> unit result \<times> gov_db" where
  "MarkPassed env i executableAt d =
     conditional_update env (Q_MarkPassed i executableAt) ''marking governance proposal passed''
       (\<lambda>p. P_ID p = i \<and> P_Status p = ProposalStatusPending)
       (\<lambda>p. p\<lparr>P_Status := ProposalStatusPassed, P_ExecutableAt := Some executableAt, P_UpdatedAt := now env\<rparr>) d"

definition MarkCancelled :: "genv \<Rightarrow> uuid \<Rightarrow> time \<Rightarrow> gov_db \<Rightarrow> unit result \<times> gov_db" where
  "MarkCancelled env i cancelledAt d =
     conditional_update env (Q_MarkCancelled i cancelledAt) ''cancelling governance proposal''
       (\<lambda>p. P_ID p = i \<and> P_Status p = ProposalStatusPassed)
       (\<lambda>p. p\<lparr>P_Status := ProposalStatusCancelled, P_CancelledAt := Some cancelledAt, P_UpdatedAt := now env\<rparr>) d"

definition RecordCancellationVote :: "genv \<Rightarrow> uuid \<Rightarrow> uuid \<Rightarrow> gov_db \<Rightarrow> bool result \<times> gov_db" where
  "RecordCancellationVote env i u d =
     perform (wrap_call ''recording governance cancellation vote''
       (exec_stmt env (Q_RecordCancellation i u)
          (\<lambda>d. if find_proposal d i = None then Some (Driver ''foreign key'') else None)
          (\<lambda>d. if (i, u) \<in> set (D_cancels d) then d else d\<lparr>D_cancels := D_cancels d @ [(i, u)]\<rparr>) d)) (\<lambda>_ d'.
     attempt (run_query env (Q_RowsAffected (Q_RecordCancellation i u))
       (if (i, u) \<in> set (D_cancels d) then 0 else 1 :: int)) d' (\<lambda>rows. (Inr (rows > 0), d')))"

definition HasVoted :: "genv \<Rightarrow> uuid \<Rightarrow> uuid \<Rightarrow> gov_db \<Rightarrow> bool result" where
  "HasVoted env i v d =
     wrap_err ''checking governance vote existence''
       (run_query env (Q_HasVoted i v) (\<exists>r \<in> set (D_votes d). V_ProposalID r = i \<and> V_VoterID r = v))"

definition count_row :: "bool \<Rightarrow> int64 \<Rightarrow> time \<Rightarrow> uuid \<Rightarrow> gov_db \<Rightarrow> gov_db" where
  "count_row vote weight t i d = d\<lparr>D_proposals := update_where (\<lambda>p. P_ID p = i) (count_vote vote weight t) (D_proposals d)\<rparr>"

definition bigint_overflow :: "bool \<Rightarrow> int64 \<Rightarrow> uuid \<Rightarrow> gov_db \<Rightarrow> bool" where
  "bigint_overflow vote weight i d =
     (\<exists>p \<in> set (D_proposals d). P_ID p = i \<and>
        \<not> in_int64 (sint (if vote then P_ForWeight p else P_AgainstWeight p) + sint weight))"

definition RecordVoteWeighted :: "genv \<Rightarrow> uuid \<Rightarrow> uuid \<Rightarrow> bool \<Rightarrow> int64 \<Rightarrow> gov_db \<Rightarrow> unit result \<times> gov_db" where
  "RecordVoteWeighted env i v vote weight d =
     attempt (HasVoted env i v d) d (\<lambda>voted.
     guard voted (Sentinel ErrAlreadyVoted) d
     (attempt (wrap_err ''beginning vote transaction'' (run_query env (Q_BeginVote i v) ())) d (\<lambda>_.
      transaction env (Q_CommitVote i v) (\<lambda>d.
        perform (wrap_call ''recording governance vote''
          (exec_stmt env (Q_InsertVote i v vote weight)
             (\<lambda>d. if find_proposal d i = None then Some (Driver ''foreign key'')
                  else if \<exists>r \<in> set (D_votes d). V_ProposalID r = i \<and> V_VoterID r = v
                  then Some (Driver ''duplicate key'') else None)
             (\<lambda>d. d\<lparr>D_votes := D_votes d @ [\<lparr>V_ProposalID = i, V_VoterID = v, V_Vote = vote,
                       V_Weight = weight, V_CreatedAt = now env\<rparr>]\<rparr>) d)) (\<lambda>_ d1.
        wrap_call ''updating proposal vote count''
          (exec_stmt env (Q_CountVote i vote weight)
             (\<lambda>d. if bigint_overflow vote weight i d then Some (Driver ''bigint out of range'') else None)
             (count_row vote weight (now env) i) d1))) d)))"

definition UpdateStatus :: "genv \<Rightarrow> uuid \<Rightarrow> ProposalStatus \<Rightarrow> time option \<Rightarrow> gov_db \<Rightarrow> unit result \<times> gov_db" where
  "UpdateStatus env i st executedAt d =
     exec_stmt env (Q_UpdateStatus i st executedAt) no_check
       (\<lambda>d. d\<lparr>D_proposals := update_where (\<lambda>p. P_ID p = i)
          (\<lambda>p. case executedAt of
                 Some t \<Rightarrow> p\<lparr>P_Status := st, P_ExecutedAt := Some t, P_UpdatedAt := now env\<rparr>
               | None \<Rightarrow> p\<lparr>P_Status := st, P_UpdatedAt := now env\<rparr>) (D_proposals d)\<rparr>) d"

section \<open>The service over the repository\<close>

definition CreateProposal_repo :: "genv \<Rightarrow> ((uuid \<times> int64) list \<Rightarrow> (uuid \<times> int64) list) \<Rightarrow> gov_service
    \<Rightarrow> CreateProposalInput \<Rightarrow> gov_db \<Rightarrow> proposal result \<times> gov_db" where
  "CreateProposal_repo env range_order s input d =
     attempt (gov_parseUUID env (I_CreatorID input)) d (\<lambda>creatorID.
     guard (I_Title input = [] \<or> I_Description input = [] \<or> I_ProposalType input = [])
       (Errorf ''title, description, and proposal type are required'') d
     (let p = new_proposal env s input creatorID in
      perform (wrap_call ''persisting proposal'' (Repo_CreateProposal env range_order p d)) (\<lambda>_ d'. (Inr p, d'))))"

definition GetProposal_repo :: "genv \<Rightarrow> string \<Rightarrow> gov_db \<Rightarrow> proposal result" where
  "GetProposal_repo env i d =
     (case gov_parseUUID env i of Inl e \<Rightarrow> Inl e | Inr proposalID \<Rightarrow> Repo_GetProposal env proposalID d)"

definition VoteProposal_repo :: "genv \<Rightarrow> gov_service \<Rightarrow> string \<Rightarrow> string \<Rightarrow> bool \<Rightarrow> gov_db \<Rightarrow> unit result \<times> gov_db" where
  "VoteProposal_repo env s proposalID userID vote d =
     attempt (gov_parseUUID env proposalID) d (\<lambda>proposalUUID.
     attempt (gov_parseUUID env userID) d (\<lambda>voterID.
     attempt (Repo_GetProposal env proposalUUID d) d (\<lambda>p.
     guard (P_Status p \<noteq> ProposalStatusPending) (Errorf ''proposal is no longer active'') d
     (RecordVoteWeighted env proposalUUID voterID vote (resolveVoteWeight env s p voterID) d))))"

definition runAndMarkExecuted :: "genv \<Rightarrow> gov_service \<Rightarrow> proposal \<Rightarrow> time \<Rightarrow> gov_db \<Rightarrow> unit result \<times> gov_db" where
  "runAndMarkExecuted env s p t d =
     (case executor s of
        None \<Rightarrow> UpdateStatus env (P_ID p) ProposalStatusExecuted (Some t) d
      | Some exec \<Rightarrow>
          let d' = d\<lparr>D_actions := D_actions d @ [p]\<rparr> in
          (case exec p of
             Some e \<Rightarrow> (Inl (Wrap ''executing proposal action'' e), d')
           | None \<Rightarrow> UpdateStatus env (P_ID p) ProposalStatusExecuted (Some t) d'))"

definition executeWithRepo :: "genv \<Rightarrow> gov_service \<Rightarrow> uuid \<Rightarrow> time \<Rightarrow> gov_db \<Rightarrow> unit result \<times> gov_db" where
  "executeWithRepo env s proposalID t d =
     attempt (Repo_GetProposal env proposalID d) d (\<lambda>p.
     (case P_Status p of
        ProposalStatusPending \<Rightarrow>
          if \<not> passed p then UpdateStatus env proposalID ProposalStatusRejected None d
          else if Delay (timelock s) \<le> 0 then runAndMarkExecuted env s p t d
          else MarkPassed env proposalID (t + Delay (timelock s)) d
      | ProposalStatusPassed \<Rightarrow>
          if (case P_ExecutableAt p of None \<Rightarrow> False | Some x \<Rightarrow> t < x)
          then (Inl (Sentinel ErrTimelockActive), d)
          else runAndMarkExecuted env s p t d
      | _ \<Rightarrow> (Inl (Errorf ''proposal has already been processed''), d)))"

definition ExecuteProposal_repo :: "genv \<Rightarrow> gov_service \<Rightarrow> string \<Rightarrow> gov_db \<Rightarrow> unit result \<times> gov_db" where
  "ExecuteProposal_repo env s i d =
     attempt (gov_parseUUID env i) d (\<lambda>proposalID. executeWithRepo env s proposalID (now env) d)"

definition cancelWithRepo :: "genv \<Rightarrow> gov_service \<Rightarrow> uuid \<Rightarrow> uuid \<Rightarrow> time \<Rightarrow> gov_db \<Rightarrow> bool result \<times> gov_db" where
  "cancelWithRepo env s pid uid t d =
     attempt (Repo_GetProposal env pid d) d (\<lambda>p.
     (case cancellable p t of
        Some e \<Rightarrow> (Inl e, d)
      | None \<Rightarrow>
          perform (RecordCancellationVote env pid uid d) (\<lambda>recorded d1.
          guard (\<not> recorded) (Sentinel ErrAlreadyCancelledVote) d1
          (attempt (CountCancellationVotes env pid d1) d1 (\<lambda>count.
             if count < CancellationThreshold (P_ForVotes p + P_AgainstVotes p) (CancelThresholdPct (timelock s))
             then (Inr False, d1)
             else (case MarkCancelled env pid t d1 of
                     (Inl e, d2) \<Rightarrow>
                       (if errors_Is e App_ErrConflict then Inl (Sentinel ErrNotCancellable) else Inl e, d2)
                   | (Inr u, d2) \<Rightarrow> (Inr True, d2)))))))"

definition CancelProposal_repo :: "genv \<Rightarrow> gov_service \<Rightarrow> string \<Rightarrow> string \<Rightarrow> gov_db \<Rightarrow> bool result \<times> gov_db" where
  "CancelProposal_repo env s proposalID userID d =
     attempt (gov_parseUUID env proposalID) d (\<lambda>pid.
     attempt (gov_parseUUID env userID) d (\<lambda>uid. cancelWithRepo env s pid uid (now env) d))"

section \<open>What the store shows\<close>

definition with_snapshot :: "gov_db \<Rightarrow> proposal \<Rightarrow> proposal" where
  "with_snapshot d p = (if length (snapshot_rows d (P_ID p)) > 0
     then p\<lparr>P_WeightSnapshot := snapshot_rows d (P_ID p)\<rparr> else p)"

definition cancel_count :: "gov_db \<Rightarrow> uuid \<Rightarrow> int" where
  "cancel_count d i = int (length (filter (\<lambda>(j, u). j = i) (D_cancels d)))"

definition loaded :: "gov_db \<Rightarrow> proposal \<Rightarrow> proposal" where
  "loaded d p = (with_snapshot d p)\<lparr>P_CancellationVotes := cancel_count d (P_ID p)\<rparr>"

definition stored :: "gov_db \<Rightarrow> uuid \<Rightarrow> proposal option" where
  "stored d i = map_option (loaded d) (find_proposal d i)"

inductive gov_db_step :: "gov_db \<Rightarrow> gov_db \<Rightarrow> bool" where
  db_create: "gov_db_step d (snd (CreateProposal_repo env range_order s input d))"
| db_vote: "gov_db_step d (snd (VoteProposal_repo env s proposalID userID vote d))"
| db_execute: "gov_db_step d (snd (ExecuteProposal_repo env s i d))"
| db_cancel: "gov_db_step d (snd (CancelProposal_repo env s proposalID userID d))"

lemma loaded_simps [simp]:
  "P_ID (loaded d p) = P_ID p" "P_Status (loaded d p) = P_Status p" "P_SnapshotAt (loaded d p) = P_SnapshotAt p"
  "P_ForVotes (loaded d p) = P_ForVotes p" "P_AgainstVotes (loaded d p) = P_AgainstVotes p"
  "P_ForWeight (loaded d p) = P_ForWeight p" "P_AgainstWeight (loaded d p) = P_AgainstWeight p"
  "P_ExecutableAt (loaded d p) = P_ExecutableAt p" "P_ExecutedAt (loaded d p) = P_ExecutedAt p"
  "P_CancelledAt (loaded d p) = P_CancelledAt p"
  by (simp_all add: loaded_def with_snapshot_def)

lemma find_proposal_ID: "find_proposal d i = Some p \<Longrightarrow> P_ID p = i"
  by (auto simp: find_proposal_def dest: find_Some_D)

lemma stored_Some: "stored d i = Some q \<longleftrightarrow> (\<exists>p. find_proposal d i = Some p \<and> P_ID p = i \<and> q = loaded d p)"
  by (auto simp: stored_def dest: find_proposal_ID)

lemma stored_ID: "stored d i = Some q \<Longrightarrow> P_ID q = i"
  by (auto simp: stored_Some)

lemma Repo_GetProposal_Inr:
  assumes "Repo_GetProposal env i d = Inr p"
  shows "\<exists>q. stored d i = Some q \<and> (\<exists>n. p = q\<lparr>P_CancellationVotes := n\<rparr>) \<and> P_ID p = i"
proof -
  obtain r where r: "find_proposal d i = Some r"
    and p: "p = loadCancellationVotes env (with_snapshot d r) d"
    using assms by (auto simp: Repo_GetProposal_def loadWeightSnapshot_def with_snapshot_def run_query_def
        split: sum.splits option.splits if_splits)
  obtain n where n: "p = (loaded d r)\<lparr>P_CancellationVotes := n\<rparr>"
  proof (cases "CountCancellationVotes env (P_ID (with_snapshot d r)) d")
    case (Inl e)
    then have "p = (loaded d r)\<lparr>P_CancellationVotes := P_CancellationVotes (with_snapshot d r)\<rparr>"
      by (simp add: p loadCancellationVotes_def loaded_def)
    then show ?thesis by (rule that)
  next
    case (Inr n)
    then have "p = (loaded d r)\<lparr>P_CancellationVotes := n\<rparr>"
      by (simp add: p loadCancellationVotes_def loaded_def)
    then show ?thesis by (rule that)
  qed
  moreover have "stored d i = Some (loaded d r)" by (simp add: stored_def r)
  moreover have "P_ID p = i" by (simp add: n find_proposal_ID [OF r])
  ultimately show ?thesis by blast
qed

lemma snapshot_rows_frame [simp]:
  "snapshot_rows (d\<lparr>D_proposals := ps\<rparr>) = snapshot_rows d" "snapshot_rows (d\<lparr>D_votes := vs\<rparr>) = snapshot_rows d"
  "snapshot_rows (d\<lparr>D_cancels := cs\<rparr>) = snapshot_rows d" "snapshot_rows (d\<lparr>D_actions := l\<rparr>) = snapshot_rows d"
  by (rule ext; simp add: snapshot_rows_def)+

lemma cancel_count_frame [simp]:
  "cancel_count (d\<lparr>D_proposals := ps\<rparr>) = cancel_count d" "cancel_count (d\<lparr>D_votes := vs\<rparr>) = cancel_count d"
  "cancel_count (d\<lparr>D_weights := ws\<rparr>) = cancel_count d" "cancel_count (d\<lparr>D_actions := l\<rparr>) = cancel_count d"
  by (rule ext; simp add: cancel_count_def)+

lemma loaded_frame [simp]:
  "loaded (d\<lparr>D_proposals := ps\<rparr>) = loaded d" "loaded (d\<lparr>D_votes := vs\<rparr>) = loaded d"
  "loaded (d\<lparr>D_actions := l\<rparr>) = loaded d"
  by (rule ext; simp add: loaded_def with_snapshot_def)+

lemma stored_frame [simp]:
  "stored (d\<lparr>D_votes := vs\<rparr>) = stored d" "stored (d\<lparr>D_actions := l\<rparr>) = stored d"
  by (rule ext; simp add: stored_def find_proposal_def)+

text \<open>An update of the columns of one proposal is an update of what is shown.\<close>

definition column_update :: "(proposal \<Rightarrow> proposal) \<Rightarrow> bool" where
  "column_update f \<longleftrightarrow> (\<forall>p s n. P_ID (f p) = P_ID p \<and> f (p\<lparr>P_WeightSnapshot := s\<rparr>) = (f p)\<lparr>P_WeightSnapshot := s\<rparr>
     \<and> f (p\<lparr>P_CancellationVotes := n\<rparr>) = (f p)\<lparr>P_CancellationVotes := n\<rparr>)"

lemma column_updateD:
  "column_update f \<Longrightarrow> P_ID (f p) = P_ID p"
  "column_update f \<Longrightarrow> f (p\<lparr>P_WeightSnapshot := s\<rparr>) = (f p)\<lparr>P_WeightSnapshot := s\<rparr>"
  "column_update f \<Longrightarrow> f (p\<lparr>P_CancellationVotes := n\<rparr>) = (f p)\<lparr>P_CancellationVotes := n\<rparr>"
  unfolding column_update_def by blast+

lemma loaded_column: "column_update f \<Longrightarrow> loaded d (f p) = f (loaded d p)"
  by (simp add: loaded_def with_snapshot_def column_updateD)

lemma stored_column_update:
  assumes "column_update f" "\<And>p. sel (loaded d p) = sel p"
  shows "stored (d\<lparr>D_proposals := update_where sel f (D_proposals d)\<rparr>) i =
    map_option (\<lambda>p. if sel p then f p else p) (stored d i)"
proof -
  have "find_proposal (d\<lparr>D_proposals := update_where sel f (D_proposals d)\<rparr>) i =
      map_option (\<lambda>p. if sel p then f p else p) (find_proposal d i)"
    using column_updateD(1) [OF assms(1)] by (simp add: find_proposal_def find_update_where_key)
  then show ?thesis using assms by (cases "find_proposal d i") (simp_all add: stored_def loaded_column)
qed

lemma column_updates [simp]:
  "column_update (count_vote v w t)"
  "column_update (\<lambda>p. p\<lparr>P_Status := st, P_ExecutableAt := x, P_UpdatedAt := t\<rparr>)"
  "column_update (\<lambda>p. p\<lparr>P_Status := st, P_CancelledAt := x, P_UpdatedAt := t\<rparr>)"
  "column_update (\<lambda>p. p\<lparr>P_Status := st, P_ExecutedAt := x, P_UpdatedAt := t\<rparr>)"
  "column_update (\<lambda>p. p\<lparr>P_Status := st, P_UpdatedAt := t\<rparr>)"
  by (simp_all add: column_update_def count_vote_def)

section \<open>Every call moves the proposals by the specification\<close>

definition keeps :: "gov_db \<Rightarrow> gov_db \<Rightarrow> bool" where
  "keeps d d' \<longleftrightarrow> (\<forall>i. (case stored d i of
      Some p \<Rightarrow> (\<exists>p'. stored d' i = Some p' \<and> evolves\<^sup>*\<^sup>* p p')
    | None \<Rightarrow> (case stored d' i of Some p \<Rightarrow> fresh_proposal p | None \<Rightarrow> True)))"

lemma keeps_refl [simp]: "keeps d d"
  by (auto simp: keeps_def split: option.splits)

lemma keeps_stored: "stored d' = stored d \<Longrightarrow> keeps d d'"
  by (auto simp: keeps_def split: option.splits)

lemma keeps_local:
  assumes "stored d i = Some p" "stored d' = (stored d)(i \<mapsto> p')" "evolves\<^sup>*\<^sup>* p p'"
  shows "keeps d d'"
  unfolding keeps_def using assms by (auto split: option.splits)

lemma stored_column_at:
  assumes "column_update f" "stored d i = Some p" "sel p" "\<And>q. sel (loaded d q) = sel q" "\<And>q. sel q \<Longrightarrow> P_ID q = i"
  shows "stored (d\<lparr>D_proposals := update_where sel f (D_proposals d)\<rparr>) = (stored d)(i \<mapsto> f p)"
proof
  fix j
  note upd = stored_column_update [of f sel d j, OF assms(1,4)]
  show "stored (d\<lparr>D_proposals := update_where sel f (D_proposals d)\<rparr>) j = ((stored d)(i \<mapsto> f p)) j"
  proof (cases "j = i")
    case True
    then show ?thesis unfolding upd using assms(2,3) by simp
  next
    case False
    have "\<not> sel q" if "stored d j = Some q" for q
    proof
      assume "sel q"
      then have "P_ID q = i" by (rule assms(5))
      moreover have "P_ID q = j" using that by (auto simp: stored_Some)
      ultimately show False using False by simp
    qed
    then show ?thesis unfolding upd using False by (cases "stored d j") simp_all
  qed
qed

lemma keeps_column:
  assumes "column_update f" "stored d i = Some p" "sel p" "\<And>q. sel (loaded d q) = sel q" "\<And>q. sel q \<Longrightarrow> P_ID q = i"
    "evolves\<^sup>*\<^sup>* p (f p)"
  shows "keeps d (d\<lparr>D_proposals := update_where sel f (D_proposals d)\<rparr>)"
  by (rule keeps_local [OF assms(2) stored_column_at [of f d i p sel, OF assms(1-5)] assms(6)])

lemma UpdateStatus_keeps:
  assumes "stored d i = Some p" "stored d0 = stored d"
    and "evolves\<^sup>*\<^sup>* p (case x of Some t \<Rightarrow> p\<lparr>P_Status := st, P_ExecutedAt := Some t, P_UpdatedAt := now env\<rparr>
               | None \<Rightarrow> p\<lparr>P_Status := st, P_UpdatedAt := now env\<rparr>)"
  shows "keeps d (snd (UpdateStatus env i st x d0))"
proof -
  have p: "stored d0 i = Some p" "P_ID p = i" using assms(1,2) by (auto simp: stored_Some)
  have "keeps d0 (snd (UpdateStatus env i st x d0))"
    unfolding UpdateStatus_def
    by (rule exec_stmt_frame; (rule keeps_column [OF _ p(1)])?) (use p assms(3) in \<open>simp_all split: option.splits\<close>)
  then show ?thesis using assms(2) by (simp add: keeps_def)
qed

lemma conditional_update_keeps:
  assumes "column_update f" "stored d i = Some p" "sel p" "\<And>q. sel (loaded d q) = sel q" "\<And>q. sel q \<Longrightarrow> P_ID q = i"
    "evolves\<^sup>*\<^sup>* p (f p)"
  shows "keeps d (snd (conditional_update env q msg sel f d))"
  using keeps_column [of f d i p sel, OF assms] unfolding conditional_update_def
  by (auto intro!: perform_frame [where P = "keeps d"] attempt_frame [where P = "keeps d"]
      guard_frame [where P = "keeps d"] exec_stmt_frame [where P = "keeps d"])

lemma keeps_trans:
  assumes "keeps d d1" "keeps d1 d2" "\<And>i. stored d i = None \<Longrightarrow> stored d1 i = None"
  shows "keeps d d2"
  unfolding keeps_def
proof
  fix i
  show "case stored d i of Some p \<Rightarrow> (\<exists>p'. stored d2 i = Some p' \<and> evolves\<^sup>*\<^sup>* p p')
    | None \<Rightarrow> (case stored d2 i of Some p \<Rightarrow> fresh_proposal p | None \<Rightarrow> True)"
  proof (cases "stored d i")
    case None
    with assms(2) [unfolded keeps_def] assms(3) [OF None] show ?thesis by (auto dest: spec [of _ i])
  next
    case (Some p)
    with assms(1) [unfolded keeps_def, rule_format, of i] obtain p1
      where "stored d1 i = Some p1" "evolves\<^sup>*\<^sup>* p p1" by auto
    moreover with assms(2) [unfolded keeps_def, rule_format, of i] obtain p2
      where "stored d2 i = Some p2" "evolves\<^sup>*\<^sup>* p1 p2" by auto
    ultimately show ?thesis using Some by (auto intro: rtranclp_trans)
  qed
qed

text \<open>Writing the snapshot of a proposal touches no other table and no other snapshot.\<close>

definition only_weights_of :: "uuid \<Rightarrow> gov_db \<Rightarrow> gov_db \<Rightarrow> bool" where
  "only_weights_of i d d' \<longleftrightarrow> D_proposals d' = D_proposals d \<and> D_cancels d' = D_cancels d
     \<and> D_votes d' = D_votes d \<and> D_actions d' = D_actions d
     \<and> (\<forall>j. j \<noteq> i \<longrightarrow> filter (\<lambda>(k, v, w). k = j) (D_weights d') = filter (\<lambda>(k, v, w). k = j) (D_weights d))"

lemma insertWeight_only: "only_weights_of i d (snd (insertWeight env i v w d))"
  unfolding insertWeight_def snd_wrap_call
  by (rule exec_stmt_frame [where P = "only_weights_of i d"])
     (auto simp: only_weights_of_def filter_filter intro!: filter_cong split: prod.splits)

lemma only_weights_of_trans: "only_weights_of i d d1 \<Longrightarrow> only_weights_of i d1 d2 \<Longrightarrow> only_weights_of i d d2"
  by (simp add: only_weights_of_def)

lemma insert_weights_only: "only_weights_of i d (snd (insert_weights env i ws d))"
proof (induction env i ws d rule: insert_weights.induct)
  case (2 env i v w ws d)
  note one = insertWeight_only [of i d env v w]
  show ?case
  proof (cases "insertWeight env i v w d")
    case (Pair r d1)
    then show ?thesis using one only_weights_of_trans [OF _ "2.IH"]
      by (cases r) auto
  qed
qed (simp add: only_weights_of_def)

lemma only_weights_of_stored:
  assumes "only_weights_of i d d'" "j \<noteq> i"
  shows "stored d' j = stored d j"
proof -
  have "snapshot_rows d' j = snapshot_rows d j" "cancel_count d' j = cancel_count d j"
    using assms by (simp_all add: only_weights_of_def snapshot_rows_def cancel_count_def)
  moreover have "find_proposal d' j = find_proposal d j"
    using assms by (simp add: only_weights_of_def find_proposal_def)
  ultimately show ?thesis
    by (cases "find_proposal d j") (auto simp: stored_def loaded_def with_snapshot_def dest: find_proposal_ID)
qed

lemma fresh_loaded [simp]: "fresh_proposal (loaded d p) = fresh_proposal p"
  by (cases "P_Status p") (simp_all add: fresh_proposal_def)

lemma Repo_CreateProposal_keeps:
  assumes "fresh_proposal p"
  shows "keeps d (snd (Repo_CreateProposal env ord p d))"
proof (cases "find_proposal d (P_ID p) = None \<and> fault env (Q_InsertProposal p) = None")
  case False
  then show ?thesis by (auto simp: Repo_CreateProposal_def exec_stmt_def split: option.splits)
next
  case True
  define d1 where "d1 = d\<lparr>D_proposals := D_proposals d @ [row_of p]\<rparr>"
  define d2 where "d2 = snd (insert_weights env (P_ID p) (ord (P_WeightSnapshot p)) d1)"
  have eq: "snd (Repo_CreateProposal env ord p d) = d2"
    using True by (simp add: Repo_CreateProposal_def d1_def d2_def)
  have only: "only_weights_of (P_ID p) d1 d2" unfolding d2_def by (rule insert_weights_only)
  have new: "find_proposal d2 (P_ID p) = Some (row_of p)" "stored d (P_ID p) = None"
    using True only by (simp_all add: find_proposal_def only_weights_of_def d1_def find_append row_of_def stored_def)
  have old: "stored d2 j = stored d j" if "j \<noteq> P_ID p" for j
  proof -
    have "stored d2 j = stored d1 j" by (rule only_weights_of_stored [OF only that])
    also have "\<dots> = stored d j" using that
      by (simp add: d1_def stored_def find_proposal_def find_append row_of_def split: option.splits)
    finally show ?thesis .
  qed
  have "fresh_proposal (row_of p)"
    using assms by (cases "P_Status p") (simp_all add: fresh_proposal_def row_of_def)
  then have fresh: "stored d2 (P_ID p) = Some (loaded d2 (row_of p))" "fresh_proposal (loaded d2 (row_of p))"
    using new by (simp_all add: stored_def)
  show ?thesis unfolding eq keeps_def
  proof
    fix j
    show "case stored d j of Some q \<Rightarrow> (\<exists>p'. stored d2 j = Some p' \<and> evolves\<^sup>*\<^sup>* q p')
      | None \<Rightarrow> (case stored d2 j of Some q \<Rightarrow> fresh_proposal q | None \<Rightarrow> True)"
      using fresh new(2) old [of j] by (cases "j = P_ID p"; cases "stored d j") auto
  qed
qed

lemma CreateProposal_repo_keeps: "keeps d (snd (CreateProposal_repo env ord s input d))"
  unfolding CreateProposal_repo_def Let_def
  by (auto intro!: attempt_frame [where P = "keeps d"] guard_frame [where P = "keeps d"]
      perform_frame [where P = "keeps d"] Repo_CreateProposal_keeps new_proposal_fresh)

lemma passed_cancels [simp]: "passed (p\<lparr>P_CancellationVotes := n\<rparr>) = passed p"
  by (simp add: passed_def)

lemma RecordVoteWeighted_keeps:
  assumes "stored d i = Some p" "P_Status p = ProposalStatusPending"
  shows "keeps d (snd (RecordVoteWeighted env i v vote weight d))"
proof -
  have i: "P_ID p = i" using assms(1) by (auto simp: stored_Some)
  have vote: "keeps d (count_row vote weight t i (d\<lparr>D_votes := vs\<rparr>))" for t vs
  proof -
    have "keeps (d\<lparr>D_votes := vs\<rparr>) (count_row vote weight t i (d\<lparr>D_votes := vs\<rparr>))"
      unfolding count_row_def
      by (rule keeps_column [where i = i and p = p]) (use assms i ev_vote_star in simp_all)
    then show ?thesis by (simp add: keeps_def)
  qed
  show ?thesis unfolding RecordVoteWeighted_def
    by (auto intro!: attempt_frame [where P = "keeps d"] guard_frame [where P = "keeps d"]
        transaction_frame [where P = "keeps d"] vote simp: svc)
qed

lemma VoteProposal_repo_keeps: "keeps d (snd (VoteProposal_repo env s pid uid vote d))"
  unfolding VoteProposal_repo_def
  by (auto intro!: attempt_frame [where P = "keeps d"] guard_frame [where P = "keeps d"] RecordVoteWeighted_keeps
      dest!: Repo_GetProposal_Inr)

lemma runAndMarkExecuted_keeps:
  assumes "stored d (P_ID p) = Some q" "evolves q (mark_executed (now env) q)"
  shows "keeps d (snd (runAndMarkExecuted env s p (now env) d))"
proof -
  have "keeps d (snd (UpdateStatus env (P_ID p) ProposalStatusExecuted (Some (now env)) d0))"
    if "stored d0 = stored d" for d0
    using assms that by (intro UpdateStatus_keeps [where p = q]) (auto simp: mark_executed_def)
  moreover have "keeps d (d\<lparr>D_actions := l\<rparr>)" for l by (rule keeps_stored) simp
  ultimately show ?thesis by (auto simp: runAndMarkExecuted_def Let_def split: option.splits)
qed

lemma executeWithRepo_keeps: "keeps d (snd (executeWithRepo env s i (now env) d))"
  unfolding executeWithRepo_def
proof (rule attempt_frame [where P = "keeps d"])
  fix p assume "Repo_GetProposal env i d = Inr p"
  then obtain q n where q: "stored d i = Some q" "p = q\<lparr>P_CancellationVotes := n\<rparr>" and i: "P_ID p = i"
    using Repo_GetProposal_Inr by blast
  have qi: "P_ID q = i" using q i by simp
  have rej: "keeps d (snd (UpdateStatus env i ProposalStatusRejected None d))"
    if "P_Status q = ProposalStatusPending" "\<not> passed q"
    using that q ev_reject [of q "now env"] by (intro UpdateStatus_keeps [where p = q]) auto
  have pass: "keeps d (snd (MarkPassed env i (now env + dl) d))"
    if "P_Status q = ProposalStatusPending" "passed q" "0 < dl" for dl
    unfolding MarkPassed_def
    by (rule conditional_update_keeps [where i = i and p = q])
       (use that q qi ev_pass [of q dl "now env"] in auto)
  have run: "keeps d (snd (runAndMarkExecuted env s p (now env) d))"
    if "evolves q (mark_executed (now env) q)"
    using that q i by (intro runAndMarkExecuted_keeps) auto
  show "keeps d (snd (case P_Status p of
        ProposalStatusPending \<Rightarrow>
          if \<not> passed p then UpdateStatus env i ProposalStatusRejected None d
          else if Delay (timelock s) \<le> 0 then runAndMarkExecuted env s p (now env) d
          else MarkPassed env i (now env + Delay (timelock s)) d
      | ProposalStatusPassed \<Rightarrow>
          if (case P_ExecutableAt p of None \<Rightarrow> False | Some x \<Rightarrow> now env < x)
          then (Inl (Sentinel ErrTimelockActive), d)
          else runAndMarkExecuted env s p (now env) d
      | _ \<Rightarrow> (Inl (Errorf ''proposal has already been processed''), d)))"
    using q rej pass [of "Delay (timelock s)"] run ev_execute_now [of q "now env"] ev_execute [of q "now env"]
    by (cases "P_Status q") auto
qed simp

lemma cancel_row_stored:
  assumes "stored d i = Some q" "(i, u) \<notin> set (D_cancels d)"
  shows "stored (d\<lparr>D_cancels := D_cancels d @ [(i, u)]\<rparr>) =
    (stored d)(i \<mapsto> q\<lparr>P_CancellationVotes := cancel_count d i + 1\<rparr>)"
proof
  fix j
  let ?d = "d\<lparr>D_cancels := D_cancels d @ [(i, u)]\<rparr>"
  have "loaded ?d p = (if P_ID p = i then (loaded d p)\<lparr>P_CancellationVotes := cancel_count d i + 1\<rparr> else loaded d p)" for p
    by (simp add: loaded_def with_snapshot_def cancel_count_def)
  moreover have "find_proposal ?d j = find_proposal d j" by (simp add: find_proposal_def)
  ultimately show "stored ?d j = ((stored d)(i \<mapsto> q\<lparr>P_CancellationVotes := cancel_count d i + 1\<rparr>)) j"
    using assms(1) by (cases "find_proposal d j") (auto simp: stored_def dest: find_proposal_ID)
qed

lemma RecordCancellationVote_state:
  "RecordCancellationVote env i u d = (r, d1) \<Longrightarrow>
     d1 = d \<or> (i, u) \<notin> set (D_cancels d) \<and> d1 = d\<lparr>D_cancels := D_cancels d @ [(i, u)]\<rparr>"
  by (auto simp: RecordCancellationVote_def exec_stmt_def perform_def attempt_def wrap_call_def
      split: option.splits sum.splits if_splits)

lemma RecordCancellationVote_stored:
  assumes "RecordCancellationVote env i u d = (r, d1)" "stored d i = Some q" "cancellable q t = None"
  obtains m where "stored d1 = (stored d)(i \<mapsto> q\<lparr>P_CancellationVotes := m\<rparr>)" "keeps d d1"
proof -
  obtain m where m: "stored d1 = (stored d)(i \<mapsto> q\<lparr>P_CancellationVotes := m\<rparr>)"
  proof (cases "d1 = d")
    case True
    then have "stored d1 = (stored d)(i \<mapsto> q\<lparr>P_CancellationVotes := P_CancellationVotes q\<rparr>)"
      using assms(2) by (auto simp: fun_upd_idem)
    then show ?thesis by (rule that)
  next
    case False
    then show ?thesis
      using RecordCancellationVote_state [OF assms(1)] cancel_row_stored [OF assms(2), of u] that by auto
  qed
  have "evolves\<^sup>*\<^sup>* q (q\<lparr>P_CancellationVotes := m\<rparr>)"
    using ev_cancel_vote [OF assms(3)] by blast
  with keeps_local [OF assms(2) m] m that show ?thesis by blast
qed

lemma MarkCancelled_keeps:
  assumes "stored d i = Some (q\<lparr>P_CancellationVotes := m\<rparr>)" "cancellable q (now env) = None"
  shows "keeps d (snd (MarkCancelled env i (now env) d))"
proof -
  have c: "cancellable (q\<lparr>P_CancellationVotes := m\<rparr>) (now env) = None"
    using assms(2) by (simp add: cancellable_None)
  have i: "P_ID q = i" using stored_ID [OF assms(1)] by simp
  show ?thesis unfolding MarkCancelled_def
    by (rule conditional_update_keeps [OF _ assms(1)])
       (use c i ev_cancel [OF c, of m] in \<open>auto simp: cancellable_None\<close>)
qed

lemma cancelWithRepo_keeps: "keeps d (snd (cancelWithRepo env s i u (now env) d))"
proof (cases "Repo_GetProposal env i d")
  case (Inl e)
  then show ?thesis by (simp add: cancelWithRepo_def)
next
  case (Inr p)
  then obtain q n where q: "stored d i = Some q" "p = q\<lparr>P_CancellationVotes := n\<rparr>"
    using Repo_GetProposal_Inr by blast
  show ?thesis
  proof (cases "cancellable p (now env)")
    case (Some e)
    with Inr show ?thesis by (simp add: cancelWithRepo_def)
  next
    case None
    then have c: "cancellable q (now env) = None" using q(2) by (simp add: cancellable_None)
    obtain r d1 where r: "RecordCancellationVote env i u d = (r, d1)" by fastforce
    obtain m where m: "stored d1 = (stored d)(i \<mapsto> q\<lparr>P_CancellationVotes := m\<rparr>)" "keeps d d1"
      using r q(1) c by (rule RecordCancellationVote_stored)
    have "keeps d1 (snd (MarkCancelled env i (now env) d1))"
      using m(1) c by (intro MarkCancelled_keeps [where q = q and m = m]) simp_all
    then have "keeps d (snd (MarkCancelled env i (now env) d1))"
      by (rule keeps_trans [OF m(2)]) (use m(1) q(1) in \<open>auto split: if_splits\<close>)
    then show ?thesis using Inr None r m(2)
      by (cases r) (auto simp: cancelWithRepo_def guard_def attempt_def split: sum.splits prod.splits)
  qed
qed

lemma gov_db_step_keeps: "gov_db_step d d' \<Longrightarrow> keeps d d'"
proof (induction rule: gov_db_step.induct)
  case (db_create d env ord s input) show ?case by (rule CreateProposal_repo_keeps)
next
  case (db_vote d env s pid uid vote) show ?case by (rule VoteProposal_repo_keeps)
next
  case (db_execute d env s i) show ?case
    unfolding ExecuteProposal_repo_def by (rule attempt_frame [where P = "keeps d"]) (simp_all add: executeWithRepo_keeps)
next
  case (db_cancel d env s pid uid) show ?case
    unfolding CancelProposal_repo_def
    by (auto intro!: attempt_frame [where P = "keeps d"] cancelWithRepo_keeps)
qed

interpretation pg: proposal_store stored gov_db_step
proof
  fix d d' i p assume "gov_db_step d d'" "stored d i = Some p"
  then show "\<exists>p'. stored d' i = Some p' \<and> evolves\<^sup>*\<^sup>* p p'"
    using gov_db_step_keeps [unfolded keeps_def, rule_format, of d d' i] by simp
next
  fix d d' i p assume "gov_db_step d d'" "stored d i = None" "stored d' i = Some p"
  then show "fresh_proposal p"
    using gov_db_step_keeps [unfolded keeps_def, rule_format, of d d' i] by simp
qed

section \<open>The books: tallies against vote rows\<close>

type_synonym tally = "uuid \<times> int \<times> int \<times> int64 \<times> int64"

definition tally_of :: "proposal \<Rightarrow> tally" where
  "tally_of p = (P_ID p, P_ForVotes p, P_AgainstVotes p, P_ForWeight p, P_AgainstWeight p)"

definition ballots :: "vote_row list \<Rightarrow> uuid \<Rightarrow> bool \<Rightarrow> vote_row list" where
  "ballots vs i b = filter (\<lambda>r. V_ProposalID r = i \<and> V_Vote r = b) vs"

fun tally_balanced :: "vote_row list \<Rightarrow> tally \<Rightarrow> bool" where
  "tally_balanced vs (i, nf, na, fw, aw) \<longleftrightarrow>
     nf = int (length (ballots vs i True)) \<and> na = int (length (ballots vs i False))
   \<and> sint fw = (\<Sum>r \<leftarrow> ballots vs i True. sint (V_Weight r))
   \<and> sint aw = (\<Sum>r \<leftarrow> ballots vs i False. sint (V_Weight r))"

definition books_ok :: "tally list \<Rightarrow> vote_row list \<Rightarrow> bool" where
  "books_ok ts vs \<longleftrightarrow> distinct (map fst ts) \<and> distinct (map (\<lambda>r. (V_ProposalID r, V_VoterID r)) vs)
     \<and> V_ProposalID ` set vs \<subseteq> fst ` set ts \<and> (\<forall>t \<in> set ts. tally_balanced vs t)"

abbreviation db_books_ok :: "gov_db \<Rightarrow> bool" where
  "db_books_ok d \<equiv> books_ok (map tally_of (D_proposals d)) (D_votes d)"

definition same_books :: "gov_db \<Rightarrow> gov_db \<Rightarrow> bool" where
  "same_books d d' \<longleftrightarrow> map tally_of (D_proposals d') = map tally_of (D_proposals d) \<and> D_votes d' = D_votes d"

lemma same_books_simps [simp]:
  "same_books d d" "same_books d (d\<lparr>D_actions := l\<rparr>)" "same_books d (d\<lparr>D_cancels := cs\<rparr>)"
  by (simp_all add: same_books_def)

lemma same_books_trans: "same_books d d1 \<Longrightarrow> same_books d1 d2 \<Longrightarrow> same_books d d2"
  by (simp add: same_books_def)

lemma same_books_column:
  "(\<And>p. tally_of (f p) = tally_of p) \<Longrightarrow> same_books d (d\<lparr>D_proposals := update_where sel f (D_proposals d)\<rparr>)"
  by (simp add: same_books_def map_update_where)

lemma UpdateStatus_books: "same_books d (snd (UpdateStatus env i st x d))"
  unfolding UpdateStatus_def
  by (rule exec_stmt_frame [where P = "same_books d"]; (rule same_books_column)?)
     (simp_all add: tally_of_def split: option.splits)

lemma conditional_update_books:
  "(\<And>p. tally_of (f p) = tally_of p) \<Longrightarrow> same_books d (snd (conditional_update env q msg sel f d))"
  unfolding conditional_update_def
  by (auto intro!: perform_frame [where P = "same_books d"] attempt_frame [where P = "same_books d"]
      guard_frame [where P = "same_books d"] exec_stmt_frame [where P = "same_books d"] same_books_column)

lemma runAndMarkExecuted_books: "same_books d (snd (runAndMarkExecuted env s p t d))"
  using UpdateStatus_books same_books_trans [OF same_books_simps(2) UpdateStatus_books]
  by (auto simp: runAndMarkExecuted_def Let_def split: option.splits)

lemma executeWithRepo_books: "same_books d (snd (executeWithRepo env s i t d))"
  unfolding executeWithRepo_def MarkPassed_def
  by (rule attempt_frame [where P = "same_books d"])
     (auto simp: runAndMarkExecuted_books UpdateStatus_books tally_of_def intro!: conditional_update_books
       split: ProposalStatus.splits)

lemma RecordCancellationVote_books: "RecordCancellationVote env i u d = (r, d1) \<Longrightarrow> same_books d d1"
  by (drule RecordCancellationVote_state) auto

lemma MarkCancelled_books: "same_books d (snd (MarkCancelled env i t d))"
  unfolding MarkCancelled_def by (rule conditional_update_books) (simp add: tally_of_def)

lemma cancelWithRepo_books: "same_books d (snd (cancelWithRepo env s i u t d))"
proof (cases "\<exists>p. Repo_GetProposal env i d = Inr p \<and> cancellable p t = None")
  case False
  then show ?thesis by (auto simp: cancelWithRepo_def attempt_def split: sum.splits option.splits)
next
  case True
  obtain r d1 where r: "RecordCancellationVote env i u d = (r, d1)" by fastforce
  note b = RecordCancellationVote_books [OF r]
  from True r b same_books_trans [OF b MarkCancelled_books [of d1 env i t]] show ?thesis
    by (cases r) (auto simp: cancelWithRepo_def guard_def attempt_def split: sum.splits prod.splits)
qed

lemma ballots_append [simp]: "ballots (vs @ ws) i b = ballots vs i b @ ballots ws i b"
  by (simp add: ballots_def)

lemma books_ok_new:
  assumes "books_ok ts vs" "i \<notin> fst ` set ts"
  shows "books_ok (ts @ [(i, 0, 0, 0, 0)]) vs"
proof -
  have "ballots vs i b = []" for b using assms by (auto simp: books_ok_def ballots_def filter_empty_conv)
  then show ?thesis using assms by (auto simp: books_ok_def)
qed

fun bump :: "bool \<Rightarrow> int64 \<Rightarrow> tally \<Rightarrow> tally" where
  "bump b w (i, nf, na, fw, aw) = (if b then (i, nf + 1, na, fw + w, aw) else (i, nf, na + 1, fw, aw + w))"

fun no_overflow :: "bool \<Rightarrow> int64 \<Rightarrow> tally \<Rightarrow> bool" where
  "no_overflow b w (i, nf, na, fw, aw) = in_int64 (sint (if b then fw else aw) + sint w)"

lemma tally_of_count_vote: "tally_of (count_vote b w t p) = bump b w (tally_of p)"
  by (simp add: tally_of_def count_vote_def)

lemma sint_add_in_range: "in_int64 (sint a + sint (b :: int64)) \<Longrightarrow> sint (a + b) = sint a + sint b"
  using sint_word_of_int64 [of "sint a + sint b"] by simp

lemma balanced_bump:
  assumes "tally_balanced vs t" "no_overflow (V_Vote r) (V_Weight r) t" "V_ProposalID r = fst t"
  shows "tally_balanced (vs @ [r]) (bump (V_Vote r) (V_Weight r) t)"
  using assms by (cases t) (auto simp: ballots_def sint_add_in_range)

lemma balanced_other:
  assumes "tally_balanced vs t" "V_ProposalID r \<noteq> fst t"
  shows "tally_balanced (vs @ [r]) t"
  using assms by (cases t) (auto simp: ballots_def)

lemma fst_bump [simp]: "fst (bump b w t) = fst t"
  by (cases t) simp

lemma books_ok_vote:
  assumes ok: "books_ok ts vs" and r: "V_ProposalID r \<in> fst ` set ts" "\<forall>x \<in> set vs. (V_ProposalID x, V_VoterID x) \<noteq> (V_ProposalID r, V_VoterID r)"
    and ov: "\<And>t. t \<in> set ts \<Longrightarrow> fst t = V_ProposalID r \<Longrightarrow> no_overflow (V_Vote r) (V_Weight r) t"
  shows "books_ok (map (\<lambda>t. if fst t = V_ProposalID r then bump (V_Vote r) (V_Weight r) t else t) ts) (vs @ [r])"
proof -
  let ?f = "\<lambda>t. if fst t = V_ProposalID r then bump (V_Vote r) (V_Weight r) t else t"
  have keys: "map fst (map ?f ts) = map fst ts" by simp
  have "tally_balanced (vs @ [r]) (?f t)" if "t \<in> set ts" for t
    using that ok ov balanced_bump [of vs t r] balanced_other [of vs t r] by (auto simp: books_ok_def)
  then have bal: "\<forall>t \<in> set (map ?f ts). tally_balanced (vs @ [r]) t"
    unfolding set_map by (blast elim: imageE)
  have ids: "fst ` set (map ?f ts) = fst ` set ts" using keys by (metis set_map)
  have refs: "V_ProposalID ` set (vs @ [r]) \<subseteq> fst ` set ts" using ok r(1) by (auto simp: books_ok_def)
  have pk: "distinct (map (\<lambda>r. (V_ProposalID r, V_VoterID r)) (vs @ [r]))"
    using ok r(2) by (auto simp: books_ok_def)
  have "distinct (map fst ts)" using ok by (simp add: books_ok_def)
  then show ?thesis unfolding books_ok_def keys ids using refs pk bal by blast
qed

lemma RecordVoteWeighted_books:
  assumes "db_books_ok d"
  shows "db_books_ok (snd (RecordVoteWeighted env i v b w d))"
proof -
  define r where "r = \<lparr>V_ProposalID = i, V_VoterID = v, V_Vote = b, V_Weight = w, V_CreatedAt = now env\<rparr>"
  have vote: "db_books_ok (count_row b w (now env) i (d\<lparr>D_votes := D_votes d @ [r]\<rparr>))"
    if found: "find_proposal d i \<noteq> None" and new: "\<not> (\<exists>x \<in> set (D_votes d). V_ProposalID x = i \<and> V_VoterID x = v)"
       and ov: "\<not> bigint_overflow b w i (d\<lparr>D_votes := D_votes d @ [r]\<rparr>)"
  proof -
    obtain p where "find_proposal d i = Some p" using found by auto
    then have p: "p \<in> set (D_proposals d)" "P_ID p = i"
      unfolding find_proposal_def by (blast dest: find_Some_D)+
    have "map tally_of (update_where (\<lambda>p. P_ID p = i) (count_vote b w (now env)) (D_proposals d))
        = map (\<lambda>t. if fst t = i then bump b w t else t) (map tally_of (D_proposals d))"
      by (simp add: update_where_def tally_of_count_vote) (simp add: tally_of_def)
    moreover have rf: "V_ProposalID r = i" "V_Vote r = b" "V_Weight r = w" by (simp_all add: r_def)
    have "books_ok (map (\<lambda>t. if fst t = V_ProposalID r then bump (V_Vote r) (V_Weight r) t else t)
        (map tally_of (D_proposals d))) (D_votes d @ [r])"
      using assms new ov p by (intro books_ok_vote) (auto simp: r_def tally_of_def bigint_overflow_def image_iff)
    note books = this [unfolded rf]
    ultimately show ?thesis using books by (simp add: count_row_def)
  qed
  show ?thesis unfolding RecordVoteWeighted_def
    by (auto intro!: attempt_frame [where P = db_books_ok] guard_frame [where P = db_books_ok]
        transaction_frame [where P = db_books_ok] vote [unfolded r_def]
        simp: svc assms split: if_splits)
qed

lemma CreateProposal_repo_books:
  assumes "db_books_ok d"
  shows "db_books_ok (snd (CreateProposal_repo env ord s input d))"
proof -
  have "db_books_ok (snd (Repo_CreateProposal env ord (new_proposal env s input c) d))" for c
  proof -
    let ?p = "new_proposal env s input c"
    have new: "db_books_ok (d\<lparr>D_proposals := D_proposals d @ [row_of ?p]\<rparr>)" if "find_proposal d (P_ID ?p) = None"
    proof -
      have "P_ID ?p \<notin> fst ` set (map tally_of (D_proposals d))"
        using that by (auto simp: find_proposal_def find_None_iff tally_of_def)
      moreover have "tally_of (row_of ?p) = (P_ID ?p, 0, 0, 0, 0)"
        using new_proposal_fresh [of env s input c] by (simp add: fresh_proposal_def tally_of_def row_of_def)
      ultimately show ?thesis using books_ok_new [OF assms] by simp
    qed
    have weights: "db_books_ok (snd (insert_weights env i ws d1))" if "db_books_ok d1" for i ws d1
      using that insert_weights_only [of i d1 env ws] by (simp add: only_weights_of_def)
    show ?thesis unfolding Repo_CreateProposal_def
      by (auto intro!: perform_frame [where P = db_books_ok] exec_stmt_frame [where P = db_books_ok] new weights
          simp: assms svc split: if_splits)
  qed
  then show ?thesis unfolding CreateProposal_repo_def Let_def
    by (auto intro!: attempt_frame [where P = db_books_ok] guard_frame [where P = db_books_ok]
      perform_frame [where P = db_books_ok] simp: assms)
qed

lemma same_books_ok: "same_books d d' \<Longrightarrow> db_books_ok d \<Longrightarrow> db_books_ok d'"
  by (simp add: same_books_def)

lemma gov_db_step_books: "gov_db_step d d' \<Longrightarrow> db_books_ok d \<Longrightarrow> db_books_ok d'"
proof (induction rule: gov_db_step.induct)
  case (db_create d env ord s input) then show ?case by (rule CreateProposal_repo_books)
next
  case (db_vote d env s pid uid vote) then show ?case
    unfolding VoteProposal_repo_def
    by (auto intro!: attempt_frame [where P = db_books_ok] guard_frame [where P = db_books_ok] RecordVoteWeighted_books)
next
  case (db_execute d env s i) then show ?case
    unfolding ExecuteProposal_repo_def
    by (auto intro!: attempt_frame [where P = db_books_ok] same_books_ok [OF executeWithRepo_books])
next
  case (db_cancel d env s pid uid) then show ?case
    unfolding CancelProposal_repo_def
    by (auto intro!: attempt_frame [where P = db_books_ok] same_books_ok [OF cancelWithRepo_books])
qed

section \<open>Properties\<close>

definition gov_db_init :: gov_db where
  "gov_db_init = \<lparr>D_proposals = [], D_weights = [], D_votes = [], D_cancels = [], D_actions = []\<rparr>"

lemma stored_init [simp]: "stored gov_db_init i = None"
  by (simp add: stored_def find_proposal_def gov_db_init_def)

lemma gov_db_reachable_books: "gov_db_step\<^sup>*\<^sup>* gov_db_init d \<Longrightarrow> db_books_ok d"
proof (induction rule: rtranclp_induct)
  case base
  show ?case by (simp add: gov_db_init_def books_ok_def)
qed (rule gov_db_step_books)

text \<open>A session over the repository, with a statement that can be made to fail.\<close>

definition demo_genv :: "gov_stmt set \<Rightarrow> time \<Rightarrow> genv" where
  "demo_genv broken t = \<lparr>uuid_Parse = uuid_Parse (demo_env t), uuid_String = uuid_String (demo_env t),
     uuid_New = (\<lambda>n. 77), now = t, fault = (\<lambda>q. if q \<in> broken then Some (Driver ''io'') else None)\<rparr>"

definition demo_db_created :: gov_db where
  "demo_db_created = snd (CreateProposal_repo (demo_genv {} 100) id demo_service demo_input gov_db_init)"

definition demo_db_voted :: gov_db where
  "demo_db_voted = snd (VoteProposal_repo (demo_genv {} 105) demo_service ''p'' ''m1'' True demo_db_created)"

definition demo_db_passed :: gov_db where
  "demo_db_passed = snd (ExecuteProposal_repo (demo_genv {} 200) demo_service ''p'' demo_db_voted)"

lemma demo_db_reachable: "gov_db_step\<^sup>*\<^sup>* gov_db_init demo_db_voted" "gov_db_step\<^sup>*\<^sup>* gov_db_init demo_db_passed"
proof -
  have "gov_db_step gov_db_init demo_db_created" unfolding demo_db_created_def by (rule db_create)
  moreover have v: "gov_db_step demo_db_created demo_db_voted" unfolding demo_db_voted_def by (rule db_vote)
  moreover have "gov_db_step demo_db_voted demo_db_passed" unfolding demo_db_passed_def by (rule db_execute)
  ultimately show "gov_db_step\<^sup>*\<^sup>* gov_db_init demo_db_voted" "gov_db_step\<^sup>*\<^sup>* gov_db_init demo_db_passed"
    by (meson r_into_rtranclp rtranclp_trans)+
qed

text \<open>
  C36: the persisted service keeps its books under every failure of the database: in every state it can
  reach, with any statement failing at any call, proposals have distinct identifiers, a member has
  at most one vote per proposal, every vote belongs to a stored proposal, and the head
  counts and weights of a proposal are exactly the numbers and the sums of the weights of its vote
  rows, as integers (a sum that leaves the range of \<^verbatim>\<open>BIGINT\<close> makes the vote fail).
\<close>

theorem persisted_tallies_match_votes:
  assumes "gov_db_step\<^sup>*\<^sup>* gov_db_init d"
  shows "db_books_ok d"
  using assms by (rule gov_db_reachable_books)

theorem persisted_tallies_match_votes_witness:
  "db_books_ok demo_db_voted \<and> map tally_of (D_proposals demo_db_voted) = [(77, 1, 0, 5, 0)]"
  using persisted_tallies_match_votes [OF demo_db_reachable(1)] by (rule conjI) code_simp

text \<open>
  The life of a persisted proposal: in every reachable state its status agrees with its time
  stamps and its tally (the timelock is respected, only carried proposals are executed), a
  settled proposal never changes again, and the weight snapshot of a proposal never changes
  once it has been stored.
\<close>

theorem persisted_proposal_life:
  assumes "gov_db_step\<^sup>*\<^sup>* gov_db_init d" "stored d i = Some p" "gov_db_step\<^sup>*\<^sup>* d d'"
  shows "proposal_ok p \<and> (terminal (P_Status p) \<longrightarrow> stored d' i = Some p)
     \<and> (\<exists>p'. stored d' i = Some p' \<and> frozen p p')"
  using pg.store_ok [OF assms(1) _ assms(2)] pg.settled_forever [OF assms(3,2)]
    pg.snapshot_frozen [OF assms(3,2)] by auto

theorem persisted_proposal_life_witness:
  "\<exists>p. stored demo_db_voted 77 = Some p \<and> proposal_ok p
     \<and> (\<exists>p'. stored demo_db_passed 77 = Some p' \<and> frozen p p')"
proof -
  have "stored demo_db_voted 77 \<noteq> None" by code_simp
  then obtain p where p: "stored demo_db_voted 77 = Some p" by blast
  have "gov_db_step\<^sup>*\<^sup>* demo_db_voted demo_db_passed"
    unfolding demo_db_passed_def by (rule r_into_rtranclp) (rule db_execute)
  with persisted_proposal_life [OF demo_db_reachable(1) p] p show ?thesis by blast
qed

text \<open>
  Over the repository an action can run twice. The executor is called before the new status is
  written, so when that write fails the proposal is still \<^verbatim>\<open>passed\<close> and the next call runs the
  action again. (The in-memory store writes first and never does this.)
\<close>

theorem persisted_action_can_repeat:
  "\<exists>d q. gov_db_step\<^sup>*\<^sup>* gov_db_init d \<and> D_actions d = []
     \<and> length (D_actions (snd (ExecuteProposal_repo (demo_genv {} 90001) demo_service ''p''
         (snd (ExecuteProposal_repo (demo_genv {q} 90000) demo_service ''p'' d))))) = 2"
  by (rule exI [of _ demo_db_passed], rule exI [of _ "Q_UpdateStatus 77 ProposalStatusExecuted (Some 90000)"])
     (intro conjI; (rule demo_db_reachable(2))?; code_simp)

text \<open>
  A failed creation can leave a votable proposal whose snapshot misses voters. The proposal
  row is inserted outside a transaction; when a later snapshot row fails, the caller gets an
  error but the proposal stays, and the missing member votes with the live weight.
\<close>

theorem partial_snapshot_uses_live_weight:
  "\<exists>broken. \<not> is_ok (fst (CreateProposal_repo (demo_genv broken 100) id demo_service demo_input gov_db_init))
     \<and> (let d = snd (CreateProposal_repo (demo_genv broken 100) id demo_service demo_input gov_db_init);
           rich = demo_service\<lparr>VotingWeight := (\<lambda>u. Inr 1000000)\<rparr>;
           d' = snd (VoteProposal_repo (demo_genv {} 105) rich ''p'' ''m2'' True d) in
         map P_ForWeight (D_proposals d') = [1000000])"
  by (rule exI [of _ "{Q_InsertWeight 77 2 3}"]) code_simp

end
