(* ===== verification/IndexerJobs.thy ===== *)
theory IndexerJobs
  imports Indexer
begin

text \<open>
  \<^verbatim>\<open>internal/indexer\<close>, the jobs beside the poll loop: \<^verbatim>\<open>reconciler.go\<close> (replay of missed ledgers),
  \<^verbatim>\<open>backfill.go\<close> (rescan of a ledger range), \<^verbatim>\<open>backfill_notifications.go\<close>, the stall watchdog of
  \<^verbatim>\<open>watchdog.go\<close> and the caching resolver of \<^verbatim>\<open>contract_version.go\<close>.

  The reconciler shares the cursor, the deduplicator and the dead letters with the engine, so it
  works on the same state. Its requests are spread over time: the environment and the
  cancellation of the context are functions of the iteration. The two backfills may loop for
  ever and are partial functions: not returning is the value \<open>None\<close>. Tickers and logs are left
  out.
\<close>

section \<open>Reconciler\<close>

record reconciler =
  RC_poller :: poller
  RC_deadLetters :: bool
  RC_interval :: duration
  RC_batchSize :: int
  RC_maxLedgersPerCycle :: int

definition NewReconciler :: "poller \<Rightarrow> reconciler" where
  "NewReconciler p = \<lparr>RC_poller = p, RC_deadLetters = False, RC_interval = 300 * second, RC_batchSize = 50, RC_maxLedgersPerCycle = 500\<rparr>"

definition WithDeadLetters :: "bool \<Rightarrow> reconciler \<Rightarrow> reconciler" where
  "WithDeadLetters store r = r\<lparr>RC_deadLetters := store\<rparr>"

definition WithBatchSize :: "int \<Rightarrow> reconciler \<Rightarrow> reconciler" where
  "WithBatchSize n r = (if n > 0 then r\<lparr>RC_batchSize := n\<rparr> else r)"

definition WithMaxLedgersPerCycle :: "int \<Rightarrow> reconciler \<Rightarrow> reconciler" where
  "WithMaxLedgersPerCycle mx r = (if mx > 0 then r\<lparr>RC_maxLedgersPerCycle := mx\<rparr> else r)"

definition recordDeadLetter :: "reconciler \<Rightarrow> ienv \<Rightarrow> transaction \<Rightarrow> int \<Rightarrow> error \<Rightarrow> 'a world \<Rightarrow> 'a world" where
  "recordDeadLetter r env txn ledger cause w =
     (if \<not> RC_deadLetters r then w
      else snd (DeadLetter_Record env
        \<lparr>DL_ID = 0, DL_Chain = ''stellar'', DL_TxHash = T_Hash txn, DL_Ledger = ledger, DL_Error = error_text cause, DL_Attempts = 1,
         DL_Payload = (case MarshalPayload env txn of Inl e \<Rightarrow> None | Inr b \<Rightarrow> Some b),
         DL_Status = ''dead_letter'', DL_CreatedAt = 0, DL_UpdatedAt = 0, DL_ResolvedAt = None\<rparr> w))"

definition replay_txn :: "reconciler \<Rightarrow> 'a process \<Rightarrow> ienv \<Rightarrow> int \<Rightarrow> transaction \<Rightarrow> 'a engine \<Rightarrow> 'a engine" where
  "replay_txn r process env ledger txn e =
     (if Has (now env) (T_Hash txn) (E_dedup e) then e
      else let e1 = e\<lparr>E_dedup := Dedup_Add (now env) (T_Hash txn) (E_dedup e)\<rparr> in
        case process env txn (E_world e1) of
          (Inl err, w) \<Rightarrow> e1\<lparr>E_world := recordDeadLetter r env txn ledger err w\<rparr>
        | (Inr _, w) \<Rightarrow> e1\<lparr>E_world := w\<rparr>)"

definition on_world :: "('a world \<Rightarrow> 'b result \<times> 'a world) \<Rightarrow> 'a engine \<Rightarrow> 'b result \<times> 'a engine" where
  "on_world f e = (case f (E_world e) of (x, w) \<Rightarrow> (x, e\<lparr>E_world := w\<rparr>))"

definition replay_ledger :: "reconciler \<Rightarrow> 'a process \<Rightarrow> ienv \<Rightarrow> ledger \<Rightarrow> 'a engine \<Rightarrow> unit result \<times> 'a engine" where
  "replay_ledger r process env l e =
     (let e1 = (case FetchTransactions env (L_Sequence l) of
                  Inl err \<Rightarrow> e
                | Inr txns \<Rightarrow> fold (replay_txn r process env (L_Sequence l)) (FilterByContract (RC_poller r) txns) e) in
      wrap_call ''updating cursor during reconciliation'' (on_world (Cursor_Update env (L_Sequence l)) e1))"

fun replay_ledgers :: "reconciler \<Rightarrow> 'a process \<Rightarrow> ienv \<Rightarrow> ledger list \<Rightarrow> 'a engine \<Rightarrow> unit result \<times> 'a engine" where
  "replay_ledgers r process env [] e = (Inr (), e)"
| "replay_ledgers r process env (l # ls) e =
     perform (replay_ledger r process env l e) (\<lambda>_ e'. replay_ledgers r process env ls e')"

definition batch_size :: "reconciler \<Rightarrow> int" where
  "batch_size r = (if RC_batchSize r \<le> 0 then 50 else RC_batchSize r)"

definition max_per_cycle :: "reconciler \<Rightarrow> int" where
  "max_per_cycle r = (if RC_maxLedgersPerCycle r \<le> 0 then 500 else RC_maxLedgersPerCycle r)"

text \<open>
  The loop of \<^verbatim>\<open>Reconcile\<close>; \<open>k\<close> counts the iterations, \<open>fetched\<close> the fetched ledgers. It returns the number
  of ledgers, which the caller only logs.
\<close>

function reconcile_loop :: "reconciler \<Rightarrow> 'a process \<Rightarrow> (nat \<Rightarrow> ienv) \<Rightarrow> (nat \<Rightarrow> error option) \<Rightarrow> nat \<Rightarrow> int \<Rightarrow> int \<Rightarrow> 'a engine
    \<Rightarrow> int result \<times> 'a engine" where
  "reconcile_loop r process env cancelled k fetched currentCursor e =
     (if fetched < max_per_cycle r then
        (case cancelled k of
           Some err \<Rightarrow> (Inl err, e)
         | None \<Rightarrow>
             let limit = min (batch_size r) (max_per_cycle r - fetched) in
             case wrap_err ''fetching missed ledgers'' (FetchLedgers (env k) currentCursor limit) of
               Inl err \<Rightarrow> (Inl err, e)
             | Inr missed \<Rightarrow>
                 if missed = [] then (Inr fetched, e)
                 else (case replay_ledgers r process (env k) missed e of
                         (Inl err, e') \<Rightarrow> (Inl err, e')
                       | (Inr _, e') \<Rightarrow>
                           if int (length missed) < limit then (Inr (fetched + int (length missed)), e')
                           else reconcile_loop r process env cancelled (Suc k) (fetched + int (length missed)) (L_Sequence (last missed)) e'))
      else (Inr fetched, e))"
  by pat_completeness auto
termination
  by (relation "measure (\<lambda>(r, process, env, cancelled, k, fetched, cur, e). nat (max_per_cycle r - fetched))") auto

declare reconcile_loop.simps [simp del]

definition Reconcile :: "reconciler \<Rightarrow> 'a process \<Rightarrow> (nat \<Rightarrow> ienv) \<Rightarrow> (nat \<Rightarrow> error option) \<Rightarrow> 'a engine \<Rightarrow> unit result \<times> 'a engine" where
  "Reconcile r process env cancelled e =
     attempt (wrap_err ''reading cursor'' (GetCurrent (env 0) (E_world e))) e (\<lambda>c.
     attempt (wrap_err ''fetching latest ledger'' (FetchLedgers (env 0) (Cur_LastLedger c) 1)) e (\<lambda>ledgers.
     case ledgers of
       [] \<Rightarrow> (Inr (), e)
     | l # ls \<Rightarrow>
         let latestChain = L_Sequence l + int (length ledgers) - 1; gap = latestChain - Cur_LastLedger c in
         if gap \<le> 0 then (Inr (), e)
         else perform (reconcile_loop r process (\<lambda>k. env (Suc k)) cancelled 0 0 (Cur_LastLedger c) e) (\<lambda>fetched e'. (Inr (), e'))))"

section \<open>Backfill of a ledger range\<close>

text \<open>
  The loop variable of \<^verbatim>\<open>Run\<close> is an \<^verbatim>\<open>int64\<close> that is compared with the last ledger after the
  increment, which wraps.
\<close>

definition backfill_txn :: "'a process \<Rightarrow> ienv \<Rightarrow> bool \<Rightarrow> transaction \<Rightarrow> int \<times> 'a world \<Rightarrow> int \<times> 'a world" where
  "backfill_txn process env dryRun txn s =
     (case s of (fetched, w) \<Rightarrow>
        if dryRun then (fetched + 1, w)
        else (case process env txn w of (Inr _, w') \<Rightarrow> (fetched + 1, w') | (Inl e, w') \<Rightarrow> (fetched, w')))"

definition backfill_ledger :: "poller \<Rightarrow> 'a process \<Rightarrow> ienv \<Rightarrow> bool \<Rightarrow> int \<Rightarrow> int \<times> 'a world \<Rightarrow> int \<times> 'a world" where
  "backfill_ledger p process env dryRun l s =
     (case FetchTransactions env l of
        Inl e \<Rightarrow> s
      | Inr txs \<Rightarrow> fold (backfill_txn process env dryRun) (FilterByContract p txs) s)"

partial_function (option) backfill_loop :: "poller \<Rightarrow> 'a process \<Rightarrow> (int64 \<Rightarrow> ienv) \<Rightarrow> bool \<Rightarrow> int64 \<Rightarrow> int64 \<Rightarrow> int \<times> 'a world
    \<Rightarrow> (int \<times> 'a world) option" where
  "backfill_loop p process env dryRun toLedger l s =
     (if sint l \<le> sint toLedger
      then backfill_loop p process env dryRun toLedger (l + 1) (backfill_ledger p process (env l) dryRun (sint l) s)
      else Some s)"

definition Backfill_Run :: "poller \<Rightarrow> 'a process \<Rightarrow> (int64 \<Rightarrow> ienv) \<Rightarrow> int64 \<Rightarrow> int64 \<Rightarrow> bool \<Rightarrow> 'a world
    \<Rightarrow> (int result \<times> 'a world) option" where
  "Backfill_Run p process env fromLedger toLedger dryRun w =
     (if sint fromLedger > sint toLedger then Some (Inl (Errorf ''fromLedger cannot be greater than toLedger''), w)
      else map_option (\<lambda>(n, w'). (Inr n, w')) (backfill_loop p process env dryRun toLedger fromLedger (0, w)))"

section \<open>Backfill of notifications\<close>

record past_event =
  PE_ID :: int
  PE_Type :: string
  PE_UserID :: string
  PE_Title :: string
  PE_Body :: string
  PE_Data :: string
  PE_CreatedAt :: time

record backfill_notification =
  BN_ID :: string
  BN_UserID :: string
  BN_Type :: string
  BN_Title :: string
  BN_Body :: string
  BN_Data :: string
  BN_Channel :: string
  BN_Read :: bool
  BN_CreatedAt :: time

record checkpoint =
  CP_LastProcessedEventID :: int
  CP_ProcessedCount :: int
  CP_StartedAt :: time
  CP_LastUpdated :: time

text \<open>The batch size and the checkpoint of a new job; \<open>t0\<close> is Go's zero time.\<close>

definition NewBackfillNotifications :: "time \<Rightarrow> time \<Rightarrow> int \<times> checkpoint" where
  "NewBackfillNotifications t0 t = (100, \<lparr>CP_LastProcessedEventID = 0, CP_ProcessedCount = 0, CP_StartedAt = t, CP_LastUpdated = t0\<rparr>)"

definition mapEventTypeToNotification :: "string \<Rightarrow> string" where
  "mapEventTypeToNotification t =
     (if t = ''circle.joined'' then ''circle_joined''
      else if t = ''circle.payout'' then ''payout_executed''
      else if t = ''contribution.made'' then ''contribution_received''
      else if t = ''invite.received'' then ''invite_received''
      else [])"

text \<open>The notification store is an interface: \<open>create\<close> decides whether a row is stored.\<close>

definition notification_of :: "string \<Rightarrow> past_event \<Rightarrow> backfill_notification" where
  "notification_of i ev =
     \<lparr>BN_ID = i, BN_UserID = PE_UserID ev, BN_Type = mapEventTypeToNotification (PE_Type ev), BN_Title = PE_Title ev, BN_Body = PE_Body ev,
      BN_Data = PE_Data ev, BN_Channel = ''inapp'', BN_Read = False, BN_CreatedAt = PE_CreatedAt ev\<rparr>"

definition processEvent :: "(nat \<Rightarrow> string) \<Rightarrow> (backfill_notification \<Rightarrow> error option) \<Rightarrow> past_event \<Rightarrow> backfill_notification list
    \<Rightarrow> unit result \<times> backfill_notification list" where
  "processEvent ids create ev ns =
     (if mapEventTypeToNotification (PE_Type ev) = [] then (Inr (), ns)
      else let n = notification_of (ids (length ns)) ev in
        case create n of Some e \<Rightarrow> (Inl e, ns) | None \<Rightarrow> (Inr (), ns @ [n]))"

definition backfill_event :: "(nat \<Rightarrow> string) \<Rightarrow> (backfill_notification \<Rightarrow> error option) \<Rightarrow> past_event
    \<Rightarrow> checkpoint \<times> backfill_notification list \<Rightarrow> checkpoint \<times> backfill_notification list" where
  "backfill_event ids create ev s =
     (case s of (cp, ns) \<Rightarrow>
        case processEvent ids create ev ns of
          (Inl e, ns') \<Rightarrow> (cp, ns')
        | (Inr _, ns') \<Rightarrow> (cp\<lparr>CP_LastProcessedEventID := PE_ID ev, CP_ProcessedCount := CP_ProcessedCount cp + 1\<rparr>, ns'))"

text \<open>
  The loop: iteration \<open>k\<close> first asks whether the context is cancelled; \<open>clock k\<close> is the time at its end.
\<close>

partial_function (option) BackfillNotifications_Run :: "(int \<Rightarrow> int \<Rightarrow> past_event list result) \<Rightarrow> (nat \<Rightarrow> string) \<Rightarrow> (backfill_notification \<Rightarrow> error option)
    \<Rightarrow> (nat \<Rightarrow> error option) \<Rightarrow> (nat \<Rightarrow> time) \<Rightarrow> int \<Rightarrow> nat \<Rightarrow> checkpoint \<times> backfill_notification list
    \<Rightarrow> (unit result \<times> checkpoint \<times> backfill_notification list) option" where
  "BackfillNotifications_Run since ids create cancelled clock batchSize k s =
     (case cancelled k of Some e \<Rightarrow> Some (Inl e, s)
      | None \<Rightarrow>
     (case wrap_err ''fetching events'' (since (CP_LastProcessedEventID (fst s)) batchSize) of
        Inl e \<Rightarrow> Some (Inl e, s)
      | Inr events \<Rightarrow>
          if events = [] then Some (Inr (), s)
          else BackfillNotifications_Run since ids create cancelled clock batchSize (Suc k)
                 (apfst (\<lambda>cp. cp\<lparr>CP_LastUpdated := clock k\<rparr>) (fold (backfill_event ids create) events s))))"

section \<open>Stall watchdog\<close>

record watchdog =
  WD_threshold :: duration
  WD_lastProgress :: time
  WD_alerted :: bool

definition DefaultStallThreshold :: duration where
  "DefaultStallThreshold = 300 * second"

definition NewStallWatchdog :: "duration \<Rightarrow> time \<Rightarrow> watchdog" where
  "NewStallWatchdog threshold t =
     \<lparr>WD_threshold = (if threshold \<le> 0 then DefaultStallThreshold else threshold), WD_lastProgress = t, WD_alerted = False\<rparr>"

definition Processed :: "time \<Rightarrow> watchdog \<Rightarrow> watchdog" where
  "Processed t w = w\<lparr>WD_lastProgress := t, WD_alerted := False\<rparr>"

text \<open>\<^verbatim>\<open>Check\<close> reports whether it called the alert.\<close>

definition Check :: "time \<Rightarrow> watchdog \<Rightarrow> bool \<times> watchdog" where
  "Check t w =
     (if t - WD_lastProgress w < WD_threshold w \<or> WD_alerted w then (False, w) else (True, w\<lparr>WD_alerted := True\<rparr>))"

section \<open>Contract versions\<close>

definition DefaultContractVersionTTL :: duration where
  "DefaultContractVersionTTL = 900 * second"

record cached_version =
  CV_result :: "string result"
  CV_expires :: time

record version_cache =
  VC_ttl :: duration
  VC_failureTTL :: duration
  VC_cache :: "(string \<times> cached_version) list"

definition StaticContractVersions :: "(string \<times> string) list \<Rightarrow> string \<Rightarrow> string result" where
  "StaticContractVersions s contractID =
     (case map_of s contractID of
        None \<Rightarrow> Inl (Errorf ''no contract version configured'')
      | Some v \<Rightarrow> if v = [] then Inl (Errorf ''no contract version configured'') else Inr v)"

definition NewCachingContractVersionResolver :: "duration \<Rightarrow> version_cache" where
  "NewCachingContractVersionResolver ttl0 =
     (let ttl = (if ttl0 \<le> 0 then DefaultContractVersionTTL else ttl0); failureTTL = ttl div 10 in
      \<lparr>VC_ttl = ttl, VC_failureTTL = (if failureTTL \<le> 0 then second else failureTTL), VC_cache = []\<rparr>)"

text \<open>A resolver that reports neither a version nor an error has failed.\<close>

definition checked_version :: "string result \<Rightarrow> string result" where
  "checked_version res = (if res = Inr [] then Inl (Errorf ''resolver returned no version'') else res)"

text \<open>
  \<open>inner\<close> is the wrapped resolver at the time of the call, \<open>t\<close> the clock before it and \<open>t'\<close> the clock after it; the flag says whether
  the wrapped resolver was called.
\<close>

definition CachingResolve :: "(string \<Rightarrow> string result) \<Rightarrow> time \<Rightarrow> time \<Rightarrow> string \<Rightarrow> version_cache \<Rightarrow> string result \<times> bool \<times> version_cache" where
  "CachingResolve inner t t' contractID c =
     (let refresh = (let res = checked_version (inner contractID); ttl = (case res of Inl e \<Rightarrow> VC_failureTTL c | Inr v \<Rightarrow> VC_ttl c) in
        (res, True, c\<lparr>VC_cache := AList.update contractID \<lparr>CV_result = res, CV_expires = t' + ttl\<rparr> (VC_cache c)\<rparr>)) in
      case map_of (VC_cache c) contractID of
        None \<Rightarrow> refresh
      | Some entry \<Rightarrow> if t < CV_expires entry then (CV_result entry, False, c) else refresh)"

section \<open>The reconciler catches up\<close>

text \<open>
  What Horizon documents of its ledger pages: after the paging token of a ledger come its successors in ascending
  order, as many as asked for, up to the last ledger \<open>H\<close>.
\<close>

definition serves :: "(int \<Rightarrow> ledger) \<Rightarrow> int \<Rightarrow> ienv \<Rightarrow> bool" where
  "serves chain H env = ((\<forall>n. L_Sequence (chain n) = n) \<and>
     (\<forall>c limit. 0 \<le> c \<and> c \<le> H \<and> 0 < limit \<longrightarrow> hz_ledgers env (paging_token c) limit = Records (map chain [c + 1..min H (c + limit)])))"

definition keeps_cursor :: "'a process \<Rightarrow> bool" where
  "keeps_cursor process = (\<forall>env txn w. W_cursor (snd (process env txn w)) = W_cursor w)"

definition reached :: "int \<Rightarrow> 'a engine \<Rightarrow> bool" where
  "reached n e = (map_option Cur_LastLedger (W_cursor (E_world e)) = Some n)"

lemma recordDeadLetter_cursor [simp]: "W_cursor (recordDeadLetter r env txn l cause w) = W_cursor w"
  by (auto simp: recordDeadLetter_def DeadLetter_Record_def guard_def Let_def split: option.splits)

lemma replay_txn_cursor:
  assumes "keeps_cursor process"
  shows "W_cursor (E_world (replay_txn r process env l txn e)) = W_cursor (E_world e)"
proof -
  obtain x w where x: "process env txn (E_world e) = (x, w)" by fastforce
  then have "W_cursor w = W_cursor (E_world e)" using assms unfolding keeps_cursor_def by (metis snd_conv)
  then show ?thesis using x by (cases x) (auto simp: replay_txn_def Let_def)
qed

lemma replay_txns_reached:
  "keeps_cursor process \<Longrightarrow> reached n (fold (replay_txn r process env l) txns e) = reached n e"
  by (induction txns arbitrary: e) (simp_all add: reached_def replay_txn_cursor)

lemma Cursor_Update_ahead:
  assumes "\<And>q. fault env q = None" "reached n e" "n < m" "0 \<le> m"
  shows "\<exists>e'. on_world (Cursor_Update env m) e = (Inr (), e') \<and> reached m e'"
  using assms by (auto simp: reached_def on_world_def Cursor_Update_def guard_def Let_def exec_stmt_def)

lemma replay_ledger_reaches:
  assumes "keeps_cursor process" "\<And>q. fault env q = None" "reached n e" "n < L_Sequence l" "0 \<le> L_Sequence l"
  shows "\<exists>e'. replay_ledger r process env l e = (Inr (), e') \<and> reached (L_Sequence l) e'"
proof -
  let ?e1 = "case FetchTransactions env (L_Sequence l) of Inl err \<Rightarrow> e
     | Inr txns \<Rightarrow> fold (replay_txn r process env (L_Sequence l)) (FilterByContract (RC_poller r) txns) e"
  have "reached n ?e1" using assms(1,3) by (simp add: replay_txns_reached split: sum.split)
  from Cursor_Update_ahead [OF assms(2) this assms(4,5)] show ?thesis by (auto simp: replay_ledger_def Let_def)
qed

lemma replay_ledgers_reach:
  assumes "keeps_cursor process" "\<And>q. fault env q = None" "\<And>n. L_Sequence (chain n) = n" "reached a e" "0 \<le> a" "a \<le> b"
  shows "\<exists>e'. replay_ledgers r process env (map chain [a + 1..b]) e = (Inr (), e') \<and> reached b e'"
  using assms(4-6)
proof (induction "nat (b - a)" arbitrary: a e)
  case (Suc k)
  have "reached (a + 1) e1 \<Longrightarrow> \<exists>e'. replay_ledgers r process env (map chain [a + 2..b]) e1 = (Inr (), e') \<and> reached b e'" for e1
    using Suc(1) [of "a + 1" e1] Suc(2-) by (simp add: add.commute)
  moreover obtain e1 where "replay_ledger r process env (chain (a + 1)) e = (Inr (), e1)" "reached (a + 1) e1"
    using replay_ledger_reaches [OF assms(1,2) Suc(3), of "chain (a + 1)" r] assms(3) Suc(4) by auto
  moreover have "[a + 1..b] = (a + 1) # [a + 2..b]" using Suc(2) upto.simps [of "a + 1" b] by (simp add: add.commute)
  ultimately show ?case by simp
qed auto

lemma batch_positive: "0 < batch_size r" "0 < max_per_cycle r"
  by (auto simp: batch_size_def max_per_cycle_def)

lemma served: "serves chain H env \<Longrightarrow> 0 \<le> c \<Longrightarrow> c \<le> H \<Longrightarrow> 0 < limit \<Longrightarrow>
    FetchLedgers env c limit = Inr (map chain [c + 1..min H (c + limit)])"
  by (simp add: serves_def FetchLedgers_def decode_def)

lemma reconcile_loop_reaches:
  assumes "keeps_cursor process" "\<And>k q. fault (env k) q = None" "\<And>k. serves chain H (env k)" "\<And>k. cancelled k = None"
    and "reached cur e" "0 \<le> cur" "cur \<le> H" "fetched \<le> max_per_cycle r"
  shows "\<exists>n e'. reconcile_loop r process env cancelled k fetched cur e = (Inr n, e') \<and> reached (min H (cur + (max_per_cycle r - fetched))) e'"
  using assms(5-8)
proof (induction "nat (max_per_cycle r - fetched)" arbitrary: k fetched cur e rule: less_induct)
  case less
  show ?case
  proof (cases "fetched < max_per_cycle r")
    case False
    then show ?thesis using less.prems by (simp add: reconcile_loop.simps)
  next
    case True
    let ?limit = "min (batch_size r) (max_per_cycle r - fetched)"
    let ?b = "min H (cur + ?limit)" and ?missed = "map chain [cur + 1..min H (cur + ?limit)]"
    have pos: "0 < ?limit" using True batch_positive(1) [of r] by simp
    have seq: "\<And>n. L_Sequence (chain n) = n" using assms(3) by (auto simp: serves_def)
    have fetch: "FetchLedgers (env k) cur ?limit = Inr ?missed" using served [OF assms(3) less.prems(2,3) pos] .
    obtain e1 where e1: "replay_ledgers r process (env k) ?missed e = (Inr (), e1)" "reached ?b e1"
      using replay_ledgers_reach [where chain = chain and b = ?b, OF assms(1,2) seq less.prems(1,2)] less.prems(3) pos by auto
    show ?thesis
    proof (cases "cur + ?limit \<le> H")
      case False
      then have "?b = H" "min H (cur + (max_per_cycle r - fetched)) = H" "int (length ?missed) < ?limit" using less.prems(3) by auto
      moreover from this(1) have "reached H e" if "?missed = []" using that less.prems(1,3) by (cases "cur = H") auto
      ultimately show ?thesis using True fetch e1 assms(4) by (subst reconcile_loop.simps) (auto simp: Let_def)
    next
      case le: True
      then have b: "?b = cur + ?limit" and len: "int (length ?missed) = ?limit" using pos by auto
      have ne: "?missed \<noteq> []" using b pos by (auto simp: min_def)
      then have "[cur + 1..?b] \<noteq> []" by simp
      then have "last [cur + 1..?b] = ?b" using b pos by (metis last_snoc upto_rec2 upto_empty not_less)
      then have lst: "L_Sequence (last ?missed) = cur + ?limit" using ne seq b by (simp add: last_map)
      have "\<exists>n e'. reconcile_loop r process env cancelled (Suc k) (fetched + ?limit) (cur + ?limit) e1 = (Inr n, e')
          \<and> reached (min H (cur + ?limit + (max_per_cycle r - (fetched + ?limit)))) e'"
        by (rule less.hyps) (use True pos e1(2) b le less.prems in auto)
      then show ?thesis using True fetch e1 assms(4) ne len lst by (subst reconcile_loop.simps) (auto simp: Let_def)
    qed
  qed
qed

lemma Reconcile_reaches:
  assumes "keeps_cursor process" "\<And>k q. fault (env k) q = None" "\<And>k. serves chain H (env k)" "\<And>k. cancelled k = None"
    and "reached cur e" "0 \<le> cur" "cur \<le> H"
  shows "\<exists>e'. Reconcile r process env cancelled e = (Inr (), e') \<and> reached (min H (cur + max_per_cycle r)) e'"
proof -
  obtain c where c: "W_cursor (E_world e) = Some c" "Cur_LastLedger c = cur" using assms(5) by (auto simp: reached_def)
  have get: "GetCurrent (env 0) (E_world e) = Inr c" using c assms(2) by (simp add: GetCurrent_def run_query_def)
  have fetch: "FetchLedgers (env 0) cur 1 = Inr (map chain [cur + 1..min H (cur + 1)])" using served [OF assms(3,6,7)] by simp
  show ?thesis
  proof (cases "cur = H")
    case True
    then show ?thesis using get fetch c assms(5) batch_positive(2) [of r] by (auto simp: Reconcile_def)
  next
    case False
    then have l: "map chain [cur + 1..min H (cur + 1)] = [chain (cur + 1)]" using assms(7) by (simp add: upto.simps)
    have "L_Sequence (chain (cur + 1)) = cur + 1" using assms(3) by (auto simp: serves_def)
    moreover obtain n e' where "reconcile_loop r process (\<lambda>k. env (Suc k)) cancelled 0 0 cur e = (Inr n, e')"
        "reached (min H (cur + max_per_cycle r)) e'"
      using reconcile_loop_reaches [where env = "\<lambda>k. env (Suc k)" and cancelled = cancelled and k = 0 and fetched = 0 and r = r,
          OF assms(1) _ _ assms(4-7)] assms(2,3) batch_positive(2) [of r] by fastforce
    ultimately show ?thesis using get fetch c l by (simp add: Reconcile_def Let_def)
  qed
qed

lemma min_twice: "0 \<le> x \<Longrightarrow> min H (min H c + x) = min H (c + x :: int)"
  by (simp add: min_def)

text \<open>
  The reconciler catches up: when no statement fails and Horizon serves the ledgers up to \<open>H\<close>, every cycle of
  \<^verbatim>\<open>Reconcile\<close> succeeds and moves the cursor on by \<^verbatim>\<open>maxLedgersPerCycle\<close> ledgers or to the end of the
  chain, whatever the transactions of the ledgers are and whether they can be fetched or
  not; so after enough cycles the gap is closed.
\<close>

theorem reconciler_catches_up:
  assumes "keeps_cursor process" "\<forall>env \<in> set envs. \<forall>k. serves chain H (env k) \<and> (\<forall>q. fault (env k) q = None)"
    and "reached cur e" "0 \<le> cur" "cur \<le> H"
  shows "reached (min H (cur + int (length envs) * max_per_cycle r)) (fold (\<lambda>env e. snd (Reconcile r process env (\<lambda>_. None) e)) envs e)"
  using assms(2-)
proof (induction envs arbitrary: cur e)
  case (Cons env envs)
  obtain e1 where e1: "Reconcile r process env (\<lambda>_. None) e = (Inr (), e1)" "reached (min H (cur + max_per_cycle r)) e1"
    using Reconcile_reaches [OF assms(1), of env chain H "\<lambda>_. None" cur e r] Cons.prems by auto
  have "reached (min H (min H (cur + max_per_cycle r) + int (length envs) * max_per_cycle r))
      (fold (\<lambda>env e. snd (Reconcile r process env (\<lambda>_. None) e)) envs e1)"
    by (rule Cons.IH) (use Cons.prems e1(2) batch_positive(2) [of r] in auto)
  moreover have "min H (min H (cur + max_per_cycle r) + int (length envs) * max_per_cycle r)
      = min H (cur + int (length (env # envs)) * max_per_cycle r)"
    using min_twice [of "int (length envs) * max_per_cycle r" H "cur + max_per_cycle r"] batch_positive(2) [of r]
    by (simp add: algebra_simps)
  ultimately show ?case using e1(1) by simp
qed simp

section \<open>Replaying and polling\<close>

lemma replay_txn_handle:
  assumes "RC_deadLetters r" "T_Ledger txn = l"
  shows "replay_txn r process env l txn e = handle_txn process env txn e"
  using assms by (simp add: replay_txn_def handle_txn_def recordDeadLetter_def deadLetter_def Let_def cong: prod.case_cong sum.case_cong)

lemma handle_txn_history: "handle_txn process env txn (e\<lparr>E_history := h\<rparr>) = (handle_txn process env txn e)\<lparr>E_history := h\<rparr>"
  by (auto simp: handle_txn_def Let_def split: prod.split sum.split)

lemma fold_handle_history:
  "fold (handle_txn process env) txns (e\<lparr>E_history := h\<rparr>) = (fold (handle_txn process env) txns e)\<lparr>E_history := h\<rparr>"
  by (induction txns arbitrary: e) (simp_all add: handle_txn_history)

text \<open>
  Replaying a ledger is polling it: on transactions that carry the number and the close time of their ledger, the
  reconciler with a dead-letter store leaves the same tables, application state and
  deduplicator as the poll loop followed by its cursor update. Only the ledger
  history differs: the reconciler does not record the hash of the ledger.
\<close>

theorem replay_equals_poll:
  assumes "RC_deadLetters r" "RC_poller r = EC_poller cfg"
    and "\<forall>txns. FetchTransactions env (L_Sequence l) = Inr txns \<longrightarrow>
      (\<forall>txn \<in> set txns. T_Ledger txn = L_Sequence l \<and> T_LedgerCloseTime txn = L_ClosedAt l)"
  shows "(snd (replay_ledger r process env l e))\<lparr>E_history := Record (L_Sequence l) (L_Hash l) (E_history e)\<rparr>
    = snd (on_world (Cursor_Update env (L_Sequence l)) (handle_ledger process env cfg l e))
    \<and> E_history (snd (replay_ledger r process env l e)) = E_history e"
proof -
  let ?h = "Record (L_Sequence l) (L_Hash l) (E_history e)"
  have hist: "E_history (fold (handle_txn process env) txns e) = E_history e" for txns
    by (induction txns arbitrary: e) (auto simp: handle_txn_def Let_def split: prod.split sum.split)
  obtain e1 where e1: "replay_ledger r process env l e = wrap_call ''updating cursor during reconciliation'' (on_world (Cursor_Update env (L_Sequence l)) e1)"
      "handle_ledger process env cfg l e = e1\<lparr>E_history := ?h\<rparr>" "E_history e1 = E_history e"
  proof (cases "FetchTransactions env (L_Sequence l)")
    case (Inl x)
    then show ?thesis using that [of e] by (simp add: replay_ledger_def handle_ledger_def)
  next
    case (Inr txns)
    let ?ts = "FilterByContract (EC_poller cfg) txns"
    have sub: "set ?ts \<subseteq> set txns" by (auto simp: FilterByContract_def)
    have "fold (replay_txn r process env (L_Sequence l)) ?ts e = fold (handle_txn process env) ?ts e"
      by (rule fold_cong [OF refl refl], rule ext) (use assms(1,3) Inr sub in \<open>auto intro!: replay_txn_handle\<close>)
    moreover have "fold (\<lambda>txn. handle_txn process env (txn\<lparr>T_LedgerCloseTime := L_ClosedAt l\<rparr>)) ?ts e' = fold (handle_txn process env) ?ts e'" for e'
    proof (rule fold_cong [OF refl refl])
      fix txn
      assume "txn \<in> set ?ts"
      then have "T_LedgerCloseTime txn = L_ClosedAt l" using assms(3) Inr sub by auto
      then have "txn\<lparr>T_LedgerCloseTime := L_ClosedAt l\<rparr> = txn" by simp
      then show "handle_txn process env (txn\<lparr>T_LedgerCloseTime := L_ClosedAt l\<rparr>) = handle_txn process env txn" by simp
    qed
    ultimately show ?thesis using that [of "fold (handle_txn process env) ?ts e"] Inr assms(2) hist
      by (simp add: replay_ledger_def handle_ledger_def Let_def fold_handle_history)
  qed
  obtain x w where xw: "Cursor_Update env (L_Sequence l) (E_world e1) = (x, w)" by fastforce
  then show ?thesis using e1 by (cases x) (simp_all add: on_world_def)
qed

section \<open>Backfills end\<close>

text \<open>The ledgers of a range.\<close>

lemma backfill_loop_range:
  assumes "sint toLedger < 2 ^ 63 - 1" "sint l \<le> sint toLedger + 1"
  shows "backfill_loop p process env dryRun toLedger l s
    = Some (fold (\<lambda>n. backfill_ledger p process (env (word_of_int n)) dryRun n) [sint l..sint toLedger] s)"
  using assms(2)
proof (induction "nat (sint toLedger + 1 - sint l)" arbitrary: l s)
  case 0
  then show ?case by (simp add: backfill_loop.simps)
next
  case (Suc k)
  then have le: "sint l \<le> sint toLedger" by simp
  have "sint (l + 1) = sint l + 1"
    using le assms(1) sint_ge [of l] by (simp add: sint_word_add signed_take_bit_int_eq_self)
  with Suc le have "backfill_loop p process env dryRun toLedger (l + 1) s'
      = Some (fold (\<lambda>n. backfill_ledger p process (env (word_of_int n)) dryRun n) [sint l + 1..sint toLedger] s')" for s'
    by simp
  moreover have "[sint l..sint toLedger] = sint l # [sint l + 1..sint toLedger]" using le by (simp add: upto.simps)
  ultimately show ?case using le by (subst backfill_loop.simps) simp
qed

lemma int64_top: "sint (l :: int64) \<le> 2 ^ 63 - 1"
  using sint_lt [of l] by simp

lemma backfill_loop_endless:
  assumes "backfill_loop p process env dryRun toLedger l s = Some y"
  shows "sint toLedger \<noteq> 2 ^ 63 - 1"
proof (rule backfill_loop.raw_induct [OF _ assms, where P = "\<lambda>p process env dryRun toLedger l s y. sint toLedger \<noteq> 2 ^ 63 - 1"])
  fix f :: "poller \<Rightarrow> 'b process \<Rightarrow> (int64 \<Rightarrow> ienv) \<Rightarrow> bool \<Rightarrow> int64 \<Rightarrow> int64 \<Rightarrow> int \<times> 'b world \<Rightarrow> (int \<times> 'b world) option"
  fix p :: poller and process :: "'b process" and env dryRun toLedger l s y
  assume f: "\<And>p process env dryRun toLedger l s y. f p process env dryRun toLedger l s = Some y \<Longrightarrow> sint toLedger \<noteq> 2 ^ 63 - 1"
    and body: "(if sint l \<le> sint toLedger then f p process env dryRun toLedger (l + 1) (backfill_ledger p process (env l) dryRun (sint l) s)
       else Some s) = Some y"
  show "sint toLedger \<noteq> 2 ^ 63 - 1"
  proof (cases "sint l \<le> sint toLedger")
    case True
    with body show ?thesis using f by simp
  next
    case False
    then show ?thesis using int64_top [of l] by simp
  qed
qed

text \<open>
  C39: a backfill ends unless its last ledger is the largest \<^verbatim>\<open>int64\<close>: for every other range \<^verbatim>\<open>Run\<close> returns, having worked on each ledger
  of the range once and in order; with that last ledger the loop variable wraps around and
  \<^verbatim>\<open>Run\<close> never returns. A dry run changes nothing.
\<close>

theorem backfill_terminates:
  "Backfill_Run p process env fromLedger toLedger dryRun w =
     (if sint toLedger < sint fromLedger then Some (Inl (Errorf ''fromLedger cannot be greater than toLedger''), w)
      else if sint toLedger = 2 ^ 63 - 1 then None
      else (case fold (\<lambda>n. backfill_ledger p process (env (word_of_int n)) dryRun n) [sint fromLedger..sint toLedger] (0, w) of
              (n, w') \<Rightarrow> Some (Inr n, if dryRun then w else w')))"
proof -
  have dry: "snd (fold (\<lambda>n. backfill_ledger p process (env (word_of_int n)) True n) ns s) = snd s" for ns s
  proof (induction ns arbitrary: s)
    case (Cons n ns)
    have "snd (fold (backfill_txn process (env (word_of_int n)) True) txs s) = snd s" for txs and s :: "int \<times> 'a world"
      by (induction txs arbitrary: s) (auto simp: backfill_txn_def split: prod.split)
    then have "snd (backfill_ledger p process (env (word_of_int n)) True n s) = snd s" by (simp add: backfill_ledger_def split: sum.split)
    then show ?case using Cons by simp
  qed simp
  have none: "backfill_loop p process env dryRun toLedger fromLedger (0, w) = None" if "sint toLedger = 2 ^ 63 - 1"
    using that backfill_loop_endless by (metis not_Some_eq)
  have some: "backfill_loop p process env dryRun toLedger fromLedger (0, w)
      = Some (fold (\<lambda>n. backfill_ledger p process (env (word_of_int n)) dryRun n) [sint fromLedger..sint toLedger] (0, w))"
    if "sint toLedger \<noteq> 2 ^ 63 - 1" "\<not> sint toLedger < sint fromLedger"
    by (rule backfill_loop_range) (use that int64_top [of toLedger] in auto)
  show ?thesis using none some dry [of "[sint fromLedger..sint toLedger]" "(0, w)"]
    by (cases dryRun) (auto simp: Backfill_Run_def split: prod.split)
qed

section \<open>Backfill of notifications\<close>

text \<open>An event whose notification the store refuses, whatever identifier it gets.\<close>

definition refused :: "(backfill_notification \<Rightarrow> error option) \<Rightarrow> past_event \<Rightarrow> bool" where
  "refused create ev = (mapEventTypeToNotification (PE_Type ev) \<noteq> [] \<and> (\<forall>i. create (notification_of i ev) \<noteq> None))"

lemma backfill_event_refused: "refused create ev \<Longrightarrow> backfill_event ids create ev s = s"
  by (cases s) (simp add: refused_def backfill_event_def processEvent_def Let_def split: option.split)

lemma backfill_batch_refused: "\<forall>ev \<in> set evs. refused create ev \<Longrightarrow> fold (backfill_event ids create) evs s = s"
  by (induction evs) (simp_all add: backfill_event_refused)

lemma notifications_endless:
  assumes "BackfillNotifications_Run since ids create cancelled clock n k s = Some y"
  shows "\<not> ((\<forall>i. cancelled i = None) \<and>
     (\<exists>evs. since (CP_LastProcessedEventID (fst s)) n = Inr evs \<and> evs \<noteq> [] \<and> (\<forall>ev \<in> set evs. refused create ev)))"
proof (rule BackfillNotifications_Run.raw_induct [OF _ assms, where P = "\<lambda>since ids create cancelled clock n k s y.
    \<not> ((\<forall>i. cancelled i = None) \<and>
     (\<exists>evs. since (CP_LastProcessedEventID (fst s)) n = Inr evs \<and> evs \<noteq> [] \<and> (\<forall>ev \<in> set evs. refused create ev)))"], rule notI)
  fix f since ids create cancelled clock n k s y
  assume IH: "\<And>since ids create cancelled clock n k s y. f since ids create cancelled clock n k s = Some y \<Longrightarrow>
      \<not> ((\<forall>i. cancelled i = None) \<and>
        (\<exists>evs. since (CP_LastProcessedEventID (fst s)) n = Inr evs \<and> evs \<noteq> [] \<and> (\<forall>ev \<in> set evs. refused create ev)))"
    and body: "(case cancelled k of Some e \<Rightarrow> Some (Inl e, s)
      | None \<Rightarrow> (case wrap_err ''fetching events'' (since (CP_LastProcessedEventID (fst s)) n) of Inl e \<Rightarrow> Some (Inl e, s)
      | Inr events \<Rightarrow> if events = [] then Some (Inr (), s) else f since ids create cancelled clock n (Suc k)
                 (apfst (\<lambda>cp. cp\<lparr>CP_LastUpdated := clock k\<rparr>) (fold (backfill_event ids create) events s)))) = Some y"
    and "(\<forall>i. cancelled i = None) \<and>
      (\<exists>evs. since (CP_LastProcessedEventID (fst s)) n = Inr evs \<and> evs \<noteq> [] \<and> (\<forall>ev \<in> set evs. refused create ev))"
  then obtain evs where live: "\<forall>i. cancelled i = None"
    and evs: "since (CP_LastProcessedEventID (fst s)) n = Inr evs" "evs \<noteq> []" "\<forall>ev \<in> set evs. refused create ev" by blast
  let ?s = "apfst (\<lambda>cp. cp\<lparr>CP_LastUpdated := clock k\<rparr>) s"
  have "f since ids create cancelled clock n (Suc k) ?s = Some y" using body live evs by (simp add: backfill_batch_refused)
  moreover have "CP_LastProcessedEventID (fst ?s) = CP_LastProcessedEventID (fst s)" by (cases s) simp
  ultimately show False using IH live evs by metis
qed

text \<open>The notifications of a list of events, without their identifiers.\<close>

definition projected :: "past_event list \<Rightarrow> backfill_notification list" where
  "projected evs = map (notification_of []) (filter (\<lambda>ev. mapEventTypeToNotification (PE_Type ev) \<noteq> []) evs)"

abbreviation unnamed :: "backfill_notification list \<Rightarrow> backfill_notification list" where
  "unnamed ns \<equiv> map (\<lambda>n. n\<lparr>BN_ID := []\<rparr>) ns"

lemma backfill_event_ok:
  assumes "\<And>n. create n = None"
  shows "\<exists>cp' ns'. backfill_event ids create ev (cp, ns) = (cp', ns') \<and> CP_LastProcessedEventID cp' = PE_ID ev
     \<and> CP_ProcessedCount cp' = CP_ProcessedCount cp + 1 \<and> unnamed ns' = unnamed ns @ projected [ev]"
  using assms by (simp add: backfill_event_def processEvent_def Let_def projected_def notification_of_def)

lemma backfill_batch_ok:
  assumes "\<And>n. create n = None"
  shows "\<exists>cp' ns'. fold (backfill_event ids create) evs (cp, ns) = (cp', ns')
     \<and> CP_LastProcessedEventID cp' = (if evs = [] then CP_LastProcessedEventID cp else PE_ID (last evs))
     \<and> CP_ProcessedCount cp' = CP_ProcessedCount cp + int (length evs) \<and> unnamed ns' = unnamed ns @ projected evs"
proof (induction evs arbitrary: cp ns)
  case (Cons ev evs)
  obtain cp1 ns1 where 1: "backfill_event ids create ev (cp, ns) = (cp1, ns1)" "CP_LastProcessedEventID cp1 = PE_ID ev"
      "CP_ProcessedCount cp1 = CP_ProcessedCount cp + 1" "unnamed ns1 = unnamed ns @ projected [ev]"
    using backfill_event_ok [of create, OF assms] by blast
  have "projected (ev # evs) = projected [ev] @ projected evs" by (simp add: projected_def)
  then show ?case using Cons.IH [of cp1 ns1] 1 by auto
qed (simp add: projected_def)

text \<open>The events that an event store returns: the first \<open>n\<close> after the checkpoint.\<close>

abbreviation after :: "past_event list \<Rightarrow> int \<Rightarrow> past_event list" where
  "after events i \<equiv> filter (\<lambda>ev. i < PE_ID ev) events"

lemma after_last:
  assumes "sorted_wrt (\<lambda>a b. PE_ID a < PE_ID b) events" "take n (after events i) \<noteq> []"
  shows "after events (PE_ID (last (take n (after events i)))) = drop n (after events i)"
proof -
  let ?xs = "after events i"
  have s: "sorted_wrt (\<lambda>a b. PE_ID a < PE_ID b) (take n ?xs @ drop n ?xs)" using assms(1) by (simp add: sorted_wrt_filter)
  let ?l = "last (take n ?xs)"
  have l: "?l \<in> set (take n ?xs)" using assms(2) by simp
  have lo: "\<not> PE_ID ?l < PE_ID x" if "x \<in> set (take n ?xs)" for x
  proof -
    have "sorted_wrt (\<lambda>a b. PE_ID a < PE_ID b) (butlast (take n ?xs) @ [?l])" using s assms(2) by (simp add: sorted_wrt_append)
    moreover have "x \<in> set (butlast (take n ?xs)) \<union> {?l}" using that assms(2) by (metis append_butlast_last_id set_append list.set(1) list.simps(15))
    ultimately show ?thesis by (auto simp: sorted_wrt_append)
  qed
  have hi: "PE_ID ?l < PE_ID x" if "x \<in> set (drop n ?xs)" for x using s [unfolded sorted_wrt_append] l that by blast
  have "i < PE_ID ?l" using l set_take_subset by fastforce
  then have "after events (PE_ID ?l) = after ?xs (PE_ID ?l)" by (auto intro: filter_cong)
  also have "\<dots> = after (take n ?xs @ drop n ?xs) (PE_ID ?l)" by simp
  also have "\<dots> = drop n ?xs" unfolding filter_append using lo hi by (simp add: filter_empty_conv filter_id_conv)
  finally show ?thesis .
qed

lemma notifications_complete:
  assumes "sorted_wrt (\<lambda>a b. PE_ID a < PE_ID b) events" "\<And>n. create n = None" "0 < n" "\<And>i. cancelled i = None"
  shows "\<exists>cp' ns'. BackfillNotifications_Run (\<lambda>i n. Inr (take (nat n) (after events i))) ids create cancelled clock n k (cp, ns) = Some (Inr (), cp', ns')
     \<and> unnamed ns' = unnamed ns @ projected (after events (CP_LastProcessedEventID cp))"
proof (induction "length (after events (CP_LastProcessedEventID cp))" arbitrary: cp ns k rule: less_induct)
  case less
  let ?xs = "after events (CP_LastProcessedEventID cp)"
  show ?case
  proof (cases "?xs = []")
    case True
    then show ?thesis using assms(4) by (simp add: BackfillNotifications_Run.simps projected_def)
  next
    case False
    then have ne: "take (nat n) ?xs \<noteq> []" using assms(3) by simp
    obtain cp1 ns1 where 1: "fold (backfill_event ids create) (take (nat n) ?xs) (cp, ns) = (cp1, ns1)"
        "CP_LastProcessedEventID cp1 = PE_ID (last (take (nat n) ?xs))" "unnamed ns1 = unnamed ns @ projected (take (nat n) ?xs)"
      using backfill_batch_ok [of create ids "take (nat n) ?xs" cp ns, OF assms(2)] ne by auto
    let ?cp = "cp1\<lparr>CP_LastUpdated := clock k\<rparr>"
    have rest: "after events (CP_LastProcessedEventID ?cp) = drop (nat n) ?xs" using after_last [OF assms(1) ne] 1(2) by simp
    have "length (drop (nat n) ?xs) < length ?xs" using False assms(3) by simp
    then obtain cp2 ns2 where 2: "BackfillNotifications_Run (\<lambda>i n. Inr (take (nat n) (after events i))) ids create cancelled clock n (Suc k) (?cp, ns1) = Some (Inr (), cp2, ns2)"
        "unnamed ns2 = unnamed ns1 @ projected (drop (nat n) ?xs)" using less(1) [of ?cp "Suc k" ns1] rest by auto
    have "projected ?xs = projected (take (nat n) ?xs) @ projected (drop (nat n) ?xs)"
      unfolding projected_def by (metis append_take_drop_id filter_append map_append)
    then have "unnamed ns2 = unnamed ns @ projected ?xs" using 1(3) 2(2) by simp
    moreover have "BackfillNotifications_Run (\<lambda>i n. Inr (take (nat n) (after events i))) ids create cancelled clock n k (cp, ns) = Some (Inr (), cp2, ns2)"
      using 1(1) 2(1) ne assms(4) by (subst BackfillNotifications_Run.simps) simp
    ultimately show ?thesis by blast
  qed
qed

text \<open>
  Rebuilding notifications: over an event log in the order of identifiers, with a store that accepts every notification, and unless its context is cancelled, the job
  returns and has added one notification for every event of a known type after the checkpoint, in order. But it never returns once it
  meets a batch of which the store refuses every notification: failed events do not move
  the checkpoint and the same batch is fetched again.
\<close>

theorem notifications_backfill_ends:
  assumes "sorted_wrt (\<lambda>a b. PE_ID a < PE_ID b) events" "0 < n" "\<And>i. cancelled i = None"
  shows "((\<forall>x. create x = None) \<longrightarrow>
      (\<exists>cp' ns'. BackfillNotifications_Run (\<lambda>i n. Inr (take (nat n) (after events i))) ids create cancelled clock n k (cp, ns) = Some (Inr (), cp', ns')
        \<and> unnamed ns' = unnamed ns @ projected (after events (CP_LastProcessedEventID cp))))
    \<and> (take (nat n) (after events (CP_LastProcessedEventID cp)) \<noteq> []
       \<and> (\<forall>ev \<in> set (take (nat n) (after events (CP_LastProcessedEventID cp))). refused create ev) \<longrightarrow>
       BackfillNotifications_Run (\<lambda>i n. Inr (take (nat n) (after events i))) ids create cancelled clock n k (cp, ns) = None)"
proof (intro conjI impI)
  assume "\<forall>x. create x = None"
  then show "\<exists>cp' ns'. BackfillNotifications_Run (\<lambda>i n. Inr (take (nat n) (after events i))) ids create cancelled clock n k (cp, ns) = Some (Inr (), cp', ns')
        \<and> unnamed ns' = unnamed ns @ projected (after events (CP_LastProcessedEventID cp))"
    using notifications_complete [of events create n cancelled, OF assms(1) _ assms(2) assms(3)] by blast
next
  assume bad: "take (nat n) (after events (CP_LastProcessedEventID cp)) \<noteq> []
       \<and> (\<forall>ev \<in> set (take (nat n) (after events (CP_LastProcessedEventID cp))). refused create ev)"
  show "BackfillNotifications_Run (\<lambda>i n. Inr (take (nat n) (after events i))) ids create cancelled clock n k (cp, ns) = None"
  proof (rule ccontr)
    assume "BackfillNotifications_Run (\<lambda>i n. Inr (take (nat n) (after events i))) ids create cancelled clock n k (cp, ns) \<noteq> None"
    then obtain y where "BackfillNotifications_Run (\<lambda>i n. Inr (take (nat n) (after events i))) ids create cancelled clock n k (cp, ns) = Some y" by blast
    from notifications_endless [OF this] bad assms(3) show False by simp
  qed
qed

section \<open>The watchdog\<close>

text \<open>A run of the watchdog: progress reports and checks, each with its time; the result counts the alerts.\<close>

datatype wd_event = Progress time | Tick time

fun wd_run :: "wd_event list \<Rightarrow> watchdog \<Rightarrow> nat \<times> watchdog" where
  "wd_run [] w = (0, w)"
| "wd_run (Progress t # es) w = wd_run es (Processed t w)"
| "wd_run (Tick t # es) w = (case Check t w of (alerted, w') \<Rightarrow> case wd_run es w' of (n, v) \<Rightarrow> ((if alerted then 1 else 0) + n, v))"

definition progress_count :: "wd_event list \<Rightarrow> nat" where
  "progress_count es = length (filter (\<lambda>e. case e of Progress t \<Rightarrow> True | Tick t \<Rightarrow> False) es)"

lemma wd_run_bound: "fst (wd_run es w) + (if WD_alerted w then 1 else 0) \<le> progress_count es + 1"
proof (induction es w rule: wd_run.induct)
  case (2 t es w)
  then show ?case by (simp add: progress_count_def Processed_def)
next
  case (3 t es w)
  have "fst (wd_run es (snd (Check t w))) + (if WD_alerted (snd (Check t w)) then 1 else 0) \<le> progress_count es + 1"
    using 3 [of "fst (Check t w)" "snd (Check t w)"] by simp
  then show ?case by (auto simp: Check_def progress_count_def split: prod.splits if_splits)
qed (simp add: progress_count_def)

text \<open>
  The watchdog alerts once per stall: in every run there is at most one alert more than progress reports, and without progress a check alerts
  exactly when the threshold has passed and no alert was given since the last report.
\<close>

theorem watchdog_alerts_once_per_stall:
  "fst (wd_run es (NewStallWatchdog d t0)) \<le> progress_count es + 1
   \<and> (fst (Check t w) \<longleftrightarrow> WD_threshold w \<le> t - WD_lastProgress w \<and> \<not> WD_alerted w)
   \<and> (fst (Check t (Processed t1 w)) \<longleftrightarrow> WD_threshold w \<le> t - t1)"
  using wd_run_bound [of es "NewStallWatchdog d t0"] by (auto simp: Check_def Processed_def NewStallWatchdog_def)

section \<open>Cached versions\<close>

text \<open>Every cached answer was given by the wrapped resolver at some recorded time, and is not kept longer than the \<^verbatim>\<open>ttl\<close>.\<close>

definition cache_ok :: "(time \<Rightarrow> string \<Rightarrow> string result) \<Rightarrow> time \<Rightarrow> version_cache \<Rightarrow> bool" where
  "cache_ok inner t c = (0 < VC_ttl c \<and> 0 < VC_failureTTL c \<and> VC_failureTTL c \<le> max (VC_ttl c) second \<and>
     (\<forall>i entry. map_of (VC_cache c) i = Some entry \<longrightarrow>
        (\<exists>t0 \<le> t. CV_result entry = checked_version (inner t0 i) \<and> CV_expires entry \<le> t0 + max (VC_ttl c) second)))"

lemma cache_ok_new: "cache_ok inner t (NewCachingContractVersionResolver ttl)"
  by (auto simp: cache_ok_def NewCachingContractVersionResolver_def DefaultContractVersionTTL_def Let_def)

lemma cache_ok_step:
  assumes "cache_ok inner t c" "t \<le> t'"
  shows "cache_ok inner t' (snd (snd (CachingResolve (inner t') t' t' i c)))"
proof -
  have later: "cache_ok inner t' c" using assms order_trans unfolding cache_ok_def by blast
  have new: "t' + (case checked_version (inner t' i) of Inl e \<Rightarrow> VC_failureTTL c | Inr v \<Rightarrow> VC_ttl c) \<le> t' + max (VC_ttl c) second"
    using assms(1) by (auto simp: cache_ok_def split: sum.split)
  show ?thesis using later new
    by (auto simp: CachingResolve_def Let_def cache_ok_def update_Some_unfold update_conv' split: option.split)
qed

fun resolve_all :: "(time \<Rightarrow> string \<Rightarrow> string result) \<Rightarrow> (time \<times> string) list \<Rightarrow> version_cache \<Rightarrow> version_cache" where
  "resolve_all inner [] c = c"
| "resolve_all inner ((t, i) # calls) c = resolve_all inner calls (snd (snd (CachingResolve (inner t) t t i c)))"

lemma cache_ok_run:
  assumes "sorted (map fst calls)" "\<forall>u \<in> set (map fst calls). t0 \<le> u" "\<forall>u \<in> set (map fst calls). u \<le> t" "t0 \<le> t" "cache_ok inner t0 c"
  shows "cache_ok inner t (resolve_all inner calls c)"
  using assms
proof (induction inner calls c arbitrary: t0 rule: resolve_all.induct)
  case (1 inner c)
  then show ?case using order_trans unfolding resolve_all.simps cache_ok_def by blast
next
  case (2 inner u i calls c)
  then have "cache_ok inner u (snd (snd (CachingResolve (inner u) u u i c)))" by (intro cache_ok_step) auto
  then show ?case using 2 by auto
qed

text \<open>
  Cached contract versions are recent: after any sequence of look-ups in the order of time, an answer is one
  that the wrapped resolver gives, or gave less than one \<^verbatim>\<open>ttl\<close> (at least a second) ago; an
  empty version is never answered.
\<close>

theorem cached_version_recent:
  assumes "sorted (map fst calls)" "\<forall>u \<in> set (map fst calls). u \<le> t"
    and "CachingResolve (inner t) t t i (resolve_all inner calls (NewCachingContractVersionResolver ttl)) = (res, called, c)"
  shows "res \<noteq> Inr [] \<and> (\<exists>t0 \<le> t. res = checked_version (inner t0 i)
    \<and> (t0 = t \<or> t < t0 + max (VC_ttl (resolve_all inner calls (NewCachingContractVersionResolver ttl))) second))"
proof -
  let ?c = "resolve_all inner calls (NewCachingContractVersionResolver ttl)"
  define u where "u = Min (insert t (set (map fst calls)))"
  have "u \<le> t" "\<forall>v \<in> set (map fst calls). u \<le> v" unfolding u_def by auto
  then have ok: "cache_ok inner t ?c" using cache_ok_run [OF assms(1) _ assms(2) _ cache_ok_new, of u] by simp
  have ne: "checked_version r \<noteq> Inr []" for r by (simp add: checked_version_def)
  show ?thesis
  proof (cases "\<exists>entry. map_of (VC_cache ?c) i = Some entry \<and> t < CV_expires entry")
    case True
    then obtain entry where e: "map_of (VC_cache ?c) i = Some entry" "t < CV_expires entry" by blast
    with ok obtain t0 where "t0 \<le> t" "CV_result entry = checked_version (inner t0 i)" "CV_expires entry \<le> t0 + max (VC_ttl ?c) second"
      unfolding cache_ok_def by blast
    moreover have "res = CV_result entry" using assms(3) e by (simp add: CachingResolve_def)
    ultimately show ?thesis using e(2) ne by (metis less_le_trans)
  next
    case False
    then have "res = checked_version (inner t i)" using assms(3) by (auto simp: CachingResolve_def Let_def split: option.splits)
    then show ?thesis using ne by auto
  qed
qed

section \<open>Demonstration\<close>

definition paged_env :: "nat \<Rightarrow> ienv" where
  "paged_env k = (chain_env old_branch (Records [''a'']) 100)\<lparr>hz_ledgers := (\<lambda>token limit.
     Records (map (chain_ledger old_branch) [token div 2 ^ 32 + 1..min 5 (token div 2 ^ 32 + limit)]))\<rparr>"

lemma paged_serves: "serves (chain_ledger old_branch) 5 (paged_env k)"
proof -
  have "paging_token c div 2 ^ 32 = c" if "0 \<le> c" "c \<le> 5" for c
  proof -
    have "c \<in> {0, 1, 2, 3, 4, 5}" using that by auto
    moreover have "\<forall>c \<in> {0, 1, 2, 3, 4, 5}. paging_token c div 2 ^ 32 = c" by code_simp
    ultimately show ?thesis by blast
  qed
  then show ?thesis by (simp add: serves_def paged_env_def chain_ledger_def)
qed

definition demo_reconciler :: reconciler where
  "demo_reconciler = WithMaxLedgersPerCycle 2 (WithDeadLetters True (NewReconciler \<lparr>PL_contractIDs = []\<rparr>))"

lemma demo_max: "max_per_cycle demo_reconciler = 2"
  by code_simp

lemma store_event_keeps: "keeps_cursor store_event"
  by (simp add: keeps_cursor_def store_event_def)

theorem reconciler_catches_up_witness:
  "reached 4 (snd (Reconcile demo_reconciler store_event paged_env (\<lambda>_. None) start_engine))
   \<and> reached 5 (fold (\<lambda>env e. snd (Reconcile demo_reconciler store_event env (\<lambda>_. None) e)) [paged_env, paged_env] start_engine)"
proof -
  have f: "fault (paged_env k) q = None" for k q by (simp add: paged_env_def chain_env_def)
  have r: "reached 2 start_engine" by code_simp
  show ?thesis
    using reconciler_catches_up [OF store_event_keeps _ r, of "[paged_env]" "chain_ledger old_branch" 5 demo_reconciler]
      reconciler_catches_up [OF store_event_keeps _ r, of "[paged_env, paged_env]" "chain_ledger old_branch" 5 demo_reconciler]
      f paged_serves by (simp add: demo_max)
qed

theorem replay_equals_poll_witness:
  "E_dedup (snd (replay_ledger demo_reconciler store_event (paged_env 0) (chain_ledger old_branch 4) start_engine))
   = E_dedup (handle_ledger store_event (paged_env 0) chain_cfg (chain_ledger old_branch 4) start_engine)"
proof -
  have p: "RC_deadLetters demo_reconciler" "RC_poller demo_reconciler = EC_poller chain_cfg" by code_simp+
  have n: "\<forall>txns. FetchTransactions (paged_env 0) (L_Sequence (chain_ledger old_branch 4)) = Inr txns \<longrightarrow>
      (\<forall>txn \<in> set txns. T_Ledger txn = L_Sequence (chain_ledger old_branch 4) \<and> T_LedgerCloseTime txn = L_ClosedAt (chain_ledger old_branch 4))"
    by (simp add: FetchTransactions_def paged_env_def chain_env_def chain_ledger_def decode_def)
  have d: "E_dedup (snd (on_world f e)) = E_dedup e" for f and e :: "unit engine" by (simp add: on_world_def split: prod.split)
  have h: "E_dedup (e\<lparr>E_history := h\<rparr>) = E_dedup e" for h and e :: "unit engine" by simp
  show ?thesis using replay_equals_poll [OF p n, of start_engine store_event] by (metis d h)
qed

definition past :: past_event where
  "past = \<lparr>PE_ID = 3, PE_Type = ''circle.joined'', PE_UserID = ''u'', PE_Title = [], PE_Body = [], PE_Data = [], PE_CreatedAt = 0\<rparr>"

definition new_job :: checkpoint where
  "new_job = snd (NewBackfillNotifications 0 5)"

theorem notifications_backfill_ends_witness:
  "(\<exists>cp' ns'. BackfillNotifications_Run (\<lambda>i n. Inr (take (nat n) (after [past] i))) (\<lambda>_. []) (\<lambda>_. None) (\<lambda>_. None) (\<lambda>_. 9) 100 0
      (new_job, []) = Some (Inr (), cp', ns') \<and> unnamed ns' = projected [past])
   \<and> BackfillNotifications_Run (\<lambda>i n. Inr (take (nat n) (after [past] i))) (\<lambda>_. []) (\<lambda>_. Some (Errorf ''down'')) (\<lambda>_. None) (\<lambda>_. 9) 100 0
      (new_job, []) = None"
  using notifications_backfill_ends [of "[past]" 100 "\<lambda>_. None" "\<lambda>_. None" "\<lambda>_. []" "\<lambda>_. 9" 0 new_job "[]"]
    notifications_backfill_ends [of "[past]" 100 "\<lambda>_. None" "\<lambda>_. Some (Errorf ''down'')" "\<lambda>_. []" "\<lambda>_. 9" 0 new_job "[]"]
  by (simp add: past_def refused_def mapEventTypeToNotification_def new_job_def NewBackfillNotifications_def)

end
