(* ===== verification/Community.thy ===== *)
theory Community
  imports CircleLife
begin

text \<open>
  \<^verbatim>\<open>internal/domain/community\<close>: communities, their members, announcements and activity log.

  The state \<open>comm_db\<close> holds the four tables of migration 019 and what the broadcaster was sent. The
  statements check the primary keys, the unique slug (which also covers deleted rows), the
  foreign keys into \<^verbatim>\<open>communities\<close>, the check on roles and the column bounds that an
  operation can reach; rows of other tables (users) are behind \<open>fault\<close>. A nil
  \<^verbatim>\<open>pq.StringArray\<close> is sent as \<^verbatim>\<open>NULL\<close>, so tags are optional and the \<^verbatim>\<open>NOT NULL\<close> of their
  column is checked. A Go map cannot be converted to a parameter of a statement, nor can a
  column be scanned into one: the driver refuses the activity log for that reason.
\<close>

section \<open>Model\<close>

record community =
  Com_ID :: uuid
  Com_Name :: string
  Com_Slug :: string
  Com_Description :: string
  Com_Category :: string
  Com_Tags :: "string list option"
  Com_AvatarURL :: "string option"
  Com_BannerURL :: "string option"
  Com_OwnerID :: uuid
  Com_MemberCount :: int
  Com_TotalSaved :: float64
  Com_IsFeatured :: bool
  Com_CreatedAt :: time
  Com_UpdatedAt :: time
  Com_DeletedAt :: "time option"

record community_member =
  Mem_CommunityID :: uuid
  Mem_UserID :: uuid
  Mem_Role :: string
  Mem_JoinedAt :: time

record announcement =
  An_ID :: uuid
  An_CommunityID :: uuid
  An_AuthorID :: uuid
  An_Content :: string
  An_IsPinned :: bool
  An_LikeCount :: int
  An_CreatedAt :: time
  An_UpdatedAt :: time

record activity_event =
  Act_ID :: uuid
  Act_CommunityID :: uuid
  Act_EventType :: string
  Act_ActorID :: "uuid option"
  Act_TargetID :: "uuid option"
  Act_Metadata :: "(string \<times> string) list"
  Act_CreatedAt :: time

record CreateCommunityInput =
  CCI_Name :: string
  CCI_Slug :: string
  CCI_Description :: string
  CCI_Category :: string
  CCI_Tags :: "string list option"

record UpdateCommunityInput =
  UCI_Name :: "string option"
  UCI_Description :: "string option"
  UCI_Category :: "string option"
  UCI_Tags :: "string list option"
  UCI_AvatarURL :: "string option"
  UCI_BannerURL :: "string option"

record community_filter =
  CF_Search :: string
  CF_Category :: string
  CF_Page :: int64
  CF_Limit :: int64

datatype comm_stmt =
    MQ_Insert uuid | MQ_FindByID uuid | MQ_FindBySlug string | MQ_Count | MQ_List | MQ_Update uuid | MQ_Delete uuid
  | MQ_InsertMember uuid uuid | MQ_UpdateCount uuid | MQ_DeleteMember uuid uuid | MQ_UpdateRole uuid uuid | MQ_Members uuid
  | MQ_IsMember uuid uuid | MQ_MemberCount uuid | MQ_InsertAnnouncement uuid | MQ_Announcements uuid | MQ_Announcement uuid
  | MQ_DeleteAnnouncement uuid | MQ_Like uuid | MQ_Pin uuid | MQ_Activity uuid | MQ_TotalSaved uuid | MQ_ByUser uuid | MQ_UpdateOwner uuid

record comm_env = "comm_stmt env" +
  comm_ilike :: "string \<Rightarrow> string \<Rightarrow> bool"
  collation :: "string \<Rightarrow> int"

record comm_db =
  M_communities :: "community list"
  M_members :: "community_member list"
  M_announcements :: "announcement list"
  M_activity :: "activity_event list"
  M_sent :: "(string \<times> string) list"

type_synonym 'a comm_op = "comm_db \<Rightarrow> 'a result \<times> comm_db"

section \<open>Repository\<close>

definition pq_error :: "string \<Rightarrow> error" where
  "pq_error m = Driver (''pq: '' @ m)"

definition column_check :: "community \<Rightarrow> error option" where
  "column_check c =
     (if Com_Tags c = None then Some (pq_error ''null value in column tags'')
      else if length (Com_Name c) > 100 \<or> length (Com_Slug c) > 120 \<or> length (Com_Category c) > 50 then Some (pq_error ''value too long'')
      else None)"

definition Com_Create :: "comm_env \<Rightarrow> community \<Rightarrow> unit comm_op" where
  "Com_Create env c d =
     (case exec_stmt env (MQ_Insert (Com_ID c))
             (\<lambda>d. case column_check c of Some e \<Rightarrow> Some e | None \<Rightarrow>
                if \<exists>r \<in> set (M_communities d). Com_ID r = Com_ID c \<or> Com_Slug r = Com_Slug c then Some unique_violation else None)
             (\<lambda>d. d\<lparr>M_communities := M_communities d @ [c\<lparr>Com_DeletedAt := None\<rparr>]\<rparr>) d of
        (Inl e, d') \<Rightarrow> (if isUniqueViolationPg e then Inl (Sentinel App_ErrConflict) else Inl (Wrap ''creating community'' e), d')
      | (Inr u, d') \<Rightarrow> (Inr u, d'))"

definition scanCommunity :: "community option result \<Rightarrow> community result" where
  "scanCommunity r =
     (case r of
        Inl e \<Rightarrow> if e = Sentinel Sql_ErrNoRows then Inl (Sentinel App_ErrNotFound) else Inl (Wrap ''scanning community'' e)
      | Inr None \<Rightarrow> Inl (Sentinel App_ErrNotFound)
      | Inr (Some c) \<Rightarrow> Inr c)"

definition live_community :: "(community \<Rightarrow> bool) \<Rightarrow> comm_db \<Rightarrow> community option" where
  "live_community p d = List.find (\<lambda>c. p c \<and> Com_DeletedAt c = None) (M_communities d)"

definition Com_FindByID :: "comm_env \<Rightarrow> uuid \<Rightarrow> comm_db \<Rightarrow> community result" where
  "Com_FindByID env i d = scanCommunity (run_query env (MQ_FindByID i) (live_community (\<lambda>c. Com_ID c = i) d))"

definition FindBySlug :: "comm_env \<Rightarrow> string \<Rightarrow> comm_db \<Rightarrow> community result" where
  "FindBySlug env slug d = scanCommunity (run_query env (MQ_FindBySlug slug) (live_community (\<lambda>c. Com_Slug c = slug) d))"

definition community_matches :: "comm_env \<Rightarrow> community_filter \<Rightarrow> community \<Rightarrow> bool" where
  "community_matches env f c =
     (let pat = ''%'' @ CF_Search f @ ''%'' in
      (CF_Search f \<noteq> [] \<longrightarrow> comm_ilike env pat (Com_Name c) \<or> comm_ilike env pat (Com_Description c))
      \<and> (CF_Category f \<noteq> [] \<longrightarrow> Com_Category c = CF_Category f) \<and> Com_DeletedAt c = None)"

text \<open>Featured communities first, then by the number of members.\<close>

definition featured_order :: "community list \<Rightarrow> community list" where
  "featured_order cs = sort_key (\<lambda>c. if Com_IsFeatured c then 0 else 1 :: int) (sort_key (\<lambda>c. - Com_MemberCount c) cs)"

definition Com_List :: "comm_env \<Rightarrow> community_filter \<Rightarrow> comm_db \<Rightarrow> (community list \<times> nat) result" where
  "Com_List env f d =
     (let rows = filter (community_matches env f) (M_communities d) in
      case wrap_err ''counting communities'' (run_query env MQ_Count (length rows)) of
        Inl e \<Rightarrow> Inl e
      | Inr n \<Rightarrow>
          (case wrap_err ''listing communities'' (case run_query env MQ_List () of Inl e \<Rightarrow> Inl e
                  | Inr _ \<Rightarrow> page_rows (CF_Page f) (CF_Limit f) (featured_order rows)) of
             Inl e \<Rightarrow> Inl e
           | Inr page \<Rightarrow> Inr (page, n)))"

definition write_community :: "time \<Rightarrow> community \<Rightarrow> community \<Rightarrow> community" where
  "write_community t c r = r\<lparr>Com_Name := Com_Name c, Com_Description := Com_Description c, Com_Category := Com_Category c,
     Com_Tags := Com_Tags c, Com_AvatarURL := Com_AvatarURL c, Com_BannerURL := Com_BannerURL c, Com_UpdatedAt := t\<rparr>"

definition Com_Update :: "comm_env \<Rightarrow> community \<Rightarrow> unit comm_op" where
  "Com_Update env c d =
     perform (wrap_call ''updating community''
       (exec_stmt env (MQ_Update (Com_ID c)) (\<lambda>d. if \<exists>r \<in> set (M_communities d). Com_ID r = Com_ID c then column_check c else None)
          (\<lambda>d. d\<lparr>M_communities := update_where (\<lambda>r. Com_ID r = Com_ID c) (write_community (now env) c) (M_communities d)\<rparr>) d)) (\<lambda>_ d'.
     guard (rows_affected (\<lambda>r. Com_ID r = Com_ID c) (M_communities d) = 0) (Sentinel App_ErrNotFound) d' (Inr (), d'))"

definition Com_Delete :: "comm_env \<Rightarrow> uuid \<Rightarrow> unit comm_op" where
  "Com_Delete env i d =
     exec_stmt env (MQ_Delete i) no_check
       (\<lambda>d. d\<lparr>M_communities := update_where (\<lambda>r. Com_ID r = i) (\<lambda>r. r\<lparr>Com_DeletedAt := Some (now env)\<rparr>) (M_communities d)\<rparr>) d"

definition members_of :: "comm_db \<Rightarrow> uuid \<Rightarrow> community_member list" where
  "members_of d i = filter (\<lambda>m. Mem_CommunityID m = i) (M_members d)"

definition update_count :: "comm_env \<Rightarrow> uuid \<Rightarrow> unit comm_op" where
  "update_count env i d =
     exec_stmt env (MQ_UpdateCount i) no_check
       (\<lambda>d. d\<lparr>M_communities := update_where (\<lambda>r. Com_ID r = i) (\<lambda>r. r\<lparr>Com_MemberCount := int (length (members_of d i))\<rparr>) (M_communities d)\<rparr>) d"

definition AddMember :: "comm_env \<Rightarrow> community_member \<Rightarrow> unit comm_op" where
  "AddMember env m d =
     (case exec_stmt env (MQ_InsertMember (Mem_CommunityID m) (Mem_UserID m))
             (\<lambda>d. if Mem_Role m \<notin> {''admin'', ''moderator'', ''member''} then Some (pq_error ''check constraint'')
                  else if \<exists>r \<in> set (M_members d). Mem_CommunityID r = Mem_CommunityID m \<and> Mem_UserID r = Mem_UserID m then Some unique_violation
                  else if \<forall>c \<in> set (M_communities d). Com_ID c \<noteq> Mem_CommunityID m then Some (pq_error ''foreign key'')
                  else None)
             (\<lambda>d. d\<lparr>M_members := M_members d @ [m]\<rparr>) d of
        (Inl e, d') \<Rightarrow> (if isUniqueViolationPg e then Inl (Sentinel App_ErrConflict) else Inl (Wrap ''adding member'' e), d')
      | (Inr _, d') \<Rightarrow> update_count env (Mem_CommunityID m) d')"

definition Com_RemoveMember :: "comm_env \<Rightarrow> uuid \<Rightarrow> uuid \<Rightarrow> unit comm_op" where
  "Com_RemoveMember env i u d =
     perform (wrap_call ''removing member''
       (exec_stmt env (MQ_DeleteMember i u) no_check
          (\<lambda>d. d\<lparr>M_members := filter (\<lambda>m. \<not> (Mem_CommunityID m = i \<and> Mem_UserID m = u)) (M_members d)\<rparr>) d)) (\<lambda>_ d'.
     (Inr (), snd (update_count env i d')))"

definition UpdateMemberRole :: "comm_env \<Rightarrow> uuid \<Rightarrow> uuid \<Rightarrow> string \<Rightarrow> unit comm_op" where
  "UpdateMemberRole env i u role d =
     exec_stmt env (MQ_UpdateRole i u)
       (\<lambda>d. if (\<exists>m \<in> set (M_members d). Mem_CommunityID m = i \<and> Mem_UserID m = u) \<and> role \<notin> {''admin'', ''moderator'', ''member''}
            then Some (pq_error ''check constraint'') else None)
       (\<lambda>d. d\<lparr>M_members := update_where (\<lambda>m. Mem_CommunityID m = i \<and> Mem_UserID m = u) (\<lambda>m. m\<lparr>Mem_Role := role\<rparr>) (M_members d)\<rparr>) d"

definition Com_GetMembers :: "comm_env \<Rightarrow> uuid \<Rightarrow> comm_db \<Rightarrow> community_member list result" where
  "Com_GetMembers env i d = wrap_err ''getting members'' (run_query env (MQ_Members i) (sort_key Mem_JoinedAt (members_of d i)))"

definition Com_IsMember :: "comm_env \<Rightarrow> uuid \<Rightarrow> uuid \<Rightarrow> comm_db \<Rightarrow> bool result" where
  "Com_IsMember env i u d = run_query env (MQ_IsMember i u) (0 < length (filter (\<lambda>m. Mem_CommunityID m = i \<and> Mem_UserID m = u) (M_members d)))"

definition Com_GetMemberCount :: "comm_env \<Rightarrow> uuid \<Rightarrow> comm_db \<Rightarrow> nat result" where
  "Com_GetMemberCount env i d = run_query env (MQ_MemberCount i) (length (members_of d i))"

definition Com_CreateAnnouncement :: "comm_env \<Rightarrow> announcement \<Rightarrow> unit comm_op" where
  "Com_CreateAnnouncement env a d =
     exec_stmt env (MQ_InsertAnnouncement (An_ID a))
       (\<lambda>d. if \<exists>r \<in> set (M_announcements d). An_ID r = An_ID a then Some unique_violation
            else if \<forall>c \<in> set (M_communities d). Com_ID c \<noteq> An_CommunityID a then Some (pq_error ''foreign key'') else None)
       (\<lambda>d. d\<lparr>M_announcements := M_announcements d @ [a]\<rparr>) d"

definition Com_GetAnnouncements :: "comm_env \<Rightarrow> uuid \<Rightarrow> bool \<Rightarrow> comm_db \<Rightarrow> announcement list result" where
  "Com_GetAnnouncements env i pinned d =
     (let rows = filter (\<lambda>a. An_CommunityID a = i) (M_announcements d) in
      wrap_err ''getting announcements'' (run_query env (MQ_Announcements i)
        (if pinned then sort_key (\<lambda>a. - An_CreatedAt a) (filter An_IsPinned rows)
         else take 20 (sort_key (\<lambda>a. if An_IsPinned a then 0 else 1 :: int) (sort_key (\<lambda>a. - An_CreatedAt a) rows)))))"

definition GetAnnouncementByID :: "comm_env \<Rightarrow> uuid \<Rightarrow> comm_db \<Rightarrow> announcement result" where
  "GetAnnouncementByID env i d =
     wrap_err ''getting announcement''
       (case run_query env (MQ_Announcement i) (List.find (\<lambda>a. An_ID a = i) (M_announcements d)) of
          Inl e \<Rightarrow> Inl e | Inr None \<Rightarrow> Inl (Sentinel Sql_ErrNoRows) | Inr (Some a) \<Rightarrow> Inr a)"

definition Com_DeleteAnnouncement :: "comm_env \<Rightarrow> uuid \<Rightarrow> unit comm_op" where
  "Com_DeleteAnnouncement env i d =
     exec_stmt env (MQ_DeleteAnnouncement i) no_check (\<lambda>d. d\<lparr>M_announcements := filter (\<lambda>a. An_ID a \<noteq> i) (M_announcements d)\<rparr>) d"

text \<open>The counter is an \<^verbatim>\<open>INTEGER\<close>.\<close>

definition Com_LikeAnnouncement :: "comm_env \<Rightarrow> uuid \<Rightarrow> unit comm_op" where
  "Com_LikeAnnouncement env i d =
     exec_stmt env (MQ_Like i)
       (\<lambda>d. if \<exists>a \<in> set (M_announcements d). An_ID a = i \<and> An_LikeCount a + 1 \<ge> 2 ^ 31 then Some (pq_error ''integer out of range'') else None)
       (\<lambda>d. d\<lparr>M_announcements := update_where (\<lambda>a. An_ID a = i) (\<lambda>a. a\<lparr>An_LikeCount := An_LikeCount a + 1\<rparr>) (M_announcements d)\<rparr>) d"

definition SetAnnouncementPin :: "comm_env \<Rightarrow> uuid \<Rightarrow> bool \<Rightarrow> unit comm_op" where
  "SetAnnouncementPin env i pinned d =
     exec_stmt env (MQ_Pin i) no_check
       (\<lambda>d. d\<lparr>M_announcements := update_where (\<lambda>a. An_ID a = i) (\<lambda>a. a\<lparr>An_IsPinned := pinned\<rparr>) (M_announcements d)\<rparr>) d"

definition Com_RecordActivity :: "comm_env \<Rightarrow> activity_event \<Rightarrow> unit comm_op" where
  "Com_RecordActivity env e d = (Inl (Driver ''sql: converting argument $6 type: unsupported type map[string]interface {}, a map''), d)"

definition Com_GetActivity :: "comm_env \<Rightarrow> uuid \<Rightarrow> int \<Rightarrow> comm_db \<Rightarrow> activity_event list result" where
  "Com_GetActivity env i limit d =
     (let n = (if limit < 1 \<or> limit > 100 then 50 else limit);
          rows = take (nat n) (sort_key (\<lambda>e. - Act_CreatedAt e) (filter (\<lambda>e. Act_CommunityID e = i) (M_activity d))) in
      case wrap_err ''getting activity'' (run_query env (MQ_Activity i) ()) of
        Inl e \<Rightarrow> Inl e
      | Inr _ \<Rightarrow> if rows = [] then Inr [] else Inl (Driver ''sql: unsupported Scan into map[string]interface {}''))"

text \<open>\<^verbatim>\<open>SUM\<close> over a \<^verbatim>\<open>NUMERIC\<close> column is exact; the sum of no rows is \<^verbatim>\<open>NULL\<close>, here 0.\<close>

fun numeric_sum :: "float64 list \<Rightarrow> float64" where
  "numeric_sum [] = Finite 0"
| "numeric_sum (Finite x # xs) = (case numeric_sum xs of Finite y \<Rightarrow> Finite (x + y) | y \<Rightarrow> y)"
| "numeric_sum (x # xs) = x"

definition Com_UpdateTotalSaved :: "comm_env \<Rightarrow> circle list \<Rightarrow> uuid \<Rightarrow> unit comm_op" where
  "Com_UpdateTotalSaved env circles i d =
     exec_stmt env (MQ_TotalSaved i) no_check
       (\<lambda>d. d\<lparr>M_communities := update_where (\<lambda>r. Com_ID r = i) (\<lambda>r. r\<lparr>Com_TotalSaved := numeric_sum
          (map C_TotalContributions (filter (\<lambda>c. C_DeletedAt c = None \<and> C_CommunityID c = Some i) circles))\<rparr>) (M_communities d)\<rparr>) d"

definition FindByUserID :: "comm_env \<Rightarrow> uuid \<Rightarrow> comm_db \<Rightarrow> community list result" where
  "FindByUserID env u d =
     wrap_err ''finding communities by user'' (run_query env (MQ_ByUser u) (sort_key (\<lambda>c. collation env (Com_Name c))
       (filter (\<lambda>c. Com_DeletedAt c = None \<and> (\<exists>m \<in> set (M_members d). Mem_CommunityID m = Com_ID c \<and> Mem_UserID m = u)) (M_communities d))))"

definition UpdateOwner :: "comm_env \<Rightarrow> uuid \<Rightarrow> uuid \<Rightarrow> unit comm_op" where
  "UpdateOwner env i newOwner d =
     exec_stmt env (MQ_UpdateOwner i) no_check
       (\<lambda>d. d\<lparr>M_communities := update_where (\<lambda>r. Com_ID r = i) (\<lambda>r. r\<lparr>Com_OwnerID := newOwner\<rparr>) (M_communities d)\<rparr>) d"

section \<open>Service\<close>

definition comm_parseUUID :: "comm_env \<Rightarrow> string \<Rightarrow> uuid result" where
  "comm_parseUUID env s = (case uuid_Parse env s of None \<Rightarrow> Inl (Wrap ''invalid UUID'' (Driver ''invalid UUID'')) | Some u \<Rightarrow> Inr u)"

text \<open>Where the error of \<^verbatim>\<open>parseUUID\<close> is ignored the identifier is \<^verbatim>\<open>uuid.Nil\<close>.\<close>

definition parse_or_nil :: "comm_env \<Rightarrow> string \<Rightarrow> uuid" where
  "parse_or_nil env s = (case uuid_Parse env s of None \<Rightarrow> 0 | Some u \<Rightarrow> u)"

definition new_community :: "comm_env \<Rightarrow> uuid \<Rightarrow> CreateCommunityInput \<Rightarrow> community" where
  "new_community env owner input =
     \<lparr>Com_ID = uuid_New env 0, Com_Name = CCI_Name input, Com_Slug = CCI_Slug input, Com_Description = CCI_Description input,
      Com_Category = (if CCI_Category input = [] then ''community'' else CCI_Category input), Com_Tags = CCI_Tags input,
      Com_AvatarURL = None, Com_BannerURL = None, Com_OwnerID = owner, Com_MemberCount = 1, Com_TotalSaved = Finite 0,
      Com_IsFeatured = False, Com_CreatedAt = now env, Com_UpdatedAt = now env, Com_DeletedAt = None\<rparr>"

definition Community_Create :: "comm_env \<Rightarrow> string \<Rightarrow> CreateCommunityInput \<Rightarrow> community comm_op" where
  "Community_Create env userID input d =
     attempt (comm_parseUUID env userID) d (\<lambda>owner.
     let c = new_community env owner input in
     case Com_Create env c d of
       (Inl e, d') \<Rightarrow>
         (if e = Sentinel App_ErrConflict then Inl (Errorf ''a community with this slug already exists'') else Inl (Wrap ''creating community'' e), d')
     | (Inr _, d') \<Rightarrow>
         (case AddMember env \<lparr>Mem_CommunityID = Com_ID c, Mem_UserID = owner, Mem_Role = ''admin'', Mem_JoinedAt = now env\<rparr> d' of
            (Inl e, d'') \<Rightarrow> (Inl (Wrap ''adding owner as member'' e), snd (Com_Delete env (Com_ID c) d''))
          | (Inr _, d'') \<Rightarrow> (Inr c, d'')))"

definition Community_Get :: "comm_env \<Rightarrow> string \<Rightarrow> comm_db \<Rightarrow> community result" where
  "Community_Get env i d =
     (case comm_parseUUID env i of
        Inl e \<Rightarrow> Inl e
      | Inr uid \<Rightarrow> (case Com_FindByID env uid d of
          Inl e \<Rightarrow> Inl (if e = Sentinel App_ErrNotFound then e else Wrap ''getting community'' e) | Inr c \<Rightarrow> Inr c))"

definition GetBySlug :: "comm_env \<Rightarrow> string \<Rightarrow> comm_db \<Rightarrow> community result" where
  "GetBySlug env slug d = FindBySlug env slug d"

definition Community_List :: "comm_env \<Rightarrow> community_filter \<Rightarrow> comm_db \<Rightarrow> (community list \<times> nat) result" where
  "Community_List env f d = wrap_err ''listing communities'' (Com_List env f d)"

definition apply_update :: "UpdateCommunityInput \<Rightarrow> community \<Rightarrow> community" where
  "apply_update input c = c\<lparr>Com_Name := with_default (UCI_Name input) (Com_Name c),
     Com_Description := with_default (UCI_Description input) (Com_Description c), Com_Category := with_default (UCI_Category input) (Com_Category c),
     Com_Tags := (case UCI_Tags input of None \<Rightarrow> Com_Tags c | Some ts \<Rightarrow> Some ts),
     Com_AvatarURL := UCI_AvatarURL input, Com_BannerURL := UCI_BannerURL input\<rparr>"

definition Community_Update :: "comm_env \<Rightarrow> string \<Rightarrow> string \<Rightarrow> UpdateCommunityInput \<Rightarrow> community comm_op" where
  "Community_Update env i userID input d =
     attempt (comm_parseUUID env i) d (\<lambda>uid.
     attempt (wrap_err ''finding community'' (Com_FindByID env uid d)) d (\<lambda>c.
     guard (Com_OwnerID c \<noteq> parse_or_nil env userID) (Sentinel App_ErrForbidden) d (
     let c' = apply_update input c in
     perform (wrap_call ''updating community'' (Com_Update env c' d)) (\<lambda>_ d'. (Inr c', d')))))"

definition Community_Delete :: "comm_env \<Rightarrow> string \<Rightarrow> string \<Rightarrow> unit comm_op" where
  "Community_Delete env i userID d =
     attempt (comm_parseUUID env i) d (\<lambda>uid.
     attempt (wrap_err ''finding community'' (Com_FindByID env uid d)) d (\<lambda>c.
     guard (Com_OwnerID c \<noteq> parse_or_nil env userID) (Sentinel App_ErrForbidden) d (Com_Delete env uid d)))"

definition Community_Join :: "comm_env \<Rightarrow> bool \<Rightarrow> string \<Rightarrow> string \<Rightarrow> unit comm_op" where
  "Community_Join env broadcaster communityID userID d =
     attempt (comm_parseUUID env communityID) d (\<lambda>cid.
     attempt (comm_parseUUID env userID) d (\<lambda>uid.
     perform (AddMember env \<lparr>Mem_CommunityID = cid, Mem_UserID = uid, Mem_Role = ''member'', Mem_JoinedAt = now env\<rparr> d) (\<lambda>_ d'.
     (Inr (), if broadcaster then d'\<lparr>M_sent := M_sent d' @ [(communityID, userID)]\<rparr> else d'))))"

definition Leave :: "comm_env \<Rightarrow> string \<Rightarrow> string \<Rightarrow> unit comm_op" where
  "Leave env communityID userID d =
     attempt (comm_parseUUID env communityID) d (\<lambda>cid.
     attempt (comm_parseUUID env userID) d (\<lambda>uid.
     attempt (Com_FindByID env cid d) d (\<lambda>c.
     guard (Com_OwnerID c = uid) (Errorf ''owner cannot leave; transfer ownership or delete the community'') d (
     Com_RemoveMember env cid uid d))))"

definition Community_GetMembers :: "comm_env \<Rightarrow> string \<Rightarrow> comm_db \<Rightarrow> community_member list result" where
  "Community_GetMembers env i d = (case comm_parseUUID env i of Inl e \<Rightarrow> Inl e | Inr cid \<Rightarrow> Com_GetMembers env cid d)"

definition Community_IsMember :: "comm_env \<Rightarrow> string \<Rightarrow> string \<Rightarrow> comm_db \<Rightarrow> bool result" where
  "Community_IsMember env i u d =
     (case comm_parseUUID env i of
        Inl e \<Rightarrow> Inl e
      | Inr cid \<Rightarrow> (case comm_parseUUID env u of Inl e \<Rightarrow> Inl e | Inr uid \<Rightarrow> Com_IsMember env cid uid d))"

definition CreateAnnouncement :: "comm_env \<Rightarrow> string \<Rightarrow> string \<Rightarrow> string \<Rightarrow> announcement comm_op" where
  "CreateAnnouncement env communityID userID content d =
     attempt (comm_parseUUID env communityID) d (\<lambda>cid.
     attempt (comm_parseUUID env userID) d (\<lambda>uid.
     attempt (wrap_err ''checking membership'' (Com_IsMember env cid uid d)) d (\<lambda>isMember.
     guard (\<not> isMember) (Sentinel App_ErrForbidden) d (
     let a = \<lparr>An_ID = uuid_New env 0, An_CommunityID = cid, An_AuthorID = uid, An_Content = content, An_IsPinned = False, An_LikeCount = 0,
              An_CreatedAt = now env, An_UpdatedAt = now env\<rparr> in
     perform (wrap_call ''creating announcement'' (Com_CreateAnnouncement env a d)) (\<lambda>_ d'. (Inr a, d'))))))"

definition GetAnnouncements :: "comm_env \<Rightarrow> string \<Rightarrow> comm_db \<Rightarrow> announcement list result" where
  "GetAnnouncements env i d = (case comm_parseUUID env i of Inl e \<Rightarrow> Inl e | Inr cid \<Rightarrow> Com_GetAnnouncements env cid False d)"

definition is_admin :: "uuid \<Rightarrow> community_member list \<Rightarrow> bool" where
  "is_admin u ms = (\<exists>m \<in> set ms. Mem_UserID m = u \<and> Mem_Role m = ''admin'')"

definition DeleteAnnouncement :: "comm_env \<Rightarrow> string \<Rightarrow> string \<Rightarrow> unit comm_op" where
  "DeleteAnnouncement env i userID d =
     attempt (comm_parseUUID env i) d (\<lambda>uid.
     attempt (comm_parseUUID env userID) d (\<lambda>requester.
     attempt (GetAnnouncementByID env uid d) d (\<lambda>ann.
     if An_AuthorID ann = requester then Com_DeleteAnnouncement env uid d
     else attempt (Com_FindByID env (An_CommunityID ann) d) d (\<lambda>c.
     if Com_OwnerID c = requester then Com_DeleteAnnouncement env uid d
     else attempt (Com_GetMembers env (An_CommunityID ann) d) d (\<lambda>ms.
     if is_admin requester ms then Com_DeleteAnnouncement env uid d else (Inl (Sentinel App_ErrForbidden), d))))))"

definition LikeAnnouncement :: "comm_env \<Rightarrow> string \<Rightarrow> string \<Rightarrow> unit comm_op" where
  "LikeAnnouncement env i userID d =
     attempt (comm_parseUUID env i) d (\<lambda>annID.
     attempt (comm_parseUUID env userID) d (\<lambda>uid.
     attempt (GetAnnouncementByID env annID d) d (\<lambda>ann.
     attempt (wrap_err ''checking membership'' (Com_IsMember env (An_CommunityID ann) uid d)) d (\<lambda>isMember.
     guard (\<not> isMember) (Sentinel App_ErrForbidden) d (Com_LikeAnnouncement env annID d)))))"

definition PinAnnouncement :: "comm_env \<Rightarrow> string \<Rightarrow> string \<Rightarrow> bool \<Rightarrow> unit comm_op" where
  "PinAnnouncement env i userID pinned d =
     attempt (comm_parseUUID env i) d (\<lambda>annID.
     attempt (comm_parseUUID env userID) d (\<lambda>uid.
     attempt (GetAnnouncementByID env annID d) d (\<lambda>ann.
     attempt (Com_FindByID env (An_CommunityID ann) d) d (\<lambda>c.
     if Com_OwnerID c = uid then SetAnnouncementPin env annID pinned d
     else attempt (Com_GetMembers env (An_CommunityID ann) d) d (\<lambda>ms.
     if is_admin uid ms then SetAnnouncementPin env annID pinned d else (Inl (Sentinel App_ErrForbidden), d))))))"

definition Community_RemoveMember :: "comm_env \<Rightarrow> string \<Rightarrow> string \<Rightarrow> string \<Rightarrow> unit comm_op" where
  "Community_RemoveMember env communityID userID targetID d =
     attempt (comm_parseUUID env communityID) d (\<lambda>cid.
     attempt (comm_parseUUID env userID) d (\<lambda>uid.
     attempt (comm_parseUUID env targetID) d (\<lambda>tid.
     attempt (Com_FindByID env cid d) d (\<lambda>c.
     guard (Com_OwnerID c \<noteq> uid) (Sentinel App_ErrForbidden) d (Com_RemoveMember env cid tid d)))))"

definition TransferOwnership :: "comm_env \<Rightarrow> string \<Rightarrow> string \<Rightarrow> string \<Rightarrow> unit comm_op" where
  "TransferOwnership env communityID userID newOwnerID d =
     attempt (comm_parseUUID env communityID) d (\<lambda>cid.
     attempt (comm_parseUUID env userID) d (\<lambda>uid.
     attempt (comm_parseUUID env newOwnerID) d (\<lambda>nid.
     attempt (Com_FindByID env cid d) d (\<lambda>c.
     guard (Com_OwnerID c \<noteq> uid) (Sentinel App_ErrForbidden) d (
     attempt (wrap_err ''checking new owner membership'' (Com_IsMember env cid nid d)) d (\<lambda>isMember.
     guard (\<not> isMember) (Sentinel App_ErrInvalidInput) d (
     perform (wrap_call ''transferring ownership'' (UpdateOwner env cid nid d)) (\<lambda>_ d'.
     UpdateMemberRole env cid uid ''member'' d'))))))))"

definition GetActivity :: "comm_env \<Rightarrow> string \<Rightarrow> int \<Rightarrow> comm_db \<Rightarrow> activity_event list result" where
  "GetActivity env i limit d = (case comm_parseUUID env i of Inl e \<Rightarrow> Inl e | Inr cid \<Rightarrow> Com_GetActivity env cid limit d)"

definition GetMyCommunities :: "comm_env \<Rightarrow> string \<Rightarrow> comm_db \<Rightarrow> community list result" where
  "GetMyCommunities env u d = (case comm_parseUUID env u of Inl e \<Rightarrow> Inl e | Inr uid \<Rightarrow> FindByUserID env uid d)"

definition RecordActivity :: "comm_env \<Rightarrow> string \<Rightarrow> string \<Rightarrow> string \<Rightarrow> string \<Rightarrow> (string \<times> string) list \<Rightarrow> unit comm_op" where
  "RecordActivity env communityID eventType actorID targetID metadata d =
     attempt (comm_parseUUID env communityID) d (\<lambda>cid.
     Com_RecordActivity env \<lparr>Act_ID = uuid_New env 0, Act_CommunityID = cid, Act_EventType = eventType,
       Act_ActorID = (if actorID \<noteq> [] then Some (parse_or_nil env actorID) else None),
       Act_TargetID = (if targetID \<noteq> [] then Some (parse_or_nil env targetID) else None), Act_Metadata = metadata, Act_CreatedAt = now env\<rparr> d)"

definition UpdateTotalSaved :: "comm_env \<Rightarrow> circle list \<Rightarrow> string \<Rightarrow> unit comm_op" where
  "UpdateTotalSaved env circles communityID d = attempt (comm_parseUUID env communityID) d (\<lambda>cid. Com_UpdateTotalSaved env circles cid d)"

section \<open>Calls\<close>

datatype comm_call =
    Do_Create string CreateCommunityInput
  | Do_Update string string UpdateCommunityInput
  | Do_Delete string string
  | Do_Join string string
  | Do_Leave string string
  | Do_CreateAnnouncement string string string
  | Do_DeleteAnnouncement string string
  | Do_LikeAnnouncement string string
  | Do_PinAnnouncement string string bool
  | Do_RemoveMember string string string
  | Do_TransferOwnership string string string
  | Do_RecordActivity string string string string "(string \<times> string) list"
  | Do_UpdateTotalSaved string "circle list"

fun run_comm_call :: "comm_env \<Rightarrow> comm_call \<Rightarrow> comm_db \<Rightarrow> comm_db" where
  "run_comm_call env (Do_Create u x) d = snd (Community_Create env u x d)"
| "run_comm_call env (Do_Update i u x) d = snd (Community_Update env i u x d)"
| "run_comm_call env (Do_Delete i u) d = snd (Community_Delete env i u d)"
| "run_comm_call env (Do_Join i u) d = snd (Community_Join env True i u d)"
| "run_comm_call env (Do_Leave i u) d = snd (Leave env i u d)"
| "run_comm_call env (Do_CreateAnnouncement i u x) d = snd (CreateAnnouncement env i u x d)"
| "run_comm_call env (Do_DeleteAnnouncement i u) d = snd (DeleteAnnouncement env i u d)"
| "run_comm_call env (Do_LikeAnnouncement i u) d = snd (LikeAnnouncement env i u d)"
| "run_comm_call env (Do_PinAnnouncement i u b) d = snd (PinAnnouncement env i u b d)"
| "run_comm_call env (Do_RemoveMember i u t) d = snd (Community_RemoveMember env i u t d)"
| "run_comm_call env (Do_TransferOwnership i u n) d = snd (TransferOwnership env i u n d)"
| "run_comm_call env (Do_RecordActivity i t a b x) d = snd (RecordActivity env i t a b x d)"
| "run_comm_call env (Do_UpdateTotalSaved i cs) d = snd (UpdateTotalSaved env cs i d)"

text \<open>The user who makes a call.\<close>

fun caller :: "comm_env \<Rightarrow> comm_call \<Rightarrow> uuid option" where
  "caller env (Do_Create u x) = uuid_Parse env u"
| "caller env (Do_Update i u x) = Some (parse_or_nil env u)"
| "caller env (Do_Delete i u) = Some (parse_or_nil env u)"
| "caller env (Do_Join i u) = uuid_Parse env u"
| "caller env (Do_Leave i u) = uuid_Parse env u"
| "caller env (Do_CreateAnnouncement i u x) = uuid_Parse env u"
| "caller env (Do_DeleteAnnouncement i u) = uuid_Parse env u"
| "caller env (Do_LikeAnnouncement i u) = uuid_Parse env u"
| "caller env (Do_PinAnnouncement i u b) = uuid_Parse env u"
| "caller env (Do_RemoveMember i u t) = uuid_Parse env u"
| "caller env (Do_TransferOwnership i u n) = uuid_Parse env u"
| "caller env (Do_RecordActivity i t a b x) = None"
| "caller env (Do_UpdateTotalSaved i cs) = None"

definition run_comm_calls :: "(comm_env \<times> comm_call) list \<Rightarrow> comm_db \<Rightarrow> comm_db" where
  "run_comm_calls cs = fold (\<lambda>(env, c). run_comm_call env c) cs"

definition comm_init :: comm_db where
  "comm_init = \<lparr>M_communities = [], M_members = [], M_announcements = [], M_activity = [], M_sent = []\<rparr>"

section \<open>The invariant\<close>

abbreviation mem_key :: "community_member \<Rightarrow> uuid \<times> uuid" where
  "mem_key m \<equiv> (Mem_CommunityID m, Mem_UserID m)"

definition comm_ok :: "comm_db \<Rightarrow> bool" where
  "comm_ok d = (distinct (map Com_ID (M_communities d)) \<and> distinct (map Com_Slug (M_communities d)) \<and> distinct (map mem_key (M_members d))
     \<and> Mem_CommunityID ` set (M_members d) \<subseteq> Com_ID ` set (M_communities d)
     \<and> Mem_Role ` set (M_members d) \<subseteq> {''admin'', ''moderator'', ''member''}
     \<and> distinct (map An_ID (M_announcements d)) \<and> An_CommunityID ` set (M_announcements d) \<subseteq> Com_ID ` set (M_communities d)
     \<and> M_activity d = [])"

definition counted :: "comm_db \<Rightarrow> bool" where
  "counted d = (\<forall>c \<in> set (M_communities d). Com_DeletedAt c = None \<longrightarrow> Com_MemberCount c = int (length (members_of d (Com_ID c))))"

text \<open>A statement that rewrites communities in place and keeps their keys.\<close>

lemma ok_rewrite:
  assumes "comm_ok d" "\<And>c. Com_ID (f c) = Com_ID c \<and> Com_Slug (f c) = Com_Slug c"
  shows "comm_ok (d\<lparr>M_communities := update_where p f (M_communities d)\<rparr>)"
proof -
  have "map Com_ID (update_where p f (M_communities d)) = map Com_ID (M_communities d)"
    "map Com_Slug (update_where p f (M_communities d)) = map Com_Slug (M_communities d)"
    using assms(2) by (auto intro: map_update_where)
  moreover from this(1) have "Com_ID ` set (update_where p f (M_communities d)) = Com_ID ` set (M_communities d)" by (metis list.set_map)
  ultimately show ?thesis using assms(1) by (simp add: comm_ok_def)
qed

lemma ok_announcements:
  "comm_ok d \<Longrightarrow> distinct (map An_ID as) \<Longrightarrow> An_CommunityID ` set as \<subseteq> Com_ID ` set (M_communities d) \<Longrightarrow> comm_ok (d\<lparr>M_announcements := as\<rparr>)"
  by (simp add: comm_ok_def)

lemma ok_update_announcements:
  assumes "comm_ok d" "\<And>a. An_ID (f a) = An_ID a \<and> An_CommunityID (f a) = An_CommunityID a"
  shows "comm_ok (d\<lparr>M_announcements := update_where p f (M_announcements d)\<rparr>)"
proof (rule ok_announcements [OF assms(1)])
  have "map An_ID (update_where p f (M_announcements d)) = map An_ID (M_announcements d)"
    "map An_CommunityID (update_where p f (M_announcements d)) = map An_CommunityID (M_announcements d)"
    using assms(2) by (auto intro: map_update_where)
  then show "distinct (map An_ID (update_where p f (M_announcements d)))"
    "An_CommunityID ` set (update_where p f (M_announcements d)) \<subseteq> Com_ID ` set (M_communities d)"
    using assms(1) unfolding comm_ok_def by (metis, metis list.set_map)
qed

lemma ok_filter_announcements: "comm_ok d \<Longrightarrow> comm_ok (d\<lparr>M_announcements := filter p (M_announcements d)\<rparr>)"
  by (rule ok_announcements) (auto simp: comm_ok_def distinct_map_filter)

lemma ok_filter_members: "comm_ok d \<Longrightarrow> comm_ok (d\<lparr>M_members := filter p (M_members d)\<rparr>)"
  by (auto simp: comm_ok_def distinct_map_filter)

lemma ok_update_members:
  assumes "comm_ok d" "\<And>m. mem_key (f m) = mem_key m" "\<And>m. Mem_Role (f m) \<in> {''admin'', ''moderator'', ''member''}"
  shows "comm_ok (d\<lparr>M_members := update_where p f (M_members d)\<rparr>)"
proof -
  have k: "map mem_key (update_where p f (M_members d)) = map mem_key (M_members d)" using assms(2) by (intro map_update_where) blast
  have "Mem_CommunityID ` set (update_where p f (M_members d)) = fst ` set (map mem_key (update_where p f (M_members d)))"
    by (simp add: image_image)
  also have "\<dots> = Mem_CommunityID ` set (M_members d)" unfolding k by (simp add: image_image)
  finally have "Mem_CommunityID ` set (update_where p f (M_members d)) = Mem_CommunityID ` set (M_members d)" .
  moreover have "Mem_Role ` set (update_where p f (M_members d)) \<subseteq> {''admin'', ''moderator'', ''member''}"
    using assms(1,3) unfolding comm_ok_def update_where_def by auto
  ultimately show ?thesis using assms(1) k by (simp add: comm_ok_def)
qed

lemma ok_update_count: "comm_ok d \<Longrightarrow> comm_ok (snd (update_count env i d))"
  unfolding update_count_def by (rule exec_stmt_frame) (auto intro: ok_rewrite)

lemma ok_AddMember: "comm_ok d \<Longrightarrow> comm_ok (snd (AddMember env m d))"
proof -
  assume ok: "comm_ok d"
  have "comm_ok (d\<lparr>M_members := M_members d @ [m]\<rparr>)"
    if "Mem_Role m \<in> {''admin'', ''moderator'', ''member''}" "\<not> (\<exists>r \<in> set (M_members d). Mem_CommunityID r = Mem_CommunityID m \<and> Mem_UserID r = Mem_UserID m)"
      "\<not> (\<forall>c \<in> set (M_communities d). Com_ID c \<noteq> Mem_CommunityID m)"
  proof -
    have "Mem_CommunityID m \<in> Com_ID ` set (M_communities d)" using that(3) by (metis imageI)
    then show ?thesis using ok that(1,2) by (auto simp: comm_ok_def)
  qed
  then show ?thesis using ok by (auto simp: AddMember_def exec_stmt_def intro!: ok_update_count split: option.splits if_splits)
qed

lemma ok_Com_Create: "comm_ok d \<Longrightarrow> comm_ok (snd (Com_Create env c d))"
  by (auto simp: Com_Create_def exec_stmt_def comm_ok_def split: option.splits if_splits)

lemma ok_Com_Delete: "comm_ok d \<Longrightarrow> comm_ok (snd (Com_Delete env i d))"
  unfolding Com_Delete_def by (rule exec_stmt_frame) (auto intro: ok_rewrite)

lemma ok_Com_RemoveMember: "comm_ok d \<Longrightarrow> comm_ok (snd (Com_RemoveMember env i u d))"
  unfolding Com_RemoveMember_def
  by (intro perform_frame [where P = comm_ok])
     (auto intro!: exec_stmt_frame [where P = comm_ok] ok_filter_members ok_update_count)

lemma ok_Com_CreateAnnouncement: "comm_ok d \<Longrightarrow> comm_ok (snd (Com_CreateAnnouncement env a d))"
proof -
  assume ok: "comm_ok d"
  have "comm_ok (d\<lparr>M_announcements := M_announcements d @ [a]\<rparr>)"
    if "\<not> (\<exists>r \<in> set (M_announcements d). An_ID r = An_ID a)" "\<not> (\<forall>c \<in> set (M_communities d). Com_ID c \<noteq> An_CommunityID a)"
  proof -
    have "An_CommunityID a \<in> Com_ID ` set (M_communities d)" using that(2) by (metis imageI)
    then show ?thesis using ok that(1) by (auto simp: comm_ok_def)
  qed
  then show ?thesis using ok unfolding Com_CreateAnnouncement_def by (intro exec_stmt_frame [where P = comm_ok]) (auto split: if_splits)
qed

lemma ok_announcement_stmts:
  assumes "comm_ok d"
  shows "comm_ok (snd (Com_DeleteAnnouncement env i d))" "comm_ok (snd (Com_LikeAnnouncement env i d))"
    "comm_ok (snd (SetAnnouncementPin env i b d))"
  using assms unfolding Com_DeleteAnnouncement_def Com_LikeAnnouncement_def SetAnnouncementPin_def
  by (auto intro!: exec_stmt_frame [where P = comm_ok] ok_filter_announcements ok_update_announcements)

lemmas ok_frame = attempt_frame [where P = comm_ok] guard_frame [where P = comm_ok] perform_frame [where P = comm_ok]
  exec_stmt_frame [where P = comm_ok]

text \<open>The three ways a creation ends.\<close>

lemma Community_Create_cases:
  obtains (unchanged) e where "Community_Create env u x d = (Inl e, d)"
  | (undone) e owner e' d1 d2 where "uuid_Parse env u = Some owner" "Com_Create env (new_community env owner x) d = (Inr (), d1)"
      "AddMember env \<lparr>Mem_CommunityID = uuid_New env 0, Mem_UserID = owner, Mem_Role = ''admin'', Mem_JoinedAt = now env\<rparr> d1 = (Inl e', d2)"
      "Community_Create env u x d = (Inl e, snd (Com_Delete env (uuid_New env 0) d2))"
  | (created) owner d1 d2 where "uuid_Parse env u = Some owner" "Com_Create env (new_community env owner x) d = (Inr (), d1)"
      "AddMember env \<lparr>Mem_CommunityID = uuid_New env 0, Mem_UserID = owner, Mem_Role = ''admin'', Mem_JoinedAt = now env\<rparr> d1 = (Inr (), d2)"
      "Community_Create env u x d = (Inr (new_community env owner x), d2)"
proof (cases "uuid_Parse env u")
  case None
  then show ?thesis using unchanged by (simp add: Community_Create_def comm_parseUUID_def)
next
  case (Some owner)
  let ?c = "new_community env owner x"
  let ?m = "\<lparr>Mem_CommunityID = uuid_New env 0, Mem_UserID = owner, Mem_Role = ''admin'', Mem_JoinedAt = now env\<rparr>"
  have i: "Com_ID ?c = uuid_New env 0" by (simp add: new_community_def)
  obtain r1 d1 where 1: "Com_Create env ?c d = (r1, d1)" by fastforce
  obtain r2 d2 where 2: "AddMember env ?m d1 = (r2, d2)" by fastforce
  show ?thesis
  proof (cases r1)
    case (Inl e)
    moreover from 1 Inl have "d1 = d" by (auto simp: Com_Create_def exec_stmt_def split: option.splits if_splits)
    ultimately show ?thesis using unchanged 1 Some
      by (cases "e = Sentinel App_ErrConflict") (simp_all add: Community_Create_def comm_parseUUID_def Let_def)
  next
    case (Inr y)
    then show ?thesis using 1 2 Some i undone created
      by (cases r2) (simp_all add: Community_Create_def comm_parseUUID_def Let_def)
  qed
qed

lemma ok_Community_Create: "comm_ok d \<Longrightarrow> comm_ok (snd (Community_Create env u x d))"
proof (cases rule: Community_Create_cases [of env u x d])
  case (undone e owner e' d1 d2)
  then show "comm_ok d \<Longrightarrow> ?thesis"
    using ok_Com_Create [of d env "new_community env owner x"] ok_AddMember [of d1 env] ok_Com_Delete [of d2 env] by (metis snd_conv)
next
  case (created owner d1 d2)
  then show "comm_ok d \<Longrightarrow> ?thesis"
    using ok_Com_Create [of d env "new_community env owner x"] ok_AddMember [of d1 env] by (metis snd_conv)
qed simp

lemma ok_step: "comm_ok d \<Longrightarrow> comm_ok (run_comm_call env c d)"
proof (cases c)
  case (Do_Create u x)
  then show "comm_ok d \<Longrightarrow> ?thesis" by (simp add: ok_Community_Create)
next
  case (Do_Join i u)
  have "comm_ok d \<Longrightarrow> comm_ok (d\<lparr>M_sent := x\<rparr>)" for d x by (simp add: comm_ok_def)
  with Do_Join show "comm_ok d \<Longrightarrow> ?thesis"
    by (auto intro!: ok_frame ok_AddMember simp: Community_Join_def)
next
  case (Do_Update i u x)
  then show "comm_ok d \<Longrightarrow> ?thesis"
    by (auto intro!: ok_frame ok_rewrite simp: Community_Update_def Com_Update_def Let_def write_community_def)
next
  case (Do_TransferOwnership i u n)
  then show "comm_ok d \<Longrightarrow> ?thesis"
    by (auto intro!: ok_frame ok_rewrite ok_update_members simp: TransferOwnership_def UpdateOwner_def UpdateMemberRole_def)
qed (auto intro!: ok_frame ok_Com_Delete ok_Com_RemoveMember ok_announcement_stmts ok_Com_CreateAnnouncement ok_rewrite
      simp: Community_Delete_def Leave_def CreateAnnouncement_def DeleteAnnouncement_def LikeAnnouncement_def PinAnnouncement_def
        Community_RemoveMember_def RecordActivity_def Com_RecordActivity_def UpdateTotalSaved_def Com_UpdateTotalSaved_def Let_def)

lemma ok_run: "comm_ok d \<Longrightarrow> comm_ok (run_comm_calls cs d)"
  unfolding run_comm_calls_def by (induction cs arbitrary: d) (auto intro: ok_step)

lemma ok_init: "comm_ok comm_init"
  by (simp add: comm_ok_def comm_init_def)

section \<open>Member counts\<close>

text \<open>
  An environment whose counting statements work and whose deletions do, among them the deletion that undoes a creation whose owner could not be
  inserted and whose failure \<^verbatim>\<open>Create\<close> ignores.
\<close>

definition reliable :: "comm_env \<Rightarrow> bool" where
  "reliable env = (\<forall>i. fault env (MQ_UpdateCount i) = None \<and> fault env (MQ_Delete i) = None)"

text \<open>A statement that leaves the memberships and the counts alone and revives nothing.\<close>

lemma counted_rewrite:
  assumes "counted d" "\<And>c. Com_ID (f c) = Com_ID c \<and> Com_MemberCount (f c) = Com_MemberCount c \<and> (Com_DeletedAt (f c) = None \<longrightarrow> Com_DeletedAt c = None)"
  shows "counted (d\<lparr>M_communities := update_where p f (M_communities d)\<rparr>)"
  using assms by (auto simp: counted_def members_of_def update_where_def)

lemma counted_update_members:
  assumes "counted d" "\<And>m. mem_key (f m) = mem_key m"
  shows "counted (d\<lparr>M_members := update_where p f (M_members d)\<rparr>)"
proof -
  have "length (filter (\<lambda>m. Mem_CommunityID m = i) (update_where p f ms)) = length (filter (\<lambda>m. Mem_CommunityID m = i) ms)" for i ms
    using assms(2) by (induction ms) auto
  then show ?thesis using assms(1) by (simp add: counted_def members_of_def)
qed

lemma counted_announcements [simp]: "counted (d\<lparr>M_announcements := as\<rparr>) = counted d" "counted (d\<lparr>M_sent := ss\<rparr>) = counted d"
  by (simp_all add: counted_def members_of_def)

text \<open>After a change of the members of one community, counting again restores the invariant.\<close>

lemma counted_recount:
  assumes "counted d" "fault env (MQ_UpdateCount i) = None" "M_communities d' = M_communities d"
    and "\<And>j. j \<noteq> i \<Longrightarrow> members_of d' j = members_of d j"
  shows "counted (snd (update_count env i d'))"
proof -
  have "Com_MemberCount c = int (length (members_of d' (Com_ID c)))"
    if "c \<in> set (M_communities d')" "Com_DeletedAt c = None" "Com_ID c \<noteq> i" for c
    using assms(1,3) assms(4) [OF that(3)] that(1,2) by (auto simp: counted_def)
  then show ?thesis using assms(2) by (auto simp: update_count_def counted_def members_of_def update_where_def)
qed

lemma counted_Com_RemoveMember:
  assumes "counted d" "reliable env"
  shows "counted (snd (Com_RemoveMember env i u d))"
proof -
  let ?d = "d\<lparr>M_members := filter (\<lambda>m. \<not> (Mem_CommunityID m = i \<and> Mem_UserID m = u)) (M_members d)\<rparr>"
  have "counted (snd (update_count env i ?d))"
    by (rule counted_recount [OF assms(1)]) (use assms(2) in \<open>auto simp: reliable_def members_of_def filter_filter intro!: filter_cong\<close>)
  then show ?thesis using assms(1) by (auto simp: Com_RemoveMember_def exec_stmt_def split: option.split)
qed

lemma counted_AddMember:
  assumes "counted d" "reliable env"
  shows "counted (snd (AddMember env m d))"
proof -
  have "counted (snd (update_count env (Mem_CommunityID m) (d\<lparr>M_members := M_members d @ [m]\<rparr>)))"
    by (rule counted_recount [OF assms(1)]) (use assms(2) in \<open>auto simp: reliable_def members_of_def\<close>)
  then show ?thesis using assms(1) by (auto simp: AddMember_def exec_stmt_def split: option.split)
qed

text \<open>Of a new community every other community is unaffected; once it has its owner it is counted, and undone it is deleted.\<close>

lemma Com_Create_Inr:
  "Com_Create env c d = (Inr y, d') \<Longrightarrow> d' = d\<lparr>M_communities := M_communities d @ [c\<lparr>Com_DeletedAt := None\<rparr>]\<rparr>
     \<and> Com_ID c \<notin> Com_ID ` set (M_communities d) \<and> Com_Tags c \<noteq> None"
  by (auto simp: Com_Create_def exec_stmt_def column_check_def split: option.splits if_splits)

definition counted_but :: "uuid \<Rightarrow> comm_db \<Rightarrow> bool" where
  "counted_but i d = (\<forall>c \<in> set (M_communities d). Com_DeletedAt c = None \<and> Com_ID c \<noteq> i \<longrightarrow> Com_MemberCount c = int (length (members_of d (Com_ID c))))"

lemma AddMember_counted_but:
  assumes "counted_but i d" "Mem_CommunityID m = i" "AddMember env m d = (r, d')"
  shows "counted_but i d' \<and> (r = Inr () \<longrightarrow> counted d')"
  using assms
  by (auto simp: AddMember_def exec_stmt_def update_count_def counted_but_def counted_def members_of_def update_where_def split: option.splits if_splits)

lemma counted_Community_Create:
  assumes "counted d" "reliable env"
  shows "counted (snd (Community_Create env u x d))"
proof (cases rule: Community_Create_cases [of env u x d])
  case (undone e owner e' d1 d2)
  have "counted_but (uuid_New env 0) d1" using Com_Create_Inr [OF undone(2)] assms(1)
    by (auto simp: counted_but_def counted_def members_of_def new_community_def)
  then have "counted_but (uuid_New env 0) d2" using AddMember_counted_but [OF _ _ undone(3)] by simp
  then have "counted (snd (Com_Delete env (uuid_New env 0) d2))" using assms(2)
    by (auto simp: Com_Delete_def reliable_def counted_def counted_but_def members_of_def update_where_def)
  then show ?thesis using undone(4) by simp
next
  case (created owner d1 d2)
  have "counted_but (uuid_New env 0) d1" using Com_Create_Inr [OF created(2)] assms(1)
    by (auto simp: counted_but_def counted_def members_of_def new_community_def)
  then have "counted d2" using AddMember_counted_but [OF _ _ created(3)] by simp
  then show ?thesis using created(4) by simp
qed (use assms(1) in simp)

lemmas counted_frame = attempt_frame [where P = counted] guard_frame [where P = counted] perform_frame [where P = counted]
  exec_stmt_frame [where P = counted]

lemma counted_Com_Delete: "counted d \<Longrightarrow> counted (snd (Com_Delete env i d))"
  unfolding Com_Delete_def by (rule exec_stmt_frame) (auto intro: counted_rewrite)

lemma counted_step:
  assumes "counted d" "reliable env"
  shows "counted (run_comm_call env c d)"
  using assms
  by (cases c) (auto intro!: counted_frame counted_Community_Create counted_Com_RemoveMember counted_AddMember counted_Com_Delete counted_rewrite counted_update_members
      simp: Community_Update_def Com_Update_def write_community_def Community_Join_def TransferOwnership_def UpdateOwner_def UpdateMemberRole_def
        Community_Delete_def Leave_def CreateAnnouncement_def DeleteAnnouncement_def LikeAnnouncement_def PinAnnouncement_def
        Community_RemoveMember_def RecordActivity_def Com_RecordActivity_def UpdateTotalSaved_def Com_UpdateTotalSaved_def Let_def
        Com_DeleteAnnouncement_def Com_LikeAnnouncement_def SetAnnouncementPin_def Com_CreateAnnouncement_def)

text \<open>
  C40: communities stay consistent: whatever calls are made and whichever statements fail, identifiers,
  slugs and memberships are unique, every membership and announcement belongs to a stored
  community, and roles are admin, moderator or member; and as long as the statements that
  count members and undo a creation work, the member count of every live community is
  the number of its members.
\<close>

theorem communities_consistent:
  "comm_ok (run_comm_calls cs comm_init)
   \<and> ((\<forall>(env, c) \<in> set cs. reliable env) \<longrightarrow> counted (run_comm_calls cs comm_init))"
proof -
  have "\<forall>(env, c) \<in> set cs. reliable env \<Longrightarrow> counted d \<Longrightarrow> counted (run_comm_calls cs d)" for d
    unfolding run_comm_calls_def by (induction cs arbitrary: d) (auto intro: counted_step)
  moreover have "counted comm_init" by (simp add: counted_def comm_init_def)
  ultimately show ?thesis using ok_run [OF ok_init] by blast
qed

section \<open>Who may change what\<close>

text \<open>What belongs to the owner, and a change that touches none of it and removes no membership.\<close>

definition owned :: "community \<Rightarrow> string \<times> string \<times> string \<times> string list option \<times> string option \<times> string option \<times> uuid \<times> time option" where
  "owned c = (Com_Name c, Com_Description c, Com_Category c, Com_Tags c, Com_AvatarURL c, Com_BannerURL c, Com_OwnerID c, Com_DeletedAt c)"

definition quiet :: "comm_db \<Rightarrow> comm_db \<Rightarrow> bool" where
  "quiet d d' = ((\<forall>c \<in> set (M_communities d). \<exists>c' \<in> set (M_communities d'). Com_ID c' = Com_ID c \<and> owned c' = owned c)
     \<and> set (M_members d) \<subseteq> set (M_members d'))"

definition auth :: "uuid option \<Rightarrow> comm_db \<Rightarrow> comm_db \<Rightarrow> bool" where
  "auth u d d' = ((\<forall>c \<in> set (M_communities d). \<exists>c' \<in> set (M_communities d'). Com_ID c' = Com_ID c \<and> (owned c' = owned c \<or> Some (Com_OwnerID c) = u))
     \<and> (\<forall>m \<in> set (M_members d). m \<in> set (M_members d') \<or> Some (Mem_UserID m) = u
          \<or> (\<exists>c \<in> set (M_communities d). Com_ID c = Mem_CommunityID m \<and> Some (Com_OwnerID c) = u)))"

lemma quiet_refl [simp]: "quiet d d"
  unfolding quiet_def by blast

lemma quiet_trans: "quiet d d1 \<Longrightarrow> quiet d1 d2 \<Longrightarrow> quiet d d2"
  unfolding quiet_def by (metis subset_trans)

lemma auth_quiet:
  assumes "auth u d d1" "quiet d1 d2"
  shows "auth u d d2"
  unfolding auth_def
proof (intro conjI ballI)
  fix c
  assume "c \<in> set (M_communities d)"
  with assms(1) obtain c1 where c1: "c1 \<in> set (M_communities d1)" "Com_ID c1 = Com_ID c" "owned c1 = owned c \<or> Some (Com_OwnerID c) = u"
    unfolding auth_def by blast
  with assms(2) obtain c2 where "c2 \<in> set (M_communities d2)" "Com_ID c2 = Com_ID c1" "owned c2 = owned c1" unfolding quiet_def by blast
  with c1 show "\<exists>c' \<in> set (M_communities d2). Com_ID c' = Com_ID c \<and> (owned c' = owned c \<or> Some (Com_OwnerID c) = u)" by metis
next
  fix m
  assume "m \<in> set (M_members d)"
  with assms show "m \<in> set (M_members d2) \<or> Some (Mem_UserID m) = u
      \<or> (\<exists>c \<in> set (M_communities d). Com_ID c = Mem_CommunityID m \<and> Some (Com_OwnerID c) = u)"
    unfolding auth_def quiet_def by blast
qed

lemma quiet_auth: "quiet d d' \<Longrightarrow> auth u d d'"
  by (rule auth_quiet [of _ _ d]) (auto simp: auth_def)

lemma auth_refl [simp]: "auth u d d"
  by (rule quiet_auth) simp

lemma quiet_rewrite:
  assumes "\<And>c. Com_ID (f c) = Com_ID c \<and> owned (f c) = owned c"
  shows "quiet d (d\<lparr>M_communities := update_where p f (M_communities d)\<rparr>)"
  unfolding quiet_def
proof (intro conjI ballI)
  fix c
  assume "c \<in> set (M_communities d)"
  then have "(if p c then f c else c) \<in> set (update_where p f (M_communities d))" by (auto simp: update_where_def)
  with assms show "\<exists>c' \<in> set (M_communities (d\<lparr>M_communities := update_where p f (M_communities d)\<rparr>)). Com_ID c' = Com_ID c \<and> owned c' = owned c"
    by (intro bexI [of _ "if p c then f c else c"]) auto
qed simp

lemma quiet_extra [simp]: "quiet d (d'\<lparr>M_announcements := as\<rparr>) = quiet d d'" "quiet d (d'\<lparr>M_sent := ss\<rparr>) = quiet d d'"
  by (simp_all add: quiet_def)

lemma quiet_count: "quiet d (snd (update_count env i d))"
  unfolding update_count_def by (rule exec_stmt_frame) (auto intro: quiet_rewrite simp: owned_def)

lemma quiet_AddMember: "quiet d (snd (AddMember env m d))"
proof -
  have "quiet d (d\<lparr>M_members := M_members d @ [m]\<rparr>)" by (auto simp: quiet_def)
  from quiet_trans [OF this quiet_count] show ?thesis by (auto simp: AddMember_def exec_stmt_def split: option.split)
qed

lemma quiet_Com_Create: "Com_Create env c d = (Inr y, d') \<Longrightarrow> quiet d d'"
  using Com_Create_Inr [of env c d y d'] by (auto simp: quiet_def)

lemma quiet_Community_Create: "quiet d (snd (Community_Create env u x d))"
proof (cases rule: Community_Create_cases [of env u x d])
  case (undone e owner e' d1 d2)
  have d2: "quiet d d2" using quiet_trans [OF quiet_Com_Create [OF undone(2)] quiet_AddMember] undone(3) by (metis snd_conv)
  have new: "uuid_New env 0 \<notin> Com_ID ` set (M_communities d)" using Com_Create_Inr [OF undone(2)] by (simp add: new_community_def)
  have "quiet d (d2\<lparr>M_communities := update_where (\<lambda>r. Com_ID r = uuid_New env 0) f (M_communities d2)\<rparr>)" for f
    unfolding quiet_def
  proof (intro conjI ballI)
    fix c
    assume c: "c \<in> set (M_communities d)"
    with d2 obtain c' where c': "c' \<in> set (M_communities d2)" "Com_ID c' = Com_ID c" "owned c' = owned c" unfolding quiet_def by blast
    have "Com_ID c' \<noteq> uuid_New env 0" using c c'(2) new by (metis imageI)
    then have "c' \<in> set (update_where (\<lambda>r. Com_ID r = uuid_New env 0) f (M_communities d2))" using c'(1) by (force simp: update_where_def)
    then show "\<exists>c' \<in> set (M_communities (d2\<lparr>M_communities := update_where (\<lambda>r. Com_ID r = uuid_New env 0) f (M_communities d2)\<rparr>)).
        Com_ID c' = Com_ID c \<and> owned c' = owned c" using c' by auto
  qed (use d2 in \<open>simp add: quiet_def\<close>)
  then show ?thesis using undone(4) d2 by (auto simp: Com_Delete_def exec_stmt_def split: option.split)
next
  case (created owner d1 d2)
  then show ?thesis using quiet_trans [OF quiet_Com_Create [OF created(2)] quiet_AddMember] by (metis snd_conv)
qed simp

lemma Com_FindByID_Inr: "Com_FindByID env i d = Inr c \<Longrightarrow> c \<in> set (M_communities d) \<and> Com_ID c = i \<and> Com_DeletedAt c = None"
  by (auto simp: Com_FindByID_def scanCommunity_def live_community_def run_query_def split: option.splits if_splits dest: find_Some_D)

text \<open>A statement by the owner on their community, and the removal of a membership.\<close>

lemma auth_owner_rewrite:
  assumes "comm_ok d" "Com_FindByID env i d = Inr r" "\<And>c. Com_ID (f c) = Com_ID c"
  shows "auth (Some (Com_OwnerID r)) d (d\<lparr>M_communities := update_where (\<lambda>c. Com_ID c = i) f (M_communities d)\<rparr>)"
proof -
  note r = Com_FindByID_Inr [OF assms(2)]
  have "c = r" if "c \<in> set (M_communities d)" "Com_ID c = i" for c
    using assms(1) r that unfolding comm_ok_def by (metis distinct_map inj_onD)
  then have "(if Com_ID c = i then f c else c) \<in> set (update_where (\<lambda>c. Com_ID c = i) f (M_communities d))
      \<and> (owned (if Com_ID c = i then f c else c) = owned c \<or> Com_OwnerID c = Com_OwnerID r)" if "c \<in> set (M_communities d)" for c
    using that by (auto simp: update_where_def)
  then show ?thesis using assms(3) unfolding auth_def by (force split: if_splits)
qed

lemma auth_remove:
  assumes "u = t \<or> Com_FindByID env i d = Inr r \<and> Com_OwnerID r = u"
  shows "auth (Some u) d (snd (Com_RemoveMember env i t d))"
proof -
  let ?d = "d\<lparr>M_members := filter (\<lambda>m. \<not> (Mem_CommunityID m = i \<and> Mem_UserID m = t)) (M_members d)\<rparr>"
  have "auth (Some u) d ?d" using assms Com_FindByID_Inr [of env i d r] by (auto simp: auth_def)
  from auth_quiet [OF this quiet_count] show ?thesis by (auto simp: Com_RemoveMember_def exec_stmt_def split: option.split)
qed

lemma auth_transfer:
  assumes "comm_ok d" "Com_FindByID env i d = Inr r" "Com_OwnerID r = u"
  shows "auth (Some u) d (snd (perform (wrap_call what (UpdateOwner env i n d)) (\<lambda>_ d'. UpdateMemberRole env i u role d')))"
proof -
  let ?d = "d\<lparr>M_communities := update_where (\<lambda>c. Com_ID c = i) (\<lambda>c. c\<lparr>Com_OwnerID := n\<rparr>) (M_communities d)\<rparr>"
  have 1: "auth (Some u) d ?d" using auth_owner_rewrite [OF assms(1,2), of "\<lambda>c. c\<lparr>Com_OwnerID := n\<rparr>"] assms(3) by simp
  have "m \<in> set (update_where (\<lambda>m. Mem_CommunityID m = i \<and> Mem_UserID m = u) f (M_members d)) \<or> Mem_UserID m = u"
    if "m \<in> set (M_members d)" for m f using that by (force simp: update_where_def)
  then have "auth (Some u) d (?d\<lparr>M_members := update_where (\<lambda>m. Mem_CommunityID m = i \<and> Mem_UserID m = u) f (M_members d)\<rparr>)" for f
    using 1 by (auto simp: auth_def)
  then show ?thesis using 1 by (auto simp: UpdateOwner_def UpdateMemberRole_def exec_stmt_def split: option.split)
qed

lemma parse_caller [simp]: "comm_parseUUID env u = Inr x \<longleftrightarrow> uuid_Parse env u = Some x"
  by (simp add: comm_parseUUID_def split: option.split)

text \<open>
  Only the owner governs a community: in a reachable state, a call that changes the name, description, category,
  tags, images, owner or deletion mark of a community is made by its owner, and a
  membership disappears or changes its role only through a call of the member or of the
  owner.
\<close>

theorem community_owner_governs:
  "auth (caller env c) (run_comm_calls cs comm_init) (run_comm_call env c (run_comm_calls cs comm_init))"
proof -
  define d where "d = run_comm_calls cs comm_init"
  have ok: "comm_ok d" unfolding d_def by (rule ok_run [OF ok_init])
  have rewrite: "auth (Some (Com_OwnerID r)) d (snd (exec_stmt env q chk (\<lambda>d. d\<lparr>M_communities := update_where (\<lambda>c. Com_ID c = i) f (M_communities d)\<rparr>) d))"
    if "Com_FindByID env i d = Inr r" "\<And>c. Com_ID (f c) = Com_ID c" for q chk f i r
    using auth_owner_rewrite [OF ok that] by (intro exec_stmt_frame [where P = "auth (Some (Com_OwnerID r)) d"]) simp_all
  have rewrite': "auth (Some v) d (snd (exec_stmt env q chk (\<lambda>d. d\<lparr>M_communities := update_where (\<lambda>c. Com_ID c = i) f (M_communities d)\<rparr>) d))"
    if "Com_FindByID env i d = Inr r" "\<And>c. Com_ID (f c) = Com_ID c" "Com_OwnerID r = v" for q chk f i r v
    using rewrite [OF that(1,2)] that(3) by simp
  note frame = attempt_frame [where P = "auth u d" for u] guard_frame [where P = "auth u d" for u]
    exec_stmt_frame [where P = "auth u d" for u]
  have "auth (caller env c) d (run_comm_call env c d)"
  proof (cases c)
    case (Do_Create u x)
    then show ?thesis using quiet_auth [OF quiet_Community_Create] by simp
  next
    case (Do_Update i u x)
    have "auth (Some v) d (snd (perform (wrap_call what (Com_Update env (apply_update x r) d)) (\<lambda>_ d'. (Inr c', d'))))"
      if "Com_FindByID env uid d = Inr r" "Com_OwnerID r = v" for what c' uid r v
    proof -
      have "Com_ID (apply_update x r) = uid" using Com_FindByID_Inr [OF that(1)] by (simp add: apply_update_def)
      then have "auth (Some (Com_OwnerID r)) d (snd (Com_Update env (apply_update x r) d))" unfolding Com_Update_def
        by (intro perform_frame [where P = "auth (Some (Com_OwnerID r)) d"] guard_frame [where P = "auth (Some (Com_OwnerID r)) d"])
           (use rewrite [OF that(1)] in \<open>auto simp: write_community_def\<close>)
      then show ?thesis using that(2) by (intro perform_frame [where P = "auth (Some v) d"]) simp_all
    qed
    note upd = this
    show ?thesis using Do_Update
      by (auto intro!: attempt_frame [where P = "auth u d" for u] guard_frame [where P = "auth u d" for u] upd simp: Community_Update_def Let_def)
  next
    case (Do_Delete i u)
    then show ?thesis by (auto intro!: attempt_frame [where P = "auth u d" for u] guard_frame [where P = "auth u d" for u] rewrite'
        simp: Community_Delete_def Com_Delete_def)
  next
    case (Do_Join i u)
    then show ?thesis using quiet_AddMember
      by (auto intro!: quiet_auth attempt_frame [where P = "quiet d"] perform_frame [where P = "quiet d"] simp: Community_Join_def)
  next
    case (Do_Leave i u)
    then show ?thesis by (auto intro!: frame auth_remove simp: Leave_def)
  next
    case (Do_RemoveMember i u t)
    then show ?thesis by (auto intro!: frame auth_remove simp: Community_RemoveMember_def) 
  next
    case (Do_TransferOwnership i u n)
    then show ?thesis using auth_transfer [OF ok] by (auto intro!: frame simp: TransferOwnership_def)
  qed (auto intro!: quiet_auth attempt_frame [where P = "quiet d"] guard_frame [where P = "quiet d"] perform_frame [where P = "quiet d"]
        exec_stmt_frame [where P = "quiet d"] quiet_rewrite
        simp: CreateAnnouncement_def DeleteAnnouncement_def LikeAnnouncement_def PinAnnouncement_def owned_def
          RecordActivity_def Com_RecordActivity_def UpdateTotalSaved_def Com_UpdateTotalSaved_def Let_def
          Com_DeleteAnnouncement_def Com_LikeAnnouncement_def SetAnnouncementPin_def Com_CreateAnnouncement_def)
  then show ?thesis unfolding d_def .
qed

section \<open>Communities and circles\<close>

lemma Com_IsMember_Inr: "Com_IsMember env i u d = Inr True \<longleftrightarrow> fault env (MQ_IsMember i u) = None \<and> (\<exists>m \<in> set (M_members d). mem_key m = (i, u))"
  by (auto simp: Com_IsMember_def run_query_def filter_empty_conv split: option.split)

text \<open>
  A circle of a community is for its members: when the circle service asks the community repository, as the
  server wires it, a user who has joined a community circle has a membership row of
  that community.
\<close>

theorem community_circle_members_only:
  assumes "Join env s circleID userID code d = (Inr y, d')" "community_member env = (\<lambda>i u. Com_IsMember menv i u md)"
  shows "\<exists>cid uid c. uuid_Parse env circleID = Some cid \<and> uuid_Parse env userID = Some uid \<and> find_circle d cid = Some c
    \<and> (\<forall>i. C_CircleType c = CircleTypeOther ''community'' \<and> C_CommunityID c = Some i \<longrightarrow> (\<exists>m \<in> set (M_members md). mem_key m = (i, uid)))"
proof -
  from assms(1) obtain cid uid c where 1: "uuid_Parse env circleID = Some cid" "uuid_Parse env userID = Some uid"
      "FindByID env cid d = Inr c" "community_check env s uid c = Inr ()"
    by (auto simp: Join_def attempt_Inr guard_Inr perform_Inr parseUUID_Inr)
  obtain r where r: "find_circle d cid = Some r" "c = read_circle d r" using 1(3) by (auto simp: FindByID_Inr)
  have "\<exists>m \<in> set (M_members md). mem_key m = (i, uid)" if "C_CircleType r = CircleTypeOther ''community''" "C_CommunityID r = Some i" for i
  proof -
    have "community_member env i uid = Inr True" using 1(4) that r(2)
      by (auto simp: community_check_def read_circle_def split: if_splits sum.splits)
    then show ?thesis using assms(2) Com_IsMember_Inr by simp
  qed
  then show ?thesis using 1 r(1) by blast
qed

section \<open>What the service does not check\<close>

text \<open>A community without tags cannot be created: a nil slice is \<^verbatim>\<open>NULL\<close>.\<close>

lemma tags_are_required:
  assumes "CCI_Tags input = None"
  shows "\<exists>e. Community_Create env userID input d = (Inl e, d)"
proof (cases rule: Community_Create_cases [of env userID input d])
  case (undone e owner e' d1 d2)
  then show ?thesis using Com_Create_Inr assms by (fastforce simp: new_community_def)
next
  case (created owner d1 d2)
  then show ?thesis using Com_Create_Inr assms by (fastforce simp: new_community_def)
qed blast

text \<open>An update that does not name the images erases them.\<close>

lemma update_erases_images:
  assumes "Community_Update env i userID input d = (Inr c, d')" "UCI_AvatarURL input = None" "UCI_BannerURL input = None"
  shows "Com_AvatarURL c = None \<and> Com_BannerURL c = None"
  using assms by (auto simp: Community_Update_def apply_update_def Let_def attempt_Inr guard_Inr perform_Inr)

text \<open>A deleted community still accepts members.\<close>

lemma deleted_community_accepts_members:
  assumes "\<And>q. fault env q = None" "uuid_Parse env i = Some cid" "uuid_Parse env u = Some uid"
    and "c \<in> set (M_communities d)" "Com_ID c = cid" "\<And>m. m \<in> set (M_members d) \<Longrightarrow> mem_key m \<noteq> (cid, uid)"
  shows "fst (Community_Join env b i u d) = Inr ()"
  using assms by (auto simp: Community_Join_def comm_parseUUID_def AddMember_def exec_stmt_def update_count_def)

section \<open>Demonstration\<close>

definition demo_menv :: comm_env where
  "demo_menv = \<lparr>uuid_Parse = demo_parse, uuid_String = (\<lambda>_. []), uuid_New = (\<lambda>n. 500 + of_nat n), now = 5, fault = (\<lambda>_. None),
     comm_ilike = (\<lambda>_ _. True), collation = (\<lambda>_. 0)\<rparr>"

definition demo_club :: CreateCommunityInput where
  "demo_club = \<lparr>CCI_Name = ''club'', CCI_Slug = ''club'', CCI_Description = [], CCI_Category = [], CCI_Tags = Some []\<rparr>"

definition demo_parse2 :: "string \<Rightarrow> uuid option" where
  "demo_parse2 x = (if x = ''m'' then Some 500 else demo_parse x)"

definition demo_menv2 :: comm_env where
  "demo_menv2 = demo_menv\<lparr>uuid_Parse := demo_parse2\<rparr>"

definition demo_community :: comm_db where
  "demo_community = run_comm_calls [(demo_menv, Do_Create ''o'' demo_club), (demo_menv2, Do_Join ''m'' ''c'')] comm_init"

theorem communities_consistent_witness:
  "counted demo_community \<and> map Com_MemberCount (M_communities demo_community) = [2]"
proof
  show "map Com_MemberCount (M_communities demo_community) = [2]" by code_simp
  show "counted demo_community" unfolding demo_community_def
    by (rule communities_consistent [THEN conjunct2, THEN mp]) (simp add: reliable_def demo_menv_def demo_menv2_def)
qed

definition community_circles :: "circles_db \<Rightarrow> circles_db" where
  "community_circles d = d\<lparr>B_circles := map (\<lambda>c. c\<lparr>C_CircleType := CircleTypeOther ''community'', C_CommunityID := Some 500\<rparr>) (B_circles d)\<rparr>"

definition demo_checked :: cenv where
  "demo_checked = demo_cenv\<lparr>community_member := (\<lambda>i u. Com_IsMember demo_menv i u demo_community)\<rparr>"

theorem community_circle_members_only_witness:
  "\<exists>m \<in> set (M_members demo_community). mem_key m = (500, 4)"
proof -
  let ?r = "Join demo_checked demo_svc ''k'' ''c'' [] (community_circles demo_open)"
  have ok: "fst ?r = Inr ()" by code_simp
  have p: "uuid_Parse demo_checked ''k'' = Some 100" "uuid_Parse demo_checked ''c'' = Some 4" by code_simp+
  have c: "map_option (\<lambda>c. (C_CircleType c, C_CommunityID c)) (find_circle (community_circles demo_open) 100)
      = Some (CircleTypeOther ''community'', Some 500)" by code_simp
  have m: "community_member demo_checked = (\<lambda>i u. Com_IsMember demo_menv i u demo_community)" by (simp add: demo_checked_def)
  have "?r = (Inr (), snd ?r)" using ok by (metis prod.collapse)
  from community_circle_members_only [OF this m] p c show ?thesis by auto
qed

end
