(* ===== verification/Redis.thy ===== *)
theory Redis
  imports Decimal Prelude
begin

text \<open>
  The Redis commands that the authentication code issues, with their documented effect on a
  keyspace of strings and sets with expiry times, and the helpers of \<^verbatim>\<open>strings\<close> and
  \<^verbatim>\<open>strconv\<close> it uses on the stored texts. Times are nanoseconds. A call may fail, before or
  after it took effect; the environment decides.
\<close>

section \<open>Keyspace and commands\<close>

datatype rval = Str string | Members "string list"

type_synonym keyspace = "string \<Rightarrow> (rval \<times> time option) option"

datatype redis_cmd =
    GET string | SET string string duration | SETNX string string duration | DEL "string list" | EXISTS string
  | EXPIRE string duration | SADD string string | SREM string "string list" | SMEMBERS string | SCARD string
  | SISMEMBER string string | HGETALL string

datatype reply = Nil_reply | Text string | Num int | Array "string list"

text \<open>The commands of one round trip: a single one, or those of a pipeline or \<^verbatim>\<open>MULTI\<close>/\<^verbatim>\<open>EXEC\<close> block.\<close>

type_synonym redis_call = "redis_cmd list"

record redis_env = "redis_call env" +
  took_effect :: "redis_call \<Rightarrow> bool"

definition live :: "time \<Rightarrow> keyspace \<Rightarrow> string \<Rightarrow> rval option" where
  "live t R k = (case R k of None \<Rightarrow> None | Some (v, x) \<Rightarrow> (case x of None \<Rightarrow> Some v | Some e \<Rightarrow> if t < e then Some v else None))"

abbreviation millisecond :: duration where "millisecond \<equiv> 1000000"

text \<open>
  go-redis sends a positive expiration of \<^verbatim>\<open>Set\<close> in whole milliseconds, at least one; \<open>-1\<close> is
  \<^verbatim>\<open>KeepTTL\<close>, any other value means no expiry. \<^verbatim>\<open>Expire\<close> sends whole seconds, and a
  time in the past deletes the key.
\<close>

definition lifetime :: "duration \<Rightarrow> duration" where
  "lifetime d = (if d < millisecond then millisecond else d div millisecond * millisecond)"

definition set_deadline :: "time \<Rightarrow> duration \<Rightarrow> (rval \<times> time option) option \<Rightarrow> time option" where
  "set_deadline t d old =
     (if d > 0 then Some (t + lifetime d)
      else if d = - 1 then (case old of None \<Rightarrow> None | Some (v, x) \<Rightarrow> x)
      else None)"

definition expire_after :: "duration \<Rightarrow> duration" where
  "expire_after d = (if 0 < d \<and> d < second then second else quo d second * second)"

definition put :: "time \<Rightarrow> string \<Rightarrow> rval \<Rightarrow> duration \<Rightarrow> keyspace \<Rightarrow> keyspace" where
  "put t k v d R = R(k := Some (v, set_deadline t d (if live t R k = None then None else R k)))"

definition delete_keys :: "string list \<Rightarrow> keyspace \<Rightarrow> keyspace" where
  "delete_keys ks R = (\<lambda>k. if k \<in> set ks then None else R k)"

definition touch :: "time \<Rightarrow> string \<Rightarrow> duration \<Rightarrow> keyspace \<Rightarrow> keyspace" where
  "touch t k d R =
     (case live t R k of None \<Rightarrow> R
      | Some v \<Rightarrow> if expire_after d > 0 then R(k := Some (v, Some (t + expire_after d))) else R(k := None))"

text \<open>The members of a set keep the expiry of the set; a set without members is deleted.\<close>

definition put_members :: "string \<Rightarrow> string list \<Rightarrow> time option \<Rightarrow> keyspace \<Rightarrow> keyspace" where
  "put_members k ms x R = R(k := (if ms = [] then None else Some (Members ms, x)))"

definition expiry :: "keyspace \<Rightarrow> string \<Rightarrow> time option" where
  "expiry R k = (case R k of None \<Rightarrow> None | Some (v, x) \<Rightarrow> x)"

abbreviation wrong_type :: error where
  "wrong_type \<equiv> Driver ''WRONGTYPE Operation against a key holding the wrong kind of value''"

definition member_list :: "time \<Rightarrow> keyspace \<Rightarrow> string \<Rightarrow> string list result" where
  "member_list t R k = (case live t R k of None \<Rightarrow> Inr [] | Some (Members ms) \<Rightarrow> Inr ms | Some (Str s) \<Rightarrow> Inl wrong_type)"

fun apply_cmd :: "time \<Rightarrow> redis_cmd \<Rightarrow> keyspace \<Rightarrow> reply result \<times> keyspace" where
  "apply_cmd t (GET k) R = ((case live t R k of None \<Rightarrow> Inr Nil_reply | Some (Str s) \<Rightarrow> Inr (Text s) | Some (Members ms) \<Rightarrow> Inl wrong_type), R)"
| "apply_cmd t (SET k v d) R = (Inr (Text ''OK''), put t k (Str v) d R)"
| "apply_cmd t (SETNX k v d) R = (if live t R k = None then (Inr (Num 1), put t k (Str v) d R) else (Inr (Num 0), R))"
| "apply_cmd t (DEL ks) R = (Inr (Num (int (length (filter (\<lambda>k. live t R k \<noteq> None) (remdups ks))))), delete_keys ks R)"
| "apply_cmd t (EXISTS k) R = (Inr (Num (if live t R k = None then 0 else 1)), R)"
| "apply_cmd t (EXPIRE k d) R = (Inr (Num (if live t R k = None then 0 else 1)), touch t k d R)"
| "apply_cmd t (SADD k m) R =
     (case member_list t R k of Inl e \<Rightarrow> (Inl e, R)
      | Inr ms \<Rightarrow> if m \<in> set ms then (Inr (Num 0), R)
                  else (Inr (Num 1), put_members k (ms @ [m]) (if live t R k = None then None else expiry R k) R))"
| "apply_cmd t (SREM k xs) R =
     (case member_list t R k of Inl e \<Rightarrow> (Inl e, R)
      | Inr ms \<Rightarrow> if \<exists>x \<in> set xs. x \<in> set ms
                  then (Inr (Num (int (length (filter (\<lambda>m. m \<in> set xs) ms)))), put_members k (filter (\<lambda>m. m \<notin> set xs) ms) (expiry R k) R)
                  else (Inr (Num 0), R))"
| "apply_cmd t (SMEMBERS k) R = (map_sum id Array (member_list t R k), R)"
| "apply_cmd t (SCARD k) R = (map_sum id (\<lambda>ms. Num (int (length ms))) (member_list t R k), R)"
| "apply_cmd t (SISMEMBER k m) R = (map_sum id (\<lambda>ms. Num (if m \<in> set ms then 1 else 0)) (member_list t R k), R)"
| "apply_cmd t (HGETALL k) R = ((if live t R k = None then Inr (Array []) else Inl wrong_type), R)"

text \<open>A pipeline runs all its commands and reports the first error.\<close>

fun apply_cmds :: "time \<Rightarrow> redis_cmd list \<Rightarrow> keyspace \<Rightarrow> reply list result \<times> keyspace" where
  "apply_cmds t [] R = (Inr [], R)"
| "apply_cmds t (c # cs) R =
     (case apply_cmd t c R of (x, R1) \<Rightarrow> case apply_cmds t cs R1 of (xs, R2) \<Rightarrow>
        ((case x of Inl e \<Rightarrow> Inl e | Inr y \<Rightarrow> map_sum id (\<lambda>ys. y # ys) xs), R2))"

definition run_pipe :: "'z redis_env_scheme \<Rightarrow> redis_cmd list \<Rightarrow> keyspace \<Rightarrow> reply list result \<times> keyspace" where
  "run_pipe env cs R =
     (case fault env cs of
        None \<Rightarrow> apply_cmds (now env) cs R
      | Some e \<Rightarrow> (Inl e, if took_effect env cs then snd (apply_cmds (now env) cs R) else R))"

definition run_cmd :: "'z redis_env_scheme \<Rightarrow> redis_cmd \<Rightarrow> keyspace \<Rightarrow> reply result \<times> keyspace" where
  "run_cmd env c R =
     (case fault env [c] of
        None \<Rightarrow> apply_cmd (now env) c R
      | Some e \<Rightarrow> (Inl e, if took_effect env [c] then snd (apply_cmd (now env) c R) else R))"

text \<open>The typed results of the client library for the commands that only read.\<close>

definition redis_Get :: "'z redis_env_scheme \<Rightarrow> string \<Rightarrow> keyspace \<Rightarrow> string option result" where
  "redis_Get env k R = map_sum id (\<lambda>x. case x of Text s \<Rightarrow> Some s | _ \<Rightarrow> None) (fst (run_cmd env (GET k) R))"

definition redis_Exists :: "'z redis_env_scheme \<Rightarrow> string \<Rightarrow> keyspace \<Rightarrow> bool result" where
  "redis_Exists env k R = map_sum id (\<lambda>x. x = Num 1) (fst (run_cmd env (EXISTS k) R))"

definition redis_SMembers :: "'z redis_env_scheme \<Rightarrow> string \<Rightarrow> keyspace \<Rightarrow> string list result" where
  "redis_SMembers env k R = map_sum id (\<lambda>x. case x of Array ms \<Rightarrow> ms | _ \<Rightarrow> []) (fst (run_cmd env (SMEMBERS k) R))"

definition redis_SIsMember :: "'z redis_env_scheme \<Rightarrow> string \<Rightarrow> string \<Rightarrow> keyspace \<Rightarrow> bool result" where
  "redis_SIsMember env k m R = map_sum id (\<lambda>x. x = Num 1) (fst (run_cmd env (SISMEMBER k m) R))"

definition redis_SCard :: "'z redis_env_scheme \<Rightarrow> string \<Rightarrow> keyspace \<Rightarrow> int result" where
  "redis_SCard env k R = map_sum id (\<lambda>x. case x of Num n \<Rightarrow> n | _ \<Rightarrow> 0) (fst (run_cmd env (SCARD k) R))"

text \<open>A command whose error the code ignores.\<close>

definition redis_do :: "'z redis_env_scheme \<Rightarrow> redis_cmd \<Rightarrow> keyspace \<Rightarrow> keyspace" where
  "redis_do env c R = snd (run_cmd env c R)"

section \<open>Texts\<close>

text \<open>\<^verbatim>\<open>strings.Split\<close> on one character, and \<^verbatim>\<open>strings.SplitN\<close>, which leaves the rest in the last part.\<close>

fun strings_Split :: "char \<Rightarrow> string \<Rightarrow> string list" where
  "strings_Split c [] = [[]]"
| "strings_Split c (x # xs) =
     (if x = c then [] # strings_Split c xs
      else (case strings_Split c xs of [] \<Rightarrow> [[x]] | p # ps \<Rightarrow> (x # p) # ps))"

fun strings_SplitN :: "nat \<Rightarrow> char \<Rightarrow> string \<Rightarrow> string list" where
  "strings_SplitN 0 c s = []"
| "strings_SplitN (Suc 0) c s = [s]"
| "strings_SplitN (Suc (Suc n)) c s =
     (if c \<in> set s then takeWhile (\<lambda>x. x \<noteq> c) s # strings_SplitN (Suc n) c (tl (dropWhile (\<lambda>x. x \<noteq> c) s)) else [s])"

text \<open>\<^verbatim>\<open>strconv.ParseInt(s, 10, 64)\<close>.\<close>

definition strconv_ParseInt :: "string \<Rightarrow> int option" where
  "strconv_ParseInt s =
     (let neg = (s \<noteq> [] \<and> hd s = CHR ''-''); ds = (if s \<noteq> [] \<and> (hd s = CHR ''-'' \<or> hd s = CHR ''+'') then tl s else s);
          n = (if neg then - int (parse_nat ds) else int (parse_nat ds)) in
      if ds \<noteq> [] \<and> list_all is_digit ds \<and> - (2 ^ 63) \<le> n \<and> n < 2 ^ 63 then Some n else None)"

section \<open>Facts about the commands\<close>

lemma live_cong: "R k = S k \<Longrightarrow> live t R k = live t S k"
  by (simp add: live_def)

text \<open>The keys that a command may change. All other keys keep value and expiry.\<close>

fun written :: "redis_cmd \<Rightarrow> string set" where
  "written (SET k v d) = {k}"
| "written (SETNX k v d) = {k}"
| "written (DEL ks) = set ks"
| "written (EXPIRE k d) = {k}"
| "written (SADD k m) = {k}"
| "written (SREM k xs) = {k}"
| "written c = {}"

lemma apply_cmd_other: "k \<notin> written c \<Longrightarrow> snd (apply_cmd t c R) k = R k"
  by (cases c) (auto simp: put_def delete_keys_def touch_def put_members_def split: option.split sum.split)

lemma snd_apply_cmds_Cons: "snd (apply_cmds t (c # cs) R) = snd (apply_cmds t cs (snd (apply_cmd t c R)))"
  by (simp split: prod.split)

lemma apply_cmds_other: "\<forall>c \<in> set cs. k \<notin> written c \<Longrightarrow> snd (apply_cmds t cs R) k = R k"
  by (induction cs arbitrary: R) (simp_all add: snd_apply_cmds_Cons apply_cmd_other del: apply_cmds.simps(2))

lemma run_cmd_other [simp]: "k \<notin> written c \<Longrightarrow> snd (run_cmd env c R) k = R k"
  by (simp add: run_cmd_def apply_cmd_other split: option.split)

lemma redis_do_other [simp]: "k \<notin> written c \<Longrightarrow> redis_do env c R k = R k"
  by (simp add: redis_do_def)

lemma run_pipe_other [simp]: "\<forall>c \<in> set cs. k \<notin> written c \<Longrightarrow> snd (run_pipe env cs R) k = R k"
  by (simp add: run_pipe_def apply_cmds_other split: option.split)

text \<open>A command that may have failed left the keyspace alone or did what it says.\<close>

lemma run_cmd_frame: "P R \<Longrightarrow> P (snd (apply_cmd (now env) c R)) \<Longrightarrow> P (snd (run_cmd env c R))"
  by (simp add: run_cmd_def split: option.split)

lemma run_pipe_frame: "P R \<Longrightarrow> P (snd (apply_cmds (now env) cs R)) \<Longrightarrow> P (snd (run_pipe env cs R))"
  by (simp add: run_pipe_def split: option.split)

lemma redis_do_ok: "fault env [c] = None \<Longrightarrow> redis_do env c R = snd (apply_cmd (now env) c R)"
  by (simp add: redis_do_def run_cmd_def)

text \<open>What the readers return.\<close>

lemma redis_Get_Inr: "redis_Get env k R = Inr x \<longleftrightarrow>
    fault env [GET k] = None \<and> (case live (now env) R k of None \<Rightarrow> x = None | Some (Str s) \<Rightarrow> x = Some s | Some (Members ms) \<Rightarrow> False)"
  by (auto simp: redis_Get_def run_cmd_def split: option.splits rval.splits)

lemma redis_Get_dead: "live (now env) R k = None \<Longrightarrow> redis_Get env k R = Inr None \<or> (\<exists>e. redis_Get env k R = Inl e)"
  by (auto simp: redis_Get_def run_cmd_def split: option.splits)

lemma redis_Exists_Inr: "redis_Exists env k R = Inr b \<longleftrightarrow> fault env [EXISTS k] = None \<and> b = (live (now env) R k \<noteq> None)"
  by (auto simp: redis_Exists_def run_cmd_def split: option.splits)

lemma redis_SMembers_Inr: "redis_SMembers env k R = Inr ms \<longleftrightarrow> fault env [SMEMBERS k] = None \<and> member_list (now env) R k = Inr ms"
  by (cases "member_list (now env) R k") (auto simp: redis_SMembers_def run_cmd_def split: option.splits)

lemma live_put: "live t' (put t k v d R) k' =
   (if k' = k then (case set_deadline t d (if live t R k = None then None else R k) of None \<Rightarrow> Some v | Some e \<Rightarrow> if t' < e then Some v else None)
    else live t' R k')"
  by (simp add: put_def live_def)

lemma live_delete_keys: "live t (delete_keys ks R) k = (if k \<in> set ks then None else live t R k)"
  by (simp add: delete_keys_def live_def)

text \<open>Splitting: no part contains the separator, and the parts joined again give the text.\<close>

lemma strings_Split_not_Nil [simp]: "strings_Split c s \<noteq> []"
  by (induction s) (auto split: list.split)

lemma strings_Split_append: "c \<notin> set p \<Longrightarrow> strings_Split c (p @ c # s) = p # strings_Split c s"
  by (induction p) (auto split: list.split)

lemma strings_Split_single: "c \<notin> set p \<Longrightarrow> strings_Split c p = [p]"
  by (induction p) auto

lemma hd_strings_Split: "hd (strings_Split c s) = takeWhile (\<lambda>x. x \<noteq> c) s"
  by (induction s) (auto split: list.split)

lemma strings_Split_two: "c \<in> set s \<Longrightarrow> tl (strings_Split c s) \<noteq> []"
  by (induction s) (auto split: list.split)

lemma last_strings_Split_append: "c \<notin> set q \<Longrightarrow> last (strings_Split c (p @ c # q)) = q"
proof (induction p)
  case Nil
  then show ?case by (simp add: strings_Split_single)
next
  case (Cons x p)
  then show ?case using strings_Split_two [of c "p @ c # q"] by (auto split: list.split)
qed

lemma takeWhile_before: "c \<notin> set p \<Longrightarrow> takeWhile (\<lambda>x. x \<noteq> c) (p @ c # s) = p"
  by (induction p) auto

lemma dropWhile_before: "c \<notin> set p \<Longrightarrow> dropWhile (\<lambda>x. x \<noteq> c) (p @ c # s) = c # s"
  by (induction p) auto

lemma split_at: "c \<in> set s \<Longrightarrow> s = takeWhile (\<lambda>x. x \<noteq> c) s @ c # tl (dropWhile (\<lambda>x. x \<noteq> c) s)"
  by (induction s) auto

lemma show_int_no_bar: "CHR ''|'' \<notin> set (show_int n)"
proof -
  have "CHR ''|'' \<notin> set (show_nat m)" for m using show_nat_digits [of m] by (auto simp: list_all_iff is_digit_def)
  then show ?thesis by (simp add: show_int_def)
qed

end
