(* ===== verification/Sessions.thy ===== *)
theory Sessions
  imports Redis
begin

text \<open>
  Refresh-token sessions (\<^verbatim>\<open>internal/domain/auth/session\<close>), login nonces
  (\<^verbatim>\<open>internal/domain/auth/nonce\<close>), the revocation lists of
  \<^verbatim>\<open>internal/api/middleware/token_blocklist.go\<close>, the session calls of
  \<^verbatim>\<open>internal/api/handler/session_handler.go\<close> and the scheduled clean-up, all over one Redis
  keyspace. SHA-256, Ed25519, random bytes, the Stellar address decoder and
  the signer of access tokens are parameters of the environment.
\<close>

section \<open>Environment\<close>

text \<open>
  \<open>sha256\<close> is the hexadecimal SHA-256 digest of a text, \<open>draw i n\<close> the hexadecimal form of the
  \<open>i\<close>-th draw of \<open>n\<close> random bytes in a call, \<open>decode_address\<close> and \<open>ed25519\<close> the decoder of a
  Stellar account and the verification of a signature of the digest of a text,
  \<open>decode_hex\<close> is \<^verbatim>\<open>hex.DecodeString\<close>, and \<open>rfc3339\<close> formats a Unix time.
\<close>

record auth_env = redis_env +
  sha256 :: "string \<Rightarrow> string"
  draw :: "nat \<Rightarrow> nat \<Rightarrow> string result"
  decode_hex :: "string \<Rightarrow> string result"
  decode_address :: "string \<Rightarrow> string result"
  ed25519 :: "string \<Rightarrow> string \<Rightarrow> string \<Rightarrow> bool"
  rfc3339 :: "int \<Rightarrow> string"

text \<open>\<^verbatim>\<open>JWTService\<close>: the generator of access tokens that the session service is given.\<close>

type_synonym generator = "uuid \<Rightarrow> string \<Rightarrow> string \<Rightarrow> duration \<Rightarrow> string result"

definition unix :: "time \<Rightarrow> int" where
  "unix t = t div second"

section \<open>Sessions\<close>

record TokenPair =
  TP_AccessToken :: string
  TP_RefreshToken :: string
  TP_CSRFToken :: string

record SessionInfo =
  SI_ID :: string
  SI_DeviceInfo :: string
  SI_LastActive :: string
  SI_IsCurrent :: bool

definition ErrTokenExpired :: error where
  "ErrTokenExpired = Errorf ''token expired''"

text \<open>The keys; each kind has its own prefix, so that keys of different kinds never coincide.\<close>

definition session_key :: "string \<Rightarrow> string" where
  "session_key h = ''session:'' @ h"

definition csrf_key :: "string \<Rightarrow> string" where
  "csrf_key h = ''csrf:'' @ h"

definition user_sessions_key :: "string \<Rightarrow> string" where
  "user_sessions_key u = ''user:sessions:'' @ u"

definition refresh_blocklist_key :: "string \<Rightarrow> string" where
  "refresh_blocklist_key u = ''refresh:blocklist:'' @ u"

definition token_blocklist_key :: "string \<Rightarrow> string" where
  "token_blocklist_key h = ''token:blocklist:'' @ h"

definition nonce_key :: "string \<Rightarrow> string" where
  "nonce_key w = ''nonce:'' @ w"

definition cleanupLockKey :: string where
  "cleanupLockKey = ''lock:session-cleanup''"

lemmas key_defs = session_key_def csrf_key_def user_sessions_key_def refresh_blocklist_key_def token_blocklist_key_def nonce_key_def cleanupLockKey_def

lemma key_inject [simp]:
  "session_key x = session_key y \<longleftrightarrow> x = y"
  "csrf_key x = csrf_key y \<longleftrightarrow> x = y"
  "user_sessions_key x = user_sessions_key y \<longleftrightarrow> x = y"
  "refresh_blocklist_key x = refresh_blocklist_key y \<longleftrightarrow> x = y"
  "token_blocklist_key x = token_blocklist_key y \<longleftrightarrow> x = y"
  "nonce_key x = nonce_key y \<longleftrightarrow> x = y"
  by (simp_all add: key_defs)

lemma key_distinct [simp]:
  "session_key x \<noteq> csrf_key y"
  "session_key x \<noteq> user_sessions_key y"
  "session_key x \<noteq> refresh_blocklist_key y"
  "session_key x \<noteq> token_blocklist_key y"
  "session_key x \<noteq> nonce_key y"
  "session_key x \<noteq> cleanupLockKey"
  "csrf_key x \<noteq> session_key y"
  "csrf_key x \<noteq> user_sessions_key y"
  "csrf_key x \<noteq> refresh_blocklist_key y"
  "csrf_key x \<noteq> token_blocklist_key y"
  "csrf_key x \<noteq> nonce_key y"
  "csrf_key x \<noteq> cleanupLockKey"
  "user_sessions_key x \<noteq> session_key y"
  "user_sessions_key x \<noteq> csrf_key y"
  "user_sessions_key x \<noteq> refresh_blocklist_key y"
  "user_sessions_key x \<noteq> token_blocklist_key y"
  "user_sessions_key x \<noteq> nonce_key y"
  "user_sessions_key x \<noteq> cleanupLockKey"
  "refresh_blocklist_key x \<noteq> session_key y"
  "refresh_blocklist_key x \<noteq> csrf_key y"
  "refresh_blocklist_key x \<noteq> user_sessions_key y"
  "refresh_blocklist_key x \<noteq> token_blocklist_key y"
  "refresh_blocklist_key x \<noteq> nonce_key y"
  "refresh_blocklist_key x \<noteq> cleanupLockKey"
  "token_blocklist_key x \<noteq> session_key y"
  "token_blocklist_key x \<noteq> csrf_key y"
  "token_blocklist_key x \<noteq> user_sessions_key y"
  "token_blocklist_key x \<noteq> refresh_blocklist_key y"
  "token_blocklist_key x \<noteq> nonce_key y"
  "token_blocklist_key x \<noteq> cleanupLockKey"
  "nonce_key x \<noteq> session_key y"
  "nonce_key x \<noteq> csrf_key y"
  "nonce_key x \<noteq> user_sessions_key y"
  "nonce_key x \<noteq> refresh_blocklist_key y"
  "nonce_key x \<noteq> token_blocklist_key y"
  "nonce_key x \<noteq> cleanupLockKey"
  "cleanupLockKey \<noteq> session_key y"
  "cleanupLockKey \<noteq> csrf_key y"
  "cleanupLockKey \<noteq> user_sessions_key y"
  "cleanupLockKey \<noteq> refresh_blocklist_key y"
  "cleanupLockKey \<noteq> token_blocklist_key y"
  "cleanupLockKey \<noteq> nonce_key y"
  by (simp_all add: key_defs)

definition session_data :: "string \<Rightarrow> string \<Rightarrow> int \<Rightarrow> string \<Rightarrow> string" where
  "session_data user device ts role = user @ ''|'' @ device @ ''|'' @ show_int ts @ ''|'' @ role"

definition role_or_user :: "string \<Rightarrow> string" where
  "role_or_user role = (if role = [] then ''user'' else role)"

definition Session_Create :: "auth_env \<Rightarrow> generator \<Rightarrow> duration \<Rightarrow> uuid \<Rightarrow> string \<Rightarrow> duration \<Rightarrow> string \<Rightarrow> keyspace
    \<Rightarrow> TokenPair result \<times> keyspace" where
  "Session_Create env gen refreshTTL userID role0 sessionTTL deviceInfo R =
     (let role = role_or_user role0 in
      attempt (wrap_err ''generating access token'' (gen userID [] role sessionTTL)) R (\<lambda>access.
      attempt (wrap_err ''generating refresh token'' (draw env 0 64)) R (\<lambda>refresh.
      attempt (wrap_err ''generating CSRF token'' (draw env 1 32)) R (\<lambda>csrf.
      let h = sha256 env refresh; u = uuid_String env userID;
          data = session_data u deviceInfo (unix (now env)) role;
          skey = session_key h; ckey = csrf_key (sha256 env access); ukey = user_sessions_key u in
      case run_pipe env [SET skey data refreshTTL, SET ckey csrf sessionTTL, SADD ukey h, EXPIRE ukey sessionTTL] R of
        (Inl e, R1) \<Rightarrow> (Inl (Wrap ''storing session and CSRF in redis'' e), redis_do env (SREM ukey [h]) (redis_do env (DEL [skey, ckey]) R1))
      | (Inr _, R1) \<Rightarrow> (Inr \<lparr>TP_AccessToken = access, TP_RefreshToken = refresh, TP_CSRFToken = csrf\<rparr>, R1)))))"

definition SessionRole :: "string \<Rightarrow> string" where
  "SessionRole data = (let role = last (strings_Split CHR ''|'' data) in if role = ''user'' \<or> role = ''admin'' then role else ''user'')"

text \<open>The look-up of a refresh token, and the check of the user's revocation that follows it.\<close>

definition find_session :: "auth_env \<Rightarrow> string \<Rightarrow> keyspace \<Rightarrow> string result" where
  "find_session env token R =
     (case redis_Get env (session_key (sha256 env token)) R of
        Inl e \<Rightarrow> Inl (Wrap ''retrieving session from redis'' e)
      | Inr None \<Rightarrow> Inl ErrTokenExpired
      | Inr (Some data) \<Rightarrow> Inr data)"

definition unless_blocked :: "auth_env \<Rightarrow> string \<Rightarrow> string \<Rightarrow> keyspace \<Rightarrow> 'a result \<times> keyspace \<Rightarrow> 'a result \<times> keyspace" where
  "unless_blocked env user token R continue =
     (case redis_Exists env (refresh_blocklist_key user) R of
        Inl e \<Rightarrow> (Inl (Errorf ''session validation error''), R)
      | Inr True \<Rightarrow> (Inl (Errorf ''session revoked''), redis_do env (DEL [session_key (sha256 env token)]) R)
      | Inr False \<Rightarrow> continue)"

definition parse_session_user :: "auth_env \<Rightarrow> string \<Rightarrow> uuid result" where
  "parse_session_user env s = (case uuid_Parse env s of None \<Rightarrow> Inl (Wrap ''parsing session user ID'' (Driver ''invalid UUID'')) | Some u \<Rightarrow> Inr u)"

definition Session_Validate :: "auth_env \<Rightarrow> string \<Rightarrow> keyspace \<Rightarrow> uuid result \<times> keyspace" where
  "Session_Validate env token R =
     attempt (find_session env token R) R (\<lambda>user.
     unless_blocked env user token R (parse_session_user env user, R))"

definition Session_Refresh :: "auth_env \<Rightarrow> generator \<Rightarrow> duration \<Rightarrow> string \<Rightarrow> duration \<Rightarrow> keyspace \<Rightarrow> TokenPair result \<times> keyspace" where
  "Session_Refresh env gen refreshTTL token accessTTL R =
     attempt (find_session env token R) R (\<lambda>data.
     let user = hd (strings_Split CHR ''|'' data) in
     unless_blocked env user token R (
     attempt (parse_session_user env user) R (\<lambda>u.
     perform (wrap_call ''creating new session'' (Session_Create env gen refreshTTL u (SessionRole data) accessTTL [] R)) (\<lambda>pair R1.
     (Inr pair, redis_do env (EXPIRE (session_key (sha256 env token)) (60 * second)) R1)))))"

text \<open>\<^verbatim>\<open>List\<close>: a session that cannot be read is left out.\<close>

definition session_info :: "auth_env \<Rightarrow> string \<Rightarrow> string \<Rightarrow> string \<Rightarrow> SessionInfo" where
  "session_info env current h data =
     (let parts = strings_SplitN 3 CHR ''|'' data in
      \<lparr>SI_ID = h, SI_DeviceInfo = (if length parts \<ge> 2 then parts ! 1 else []),
       SI_LastActive = (if length parts \<ge> 3 then (case strconv_ParseInt (parts ! 2) of None \<Rightarrow> [] | Some ts \<Rightarrow> rfc3339 env ts) else []),
       SI_IsCurrent = (h = current)\<rparr>)"

definition Session_List :: "auth_env \<Rightarrow> string \<Rightarrow> string \<Rightarrow> keyspace \<Rightarrow> SessionInfo list result" where
  "Session_List env user current R =
     (case redis_SMembers env (user_sessions_key user) R of
        Inl e \<Rightarrow> Inl (Wrap ''listing sessions'' e)
      | Inr hs \<Rightarrow> Inr (List.map_filter (\<lambda>h. case redis_Get env (session_key h) R of
                              Inr (Some data) \<Rightarrow> Some (session_info env current h data) | _ \<Rightarrow> None) hs))"

definition Session_Revoke :: "auth_env \<Rightarrow> string \<Rightarrow> string \<Rightarrow> keyspace \<Rightarrow> unit result \<times> keyspace" where
  "Session_Revoke env user h R =
     (Inr (), redis_do env (SREM (user_sessions_key user) [h]) (redis_do env (DEL [session_key h]) R))"

definition Session_RevokeAll :: "auth_env \<Rightarrow> duration \<Rightarrow> string \<Rightarrow> string \<Rightarrow> keyspace \<Rightarrow> unit result \<times> keyspace" where
  "Session_RevokeAll env refreshTTL user current R =
     attempt (wrap_err ''listing sessions for revoke'' (redis_SMembers env (user_sessions_key user) R)) R (\<lambda>hs.
     let R1 = fold (\<lambda>h. redis_do env (DEL [session_key h])) (filter (\<lambda>h. h \<noteq> current) hs) R;
         R2 = redis_do env (DEL [user_sessions_key user]) R1 in
     (Inr (), if current = [] then R2
              else redis_do env (EXPIRE (user_sessions_key user) refreshTTL) (redis_do env (SADD (user_sessions_key user) current) R2)))"

section \<open>Login nonces\<close>

record Nonce =
  N_WalletAddress :: string
  N_Nonce :: string
  N_ExpiresAt :: time

definition stored_nonce :: "string \<Rightarrow> int \<Rightarrow> string" where
  "stored_nonce nonce ts = nonce @ '':'' @ show_int ts"

definition Nonce_Generate :: "auth_env \<Rightarrow> duration \<Rightarrow> string \<Rightarrow> keyspace \<Rightarrow> Nonce result \<times> keyspace" where
  "Nonce_Generate env nonceTTL wallet R =
     attempt (wrap_err ''generating random nonce'' (draw env 0 32)) R (\<lambda>nonce.
     perform (wrap_call ''storing nonce in redis''
       (run_cmd env (SET (nonce_key wallet) (stored_nonce nonce (unix (now env))) (nonceTTL + 30 * second)) R)) (\<lambda>_ R1.
     (Inr \<lparr>N_WalletAddress = wallet, N_Nonce = nonce, N_ExpiresAt = now env + nonceTTL\<rparr>, R1)))"

definition ErrNonceExpired :: error where
  "ErrNonceExpired = Errorf ''nonce expired''"

definition Nonce_Verify :: "auth_env \<Rightarrow> duration \<Rightarrow> string \<Rightarrow> string \<Rightarrow> keyspace \<Rightarrow> bool result \<times> keyspace" where
  "Nonce_Verify env nonceTTL wallet signature R =
     attempt (case redis_Get env (nonce_key wallet) R of
                Inl e \<Rightarrow> Inl (Wrap ''retrieving nonce from redis'' e)
              | Inr None \<Rightarrow> Inl ErrNonceExpired
              | Inr (Some stored) \<Rightarrow> Inr stored) R (\<lambda>stored.
     let parts = strings_SplitN 2 CHR '':'' stored in
     guard (length parts \<noteq> 2) (Errorf ''invalid nonce format'') R (
     attempt (case strconv_ParseInt (parts ! 1) of None \<Rightarrow> Inl (Wrap ''invalid nonce timestamp'' (Driver ''strconv'')) | Some n \<Rightarrow> Inr n) R (\<lambda>createdAt.
     guard (unix (now env) > createdAt + quo nonceTTL second + 30) ErrNonceExpired R (
     guard (unix (now env) < createdAt - 30) (Errorf ''nonce from the future'') R (
     attempt (wrap_err ''decoding signature hex'' (decode_hex env signature)) R (\<lambda>sigBytes.
     attempt (wrap_err ''decoding public key'' (wrap_err ''decoding stellar address'' (decode_address env wallet))) R (\<lambda>publicKey.
     if ed25519 env publicKey (parts ! 0) sigBytes
     then (Inr True,
           (case run_cmd env (DEL [nonce_key wallet]) R of
              (Inr _, R1) \<Rightarrow> R1 | (Inl e, R1) \<Rightarrow> redis_do env (EXPIRE (nonce_key wallet) second) R1))
     else (Inr False, R))))))))"

section \<open>Revocation lists and session handlers\<close>

definition BlocklistToken :: "auth_env \<Rightarrow> string \<Rightarrow> time \<Rightarrow> keyspace \<Rightarrow> keyspace" where
  "BlocklistToken env token expiresAt R =
     (if expiresAt - now env \<le> 0 then R
      else redis_do env (SET (token_blocklist_key (sha256 env token)) ''revoked'' (expiresAt - now env)) R)"

definition week :: duration where
  "week = 7 * 24 * 3600 * second"

definition BlocklistUserRefreshTokens :: "auth_env \<Rightarrow> string \<Rightarrow> keyspace \<Rightarrow> keyspace" where
  "BlocklistUserRefreshTokens env user R = redis_do env (SET (refresh_blocklist_key user) ''revoked'' week) R"

text \<open>
  \<^verbatim>\<open>Logout\<close> of the session handler: \<open>token\<close> is the bearer token and \<open>expires\<close> what \<^verbatim>\<open>ExtractTokenExpiry\<close> reads
  from it, \<open>user\<close> the user of the request, \<open>body\<close> the refresh token of the request body, if any.
\<close>

definition Logout :: "auth_env \<Rightarrow> string \<Rightarrow> time option \<Rightarrow> string \<Rightarrow> string option \<Rightarrow> keyspace \<Rightarrow> keyspace" where
  "Logout env token expires user body R =
     (let R1 = (case expires of None \<Rightarrow> R | Some x \<Rightarrow> BlocklistToken env token x R);
          R2 = (if user = [] then R1
                else BlocklistUserRefreshTokens env user
                  (case redis_SMembers env (user_sessions_key user) R1 of
                     Inl e \<Rightarrow> R1
                   | Inr hs \<Rightarrow> snd (run_pipe env (map (\<lambda>h. DEL [session_key h]) hs @ [DEL [user_sessions_key user]]) R1))) in
      (case body of None \<Rightarrow> R2
       | Some refresh \<Rightarrow> if refresh = [] then R2 else redis_do env (DEL [session_key (sha256 env refresh)]) R2))"

definition RevokeSessionByID :: "auth_env \<Rightarrow> string \<Rightarrow> string \<Rightarrow> keyspace \<Rightarrow> keyspace" where
  "RevokeSessionByID env user sessionID R =
     (if sessionID = [] then R
      else let R1 = redis_do env (DEL [session_key sessionID]) R in
        if user = [] then R1 else redis_do env (SREM (user_sessions_key user) [sessionID]) R1)"

text \<open>\<^verbatim>\<open>RevokeDeviceSession\<close> answers with a status code.\<close>

definition RevokeDeviceSession :: "auth_env \<Rightarrow> string \<Rightarrow> string \<Rightarrow> keyspace \<Rightarrow> nat \<times> keyspace" where
  "RevokeDeviceSession env user sessionID R =
     (if sessionID = [] \<or> user = [] then (400, R)
      else if redis_SIsMember env (user_sessions_key user) sessionID R \<noteq> Inr True then (404, R)
      else (200, snd (run_pipe env [DEL [session_key sessionID], SREM (user_sessions_key user) [sessionID]] R)))"

section \<open>Scheduled clean-up\<close>

record CleanupStats =
  CS_SetsScanned :: int
  CS_DanglingMembers :: int
  CS_EmptySetsRemoved :: int
  CS_RowsDeleted :: int

abbreviation cleanupLockTTL :: duration where "cleanupLockTTL \<equiv> 300 * second"

text \<open>
  \<open>scan cursor\<close> is the page that \<^verbatim>\<open>SCAN\<close> returns for the pattern \<^verbatim>\<open>user:sessions:*\<close>. The loop ends when the
  cursor is 0 again.
\<close>

partial_function (option) scan_loop :: "(nat \<Rightarrow> (string list \<times> nat) result) \<Rightarrow> nat \<Rightarrow> string list \<Rightarrow> string list result option" where
  "scan_loop scan c found =
     (case scan c of
        Inl e \<Rightarrow> Some (Inl (Wrap ''scanning session index sets'' e))
      | Inr (ks, c') \<Rightarrow> if c' = 0 then Some (Inr (found @ ks)) else scan_loop scan c' (found @ ks))"

text \<open>The members whose session key does not exist, from the answers to \<^verbatim>\<open>EXISTS\<close>.\<close>

definition dangling_members :: "string list \<Rightarrow> reply list \<Rightarrow> string list" where
  "dangling_members hs xs = map fst (filter (\<lambda>(h, x). x = Num 0) (zip hs xs))"

text \<open>The result is the number of removed members and whether the set is gone.\<close>

definition pruneSet :: "auth_env \<Rightarrow> string \<Rightarrow> keyspace \<Rightarrow> (int \<times> bool) result \<times> keyspace" where
  "pruneSet env key R =
     attempt (wrap_err ''listing members'' (redis_SMembers env key R)) R (\<lambda>hs.
     if hs = [] then (Inr (0, True), R)
     else attempt (wrap_err ''checking session keys'' (fst (run_pipe env (map (\<lambda>h. EXISTS (session_key h)) hs) R))) R (\<lambda>xs.
     let dangling = dangling_members hs xs in
     if dangling = [] then (Inr (0, False), R)
     else perform (wrap_call ''removing expired members'' (run_cmd env (SREM key dangling) R)) (\<lambda>_ R1.
     attempt (wrap_err ''sizing'' (redis_SCard env key R1)) R1 (\<lambda>n.
     if n > 0 then (Inr (int (length dangling), False), R1)
     else perform (wrap_call ''deleting empty session set'' (run_cmd env (DEL [key]) R1)) (\<lambda>_ R2.
          (Inr (int (length dangling), True), R2))))))"

fun prune_all :: "auth_env \<Rightarrow> string list \<Rightarrow> CleanupStats \<Rightarrow> keyspace \<Rightarrow> CleanupStats result \<times> keyspace" where
  "prune_all env [] stats R = (Inr stats, R)"
| "prune_all env (k # ks) stats R =
     perform (pruneSet env k R) (\<lambda>(removed, emptied) R1.
     prune_all env ks (stats\<lparr>CS_SetsScanned := CS_SetsScanned stats + 1, CS_DanglingMembers := CS_DanglingMembers stats + removed,
        CS_EmptySetsRemoved := CS_EmptySetsRemoved stats + (if emptied then 1 else 0)\<rparr>) R1)"

text \<open>The table of sessions is an interface that may be absent; \<open>rows\<close> is the answer of \<^verbatim>\<open>DeleteExpiredSessions\<close>.\<close>

definition sweep :: "auth_env \<Rightarrow> (nat \<Rightarrow> (string list \<times> nat) result) \<Rightarrow> int result option \<Rightarrow> keyspace
    \<Rightarrow> (CleanupStats result \<times> keyspace) option" where
  "sweep env scan rows R =
     (case scan_loop scan 0 [] of
        None \<Rightarrow> None
      | Some r \<Rightarrow> Some (attempt r R (\<lambda>sets.
          perform (prune_all env sets \<lparr>CS_SetsScanned = 0, CS_DanglingMembers = 0, CS_EmptySetsRemoved = 0, CS_RowsDeleted = 0\<rparr> R) (\<lambda>stats R1.
          case rows of None \<Rightarrow> (Inr stats, R1)
          | Some x \<Rightarrow> attempt x R1 (\<lambda>n. (Inr (stats\<lparr>CS_RowsDeleted := n\<rparr>), R1))))))"

text \<open>The release script compares and deletes in one step.\<close>

definition release :: "auth_env \<Rightarrow> string \<Rightarrow> keyspace \<Rightarrow> keyspace" where
  "release env token R =
     (if live (now env) R cleanupLockKey = Some (Str token) then redis_do env (DEL [cleanupLockKey]) R else R)"

definition acquire :: "auth_env \<Rightarrow> string \<Rightarrow> keyspace \<Rightarrow> bool result \<times> keyspace" where
  "acquire env token R =
     (case run_cmd env (SETNX cleanupLockKey token cleanupLockTTL) R of
        (Inl e, R1) \<Rightarrow> (Inl (Wrap ''acquiring session cleanup lock'' e), R1)
      | (Inr x, R1) \<Rightarrow> (Inr (x = Num 1), R1))"

text \<open>\<open>env'\<close> is the environment at the end of the sweep, when the lock is released.\<close>

definition RunOnce :: "auth_env \<Rightarrow> auth_env \<Rightarrow> (nat \<Rightarrow> (string list \<times> nat) result) \<Rightarrow> int result option \<Rightarrow> keyspace
    \<Rightarrow> ((CleanupStats option) result \<times> keyspace) option" where
  "RunOnce env env' scan rows R =
     (case draw env 0 16 of
        Inl e \<Rightarrow> Some (Inl (Wrap ''generating cleanup lock token'' e), R)
      | Inr token \<Rightarrow>
     (case acquire env token R of
        (Inl e, R1) \<Rightarrow> Some (Inl e, R1)
      | (Inr False, R1) \<Rightarrow> Some (Inr None, R1)
      | (Inr True, R1) \<Rightarrow> map_option (\<lambda>(x, R2). (map_sum id Some x, release env' token R2)) (sweep env scan rows R1)))"

end
