(* ===== verification/SessionSafety.thy ===== *)
theory SessionSafety
  imports Sessions
begin

text \<open>
  What the session, nonce and revocation code guarantees, over every sequence of calls. The
  locale \<open>keyspace_invariant\<close> is the interface to Redis: a property of the keyspace
  that the commands of a class keep is kept by every operation that only issues
  such commands. It is interpreted for the origin of sessions, for the
  revocation of a user and for the nonce of a wallet.
\<close>

section \<open>Calls\<close>

text \<open>The calls that change the keyspace, each with the environment it runs in.\<close>

datatype auth_call =
    Login auth_env generator duration uuid string duration string
  | Refresh auth_env generator duration string duration
  | Validate auth_env string
  | Revoke auth_env string string
  | RevokeAll auth_env duration string string
  | NewNonce auth_env duration string
  | Verify auth_env duration string string
  | LogoutRequest auth_env string "time option" string "string option"
  | RevokeByID auth_env string string
  | RevokeDevice auth_env string string
  | Sweep auth_env auth_env "nat \<Rightarrow> (string list \<times> nat) result" "int result option"

fun call_env :: "auth_call \<Rightarrow> auth_env" where
  "call_env (Login env gen rt u role ttl dev) = env"
| "call_env (Refresh env gen rt token ttl) = env"
| "call_env (Validate env token) = env"
| "call_env (Revoke env user h) = env"
| "call_env (RevokeAll env rt user h) = env"
| "call_env (NewNonce env ttl w) = env"
| "call_env (Verify env ttl w sig) = env"
| "call_env (LogoutRequest env token x user body) = env"
| "call_env (RevokeByID env user i) = env"
| "call_env (RevokeDevice env user i) = env"
| "call_env (Sweep env env' scan rows) = env"

fun auth_step :: "auth_call \<Rightarrow> keyspace \<Rightarrow> keyspace" where
  "auth_step (Login env gen rt u role ttl dev) R = snd (Session_Create env gen rt u role ttl dev R)"
| "auth_step (Refresh env gen rt token ttl) R = snd (Session_Refresh env gen rt token ttl R)"
| "auth_step (Validate env token) R = snd (Session_Validate env token R)"
| "auth_step (Revoke env user h) R = snd (Session_Revoke env user h R)"
| "auth_step (RevokeAll env rt user h) R = snd (Session_RevokeAll env rt user h R)"
| "auth_step (NewNonce env ttl w) R = snd (Nonce_Generate env ttl w R)"
| "auth_step (Verify env ttl w sig) R = snd (Nonce_Verify env ttl w sig R)"
| "auth_step (LogoutRequest env token x user body) R = Logout env token x user body R"
| "auth_step (RevokeByID env user i) R = RevokeSessionByID env user i R"
| "auth_step (RevokeDevice env user i) R = snd (RevokeDeviceSession env user i R)"
| "auth_step (Sweep env env' scan rows) R = (case RunOnce env env' scan rows R of None \<Rightarrow> R | Some (x, R') \<Rightarrow> R')"

abbreviation auth_run :: "auth_call list \<Rightarrow> keyspace \<Rightarrow> keyspace" where
  "auth_run cs R \<equiv> fold auth_step cs R"

text \<open>\<^verbatim>\<open>SCAN\<close> with a pattern returns only keys that match it.\<close>

definition scan_matches :: "(nat \<Rightarrow> (string list \<times> nat) result) \<Rightarrow> bool" where
  "scan_matches scan = (\<forall>c ks c'. scan c = Inr (ks, c') \<longrightarrow> (\<forall>k \<in> set ks. \<exists>u. k = user_sessions_key u))"

fun sane :: "auth_call \<Rightarrow> bool" where
  "sane (Sweep env env' scan rows) = scan_matches scan"
| "sane c = True"

lemma scan_loop_matches:
  assumes "scan_loop scan c found = Some r" "scan_matches scan" "\<forall>k \<in> set found. \<exists>u. k = user_sessions_key u"
  shows "\<forall>ks. r = Inr ks \<longrightarrow> (\<forall>k \<in> set ks. \<exists>u. k = user_sessions_key u)"
proof -
  have "scan_matches scan \<longrightarrow> (\<forall>k \<in> set found. \<exists>u. k = user_sessions_key u) \<longrightarrow> (\<forall>ks. r = Inr ks \<longrightarrow> (\<forall>k \<in> set ks. \<exists>u. k = user_sessions_key u))"
  proof (rule scan_loop.raw_induct [OF _ assms(1), where P = "\<lambda>scan c found r. scan_matches scan \<longrightarrow> (\<forall>k \<in> set found. \<exists>u. k = user_sessions_key u)
      \<longrightarrow> (\<forall>ks. r = Inr ks \<longrightarrow> (\<forall>k \<in> set ks. \<exists>u. k = user_sessions_key u))"], intro impI)
    fix f scan c found r
    assume IH: "\<And>scan c found r. f scan c found = Some r \<Longrightarrow> scan_matches scan \<longrightarrow> (\<forall>k \<in> set found. \<exists>u. k = user_sessions_key u)
        \<longrightarrow> (\<forall>ks. r = Inr ks \<longrightarrow> (\<forall>k \<in> set ks. \<exists>u. k = user_sessions_key u))"
      and body: "(case scan c of Inl e \<Rightarrow> Some (Inl (Wrap ''scanning session index sets'' e))
        | Inr (ks, c') \<Rightarrow> if c' = 0 then Some (Inr (found @ ks)) else f scan c' (found @ ks)) = Some r"
      and m: "scan_matches scan" and found: "\<forall>k \<in> set found. \<exists>u. k = user_sessions_key u"
    show "\<forall>ks. r = Inr ks \<longrightarrow> (\<forall>k \<in> set ks. \<exists>u. k = user_sessions_key u)"
    proof (cases "scan c")
      case (Inl e)
      then show ?thesis using body by auto
    next
      case (Inr p)
      then obtain ks c' where p: "scan c = Inr (ks, c')" by (cases p) simp
      then have all: "\<forall>k \<in> set (found @ ks). \<exists>u. k = user_sessions_key u" using m found by (auto simp: scan_matches_def)
      show ?thesis
      proof (cases "c' = 0")
        case True
        then show ?thesis using body p all by auto
      next
        case False
        then show ?thesis using body p IH [of scan c' "found @ ks" r] m all by auto
      qed
    qed
  qed
  then show ?thesis using assms(2,3) by blast
qed

section \<open>Invariants of the keyspace\<close>

text \<open>The keys that all operations may delete or let expire, and the commands that only concern such keys.\<close>

definition volatile :: "string \<Rightarrow> bool" where
  "volatile k = (\<exists>x. k = session_key x \<or> k = csrf_key x \<or> k = user_sessions_key x \<or> k = cleanupLockKey)"

fun routine :: "redis_cmd \<Rightarrow> bool" where
  "routine (SET k v d) = (\<exists>x. k = csrf_key x)"
| "routine (SETNX k v d) = (k = cleanupLockKey)"
| "routine (DEL ks) = (\<forall>k \<in> set ks. volatile k)"
| "routine (EXPIRE k d) = volatile k"
| "routine (SADD k m) = (\<exists>x. k = user_sessions_key x)"
| "routine (SREM k xs) = (\<exists>x. k = user_sessions_key x)"
| "routine c = True"

lemma snd_acquire: "snd (acquire env token R) = snd (run_cmd env (SETNX cleanupLockKey token cleanupLockTTL) R)"
  by (simp add: acquire_def split: prod.split sum.split)

lemma volatile_simps [simp]:
  "volatile (session_key x)" "volatile (csrf_key x)" "volatile (user_sessions_key x)" "volatile cleanupLockKey"
  unfolding volatile_def by blast+

locale keyspace_invariant =
  fixes I :: "keyspace \<Rightarrow> bool" and allowed :: "time \<Rightarrow> redis_cmd \<Rightarrow> bool"
  assumes keeps: "I R \<Longrightarrow> allowed t c \<Longrightarrow> I (snd (apply_cmd t c R))"
    and routine_allowed: "routine c \<Longrightarrow> allowed t c"
begin

lemma run_cmd_keeps: "I R \<Longrightarrow> allowed (now env) c \<Longrightarrow> I (snd (run_cmd env c R))"
  by (rule run_cmd_frame) (auto intro: keeps)

lemma redis_do_keeps: "I R \<Longrightarrow> allowed (now env) c \<Longrightarrow> I (redis_do env c R)"
  unfolding redis_do_def by (rule run_cmd_keeps)

lemma apply_cmds_keeps: "I R \<Longrightarrow> \<forall>c \<in> set cs. allowed t c \<Longrightarrow> I (snd (apply_cmds t cs R))"
  by (induction cs arbitrary: R) (simp_all add: snd_apply_cmds_Cons keeps del: apply_cmds.simps(2))

lemma run_pipe_keeps: "I R \<Longrightarrow> \<forall>c \<in> set cs. allowed (now env) c \<Longrightarrow> I (snd (run_pipe env cs R))"
  by (rule run_pipe_frame) (auto intro: apply_cmds_keeps)

lemmas routine_cmd_keeps = run_cmd_keeps [OF _ routine_allowed]
  and routine_do_keeps = redis_do_keeps [OF _ routine_allowed]

lemma fold_do_keeps: "I R \<Longrightarrow> \<forall>x \<in> set xs. routine (f x) \<Longrightarrow> I (fold (\<lambda>x. redis_do env (f x)) xs R)"
  by (induction xs arbitrary: R) (simp_all add: routine_do_keeps)

lemma Create_keeps:
  assumes "I R"
    and "\<And>h. allowed (now env) (SET (session_key h)
           (session_data (uuid_String env u) dev (unix (now env)) (role_or_user role)) refreshTTL)"
  shows "I (snd (Session_Create env gen refreshTTL u role ttl dev R))"
proof -
  have pipe: "I (snd (run_pipe env [SET (session_key h) (session_data (uuid_String env u) dev (unix (now env)) (role_or_user role)) refreshTTL,
      SET (csrf_key a) csrf ttl, SADD (user_sessions_key v) h, EXPIRE (user_sessions_key v) ttl] R))" for h a csrf v
    by (rule run_pipe_keeps [OF assms(1)]) (auto intro: assms(2) routine_allowed)
  have undo: "I (redis_do env (SREM (user_sessions_key v) [h]) (redis_do env (DEL [session_key h, csrf_key a]) R'))" if "I R'" for v h a R'
    by (intro routine_do_keeps that) auto
  show ?thesis unfolding Session_Create_def Let_def
  proof (intro attempt_frame [where P = I] assms(1))
    fix access refresh csrf
    let ?p = "run_pipe env [SET (session_key (sha256 env refresh)) (session_data (uuid_String env u) dev (unix (now env)) (role_or_user role)) refreshTTL,
      SET (csrf_key (sha256 env access)) csrf ttl, SADD (user_sessions_key (uuid_String env u)) (sha256 env refresh),
      EXPIRE (user_sessions_key (uuid_String env u)) ttl] R"
    obtain x R1 where x: "?p = (x, R1)" by (cases ?p)
    then have "I R1" using pipe by (metis snd_conv)
    then show "I (snd (case ?p of
        (Inl e, R1) \<Rightarrow> (Inl (Wrap ''storing session and CSRF in redis'' e),
            redis_do env (SREM (user_sessions_key (uuid_String env u)) [sha256 env refresh])
              (redis_do env (DEL [session_key (sha256 env refresh), csrf_key (sha256 env access)]) R1))
      | (Inr _, R1) \<Rightarrow> (Inr \<lparr>TP_AccessToken = access, TP_RefreshToken = refresh, TP_CSRFToken = csrf\<rparr>, R1)))"
      unfolding x by (cases x) (auto intro: undo)
  qed
qed

lemma unless_blocked_keeps: "I R \<Longrightarrow> I (snd k) \<Longrightarrow> I (snd (unless_blocked env user token R k))"
  by (auto simp: unless_blocked_def intro: routine_do_keeps split: sum.split bool.split)

lemma Validate_keeps: "I R \<Longrightarrow> I (snd (Session_Validate env token R))"
  unfolding Session_Validate_def by (intro attempt_frame [where P = I] unless_blocked_keeps) simp_all

lemma Refresh_keeps:
  assumes "I R"
    and "\<And>data u h. find_session env token R = Inr data \<Longrightarrow> uuid_Parse env (hd (strings_Split CHR ''|'' data)) = Some u \<Longrightarrow>
           allowed (now env) (SET (session_key h) (session_data (uuid_String env u) [] (unix (now env)) (SessionRole data)) refreshTTL)"
  shows "I (snd (Session_Refresh env gen refreshTTL token ttl R))"
proof -
  have role: "role_or_user (SessionRole d) = SessionRole d" for d by (simp add: role_or_user_def SessionRole_def Let_def)
  show ?thesis unfolding Session_Refresh_def Let_def
  proof (intro attempt_frame [where P = I] unless_blocked_keeps perform_frame [where P = I] assms(1))
    fix data u
    assume "find_session env token R = Inr data" "parse_session_user env (hd (strings_Split CHR ''|'' data)) = Inr u"
    then show "I (snd (wrap_call ''creating new session'' (Session_Create env gen refreshTTL u (SessionRole data) ttl [] R)))"
      using assms role by (auto simp: parse_session_user_def intro!: Create_keeps split: option.splits)
  qed (auto intro: routine_do_keeps)
qed

lemma Revoke_keeps: "I R \<Longrightarrow> I (snd (Session_Revoke env user h R))"
  by (auto simp: Session_Revoke_def intro!: routine_do_keeps)

lemma RevokeAll_keeps: "I R \<Longrightarrow> I (snd (Session_RevokeAll env ttl user current R))"
  unfolding Session_RevokeAll_def Let_def
  by (rule attempt_frame [where P = I]) (auto intro!: routine_do_keeps fold_do_keeps)

lemma Generate_keeps:
  assumes "I R" and "\<And>v d. draw env 0 32 = Inr v \<Longrightarrow> allowed (now env) (SET (nonce_key w) (stored_nonce v (unix (now env))) d)"
  shows "I (snd (Nonce_Generate env ttl w R))"
  unfolding Nonce_Generate_def
  by (intro attempt_frame [where P = I] perform_frame [where P = I]) (auto simp: assms intro!: run_cmd_keeps)

lemma Verify_keeps:
  assumes "I R" and "allowed (now env) (DEL [nonce_key w])" and "allowed (now env) (EXPIRE (nonce_key w) second)"
  shows "I (snd (Nonce_Verify env ttl w sig R))"
proof -
  obtain x R1 where x: "run_cmd env (DEL [nonce_key w]) R = (x, R1)" by (cases "run_cmd env (DEL [nonce_key w]) R")
  then have "I R1" using run_cmd_keeps [OF assms(1,2)] by (metis snd_conv)
  then have "I (case run_cmd env (DEL [nonce_key w]) R of (Inr _, R1) \<Rightarrow> R1 | (Inl e, R1) \<Rightarrow> redis_do env (EXPIRE (nonce_key w) second) R1)"
    unfolding x by (cases x) (auto intro: redis_do_keeps assms(3))
  then show ?thesis unfolding Nonce_Verify_def Let_def
    by (intro attempt_frame [where P = I] guard_frame [where P = I]) (simp_all add: assms(1))
qed

lemma BlocklistToken_keeps:
  assumes "I R" "x - now env > 0 \<Longrightarrow> allowed (now env) (SET (token_blocklist_key (sha256 env token)) ''revoked'' (x - now env))"
  shows "I (BlocklistToken env token x R)"
  using assms by (auto simp: BlocklistToken_def intro!: redis_do_keeps)

lemma Logout_keeps:
  assumes "I R" and "allowed (now env) (SET (refresh_blocklist_key user) ''revoked'' week)"
    and "\<And>x. expires = Some x \<Longrightarrow> x - now env > 0 \<Longrightarrow> allowed (now env) (SET (token_blocklist_key (sha256 env token)) ''revoked'' (x - now env))"
  shows "I (Logout env token expires user body R)"
proof -
  define R1 where "R1 = (case expires of None \<Rightarrow> R | Some x \<Rightarrow> BlocklistToken env token x R)"
  have 1: "I R1" using assms(1,3) by (auto simp: R1_def intro!: BlocklistToken_keeps split: option.split)
  have p: "I (snd (run_pipe env (map (\<lambda>h. DEL [session_key h]) hs @ [DEL [user_sessions_key user]]) R1))" for hs
    by (rule run_pipe_keeps [OF 1]) (auto intro!: routine_allowed)
  have 2: "I (if user = [] then R1 else BlocklistUserRefreshTokens env user
      (case redis_SMembers env (user_sessions_key user) R1 of Inl e \<Rightarrow> R1
       | Inr hs \<Rightarrow> snd (run_pipe env (map (\<lambda>h. DEL [session_key h]) hs @ [DEL [user_sessions_key user]]) R1)))"
    unfolding BlocklistUserRefreshTokens_def by (auto intro!: redis_do_keeps assms(2) simp: 1 p split: sum.split)
  show ?thesis unfolding Logout_def Let_def R1_def [symmetric]
    using 2 by (auto intro!: routine_do_keeps split: option.split)
qed

lemma RevokeSessionByID_keeps: "I R \<Longrightarrow> I (RevokeSessionByID env user i R)"
  by (auto simp: RevokeSessionByID_def Let_def intro!: routine_do_keeps)

lemma RevokeDeviceSession_keeps: "I R \<Longrightarrow> I (snd (RevokeDeviceSession env user i R))"
  by (auto simp: RevokeDeviceSession_def intro!: run_pipe_keeps routine_allowed)

lemma pruneSet_keeps:
  assumes "I R"
  shows "I (snd (pruneSet env (user_sessions_key u) R))"
proof -
  have sub: "I (snd (perform (wrap_call m (run_cmd env (SREM (user_sessions_key u) xs) R)) k))"
    if "\<And>y v. I v \<Longrightarrow> I (snd (k y v))" for m xs and k :: "reply \<Rightarrow> keyspace \<Rightarrow> (int \<times> bool) result \<times> keyspace"
    by (rule perform_frame [where P = I]) (auto intro: routine_cmd_keeps assms that)
  have del: "I (snd (perform (wrap_call m (run_cmd env (DEL [user_sessions_key u]) v)) (\<lambda>_ w. (r, w))))" if "I v" for m v and r :: "(int \<times> bool) result"
    by (rule perform_frame [where P = I]) (auto intro: routine_cmd_keeps that)
  show ?thesis unfolding pruneSet_def Let_def
    by (rule attempt_frame [where P = I], rule assms, split if_split, intro conjI impI)
       (auto intro!: attempt_frame [where P = I] sub del simp: assms)
qed

lemma prune_all_keeps: "I R \<Longrightarrow> \<forall>k \<in> set ks. \<exists>u. k = user_sessions_key u \<Longrightarrow> I (snd (prune_all env ks stats R))"
proof (induction ks arbitrary: stats R)
  case (Cons k ks)
  then have "I (snd (pruneSet env k R))" using pruneSet_keeps by auto
  then show ?case using Cons unfolding prune_all.simps by (intro perform_frame [where P = I]) (auto split: prod.split)
qed simp

lemma release_keeps: "I R \<Longrightarrow> I (release env token R)"
  by (auto simp: release_def intro!: routine_do_keeps)

lemma sweep_keeps:
  assumes "I R" "scan_matches scan" "sweep env scan rows R = Some (x, R')"
  shows "I R'"
proof -
  obtain r where r: "scan_loop scan 0 [] = Some r" using assms(3) by (auto simp: sweep_def split: option.splits)
  have ks: "\<forall>k \<in> set ks. \<exists>u. k = user_sessions_key u" if "r = Inr ks" for ks using scan_loop_matches [OF r assms(2)] that by simp
  have rows: "I (snd (case rows of None \<Rightarrow> (Inr st, R1) | Some y \<Rightarrow> attempt y R1 (\<lambda>n. (Inr (st\<lparr>CS_RowsDeleted := n\<rparr>), R1))))"
    if "I R1" for st :: CleanupStats and R1
    using that by (cases rows) (auto intro: attempt_frame [where P = I])
  have "I (snd (attempt r R (\<lambda>sets. perform (prune_all env sets stats R) (\<lambda>st R1. case rows of None \<Rightarrow> (Inr st, R1)
      | Some y \<Rightarrow> attempt y R1 (\<lambda>n. (Inr (st\<lparr>CS_RowsDeleted := n\<rparr>), R1))))))" for stats
  proof (rule attempt_frame [where P = I])
    fix sets assume "r = Inr sets"
    then have "I (snd (prune_all env sets stats R))" using prune_all_keeps [OF assms(1)] ks by blast
    then show "I (snd (perform (prune_all env sets stats R) (\<lambda>st R1. case rows of None \<Rightarrow> (Inr st, R1)
        | Some y \<Rightarrow> attempt y R1 (\<lambda>n. (Inr (st\<lparr>CS_RowsDeleted := n\<rparr>), R1)))))"
      by (rule perform_frame [where P = I]) (rule rows)
  qed (rule assms(1))
  from this [of "\<lparr>CS_SetsScanned = 0, CS_DanglingMembers = 0, CS_EmptySetsRemoved = 0, CS_RowsDeleted = 0\<rparr>"]
  show ?thesis using assms(3) [unfolded sweep_def r option.case option.inject] by (simp only: snd_conv)
qed

lemma RunOnce_keeps:
  assumes "I R" "scan_matches scan" "RunOnce env env' scan rows R = Some (x, R')"
  shows "I R'"
proof (cases "draw env 0 16")
  case (Inl e)
  then show ?thesis using assms by (simp add: RunOnce_def)
next
  case (Inr token)
  obtain a R1 where a: "acquire env token R = (a, R1)" by (cases "acquire env token R")
  have "I (snd (acquire env token R))"
    unfolding snd_acquire by (rule routine_cmd_keeps [OF assms(1)]) simp
  then have 1: "I R1" using a by simp
  show ?thesis
  proof (cases "a = Inr True")
    case True
    then obtain y R2 where "sweep env scan rows R1 = Some (y, R2)" "R' = release env' token R2"
      using assms(3) Inr a by (auto simp: RunOnce_def)
    then show ?thesis using sweep_keeps [OF 1 assms(2)] release_keeps by blast
  next
    case False
    then show ?thesis using assms(3) Inr a 1 by (cases a) (auto simp: RunOnce_def)
  qed
qed

text \<open>Every call keeps the invariant if the commands by which it stores something new are allowed.\<close>

lemma call_keeps:
  assumes "I R" "sane c"
    and login: "\<And>env gen rt u role ttl dev h. c = Login env gen rt u role ttl dev \<Longrightarrow>
          allowed (now env) (SET (session_key h) (session_data (uuid_String env u) dev (unix (now env)) (role_or_user role)) rt)"
    and refresh: "\<And>env gen rt token ttl data u h. c = Refresh env gen rt token ttl \<Longrightarrow> find_session env token R = Inr data \<Longrightarrow>
          uuid_Parse env (hd (strings_Split CHR ''|'' data)) = Some u \<Longrightarrow>
          allowed (now env) (SET (session_key h) (session_data (uuid_String env u) [] (unix (now env)) (SessionRole data)) rt)"
    and nonce: "\<And>env ttl w v d. c = NewNonce env ttl w \<Longrightarrow> draw env 0 32 = Inr v \<Longrightarrow>
          allowed (now env) (SET (nonce_key w) (stored_nonce v (unix (now env))) d)"
    and verify: "\<And>env ttl w sig. c = Verify env ttl w sig \<Longrightarrow> allowed (now env) (DEL [nonce_key w]) \<and> allowed (now env) (EXPIRE (nonce_key w) second)"
    and logout: "\<And>env token x user body. c = LogoutRequest env token x user body \<Longrightarrow>
          allowed (now env) (SET (refresh_blocklist_key user) ''revoked'' week)
          \<and> (\<forall>e. x = Some e \<longrightarrow> e - now env > 0 \<longrightarrow> allowed (now env) (SET (token_blocklist_key (sha256 env token)) ''revoked'' (e - now env)))"
  shows "I (auth_step c R)"
proof (cases c)
  case (Sweep env env' scan rows)
  then show ?thesis using assms(1,2) RunOnce_keeps by (auto split: option.split)
qed (use assms in \<open>auto intro: Create_keeps Refresh_keeps Validate_keeps Revoke_keeps RevokeAll_keeps Generate_keeps Verify_keeps
       Logout_keeps RevokeSessionByID_keeps RevokeDeviceSession_keeps\<close>)

end

section \<open>Keys of one kind\<close>

text \<open>
  The second interface: all values stored under the keys \<open>K\<close> are texts with the property \<open>Q\<close>. Only a
  command that stores a text under such a key has to be looked at.
\<close>

definition typed :: "(string \<Rightarrow> bool) \<Rightarrow> (string \<Rightarrow> bool) \<Rightarrow> keyspace \<Rightarrow> bool" where
  "typed K Q R = (\<forall>k v x. K k \<longrightarrow> R k = Some (v, x) \<longrightarrow> (\<exists>s. v = Str s \<and> Q s))"

fun stores :: "(string \<Rightarrow> bool) \<Rightarrow> (string \<Rightarrow> bool) \<Rightarrow> redis_cmd \<Rightarrow> bool" where
  "stores K Q (SET k v d) = (K k \<longrightarrow> Q v)"
| "stores K Q (SETNX k v d) = (K k \<longrightarrow> Q v)"
| "stores K Q (SADD k m) = (\<not> K k)"
| "stores K Q c = True"

lemma live_Some: "live t R k = Some v \<Longrightarrow> \<exists>x. R k = Some (v, x)"
  by (auto simp: live_def split: option.splits if_splits)

lemma typed_empty [simp]: "typed K Q (\<lambda>k. None)"
  by (simp add: typed_def)

lemma typed_upd: "typed K Q R \<Longrightarrow> (K k \<Longrightarrow> y \<noteq> None \<Longrightarrow> \<exists>s. fst (the y) = Str s \<and> Q s) \<Longrightarrow> typed K Q (R(k := y))"
  unfolding typed_def by (metis fst_conv fun_upd_apply option.distinct(1) option.sel)

lemma typed_live: "typed K Q R \<Longrightarrow> K k \<Longrightarrow> live t R k = Some v \<Longrightarrow> \<exists>s. v = Str s \<and> Q s"
  using live_Some by (metis typed_def)

lemma typed_SREM: "typed K Q R \<Longrightarrow> typed K Q (snd (apply_cmd t (SREM k xs) R))"
proof (cases "K k")
  case True
  assume "typed K Q R"
  then have "member_list t R k = Inr [] \<or> (\<exists>e. member_list t R k = Inl e)"
    using True typed_live [of K Q R k t] by (force simp: member_list_def split: option.split rval.split)
  then show ?thesis using \<open>typed K Q R\<close> by auto
next
  case False
  assume "typed K Q R"
  then show ?thesis using False by (auto simp: put_members_def intro!: typed_upd split: sum.split)
qed

lemma typed_cmd: "typed K Q R \<Longrightarrow> stores K Q c \<Longrightarrow> typed K Q (snd (apply_cmd t c R))"
proof (cases c)
  case (SREM k xs)
  assume "typed K Q R"
  then show ?thesis unfolding SREM by (rule typed_SREM)
next
  case (DEL ks)
  assume "typed K Q R"
  then show ?thesis using DEL by (auto simp: typed_def delete_keys_def)
next
  case (EXPIRE k d)
  assume "typed K Q R"
  then show ?thesis using EXPIRE typed_live [of K Q R k t] by (auto simp: touch_def intro!: typed_upd split: option.split)
qed (auto simp: put_def put_members_def intro!: typed_upd split: sum.split)

locale typed_keys =
  fixes K :: "string \<Rightarrow> bool" and Q :: "string \<Rightarrow> bool"
  assumes other_kinds: "\<not> K (csrf_key x)" "\<not> K (user_sessions_key x)" "\<not> K cleanupLockKey"

sublocale typed_keys \<subseteq> keyspace_invariant "typed K Q" "\<lambda>t. stores K Q"
proof
  show "typed K Q R \<Longrightarrow> stores K Q c \<Longrightarrow> typed K Q (snd (apply_cmd t c R))" for R t c by (rule typed_cmd)
  show "routine c \<Longrightarrow> stores K Q c" for c by (cases c) (auto simp: other_kinds)
qed

section \<open>Where sessions come from\<close>

text \<open>
  The logins of a sequence of calls: user and role. A stored session is \<open>good\<close> if it belongs to
  the user of a login and has the role of that login or the role \<^verbatim>\<open>user\<close>.
\<close>

fun login_of :: "auth_call \<Rightarrow> (uuid \<times> string) option" where
  "login_of (Login env gen rt u role ttl dev) = Some (u, role_or_user role)"
| "login_of c = None"

definition logins :: "auth_call list \<Rightarrow> (uuid \<times> string) set" where
  "logins cs = set (List.map_filter login_of cs)"

definition granted :: "(uuid \<times> string) set \<Rightarrow> uuid \<Rightarrow> string \<Rightarrow> bool" where
  "granted G u role = ((u, role) \<in> G \<or> role = ''user'' \<and> u \<in> fst ` G)"

definition good_session :: "(uuid \<Rightarrow> string) \<Rightarrow> (uuid \<times> string) set \<Rightarrow> string \<Rightarrow> bool" where
  "good_session str G s = (\<exists>u dev ts role. s = session_data (str u) dev ts role \<and> CHR ''|'' \<notin> set role \<and> granted G u role)"

text \<open>What the code relies on of \<^verbatim>\<open>uuid\<close>: the text of an identifier parses back and has no bar.\<close>

definition uuid_laws :: "(uuid \<Rightarrow> string) \<Rightarrow> (string \<Rightarrow> uuid option) \<Rightarrow> bool" where
  "uuid_laws str prs = (\<forall>u. prs (str u) = Some u \<and> CHR ''|'' \<notin> set (str u))"

fun plain_role :: "auth_call \<Rightarrow> bool" where
  "plain_role (Login env gen rt u role ttl dev) = (CHR ''|'' \<notin> set role)"
| "plain_role c = True"

definition uses :: "(uuid \<Rightarrow> string) \<Rightarrow> (string \<Rightarrow> uuid option) \<Rightarrow> auth_env \<Rightarrow> bool" where
  "uses str prs env = (uuid_String env = str \<and> uuid_Parse env = prs)"

abbreviation is_session_key :: "string \<Rightarrow> bool" where "is_session_key k \<equiv> \<exists>h. k = session_key h"

interpretation origin: typed_keys is_session_key "good_session str G" for str G
  by unfold_locales auto

lemma session_data_user: "CHR ''|'' \<notin> set u \<Longrightarrow> hd (strings_Split CHR ''|'' (session_data u dev ts role)) = u"
  by (simp add: session_data_def hd_strings_Split takeWhile_before)

lemma session_data_role:
  assumes "CHR ''|'' \<notin> set role"
  shows "SessionRole (session_data u dev ts role) = (if role = ''user'' \<or> role = ''admin'' then role else ''user'')"
  using last_strings_Split_append [OF assms, of "u @ ''|'' @ dev @ ''|'' @ show_int ts"] by (simp add: SessionRole_def session_data_def Let_def)

lemma good_session_fields:
  assumes "good_session str G s" "uuid_laws str prs"
  obtains u where "prs (hd (strings_Split CHR ''|'' s)) = Some u" "hd (strings_Split CHR ''|'' s) = str u"
    "granted G u (SessionRole s)" "SessionRole s = ''user'' \<or> SessionRole s = ''admin''"
proof -
  obtain u dev ts role where s: "s = session_data (str u) dev ts role" "CHR ''|'' \<notin> set role" "granted G u role"
    using assms(1) by (auto simp: good_session_def)
  have u: "hd (strings_Split CHR ''|'' s) = str u" using assms(2) s(1) by (simp add: session_data_user uuid_laws_def)
  have "granted G u (SessionRole s)" using s by (force simp: session_data_role granted_def)
  moreover have "prs (str u) = Some u" using assms(2) by (simp add: uuid_laws_def)
  moreover have "SessionRole s = ''user'' \<or> SessionRole s = ''admin''" by (simp add: SessionRole_def Let_def)
  ultimately show ?thesis using that u by simp
qed

lemma find_session_good:
  assumes "typed is_session_key (good_session str G) R" "find_session env token R = Inr data"
  shows "good_session str G data"
proof -
  have "live (now env) R (session_key (sha256 env token)) = Some (Str data)"
    using assms(2) by (auto simp: find_session_def redis_Get_Inr split: sum.splits option.splits rval.splits)
  then show ?thesis using typed_live [OF assms(1)] by blast
qed

lemma step_keeps_origin:
  assumes "typed is_session_key (good_session str G) R" "sane c" "plain_role c" "uses str prs (call_env c)" "uuid_laws str prs"
    and "\<forall>p. login_of c = Some p \<longrightarrow> p \<in> G"
  shows "typed is_session_key (good_session str G) (auth_step c R)"
proof (rule origin.call_keeps [OF assms(1,2)])
  fix env gen rt u role ttl dev h
  assume "c = Login env gen rt u role ttl dev"
  then show "stores is_session_key (good_session str G)
      (SET (session_key h) (session_data (uuid_String env u) dev (unix (now env)) (role_or_user role)) rt)"
    using assms(3,4,6) by (force simp: good_session_def granted_def uses_def role_or_user_def)
next
  fix env gen rt token ttl data u h
  assume c: "c = Refresh env gen rt token ttl" and f: "find_session env token R = Inr data"
    and u: "uuid_Parse env (hd (strings_Split CHR ''|'' data)) = Some u"
  obtain u' where "prs (hd (strings_Split CHR ''|'' data)) = Some u'" "granted G u' (SessionRole data)"
      "SessionRole data = ''user'' \<or> SessionRole data = ''admin''"
    using good_session_fields [OF find_session_good [OF assms(1) f] assms(5)] by metis
  then have "granted G u (SessionRole data)" "CHR ''|'' \<notin> set (SessionRole data)" using u c assms(4) by (auto simp: uses_def)
  then show "stores is_session_key (good_session str G)
      (SET (session_key h) (session_data (uuid_String env u) [] (unix (now env)) (SessionRole data)) rt)"
    using c assms(4) by (auto simp: good_session_def uses_def)
qed auto

lemma run_keeps_origin:
  assumes "typed is_session_key (good_session str G) R" "uuid_laws str prs" "logins cs \<subseteq> G"
    and "\<forall>c \<in> set cs. sane c \<and> plain_role c \<and> uses str prs (call_env c)"
  shows "typed is_session_key (good_session str G) (auth_run cs R)"
  using assms
proof (induction cs arbitrary: R)
  case (Cons c cs)
  have "logins cs \<subseteq> G" "\<forall>p. login_of c = Some p \<longrightarrow> p \<in> G" using Cons.prems(3) by (auto simp: logins_def map_filter_simps split: option.splits)
  then show ?case using Cons.IH [OF step_keeps_origin] Cons.prems by auto
qed simp

lemma Create_Inr:
  "Session_Create env gen rt u role ttl dev R = (Inr pair, R1) \<longleftrightarrow>
     (\<exists>access refresh csrf xs. gen u [] (role_or_user role) ttl = Inr access \<and> draw env 0 64 = Inr refresh \<and> draw env 1 32 = Inr csrf
        \<and> pair = \<lparr>TP_AccessToken = access, TP_RefreshToken = refresh, TP_CSRFToken = csrf\<rparr>
        \<and> run_pipe env [SET (session_key (sha256 env refresh)) (session_data (uuid_String env u) dev (unix (now env)) (role_or_user role)) rt,
             SET (csrf_key (sha256 env access)) csrf ttl, SADD (user_sessions_key (uuid_String env u)) (sha256 env refresh),
             EXPIRE (user_sessions_key (uuid_String env u)) ttl] R = (Inr xs, R1))"
  unfolding Session_Create_def Let_def attempt_Inr wrap_err_Inr
  by (rule iffI) (force split: prod.splits sum.splits)+

text \<open>
  C10: every session descends from a login: whatever calls were made, when \<^verbatim>\<open>Refresh\<close> accepts a refresh token, the new
  access token is made out for a user who has logged in before, with a role of such a
  login or the role \<^verbatim>\<open>user\<close>, whatever the clients send as device, token, wallet or session identifier.
\<close>

theorem sessions_descend_from_logins:
  assumes "uuid_laws str prs" "uses str prs env"
    and "\<forall>c \<in> set cs. sane c \<and> plain_role c \<and> uses str prs (call_env c)"
    and "Session_Refresh env gen rt token ttl (auth_run cs (\<lambda>k. None)) = (Inr pair, R')"
  shows "\<exists>u role. granted (logins cs) u role \<and> gen u [] role ttl = Inr (TP_AccessToken pair)"
proof -
  let ?R = "auth_run cs (\<lambda>k. None)"
  have ok: "typed is_session_key (good_session str (logins cs)) ?R" by (rule run_keeps_origin [OF typed_empty assms(1) order_refl assms(3)])
  from assms(4) obtain data where f: "find_session env token ?R = Inr data"
    by (auto simp: Session_Refresh_def attempt_Inr)
  obtain u where u: "prs (hd (strings_Split CHR ''|'' data)) = Some u" "granted (logins cs) u (SessionRole data)"
      "SessionRole data = ''user'' \<or> SessionRole data = ''admin''"
    using good_session_fields [OF find_session_good [OF ok f] assms(1)] by metis
  have p: "parse_session_user env (hd (strings_Split CHR ''|'' data)) = Inr u" using u(1) assms(2) by (simp add: parse_session_user_def uses_def)
  have r: "role_or_user (SessionRole data) = SessionRole data" using u(3) by (auto simp: role_or_user_def)
  from assms(4) f obtain R1 where "Session_Create env gen rt u (SessionRole data) ttl [] ?R = (Inr pair, R1)"
    by (auto simp: Session_Refresh_def unless_blocked_def p svc Let_def split: sum.splits bool.splits)
  then have "gen u [] (SessionRole data) ttl = Inr (TP_AccessToken pair)"
    unfolding Create_Inr by (auto simp: r)
  then show ?thesis using u(2) by blast
qed

text \<open>
  \<^verbatim>\<open>Validate\<close> accepts no session: it parses the whole stored text, with device, time and role, as the identifier of the
  user, so that it fails for every refresh token in every reachable state.
\<close>

theorem Validate_rejects_all:
  assumes "uuid_laws str prs" "\<forall>s. CHR ''|'' \<in> set s \<longrightarrow> prs s = None" "uses str prs env"
    and "\<forall>c \<in> set cs. sane c \<and> plain_role c \<and> uses str prs (call_env c)"
  shows "\<exists>e. fst (Session_Validate env token (auth_run cs (\<lambda>k. None))) = Inl e"
proof -
  let ?R = "auth_run cs (\<lambda>k. None)"
  have ok: "typed is_session_key (good_session str (logins cs)) ?R" by (rule run_keeps_origin [OF typed_empty assms(1) order_refl assms(4)])
  show ?thesis
  proof (cases "find_session env token ?R")
    case (Inl e)
    then show ?thesis by (simp add: Session_Validate_def)
  next
    case (Inr data)
    have "CHR ''|'' \<in> set data" using find_session_good [OF ok Inr] by (auto simp: good_session_def session_data_def)
    then have "prs data = None" using assms(2) by blast
    then show ?thesis using Inr assms(3)
      by (auto simp: Session_Validate_def unless_blocked_def parse_session_user_def uses_def split: sum.split bool.split)
  qed
qed

section \<open>Logout\<close>

text \<open>
  A revocation entry stands at least until \<open>T\<close>. It is a key of its own kind, which only \<^verbatim>\<open>SET\<close> writes; the third
  interface is such a key.
\<close>

definition stands_until :: "string \<Rightarrow> time \<Rightarrow> keyspace \<Rightarrow> bool" where
  "stands_until k T R = (\<exists>v x. R k = Some (v, x) \<and> (\<forall>e. x = Some e \<longrightarrow> T \<le> e))"

fun prolongs :: "string \<Rightarrow> time \<Rightarrow> time \<Rightarrow> redis_cmd \<Rightarrow> bool" where
  "prolongs k T t (SET k' v d) = (k' = k \<longrightarrow> d > 0 \<and> T \<le> t + lifetime d)"
| "prolongs k T t c = (k \<notin> written c)"

lemma stands_live: "stands_until k T R \<Longrightarrow> t < T \<Longrightarrow> live t R k \<noteq> None"
  by (auto simp: stands_until_def live_def split: option.split)

lemma SET_stands: "d > 0 \<Longrightarrow> stands_until k (t + lifetime d) (put t k v d R)"
  by (simp add: stands_until_def put_def set_deadline_def)

locale revocation =
  fixes k :: string
  assumes own_kind: "\<not> volatile k"

sublocale revocation \<subseteq> keyspace_invariant "stands_until k T" "prolongs k T" for T
proof
  fix R t c
  assume b: "stands_until k T R" and c: "prolongs k T t c"
  show "stands_until k T (snd (apply_cmd t c R))"
  proof (cases "k \<in> written c")
    case False
    then show ?thesis using b apply_cmd_other [OF False, of t R] by (simp add: stands_until_def)
  next
    case True
    then obtain v d where "c = SET k v d" "d > 0" "T \<le> t + lifetime d" using c by (cases c) auto
    then show ?thesis by (auto simp: stands_until_def put_def set_deadline_def)
  qed
next
  show "routine c \<Longrightarrow> prolongs k T t c" for c t T using own_kind by (cases c) auto
qed

interpretation user_block: revocation "refresh_blocklist_key u" for u
  by unfold_locales (auto simp: volatile_def)

interpretation token_block: revocation "token_blocklist_key h" for h
  by unfold_locales (auto simp: volatile_def)

lemma lifetime_week: "lifetime week = week" "0 < week"
  by (simp_all add: lifetime_def week_def)

lemma run_keeps_block:
  assumes "stands_until (refresh_blocklist_key u) T R" "\<forall>c \<in> set cs. sane c \<and> T \<le> now (call_env c) + week"
  shows "stands_until (refresh_blocklist_key u) T (auth_run cs R)"
  using assms
proof (induction cs arbitrary: R)
  case (Cons c cs)
  have "stands_until (refresh_blocklist_key u) T (auth_step c R)"
    by (rule user_block.call_keeps) (use Cons.prems in \<open>auto simp: lifetime_week\<close>)
  then show ?case using Cons by simp
qed simp

lemma Logout_blocks:
  assumes "user \<noteq> []" "fault env [SET (refresh_blocklist_key user) ''revoked'' week] = None"
  shows "stands_until (refresh_blocklist_key user) (now env + week) (Logout env token x user body R)"
proof -
  have b: "stands_until (refresh_blocklist_key user) (now env + week) (BlocklistUserRefreshTokens env user S)" for S
    using assms(2) SET_stands [of week "refresh_blocklist_key user" "now env" _ S]
    by (simp add: BlocklistUserRefreshTokens_def redis_do_ok lifetime_week)
  then show ?thesis using assms(1) by (auto simp: Logout_def Let_def intro!: user_block.routine_do_keeps split: option.split)
qed

lemma blocked_refresh:
  assumes "stands_until (refresh_blocklist_key user) T R" "now env < T" "find_session env token R = Inr data" "hd (strings_Split CHR ''|'' data) = user"
  shows "fst (Session_Refresh env gen rt token ttl R) \<in> {Inl (Errorf ''session revoked''), Inl (Errorf ''session validation error'')}"
proof -
  have "live (now env) R (refresh_blocklist_key user) \<noteq> None"
    using stands_live [OF assms(1,2)] .
  then have "redis_Exists env (refresh_blocklist_key user) R \<noteq> Inr False" by (simp add: redis_Exists_Inr)
  then show ?thesis using assms(3,4)
    by (cases "redis_Exists env (refresh_blocklist_key user) R") (auto simp: Session_Refresh_def unless_blocked_def)
qed

text \<open>
  C12: a logout ends all sessions of the user: for a week after a logout that could write the revocation entry, whatever calls are
  made, no refresh token of the user is accepted. This includes the
  sessions that the user starts by logging in again during that week.
\<close>

theorem logout_revokes_for_a_week:
  assumes "user \<noteq> []" "fault env [SET (refresh_blocklist_key user) ''revoked'' week] = None"
    and "\<forall>c \<in> set cs. sane c \<and> now env \<le> now (call_env c)"
    and "now env' < now env + week"
    and "find_session env' token (auth_run cs (Logout env access x user body R)) = Inr data"
    and "hd (strings_Split CHR ''|'' data) = user"
  shows "fst (Session_Refresh env' gen rt token ttl (auth_run cs (Logout env access x user body R)))
     \<in> {Inl (Errorf ''session revoked''), Inl (Errorf ''session validation error'')}"
proof -
  have "stands_until (refresh_blocklist_key user) (now env + week) (auth_run cs (Logout env access x user body R))"
    by (rule run_keeps_block [OF Logout_blocks]) (use assms in auto)
  then show ?thesis using assms(4-6) by (rule blocked_refresh)
qed

section \<open>Nonces\<close>

text \<open>The nonces that were issued to a wallet, with the time of issue in seconds.\<close>

fun nonce_of :: "string \<Rightarrow> auth_call \<Rightarrow> (string \<times> int) option" where
  "nonce_of w (NewNonce env ttl w') = (if w' = w then (case draw env 0 32 of Inl e \<Rightarrow> None | Inr n \<Rightarrow> Some (n, unix (now env))) else None)"
| "nonce_of w c = None"

lemma nonce_of_Some: "nonce_of w c = Some (n, ts) \<Longrightarrow> \<exists>env ttl. c = NewNonce env ttl w \<and> draw env 0 32 = Inr n"
  by (cases c) (auto split: if_splits sum.splits)

definition issued :: "string \<Rightarrow> auth_call list \<Rightarrow> (string \<times> int) set" where
  "issued w cs = set (List.map_filter (nonce_of w) cs)"

definition is_stored :: "(string \<times> int) set \<Rightarrow> string \<Rightarrow> bool" where
  "is_stored N s = (\<exists>n ts. (n, ts) \<in> N \<and> s = stored_nonce n ts)"

interpretation nonces: typed_keys "\<lambda>k. k = nonce_key w" "is_stored N" for w N
  by unfold_locales auto

lemma run_keeps_nonces:
  assumes "typed (\<lambda>k. k = nonce_key w) (is_stored N) R" "issued w cs \<subseteq> N" "\<forall>c \<in> set cs. sane c"
  shows "typed (\<lambda>k. k = nonce_key w) (is_stored N) (auth_run cs R)"
  using assms
proof (induction cs arbitrary: R)
  case (Cons c cs)
  have sub: "issued w cs \<subseteq> N" "\<forall>p. nonce_of w c = Some p \<longrightarrow> p \<in> N" using Cons.prems(2) by (auto simp: issued_def map_filter_simps split: option.splits)
  have "typed (\<lambda>k. k = nonce_key w) (is_stored N) (auth_step c R)"
  proof (rule nonces.call_keeps)
    fix env ttl w' v d
    assume "c = NewNonce env ttl w'" "draw env 0 32 = Inr v"
    then show "stores (\<lambda>k. k = nonce_key w) (is_stored N) (SET (nonce_key w') (stored_nonce v (unix (now env))) d)"
      using sub(2) unfolding is_stored_def by (fastforce simp del: split_paired_All)
  qed (use Cons.prems in auto)
  then show ?case using Cons sub by simp
qed simp

lemma ParseInt_show_int: "strconv_ParseInt (show_int i) = Some n \<Longrightarrow> n = i"
proof -
  have d: "hd (show_nat m) \<noteq> CHR ''-'' \<and> hd (show_nat m) \<noteq> CHR ''+''" for m
    using show_nat_digits [of m] show_nat_nonempty [of m] by (cases "show_nat m") (auto simp: is_digit_def)
  assume p: "strconv_ParseInt (show_int i) = Some n"
  show ?thesis
  proof (cases "i < 0")
    case True
    then have "show_int i = CHR ''-'' # show_nat (nat \<bar>i\<bar>)" by (simp add: show_int_def)
    then show ?thesis using p True unfolding strconv_ParseInt_def Let_def by (simp split: if_split_asm)
  next
    case False
    then have "show_int i = show_nat (nat \<bar>i\<bar>)" by (simp add: show_int_def)
    then show ?thesis using p False d [of "nat \<bar>i\<bar>"] unfolding strconv_ParseInt_def Let_def by (simp split: if_split_asm)
  qed
qed

lemma stored_nonce_split: "CHR '':'' \<notin> set n \<Longrightarrow> strings_SplitN 2 CHR '':'' (stored_nonce n ts) = [n, show_int ts]"
  by (simp add: stored_nonce_def numeral_2_eq_2 takeWhile_before dropWhile_before)

text \<open>The random bytes of a call are rendered in hexadecimal digits, among which there is no colon.\<close>

definition hex_draws :: "auth_env \<Rightarrow> bool" where
  "hex_draws env = (\<forall>i m n. draw env i m = Inr n \<longrightarrow> CHR '':'' \<notin> set n)"

text \<open>
  C11: a login needs a fresh signature: when \<^verbatim>\<open>Verify\<close> accepts, the signature is one of the wallet's key on a nonce
  that was issued to this wallet, at most the lifetime of a nonce plus 30 seconds ago (and not more than 30 seconds in the
  future); and if the nonce could be deleted, \<^verbatim>\<open>Verify\<close> accepts nothing more
  for this wallet until a new nonce is issued, whatever calls are made.
\<close>

theorem login_needs_fresh_signature:
  assumes "\<forall>c \<in> set cs. sane c \<and> hex_draws (call_env c)"
    and "Nonce_Verify env ttl w sig (auth_run cs (\<lambda>k. None)) = (Inr True, R')"
  shows "(\<exists>n ts sb pk. (n, ts) \<in> issued w cs \<and> decode_hex env sig = Inr sb \<and> decode_address env w = Inr pk \<and> ed25519 env pk n sb
        \<and> ts - 30 \<le> unix (now env) \<and> unix (now env) \<le> ts + quo ttl second + 30)
    \<and> (fault env [DEL [nonce_key w]] = None \<longrightarrow> (\<forall>ds env' ttl' sig'. (\<forall>c \<in> set ds. sane c) \<and> issued w ds = {} \<longrightarrow>
         fst (Nonce_Verify env' ttl' w sig' (auth_run ds R')) \<noteq> Inr True))"
proof (intro conjI impI allI)
  let ?R = "auth_run cs (\<lambda>k. None)"
  have ok: "typed (\<lambda>k. k = nonce_key w) (is_stored (issued w cs)) ?R"
    by (rule run_keeps_nonces [OF typed_empty order_refl]) (use assms(1) in blast)
  obtain s where s: "live (now env) ?R (nonce_key w) = Some (Str s)"
    using assms(2) by (auto simp: Nonce_Verify_def svc redis_Get_Inr split: sum.splits option.splits rval.splits)
  then obtain n ts where n: "(n, ts) \<in> issued w cs" "s = stored_nonce n ts" using typed_live [OF ok _ s] by (auto simp: is_stored_def)
  have "CHR '':'' \<notin> set n"
  proof -
    obtain c where "c \<in> set cs" "nonce_of w c = Some (n, ts)" using n(1) by (auto simp: issued_def List.map_filter_def)
    then obtain e l where "NewNonce e l w \<in> set cs" "draw e 0 32 = Inr n" using nonce_of_Some by blast
    then show ?thesis using assms(1) by (fastforce simp: hex_draws_def)
  qed
  then have split: "strings_SplitN 2 CHR '':'' s = [n, show_int ts]" using n(2) stored_nonce_split by simp
  have g: "redis_Get env (nonce_key w) ?R = Inr (Some s)"
    using assms(2) s by (auto simp: Nonce_Verify_def svc redis_Get_Inr split: sum.splits option.splits)
  have "\<exists>i sb pk. strconv_ParseInt (show_int ts) = Some i \<and> decode_hex env sig = Inr sb \<and> decode_address env w = Inr pk
      \<and> ed25519 env pk n sb \<and> i - 30 \<le> unix (now env) \<and> unix (now env) \<le> i + quo ttl second + 30"
    using assms(2) unfolding Nonce_Verify_def g by (auto simp: svc split Let_def split: option.splits if_splits)
  then show "\<exists>n ts sb pk. (n, ts) \<in> issued w cs \<and> decode_hex env sig = Inr sb \<and> decode_address env w = Inr pk \<and> ed25519 env pk n sb
        \<and> ts - 30 \<le> unix (now env) \<and> unix (now env) \<le> ts + quo ttl second + 30"
    using n(1) ParseInt_show_int by blast
  fix ds and env' :: auth_env and ttl' sig'
  assume del: "fault env [DEL [nonce_key w]] = None" and ds: "(\<forall>c \<in> set ds. sane c) \<and> issued w ds = {}"
  have "R' = delete_keys [nonce_key w] ?R"
    using assms(2) del unfolding Nonce_Verify_def g by (auto simp: svc split Let_def run_cmd_def split: option.splits if_splits)
  then have "typed (\<lambda>k. k = nonce_key w) (is_stored {}) R'" by (simp add: typed_def delete_keys_def)
  then have "typed (\<lambda>k. k = nonce_key w) (is_stored {}) (auth_run ds R')" by (rule run_keeps_nonces) (use ds in auto)
  then have "live (now env') (auth_run ds R') (nonce_key w) = None" using typed_live by (fastforce simp: is_stored_def)
  then show "fst (Nonce_Verify env' ttl' w sig' (auth_run ds R')) \<noteq> Inr True"
    using redis_Get_dead [of env' "auth_run ds R'" "nonce_key w"] by (auto simp: Nonce_Verify_def)
qed

section \<open>An example\<close>

text \<open>Identifiers written in decimal, a hash that is the text itself, and a signature that is the key followed by the nonce.\<close>

definition demo_uuid_text :: "uuid \<Rightarrow> string" where
  "demo_uuid_text u = show_nat (unat u)"

definition demo_uuid_parse :: "string \<Rightarrow> uuid option" where
  "demo_uuid_parse s = (if list_all is_digit s then Some (word_of_nat (parse_nat s)) else None)"

definition demo_auth :: "time \<Rightarrow> auth_env" where
  "demo_auth t = \<lparr>uuid_Parse = demo_uuid_parse, uuid_String = demo_uuid_text, uuid_New = (\<lambda>n. word_of_nat n), now = t, fault = (\<lambda>c. None),
     took_effect = (\<lambda>c. True), sha256 = (\<lambda>s. s), draw = (\<lambda>i n. Inr (show_int (t mod 100) @ ''x'' @ show_nat i)), decode_hex = Inr,
     decode_address = Inr, ed25519 = (\<lambda>pk msg sig. sig = pk @ msg), rfc3339 = show_int\<rparr>"

definition demo_gen :: generator where
  "demo_gen u w role ttl = Inr (role @ show_nat (unat u))"

lemma demo_uuid_laws: "uuid_laws demo_uuid_text demo_uuid_parse"
proof -
  have "demo_uuid_parse (demo_uuid_text u) = Some u" for u by (simp add: demo_uuid_parse_def demo_uuid_text_def show_nat_digits)
  moreover have "CHR ''|'' \<notin> set (demo_uuid_text u)" for u
    using show_nat_digits [of "unat u"] by (auto simp: demo_uuid_text_def list_all_iff is_digit_def)
  ultimately show ?thesis by (simp add: uuid_laws_def)
qed

lemma demo_uses: "uses demo_uuid_text demo_uuid_parse (demo_auth t)"
  by (simp add: uses_def demo_auth_def)

lemma demo_hex: "hex_draws (demo_auth t)"
proof -
  have d: "CHR '':'' \<notin> set (show_nat m)" for m using show_nat_digits [of m] by (auto simp: list_all_iff is_digit_def)
  then have "CHR '':'' \<notin> set (show_int (t mod 100))" by (simp add: show_int_def)
  then show ?thesis using d by (simp add: hex_draws_def demo_auth_def)
qed

text \<open>A login of user 7 as administrator from a device with a bar in its name, and the token it hands out.\<close>

definition demo_login :: auth_call where
  "demo_login = Login (demo_auth 5) demo_gen week 7 ''admin'' (3600 * second) ''agent|ip''"

theorem sessions_descend_from_logins_witness:
  "fst (Session_Refresh (demo_auth 9) demo_gen week ''5x0'' (3600 * second) (auth_run [demo_login] (\<lambda>k. None)))
     = Inr \<lparr>TP_AccessToken = ''admin7'', TP_RefreshToken = ''9x0'', TP_CSRFToken = ''9x1''\<rparr>
   \<and> (\<exists>u role. granted (logins [demo_login]) u role \<and> demo_gen u [] role (3600 * second) = Inr ''admin7'')"
proof -
  let ?S = "Session_Refresh (demo_auth 9) demo_gen week ''5x0'' (3600 * second) (auth_run [demo_login] (\<lambda>k. None))"
  have f: "fst ?S = Inr \<lparr>TP_AccessToken = ''admin7'', TP_RefreshToken = ''9x0'', TP_CSRFToken = ''9x1''\<rparr>" by code_simp
  then have "?S = (Inr \<lparr>TP_AccessToken = ''admin7'', TP_RefreshToken = ''9x0'', TP_CSRFToken = ''9x1''\<rparr>, snd ?S)" by (metis prod.collapse)
  from sessions_descend_from_logins [OF demo_uuid_laws demo_uses _ this] f show ?thesis by (simp add: demo_login_def demo_uses)
qed

theorem Validate_rejects_all_witness:
  "(\<exists>e. fst (Session_Validate (demo_auth 9) ''5x0'' (auth_run [demo_login] (\<lambda>k. None))) = Inl e)
   \<and> find_session (demo_auth 9) ''5x0'' (auth_run [demo_login] (\<lambda>k. None)) = Inr ''7|agent|ip|0|admin''"
proof
  have "\<forall>s. CHR ''|'' \<in> set s \<longrightarrow> demo_uuid_parse s = None" by (auto simp: demo_uuid_parse_def list_all_iff is_digit_def)
  from Validate_rejects_all [OF demo_uuid_laws this demo_uses, of "[demo_login]" 9 "''5x0''"]
  show "\<exists>e. fst (Session_Validate (demo_auth 9) ''5x0'' (auth_run [demo_login] (\<lambda>k. None))) = Inl e" by (simp add: demo_login_def demo_uses)
qed code_simp

theorem logout_revokes_for_a_week_witness:
  "fst (Session_Refresh (demo_auth 9) demo_gen week ''5x0'' (3600 * second)
       (auth_run [demo_login] (Logout (demo_auth 2) ''access'' None ''7'' None (\<lambda>k. None))))
     \<in> {Inl (Errorf ''session revoked''), Inl (Errorf ''session validation error'')}"
proof (rule logout_revokes_for_a_week)
  show "fault (demo_auth 2) [SET (refresh_blocklist_key ''7'') ''revoked'' week] = None" by (simp add: demo_auth_def)
  show "\<forall>c \<in> set [demo_login]. sane c \<and> now (demo_auth 2) \<le> now (call_env c)" by (simp add: demo_login_def demo_auth_def)
  show "now (demo_auth 9) < now (demo_auth 2) + week" by (simp add: demo_auth_def week_def)
  have "Logout (demo_auth 2) ''access'' None ''7'' None (\<lambda>k. None) = put 2 (refresh_blocklist_key ''7'') (Str ''revoked'') week (\<lambda>k. None)"
    by (rule ext) (simp add: Logout_def Let_def BlocklistUserRefreshTokens_def redis_SMembers_def redis_do_def run_cmd_def run_pipe_def
        demo_auth_def member_list_def live_def delete_keys_def put_def)
  moreover have "find_session (demo_auth 9) ''5x0'' (auth_run [demo_login] (put 2 (refresh_blocklist_key ''7'') (Str ''revoked'') week (\<lambda>k. None)))
      = Inr ''7|agent|ip|0|admin''" by code_simp
  ultimately show "find_session (demo_auth 9) ''5x0'' (auth_run [demo_login] (Logout (demo_auth 2) ''access'' None ''7'' None (\<lambda>k. None)))
      = Inr ''7|agent|ip|0|admin''" by (simp only:)
  show "hd (strings_Split CHR ''|'' ''7|agent|ip|0|admin'') = ''7''" by code_simp
qed simp

definition demo_nonce :: auth_call where
  "demo_nonce = NewNonce (demo_auth 5) (300 * second) ''wallet''"

theorem login_needs_fresh_signature_witness:
  "fst (Nonce_Verify (demo_auth 9) (300 * second) ''wallet'' ''wallet5x0'' (auth_run [demo_nonce] (\<lambda>k. None))) = Inr True
   \<and> fst (Nonce_Verify (demo_auth 10) (300 * second) ''wallet'' ''wallet5x0''
        (snd (Nonce_Verify (demo_auth 9) (300 * second) ''wallet'' ''wallet5x0'' (auth_run [demo_nonce] (\<lambda>k. None))))) \<noteq> Inr True"
proof -
  let ?V = "Nonce_Verify (demo_auth 9) (300 * second) ''wallet'' ''wallet5x0'' (auth_run [demo_nonce] (\<lambda>k. None))"
  have f: "fst ?V = Inr True" by code_simp
  then have v: "?V = (Inr True, snd ?V)" by (metis prod.collapse)
  have del: "fault (demo_auth 9) [DEL [nonce_key ''wallet'']] = None" by (simp add: demo_auth_def)
  have cs: "\<forall>c \<in> set [demo_nonce]. sane c \<and> hex_draws (call_env c)" by (simp add: demo_nonce_def demo_hex)
  have i: "(\<forall>c \<in> set []. sane c) \<and> issued ''wallet'' [] = {}" by (simp add: issued_def map_filter_simps)
  have "fst (Nonce_Verify (demo_auth 10) (300 * second) ''wallet'' ''wallet5x0'' (auth_run [] (snd ?V))) \<noteq> Inr True"
    by (rule login_needs_fresh_signature [OF cs v, THEN conjunct2, THEN mp, OF del, THEN spec, THEN spec, THEN spec, THEN spec, THEN mp, OF i])
  then show ?thesis using f unfolding fold_Nil id_apply by blast
qed

end
