(* ===== verification/SessionLife.thy ===== *)
theory SessionLife
  imports SessionSafety
begin

text \<open>
  The life of a single session: when a refresh token is accepted, what a refresh leaves of the old
  token, what revoking all sessions reaches, and what the scheduled clean-up removes.
\<close>

section \<open>The effect of storing a session\<close>

definition healthy :: "auth_env \<Rightarrow> bool" where
  "healthy env = (\<forall>cs. fault env cs = None)"

text \<open>The commands that store a session.\<close>

abbreviation session_cmds :: "auth_env \<Rightarrow> uuid \<Rightarrow> string \<Rightarrow> string \<Rightarrow> duration \<Rightarrow> duration \<Rightarrow> string \<Rightarrow> string \<Rightarrow> string \<Rightarrow> redis_cmd list" where
  "session_cmds env u role dev rt ttl access refresh csrf \<equiv>
     [SET (session_key (sha256 env refresh)) (session_data (uuid_String env u) dev (unix (now env)) (role_or_user role)) rt,
      SET (csrf_key (sha256 env access)) csrf ttl, SADD (user_sessions_key (uuid_String env u)) (sha256 env refresh),
      EXPIRE (user_sessions_key (uuid_String env u)) ttl]"

definition set_or_none :: "keyspace \<Rightarrow> string \<Rightarrow> bool" where
  "set_or_none R k = (\<forall>s x. R k \<noteq> Some (Str s, x))"

lemma set_or_none_members: "set_or_none R k \<Longrightarrow> \<exists>ms. member_list t R k = Inr ms"
  by (auto simp: set_or_none_def member_list_def dest!: live_Some split: option.split rval.split)

lemma member_list_set: "member_list t R k = Inr ms \<Longrightarrow> m \<in> set ms \<Longrightarrow> set_or_none R k"
  by (auto simp: member_list_def set_or_none_def dest: live_Some split: option.splits rval.splits)

lemma SADD_set: "apply_cmd t (SADD k m) R = (Inr x, R1) \<Longrightarrow> set_or_none R1 k"
  by (auto simp: put_members_def intro: member_list_set split: sum.splits if_splits) (simp_all add: set_or_none_def)

lemma touch_set: "set_or_none R k \<Longrightarrow> set_or_none (touch t k d R) k"
  by (auto simp: touch_def set_or_none_def dest!: live_Some split: option.split)

lemma touch_other: "k' \<noteq> k \<Longrightarrow> touch t k d R k' = R k'"
  by (simp add: touch_def split: option.split)

lemma session_cmds_Inr:
  assumes "run_pipe env (session_cmds env u role dev rt ttl access refresh csrf) R = (Inr xs, R1)"
  shows "R1 (session_key (sha256 env refresh)) = Some (Str (session_data (uuid_String env u) dev (unix (now env)) (role_or_user role)),
       set_deadline (now env) rt (if live (now env) R (session_key (sha256 env refresh)) = None then None else R (session_key (sha256 env refresh))))"
    and "set_or_none R1 (user_sessions_key (uuid_String env u))"
proof -
  let ?t = "now env" and ?k = "user_sessions_key (uuid_String env u)" and ?s = "session_key (sha256 env refresh)"
  let ?A = "put ?t ?s (Str (session_data (uuid_String env u) dev (unix ?t) (role_or_user role))) rt R"
  let ?B = "put ?t (csrf_key (sha256 env access)) (Str csrf) ttl ?A"
  obtain y C where C: "apply_cmd ?t (SADD ?k (sha256 env refresh)) ?B = (Inr y, C)" "R1 = touch ?t ?k ttl C"
    using assms by (cases "apply_cmd ?t (SADD ?k (sha256 env refresh)) ?B")
      (auto simp: run_pipe_def split: option.splits sum.splits simp del: apply_cmd.simps(7))
  show "set_or_none R1 ?k" using touch_set [OF SADD_set [OF C(1)]] C(2) by simp
  have "C ?s = ?B ?s" using apply_cmd_other [of ?s "SADD ?k (sha256 env refresh)" ?t ?B] C(1) by simp
  then show "R1 ?s = Some (Str (session_data (uuid_String env u) dev (unix ?t) (role_or_user role)),
       set_deadline ?t rt (if live ?t R ?s = None then None else R ?s))"
    unfolding C(2) by (simp add: touch_other put_def)
qed

lemma session_cmds_ok:
  assumes "set_or_none R (user_sessions_key (uuid_String env u))" "healthy env"
  shows "\<exists>xs R1. run_pipe env (session_cmds env u role dev rt ttl access refresh csrf) R = (Inr xs, R1)"
proof -
  let ?k = "user_sessions_key (uuid_String env u)"
  have "set_or_none (put t (session_key a) v d (put t' (csrf_key b) v' d' R)) ?k" for t a v d t' b v' d'
    using assms(1) by (simp add: set_or_none_def put_def)
  have "member_list (now env) (put (now env) (csrf_key a) v d (put (now env) (session_key b) v' d' R)) ?k = member_list (now env) R ?k" for a v d b v' d'
    by (simp add: member_list_def live_put)
  then show ?thesis using set_or_none_members [OF assms(1), of "now env"] assms(2) by (auto simp: run_pipe_def healthy_def)
qed

section \<open>Life of a refresh token\<close>

lemma find_session_dead: "healthy env \<Longrightarrow> live (now env) R (session_key (sha256 env token)) = None \<Longrightarrow> find_session env token R = Inl ErrTokenExpired"
  by (simp add: find_session_def redis_Get_def run_cmd_def healthy_def)

lemma find_session_live:
  "healthy env \<Longrightarrow> live (now env) R (session_key (sha256 env token)) = Some (Str s) \<Longrightarrow> find_session env token R = Inr s"
  by (simp add: find_session_def redis_Get_def run_cmd_def healthy_def)

lemma find_session_cong:
  assumes "R (session_key (sha256 env token)) = S (session_key (sha256 env token))"
  shows "find_session env token R = find_session env token S"
proof -
  have "redis_Get env (session_key (sha256 env token)) R = redis_Get env (session_key (sha256 env token)) S"
    using live_cong [of R "session_key (sha256 env token)" S, OF assms] by (simp add: redis_Get_def run_cmd_def split: option.split)
  then show ?thesis by (simp add: find_session_def)
qed

lemma Create_session:
  assumes "Session_Create env gen rt u role ttl dev R = (Inr pair, R1)" "0 < rt"
  shows "live t R1 (session_key (sha256 env (TP_RefreshToken pair))) =
      (if t < now env + lifetime rt then Some (Str (session_data (uuid_String env u) dev (unix (now env)) (role_or_user role))) else None)"
    and "set_or_none R1 (user_sessions_key (uuid_String env u))"
proof -
  obtain access refresh csrf xs where p: "pair = \<lparr>TP_AccessToken = access, TP_RefreshToken = refresh, TP_CSRFToken = csrf\<rparr>"
      "run_pipe env (session_cmds env u role dev rt ttl access refresh csrf) R = (Inr xs, R1)"
    using assms(1) unfolding Create_Inr by blast
  show "live t R1 (session_key (sha256 env (TP_RefreshToken pair))) =
      (if t < now env + lifetime rt then Some (Str (session_data (uuid_String env u) dev (unix (now env)) (role_or_user role))) else None)"
    using session_cmds_Inr(1) [OF p(2)] assms(2) by (simp add: p(1) live_def set_deadline_def)
  show "set_or_none R1 (user_sessions_key (uuid_String env u))" by (rule session_cmds_Inr(2) [OF p(2)])
qed

text \<open>
  C15: the life of a refresh token while Redis works: in the state that a login with the role user or admin leaves, and unless the user is revoked, the
  refresh token is accepted until its lifetime is over and gives an access token for the same user and role; after its
  lifetime it is refused as expired. The refresh leaves the entry of the old token for exactly 60 more seconds, during which it can be used
  again (and is then kept for another 60 seconds).
\<close>

theorem session_lifetime:
  assumes "uuid_laws str prs" "uses str prs env" "uses str prs env'" "sha256 env' = sha256 env" "healthy env'"
    and "Session_Create env gen rt u role ttl dev R = (Inr pair, R1)" "0 < rt" "role = ''user'' \<or> role = ''admin''"
    and "gen u [] role ttl' = Inr access'" "draw env' 0 64 = Inr refresh'" "draw env' 1 32 = Inr csrf'"
    and "sha256 env refresh' \<noteq> sha256 env (TP_RefreshToken pair)"
    and "live (now env') R1 (refresh_blocklist_key (str u)) = None"
  shows "if now env' < now env + lifetime rt
     then \<exists>R2. Session_Refresh env' gen rt (TP_RefreshToken pair) ttl' R1
              = (Inr \<lparr>TP_AccessToken = access', TP_RefreshToken = refresh', TP_CSRFToken = csrf'\<rparr>, R2)
          \<and> (\<forall>t. live t R2 (session_key (sha256 env (TP_RefreshToken pair)))
               = (if t < now env' + 60 * second then Some (Str (session_data (str u) dev (unix (now env)) role)) else None))
     else Session_Refresh env' gen rt (TP_RefreshToken pair) ttl' R1 = (Inl ErrTokenExpired, R1)"
proof (cases "now env' < now env + lifetime rt")
  case False
  then have "find_session env' (TP_RefreshToken pair) R1 = Inl ErrTokenExpired"
    using Create_session(1) [OF assms(6,7), of "now env'"] assms(4,5) by (simp add: find_session_dead)
  then show ?thesis using False by (simp add: Session_Refresh_def)
next
  case True
  let ?data = "session_data (str u) dev (unix (now env)) role" and ?k = "session_key (sha256 env (TP_RefreshToken pair))"
  have ro: "role_or_user role = role" using assms(8) by (auto simp: role_or_user_def)
  have l: "live (now env') R1 ?k = Some (Str ?data)"
    using Create_session(1) [OF assms(6,7), of "now env'"] True assms(2) by (simp add: ro uses_def)
  have f: "find_session env' (TP_RefreshToken pair) R1 = Inr ?data" by (rule find_session_live) (simp_all add: assms(4,5) l)
  have bar: "CHR ''|'' \<notin> set role" using assms(8) by auto
  have user: "hd (strings_Split CHR ''|'' ?data) = str u" using assms(1) by (simp add: session_data_user uuid_laws_def)
  have role: "SessionRole ?data = role" using assms(8) by (auto simp: session_data_role [OF bar])
  have p: "parse_session_user env' (str u) = Inr u" using assms(1,3) by (simp add: parse_session_user_def uuid_laws_def uses_def)
  have e: "redis_Exists env' (refresh_blocklist_key (str u)) R1 = Inr False" using assms(5,13) by (simp add: redis_Exists_Inr healthy_def)
  have "set_or_none R1 (user_sessions_key (uuid_String env' u))" using Create_session(2) [OF assms(6,7)] assms(2,3) by (simp add: uses_def)
  from session_cmds_ok [OF this assms(5)] obtain xs R2
    where R2: "run_pipe env' (session_cmds env' u role [] rt ttl' access' refresh' csrf') R1 = (Inr xs, R2)" by blast
  then have c: "Session_Create env' gen rt u role ttl' [] R1 = (Inr \<lparr>TP_AccessToken = access', TP_RefreshToken = refresh', TP_CSRFToken = csrf'\<rparr>, R2)"
    unfolding Create_Inr using assms(9-11) by (auto simp: ro)
  have "snd (run_pipe env' (session_cmds env' u role [] rt ttl' access' refresh' csrf') R1) ?k = R1 ?k"
    by (rule run_pipe_other) (use assms(4,12) in auto)
  then have "R2 ?k = R1 ?k" by (simp only: R2 snd_conv)
  then have "live (now env') R2 ?k = Some (Str ?data)" using l by (simp add: live_def)
  then have "live t (touch (now env') ?k (60 * second) R2) ?k = (if t < now env' + 60 * second then Some (Str ?data) else None)" for t
    by (simp add: touch_def live_def expire_after_def quo_def)
  moreover have "redis_do env' (EXPIRE ?k (60 * second)) R2 = touch (now env') ?k (60 * second) R2" using assms(5) by (simp add: redis_do_ok healthy_def)
  moreover have "Session_Refresh env' gen rt (TP_RefreshToken pair) ttl' R1
      = (Inr \<lparr>TP_AccessToken = access', TP_RefreshToken = refresh', TP_CSRFToken = csrf'\<rparr>, redis_do env' (EXPIRE ?k (60 * second)) R2)"
    unfolding Session_Refresh_def f Let_def by (simp add: user role unless_blocked_def e p c assms(4))
  ultimately show ?thesis using True by simp
qed

section \<open>Revoking all sessions\<close>

lemma fold_do_other: "\<forall>x \<in> set xs. k \<notin> written (f x) \<Longrightarrow> fold (\<lambda>x. redis_do env (f x)) xs R k = R k"
  by (induction xs arbitrary: R) simp_all

lemma fold_DEL_sessions:
  assumes "healthy env"
  shows "fold (\<lambda>h. redis_do env (DEL [session_key h])) hs R k = (if \<exists>h \<in> set hs. k = session_key h then None else R k)"
proof (induction hs arbitrary: R)
  case (Cons h hs)
  then show ?case using assms by (auto simp: redis_do_ok healthy_def delete_keys_def)
qed simp

text \<open>
  Revoking all sessions: when Redis answers, \<^verbatim>\<open>RevokeAll\<close> deletes exactly the sessions listed in the index of
  the user, except the current one, and leaves every other session of every user as it was. A
  session of the user that is not in the index any more survives: the index expires with the access
  token, long before the sessions.
\<close>

theorem RevokeAll_reaches_the_index:
  assumes "healthy env" "member_list (now env) R (user_sessions_key user) = Inr hs"
  shows "fst (Session_RevokeAll env rt user current R) = Inr ()
    \<and> snd (Session_RevokeAll env rt user current R) (session_key h) = (if h \<in> set hs \<and> h \<noteq> current then None else R (session_key h))"
proof -
  have m: "redis_SMembers env (user_sessions_key user) R = Inr hs" using assms by (simp add: redis_SMembers_Inr healthy_def)
  show ?thesis by (auto simp: Session_RevokeAll_def m Let_def fold_DEL_sessions [OF assms(1)])
qed

section \<open>The clean-up\<close>

lemma apply_EXISTS: "apply_cmds t (map (\<lambda>h. EXISTS (f h)) hs) R = (Inr (map (\<lambda>h. Num (if live t R (f h) = None then 0 else 1)) hs), R)"
  by (induction hs) simp_all

lemma dangling_zip: "dangling_members hs (map (\<lambda>h. Num (if p h then 0 else 1)) hs) = filter p hs"
  unfolding dangling_members_def by (induction hs) simp_all

lemma pruneSet_result:
  assumes "healthy env" "member_list (now env) R k = Inr hs" "k = user_sessions_key u"
  shows "\<exists>y R'. pruneSet env k R = (Inr y, R') \<and> (\<forall>k'. k' \<noteq> k \<longrightarrow> R' k' = R k')
     \<and> member_list (now env) R' k = Inr (filter (\<lambda>h. live (now env) R (session_key h) \<noteq> None) hs)"
proof -
  let ?t = "now env"
  let ?dead = "filter (\<lambda>h. live ?t R (session_key h) = None) hs" and ?alive = "filter (\<lambda>h. live ?t R (session_key h) \<noteq> None) hs"
  have m: "redis_SMembers env k R = Inr hs" using assms by (simp add: redis_SMembers_Inr healthy_def)
  have ex: "fst (run_pipe env (map (\<lambda>h. EXISTS (session_key h)) hs) R) = Inr (map (\<lambda>h. Num (if live ?t R (session_key h) = None then 0 else 1)) hs)"
    using assms(1) by (simp add: run_pipe_def healthy_def apply_EXISTS)
  show ?thesis
  proof (cases "?dead = []")
    case True
    then have "?alive = hs" by (simp add: filter_empty_conv filter_id_conv)
    then show ?thesis using m ex True assms(2) by (auto simp: pruneSet_def Let_def dangling_zip)
  next
    case False
    then have ne: "hs \<noteq> []" "\<exists>x \<in> set ?dead. x \<in> set hs" by (auto simp: filter_empty_conv)
    define R1 where "R1 = put_members k (filter (\<lambda>m. m \<notin> set ?dead) hs) (expiry R k) R"
    have alive: "filter (\<lambda>m. m \<notin> set ?dead) hs = ?alive" by (rule filter_cong) auto
    have srem: "run_cmd env (SREM k ?dead) R = (Inr (Num (int (length (filter (\<lambda>m. m \<in> set ?dead) hs)))), R1)"
      using assms(1,2) ne(2) by (simp add: run_cmd_def healthy_def R1_def)
    have "live ?t R k = Some (Members hs)" using assms(2) ne(1) by (auto simp: member_list_def split: option.splits rval.splits)
    then have mem: "member_list ?t R1 k = Inr ?alive"
      unfolding R1_def alive by (auto simp: put_members_def member_list_def live_def expiry_def split: option.splits if_splits)
    have oth: "R1 k' = R k'" if "k' \<noteq> k" for k' using that by (simp add: R1_def put_members_def)
    have card: "redis_SCard env k R1 = Inr (int (length ?alive))" using assms(1) mem by (simp add: redis_SCard_def run_cmd_def healthy_def)
    have del: "run_cmd env (DEL [k]) R1 = (Inr (Num (int (length (filter (\<lambda>k. live ?t R1 k \<noteq> None) (remdups [k]))))), delete_keys [k] R1)"
      using assms(1) by (simp add: run_cmd_def healthy_def)
    show ?thesis
    proof (cases "?alive = []")
      case True
      have "member_list ?t (delete_keys [k] R1) k = Inr []" by (simp add: member_list_def live_delete_keys)
      moreover have "pruneSet env k R = (Inr (int (length ?dead), True), delete_keys [k] R1)"
        using m ex False ne(1) card True by (simp add: pruneSet_def Let_def dangling_zip srem del)
      ultimately show ?thesis using True oth by (auto simp: delete_keys_def)
    next
      case False
      then have "pruneSet env k R = (Inr (int (length ?dead), False), R1)"
        using m ex \<open>?dead \<noteq> []\<close> ne(1) card by (simp add: pruneSet_def Let_def dangling_zip srem)
      then show ?thesis using mem oth by auto
    qed
  qed
qed

text \<open>
  \<open>swept t R S\<close>: \<open>S\<close> is \<open>R\<close> where at time \<open>t\<close> some indexes have lost their dead members; \<open>live_part\<close> is what
  remains of an index.
\<close>

abbreviation live_part :: "time \<Rightarrow> keyspace \<Rightarrow> string list \<Rightarrow> string list" where
  "live_part t R hs \<equiv> filter (\<lambda>h. live t R (session_key h) \<noteq> None) hs"

definition swept :: "time \<Rightarrow> keyspace \<Rightarrow> keyspace \<Rightarrow> bool" where
  "swept t R S = ((\<forall>k. (\<forall>u. k \<noteq> user_sessions_key u) \<longrightarrow> S k = R k)
     \<and> (\<forall>u. \<exists>hs. member_list t R (user_sessions_key u) = Inr hs
          \<and> (member_list t S (user_sessions_key u) = Inr hs \<or> member_list t S (user_sessions_key u) = Inr (live_part t R hs))))"

lemma swept_live: "swept t R S \<Longrightarrow> live t S (session_key h) = live t R (session_key h)"
  by (rule live_cong) (simp add: swept_def)

lemma swept_index:
  assumes "swept t R S" "member_list t R (user_sessions_key u) = Inr hs"
  shows "member_list t S (user_sessions_key u) = Inr hs \<or> member_list t S (user_sessions_key u) = Inr (live_part t R hs)"
proof -
  obtain xs where "member_list t R (user_sessions_key u) = Inr xs"
      "member_list t S (user_sessions_key u) = Inr xs \<or> member_list t S (user_sessions_key u) = Inr (live_part t R xs)"
    using assms(1) unfolding swept_def by blast
  then show ?thesis using assms(2) by simp
qed

lemma swept_refl: "\<forall>u. set_or_none R (user_sessions_key u) \<Longrightarrow> swept t R R"
  using set_or_none_members by (fastforce simp: swept_def)

lemma pruneSet_swept:
  assumes "healthy env" "swept (now env) R S" "member_list (now env) R (user_sessions_key u) = Inr hs"
  shows "\<exists>y S'. pruneSet env (user_sessions_key u) S = (Inr y, S') \<and> swept (now env) R S'
     \<and> member_list (now env) S' (user_sessions_key u) = Inr (live_part (now env) R hs)
     \<and> (\<forall>k'. k' \<noteq> user_sessions_key u \<longrightarrow> S' k' = S k')"
proof -
  let ?t = "now env" and ?k = "user_sessions_key u"
  have alive: "live_part ?t S xs = live_part ?t R xs" for xs by (simp add: swept_live [OF assms(2)])
  have "member_list ?t S ?k = Inr hs \<or> member_list ?t S ?k = Inr (live_part ?t R hs)" by (rule swept_index [OF assms(2,3)])
  then obtain xs where xs: "member_list ?t S ?k = Inr xs" "live_part ?t R xs = live_part ?t R hs" by auto
  obtain y S' where S': "pruneSet env ?k S = (Inr y, S')" "\<forall>k'. k' \<noteq> ?k \<longrightarrow> S' k' = S k'" "member_list ?t S' ?k = Inr (live_part ?t R hs)"
    using pruneSet_result [OF assms(1) xs(1) refl] alive xs(2) by auto
  have m: "member_list ?t S' k' = member_list ?t S k'" if "k' \<noteq> ?k" for k'
    using S'(2) that by (simp add: member_list_def live_def)
  have "swept ?t R S'" unfolding swept_def
  proof (intro conjI allI impI)
    show "S' k' = R k'" if "\<forall>v. k' \<noteq> user_sessions_key v" for k' using that S'(2) assms(2) by (simp add: swept_def)
    show "\<exists>ys. member_list ?t R (user_sessions_key v) = Inr ys \<and> (member_list ?t S' (user_sessions_key v) = Inr ys
        \<or> member_list ?t S' (user_sessions_key v) = Inr (live_part ?t R ys))" for v
    proof (cases "v = u")
      case True
      then show ?thesis using S'(3) assms(3) by auto
    next
      case False
      then show ?thesis using assms(2) m [of "user_sessions_key v"] unfolding swept_def by auto
    qed
  qed
  then show ?thesis using S' by blast
qed

lemma prune_all_swept:
  assumes "healthy env" "swept (now env) R S" "\<forall>k \<in> set ks. \<exists>u. k = user_sessions_key u"
  shows "\<exists>st S'. prune_all env ks stats S = (Inr st, S') \<and> swept (now env) R S'
     \<and> (\<forall>k \<in> set ks. \<forall>hs. member_list (now env) R k = Inr hs \<longrightarrow> member_list (now env) S' k = Inr (live_part (now env) R hs))
     \<and> (\<forall>k hs. member_list (now env) R k = Inr hs \<and> member_list (now env) S k = Inr (live_part (now env) R hs)
          \<longrightarrow> member_list (now env) S' k = Inr (live_part (now env) R hs))"
  using assms(2,3)
proof (induction ks arbitrary: S stats)
  case (Cons k ks)
  obtain u where u: "k = user_sessions_key u" using Cons.prems(2) by auto
  obtain hs where hs: "member_list (now env) R k = Inr hs" using Cons.prems(1) u by (auto simp: swept_def)
  from pruneSet_swept [OF assms(1) Cons.prems(1) hs [unfolded u]] obtain y S1 where y: "pruneSet env k S = (Inr y, S1)"
    and S1: "swept (now env) R S1" "member_list (now env) S1 k = Inr (live_part (now env) R hs)" "\<forall>k'. k' \<noteq> k \<longrightarrow> S1 k' = S k'"
    unfolding u by blast
  obtain removed emptied where p: "pruneSet env k S = (Inr (removed, emptied), S1)" using y by (cases y) simp
  have keep: "member_list (now env) S1 k' = Inr (live_part (now env) R xs)"
    if "member_list (now env) R k' = Inr xs" "member_list (now env) S k' = Inr (live_part (now env) R xs)" for k' xs
  proof (cases "k' = k")
    case True
    then show ?thesis using S1(2) hs that(1) by simp
  next
    case False
    then have "S1 k' = S k'" using S1(3) by blast
    then show ?thesis using that(2) by (simp add: member_list_def live_def)
  qed
  let ?stats = "stats\<lparr>CS_SetsScanned := CS_SetsScanned stats + 1, CS_DanglingMembers := CS_DanglingMembers stats + removed,
        CS_EmptySetsRemoved := CS_EmptySetsRemoved stats + (if emptied then 1 else 0)\<rparr>"
  have "\<forall>k \<in> set ks. \<exists>u. k = user_sessions_key u" using Cons.prems(2) by simp
  from Cons.IH [OF S1(1) this, of ?stats] obtain st S' where S': "prune_all env ks ?stats S1 = (Inr st, S')" "swept (now env) R S'"
      "\<forall>k \<in> set ks. \<forall>hs. member_list (now env) R k = Inr hs \<longrightarrow> member_list (now env) S' k = Inr (live_part (now env) R hs)"
      "\<forall>k hs. member_list (now env) R k = Inr hs \<and> member_list (now env) S1 k = Inr (live_part (now env) R hs)
          \<longrightarrow> member_list (now env) S' k = Inr (live_part (now env) R hs)" by blast
  have "prune_all env (k # ks) stats S = (Inr st, S')" using p S'(1) by simp
  moreover have "\<forall>k' \<in> set (k # ks). \<forall>xs. member_list (now env) R k' = Inr xs \<longrightarrow> member_list (now env) S' k' = Inr (live_part (now env) R xs)"
    using S'(3,4) S1(2) hs by simp
  ultimately show ?case using S'(2,4) keep by blast
qed simp

lemma map_filter_filter:
  "(\<And>x. x \<in> set xs \<Longrightarrow> \<not> p x \<Longrightarrow> f x = None) \<Longrightarrow> List.map_filter f (filter p xs) = List.map_filter f xs"
  by (induction xs) (auto simp: map_filter_simps split: option.splits)

lemma Session_List_cong:
  assumes "\<And>h. R (session_key h) = S (session_key h)" "R (user_sessions_key user) = S (user_sessions_key user)"
  shows "Session_List env user current R = Session_List env user current S"
proof -
  have l: "live t R k = live t S k" if "R k = S k" for t k using that by (rule live_cong)
  have g: "redis_Get env (session_key h) R = redis_Get env (session_key h) S" for h
    using l [OF assms(1)] by (simp add: redis_Get_def run_cmd_def split: option.split)
  have m: "redis_SMembers env (user_sessions_key user) R = redis_SMembers env (user_sessions_key user) S"
    using l [OF assms(2)] by (simp add: redis_SMembers_def run_cmd_def member_list_def split: option.split)
  show ?thesis unfolding Session_List_def g m by (rule refl)
qed

lemma swept_List:
  assumes "swept (now env) R S"
  shows "Session_List env user current S = Session_List env user current R"
proof -
  let ?k = "user_sessions_key user" and ?t = "now env"
  let ?f = "\<lambda>R h. case redis_Get env (session_key h) R of Inr (Some data) \<Rightarrow> Some (session_info env current h data) | _ \<Rightarrow> None"
  have get: "redis_Get env (session_key h) S = redis_Get env (session_key h) R" for h
    by (simp add: redis_Get_def run_cmd_def swept_live [OF assms] split: option.split)
  obtain hs where hs: "member_list ?t R ?k = Inr hs" "member_list ?t S ?k = Inr hs \<or> member_list ?t S ?k = Inr (live_part ?t R hs)"
    using assms unfolding swept_def by blast
  have "List.map_filter (?f R) (live_part ?t R hs) = List.map_filter (?f R) hs"
  proof (rule map_filter_filter)
    fix h assume "\<not> live ?t R (session_key h) \<noteq> None"
    then show "?f R h = None" using redis_Get_dead [of env R "session_key h"] by auto
  qed
  then show ?thesis using hs by (auto simp: Session_List_def redis_SMembers_def run_cmd_def get split: option.split)
qed

text \<open>The indexes are sets in every reachable state: no call stores a text under such a key.\<close>

fun no_text_index :: "redis_cmd \<Rightarrow> bool" where
  "no_text_index (SET k v d) = (\<forall>u. k \<noteq> user_sessions_key u)"
| "no_text_index (SETNX k v d) = (\<forall>u. k \<noteq> user_sessions_key u)"
| "no_text_index c = True"

lemma index_cmd: "set_or_none R k \<Longrightarrow> no_text_index c \<Longrightarrow> k = user_sessions_key u \<Longrightarrow> set_or_none (snd (apply_cmd t c R)) k"
proof (cases "k \<in> written c")
  case False
  assume "set_or_none R k"
  then show ?thesis using apply_cmd_other [OF False, of t R] by (simp add: set_or_none_def)
next
  case True
  assume a: "set_or_none R k" "no_text_index c" "k = user_sessions_key u"
  show ?thesis
  proof (cases c)
    case (EXPIRE k' d)
    then show ?thesis using True a(1) touch_set by simp
  qed (use True a in \<open>auto simp: put_members_def delete_keys_def set_or_none_def split: sum.split\<close>)
qed

definition index_sets :: "keyspace \<Rightarrow> bool" where
  "index_sets R = (\<forall>u. set_or_none R (user_sessions_key u))"

interpretation indexes: keyspace_invariant index_sets "\<lambda>t. no_text_index"
proof
  show "index_sets R \<Longrightarrow> no_text_index c \<Longrightarrow> index_sets (snd (apply_cmd t c R))" for R t c
    unfolding index_sets_def using index_cmd by blast
  show "routine c \<Longrightarrow> no_text_index c" for c by (cases c) auto
qed

lemma run_keeps_indexes: "index_sets R \<Longrightarrow> \<forall>c \<in> set cs. sane c \<Longrightarrow> index_sets (auth_run cs R)"
proof (induction cs arbitrary: R)
  case (Cons c cs)
  have "index_sets (auth_step c R)" by (rule indexes.call_keeps) (use Cons.prems in auto)
  then show ?case using Cons by simp
qed simp

text \<open>
  The clean-up is invisible: when Redis answers and no other replica holds the lock, a pass over the keys that \<^verbatim>\<open>SCAN\<close>
  found succeeds; it changes nothing but the lock and the
  indexes, of every index that it looked at exactly the live sessions remain, and every user's list of
  sessions is the same as before.
\<close>

theorem cleanup_invisible:
  assumes "\<forall>c \<in> set cs. sane c" "R = auth_run cs (\<lambda>k. None)" "healthy env" "healthy env'"
    and "scan_matches scan" "scan_loop scan 0 [] = Some (Inr ks)" "draw env 0 16 = Inr token"
    and "live (now env) R cleanupLockKey = None" "rows = None \<or> rows = Some (Inr n)"
  shows "\<exists>stats R'. RunOnce env env' scan rows R = Some (Inr (Some stats), R')
    \<and> (\<forall>k. k \<noteq> cleanupLockKey \<and> (\<forall>u. k \<noteq> user_sessions_key u) \<longrightarrow> R' k = R k)
    \<and> (\<forall>k \<in> set ks. \<forall>hs. member_list (now env) R k = Inr hs \<longrightarrow> member_list (now env) R' k = Inr (live_part (now env) R hs))
    \<and> (\<forall>user current. Session_List env user current R' = Session_List env user current R)"
proof -
  let ?t = "now env"
  let ?R1 = "put ?t cleanupLockKey (Str token) cleanupLockTTL R"
  let ?zero = "\<lparr>CS_SetsScanned = 0, CS_DanglingMembers = 0, CS_EmptySetsRemoved = 0, CS_RowsDeleted = 0\<rparr>"
  have acq: "acquire env token R = (Inr True, ?R1)" using assms(3,8) by (simp add: acquire_def run_cmd_def healthy_def)
  have "index_sets R" unfolding assms(2) by (rule run_keeps_indexes [OF _ assms(1)]) (simp add: index_sets_def set_or_none_def)
  then have "\<forall>u. set_or_none ?R1 (user_sessions_key u)" by (simp add: index_sets_def set_or_none_def put_def)
  then have sw: "swept ?t ?R1 ?R1" by (rule swept_refl)
  have ks: "\<forall>k \<in> set ks. \<exists>u. k = user_sessions_key u" using scan_loop_matches [OF assms(6,5)] by simp
  from prune_all_swept [OF assms(3) sw ks, of ?zero] obtain st S where S: "prune_all env ks ?zero ?R1 = (Inr st, S)" "swept ?t ?R1 S"
      "\<forall>k \<in> set ks. \<forall>hs. member_list ?t ?R1 k = Inr hs \<longrightarrow> member_list ?t S k = Inr (live_part ?t ?R1 hs)" by blast
  have lv: "live ?t ?R1 k = live ?t R k" if "k \<noteq> cleanupLockKey" for k using that by (simp add: live_put)
  have ml: "member_list ?t ?R1 k = member_list ?t R k" if "k \<noteq> cleanupLockKey" for k using lv [OF that] by (simp add: member_list_def)
  have rel: "release env' token T k = T k" if "k \<noteq> cleanupLockKey" for T k using that by (simp add: release_def)
  obtain stats where sweep: "sweep env scan rows ?R1 = Some (Inr stats, S)" using S(1) assms(6,9) by (auto simp: sweep_def)
  have run: "RunOnce env env' scan rows R = Some (Inr (Some stats), release env' token S)" using assms(7) acq sweep by (simp add: RunOnce_def)
  have list: "Session_List env user current (release env' token S) = Session_List env user current R" for user current
  proof -
    have "Session_List env user current (release env' token S) = Session_List env user current S"
      by (rule Session_List_cong) (simp_all add: rel)
    also have "\<dots> = Session_List env user current ?R1" by (rule swept_List [OF S(2)])
    also have "\<dots> = Session_List env user current R" by (rule Session_List_cong) (simp_all add: put_def)
    finally show ?thesis .
  qed
  have "release env' token S k = R k" if "k \<noteq> cleanupLockKey" "\<forall>u. k \<noteq> user_sessions_key u" for k
    using that S(2) rel [OF that(1)] by (simp add: swept_def put_def)
  moreover have "member_list ?t (release env' token S) k = Inr (live_part ?t R hs)" if "k \<in> set ks" "member_list ?t R k = Inr hs" for k hs
  proof -
    have "k \<noteq> cleanupLockKey" using ks that(1) by auto
    then show ?thesis using S(3) that ml [of k] lv rel [of k S] by (simp add: member_list_def live_def)
  qed
  ultimately show ?thesis using run list by blast
qed

section \<open>An example\<close>

text \<open>The keyspace after the login, and the answer of the login.\<close>

definition demo_state :: keyspace where
  "demo_state = auth_run [demo_login] (\<lambda>k. None)"

definition demo_created :: "TokenPair result \<times> keyspace" where
  "demo_created = Session_Create (demo_auth 5) demo_gen week 7 ''admin'' (3600 * second) ''agent|ip'' (\<lambda>k. None)"

lemma demo_healthy: "healthy (demo_auth t)"
  by (simp add: healthy_def demo_auth_def)

theorem session_lifetime_witness:
  "\<exists>pair R1. Session_Create (demo_auth 5) demo_gen week 7 ''admin'' (3600 * second) ''agent|ip'' (\<lambda>k. None) = (Inr pair, R1)
     \<and> (\<exists>R2. Session_Refresh (demo_auth 9) demo_gen week (TP_RefreshToken pair) (3600 * second) R1
              = (Inr \<lparr>TP_AccessToken = ''admin7'', TP_RefreshToken = ''9x0'', TP_CSRFToken = ''9x1''\<rparr>, R2)
         \<and> live (10 * second) R2 (session_key ''5x0'') = Some (Str ''7|agent|ip|0|admin'') \<and> live (70 * second) R2 (session_key ''5x0'') = None)
     \<and> Session_Refresh (demo_auth (9 + week)) demo_gen week (TP_RefreshToken pair) (3600 * second) R1 = (Inl ErrTokenExpired, R1)"
proof -
  let ?C = demo_created
  let ?pair = "\<lparr>TP_AccessToken = ''admin7'', TP_RefreshToken = ''5x0'', TP_CSRFToken = ''5x1''\<rparr>"
  have f: "fst ?C = Inr ?pair" by code_simp
  then have "?C = (Inr ?pair, snd ?C)" by (metis prod.collapse)
  then have c: "Session_Create (demo_auth 5) demo_gen week 7 ''admin'' (3600 * second) ''agent|ip'' (\<lambda>k. None) = (Inr ?pair, snd ?C)"
    by (simp only: demo_created_def)
  have gen: "demo_gen 7 [] ''admin'' (3600 * second) = Inr ''admin7''" by code_simp
  have d: "draw (demo_auth t) 0 64 = Inr (show_int (t mod 100) @ ''x0'')" "draw (demo_auth t) 1 32 = Inr (show_int (t mod 100) @ ''x1'')" for t
  proof -
    have "show_nat 0 = ''0''" "show_nat 1 = ''1''" by code_simp+
    then show "draw (demo_auth t) 0 64 = Inr (show_int (t mod 100) @ ''x0'')" "draw (demo_auth t) 1 32 = Inr (show_int (t mod 100) @ ''x1'')" by (simp_all add: demo_auth_def)
  qed
  have sha: "sha256 (demo_auth t) s = s" for t s by (simp add: demo_auth_def)
  have sh: "sha256 (demo_auth t) = sha256 (demo_auth 5)" for t by (simp add: demo_auth_def)
  have now: "now (demo_auth t) = t" for t by (simp add: demo_auth_def)
  have b: "live t (snd ?C) (refresh_blocklist_key (demo_uuid_text 7)) = None" for t
  proof -
    have "snd ?C (refresh_blocklist_key (demo_uuid_text 7)) = None" by code_simp
    then show ?thesis by (simp add: live_def)
  qed
  have n9: "show_int (9 mod 100) = ''9''" and nw: "show_int ((9 + week) mod 100) @ ''x0'' \<noteq> ''5x0''" and data: "session_data (demo_uuid_text 7) ''agent|ip'' (unix 5) ''admin'' = ''7|agent|ip|0|admin''"
    by code_simp+
  note life = session_lifetime [OF demo_uuid_laws demo_uses demo_uses sh demo_healthy c _ _ gen d _ b]
  have w: "0 < week" "lifetime week = week" "5 + week \<le> 9 + week" by (simp_all add: lifetime_week)
  have 1: "\<exists>R2. Session_Refresh (demo_auth 9) demo_gen week (TP_RefreshToken ?pair) (3600 * second) (snd ?C)
              = (Inr \<lparr>TP_AccessToken = ''admin7'', TP_RefreshToken = ''9x0'', TP_CSRFToken = ''9x1''\<rparr>, R2)
         \<and> live (10 * second) R2 (session_key ''5x0'') = Some (Str ''7|agent|ip|0|admin'') \<and> live (70 * second) R2 (session_key ''5x0'') = None"
    using life [of 9] w unfolding n9 by (auto simp: sha now data week_def)
  have 2: "Session_Refresh (demo_auth (9 + week)) demo_gen week (TP_RefreshToken ?pair) (3600 * second) (snd ?C) = (Inl ErrTokenExpired, snd ?C)"
    using life [of "9 + week"] w nw by (simp add: sha now)
  show ?thesis using c 1 2 by blast
qed

theorem RevokeAll_reaches_the_index_witness:
  "snd (Session_RevokeAll (demo_auth 9) week ''7'' ''current'' demo_state) (session_key ''5x0'') = None
   \<and> fst (Session_RevokeAll (demo_auth (9 + 3600 * second)) week ''7'' ''current'' demo_state) = Inr ()
   \<and> find_session (demo_auth (9 + 3600 * second)) ''5x0''
       (snd (Session_RevokeAll (demo_auth (9 + 3600 * second)) week ''7'' ''current'' demo_state)) = Inr ''7|agent|ip|0|admin''"
proof -
  let ?R = demo_state and ?e = "demo_auth (9 + 3600 * second)"
  have m: "member_list (now (demo_auth 9)) ?R (user_sessions_key ''7'') = Inr [''5x0'']" by code_simp
  have m': "member_list (now ?e) ?R (user_sessions_key ''7'') = Inr []" by code_simp
  note late = RevokeAll_reaches_the_index [OF demo_healthy m', of week "''current''" "''5x0''"]
  have "snd (Session_RevokeAll ?e week ''7'' ''current'' ?R) (session_key (sha256 ?e ''5x0'')) = ?R (session_key (sha256 ?e ''5x0''))"
    using late by (simp add: demo_auth_def)
  moreover have "find_session ?e ''5x0'' ?R = Inr ''7|agent|ip|0|admin''" by code_simp
  ultimately have "find_session ?e ''5x0'' (snd (Session_RevokeAll ?e week ''7'' ''current'' ?R)) = Inr ''7|agent|ip|0|admin''"
    using find_session_cong by metis
  then show ?thesis using late RevokeAll_reaches_the_index [OF demo_healthy m, of week "''current''" "''5x0''"] by simp
qed

theorem cleanup_invisible_witness:
  "\<exists>stats R'. RunOnce (demo_auth (9 + week)) (demo_auth (9 + week)) (\<lambda>c. Inr ([user_sessions_key ''7''], 0)) None demo_state
       = Some (Inr (Some stats), R')
     \<and> (\<forall>user current. Session_List (demo_auth (9 + week)) user current R' = Session_List (demo_auth (9 + week)) user current demo_state)"
proof -
  let ?scan = "\<lambda>c. Inr ([user_sessions_key ''7''], 0) :: (string list \<times> nat) result" and ?e = "demo_auth (9 + week)"
  have s: "scan_matches ?scan" by (auto simp: scan_matches_def)
  have l: "scan_loop ?scan 0 [] = Some (Inr [user_sessions_key ''7''])" by (simp add: scan_loop.simps)
  have t: "draw ?e 0 16 = Inr (show_int ((9 + week) mod 100) @ ''x'' @ show_nat 0)" by (simp add: demo_auth_def)
  have "demo_state cleanupLockKey = None" by code_simp
  then have k: "live (now ?e) demo_state cleanupLockKey = None" by (simp add: live_def)
  have c: "\<forall>c \<in> set [demo_login]. sane c" by (simp add: demo_login_def)
  from cleanup_invisible [OF c demo_state_def demo_healthy demo_healthy s l t k disjI1 [OF refl]] show ?thesis by blast
qed

end
