(* ===== verification/AuthHttp.thy ===== *)
theory AuthHttp
  imports SessionLife
begin

text \<open>
  Access tokens (\<^verbatim>\<open>internal/domain/auth/jwt\<close>), the facade \<^verbatim>\<open>internal/domain/auth/service.go\<close>, and what stands between a
  request and its handler: the authentication, revocation and CSRF checks of
  \<^verbatim>\<open>internal/api/middleware\<close> in the order in which \<^verbatim>\<open>internal/api/router.go\<close> mounts them, and the refresh route.
  The JWT library is a parameter.
\<close>

section \<open>Access tokens\<close>

datatype claim = CText string | CNumber rat | COther

type_synonym claims = "(string \<times> claim) list"

text \<open>
  The JWT library: \<open>jwt_sign method kid claims key\<close> is \<^verbatim>\<open>SignedString\<close> with the header \<^verbatim>\<open>kid\<close> (none if empty);
  \<open>jwt_kid\<close> and \<open>jwt_unverified\<close> are what \<^verbatim>\<open>ParseUnverified\<close> reads; \<open>jwt_parse alg key t\<close> is \<^verbatim>\<open>Parse\<close> at time \<open>t\<close> with the only
  valid method \<open>alg\<close> and the given verification key.
\<close>

record jwt_lib =
  jwt_sign :: "string \<Rightarrow> string \<Rightarrow> claims \<Rightarrow> string \<Rightarrow> string result"
  jwt_kid :: "string \<Rightarrow> string"
  jwt_unverified :: "string \<Rightarrow> claims option"
  jwt_parse :: "string \<Rightarrow> string \<Rightarrow> time \<Rightarrow> string \<Rightarrow> claims option"

record jwt_key =
  K_ID :: string
  K_SigningKey :: "string option"
  K_SigningMethod :: string
  K_VerifyingKey :: "string option"
  K_VerifyingAlg :: string

record jwt_service =
  J_currentKey :: "jwt_key option"
  J_previousKey :: "jwt_key option"

record jwt_Claims =
  JC_UserID :: string
  JC_Wallet :: string
  JC_Role :: string
  JC_IssuedAt :: int
  JC_ExpiresAt :: int

definition RotateKey :: "jwt_key \<Rightarrow> jwt_service \<Rightarrow> jwt_service" where
  "RotateKey k J = J\<lparr>J_previousKey := J_currentKey J, J_currentKey := Some k\<rparr>"

definition SetPreviousKey :: "jwt_key option \<Rightarrow> jwt_service \<Rightarrow> jwt_service" where
  "SetPreviousKey k J = J\<lparr>J_previousKey := k\<rparr>"

definition token_claims :: "auth_env \<Rightarrow> uuid \<Rightarrow> string \<Rightarrow> string \<Rightarrow> duration \<Rightarrow> claims" where
  "token_claims env user wallet role ttl =
     [(''sub'', CText (uuid_String env user)), (''wallet'', CText wallet), (''role'', CText role),
      (''iat'', CNumber (of_int (unix (now env)))), (''exp'', CNumber (of_int (unix (now env + ttl))))]"

definition GenerateToken :: "auth_env \<Rightarrow> jwt_lib \<Rightarrow> jwt_service \<Rightarrow> uuid \<Rightarrow> string \<Rightarrow> string \<Rightarrow> duration \<Rightarrow> string result" where
  "GenerateToken env lib J user wallet role ttl =
     (case J_currentKey J of
        None \<Rightarrow> Inl (Errorf ''no private signing key configured'')
      | Some k \<Rightarrow>
     (case K_SigningKey k of
        None \<Rightarrow> Inl (Errorf ''no private signing key configured'')
      | Some sk \<Rightarrow> jwt_sign lib (K_SigningMethod k) (K_ID k) (token_claims env user wallet role ttl) sk))"

definition ErrInvalidToken :: error where
  "ErrInvalidToken = Errorf ''invalid token''"

text \<open>\<^verbatim>\<open>claims["sub"].(string)\<close> and \<^verbatim>\<open>int64(claims["iat"].(float64))\<close>, with the zero value if the claim is missing or of another type.\<close>

definition claim_text :: "claims \<Rightarrow> string \<Rightarrow> string" where
  "claim_text cl k = (case map_of cl k of Some (CText s) \<Rightarrow> s | _ \<Rightarrow> [])"

definition claim_int :: "claims \<Rightarrow> string \<Rightarrow> int" where
  "claim_int cl k = (case map_of cl k of Some (CNumber x) \<Rightarrow> (if x < 0 then \<lceil>x\<rceil> else \<lfloor>x\<rfloor>) | _ \<Rightarrow> 0)"

definition parseAndValidateWithKey :: "auth_env \<Rightarrow> jwt_lib \<Rightarrow> string \<Rightarrow> jwt_key \<Rightarrow> jwt_Claims result" where
  "parseAndValidateWithKey env lib token k =
     (case K_VerifyingKey k of
        None \<Rightarrow> Inl ErrInvalidToken
      | Some vk \<Rightarrow>
     (case jwt_parse lib (K_VerifyingAlg k) vk (now env) token of
        None \<Rightarrow> Inl ErrInvalidToken
      | Some cl \<Rightarrow> Inr \<lparr>JC_UserID = claim_text cl ''sub'', JC_Wallet = claim_text cl ''wallet'', JC_Role = claim_text cl ''role'',
                        JC_IssuedAt = claim_int cl ''iat'', JC_ExpiresAt = claim_int cl ''exp''\<rparr>))"

definition keysToTry :: "string \<Rightarrow> jwt_key \<Rightarrow> jwt_key option \<Rightarrow> jwt_key list" where
  "keysToTry kid cur prev =
     (case prev of
        None \<Rightarrow> [cur]
      | Some p \<Rightarrow> if kid \<noteq> [] \<and> kid = K_ID p then [p, cur] else [cur, p])"

fun first_valid :: "('k \<Rightarrow> 'a result) \<Rightarrow> 'k list \<Rightarrow> 'a result" where
  "first_valid f [] = Inl ErrInvalidToken"
| "first_valid f (k # ks) = (case f k of Inr x \<Rightarrow> Inr x | Inl e \<Rightarrow> first_valid f ks)"

definition ValidateToken :: "auth_env \<Rightarrow> jwt_lib \<Rightarrow> jwt_service \<Rightarrow> string \<Rightarrow> jwt_Claims result" where
  "ValidateToken env lib J token =
     (case J_currentKey J of
        None \<Rightarrow> Inl ErrInvalidToken
      | Some cur \<Rightarrow> first_valid (parseAndValidateWithKey env lib token) (keysToTry (jwt_kid lib token) cur (J_previousKey J)))"

definition ExtractTokenExpiry :: "jwt_lib \<Rightarrow> string \<Rightarrow> time option" where
  "ExtractTokenExpiry lib token =
     (case jwt_unverified lib token of
        None \<Rightarrow> None
      | Some cl \<Rightarrow> (case map_of cl ''exp'' of Some (CNumber x) \<Rightarrow> Some (claim_int cl ''exp'' * second) | _ \<Rightarrow> None))"

section \<open>The facade\<close>

record auth_service =
  AS_nonceTTL :: duration
  AS_accessTTL :: duration
  AS_refreshTTL :: duration
  AS_jwt :: jwt_service

definition CreateSession :: "auth_env \<Rightarrow> jwt_lib \<Rightarrow> auth_service \<Rightarrow> uuid \<Rightarrow> string \<Rightarrow> duration \<Rightarrow> string \<Rightarrow> keyspace \<Rightarrow> TokenPair result \<times> keyspace" where
  "CreateSession env lib s user role ttl device R =
     Session_Create env (GenerateToken env lib (AS_jwt s)) (AS_refreshTTL s) user role ttl device R"

definition RefreshToken :: "auth_env \<Rightarrow> jwt_lib \<Rightarrow> auth_service \<Rightarrow> string \<Rightarrow> keyspace \<Rightarrow> TokenPair result \<times> keyspace" where
  "RefreshToken env lib s token R =
     Session_Refresh env (GenerateToken env lib (AS_jwt s)) (AS_refreshTTL s) token (AS_accessTTL s) R"

definition GenerateJWT :: "auth_env \<Rightarrow> jwt_lib \<Rightarrow> auth_service \<Rightarrow> uuid \<Rightarrow> string \<Rightarrow> string \<Rightarrow> string result" where
  "GenerateJWT env lib s user wallet role = GenerateToken env lib (AS_jwt s) user wallet role (AS_accessTTL s)"

definition RotateSigningKey :: "jwt_key result \<Rightarrow> auth_service \<Rightarrow> unit result \<times> auth_service" where
  "RotateSigningKey parsed s =
     (case parsed of
        Inl e \<Rightarrow> (Inl (Wrap ''parsing new JWT key pair for rotation'' e), s)
      | Inr k \<Rightarrow> (Inr (), s\<lparr>AS_jwt := RotateKey k (AS_jwt s)\<rparr>))"

section \<open>Middleware\<close>

record http_request =
  RQ_Method :: string
  RQ_Authorization :: string
  RQ_CSRFToken :: string
  RQ_Upgrade :: string
  RQ_Body :: string

text \<open>A middleware lets a request pass with a value or aborts it with a status and a message.\<close>

type_synonym 'a checked = "(nat \<times> string) + 'a"

definition bearer :: "http_request \<Rightarrow> string option" where
  "bearer rq = (case strings_SplitN 2 CHR '' '' (RQ_Authorization rq) of
     [scheme, token] \<Rightarrow> if scheme = ''Bearer'' then Some token else None | _ \<Rightarrow> None)"

record verifying_key =
  VK_key :: string
  VK_alg :: string
  VK_kid :: string

text \<open>The keys in the order in which they are tried: those with the identifier of the token first.\<close>

definition preferred :: "string \<Rightarrow> verifying_key list \<Rightarrow> verifying_key list" where
  "preferred kid keys = (if kid = [] then [] else filter (\<lambda>k. VK_kid k \<noteq> [] \<and> VK_kid k = kid) keys)"

fun append_new :: "verifying_key list \<Rightarrow> verifying_key list \<Rightarrow> verifying_key list" where
  "append_new ordered [] = ordered"
| "append_new ordered (k # ks) = append_new (if \<exists>x \<in> set ordered. VK_key x = VK_key k then ordered else ordered @ [k]) ks"

text \<open>The struct of the middleware accepts a token only if its named claims are texts, where present.\<close>

definition text_or_absent :: "claims \<Rightarrow> string \<Rightarrow> bool" where
  "text_or_absent cl k = (case map_of cl k of None \<Rightarrow> True | Some (CText s) \<Rightarrow> True | Some _ \<Rightarrow> False)"

definition try_key :: "jwt_lib \<Rightarrow> time \<Rightarrow> string \<Rightarrow> verifying_key \<Rightarrow> (string \<times> string \<times> string) result" where
  "try_key lib t token k =
     (case jwt_parse lib (if VK_alg k = [] then ''RS256'' else VK_alg k) (VK_key k) t token of
        None \<Rightarrow> Inl ErrInvalidToken
      | Some cl \<Rightarrow> if text_or_absent cl ''sub'' \<and> text_or_absent cl ''wallet'' \<and> text_or_absent cl ''role''
                   then Inr (claim_text cl ''sub'', claim_text cl ''wallet'', claim_text cl ''role'') else Inl ErrInvalidToken)"

definition validateTokenWithKeys :: "jwt_lib \<Rightarrow> time \<Rightarrow> string \<Rightarrow> verifying_key list \<Rightarrow> (string \<times> string \<times> string) option" where
  "validateTokenWithKeys lib t token keys =
     (case first_valid (try_key lib t token) (append_new (preferred (jwt_kid lib token) keys) keys) of
        Inl e \<Rightarrow> None | Inr c \<Rightarrow> Some c)"

definition AuthMiddleware :: "jwt_lib \<Rightarrow> time \<Rightarrow> verifying_key list \<Rightarrow> http_request \<Rightarrow> (string \<times> string \<times> string) checked" where
  "AuthMiddleware lib t keys rq =
     (if RQ_Authorization rq = [] then Inl (401, ''missing authorization header'')
      else (case bearer rq of
              None \<Rightarrow> Inl (401, ''invalid authorization format'')
            | Some token \<Rightarrow> (case validateTokenWithKeys lib t token keys of
                               None \<Rightarrow> Inl (401, ''invalid or expired token'') | Some c \<Rightarrow> Inr c)))"

text \<open>\<^verbatim>\<open>OptionalAuthMiddleware\<close> never aborts; without a valid token the request has no user.\<close>

definition OptionalAuthMiddleware :: "jwt_lib \<Rightarrow> time \<Rightarrow> verifying_key list \<Rightarrow> http_request \<Rightarrow> (string \<times> string \<times> string) option" where
  "OptionalAuthMiddleware lib t keys rq =
     (if RQ_Authorization rq = [] then None
      else (case bearer rq of None \<Rightarrow> None | Some token \<Rightarrow> validateTokenWithKeys lib t token keys))"

definition AdminMiddleware :: "string \<Rightarrow> unit checked" where
  "AdminMiddleware role = (if role \<noteq> ''admin'' then Inl (403, ''admin access required'') else Inr ())"

definition AdminAPIKeyMiddleware :: "string list \<Rightarrow> string \<Rightarrow> string checked" where
  "AdminAPIKeyMiddleware keys header =
     (let primary = (case keys of [] \<Rightarrow> [] | k # _ \<Rightarrow> k); secondary = (case keys of _ # k # _ \<Rightarrow> k | _ \<Rightarrow> []) in
      if primary = [] \<and> secondary = [] then Inl (403, ''admin API key not configured'')
      else if header = [] then Inl (401, ''invalid admin API key'')
      else if primary \<noteq> [] \<and> header = primary then Inr ''primary''
      else if secondary \<noteq> [] \<and> header = secondary then Inr ''secondary''
      else Inl (401, ''invalid admin API key''))"

definition TokenBlocklistMiddleware :: "auth_env \<Rightarrow> http_request \<Rightarrow> keyspace \<Rightarrow> unit checked" where
  "TokenBlocklistMiddleware env rq R =
     (case bearer rq of
        None \<Rightarrow> Inr ()
      | Some token \<Rightarrow>
          if token = [] then Inr ()
          else (case redis_Exists env (token_blocklist_key (sha256 env token)) R of
                  Inl e \<Rightarrow> Inl (503, ''Authentication service unavailable'')
                | Inr True \<Rightarrow> Inl (401, ''Token has been revoked'')
                | Inr False \<Rightarrow> Inr ()))"

text \<open>
  \<^verbatim>\<open>strings.EqualFold\<close> with a lower-case ASCII text: besides the ASCII capitals, the Kelvin sign folds to \<^verbatim>\<open>k\<close> and the
  long s to \<^verbatim>\<open>s\<close> (three and two bytes of UTF-8).
\<close>

definition to_lower :: "char \<Rightarrow> char" where
  "to_lower c = (let n = (of_char c :: nat) in if 65 \<le> n \<and> n \<le> 90 then char_of (n + 32) else c)"

function fold_case :: "string \<Rightarrow> string" where
  "fold_case s =
     (if s = [] then []
      else if take 3 s = map char_of [226, 132, 170 :: nat] then CHR ''k'' # fold_case (drop 3 s)
      else if take 2 s = map char_of [197, 191 :: nat] then CHR ''s'' # fold_case (drop 2 s)
      else to_lower (hd s) # fold_case (tl s))"
  by pat_completeness auto
termination by (relation "measure length") auto

declare fold_case.simps [simp del]

definition CSRFTokenValidator :: "auth_env \<Rightarrow> http_request \<Rightarrow> keyspace \<Rightarrow> unit checked" where
  "CSRFTokenValidator env rq R =
     (if RQ_Method rq \<in> {''GET'', ''HEAD'', ''OPTIONS''} \<and> fold_case (RQ_Upgrade rq) \<noteq> ''websocket'' then Inr ()
      else if RQ_CSRFToken rq = [] then Inl (403, ''missing CSRF token'')
      else if RQ_Authorization rq = [] then Inl (401, ''missing authorization'')
      else (case bearer rq of
              None \<Rightarrow> Inl (401, ''invalid authorization format'')
            | Some token \<Rightarrow>
                if length token < 32 then Inl (401, ''invalid authorization format'')
                else (case redis_Get env (csrf_key (sha256 env token)) R of
                        Inr None \<Rightarrow> Inl (403, ''invalid CSRF token'')
                      | Inl e \<Rightarrow> Inl (503, ''authentication service unavailable'')
                      | Inr (Some expected) \<Rightarrow> if RQ_CSRFToken rq = expected then Inr () else Inl (403, ''invalid CSRF token''))))"

definition CSRFTokenValidatorIfAuthenticated :: "auth_env \<Rightarrow> http_request \<Rightarrow> keyspace \<Rightarrow> unit checked" where
  "CSRFTokenValidatorIfAuthenticated env rq R = (if RQ_Authorization rq = [] then Inr () else CSRFTokenValidator env rq R)"

text \<open>The checks of the group \<^verbatim>\<open>authenticated\<close> in the order of the router, up to the idempotency check.\<close>

definition authenticated :: "auth_env \<Rightarrow> jwt_lib \<Rightarrow> verifying_key list \<Rightarrow> http_request \<Rightarrow> keyspace \<Rightarrow> (string \<times> string \<times> string) checked" where
  "authenticated env lib keys rq R =
     (case AuthMiddleware lib (now env) keys rq of
        Inl a \<Rightarrow> Inl a
      | Inr c \<Rightarrow> (case TokenBlocklistMiddleware env rq R of
                    Inl a \<Rightarrow> Inl a
                  | Inr _ \<Rightarrow> (case CSRFTokenValidator env rq R of Inl a \<Rightarrow> Inl a | Inr _ \<Rightarrow> Inr c)))"

section \<open>The refresh route\<close>

text \<open>
  \<^verbatim>\<open>ShouldBindJSON\<close> reads the body of the request to its end; \<open>json\<close> decodes the bytes that are left into the field
  \<^verbatim>\<open>refreshToken\<close> (empty if absent).
\<close>

definition ShouldBindJSON :: "(string \<Rightarrow> string result) \<Rightarrow> http_request \<Rightarrow> string result \<times> http_request" where
  "ShouldBindJSON json rq = (json (RQ_Body rq), rq\<lparr>RQ_Body := []\<rparr>)"

definition RefreshTokenBlocklistMiddleware :: "auth_env \<Rightarrow> (string \<Rightarrow> string result) \<Rightarrow> http_request \<Rightarrow> keyspace \<Rightarrow> http_request checked" where
  "RefreshTokenBlocklistMiddleware env json rq R =
     (case ShouldBindJSON json rq of
        (Inl e, rq') \<Rightarrow> Inl (400, ''refresh token is required'')
      | (Inr token, rq') \<Rightarrow>
          if token = [] then Inl (400, ''refresh token is required'')
          else (case redis_Exists env (token_blocklist_key (sha256 env token)) R of
                  Inl e \<Rightarrow> Inl (503, ''Authentication service unavailable'')
                | Inr True \<Rightarrow> Inl (401, ''Refresh token has been revoked'')
                | Inr False \<Rightarrow> Inr rq'))"

definition Handler_Refresh :: "auth_env \<Rightarrow> jwt_lib \<Rightarrow> auth_service \<Rightarrow> (string \<Rightarrow> string result) \<Rightarrow> http_request \<Rightarrow> keyspace
    \<Rightarrow> TokenPair checked \<times> keyspace" where
  "Handler_Refresh env lib s json rq R =
     (case ShouldBindJSON json rq of
        (Inl e, rq') \<Rightarrow> (Inl (400, error_text e), R)
      | (Inr token, rq') \<Rightarrow>
          if token = [] then (Inl (400, ''required''), R)
          else (case RefreshToken env lib s token R of
                  (Inl e, R') \<Rightarrow> (Inl (401, ''invalid refresh token''), R')
                | (Inr pair, R') \<Rightarrow> (Inr pair, R')))"

text \<open>\<^verbatim>\<open>auth.POST("/refresh", RefreshTokenBlocklistMiddleware, Refresh)\<close>.\<close>

definition refresh_route :: "auth_env \<Rightarrow> jwt_lib \<Rightarrow> auth_service \<Rightarrow> (string \<Rightarrow> string result) \<Rightarrow> http_request \<Rightarrow> keyspace
    \<Rightarrow> TokenPair checked \<times> keyspace" where
  "refresh_route env lib s json rq R =
     (case RefreshTokenBlocklistMiddleware env json rq R of
        Inl a \<Rightarrow> (Inl a, R)
      | Inr rq' \<Rightarrow> Handler_Refresh env lib s json rq' R)"

section \<open>Facts\<close>

text \<open>
  What the code relies on of the JWT library: a signed token carries its key identifier and claims, it verifies under the
  method it was signed with and the key that belongs to the signing key (\<open>mate\<close>), and under no other,
  until the time of its claim \<^verbatim>\<open>exp\<close>.
\<close>

definition unexpired :: "time \<Rightarrow> claims \<Rightarrow> bool" where
  "unexpired t cl = (case map_of cl ''exp'' of Some (CNumber x) \<Rightarrow> of_int t < x * of_int second | _ \<Rightarrow> True)"

definition jwt_laws :: "jwt_lib \<Rightarrow> (string \<Rightarrow> string) \<Rightarrow> bool" where
  "jwt_laws lib mate = (\<forall>m kid cl sk token. jwt_sign lib m kid cl sk = Inr token \<longrightarrow>
     jwt_kid lib token = kid \<and> jwt_unverified lib token = Some cl
     \<and> (\<forall>alg vk t. jwt_parse lib alg vk t token = (if alg = m \<and> vk = mate sk \<and> unexpired t cl then Some cl else None)))"

definition well_keyed :: "(string \<Rightarrow> string) \<Rightarrow> jwt_key \<Rightarrow> string \<Rightarrow> bool" where
  "well_keyed mate k sk = (K_SigningKey k = Some sk \<and> K_VerifyingKey k = Some (mate sk) \<and> K_VerifyingAlg k = K_SigningMethod k)"

lemma first_valid_Inr: "first_valid f ks = Inr x \<Longrightarrow> \<exists>k \<in> set ks. f k = Inr x"
  by (induction ks) (auto split: sum.splits)

lemma first_valid_none: "\<forall>k \<in> set ks. \<exists>e. f k = Inl e \<Longrightarrow> first_valid f ks = Inl ErrInvalidToken"
  by (induction ks) auto

lemma first_valid_some: "k \<in> set ks \<Longrightarrow> f k = Inr x \<Longrightarrow> \<forall>k \<in> set ks. \<forall>y. f k = Inr y \<longrightarrow> y = x \<Longrightarrow> first_valid f ks = Inr x"
proof (induction ks)
  case (Cons a ks)
  show ?case
  proof (cases "f a")
    case (Inl e)
    then have "k \<in> set ks" using Cons.prems(1,2) by auto
    then have "first_valid f ks = Inr x" by (rule Cons.IH) (use Cons.prems in simp_all)
    then show ?thesis using Inl by simp
  next
    case (Inr y)
    then show ?thesis using Cons.prems(3) by simp
  qed
qed simp

lemma set_keysToTry: "set (keysToTry kid cur prev) = insert cur (set_option prev)"
  by (auto simp: keysToTry_def split: option.split)

definition claims_of :: "claims \<Rightarrow> jwt_Claims" where
  "claims_of cl = \<lparr>JC_UserID = claim_text cl ''sub'', JC_Wallet = claim_text cl ''wallet'', JC_Role = claim_text cl ''role'',
     JC_IssuedAt = claim_int cl ''iat'', JC_ExpiresAt = claim_int cl ''exp''\<rparr>"

lemma parse_signed:
  assumes "jwt_laws lib mate" "jwt_sign lib m kid cl sk = Inr token"
  shows "parseAndValidateWithKey env lib token k =
    (if K_VerifyingAlg k = m \<and> K_VerifyingKey k = Some (mate sk) \<and> unexpired (now env) cl then Inr (claims_of cl) else Inl ErrInvalidToken)"
proof -
  have "jwt_parse lib alg vk t token = (if alg = m \<and> vk = mate sk \<and> unexpired t cl then Some cl else None)" for alg vk t
    using assms(1) [unfolded jwt_laws_def, rule_format, OF assms(2)] by simp
  then show ?thesis by (simp add: parseAndValidateWithKey_def claims_of_def split: option.split)
qed

lemma ValidateToken_signed:
  assumes "jwt_laws lib mate" "jwt_sign lib m kid cl sk = Inr token" "J_currentKey J = Some cur"
  shows "ValidateToken env lib J token =
    (if unexpired (now env) cl \<and> (\<exists>k \<in> insert cur (set_option (J_previousKey J)). K_VerifyingAlg k = m \<and> K_VerifyingKey k = Some (mate sk))
     then Inr (claims_of cl) else Inl ErrInvalidToken)"
proof (cases "unexpired (now env) cl \<and> (\<exists>k \<in> insert cur (set_option (J_previousKey J)). K_VerifyingAlg k = m \<and> K_VerifyingKey k = Some (mate sk))")
  case True
  then obtain k where k: "k \<in> set (keysToTry (jwt_kid lib token) cur (J_previousKey J))" "K_VerifyingAlg k = m" "K_VerifyingKey k = Some (mate sk)"
    by (auto simp: set_keysToTry)
  have "first_valid (parseAndValidateWithKey env lib token) (keysToTry (jwt_kid lib token) cur (J_previousKey J)) = Inr (claims_of cl)"
    by (rule first_valid_some [OF k(1)]) (simp_all add: parse_signed [OF assms(1,2)] True k)
  then show ?thesis using True assms(3) by (simp add: ValidateToken_def)
next
  case False
  then have "first_valid (parseAndValidateWithKey env lib token) (keysToTry (jwt_kid lib token) cur (J_previousKey J)) = Inl ErrInvalidToken"
  proof (intro first_valid_none ballI)
    fix k assume "k \<in> set (keysToTry (jwt_kid lib token) cur (J_previousKey J))"
    then have "\<not> (K_VerifyingAlg k = m \<and> K_VerifyingKey k = Some (mate sk) \<and> unexpired (now env) cl)"
      using False unfolding set_keysToTry by blast
    then show "\<exists>e. parseAndValidateWithKey env lib token k = Inl e" by (simp add: parse_signed [OF assms(1,2)])
  qed
  then show ?thesis unfolding if_not_P [OF False] using assms(3) by (simp add: ValidateToken_def)
qed

lemma token_claims_read:
  "claims_of (token_claims env u w r ttl) = \<lparr>JC_UserID = uuid_String env u, JC_Wallet = w, JC_Role = r,
     JC_IssuedAt = unix (now env), JC_ExpiresAt = unix (now env + ttl)\<rparr>"
  "unexpired t (token_claims env u w r ttl) \<longleftrightarrow> t < unix (now env + ttl) * second"
proof -
  have "(of_int t :: rat) < of_int (unix (now env + ttl)) * of_int second \<longleftrightarrow> t < unix (now env + ttl) * second"
    by (simp only: of_int_mult [symmetric] of_int_less_iff)
  then show "unexpired t (token_claims env u w r ttl) \<longleftrightarrow> t < unix (now env + ttl) * second"
    by (simp add: unexpired_def token_claims_def)
qed (simp add: claims_of_def claim_text_def claim_int_def token_claims_def)

text \<open>
  C14: access tokens: a token made by \<^verbatim>\<open>GenerateToken\<close> is read back by \<^verbatim>\<open>ValidateToken\<close> with the user, wallet, role and times it was
  made for, until it expires; this stays so after one rotation of the signing key, and
  after two rotations, or once it has expired, the token is refused.
\<close>

theorem token_round_trip:
  assumes "jwt_laws lib mate" "J_currentKey J = Some k" "well_keyed mate k sk"
    and "GenerateToken env lib J u w r ttl = Inr token"
    and "K_VerifyingKey k2 \<noteq> Some (mate sk)" "K_VerifyingKey k3 \<noteq> Some (mate sk)"
  shows "let read = (if now env' < unix (now env + ttl) * second
        then Inr \<lparr>JC_UserID = uuid_String env u, JC_Wallet = w, JC_Role = r, JC_IssuedAt = unix (now env), JC_ExpiresAt = unix (now env + ttl)\<rparr>
        else Inl ErrInvalidToken) in
     ValidateToken env' lib J token = read \<and> ValidateToken env' lib (RotateKey k2 J) token = read
     \<and> ValidateToken env' lib (RotateKey k3 (RotateKey k2 J)) token = Inl ErrInvalidToken"
proof -
  have s: "jwt_sign lib (K_SigningMethod k) (K_ID k) (token_claims env u w r ttl) sk = Inr token"
    using assms(2-4) by (simp add: GenerateToken_def well_keyed_def)
  have k: "K_VerifyingAlg k = K_SigningMethod k" "K_VerifyingKey k = Some (mate sk)" using assms(3) by (auto simp: well_keyed_def)
  note v = ValidateToken_signed [OF assms(1) s]
  have "ValidateToken env' lib J token = (if unexpired (now env') (token_claims env u w r ttl) then Inr (claims_of (token_claims env u w r ttl)) else Inl ErrInvalidToken)"
    unfolding v [OF assms(2)] using k by auto
  moreover have "ValidateToken env' lib (RotateKey k2 J) token
      = (if unexpired (now env') (token_claims env u w r ttl) then Inr (claims_of (token_claims env u w r ttl)) else Inl ErrInvalidToken)"
    using v [of "RotateKey k2 J" k2] k assms(2) by (auto simp: RotateKey_def)
  moreover have "ValidateToken env' lib (RotateKey k3 (RotateKey k2 J)) token = Inl ErrInvalidToken"
    using v [of "RotateKey k3 (RotateKey k2 J)" k3] assms(5,6) by (auto simp: RotateKey_def)
  ultimately show ?thesis unfolding token_claims_read Let_def by blast
qed

text \<open>
  The refresh route never succeeds: the middleware in front of the handler reads the body of the request, so that the
  handler finds it empty and answers 400, for every request, every refresh token and every state.
\<close>

theorem refresh_route_never_succeeds:
  assumes "\<exists>e. json [] = Inl e"
  shows "\<exists>status msg. refresh_route env lib s json rq R = (Inl (status, msg), R) \<and> status \<in> {400, 401, 503}"
proof (cases "RefreshTokenBlocklistMiddleware env json rq R")
  case (Inl a)
  then have "fst a \<in> {400, 401, 503}"
    by (auto simp: RefreshTokenBlocklistMiddleware_def ShouldBindJSON_def split: sum.splits if_splits bool.splits)
  then show ?thesis using Inl by (cases a) (simp add: refresh_route_def)
next
  case (Inr rq')
  then have "RQ_Body rq' = []"
    by (auto simp: RefreshTokenBlocklistMiddleware_def ShouldBindJSON_def split: sum.splits if_splits bool.splits)
  then show ?thesis using Inr assms by (auto simp: refresh_route_def Handler_Refresh_def ShouldBindJSON_def)
qed

section \<open>Logging out\<close>

text \<open>The \<^verbatim>\<open>Logout\<close> handler for a request with its user.\<close>

definition Handler_Logout :: "auth_env \<Rightarrow> jwt_lib \<Rightarrow> http_request \<Rightarrow> string \<Rightarrow> string option \<Rightarrow> keyspace \<Rightarrow> nat \<times> keyspace" where
  "Handler_Logout env lib rq user body R =
     (if take 7 (RQ_Authorization rq) \<noteq> ''Bearer '' then (401, R)
      else let token = drop 7 (RQ_Authorization rq) in
        (200, Logout env token (ExtractTokenExpiry lib token) user body R))"

lemma bearer_prefix: "bearer rq = Some token \<Longrightarrow> RQ_Authorization rq = ''Bearer '' @ token"
proof -
  let ?h = "RQ_Authorization rq"
  assume "bearer rq = Some token"
  then have c: "CHR '' '' \<in> set ?h" and s: "takeWhile (\<lambda>x. x \<noteq> CHR '' '') ?h = ''Bearer''" and t: "tl (dropWhile (\<lambda>x. x \<noteq> CHR '' '') ?h) = token"
    by (auto simp: bearer_def numeral_2_eq_2 split: if_splits)
  show ?thesis using split_at [OF c] s t by simp
qed

lemma lifetime_close: "0 < d \<Longrightarrow> d < lifetime d + millisecond"
  unfolding lifetime_def by (simp add: minus_mod_eq_div_mult [symmetric])

text \<open>The expiry that a logout request reads from a token is a function of the token, and the hash identifies the token.\<close>

fun same_expiry :: "string \<Rightarrow> time \<Rightarrow> auth_call \<Rightarrow> bool" where
  "same_expiry h E (LogoutRequest env token x user body) = (sha256 env token = h \<and> x \<noteq> None \<longrightarrow> x = Some E)"
| "same_expiry h E c = True"

lemma block_length: "E - t > 0 \<Longrightarrow> E - millisecond + 1 \<le> t + lifetime (E - t)"
  using lifetime_close [of "E - t"] by linarith

lemma run_keeps_token_block:
  assumes "stands_until (token_blocklist_key h) (E - millisecond + 1) R" "\<forall>c \<in> set cs. sane c \<and> same_expiry h E c"
  shows "stands_until (token_blocklist_key h) (E - millisecond + 1) (auth_run cs R)"
  using assms
proof (induction cs arbitrary: R)
  case (Cons c cs)
  have "stands_until (token_blocklist_key h) (E - millisecond + 1) (auth_step c R)"
  proof (rule token_block.call_keeps)
    fix env token x user body
    assume c: "c = LogoutRequest env token x user body"
    show "prolongs (token_blocklist_key h) (E - millisecond + 1) (now env) (SET (refresh_blocklist_key user) ''revoked'' week)
      \<and> (\<forall>e. x = Some e \<longrightarrow> e - now env > 0 \<longrightarrow>
          prolongs (token_blocklist_key h) (E - millisecond + 1) (now env) (SET (token_blocklist_key (sha256 env token)) ''revoked'' (e - now env)))"
    proof (intro conjI allI impI)
      fix e assume e: "x = Some e" "e - now env > 0"
      show "prolongs (token_blocklist_key h) (E - millisecond + 1) (now env) (SET (token_blocklist_key (sha256 env token)) ''revoked'' (e - now env))"
        using Cons.prems(2) c e block_length [of E "now env"] by auto
    qed simp
  qed (use Cons.prems in auto)
  then show ?case using Cons by simp
qed simp

lemma expired_refused:
  assumes "jwt_laws lib mate" "jwt_sign lib m kid cl sk = Inr token" "\<not> unexpired t cl"
  shows "validateTokenWithKeys lib t token keys = None"
proof -
  have "jwt_parse lib alg vk t token = None" for alg vk
    using assms(1) [unfolded jwt_laws_def, rule_format, OF assms(2)] assms(3) by simp
  then have "first_valid (try_key lib t token) ks = Inl ErrInvalidToken" for ks by (intro first_valid_none) (simp add: try_key_def)
  then show ?thesis by (simp add: validateTokenWithKeys_def)
qed

lemma Logout_blocks_token:
  assumes "E - now env > 0" "fault env [SET (token_blocklist_key (sha256 env token)) ''revoked'' (E - now env)] = None"
  shows "stands_until (token_blocklist_key (sha256 env token)) (E - millisecond + 1) (Logout env token (Some E) user body R)"
proof -
  let ?k = "token_blocklist_key (sha256 env token)" and ?T = "E - millisecond + 1"
  have "stands_until ?k ?T (BlocklistToken env token E R)"
    using assms block_length [OF assms(1)] by (auto simp: BlocklistToken_def redis_do_ok stands_until_def put_def set_deadline_def)
  then show ?thesis
    using token_block.Logout_keeps [of "sha256 env token" ?T "BlocklistToken env token E R" env user None token body] by (simp add: Logout_def)
qed

text \<open>
  C13: a token is dead after the logout: once a logout with an access token could write the revocation entry, whatever calls follow, no
  authenticated request with this token passes, before or after its expiry, except possibly in the last
  millisecond before it expires, which Redis rounds away.
\<close>

theorem logged_out_token_refused:
  assumes "jwt_laws lib mate" "jwt_sign lib m kid cl sk = Inr token" "map_of cl ''exp'' = Some (CNumber (of_int X))" "token \<noteq> []"
    and "bearer rq0 = Some token" "now env < X * second"
    and "fault env [SET (token_blocklist_key (sha256 env token)) ''revoked'' (X * second - now env)] = None"
    and "\<forall>c \<in> set cs. sane c \<and> same_expiry (sha256 env token) (X * second) c"
    and "bearer rq = Some token" "sha256 env' = sha256 env"
    and "now env' \<le> X * second - millisecond \<or> X * second \<le> now env'"
  shows "\<exists>a. authenticated env' lib keys rq (auth_run cs (snd (Handler_Logout env lib rq0 user body R))) = Inl a"
proof -
  let ?E = "X * second" and ?k = "token_blocklist_key (sha256 env token)"
  let ?S = "auth_run cs (snd (Handler_Logout env lib rq0 user body R))"
  have un: "jwt_unverified lib token = Some cl" using assms(1) [unfolded jwt_laws_def, rule_format, OF assms(2)] by simp
  have "ExtractTokenExpiry lib token = Some ?E" using un assms(3) by (simp add: ExtractTokenExpiry_def claim_int_def)
  then have "snd (Handler_Logout env lib rq0 user body R) = Logout env token (Some ?E) user body R"
    using bearer_prefix [OF assms(5)] by (simp add: Handler_Logout_def Let_def)
  then have stands: "stands_until ?k (?E - millisecond + 1) ?S"
    using run_keeps_token_block [OF Logout_blocks_token assms(8)] assms(6,7) by simp
  show ?thesis
  proof (cases "?E \<le> now env'")
    case True
    have "\<not> (of_int (now env') :: rat) < of_int X * of_int second" using True by (simp only: of_int_mult [symmetric] of_int_less_iff)
    then have "\<not> unexpired (now env') cl" using assms(3) by (simp add: unexpired_def)
    then show ?thesis using expired_refused [OF assms(1,2)] assms(9) by (auto simp: authenticated_def AuthMiddleware_def)
  next
    case False
    then have "live (now env') ?S ?k \<noteq> None" using stands_live [OF stands] assms(11) by simp
    then have "redis_Exists env' ?k ?S \<noteq> Inr False" by (simp add: redis_Exists_Inr)
    then have "\<exists>a. TokenBlocklistMiddleware env' rq ?S = Inl a"
      using assms(4,9,10) by (cases "redis_Exists env' ?k ?S") (auto simp: TokenBlocklistMiddleware_def)
    then show ?thesis by (auto simp: authenticated_def split: sum.split)
  qed
qed

section \<open>An example\<close>

text \<open>A library that can sign one token only, and the service with its key.\<close>

definition demo_claims :: claims where
  "demo_claims = token_claims (demo_auth 5) 7 [] ''admin'' (3600 * second)"

definition demo_jwt :: jwt_lib where
  "demo_jwt = \<lparr>jwt_sign = (\<lambda>m kid cl sk. if m = ''RS256'' \<and> kid = ''v1'' \<and> cl = demo_claims \<and> sk = ''sk'' then Inr ''tok'' else Inl (Driver ''no'')),
     jwt_kid = (\<lambda>s. ''v1''), jwt_unverified = (\<lambda>s. Some demo_claims),
     jwt_parse = (\<lambda>alg vk t s. if s = ''tok'' \<and> alg = ''RS256'' \<and> vk = ''vk'' \<and> unexpired t demo_claims then Some demo_claims else None)\<rparr>"

definition demo_key :: "string \<Rightarrow> string \<Rightarrow> jwt_key" where
  "demo_key sk vk = \<lparr>K_ID = ''v1'', K_SigningKey = Some sk, K_SigningMethod = ''RS256'', K_VerifyingKey = Some vk, K_VerifyingAlg = ''RS256''\<rparr>"

definition demo_jwt_service :: jwt_service where
  "demo_jwt_service = \<lparr>J_currentKey = Some (demo_key ''sk'' ''vk''), J_previousKey = None\<rparr>"

lemma demo_jwt_laws: "jwt_laws demo_jwt (\<lambda>s. ''vk'')"
  by (auto simp: jwt_laws_def demo_jwt_def split: if_splits)

lemma demo_sign: "jwt_sign demo_jwt ''RS256'' ''v1'' demo_claims ''sk'' = Inr ''tok''"
  by (simp add: demo_jwt_def)

theorem token_round_trip_witness:
  "ValidateToken (demo_auth 9) demo_jwt demo_jwt_service ''tok'' = Inr \<lparr>JC_UserID = ''7'', JC_Wallet = [], JC_Role = ''admin'', JC_IssuedAt = 0, JC_ExpiresAt = 3600\<rparr>
   \<and> ValidateToken (demo_auth 9) demo_jwt (RotateKey (demo_key ''b'' ''c'') demo_jwt_service) ''tok''
       = Inr \<lparr>JC_UserID = ''7'', JC_Wallet = [], JC_Role = ''admin'', JC_IssuedAt = 0, JC_ExpiresAt = 3600\<rparr>
   \<and> ValidateToken (demo_auth 9) demo_jwt (RotateKey (demo_key ''d'' ''e'') (RotateKey (demo_key ''b'' ''c'') demo_jwt_service)) ''tok'' = Inl ErrInvalidToken"
proof -
  have k: "J_currentKey demo_jwt_service = Some (demo_key ''sk'' ''vk'')" "well_keyed (\<lambda>s. ''vk'') (demo_key ''sk'' ''vk'') ''sk''"
    by (simp_all add: demo_jwt_service_def demo_key_def well_keyed_def)
  have g: "GenerateToken (demo_auth 5) demo_jwt demo_jwt_service 7 [] ''admin'' (3600 * second) = Inr ''tok''"
    using demo_sign by (simp add: GenerateToken_def demo_jwt_service_def demo_key_def demo_claims_def)
  have v: "K_VerifyingKey (demo_key ''b'' ''c'') \<noteq> Some ''vk''" "K_VerifyingKey (demo_key ''d'' ''e'') \<noteq> Some ''vk''" by (simp_all add: demo_key_def)
  have u: "uuid_String (demo_auth 5) 7 = ''7''" "unix (now (demo_auth 5)) = 0" "unix (now (demo_auth 5) + 3600 * second) = 3600" "now (demo_auth 9) = 9"
    by (code_simp, simp_all add: demo_auth_def unix_def)
  show ?thesis using token_round_trip [OF demo_jwt_laws k g v, of "demo_auth 9"] unfolding Let_def u by simp
qed

theorem refresh_route_never_succeeds_witness:
  "\<exists>status msg. refresh_route (demo_auth 9) demo_jwt
       \<lparr>AS_nonceTTL = 300 * second, AS_accessTTL = 3600 * second, AS_refreshTTL = week, AS_jwt = demo_jwt_service\<rparr>
       (\<lambda>s. if s = [] then Inl (Driver ''EOF'') else Inr s)
       \<lparr>RQ_Method = ''POST'', RQ_Authorization = [], RQ_CSRFToken = [], RQ_Upgrade = [], RQ_Body = ''5x0''\<rparr> demo_state = (Inl (status, msg), demo_state)"
proof -
  let ?json = "\<lambda>s. if s = [] then Inl (Driver ''EOF'') else Inr s :: string result"
  have j: "\<exists>e. ?json [] = Inl e" by simp
  show ?thesis using refresh_route_never_succeeds [of ?json, OF j] by blast
qed

definition demo_request :: "string \<Rightarrow> http_request" where
  "demo_request token = \<lparr>RQ_Method = ''GET'', RQ_Authorization = ''Bearer '' @ token, RQ_CSRFToken = [], RQ_Upgrade = [], RQ_Body = []\<rparr>"

theorem logged_out_token_refused_witness:
  "authenticated (demo_auth 9) demo_jwt [\<lparr>VK_key = ''vk'', VK_alg = ''RS256'', VK_kid = ''v1''\<rparr>] (demo_request ''tok'') (\<lambda>k. None) = Inr (''7'', [], ''admin'')
   \<and> (\<exists>a. authenticated (demo_auth 9) demo_jwt [\<lparr>VK_key = ''vk'', VK_alg = ''RS256'', VK_kid = ''v1''\<rparr>] (demo_request ''tok'')
         (snd (Handler_Logout (demo_auth 7) demo_jwt (demo_request ''tok'') ''7'' None (\<lambda>k. None))) = Inl a)"
proof
  have b: "bearer (demo_request ''tok'') = Some ''tok''" by code_simp
  have x: "map_of demo_claims ''exp'' = Some (CNumber (of_int 3600))" by (simp add: demo_claims_def token_claims_def demo_auth_def unix_def)
  have "\<exists>a. authenticated (demo_auth 9) demo_jwt [\<lparr>VK_key = ''vk'', VK_alg = ''RS256'', VK_kid = ''v1''\<rparr>] (demo_request ''tok'')
         (auth_run [] (snd (Handler_Logout (demo_auth 7) demo_jwt (demo_request ''tok'') ''7'' None (\<lambda>k. None)))) = Inl a"
    by (rule logged_out_token_refused [OF demo_jwt_laws demo_sign x _ b _ _ _ b]) (simp_all add: demo_auth_def)
  then show "\<exists>a. authenticated (demo_auth 9) demo_jwt [\<lparr>VK_key = ''vk'', VK_alg = ''RS256'', VK_kid = ''v1''\<rparr>] (demo_request ''tok'')
         (snd (Handler_Logout (demo_auth 7) demo_jwt (demo_request ''tok'') ''7'' None (\<lambda>k. None))) = Inl a" unfolding fold_Nil id_apply .
qed code_simp

end
