(* ===== verification/RequestGuards.thy ===== *)
theory RequestGuards
  imports AuthHttp Float64
begin

text \<open>
  The guards of the API against repeated and excessive requests: the idempotency middleware
  (\<^verbatim>\<open>internal/api/middleware/idempotency.go\<close>) over the Redis keyspace, with
  concurrent requests as interleaved steps, and the rate limiters of
  \<^verbatim>\<open>internal/api/middleware/ratelimit.go\<close> and \<^verbatim>\<open>internal/infrastructure/ratelimit\<close>, whose counters are
  sorted sets with floating-point scores.
\<close>

section \<open>Idempotency\<close>

record idempotencyRecord =
  IR_StatusCode :: int
  IR_Body :: string
  IR_ContentType :: string

abbreviation defaultIdempotencyTTL :: duration where "defaultIdempotencyTTL \<equiv> 24 * 3600 * second"

definition idempotencyProcessing :: string where
  "idempotencyProcessing = ''processing''"

text \<open>\<^verbatim>\<open>encoding/json\<close> on the record, both directions.\<close>

record idem_json =
  marshal :: "idempotencyRecord \<Rightarrow> string result"
  unmarshal :: "string \<Rightarrow> idempotencyRecord result"

definition IdempotencyKeyHeader :: "string \<Rightarrow> string \<Rightarrow> string" where
  "IdempotencyKeyHeader h x = (if trim_space h = [] then trim_space x else trim_space h)"

definition RequireIdempotencyKey :: "string \<Rightarrow> string \<Rightarrow> unit checked" where
  "RequireIdempotencyKey h x =
     (if IdempotencyKeyHeader h x = [] then Inl (400, ''Idempotency-Key header is required for this request'') else Inr ())"

definition idempotency_key :: "string \<Rightarrow> string \<Rightarrow> string \<Rightarrow> string \<Rightarrow> string" where
  "idempotency_key user verb path key =
     ''idempotency:'' @ (if user = [] then ''anon'' else user) @ '':'' @ verb @ '' '' @ path @ '':'' @ key"

definition tryReplay :: "redis_env \<Rightarrow> idem_json \<Rightarrow> string \<Rightarrow> keyspace \<Rightarrow> idempotencyRecord option" where
  "tryReplay env json k R =
     (case redis_Get env k R of
        Inr (Some cached) \<Rightarrow>
          if cached = idempotencyProcessing then None
          else (case unmarshal json cached of
                  Inl e \<Rightarrow> None
                | Inr r \<Rightarrow> Some (r\<lparr>IR_ContentType := if IR_ContentType r = [] then ''application/json; charset=utf-8'' else IR_ContentType r\<rparr>))
      | _ \<Rightarrow> None)"

text \<open>
  The middleware before the handler: the request is answered, replayed, or the handler runs. The part after the handler
  stores its response.
\<close>

datatype admission = Run | Replay idempotencyRecord | Answer nat string

definition idem_begin :: "redis_env \<Rightarrow> idem_json \<Rightarrow> string \<Rightarrow> keyspace \<Rightarrow> admission \<times> keyspace" where
  "idem_begin env json k R =
     (case run_cmd env (SETNX k idempotencyProcessing defaultIdempotencyTTL) R of
        (Inl e, R') \<Rightarrow> (Answer 503 ''service unavailable: idempotency store error'', R')
      | (Inr x, R') \<Rightarrow>
          if x = Num 1 then (Run, R')
          else (case tryReplay env json k R' of
                  Some r \<Rightarrow> (Replay r, R')
                | None \<Rightarrow> (Answer 409 ''idempotency key already used or request in progress'', R')))"

definition idem_finish :: "redis_env \<Rightarrow> idem_json \<Rightarrow> string \<Rightarrow> idempotencyRecord \<Rightarrow> keyspace \<Rightarrow> keyspace" where
  "idem_finish env json k r R =
     (case marshal json r of
        Inl e \<Rightarrow> redis_do env (DEL [k]) R
      | Inr payload \<Rightarrow> redis_do env (SET k payload defaultIdempotencyTTL) R)"

text \<open>The whole middleware when the handler is not interrupted: \<open>handler\<close> answers on its own state.\<close>

definition IdempotencyMiddleware :: "redis_env \<Rightarrow> redis_env \<Rightarrow> idem_json \<Rightarrow> string \<Rightarrow> string \<Rightarrow> string \<Rightarrow> string
    \<Rightarrow> ('s \<Rightarrow> idempotencyRecord \<times> 's) \<Rightarrow> 's \<times> keyspace \<Rightarrow> (idempotencyRecord checked) \<times> 's \<times> keyspace" where
  "IdempotencyMiddleware env env' json user verb path key handler = (\<lambda>(s, R).
     if key = [] then (case handler s of (r, s') \<Rightarrow> (Inr r, s', R))
     else let k = idempotency_key user verb path key in
       (case idem_begin env json k R of
          (Answer status msg, R') \<Rightarrow> (Inl (status, msg), s, R')
        | (Replay r, R') \<Rightarrow> (Inr r, s, R')
        | (Run, R') \<Rightarrow> (case handler s of (r, s') \<Rightarrow> (Inr r, s', idem_finish env' json k r R'))))"

section \<open>Rate limits\<close>

text \<open>
  The sorted set of a key: members (the time in nanoseconds) with their scores (the same as a float), and the
  time at which the key expires.
\<close>

type_synonym zspace = "string \<Rightarrow> ((int \<times> float64) list \<times> time) option"

definition zmembers :: "time \<Rightarrow> zspace \<Rightarrow> string \<Rightarrow> (int \<times> float64) list" where
  "zmembers t Z k = (case Z k of None \<Rightarrow> [] | Some (ms, x) \<Rightarrow> if t < x then ms else [])"

record limit_env =
  L_now :: time
  L_down :: "error option"
  L_applied :: bool
  L_ttl :: "duration result"

definition rate_key :: "string \<Rightarrow> string" where
  "rate_key k = ''ratelimit:'' @ k"

lemma rate_key_eq [simp]: "rate_key k = rate_key k' \<longleftrightarrow> k = k'"
  by (simp add: rate_key_def)

text \<open>The pipeline: drop the members up to the start of the window, add the request, count, prolong the key.\<close>

definition window_members :: "time \<Rightarrow> duration \<Rightarrow> (int \<times> float64) list \<Rightarrow> (int \<times> float64) list" where
  "window_members t window ms =
     (let kept = filter (\<lambda>(m, s). \<not> fle s (of_int64 (t - window))) ms in
      filter (\<lambda>(m, s). m \<noteq> t) kept @ [(t, of_int64 t)])"

definition window_update :: "time \<Rightarrow> string \<Rightarrow> duration \<Rightarrow> zspace \<Rightarrow> zspace" where
  "window_update t k window Z =
     (let ms = window_members t window (zmembers t Z k) in
      Z(k := (if expire_after window > 0 then Some (ms, t + expire_after window) else None)))"

record limit_result =
  LR_allowed :: bool
  LR_remaining :: int
  LR_ttl :: duration

text \<open>
  The sliding window, written twice in the source: with its own error in the middleware, with a wrapped one in the
  infrastructure package. A pipeline that failed may have taken effect.
\<close>

definition sliding_window :: "limit_env \<Rightarrow> string \<Rightarrow> int \<Rightarrow> duration \<Rightarrow> zspace \<Rightarrow> limit_result result \<times> zspace" where
  "sliding_window env key limit window Z =
     (let k = rate_key key; Z' = window_update (L_now env) k window Z in
      case L_down env of
        Some e \<Rightarrow> (Inl e, if L_applied env then Z' else Z)
      | None \<Rightarrow>
          (let count = int (length (window_members (L_now env) window (zmembers (L_now env) Z k))) in
           (Inr (if count > limit
                 then \<lparr>LR_allowed = False, LR_remaining = 0,
                       LR_ttl = (case L_ttl env of Inl e \<Rightarrow> window | Inr d \<Rightarrow> if d < 0 then window else d)\<rparr>
                 else \<lparr>LR_allowed = True, LR_remaining = limit - count, LR_ttl = window\<rparr>), Z')))"

definition errRedisUnavailable :: error where
  "errRedisUnavailable = Errorf ''rate limiter: Redis unavailable''"

definition checkLimitWithWindow :: "limit_env \<Rightarrow> string \<Rightarrow> int \<Rightarrow> duration \<Rightarrow> zspace \<Rightarrow> limit_result result \<times> zspace" where
  "checkLimitWithWindow env key limit window Z =
     map_prod (\<lambda>r. case r of Inl e \<Rightarrow> Inl errRedisUnavailable | Inr x \<Rightarrow> Inr x) id (sliding_window env key limit window Z)"

definition slidingWindowRedis :: "limit_env \<Rightarrow> string \<Rightarrow> int \<Rightarrow> duration \<Rightarrow> zspace \<Rightarrow> limit_result result \<times> zspace" where
  "slidingWindowRedis env key maxRequests window Z =
     wrap_call ''checking sliding window rate limit'' (sliding_window env key maxRequests window Z)"

definition RedisRateLimiter_Check :: "limit_env \<Rightarrow> string \<Rightarrow> int \<Rightarrow> duration \<Rightarrow> zspace \<Rightarrow> (bool \<times> duration) result \<times> zspace" where
  "RedisRateLimiter_Check env key maxRequests window Z =
     map_prod (map_sum id (\<lambda>r. (LR_allowed r, LR_ttl r))) id (slidingWindowRedis env key maxRequests window Z)"

definition RedisRateLimiter_Reset :: "limit_env \<Rightarrow> string \<Rightarrow> zspace \<Rightarrow> unit result \<times> zspace" where
  "RedisRateLimiter_Reset env key Z =
     (let Z' = Z(rate_key key := None) in
      case L_down env of
        Some e \<Rightarrow> (Inl (Wrap ''resetting rate limit'' e), if L_applied env then Z' else Z)
      | None \<Rightarrow> (Inr (), Z'))"

text \<open>The limiter in memory keeps only the requests it allowed.\<close>

type_synonym memory = "string \<Rightarrow> time list"

definition InMemory_Check :: "time \<Rightarrow> string \<Rightarrow> int \<Rightarrow> duration \<Rightarrow> memory \<Rightarrow> limit_result \<times> memory" where
  "InMemory_Check t key maxRequests window M =
     (let recent = filter (\<lambda>x. t - window < x) (M key) in
      if int (length recent) \<ge> maxRequests
      then (\<lparr>LR_allowed = False, LR_remaining = 0, LR_ttl = (case recent of [] \<Rightarrow> window | x # _ \<Rightarrow> max 0 (x + window - t))\<rparr>, M(key := recent))
      else (\<lparr>LR_allowed = True, LR_remaining = max 0 (maxRequests - int (length recent + 1)), LR_ttl = window\<rparr>, M(key := recent @ [t])))"

text \<open>The options of a route are applied in order; the last one of a kind decides.\<close>

record RateLimitConfig =
  RC_Global :: int
  RC_Authenticated :: int
  RC_Auth :: int
  RC_FailClosed :: bool

datatype rateLimitPolicy = policyDefault | policyFailClosed | policyFailOpen

record rateLimitOptions =
  O_policy :: rateLimitPolicy
  O_limits :: "RateLimitConfig option"

datatype RateLimitOption = WithFailClosed | WithFailOpen | WithLiveLimits RateLimitConfig

fun apply_option :: "RateLimitOption \<Rightarrow> rateLimitOptions \<Rightarrow> rateLimitOptions" where
  "apply_option WithFailClosed o1 = o1\<lparr>O_policy := policyFailClosed\<rparr>"
| "apply_option WithFailOpen o1 = o1\<lparr>O_policy := policyFailOpen\<rparr>"
| "apply_option (WithLiveLimits f) o1 = o1\<lparr>O_limits := Some f\<rparr>"

definition resolved_options :: "RateLimitOption list \<Rightarrow> rateLimitOptions" where
  "resolved_options opts = fold apply_option opts \<lparr>O_policy = policyDefault, O_limits = None\<rparr>"

definition currentLimits :: "RateLimitConfig \<Rightarrow> RateLimitOption list \<Rightarrow> RateLimitConfig" where
  "currentLimits cfg opts = (case O_limits (resolved_options opts) of Some l \<Rightarrow> l | None \<Rightarrow> cfg)"

definition resolveFailClosed :: "RateLimitConfig \<Rightarrow> RateLimitOption list \<Rightarrow> bool" where
  "resolveFailClosed cfg opts =
     (case O_policy (resolved_options opts) of policyFailClosed \<Rightarrow> True | policyFailOpen \<Rightarrow> False | policyDefault \<Rightarrow> RC_FailClosed cfg)"

record rate_headers =
  RH_Limit :: int
  RH_Remaining :: int
  RH_Reset :: int

definition setRateLimitHeaders :: "time \<Rightarrow> int \<Rightarrow> int \<Rightarrow> duration \<Rightarrow> rate_headers" where
  "setRateLimitHeaders t limit remaining ttl = \<lparr>RH_Limit = limit, RH_Remaining = remaining, RH_Reset = unix (t + ttl)\<rparr>"

type_synonym limiters = "zspace \<times> memory"

definition enforceRateLimit :: "limit_env \<Rightarrow> string \<Rightarrow> int \<Rightarrow> duration \<Rightarrow> bool \<Rightarrow> string \<Rightarrow> limiters \<Rightarrow> unit checked \<times> rate_headers \<times> limiters" where
  "enforceRateLimit env key limit window failClosed msg = (\<lambda>(Z, M).
     let answer = (\<lambda>r w. (if LR_allowed r then Inr () else Inl (429, msg), setRateLimitHeaders (L_now env) limit (LR_remaining r) (LR_ttl r), w)) in
     (case checkLimitWithWindow env key limit window Z of
        (Inl e, Z') \<Rightarrow>
          if failClosed then (Inl (503, ''service temporarily unavailable''), setRateLimitHeaders (L_now env) limit 0 window, Z', M)
          else (case InMemory_Check (L_now env) key limit window M of (r, M') \<Rightarrow> answer r (Z', M'))
      | (Inr r, Z') \<Rightarrow> answer r (Z', M)))"

definition RateLimitMiddleware :: "limit_env \<Rightarrow> RateLimitConfig \<Rightarrow> RateLimitOption list \<Rightarrow> string \<Rightarrow> string option \<Rightarrow> limiters
    \<Rightarrow> unit checked \<times> rate_headers \<times> limiters" where
  "RateLimitMiddleware env cfg opts ip user =
     (let l = currentLimits cfg opts in
      case user of
        None \<Rightarrow> enforceRateLimit env (''ratelimit:g:'' @ ip) (RC_Global l) (60 * second) (resolveFailClosed cfg opts) ''rate limit exceeded''
      | Some u \<Rightarrow> enforceRateLimit env (''ratelimit:u:'' @ u) (RC_Authenticated l) (60 * second) (resolveFailClosed cfg opts) ''rate limit exceeded'')"

definition AuthRateLimitMiddleware :: "limit_env \<Rightarrow> RateLimitConfig \<Rightarrow> RateLimitOption list \<Rightarrow> string \<Rightarrow> limiters
    \<Rightarrow> unit checked \<times> rate_headers \<times> limiters" where
  "AuthRateLimitMiddleware env cfg opts ip =
     enforceRateLimit env (''ratelimit:a:'' @ ip) (RC_Auth (currentLimits cfg opts)) (60 * second)
       (resolveFailClosed cfg (opts @ [WithFailClosed])) ''too many auth attempts''"

definition PerResourceRateLimitMiddleware :: "limit_env \<Rightarrow> RateLimitOption list \<Rightarrow> string \<Rightarrow> int \<Rightarrow> duration \<Rightarrow> string \<Rightarrow> limiters
    \<Rightarrow> unit checked \<times> rate_headers \<times> limiters" where
  "PerResourceRateLimitMiddleware env opts resource limit window ip =
     enforceRateLimit env (''ratelimit:r:'' @ resource @ '':'' @ ip) limit window
       (resolveFailClosed \<lparr>RC_Global = 0, RC_Authenticated = 0, RC_Auth = 0, RC_FailClosed = False\<rparr> opts) (''rate limit exceeded for '' @ resource)"

definition PasswordResetRateLimitMiddleware :: "limit_env \<Rightarrow> limit_env \<Rightarrow> int \<Rightarrow> int \<Rightarrow> int \<Rightarrow> string \<Rightarrow> string \<Rightarrow> string \<Rightarrow> limiters
    \<Rightarrow> unit checked \<times> rate_headers \<times> limiters" where
  "PasswordResetRateLimitMiddleware env env' ipLimit accountLimit windowSeconds ip email acct w =
     (let window = (if windowSeconds \<le> 0 then 15 * 60 * second else windowSeconds * second);
          ipLimit' = (if ipLimit \<le> 0 then 5 else ipLimit); accountLimit' = (if accountLimit \<le> 0 then 3 else accountLimit);
          account = (if email = [] then acct else email) in
      case enforceRateLimit env (''pwreset:ip:'' @ ip) ipLimit' window True ''password reset rate limit exceeded for this IP'' w of
        (Inl e, h, w') \<Rightarrow> (Inl e, h, w')
      | (Inr x, h, w') \<Rightarrow>
          if account = [] then (Inr (), h, w')
          else enforceRateLimit env' (''pwreset:account:'' @ account) accountLimit' window True ''password reset rate limit exceeded for this account'' w')"

section \<open>Concurrent requests with one key\<close>

text \<open>
  Requests in flight: each has been admitted and has not returned. \<open>IS_runs\<close> records when handlers were started and
  \<open>IS_done\<close> what they answered, the newest first. Beginnings, ends and crashes of
  requests interleave in any order; calls to Redis may fail.
\<close>

record idem_state =
  IS_redis :: keyspace
  IS_clock :: time
  IS_running :: "string list"
  IS_runs :: "(string \<times> time) list"
  IS_done :: "(string \<times> idempotencyRecord) list"

inductive idem_step :: "idem_json \<Rightarrow> idem_state \<Rightarrow> idem_state \<Rightarrow> bool" for json where
  arrive: "IS_clock s \<le> now env \<Longrightarrow> idem_begin env json k (IS_redis s) = (a, R') \<Longrightarrow>
     idem_step json s (if a = Run
       then s\<lparr>IS_redis := R', IS_clock := now env, IS_running := k # IS_running s, IS_runs := (k, now env) # IS_runs s\<rparr>
       else s\<lparr>IS_redis := R', IS_clock := now env\<rparr>)"
| return: "IS_clock s \<le> now env \<Longrightarrow> k \<in> set (IS_running s) \<Longrightarrow>
     idem_step json s (s\<lparr>IS_redis := idem_finish env json k r (IS_redis s), IS_clock := now env,
       IS_running := remove1 k (IS_running s), IS_done := (k, r) # IS_done s\<rparr>)"
| crash: "k \<in> set (IS_running s) \<Longrightarrow> idem_step json s (s\<lparr>IS_running := remove1 k (IS_running s)\<rparr>)"

inductive idem_reach :: "idem_json \<Rightarrow> idem_state \<Rightarrow> bool" for json where
  start: "idem_reach json \<lparr>IS_redis = (\<lambda>k. None), IS_clock = t, IS_running = [], IS_runs = [], IS_done = []\<rparr>"
| step: "idem_reach json s \<Longrightarrow> idem_step json s s' \<Longrightarrow> idem_reach json s'"

inductive_cases idem_stepE: "idem_step json s s'"

text \<open>
  What the code relies on of \<^verbatim>\<open>encoding/json\<close>: a record can be encoded, its status and its body (which is
  encoded in base64) are decoded to what they were, and its text is not the marker.
\<close>

definition json_laws :: "idem_json \<Rightarrow> bool" where
  "json_laws json = (\<forall>r. \<exists>p r'. marshal json r = Inr p \<and> unmarshal json p = Inr r' \<and> IR_StatusCode r' = IR_StatusCode r \<and> IR_Body r' = IR_Body r
     \<and> p \<noteq> idempotencyProcessing)"

definition spaced :: "(string \<times> time) list \<Rightarrow> bool" where
  "spaced runs = sorted_wrt (\<lambda>(k', t') (k, t). k = k' \<longrightarrow> t + defaultIdempotencyTTL \<le> t') runs"

lemma lifetime_day [simp]: "lifetime 86400000000000 = 86400000000000"
  by (simp add: lifetime_def)

lemma SETNX_stands:
  assumes "stands_until k T R" "T \<le> now env + defaultIdempotencyTTL"
  shows "stands_until k T (snd (run_cmd env (SETNX k' v defaultIdempotencyTTL) R))"
  by (rule run_cmd_frame [where P = "stands_until k T"]) (use assms in \<open>auto simp: stands_until_def put_def set_deadline_def\<close>)

lemma SET_keeps_stands:
  assumes "stands_until k T R" "T \<le> now env + defaultIdempotencyTTL"
  shows "stands_until k T (redis_do env (SET k' v defaultIdempotencyTTL) R)"
  unfolding redis_do_def
  by (rule run_cmd_frame [where P = "stands_until k T"]) (use assms in \<open>auto simp: stands_until_def put_def set_deadline_def\<close>)

text \<open>A value found after a write was there before or is the one written.\<close>

lemma SETNX_value: "snd (run_cmd env (SETNX k' v d) R) k = Some (w, x) \<Longrightarrow> R k = Some (w, x) \<or> k = k' \<and> w = Str v"
  by (auto simp: run_cmd_def put_def split: option.splits if_splits)

lemma SET_value: "redis_do env (SET k' v d) R k = Some (w, x) \<Longrightarrow> R k = Some (w, x) \<or> k = k' \<and> w = Str v"
  by (auto simp: redis_do_def run_cmd_def put_def split: option.splits if_splits)

lemma snd_idem_begin: "snd (idem_begin env json k R) = snd (run_cmd env (SETNX k idempotencyProcessing defaultIdempotencyTTL) R)"
  by (simp add: idem_begin_def split: prod.split sum.split option.split)

lemma idem_begin_Run:
  assumes "idem_begin env json k R = (Run, R')"
  shows "live (now env) R k = None" "R' = put (now env) k (Str idempotencyProcessing) defaultIdempotencyTTL R"
proof -
  obtain x where x: "run_cmd env (SETNX k idempotencyProcessing defaultIdempotencyTTL) R = (Inr x, R')" "x = Num 1"
    using assms by (auto simp: idem_begin_def split: prod.splits sum.splits if_splits option.splits)
  then show "live (now env) R k = None" "R' = put (now env) k (Str idempotencyProcessing) defaultIdempotencyTTL R"
    by (auto simp: run_cmd_def split: option.splits if_splits)
qed

text \<open>Every stored value is the marker or the answer of an execution under its key.\<close>

definition values_explained :: "idem_json \<Rightarrow> (string \<times> idempotencyRecord) list \<Rightarrow> keyspace \<Rightarrow> bool" where
  "values_explained json answers R = (\<forall>k v x. R k = Some (v, x) \<longrightarrow>
     v = Str idempotencyProcessing \<or> (\<exists>r p. (k, r) \<in> set answers \<and> marshal json r = Inr p \<and> v = Str p))"

definition idem_inv :: "idem_json \<Rightarrow> idem_state \<Rightarrow> bool" where
  "idem_inv json s = (spaced (IS_runs s)
     \<and> (\<forall>(k, t) \<in> set (IS_runs s). t \<le> IS_clock s \<and> stands_until k (t + defaultIdempotencyTTL) (IS_redis s))
     \<and> values_explained json (IS_done s) (IS_redis s))"

lemma values_explained_write:
  assumes "values_explained json answers R" "set answers \<subseteq> set answers'"
    and "\<And>k v x. R' k = Some (v, x) \<Longrightarrow> R k = Some (v, x) \<or> k = k' \<and> v = Str w"
    and "w = idempotencyProcessing \<or> (\<exists>r. (k', r) \<in> set answers' \<and> marshal json r = Inr w)"
  shows "values_explained json answers' R'"
  unfolding values_explained_def
proof (intro allI impI)
  fix k v x assume "R' k = Some (v, x)"
  from assms(3) [OF this]
  show "v = Str idempotencyProcessing \<or> (\<exists>r p. (k, r) \<in> set answers' \<and> marshal json r = Inr p \<and> v = Str p)"
  proof
    assume "R k = Some (v, x)"
    from assms(1) [unfolded values_explained_def, rule_format, OF this] assms(2) show ?thesis by blast
  next
    assume "k = k' \<and> v = Str w"
    with assms(4) show ?thesis by auto
  qed
qed

lemma idem_inv_step:
  assumes "idem_inv json s" "idem_step json s s'" "json_laws json"
  shows "idem_inv json s'"
proof -
  have sp: "spaced (IS_runs s)" and st: "\<And>k t. (k, t) \<in> set (IS_runs s) \<Longrightarrow> t \<le> IS_clock s \<and> stands_until k (t + defaultIdempotencyTTL) (IS_redis s)"
    and val: "values_explained json (IS_done s) (IS_redis s)"
    using assms(1) unfolding idem_inv_def by blast+
  show ?thesis using assms(2)
  proof (cases rule: idem_step.cases)
    case (arrive env k a R')
    have R': "R' = snd (run_cmd env (SETNX k idempotencyProcessing defaultIdempotencyTTL) (IS_redis s))" using arrive snd_idem_begin by (metis snd_conv)
    have keep: "t \<le> now env \<and> stands_until k' (t + defaultIdempotencyTTL) R'" if "(k', t) \<in> set (IS_runs s)" for k' t
      unfolding R' using st [OF that] arrive(2) by (intro conjI SETNX_stands) auto
    have vals: "values_explained json (IS_done s) R'"
      unfolding R' by (rule values_explained_write [OF val subset_refl, where k' = k and w = idempotencyProcessing]) (simp_all add: SETNX_value)
    show ?thesis
    proof (cases "a = Run")
      case True
      note run = idem_begin_Run [OF arrive(3) [unfolded True]]
      have "t + defaultIdempotencyTTL \<le> now env" if "(k, t) \<in> set (IS_runs s)" for t
        using stands_live [of k "t + defaultIdempotencyTTL" "IS_redis s" "now env"] st [OF that] run(1) by force
      then have "spaced ((k, now env) # IS_runs s)" using sp by (auto simp: spaced_def)
      moreover have "stands_until k (now env + defaultIdempotencyTTL) R'"
        unfolding run(2) using SET_stands [of defaultIdempotencyTTL k "now env"] by simp
      ultimately show ?thesis using keep vals arrive(1) True by (auto simp: idem_inv_def)
    next
      case False
      then show ?thesis using sp keep vals arrive(1) by (auto simp: idem_inv_def)
    qed
  next
    case (return env k r)
    obtain p where p: "marshal json r = Inr p" using assms(3) [unfolded json_laws_def, rule_format, of r] by blast
    let ?R = "redis_do env (SET k p defaultIdempotencyTTL) (IS_redis s)"
    have keep: "t \<le> now env \<and> stands_until k' (t + defaultIdempotencyTTL) ?R" if "(k', t) \<in> set (IS_runs s)" for k' t
      using st [OF that] return(2) by (intro conjI SET_keeps_stands) auto
    have vals: "values_explained json ((k, r) # IS_done s) ?R"
      by (rule values_explained_write [OF val, where k' = k and w = p]) (use p in \<open>auto dest: SET_value\<close>)
    show ?thesis using sp keep vals return(1) p by (auto simp: idem_inv_def idem_finish_def)
  next
    case (crash k)
    then show ?thesis using assms(1) by (simp add: idem_inv_def)
  qed
qed

lemma idem_reach_inv: "idem_reach json s \<Longrightarrow> json_laws json \<Longrightarrow> idem_inv json s"
proof (induction rule: idem_reach.induct)
  case (start t)
  then show ?case by (simp add: idem_inv_def spaced_def values_explained_def)
qed (rule idem_inv_step)

text \<open>The key of one user is never the key of another: identifiers of users contain no colon.\<close>

lemma idempotency_key_user:
  assumes "idempotency_key u m p k = idempotency_key u' m' p' k'" "CHR '':'' \<notin> set u" "CHR '':'' \<notin> set u'" "u \<noteq> []" "u' \<noteq> []"
  shows "u = u'"
proof -
  have "u @ CHR '':'' # (m @ '' '' @ p @ '':'' @ k) = u' @ CHR '':'' # (m' @ '' '' @ p' @ '':'' @ k')"
    using assms by (simp add: idempotency_key_def)
  then show ?thesis using takeWhile_before [OF assms(2)] takeWhile_before [OF assms(3)] by metis
qed

text \<open>
  C16: a request is executed once: however requests with the same key arrive, return, crash and overlap, and whichever calls to Redis fail,
  two executions of a handler under one key are at least 24 hours apart; and what is replayed is the answer of an
  execution under this key.
\<close>

theorem requests_execute_once:
  assumes "json_laws json" "idem_reach json s"
  shows "spaced (IS_runs s) \<and> (\<forall>env k r. fst (idem_begin env json k (IS_redis s)) = Replay r \<longrightarrow>
     (\<exists>r0. (k, r0) \<in> set (IS_done s) \<and> IR_StatusCode r = IR_StatusCode r0 \<and> IR_Body r = IR_Body r0))"
proof (intro conjI allI impI)
  have inv: "idem_inv json s" by (rule idem_reach_inv [OF assms(2,1)])
  then show "spaced (IS_runs s)" by (simp add: idem_inv_def)
  fix env k r
  assume b: "fst (idem_begin env json k (IS_redis s)) = Replay r"
  let ?R' = "snd (run_cmd env (SETNX k idempotencyProcessing defaultIdempotencyTTL) (IS_redis s))"
  have "tryReplay env json k ?R' = Some r" using b by (auto simp: idem_begin_def split: prod.splits sum.splits if_splits option.splits)
  then obtain c r0 where c: "redis_Get env k ?R' = Inr (Some c)" "c \<noteq> idempotencyProcessing" "unmarshal json c = Inr r0"
      "IR_StatusCode r = IR_StatusCode r0" "IR_Body r = IR_Body r0"
    by (auto simp: tryReplay_def split: sum.splits option.splits if_splits)
  then have "live (now env) ?R' k = Some (Str c)" by (auto simp: redis_Get_Inr split: option.splits rval.splits)
  then obtain x where "?R' k = Some (Str c, x)" using live_Some by blast
  moreover have "?R' k = IS_redis s k \<or> (\<exists>x. ?R' k = Some (Str idempotencyProcessing, x))"
    by (auto simp: run_cmd_def put_def split: option.split)
  ultimately have "IS_redis s k = Some (Str c, x)" using c(2) by auto
  then obtain r1 where r1: "(k, r1) \<in> set (IS_done s)" "marshal json r1 = Inr c" using inv c(2) unfolding idem_inv_def values_explained_def by blast
  then have "IR_StatusCode r0 = IR_StatusCode r1 \<and> IR_Body r0 = IR_Body r1"
    using assms(1) [unfolded json_laws_def, rule_format, of r1] c(3) by auto
  then show "\<exists>r0. (k, r0) \<in> set (IS_done s) \<and> IR_StatusCode r = IR_StatusCode r0 \<and> IR_Body r = IR_Body r0" using r1 c by auto
qed


text \<open>
  An encoder for the witness: the status in unary after a letter that no marker starts with, a separator, the body. The first request runs and
  returns, the second is answered with its response.
\<close>

definition demo_json :: idem_json where
  "demo_json = \<lparr>marshal = (\<lambda>r. Inr (CHR ''r'' # replicate (nat \<bar>IR_StatusCode r\<bar>) CHR ''1'' @ (if IR_StatusCode r < 0 then ''-'' else ''.'') @ IR_Body r)),
     unmarshal = (\<lambda>p. let ds = takeWhile (\<lambda>c. c = CHR ''1'') (tl p); rest = dropWhile (\<lambda>c. c = CHR ''1'') (tl p) in
       Inr \<lparr>IR_StatusCode = (if hd rest = CHR ''-'' then - int (length ds) else int (length ds)), IR_Body = tl rest, IR_ContentType = []\<rparr>)\<rparr>"

lemma demo_json_laws: "json_laws demo_json"
proof -
  have t: "takeWhile (\<lambda>c. c = CHR ''1'') (replicate n CHR ''1'' @ d # b) = replicate n CHR ''1''"
    "dropWhile (\<lambda>c. c = CHR ''1'') (replicate n CHR ''1'' @ d # b) = d # b" if "d \<noteq> CHR ''1''" for n d b
    using that by (induction n) simp_all
  show ?thesis by (auto simp: json_laws_def demo_json_def idempotencyProcessing_def Let_def t)
qed

definition demo_redis :: "time \<Rightarrow> redis_env" where
  "demo_redis t = \<lparr>uuid_Parse = demo_uuid_parse, uuid_String = demo_uuid_text, uuid_New = (\<lambda>n. word_of_nat n), now = t, fault = (\<lambda>c. None),
     took_effect = (\<lambda>c. True)\<rparr>"

definition demo_answer :: idempotencyRecord where
  "demo_answer = \<lparr>IR_StatusCode = 2, IR_Body = ''ok'', IR_ContentType = ''text''\<rparr>"

definition demo_claimed :: keyspace where
  "demo_claimed = (\<lambda>k. None)(''k'' := Some (Str idempotencyProcessing, Some (5 + defaultIdempotencyTTL)))"

definition demo_stored :: keyspace where
  "demo_stored = (\<lambda>k. None)(''k'' := Some (Str ''r11.ok'', Some (7 + defaultIdempotencyTTL)))"

lemma demo_begin: "idem_begin (demo_redis 5) demo_json ''k'' (\<lambda>k. None) = (Run, demo_claimed)"
  by (simp add: idem_begin_def run_cmd_def demo_redis_def live_def put_def set_deadline_def demo_claimed_def)

lemma demo_finish: "idem_finish (demo_redis 7) demo_json ''k'' demo_answer demo_claimed = demo_stored"
  by (simp add: idem_finish_def redis_do_def run_cmd_def demo_redis_def put_def set_deadline_def demo_claimed_def demo_stored_def demo_json_def demo_answer_def
      numeral_2_eq_2)

lemma demo_idem_reach:
  "idem_reach demo_json \<lparr>IS_redis = demo_stored, IS_clock = 7, IS_running = [], IS_runs = [(''k'', 5)], IS_done = [(''k'', demo_answer)]\<rparr>"
proof -
  let ?s1 = "\<lparr>IS_redis = demo_claimed, IS_clock = 5, IS_running = [''k''], IS_runs = [(''k'', 5)], IS_done = []\<rparr>"
  have n: "now (demo_redis t) = t" for t by (simp add: demo_redis_def)
  have "idem_reach demo_json ?s1"
    using idem_reach.step [OF idem_reach.start [of demo_json 0] idem_step.arrive [of _ "demo_redis 5" demo_json "''k''" Run demo_claimed]]
    by (simp add: demo_begin n)
  from idem_reach.step [OF this idem_step.return [of ?s1 "demo_redis 7" "''k''" demo_json demo_answer]]
  show ?thesis by (simp add: demo_finish n)
qed

theorem requests_execute_once_witness:
  "\<exists>s. idem_reach demo_json s \<and> IS_runs s = [(''k'', 5)] \<and> spaced (IS_runs s)
     \<and> (\<exists>r. fst (idem_begin (demo_redis 9) demo_json ''k'' (IS_redis s)) = Replay r \<and> IR_StatusCode r = 2 \<and> IR_Body r = ''ok'')"
proof -
  note once = requests_execute_once [OF demo_json_laws demo_idem_reach]
  have "live 9 demo_stored ''k'' = Some (Str ''r11.ok'')" by (simp add: live_def demo_stored_def)
  then obtain r where r: "fst (idem_begin (demo_redis 9) demo_json ''k'' demo_stored) = Replay r"
    by (auto simp: idem_begin_def run_cmd_def demo_redis_def tryReplay_def redis_Get_def idempotencyProcessing_def demo_json_def Let_def)
  then have "IR_StatusCode r = 2 \<and> IR_Body r = ''ok''"
    using once [THEN conjunct2, rule_format, of "demo_redis 9" "''k''" r] by (simp add: demo_answer_def)
  then show ?thesis
    by (intro exI [of _ "\<lparr>IS_redis = demo_stored, IS_clock = 7, IS_running = [], IS_runs = [(''k'', 5)], IS_done = [(''k'', demo_answer)]\<rparr>"])
      (use r once [THEN conjunct1] demo_idem_reach in simp)
qed

section \<open>The sliding window is exact to a fraction of a microsecond\<close>

text \<open>
  Scores are float64 numbers. From 2006 to 2043 the time in nanoseconds lies between \<open>2^60\<close> and \<open>2^61\<close>, where neighbouring
  floats are 256 apart.
\<close>

lemma rne_mono: "x \<le> y \<Longrightarrow> rne x \<le> rne y"
proof -
  assume xy: "x \<le> y"
  then have f: "\<lfloor>x\<rfloor> \<le> \<lfloor>y\<rfloor>" by (rule floor_mono)
  show ?thesis
  proof (cases "\<lfloor>x\<rfloor> = \<lfloor>y\<rfloor>")
    case True
    with xy show ?thesis by (auto simp: rne_def Let_def)
  next
    case False
    with f have "\<lfloor>x\<rfloor> + 1 \<le> \<lfloor>y\<rfloor>" by simp
    then show ?thesis by (auto simp: rne_def Let_def)
  qed
qed

definition in_era :: "int \<Rightarrow> bool" where
  "in_era n = (2 ^ 60 \<le> n \<and> n < 2 ^ 61)"

lemma of_int64_era:
  assumes "in_era n"
  shows "of_int64 n = Finite (256 * of_int (rne (of_int n / 256)))"
proof -
  have n: "(2::rat) ^ 60 \<le> of_int n" "of_int n < (2::rat) ^ 61"
    using assms of_int_le_iff [of "2 ^ 60" n, where 'a = rat] of_int_less_iff [of n "2 ^ 61", where 'a = rat] by (simp_all add: in_era_def)
  have pos: "(0::rat) < of_int n" using n(1) by (rule less_le_trans [rotated]) simp
  have "60 \<le> ilog2 (of_int n)" by (rule ilog2_ge [OF pos]) (use n(1) in \<open>simp add: power_int_def\<close>)
  moreover have "ilog2 (of_int n) < 61" by (rule ilog2_less [OF pos]) (use n(2) in \<open>simp add: power_int_def\<close>)
  ultimately have q: "quantum (of_int n) = 8" using pos by (simp add: quantum_def)
  have r: "round_mag (of_int n) = 256 * of_int (rne (of_int n / 256))" by (simp add: round_mag_def q)
  have "256 * of_int (rne (of_int n / 256)) \<le> of_int n + (128 :: rat)" using rne_error [of "of_int n / 256"] by linarith
  also have "\<dots> < 2 ^ 1024" using n(2) by (rule less_trans [OF add_strict_right_mono]) simp
  finally show ?thesis unfolding of_int64_def r [symmetric] by (rule fl_finite [OF pos])
qed

definition expired :: "time \<Rightarrow> duration \<Rightarrow> time \<Rightarrow> bool" where
  "expired t window x = fle (of_int64 x) (of_int64 (t - window))"

lemma expired_iff: "in_era x \<Longrightarrow> in_era (t - w) \<Longrightarrow> expired t w x \<longleftrightarrow> rne (of_int x / 256) \<le> rne (of_int (t - w) / 256)"
  by (auto simp: expired_def of_int64_era fle_def)

lemma expired_old: "in_era x \<Longrightarrow> in_era (t - w) \<Longrightarrow> x \<le> t - w \<Longrightarrow> expired t w x"
  unfolding expired_iff by (intro rne_mono divide_right_mono) simp_all

lemma not_expired_recent:
  assumes "in_era x" "in_era (t - w)" "t - w + 256 < x"
  shows "\<not> expired t w x"
proof
  assume "expired t w x"
  then have "(of_int (rne (of_int x / 256)) :: rat) \<le> of_int (rne (of_int (t - w) / 256))" using expired_iff [OF assms(1,2)] by simp
  then have "(of_int x :: rat) / 256 - 1/2 \<le> of_int (t - w) / 256 + 1/2"
    using rne_error [of "of_int x / 256"] rne_error [of "of_int (t - w) / 256"] by linarith
  then have "(of_int x :: rat) \<le> of_int (t - w + 256)" by (simp add: field_simps)
  with assms(3) show False by (simp only: of_int_le_iff)
qed

lemma expired_later: "expired t w x \<Longrightarrow> t \<le> t' \<Longrightarrow> in_era x \<Longrightarrow> in_era (t - w) \<Longrightarrow> in_era (t' - w) \<Longrightarrow> expired t' w x"
proof -
  assume a: "expired t w x" "t \<le> t'" "in_era x" "in_era (t - w)" "in_era (t' - w)"
  have "rne (of_int (t - w) / 256) \<le> rne (of_int (t' - w) / 256)" using a(2) by (intro rne_mono divide_right_mono) simp_all
  with a show ?thesis by (simp add: expired_iff)
qed

text \<open>
  Requests in the order in which they reach Redis. Every key has its own window; limits may change between requests. A request is counted
  when its pipeline took effect.
\<close>

record limit_request =
  Q_env :: limit_env
  Q_key :: string
  Q_limit :: int

definition limit_run :: "(string \<Rightarrow> duration) \<Rightarrow> limit_request list \<Rightarrow> zspace \<Rightarrow> zspace" where
  "limit_run window = fold (\<lambda>q. snd \<circ> checkLimitWithWindow (Q_env q) (Q_key q) (Q_limit q) (window (Q_key q)))"

definition counted :: "string \<Rightarrow> limit_request list \<Rightarrow> time list" where
  "counted key qs = map (L_now \<circ> Q_env) (filter (\<lambda>q. Q_key q = key \<and> (L_down (Q_env q) = None \<or> L_applied (Q_env q))) qs)"

definition orderly :: "(string \<Rightarrow> duration) \<Rightarrow> limit_request list \<Rightarrow> bool" where
  "orderly window qs = (sorted_wrt (\<lambda>p q. L_now (Q_env p) < L_now (Q_env q)) qs \<and>
     (\<forall>q \<in> set qs. in_era (L_now (Q_env q)) \<and> in_era (L_now (Q_env q) - window (Q_key q))))"

definition whole_windows :: "(string \<Rightarrow> duration) \<Rightarrow> bool" where
  "whole_windows window = (\<forall>k. window k > 0 \<and> second dvd window k)"

lemma expire_whole: "d > 0 \<Longrightarrow> second dvd d \<Longrightarrow> expire_after d = d"
  by (auto simp: expire_after_def quo_def)

abbreviation scored :: "time list \<Rightarrow> (int \<times> float64) list" where
  "scored xs \<equiv> map (\<lambda>x. (x, of_int64 x)) xs"

text \<open>What the sorted set of a key shows at a later time: exactly the counted requests that have not expired.\<close>

definition shows_window :: "(string \<Rightarrow> duration) \<Rightarrow> limit_request list \<Rightarrow> zspace \<Rightarrow> bool" where
  "shows_window window qs Z = (\<forall>k t. (\<forall>q \<in> set qs. L_now (Q_env q) < t) \<longrightarrow> in_era (t - window k) \<longrightarrow>
     filter (\<lambda>(m, s). \<not> fle s (of_int64 (t - window k))) (zmembers t Z (rate_key k)) = scored (filter (\<lambda>x. \<not> expired t (window k) x) (counted k qs)))"

lemma filter_scored: "filter (\<lambda>(m, s). \<not> fle s (of_int64 (t - w))) (scored xs) = scored (filter (\<lambda>x. \<not> expired t w x) xs)"
  by (simp add: filter_map comp_def expired_def)

lemma snd_checkLimit: "snd (checkLimitWithWindow env key limit w Z) =
    (if L_down env = None \<or> L_applied env then window_update (L_now env) (rate_key key) w Z else Z)"
  by (auto simp: checkLimitWithWindow_def sliding_window_def Let_def split: option.split)

lemma counted_snoc: "counted k (qs @ [q]) = counted k qs @
    (if Q_key q = k \<and> (L_down (Q_env q) = None \<or> L_applied (Q_env q)) then [L_now (Q_env q)] else [])"
  by (simp add: counted_def)

lemma window_members_shown:
  assumes "shows_window window qs Z" "\<forall>q \<in> set qs. L_now (Q_env q) < t" "in_era (t - window k)"
  shows "window_members t (window k) (zmembers t Z (rate_key k)) = scored (filter (\<lambda>x. \<not> expired t (window k) x) (counted k qs) @ [t])"
proof -
  have "t \<notin> set (counted k qs)" using assms(2) by (auto simp: counted_def)
  then have "filter (\<lambda>(m, s). m \<noteq> t) (scored (filter (\<lambda>x. \<not> expired t (window k) x) (counted k qs))) = scored (filter (\<lambda>x. \<not> expired t (window k) x) (counted k qs))"
    by (intro filter_True) auto
  then show ?thesis using assms(1) [unfolded shows_window_def, rule_format, OF assms(2) [rule_format] assms(3)]
    by (simp add: window_members_def Let_def)
qed

lemma shows_window_step:
  assumes "shows_window window qs Z" "orderly window (qs @ [q])" "whole_windows window"
  shows "shows_window window (qs @ [q]) (snd (checkLimitWithWindow (Q_env q) (Q_key q) (Q_limit q) (window (Q_key q)) Z))"
  unfolding shows_window_def
proof (intro allI impI)
  fix k t assume t: "\<forall>q \<in> set (qs @ [q]). L_now (Q_env q) < t" and e: "in_era (t - window k)"
  let ?t0 = "L_now (Q_env q)" and ?w = "window k"
  let ?Z' = "snd (checkLimitWithWindow (Q_env q) (Q_key q) (Q_limit q) (window (Q_key q)) Z)"
  have old: "filter (\<lambda>(m, s). \<not> fle s (of_int64 (t - ?w))) (zmembers t Z (rate_key k)) = scored (filter (\<lambda>x. \<not> expired t ?w x) (counted k qs))"
    using assms(1) [unfolded shows_window_def, rule_format, of t k] t e by simp
  show "filter (\<lambda>(m, s). \<not> fle s (of_int64 (t - ?w))) (zmembers t ?Z' (rate_key k)) = scored (filter (\<lambda>x. \<not> expired t ?w x) (counted k (qs @ [q])))"
  proof (cases "Q_key q = k \<and> (L_down (Q_env q) = None \<or> L_applied (Q_env q))")
    case False
    then have "zmembers t ?Z' (rate_key k) = zmembers t Z (rate_key k)"
      by (auto simp: snd_checkLimit window_update_def zmembers_def Let_def)
    then show ?thesis using old False by (simp add: counted_snoc)
  next
    case True
    have now: "\<forall>q \<in> set qs. L_now (Q_env q) < ?t0" using assms(2) by (auto simp: orderly_def sorted_wrt_append)
    have e0: "in_era (?t0 - ?w)" "in_era ?t0" using assms(2) True by (auto simp: orderly_def)
    have era: "in_era x" if "x \<in> set (counted k qs)" for x using that assms(2) by (auto simp: orderly_def counted_def)
    have w: "?w > 0" "expire_after ?w = ?w" using assms(3) expire_whole by (auto simp: whole_windows_def)
    have t0: "?t0 < t" using t by simp
    have z: "zmembers t ?Z' (rate_key k) = (if t < ?t0 + ?w then scored (filter (\<lambda>x. \<not> expired ?t0 ?w x) (counted k qs) @ [?t0]) else [])"
      using True w window_members_shown [OF assms(1) now e0(1)] by (auto simp: snd_checkLimit window_update_def zmembers_def Let_def)
    have gone: "expired t ?w x" if "\<not> t < ?t0 + ?w" "x \<in> set (counted k qs @ [?t0])" for x
    proof (rule expired_old)
      show "in_era x" using that(2) era e0 by auto
      have "x \<le> ?t0" using that(2) now by (auto simp: counted_def)
      then show "x \<le> t - ?w" using that(1) by simp
    qed (rule e)
    have "filter (\<lambda>x. \<not> expired ?t0 ?w x \<and> \<not> expired t ?w x) (counted k qs) = filter (\<lambda>x. \<not> expired t ?w x) (counted k qs)"
      using expired_later [of ?t0 ?w _ t] era e e0 t0 by (intro filter_cong) auto
    then have live: "filter (\<lambda>x. \<not> expired t ?w x) (filter (\<lambda>x. \<not> expired ?t0 ?w x) (counted k qs) @ [?t0]) = filter (\<lambda>x. \<not> expired t ?w x) (counted k qs @ [?t0])"
      by simp
    show ?thesis
    proof (cases "t < ?t0 + ?w")
      case True
      then show ?thesis unfolding z counted_snoc using live filter_scored [of t ?w] \<open>Q_key q = k \<and> _\<close> by (simp del: filter_append filter_filter map_append)
    next
      case False
      have "filter (\<lambda>x. \<not> expired t ?w x) (counted k qs @ [?t0]) = []" using gone [OF False] by (simp add: filter_empty_conv)
      then show ?thesis unfolding z counted_snoc using False \<open>Q_key q = k \<and> _\<close> by (simp del: filter_append)
    qed
  qed
qed

lemma limit_run_shows_window:
  "orderly window qs \<Longrightarrow> whole_windows window \<Longrightarrow> shows_window window qs (limit_run window qs (\<lambda>k. None))"
proof (induction qs rule: rev_induct)
  case Nil
  then show ?case by (simp add: shows_window_def limit_run_def counted_def zmembers_def)
next
  case (snoc q qs)
  then have "shows_window window qs (limit_run window qs (\<lambda>k. None))" by (simp add: orderly_def sorted_wrt_append)
  from shows_window_step [OF this snoc.prems] show ?case by (simp add: limit_run_def)
qed

lemma length_filter_le_filter: "(\<And>x. x \<in> set xs \<Longrightarrow> P x \<Longrightarrow> Q x) \<Longrightarrow> length (filter P xs) \<le> length (filter Q xs)"
  by (induction xs) auto

text \<open>
  C17: the rate limiter enforces its window, for requests at strictly increasing times between \<open>2^60\<close> and \<open>2^61\<close> ns and windows of whole seconds. Whatever requests, for whatever keys and with whatever failures of Redis came before, a request that
  Redis answers is allowed only if fewer than the limit of the counted requests of its key came within the window (less 256 ns), and refused only if the
  limit was reached within the window. Refused requests count like allowed ones.
\<close>

theorem rate_limit_window:
  assumes "orderly window (qs @ [q])" "whole_windows window" "L_down (Q_env q) = None"
  shows "\<exists>r. fst (checkLimitWithWindow (Q_env q) (Q_key q) (Q_limit q) (window (Q_key q)) (limit_run window qs (\<lambda>k. None))) = Inr r
     \<and> (LR_allowed r \<longrightarrow> int (length (filter (\<lambda>x. L_now (Q_env q) - window (Q_key q) + 256 < x) (counted (Q_key q) qs))) < Q_limit q)
     \<and> (\<not> LR_allowed r \<longrightarrow> Q_limit q \<le> int (length (filter (\<lambda>x. L_now (Q_env q) - window (Q_key q) < x) (counted (Q_key q) qs))))"
proof -
  let ?t = "L_now (Q_env q)" and ?w = "window (Q_key q)" and ?H = "counted (Q_key q) qs"
  have "orderly window qs" using assms(1) by (simp add: orderly_def sorted_wrt_append)
  from limit_run_shows_window [OF this assms(2)] have sw: "shows_window window qs (limit_run window qs (\<lambda>k. None))" .
  have now: "\<forall>p \<in> set qs. L_now (Q_env p) < ?t" using assms(1) by (auto simp: orderly_def sorted_wrt_append)
  have e: "in_era (?t - ?w)" using assms(1) by (simp add: orderly_def)
  have era: "in_era x" if "x \<in> set ?H" for x using that assms(1) by (auto simp: orderly_def counted_def)
  let ?n = "length (filter (\<lambda>x. \<not> expired ?t ?w x) ?H)"
  have len: "length (window_members ?t ?w (zmembers ?t (limit_run window qs (\<lambda>k. None)) (rate_key (Q_key q)))) = Suc ?n"
    using window_members_shown [OF sw now e] by simp
  have lo: "length (filter (\<lambda>x. ?t - ?w + 256 < x) ?H) \<le> ?n" by (rule length_filter_le_filter) (use not_expired_recent [OF era e] in blast)
  have hi: "?n \<le> length (filter (\<lambda>x. ?t - ?w < x) ?H)" by (rule length_filter_le_filter) (use expired_old [OF era e] in force)
  have "\<exists>r. fst (checkLimitWithWindow (Q_env q) (Q_key q) (Q_limit q) ?w (limit_run window qs (\<lambda>k. None))) = Inr r \<and> LR_allowed r = (int ?n < Q_limit q)"
    using assms(3) by (simp add: checkLimitWithWindow_def sliding_window_def Let_def len)
  then show ?thesis using lo hi by force
qed

text \<open>Two requests within a minute at a limit of one, and one of another client.\<close>

definition demo_limit_env :: "int \<Rightarrow> limit_env" where
  "demo_limit_env n = \<lparr>L_now = 1700000000000000000 + n * second, L_down = None, L_applied = True, L_ttl = Inr 0\<rparr>"

definition demo_requests :: "limit_request list" where
  "demo_requests = [\<lparr>Q_env = demo_limit_env 0, Q_key = ''a'', Q_limit = 1\<rparr>, \<lparr>Q_env = demo_limit_env 1, Q_key = ''b'', Q_limit = 1\<rparr>]"

definition demo_limited :: limit_request where
  "demo_limited = \<lparr>Q_env = demo_limit_env 30, Q_key = ''a'', Q_limit = 1\<rparr>"

theorem rate_limit_window_witness:
  "\<exists>r. fst (checkLimitWithWindow (Q_env demo_limited) ''a'' 1 (60 * second) (limit_run (\<lambda>k. 60 * second) demo_requests (\<lambda>k. None))) = Inr r \<and> \<not> LR_allowed r"
proof -
  have "orderly (\<lambda>k. 60 * second) (demo_requests @ [demo_limited])"
    by (simp add: orderly_def demo_requests_def demo_limited_def demo_limit_env_def in_era_def)
  moreover have "whole_windows (\<lambda>k. 60 * second)" by (simp add: whole_windows_def)
  moreover have "L_down (Q_env demo_limited) = None" by (simp add: demo_limited_def demo_limit_env_def)
  moreover have "filter (\<lambda>x. L_now (Q_env demo_limited) - 60 * second + 256 < x) (counted (Q_key demo_limited) demo_requests) = [1700000000000000000]"
    by (simp add: demo_limited_def demo_requests_def counted_def demo_limit_env_def)
  moreover have "Q_key demo_limited = ''a''" "Q_limit demo_limited = 1" by (simp_all add: demo_limited_def)
  ultimately show ?thesis using rate_limit_window [of "\<lambda>k. 60 * second" demo_requests demo_limited] by fastforce
qed

end
