(* ===== verification/SingleFlight.thy ===== *)
theory SingleFlight
  imports SessionSafety
begin

text \<open>
  \<^verbatim>\<open>pkg/redis/lock.go\<close>: the single-flight lock of the scheduled jobs. The scripts run atomically in Redis; replicas
  acquire, renew, release and crash in any order. Tokens are 128 random bits, which is modelled by drawing tokens that were not drawn before.
\<close>

section \<open>The lock\<close>

text \<open>What one call meets: the clock, the drawn token, an error of Redis and whether the call took effect all the same.\<close>

record lock_env =
  LE_now :: time
  LE_token :: "string result"
  LE_fault :: "error option"
  LE_applied :: bool

record lock =
  LK_client :: bool
  LK_key :: string
  LK_ttl :: duration
  LK_token :: string

abbreviation DefaultLockTTL :: duration where "DefaultLockTTL \<equiv> 5 * 60 * second"

definition NewLock :: "bool \<Rightarrow> string \<Rightarrow> duration \<Rightarrow> lock" where
  "NewLock client key ttl = \<lparr>LK_client = client, LK_key = key, LK_ttl = (if ttl \<le> 0 then DefaultLockTTL else ttl), LK_token = []\<rparr>"

definition newToken :: "lock_env \<Rightarrow> string result" where
  "newToken env = wrap_err ''generating lock token'' (LE_token env)"

text \<open>\<^verbatim>\<open>renewScript\<close> and \<^verbatim>\<open>releaseScript\<close>. \<^verbatim>\<open>PEXPIRE\<close> with a time that is not positive deletes the key.\<close>

definition holds :: "time \<Rightarrow> keyspace \<Rightarrow> string \<Rightarrow> string \<Rightarrow> bool" where
  "holds t R k token = (live t R k = Some (Str token))"

definition renewScript :: "time \<Rightarrow> string \<Rightarrow> string \<Rightarrow> int \<Rightarrow> keyspace \<Rightarrow> keyspace" where
  "renewScript t k token ms R =
     (if holds t R k token then R(k := (if ms \<le> 0 then None else Some (Str token, Some (t + ms * millisecond)))) else R)"

definition releaseScript :: "time \<Rightarrow> string \<Rightarrow> string \<Rightarrow> keyspace \<Rightarrow> keyspace" where
  "releaseScript t k token R = (if holds t R k token then R(k := None) else R)"

definition took :: "lock_env \<Rightarrow> bool" where
  "took env = (LE_fault env = None \<or> LE_applied env)"

definition Lock_Acquire :: "lock_env \<Rightarrow> lock \<Rightarrow> keyspace \<Rightarrow> bool result \<times> lock \<times> keyspace" where
  "Lock_Acquire env l R =
     (if \<not> LK_client l then (Inr True, l\<lparr>LK_token := ''no-redis''\<rparr>, R)
      else case newToken env of
        Inl e \<Rightarrow> (Inl e, l, R)
      | Inr token \<Rightarrow>
          (let attempt = apply_cmd (LE_now env) (SETNX (LK_key l) token (LK_ttl l)) R;
               R' = (if took env then snd attempt else R) in
           case LE_fault env of
             Some e \<Rightarrow> (Inl (Wrap (''acquiring lock '' @ LK_key l) e), l, R')
           | None \<Rightarrow> if fst attempt = Inr (Num 1) then (Inr True, l\<lparr>LK_token := token\<rparr>, R') else (Inr False, l, R')))"

definition Lock_Release :: "lock_env \<Rightarrow> lock \<Rightarrow> keyspace \<Rightarrow> lock \<times> keyspace" where
  "Lock_Release env l R =
     (if \<not> LK_client l \<or> LK_token l = [] then (l\<lparr>LK_token := []\<rparr>, R)
      else (l\<lparr>LK_token := []\<rparr>, if took env then releaseScript (LE_now env) (LK_key l) (LK_token l) R else R))"

text \<open>One tick of the heartbeat; \<open>ttl.Milliseconds()\<close> truncates.\<close>

definition Lock_renew :: "lock_env \<Rightarrow> lock \<Rightarrow> keyspace \<Rightarrow> keyspace" where
  "Lock_renew env l R = (if took env then renewScript (LE_now env) (LK_key l) (LK_token l) (quo (LK_ttl l) millisecond) R else R)"

text \<open>The ticks of a heartbeat that runs between two points in time, one every third of the lifetime.\<close>

definition renewInterval :: "lock \<Rightarrow> duration" where
  "renewInterval l = (if quo (LK_ttl l) 3 \<le> 0 then 60 * second else quo (LK_ttl l) 3)"

text \<open>
  \<^verbatim>\<open>With\<close>: the environments of the acquisition, of the heartbeats in between and of the release. The body works
  on a state of its own.
\<close>

definition Lock_With :: "lock_env \<Rightarrow> lock_env list \<Rightarrow> lock_env \<Rightarrow> lock \<Rightarrow> ('s \<Rightarrow> unit result \<times> 's) \<Rightarrow> 's \<times> keyspace
    \<Rightarrow> (bool \<times> error option) \<times> lock \<times> 's \<times> keyspace" where
  "Lock_With env beats env' l fn = (\<lambda>(s, R).
     case Lock_Acquire env l R of
       (Inl e, l1, R1) \<Rightarrow> ((False, Some e), l1, s, R1)
     | (Inr False, l1, R1) \<Rightarrow> ((False, None), l1, s, R1)
     | (Inr True, l1, R1) \<Rightarrow>
         (case fn s of (r, s') \<Rightarrow>
            (let R2 = (if LK_client l1 then fold (\<lambda>b. Lock_renew b l1) beats R1 else R1) in
             case Lock_Release env' l1 R2 of (l2, R3) \<Rightarrow>
               ((True, case r of Inl e \<Rightarrow> Some e | Inr x \<Rightarrow> None), l2, s', R3))))"

section \<open>Replicas\<close>

text \<open>
  The replicas that run one job under the same key. \<open>F_running\<close> has the replicas inside the body with their lock and the time of the last acquisition or
  renewal that took effect; \<open>F_drawn\<close> the tokens drawn so far; \<open>F_leased\<close> the time when the free lock was last taken or its holder
  last renewed it, which an attempt that finds the lock held does not change.
\<close>

record flight =
  F_redis :: keyspace
  F_clock :: time
  F_running :: "(nat \<times> lock \<times> time) list"
  F_drawn :: "string set"
  F_leased :: time

definition flight_init :: "keyspace \<Rightarrow> time \<Rightarrow> flight" where
  "flight_init R t = \<lparr>F_redis = R, F_clock = t, F_running = [], F_drawn = {}, F_leased = t\<rparr>"

inductive flight_step :: "string \<Rightarrow> duration \<Rightarrow> flight \<Rightarrow> flight \<Rightarrow> bool" for key ttl where
  acquire: "F_clock s \<le> LE_now env \<Longrightarrow> LE_token env = Inr tok \<Longrightarrow> tok \<notin> F_drawn s \<and> tok \<noteq> [] \<Longrightarrow>
     Lock_Acquire env (NewLock True key ttl) (F_redis s) = (r, l, R') \<Longrightarrow>
     flight_step key ttl s (s\<lparr>F_redis := R', F_clock := LE_now env, F_drawn := insert tok (F_drawn s),
       F_running := (if r = Inr True then [(i, l, LE_now env)] else []) @ F_running s,
       F_leased := (if took env \<and> live (LE_now env) (F_redis s) key = None then LE_now env else F_leased s)\<rparr>)"
| renew: "F_clock s \<le> LE_now env \<Longrightarrow> F_running s = xs @ (i, l, t) # ys \<Longrightarrow>
     flight_step key ttl s (s\<lparr>F_redis := Lock_renew env l (F_redis s), F_clock := LE_now env,
       F_running := xs @ (i, l, if took env \<and> holds (LE_now env) (F_redis s) key (LK_token l) then LE_now env else t) # ys,
       F_leased := (if took env \<and> holds (LE_now env) (F_redis s) key (LK_token l) then LE_now env else F_leased s)\<rparr>)"
| finish: "F_clock s \<le> LE_now env \<Longrightarrow> F_running s = xs @ (i, l, t) # ys \<Longrightarrow>
     flight_step key ttl s (s\<lparr>F_redis := snd (Lock_Release env l (F_redis s)), F_clock := LE_now env, F_running := xs @ ys\<rparr>)"
| crash: "F_running s = xs @ (i, l, t) # ys \<Longrightarrow> flight_step key ttl s (s\<lparr>F_running := xs @ ys\<rparr>)"
| idle: "F_clock s \<le> t \<Longrightarrow> flight_step key ttl s (s\<lparr>F_clock := t\<rparr>)"

inductive flight_reach :: "string \<Rightarrow> duration \<Rightarrow> flight \<Rightarrow> bool" for key ttl where
  start: "R key = None \<Longrightarrow> flight_reach key ttl (flight_init R t)"
| step: "flight_reach key ttl s \<Longrightarrow> flight_step key ttl s s' \<Longrightarrow> flight_reach key ttl s'"

text \<open>Inside the body with a lease that has not run out.\<close>

definition leased :: "duration \<Rightarrow> time \<Rightarrow> nat \<times> lock \<times> time \<Rightarrow> bool" where
  "leased ttl clock = (\<lambda>(i, l, t). clock < t + ttl)"

text \<open>
  The invariant: running replicas have distinct tokens that were drawn; while its lease lasts the key holds the token of the replica; and the
  key expires at most a lifetime after it was last taken or renewed.
\<close>

fun lease_ok :: "string \<Rightarrow> duration \<Rightarrow> string set \<Rightarrow> time \<Rightarrow> keyspace \<Rightarrow> nat \<times> lock \<times> time \<Rightarrow> bool" where
  "lease_ok key ttl drawn clock R (i, l, t) = (LK_client l \<and> LK_key l = key \<and> LK_ttl l = ttl \<and> LK_token l \<in> drawn \<and> LK_token l \<noteq> [] \<and> t \<le> clock
     \<and> (clock < t + ttl \<longrightarrow> (\<exists>x. R key = Some (Str (LK_token l), Some x) \<and> t + ttl \<le> x)))"

definition key_ok :: "string \<Rightarrow> duration \<Rightarrow> string set \<Rightarrow> time \<Rightarrow> keyspace \<Rightarrow> bool" where
  "key_ok key ttl drawn taken R = (case R key of None \<Rightarrow> True | Some (v, x) \<Rightarrow> (\<exists>tok \<in> drawn. \<exists>e \<le> taken + ttl. v = Str tok \<and> x = Some e))"

abbreviation tokens :: "(nat \<times> lock \<times> time) list \<Rightarrow> string list" where
  "tokens es \<equiv> map (\<lambda>(i, l, t). LK_token l) es"

definition flight_inv :: "string \<Rightarrow> duration \<Rightarrow> flight \<Rightarrow> bool" where
  "flight_inv key ttl s = (distinct (tokens (F_running s)) \<and> (\<forall>e \<in> set (F_running s). lease_ok key ttl (F_drawn s) (F_clock s) (F_redis s) e)
     \<and> key_ok key ttl (F_drawn s) (F_leased s) (F_redis s))"

definition whole_ttl :: "duration \<Rightarrow> bool" where
  "whole_ttl ttl = (ttl > 0 \<and> millisecond dvd ttl)"

lemma whole_ttl_simps:
  assumes "whole_ttl ttl"
  shows "ttl > 0" "lifetime ttl = ttl" "quo ttl millisecond * millisecond = ttl" "quo ttl millisecond > 0"
proof -
  obtain n where n: "ttl = millisecond * n" "n > 0" using assms by (auto simp: whole_ttl_def zero_less_mult_iff)
  show "ttl > 0" "lifetime ttl = ttl" "quo ttl millisecond * millisecond = ttl" "quo ttl millisecond > 0"
    using n by (auto simp: lifetime_def quo_def sgn_if)
qed

lemma leased_holds:
  "lease_ok key ttl D c R (i, l, t) \<Longrightarrow> c \<le> now' \<Longrightarrow> now' < t + ttl \<Longrightarrow> holds now' R key (LK_token l)"
  by (auto simp: holds_def live_def)

lemma lease_ok_later: "lease_ok key ttl D c R e \<Longrightarrow> c \<le> c' \<Longrightarrow> D \<subseteq> D' \<Longrightarrow> lease_ok key ttl D' c' R e"
  by (cases e) auto

lemma key_ok_later: "key_ok key ttl D c R \<Longrightarrow> D \<subseteq> D' \<Longrightarrow> key_ok key ttl D' c R"
  by (fastforce simp: key_ok_def split: option.splits prod.splits)

text \<open>A write under the key touches no lease when no replica but the writer has one.\<close>

lemma lease_ok_other:
  assumes "lease_ok key ttl D c R (i, l, t)" "c \<le> c'" "D \<subseteq> D'" "\<not> holds c' R key (LK_token l)"
  shows "lease_ok key ttl D' c' R' (i, l, t)"
  using assms leased_holds [OF assms(1,2)] by auto

lemma holds_same: "holds t R k a \<Longrightarrow> holds t R k b \<Longrightarrow> a = b"
  by (simp add: holds_def)

lemma tokens_differ:
  assumes "distinct (tokens es)" "es = xs @ (i, l, t) # ys" "(j, l', t') \<in> set (xs @ ys)"
  shows "LK_token l' \<noteq> LK_token l"
  using assms by (auto simp: image_iff)

lemma acquire_cases:
  assumes "Lock_Acquire env (NewLock True key ttl) R = (r, l, R')" "LE_token env = Inr tok" "whole_ttl ttl"
  obtains (taken) "took env" "live (LE_now env) R key = None" "R' = R(key := Some (Str tok, Some (LE_now env + ttl)))"
      "r = Inr True \<Longrightarrow> l = \<lparr>LK_client = True, LK_key = key, LK_ttl = ttl, LK_token = tok\<rparr>"
    | (not) "\<not> (took env \<and> live (LE_now env) R key = None)" "R' = R" "r \<noteq> Inr True"
  using assms whole_ttl_simps [OF assms(3)]
  by (auto simp: Lock_Acquire_def NewLock_def newToken_def Let_def took_def put_def set_deadline_def split: if_splits option.splits)

lemma flight_inv_step:
  assumes "flight_inv key ttl s" "flight_step key ttl s s'" "whole_ttl ttl"
  shows "flight_inv key ttl s'"
proof -
  note w = whole_ttl_simps [OF assms(3)]
  have dist: "distinct (tokens (F_running s))" and leases: "\<And>e. e \<in> set (F_running s) \<Longrightarrow> lease_ok key ttl (F_drawn s) (F_clock s) (F_redis s) e"
    and kok: "key_ok key ttl (F_drawn s) (F_leased s) (F_redis s)" using assms(1) by (auto simp: flight_inv_def)
  show ?thesis using assms(2)
  proof (cases rule: flight_step.cases)
    case (acquire env tok r l R' i)
    let ?D = "insert tok (F_drawn s)"
    have fresh: "tok \<notin> set (tokens (F_running s))" using leases acquire(4) by force
    show ?thesis
    proof (rule acquire_cases [OF acquire(5,3) assms(3)])
      assume eff: "took env" and t: "live (LE_now env) (F_redis s) key = None" "R' = (F_redis s)(key := Some (Str tok, Some (LE_now env + ttl)))"
        "r = Inr True \<Longrightarrow> l = \<lparr>LK_client = True, LK_key = key, LK_ttl = ttl, LK_token = tok\<rparr>"
      have "lease_ok key ttl ?D (LE_now env) R' e" if "e \<in> set (F_running s)" for e
      proof (cases e)
        case (fields j l' t')
        then show ?thesis using lease_ok_other [OF leases [OF that, unfolded fields] acquire(2), of ?D R'] t(1) by (auto simp: holds_def)
      qed
      moreover have "key_ok key ttl ?D (LE_now env) R'" by (simp add: key_ok_def t(2))
      ultimately show ?thesis using acquire(1,4) dist fresh eff t(1,3) w(1) by (auto simp: flight_inv_def t(2))
    next
      assume "\<not> (took env \<and> live (LE_now env) (F_redis s) key = None)" "R' = F_redis s" "r \<noteq> Inr True"
      then show ?thesis using acquire(1) dist lease_ok_later [OF leases acquire(2), of _ ?D] key_ok_later [OF kok, of ?D]
        by (auto simp: flight_inv_def)
    qed
  next
    case (renew env xs i l t ys)
    have l: "lease_ok key ttl (F_drawn s) (F_clock s) (F_redis s) (i, l, t)" by (rule leases) (simp add: renew(3))
    show ?thesis
    proof (cases "took env \<and> holds (LE_now env) (F_redis s) key (LK_token l)")
      case True
      let ?R = "(F_redis s)(key := Some (Str (LK_token l), Some (LE_now env + ttl)))"
      have R: "Lock_renew env l (F_redis s) = ?R" using True l w by (simp add: Lock_renew_def renewScript_def)
      have "lease_ok key ttl (F_drawn s) (LE_now env) ?R e" if "e \<in> set (xs @ ys)" for e
      proof (cases e)
        case (fields j l' t')
        have "LK_token l' \<noteq> LK_token l" by (rule tokens_differ [OF dist renew(3) that [unfolded fields]])
        then have "\<not> holds (LE_now env) (F_redis s) key (LK_token l')" using holds_same [OF conjunct2 [OF True]] by metis
        moreover have "lease_ok key ttl (F_drawn s) (F_clock s) (F_redis s) (j, l', t')" by (rule leases) (use that fields renew(3) in auto)
        ultimately show ?thesis unfolding fields by (intro lease_ok_other [OF _ renew(2) subset_refl])
      qed
      moreover have "lease_ok key ttl (F_drawn s) (LE_now env) ?R (i, l, LE_now env)" using l by simp
      moreover have "key_ok key ttl (F_drawn s) (LE_now env) ?R" using l by (simp add: key_ok_def)
      ultimately show ?thesis using renew(1,3) dist True by (auto simp: flight_inv_def R)
    next
      case False
      then have R: "Lock_renew env l (F_redis s) = F_redis s" using l by (auto simp: Lock_renew_def renewScript_def)
      then show ?thesis using renew(1,3) False dist lease_ok_later [OF leases renew(2) subset_refl] key_ok_later [OF kok subset_refl]
        by (auto simp: flight_inv_def)
    qed
  next
    case (finish env xs i l t ys)
    let ?R = "snd (Lock_Release env l (F_redis s))"
    have l: "lease_ok key ttl (F_drawn s) (F_clock s) (F_redis s) (i, l, t)" by (rule leases) (simp add: finish(3))
    have R: "?R = F_redis s \<or> holds (LE_now env) (F_redis s) key (LK_token l) \<and> ?R = (F_redis s)(key := None)"
      using l by (auto simp: Lock_Release_def releaseScript_def)
    have "lease_ok key ttl (F_drawn s) (LE_now env) ?R e" if "e \<in> set (xs @ ys)" for e
    proof (cases e)
      case (fields j l' t')
      have ne: "LK_token l' \<noteq> LK_token l" by (rule tokens_differ [OF dist finish(3) that [unfolded fields]])
      have le: "lease_ok key ttl (F_drawn s) (F_clock s) (F_redis s) e" by (rule leases) (use that finish(3) in auto)
      from R show ?thesis
      proof
        assume "?R = F_redis s"
        then show ?thesis using lease_ok_later [OF le finish(2) subset_refl] by simp
      next
        assume "holds (LE_now env) (F_redis s) key (LK_token l) \<and> ?R = (F_redis s)(key := None)"
        then have "\<not> holds (LE_now env) (F_redis s) key (LK_token l')" using holds_same ne by metis
        then show ?thesis unfolding fields by (intro lease_ok_other [OF le [unfolded fields] finish(2) subset_refl])
      qed
    qed
    moreover have "key_ok key ttl (F_drawn s) (F_leased s) ?R"
      using R kok by (auto simp: key_ok_def)
    ultimately show ?thesis using finish(1,3) dist by (auto simp: flight_inv_def)
  next
    case (crash xs i l t ys)
    then show ?thesis using dist leases kok by (auto simp: flight_inv_def)
  next
    case (idle t)
    then show ?thesis using dist lease_ok_later [OF leases _ subset_refl] kok by (auto simp: flight_inv_def)
  qed
qed

lemma flight_reach_inv: "flight_reach key ttl s \<Longrightarrow> whole_ttl ttl \<Longrightarrow> flight_inv key ttl s"
proof (induction rule: flight_reach.induct)
  case (start R t)
  then show ?case by (simp add: flight_inv_def flight_init_def key_ok_def)
qed (rule flight_inv_step)

lemma free_lock_acquired:
  "live (LE_now env) R key = None \<Longrightarrow> whole_ttl ttl \<Longrightarrow> LE_token env = Inr tok \<Longrightarrow> LE_fault env = None \<Longrightarrow>
   fst (Lock_Acquire env (NewLock True key ttl) R) = Inr True"
  using whole_ttl_simps [of ttl] by (simp add: Lock_Acquire_def newToken_def NewLock_def Let_def)

text \<open>
  C18: the lock excludes and recovers, for replicas with a Redis client and a lifetime of whole milliseconds. Whatever replicas acquire, renew, release and
  crash, with whatever failures of Redis: two replicas are inside the job at once only if the lease of one of them ran out without a renewal; while the lease of
  a replica inside the job lasts, the key has its token; once a lifetime has passed since the lock was last taken while free or renewed by its
  holder, however many other attempts there were in between, the next attempt that Redis answers succeeds; and so does the
  next attempt after a release that took effect while the lease lasted.
\<close>

theorem lock_excludes_and_recovers:
  assumes "flight_reach key ttl s" "whole_ttl ttl"
  shows "(\<forall>i < length (F_running s). \<forall>j < length (F_running s).
       leased ttl (F_clock s) (F_running s ! i) \<longrightarrow> leased ttl (F_clock s) (F_running s ! j) \<longrightarrow> i = j)
     \<and> (\<forall>e \<in> set (F_running s). leased ttl (F_clock s) e \<longrightarrow> holds (F_clock s) (F_redis s) key (LK_token (fst (snd e))))
     \<and> (\<forall>env tok. F_leased s + ttl \<le> LE_now env \<longrightarrow> LE_token env = Inr tok \<longrightarrow> LE_fault env = None \<longrightarrow>
          fst (Lock_Acquire env (NewLock True key ttl) (F_redis s)) = Inr True)
     \<and> (\<forall>e \<in> set (F_running s). \<forall>env env' tok. F_clock s \<le> LE_now env \<longrightarrow> leased ttl (LE_now env) e \<longrightarrow> took env \<longrightarrow>
          LE_token env' = Inr tok \<longrightarrow> LE_fault env' = None \<longrightarrow>
          fst (Lock_Acquire env' (NewLock True key ttl) (snd (Lock_Release env (fst (snd e)) (F_redis s)))) = Inr True)"
proof (intro conjI allI impI ballI)
  have inv: "flight_inv key ttl s" by (rule flight_reach_inv [OF assms])
  have h: "holds (F_clock s) (F_redis s) key (LK_token (fst (snd e)))" if "e \<in> set (F_running s)" "leased ttl (F_clock s) e" for e
    using inv that leased_holds [of key ttl "F_drawn s" "F_clock s" "F_redis s" "fst e" "fst (snd e)" "snd (snd e)" "F_clock s"]
    by (auto simp: flight_inv_def leased_def)
  then show "holds (F_clock s) (F_redis s) key (LK_token (fst (snd e)))" if "e \<in> set (F_running s)" "leased ttl (F_clock s) e" for e
    using that by blast
  fix i j
  assume ij: "i < length (F_running s)" "j < length (F_running s)" "leased ttl (F_clock s) (F_running s ! i)" "leased ttl (F_clock s) (F_running s ! j)"
  then have "tokens (F_running s) ! i = tokens (F_running s) ! j"
    using holds_same [OF h h] by (simp add: case_prod_unfold)
  then show "i = j" using inv ij(1,2) nth_eq_iff_index_eq [of "tokens (F_running s)" i j] by (simp add: flight_inv_def)
next
  fix env :: lock_env and tok
  assume e: "F_leased s + ttl \<le> LE_now env" "LE_token env = Inr tok" "LE_fault env = None"
  have "live (LE_now env) (F_redis s) key = None"
    using flight_reach_inv [OF assms] e(1) by (auto simp: flight_inv_def key_ok_def live_def split: option.splits)
  then show "fst (Lock_Acquire env (NewLock True key ttl) (F_redis s)) = Inr True" using free_lock_acquired assms(2) e by blast
next
  fix e and env env' :: lock_env and tok
  assume e: "e \<in> set (F_running s)" "F_clock s \<le> LE_now env" "leased ttl (LE_now env) e" "took env" "LE_token env' = Inr tok" "LE_fault env' = None"
  obtain i l t where x: "e = (i, l, t)" by (cases e)
  have ok: "lease_ok key ttl (F_drawn s) (F_clock s) (F_redis s) (i, l, t)"
    using flight_reach_inv [OF assms] e(1) unfolding flight_inv_def x by blast
  then have "snd (Lock_Release env l (F_redis s)) key = None"
    using leased_holds [OF ok e(2)] e(3,4) by (auto simp: Lock_Release_def releaseScript_def leased_def x)
  then have "live (LE_now env') (snd (Lock_Release env l (F_redis s))) key = None" by (simp add: live_def)
  then show "fst (Lock_Acquire env' (NewLock True key ttl) (snd (Lock_Release env (fst (snd e)) (F_redis s)))) = Inr True"
    using free_lock_acquired assms(2) e(5,6) unfolding x by simp
qed

text \<open>The first replica acquires the lock at the start; it is held, and free again a lifetime later.\<close>

definition demo_lock_env :: "time \<Rightarrow> string \<Rightarrow> lock_env" where
  "demo_lock_env t tok = \<lparr>LE_now = t, LE_token = Inr tok, LE_fault = None, LE_applied = True\<rparr>"

definition demo_lock :: lock where
  "demo_lock = \<lparr>LK_client = True, LK_key = ''lock:swap-sweep'', LK_ttl = DefaultLockTTL, LK_token = ''aa''\<rparr>"

definition demo_flight :: flight where
  "demo_flight = \<lparr>F_redis = (\<lambda>k. None)(''lock:swap-sweep'' := Some (Str ''aa'', Some (5 + DefaultLockTTL))), F_clock = 5,
     F_running = [(1, demo_lock, 5)], F_drawn = {''aa''}, F_leased = 5\<rparr>"

lemma demo_flight_reach: "flight_reach ''lock:swap-sweep'' DefaultLockTTL demo_flight"
proof -
  have a: "Lock_Acquire (demo_lock_env 5 ''aa'') (NewLock True ''lock:swap-sweep'' DefaultLockTTL) (\<lambda>k. None)
      = (Inr True, demo_lock, (\<lambda>k. None)(''lock:swap-sweep'' := Some (Str ''aa'', Some (5 + DefaultLockTTL))))"
    by (simp add: Lock_Acquire_def NewLock_def newToken_def demo_lock_env_def demo_lock_def took_def live_def put_def set_deadline_def lifetime_def)
  have "flight_step ''lock:swap-sweep'' DefaultLockTTL (flight_init (\<lambda>k. None) 0) demo_flight"
    using flight_step.acquire [of "flight_init (\<lambda>k. None) 0" "demo_lock_env 5 ''aa''" "''aa''" "''lock:swap-sweep''" DefaultLockTTL _ _ _ 1] a
    by (simp add: flight_init_def demo_flight_def demo_lock_env_def took_def live_def)
  then show ?thesis using flight_reach.start [of "\<lambda>k. None" "''lock:swap-sweep''" DefaultLockTTL 0] flight_reach.step by blast
qed

theorem lock_excludes_and_recovers_witness:
  "holds 5 (F_redis demo_flight) ''lock:swap-sweep'' ''aa''
   \<and> fst (Lock_Acquire (demo_lock_env (5 + DefaultLockTTL) ''bb'') (NewLock True ''lock:swap-sweep'' DefaultLockTTL) (F_redis demo_flight)) = Inr True"
proof -
  have w: "whole_ttl DefaultLockTTL" by (simp add: whole_ttl_def)
  note l = lock_excludes_and_recovers [OF demo_flight_reach w]
  have "holds 5 (F_redis demo_flight) ''lock:swap-sweep'' ''aa''"
    using l [THEN conjunct2, THEN conjunct1] by (simp add: demo_flight_def leased_def demo_lock_def)
  moreover have "fst (Lock_Acquire (demo_lock_env (5 + DefaultLockTTL) ''bb'') (NewLock True ''lock:swap-sweep'' DefaultLockTTL) (F_redis demo_flight)) = Inr True"
    by (rule l [THEN conjunct2, THEN conjunct2, THEN conjunct1, rule_format]) (simp_all add: demo_flight_def demo_lock_env_def)
  ultimately show ?thesis by blast
qed

end
