(* ===== verification/Swap.thy ===== *)
theory Swap
  imports Users SingleFlight
begin

text \<open>
  \<^verbatim>\<open>internal/domain/swap\<close>: offers to swap assets through an escrow contract, their acceptance, cancellation and the sweep of
  expired offers. The world has the table \<^verbatim>\<open>swap_offers\<close> and the calls that the escrow contract has answered with a transaction hash and no error. The contract itself
  is a parameter: any call may succeed or fail.

  The operations are first given as the code has them, running without interruption. The second part cuts them at their statements and
  lets any number of them interleave, fail and crash.
\<close>

section \<open>Model\<close>

datatype SwapOfferStatus =
    SwapOfferStatusCreated | SwapOfferStatusAccepted | SwapOfferStatusCompleted | SwapOfferStatusCancelled
  | SwapOfferStatusExpired | SwapOfferStatusSweeping

record SwapOffer =
  S_ID :: string
  S_CircleID :: string
  S_OfferorUserID :: string
  S_OffereeUserID :: "string option"
  S_OfferorAsset :: string
  S_OfferorAmount :: int
  S_RequestedAsset :: string
  S_RequestedAmount :: int
  S_Status :: SwapOfferStatus
  S_TransactionHash :: "string option"
  S_ExpiresAt :: time
  S_CreatedAt :: time
  S_UpdatedAt :: time

record SwapOfferRequest =
  SR_CircleID :: string
  SR_OffereeUserID :: "string option"
  SR_OfferorAsset :: string
  SR_OfferorAmount :: int
  SR_RequestedAsset :: string
  SR_RequestedAmount :: int
  SR_ExpiresIn :: int

record SwapHistoryFilter =
  SF_Limit :: int
  SF_Offset :: int

datatype escrow_call =
    EscrowCreated string string string string int string int int
  | EscrowAccepted string string
  | EscrowCancelled string string

record swap_world =
  W_offers :: "SwapOffer list"
  W_escrow :: "escrow_call list"

datatype swap_stmt =
    SQ_Insert string | SQ_Get string | SQ_Update string SwapOfferStatus | SQ_CAS string SwapOfferStatus SwapOfferStatus
  | SQ_CountUser string | SQ_ListUser string | SQ_CountCircle string | SQ_ListCircle string
  | SQ_ListExpired | SQ_Claim string | SQ_Release string | SQ_Finalize string

text \<open>\<open>swap_row_error\<close> is the constraint of the table that a new row violates besides its key: foreign keys and positive amounts.\<close>

record swap_env = "swap_stmt env" +
  SE_user :: "string \<Rightarrow> user result"
  SE_CreateSwap :: "escrow_call \<Rightarrow> string result"
  SE_AcceptSwap :: "string \<Rightarrow> string \<Rightarrow> string result"
  SE_CancelSwap :: "string \<Rightarrow> string \<Rightarrow> string result"
  swap_row_error :: "SwapOffer \<Rightarrow> error option"

section \<open>Repository\<close>

definition Swap_insert :: "swap_env \<Rightarrow> SwapOffer \<Rightarrow> swap_world \<Rightarrow> unit result \<times> swap_world" where
  "Swap_insert env offer =
     exec_stmt env (SQ_Insert (S_ID offer))
       (\<lambda>w. if \<exists>r \<in> set (W_offers w). S_ID r = S_ID offer then Some unique_violation else swap_row_error env offer)
       (\<lambda>w. w\<lparr>W_offers := W_offers w @ [offer\<lparr>S_TransactionHash := None\<rparr>]\<rparr>)"

definition GetSwapOfferByID :: "swap_env \<Rightarrow> string \<Rightarrow> swap_world \<Rightarrow> SwapOffer result" where
  "GetSwapOfferByID env i w =
     (case run_query env (SQ_Get i) (List.find (\<lambda>r. S_ID r = i) (W_offers w)) of
        Inl e \<Rightarrow> if errors_Is e Sql_ErrNoRows then Inl (Sentinel App_ErrNotFound) else Inl e
      | Inr None \<Rightarrow> Inl (Sentinel App_ErrNotFound)
      | Inr (Some offer) \<Rightarrow> Inr offer)"

text \<open>An update with its number of rows.\<close>

definition update_offers :: "swap_env \<Rightarrow> swap_stmt \<Rightarrow> (SwapOffer \<Rightarrow> bool) \<Rightarrow> (SwapOffer \<Rightarrow> SwapOffer) \<Rightarrow> swap_world \<Rightarrow> nat result \<times> swap_world" where
  "update_offers env q p f w =
     (case fault env q of
        Some e \<Rightarrow> (Inl e, w)
      | None \<Rightarrow> (Inr (rows_affected p (W_offers w)), w\<lparr>W_offers := update_where p f (W_offers w)\<rparr>))"

definition need_row :: "nat result \<times> swap_world \<Rightarrow> unit result \<times> swap_world" where
  "need_row c = perform c (\<lambda>rows w. if rows = 0 then (Inl (Sentinel App_ErrNotFound), w) else (Inr (), w))"

definition some_row :: "nat result \<times> swap_world \<Rightarrow> bool result \<times> swap_world" where
  "some_row c = perform c (\<lambda>rows w. (Inr (rows > 0), w))"

definition UpdateSwapOfferStatus :: "swap_env \<Rightarrow> string \<Rightarrow> SwapOfferStatus \<Rightarrow> string option \<Rightarrow> swap_world \<Rightarrow> unit result \<times> swap_world" where
  "UpdateSwapOfferStatus env i st h w =
     need_row (update_offers env (SQ_Update i st) (\<lambda>r. S_ID r = i) (\<lambda>r. r\<lparr>S_Status := st, S_TransactionHash := h, S_UpdatedAt := now env\<rparr>) w)"

definition CompareAndSwapStatus :: "swap_env \<Rightarrow> string \<Rightarrow> SwapOfferStatus \<Rightarrow> SwapOfferStatus \<Rightarrow> string option \<Rightarrow> swap_world \<Rightarrow> bool result \<times> swap_world" where
  "CompareAndSwapStatus env i expected st h w =
     some_row (update_offers env (SQ_CAS i expected st) (\<lambda>r. S_ID r = i \<and> S_Status r = expected)
       (\<lambda>r. r\<lparr>S_Status := st, S_TransactionHash := h, S_UpdatedAt := now env\<rparr>) w)"

definition swap_page :: "SwapHistoryFilter \<Rightarrow> SwapOffer list \<Rightarrow> SwapOffer list result" where
  "swap_page f rows =
     (if SF_Offset f < 0 then Inl (Driver ''pq: OFFSET must not be negative'')
      else Inr (take (nat (if SF_Limit f \<le> 0 then 20 else SF_Limit f)) (drop (nat (SF_Offset f)) (sort_key (\<lambda>r. - S_CreatedAt r) rows))))"

definition list_offers :: "swap_env \<Rightarrow> swap_stmt \<Rightarrow> swap_stmt \<Rightarrow> (SwapOffer \<Rightarrow> bool) \<Rightarrow> SwapHistoryFilter \<Rightarrow> swap_world \<Rightarrow> (SwapOffer list \<times> nat) result" where
  "list_offers env qc ql p f w =
     (let rows = filter p (W_offers w) in
      case run_query env qc (length rows) of
        Inl e \<Rightarrow> Inl e
      | Inr n \<Rightarrow> (case run_query env ql (swap_page f rows) of
                        Inl e \<Rightarrow> Inl e | Inr (Inl e) \<Rightarrow> Inl e | Inr (Inr page) \<Rightarrow> Inr (page, n)))"

definition ListUserSwapOffers :: "swap_env \<Rightarrow> string \<Rightarrow> SwapHistoryFilter \<Rightarrow> swap_world \<Rightarrow> (SwapOffer list \<times> nat) result" where
  "ListUserSwapOffers env u = list_offers env (SQ_CountUser u) (SQ_ListUser u) (\<lambda>r. S_OfferorUserID r = u \<or> S_OffereeUserID r = Some u)"

definition ListCircleSwapOffers :: "swap_env \<Rightarrow> string \<Rightarrow> SwapHistoryFilter \<Rightarrow> swap_world \<Rightarrow> (SwapOffer list \<times> nat) result" where
  "ListCircleSwapOffers env c = list_offers env (SQ_CountCircle c) (SQ_ListCircle c) (\<lambda>r. S_CircleID r = c)"

definition ListExpiredCreatedOffers :: "swap_env \<Rightarrow> swap_world \<Rightarrow> SwapOffer list result" where
  "ListExpiredCreatedOffers env w =
     run_query env SQ_ListExpired (filter (\<lambda>r. S_Status r = SwapOfferStatusCreated \<and> S_ExpiresAt r \<le> now env) (W_offers w))"

definition ClaimOfferForSweep :: "swap_env \<Rightarrow> string \<Rightarrow> swap_world \<Rightarrow> bool result \<times> swap_world" where
  "ClaimOfferForSweep env i w =
     some_row (update_offers env (SQ_Claim i) (\<lambda>r. S_ID r = i \<and> S_Status r = SwapOfferStatusCreated \<and> S_ExpiresAt r \<le> now env)
       (\<lambda>r. r\<lparr>S_Status := SwapOfferStatusSweeping, S_UpdatedAt := now env\<rparr>) w)"

definition ReleaseSweepClaim :: "swap_env \<Rightarrow> string \<Rightarrow> swap_world \<Rightarrow> unit result \<times> swap_world" where
  "ReleaseSweepClaim env i w =
     perform (update_offers env (SQ_Release i) (\<lambda>r. S_ID r = i \<and> S_Status r = SwapOfferStatusSweeping)
       (\<lambda>r. r\<lparr>S_Status := SwapOfferStatusCreated, S_UpdatedAt := now env\<rparr>) w) (\<lambda>rows w. (Inr (), w))"

definition FinalizeSweep :: "swap_env \<Rightarrow> string \<Rightarrow> string option \<Rightarrow> swap_world \<Rightarrow> unit result \<times> swap_world" where
  "FinalizeSweep env i h w =
     need_row (update_offers env (SQ_Finalize i) (\<lambda>r. S_ID r = i \<and> S_Status r = SwapOfferStatusSweeping)
       (\<lambda>r. r\<lparr>S_Status := SwapOfferStatusExpired, S_TransactionHash := h, S_UpdatedAt := now env\<rparr>) w)"

section \<open>Escrow\<close>

text \<open>
  A call of the contract that answers with a hash and without an error is recorded. A call that took effect on the chain although it was answered with an error (the
  transaction was submitted, its result could not be read) is not: the service treats it like one that did not take effect, and so does the record.
\<close>

definition escrow :: "escrow_call \<Rightarrow> string result \<Rightarrow> swap_world \<Rightarrow> string result \<times> swap_world" where
  "escrow c r w = (r, case r of Inl e \<Rightarrow> w | Inr h \<Rightarrow> w\<lparr>W_escrow := c # W_escrow w\<rparr>)"

section \<open>Service\<close>

definition expires_at :: "swap_env \<Rightarrow> int \<Rightarrow> time" where
  "expires_at env hours = now env + sint (word_of_int (hours * (3600 * second)) :: int64)"

definition offeree_wallet :: "swap_env \<Rightarrow> string option \<Rightarrow> string result" where
  "offeree_wallet env offeree =
     (case offeree of
        None \<Rightarrow> Inr []
      | Some u \<Rightarrow> (case SE_user env u of Inl e \<Rightarrow> Inl (Sentinel App_ErrNotFound) | Inr x \<Rightarrow> Inr (U_WalletAddress x)))"

definition new_offer :: "swap_env \<Rightarrow> string \<Rightarrow> SwapOfferRequest \<Rightarrow> SwapOffer" where
  "new_offer env u input =
     \<lparr>S_ID = uuid_String env (uuid_New env 0), S_CircleID = SR_CircleID input, S_OfferorUserID = u, S_OffereeUserID = SR_OffereeUserID input,
      S_OfferorAsset = SR_OfferorAsset input, S_OfferorAmount = SR_OfferorAmount input, S_RequestedAsset = SR_RequestedAsset input,
      S_RequestedAmount = SR_RequestedAmount input, S_Status = SwapOfferStatusCreated, S_TransactionHash = None,
      S_ExpiresAt = expires_at env (SR_ExpiresIn input), S_CreatedAt = now env, S_UpdatedAt = now env\<rparr>"

definition CreateSwapOffer :: "swap_env \<Rightarrow> string \<Rightarrow> SwapOfferRequest \<Rightarrow> swap_world \<Rightarrow> SwapOffer result \<times> swap_world" where
  "CreateSwapOffer env u input w =
     (case SE_user env u of
        Inl e \<Rightarrow> (Inl (Sentinel App_ErrNotFound), w)
      | Inr x \<Rightarrow>
     guard (unix (expires_at env (SR_ExpiresIn input)) < 0) (Errorf ''swap expiry cannot be before the Unix epoch'') w (
     attempt (offeree_wallet env (SR_OffereeUserID input)) w (\<lambda>offeree.
     let call = EscrowCreated (SR_CircleID input) (U_WalletAddress x) offeree (SR_OfferorAsset input) (SR_OfferorAmount input)
                  (SR_RequestedAsset input) (SR_RequestedAmount input) (unix (expires_at env (SR_ExpiresIn input))) in
     perform (wrap_call ''failed to create escrow swap'' (escrow call (SE_CreateSwap env call) w)) (\<lambda>swap_id w.
     perform (Swap_insert env (new_offer env u input) w) (\<lambda>_ w.
     (Inr (new_offer env u input), w))))))"

definition accept_checks :: "swap_env \<Rightarrow> string \<Rightarrow> string \<Rightarrow> swap_world \<Rightarrow> (SwapOffer \<times> string) result" where
  "accept_checks env u i w =
     (case GetSwapOfferByID env i w of
        Inl e \<Rightarrow> Inl e
      | Inr offer \<Rightarrow>
          if S_Status offer \<noteq> SwapOfferStatusCreated then Inl (Sentinel App_ErrConflict)
          else if S_ExpiresAt offer < now env then Inl (Sentinel App_ErrInvalidInput)
          else if S_OffereeUserID offer \<noteq> None \<and> S_OffereeUserID offer \<noteq> Some u then Inl (Sentinel App_ErrForbidden)
          else (case SE_user env u of Inl e \<Rightarrow> Inl (Sentinel App_ErrNotFound) | Inr x \<Rightarrow> Inr (offer, U_WalletAddress x)))"

definition AcceptSwapOffer :: "swap_env \<Rightarrow> string \<Rightarrow> string \<Rightarrow> swap_world \<Rightarrow> SwapOffer result \<times> swap_world" where
  "AcceptSwapOffer env u i w =
     attempt (accept_checks env u i w) w (\<lambda>(offer, wallet).
     perform (CompareAndSwapStatus env i SwapOfferStatusCreated SwapOfferStatusAccepted None w) (\<lambda>swapped w.
     guard (\<not> swapped) (Sentinel App_ErrConflict) w (
     case escrow (EscrowAccepted i wallet) (SE_AcceptSwap env i wallet) w of
       (Inl e, w) \<Rightarrow> (Inl (Wrap ''failed to accept swap on-chain'' e), snd (CompareAndSwapStatus env i SwapOfferStatusAccepted SwapOfferStatusCreated None w))
     | (Inr h, w) \<Rightarrow> (Inr (offer\<lparr>S_Status := SwapOfferStatusAccepted, S_TransactionHash := Some h\<rparr>),
                     snd (UpdateSwapOfferStatus env i SwapOfferStatusAccepted (Some h) w)))))"

definition cancel_checks :: "swap_env \<Rightarrow> string \<Rightarrow> string \<Rightarrow> swap_world \<Rightarrow> (SwapOffer \<times> string) result" where
  "cancel_checks env u i w =
     (case GetSwapOfferByID env i w of
        Inl e \<Rightarrow> Inl e
      | Inr offer \<Rightarrow>
          if S_Status offer \<noteq> SwapOfferStatusCreated then Inl (Sentinel App_ErrConflict)
          else if S_OfferorUserID offer \<noteq> u then Inl (Sentinel App_ErrForbidden)
          else (case SE_user env u of Inl e \<Rightarrow> Inl (Sentinel App_ErrNotFound) | Inr x \<Rightarrow> Inr (offer, U_WalletAddress x)))"

definition CancelSwapOffer :: "swap_env \<Rightarrow> string \<Rightarrow> string \<Rightarrow> swap_world \<Rightarrow> SwapOffer result \<times> swap_world" where
  "CancelSwapOffer env u i w =
     attempt (cancel_checks env u i w) w (\<lambda>(offer, wallet).
     perform (wrap_call ''failed to cancel swap on-chain'' (escrow (EscrowCancelled i wallet) (SE_CancelSwap env i wallet) w)) (\<lambda>h w.
     perform (UpdateSwapOfferStatus env i SwapOfferStatusCancelled (Some h) w) (\<lambda>_ w.
     (Inr (offer\<lparr>S_Status := SwapOfferStatusCancelled, S_TransactionHash := Some h\<rparr>), w))))"

definition GetSwapHistory :: "swap_env \<Rightarrow> string \<Rightarrow> SwapHistoryFilter \<Rightarrow> swap_world \<Rightarrow> (SwapOffer list \<times> nat) result" where
  "GetSwapHistory = ListUserSwapOffers"

definition GetCircleSwapHistory :: "swap_env \<Rightarrow> string \<Rightarrow> SwapHistoryFilter \<Rightarrow> swap_world \<Rightarrow> (SwapOffer list \<times> nat) result" where
  "GetCircleSwapHistory = ListCircleSwapOffers"

definition releaseExpiredOffer :: "swap_env \<Rightarrow> string \<Rightarrow> string \<Rightarrow> swap_world \<Rightarrow> unit result \<times> swap_world" where
  "releaseExpiredOffer env i offeror w =
     attempt (SE_user env offeror) w (\<lambda>x.
     perform (escrow (EscrowCancelled i (U_WalletAddress x)) (SE_CancelSwap env i (U_WalletAddress x)) w) (\<lambda>h w.
     FinalizeSweep env i (Some h) w))"

fun sweep_loop :: "swap_env \<Rightarrow> SwapOffer list \<Rightarrow> nat \<Rightarrow> swap_world \<Rightarrow> nat \<times> swap_world" where
  "sweep_loop env [] swept w = (swept, w)"
| "sweep_loop env (offer # rest) swept w =
     (case ClaimOfferForSweep env (S_ID offer) w of
        (Inr True, w1) \<Rightarrow>
          (case releaseExpiredOffer env (S_ID offer) (S_OfferorUserID offer) w1 of
             (Inl e, w2) \<Rightarrow> sweep_loop env rest swept (snd (ReleaseSweepClaim env (S_ID offer) w2))
           | (Inr _, w2) \<Rightarrow> sweep_loop env rest (swept + 1) w2)
      | (_, w1) \<Rightarrow> sweep_loop env rest swept w1)"

definition SweepExpiredOffers :: "swap_env \<Rightarrow> swap_world \<Rightarrow> nat result \<times> swap_world" where
  "SweepExpiredOffers env w =
     attempt (ListExpiredCreatedOffers env w) w (\<lambda>expired. case sweep_loop env expired 0 w of (n, w') \<Rightarrow> (Inr n, w'))"

section \<open>The sweeper\<close>

abbreviation SweepLockKey :: string where "SweepLockKey \<equiv> ''lock:swap-sweep''"
abbreviation DefaultSweepInterval :: duration where "DefaultSweepInterval \<equiv> 60 * second"

record sweeper =
  SW_interval :: duration
  SW_lock :: lock

definition NewSweeper :: "bool \<Rightarrow> duration \<Rightarrow> sweeper" where
  "NewSweeper rdb interval =
     \<lparr>SW_interval = (if interval \<le> 0 then DefaultSweepInterval else interval), SW_lock = NewLock rdb SweepLockKey DefaultLockTTL\<rparr>"

text \<open>\<^verbatim>\<open>SweepOnce\<close>: the number swept and whether the lock was held. The body carries the count out in its state.\<close>

definition SweepOnce :: "lock_env \<Rightarrow> lock_env list \<Rightarrow> lock_env \<Rightarrow> swap_env \<Rightarrow> sweeper \<Rightarrow> swap_world \<times> keyspace
    \<Rightarrow> (nat \<times> bool \<times> error option) \<times> sweeper \<times> swap_world \<times> keyspace" where
  "SweepOnce env beats env' senv sw = (\<lambda>(w, R).
     case Lock_With env beats env' (SW_lock sw)
            (\<lambda>(n, w). case SweepExpiredOffers senv w of (Inl e, w') \<Rightarrow> (Inl e, 0, w') | (Inr k, w') \<Rightarrow> (Inr (), k, w')) ((0, w), R) of
       ((held, err), l, (n, w'), R') \<Rightarrow>
         ((case err of Some e \<Rightarrow> (0, held, Some e) | None \<Rightarrow> if held then (n, True, None) else (0, False, None)),
          sw\<lparr>SW_lock := l\<rparr>, w', R'))"

section \<open>Interleaved requests\<close>

text \<open>
  Requests and sweeps in flight, between two statements or calls of the contract: checked but not yet claimed, claimed, refused by the contract, or
  answered with a hash that is not stored yet.
\<close>

datatype activity =
    AcceptChecked string string | AcceptClaimed string string | AcceptRefused string | AcceptWon string string
  | CancelChecked string string | CancelWon string string
  | SweepListed string string | SweepClaimed string string | SweepRefused string | SweepWon string string

fun advance :: "swap_env \<Rightarrow> activity \<Rightarrow> swap_world \<Rightarrow> activity option \<times> swap_world" where
  "advance env (AcceptChecked i wallet) w =
     (case CompareAndSwapStatus env i SwapOfferStatusCreated SwapOfferStatusAccepted None w of
        (Inr True, w') \<Rightarrow> (Some (AcceptClaimed i wallet), w') | (_, w') \<Rightarrow> (None, w'))"
| "advance env (AcceptClaimed i wallet) w =
     (case escrow (EscrowAccepted i wallet) (SE_AcceptSwap env i wallet) w of
        (Inl e, w') \<Rightarrow> (Some (AcceptRefused i), w') | (Inr h, w') \<Rightarrow> (Some (AcceptWon i h), w'))"
| "advance env (AcceptRefused i) w = (None, snd (CompareAndSwapStatus env i SwapOfferStatusAccepted SwapOfferStatusCreated None w))"
| "advance env (AcceptWon i h) w = (None, snd (UpdateSwapOfferStatus env i SwapOfferStatusAccepted (Some h) w))"
| "advance env (CancelChecked i wallet) w =
     (case escrow (EscrowCancelled i wallet) (SE_CancelSwap env i wallet) w of
        (Inl e, w') \<Rightarrow> (None, w') | (Inr h, w') \<Rightarrow> (Some (CancelWon i h), w'))"
| "advance env (CancelWon i h) w = (None, snd (UpdateSwapOfferStatus env i SwapOfferStatusCancelled (Some h) w))"
| "advance env (SweepListed i offeror) w =
     (case ClaimOfferForSweep env i w of (Inr True, w') \<Rightarrow> (Some (SweepClaimed i offeror), w') | (_, w') \<Rightarrow> (None, w'))"
| "advance env (SweepClaimed i offeror) w =
     (case SE_user env offeror of
        Inl e \<Rightarrow> (Some (SweepRefused i), w)
      | Inr x \<Rightarrow> (case escrow (EscrowCancelled i (U_WalletAddress x)) (SE_CancelSwap env i (U_WalletAddress x)) w of
                    (Inl e, w') \<Rightarrow> (Some (SweepRefused i), w') | (Inr h, w') \<Rightarrow> (Some (SweepWon i h), w')))"
| "advance env (SweepWon i h) w =
     (case FinalizeSweep env i (Some h) w of (Inl e, w') \<Rightarrow> (Some (SweepRefused i), w') | (Inr _, w') \<Rightarrow> (None, w'))"
| "advance env (SweepRefused i) w = (None, snd (ReleaseSweepClaim env i w))"

text \<open>Without interference the activities are the operations of the service.\<close>

definition go_on :: "swap_env \<Rightarrow> activity option \<times> swap_world \<Rightarrow> activity option \<times> swap_world" where
  "go_on env = (\<lambda>(a, w). case a of None \<Rightarrow> (None, w) | Some a \<Rightarrow> advance env a w)"

definition accept_start :: "swap_env \<Rightarrow> string \<Rightarrow> string \<Rightarrow> swap_world \<Rightarrow> activity option \<times> swap_world" where
  "accept_start env u i w = (case accept_checks env u i w of Inl e \<Rightarrow> (None, w) | Inr (offer, wallet) \<Rightarrow> (Some (AcceptChecked i wallet), w))"

definition cancel_start :: "swap_env \<Rightarrow> string \<Rightarrow> string \<Rightarrow> swap_world \<Rightarrow> activity option \<times> swap_world" where
  "cancel_start env u i w = (case cancel_checks env u i w of Inl e \<Rightarrow> (None, w) | Inr (offer, wallet) \<Rightarrow> (Some (CancelChecked i wallet), w))"

lemma go_on_simps [simp]: "go_on env (None, w) = (None, w)" "go_on env (Some a, w) = advance env a w"
  by (simp_all add: go_on_def)

lemma accept_is_sequence: "(None, snd (AcceptSwapOffer env u i w)) = go_on env (go_on env (go_on env (accept_start env u i w)))"
proof (cases "accept_checks env u i w")
  case (Inr p)
  obtain b w1 where c: "CompareAndSwapStatus env i SwapOfferStatusCreated SwapOfferStatusAccepted None w = (b, w1)" by fastforce
  show ?thesis
  proof (cases "b = Inr True")
    case False
    then show ?thesis using Inr c by (cases b) (auto simp: AcceptSwapOffer_def accept_start_def case_prod_unfold)
  next
    case True
    obtain r w2 where "escrow (EscrowAccepted i (snd p)) (SE_AcceptSwap env i (snd p)) w1 = (r, w2)" by fastforce
    then show ?thesis using Inr c True by (cases r) (auto simp: AcceptSwapOffer_def accept_start_def case_prod_unfold)
  qed
qed (simp add: AcceptSwapOffer_def accept_start_def)

lemma cancel_is_sequence: "(None, snd (CancelSwapOffer env u i w)) = go_on env (go_on env (cancel_start env u i w))"
proof (cases "cancel_checks env u i w")
  case (Inr p)
  obtain r w2 where e: "escrow (EscrowCancelled i (snd p)) (SE_CancelSwap env i (snd p)) w = (r, w2)" by fastforce
  show ?thesis
  proof (cases r)
    case (Inl y)
    then show ?thesis using Inr e by (simp add: CancelSwapOffer_def cancel_start_def case_prod_unfold)
  next
    fix h assume r: "r = Inr h"
    obtain b w1 where "UpdateSwapOfferStatus env i SwapOfferStatusCancelled (Some h) w2 = (b, w1)" by fastforce
    then show ?thesis using Inr e r by (cases b) (simp_all add: CancelSwapOffer_def cancel_start_def case_prod_unfold)
  qed
qed (simp add: CancelSwapOffer_def cancel_start_def)

lemma sweep_is_sequence:
  "(None, snd (sweep_loop env [offer] n w)) = go_on env (go_on env (go_on env (go_on env (Some (SweepListed (S_ID offer) (S_OfferorUserID offer)), w))))"
proof -
  let ?i = "S_ID offer"
  obtain b w1 where c: "ClaimOfferForSweep env ?i w = (b, w1)" by fastforce
  show ?thesis
  proof (cases "b = Inr True")
    case False
    then show ?thesis using c by (cases b) auto
  next
    case True
    show ?thesis
    proof (cases "SE_user env (S_OfferorUserID offer)")
      case (Inl e)
      then show ?thesis using c True by (simp add: releaseExpiredOffer_def)
    next
      case (Inr x)
      obtain r w2 where e: "escrow (EscrowCancelled ?i (U_WalletAddress x)) (SE_CancelSwap env ?i (U_WalletAddress x)) w1 = (r, w2)" by fastforce
      show ?thesis
      proof (cases r)
        case (Inl y)
        then show ?thesis using c True Inr e by (simp add: releaseExpiredOffer_def)
      next
        fix h assume r: "r = Inr h"
        obtain f w3 where "FinalizeSweep env ?i (Some h) w2 = (f, w3)" by fastforce
        then show ?thesis using c True Inr e r by (cases f) (simp_all add: releaseExpiredOffer_def)
      qed
    qed
  qed
qed

record swap_sys =
  Y_world :: swap_world
  Y_active :: "activity list"

inductive swap_step :: "swap_sys \<Rightarrow> swap_sys \<Rightarrow> bool" where
  create: "swap_step s (s\<lparr>Y_world := snd (CreateSwapOffer env u input (Y_world s))\<rparr>)"
| accept: "accept_checks env u i (Y_world s) = Inr (offer, wallet) \<Longrightarrow> swap_step s (s\<lparr>Y_active := AcceptChecked i wallet # Y_active s\<rparr>)"
| cancel: "cancel_checks env u i (Y_world s) = Inr (offer, wallet) \<Longrightarrow> swap_step s (s\<lparr>Y_active := CancelChecked i wallet # Y_active s\<rparr>)"
| sweep: "ListExpiredCreatedOffers env (Y_world s) = Inr offers \<Longrightarrow>
     swap_step s (s\<lparr>Y_active := map (\<lambda>r. SweepListed (S_ID r) (S_OfferorUserID r)) offers @ Y_active s\<rparr>)"
| advance: "Y_active s = xs @ a # ys \<Longrightarrow> advance env a (Y_world s) = (b, w') \<Longrightarrow>
     swap_step s (s\<lparr>Y_world := w', Y_active := xs @ (case b of None \<Rightarrow> [] | Some b' \<Rightarrow> [b']) @ ys\<rparr>)"
| crash: "Y_active s = xs @ a # ys \<Longrightarrow> swap_step s (s\<lparr>Y_active := xs @ ys\<rparr>)"

definition swap_init :: swap_sys where
  "swap_init = \<lparr>Y_world = \<lparr>W_offers = [], W_escrow = []\<rparr>, Y_active = []\<rparr>"

section \<open>What every statement does to the status\<close>

definition swap_ids :: "swap_world \<Rightarrow> string list" where
  "swap_ids w = map S_ID (W_offers w)"

definition status :: "swap_world \<Rightarrow> string \<Rightarrow> SwapOfferStatus option" where
  "status w i = map_option S_Status (List.find (\<lambda>r. S_ID r = i) (W_offers w))"

lemma status_None: "status w i = None \<longleftrightarrow> i \<notin> set (swap_ids w)"
  by (auto simp: status_def swap_ids_def find_None_iff)

lemma same_row: "distinct (swap_ids w) \<Longrightarrow> x \<in> set (W_offers w) \<Longrightarrow> y \<in> set (W_offers w) \<Longrightarrow> S_ID x = S_ID y \<Longrightarrow> x = y"
  unfolding swap_ids_def by (metis distinct_map inj_onD)

lemma find_row:
  assumes "distinct (swap_ids w)" "r \<in> set (W_offers w)"
  shows "List.find (\<lambda>x. S_ID x = S_ID r) (W_offers w) = Some r"
proof -
  obtain r' where f: "List.find (\<lambda>x. S_ID x = S_ID r) (W_offers w) = Some r'"
    using assms(2) by (cases "List.find (\<lambda>x. S_ID x = S_ID r) (W_offers w)") (auto simp: find_None_iff)
  from find_Some_D [OF this] show ?thesis using same_row [OF assms(1) _ assms(2)] f by simp
qed

lemma status_unique: "distinct (swap_ids w) \<Longrightarrow> r \<in> set (W_offers w) \<Longrightarrow> status w (S_ID r) = Some (S_Status r)"
  by (simp add: status_def find_row)

text \<open>A conditional update of the row \<open>i\<close>: it found the row in an expected status and set the new one, or it changed nothing.\<close>

definition status_step :: "string \<Rightarrow> (SwapOfferStatus \<Rightarrow> bool) \<Rightarrow> SwapOfferStatus \<Rightarrow> nat result \<Rightarrow> swap_world \<Rightarrow> swap_world \<Rightarrow> bool" where
  "status_step i P st r w w' = (swap_ids w' = swap_ids w \<and> W_escrow w' = W_escrow w
    \<and> ((\<exists>n a. r = Inr (Suc n) \<and> status w i = Some a \<and> P a) \<and> status w' = (status w)(i := Some st)
       \<or> (r = Inr 0 \<or> (\<exists>e. r = Inl e)) \<and> status w' = status w))"

lemma update_offers_effect:
  assumes "update_offers env q p f w = (r, w')" "distinct (swap_ids w)"
    and "\<And>x. S_ID (f x) = S_ID x" "\<And>x. S_Status (f x) = st" "\<And>x. p x \<Longrightarrow> S_ID x = i \<and> P (S_Status x)"
  shows "status_step i P st r w w'"
proof (cases "fault env q")
  case (Some e)
  then show ?thesis using assms(1) by (auto simp: update_offers_def status_step_def)
next
  case None
  have w': "w' = w\<lparr>W_offers := update_where p f (W_offers w)\<rparr>" and r: "r = Inr (rows_affected p (W_offers w))"
    using assms(1) None by (auto simp: update_offers_def)
  have ids: "swap_ids w' = swap_ids w" unfolding w' swap_ids_def using assms(3) by (simp add: map_update_where)
  have st: "status w' j = map_option (\<lambda>x. S_Status (if p x then f x else x)) (List.find (\<lambda>r. S_ID r = j) (W_offers w))" for j
    unfolding w' status_def using assms(3) by (simp add: find_update_where_key option.map_comp comp_def)
  have other: "status w' j = status w j" if "\<And>x. x \<in> set (W_offers w) \<Longrightarrow> S_ID x = j \<Longrightarrow> \<not> p x" for j
    unfolding st unfolding status_def by (rule option.map_cong [OF refl]) (use that find_Some_D in force)
  show ?thesis
  proof (cases "\<exists>x \<in> set (W_offers w). p x")
    case True
    then obtain x where x: "x \<in> set (W_offers w)" "p x" by blast
    note xi = assms(5) [OF x(2)]
    have y: "List.find (\<lambda>r. S_ID r = i) (W_offers w) = Some x" using find_row [OF assms(2) x(1)] xi by simp
    have "status w' j = ((status w)(i := Some st)) j" for j
      using y x assms(4,5) other [of j] by (cases "j = i") (auto simp: st)
    then have "status w' = (status w)(i := Some st)" by blast
    moreover have "status w i = Some (S_Status x)" using y by (simp add: status_def)
    moreover have "rows_affected p (W_offers w) \<noteq> 0" using x unfolding rows_affected_0 by blast
    then obtain n where "r = Inr (Suc n)" using r not0_implies_Suc by blast
    ultimately show ?thesis using ids xi w' by (simp add: status_step_def)
  next
    case False
    then have "status w' = status w" using other by blast
    moreover have "rows_affected p (W_offers w) = 0" using False unfolding rows_affected_0 by blast
    ultimately show ?thesis using ids r w' by (simp add: status_step_def)
  qed
qed

lemma some_row_cases: "some_row c = (r, w') \<Longrightarrow> \<exists>r0. c = (r0, w') \<and> r = map_sum id (\<lambda>n. n > 0) r0"
  by (cases c; cases "fst c") (auto simp: some_row_def)

lemma need_row_cases: "need_row c = (r, w') \<Longrightarrow> \<exists>r0. c = (r0, w') \<and> r = (case r0 of Inl e \<Rightarrow> Inl e | Inr n \<Rightarrow> if n = 0 then Inl (Sentinel App_ErrNotFound) else Inr ())"
  by (cases c; cases "fst c") (auto simp: need_row_def split: if_splits)

lemma CAS_effect:
  assumes "CompareAndSwapStatus env i a b h w = (r, w')" "distinct (swap_ids w)"
  shows "swap_ids w' = swap_ids w \<and> W_escrow w' = W_escrow w
    \<and> (r = Inr True \<and> status w i = Some a \<and> status w' = (status w)(i := Some b) \<or> r \<noteq> Inr True \<and> status w' = status w)"
proof -
  from some_row_cases [OF assms(1) [unfolded CompareAndSwapStatus_def]] obtain r0
    where r0: "update_offers env (SQ_CAS i a b) (\<lambda>r. S_ID r = i \<and> S_Status r = a) (\<lambda>r. r\<lparr>S_Status := b, S_TransactionHash := h, S_UpdatedAt := now env\<rparr>) w = (r0, w')"
      "r = map_sum id (\<lambda>n. n > 0) r0" by blast
  have "status_step i (\<lambda>x. x = a) b r0 w w'" by (rule update_offers_effect [OF r0(1) assms(2)]) auto
  then show ?thesis using r0(2) by (auto simp: status_step_def)
qed

lemma Claim_effect:
  assumes "ClaimOfferForSweep env i w = (r, w')" "distinct (swap_ids w)"
  shows "swap_ids w' = swap_ids w \<and> W_escrow w' = W_escrow w
    \<and> (r = Inr True \<and> status w i = Some SwapOfferStatusCreated \<and> status w' = (status w)(i := Some SwapOfferStatusSweeping) \<or> r \<noteq> Inr True \<and> status w' = status w)"
proof -
  from some_row_cases [OF assms(1) [unfolded ClaimOfferForSweep_def]] obtain r0
    where r0: "update_offers env (SQ_Claim i) (\<lambda>r. S_ID r = i \<and> S_Status r = SwapOfferStatusCreated \<and> S_ExpiresAt r \<le> now env)
       (\<lambda>r. r\<lparr>S_Status := SwapOfferStatusSweeping, S_UpdatedAt := now env\<rparr>) w = (r0, w')" "r = map_sum id (\<lambda>n. n > 0) r0" by blast
  have "status_step i (\<lambda>x. x = SwapOfferStatusCreated) SwapOfferStatusSweeping r0 w w'" by (rule update_offers_effect [OF r0(1) assms(2)]) auto
  then show ?thesis using r0(2) by (auto simp: status_step_def)
qed

lemma Release_effect:
  assumes "ReleaseSweepClaim env i w = (r, w')" "distinct (swap_ids w)"
  shows "swap_ids w' = swap_ids w \<and> W_escrow w' = W_escrow w
    \<and> (status w i = Some SwapOfferStatusSweeping \<and> status w' = (status w)(i := Some SwapOfferStatusCreated) \<or> status w' = status w)"
proof -
  let ?u = "update_offers env (SQ_Release i) (\<lambda>r. S_ID r = i \<and> S_Status r = SwapOfferStatusSweeping)
       (\<lambda>r. r\<lparr>S_Status := SwapOfferStatusCreated, S_UpdatedAt := now env\<rparr>) w"
  obtain r0 where r0: "?u = (r0, w')"
    using assms(1) by (cases ?u; cases "fst ?u") (auto simp: ReleaseSweepClaim_def)
  have "status_step i (\<lambda>x. x = SwapOfferStatusSweeping) SwapOfferStatusCreated r0 w w'" by (rule update_offers_effect [OF r0 assms(2)]) auto
  then show ?thesis by (auto simp: status_step_def)
qed

lemma Finalize_effect:
  assumes "FinalizeSweep env i h w = (r, w')" "distinct (swap_ids w)"
  shows "swap_ids w' = swap_ids w \<and> W_escrow w' = W_escrow w
    \<and> (r = Inr () \<and> status w i = Some SwapOfferStatusSweeping \<and> status w' = (status w)(i := Some SwapOfferStatusExpired) \<or> (\<exists>e. r = Inl e) \<and> status w' = status w)"
proof -
  from need_row_cases [OF assms(1) [unfolded FinalizeSweep_def]] obtain r0
    where r0: "update_offers env (SQ_Finalize i) (\<lambda>r. S_ID r = i \<and> S_Status r = SwapOfferStatusSweeping)
       (\<lambda>r. r\<lparr>S_Status := SwapOfferStatusExpired, S_TransactionHash := h, S_UpdatedAt := now env\<rparr>) w = (r0, w')"
      "r = (case r0 of Inl e \<Rightarrow> Inl e | Inr n \<Rightarrow> if n = 0 then Inl (Sentinel App_ErrNotFound) else Inr ())" by blast
  have "status_step i (\<lambda>x. x = SwapOfferStatusSweeping) SwapOfferStatusExpired r0 w w'" by (rule update_offers_effect [OF r0(1) assms(2)]) auto
  then show ?thesis using r0(2) by (auto simp: status_step_def)
qed

lemma Update_effect:
  assumes "UpdateSwapOfferStatus env i st h w = (r, w')" "distinct (swap_ids w)"
  shows "swap_ids w' = swap_ids w \<and> W_escrow w' = W_escrow w \<and> (i \<in> set (swap_ids w) \<and> status w' = (status w)(i := Some st) \<or> status w' = status w)"
proof -
  from need_row_cases [OF assms(1) [unfolded UpdateSwapOfferStatus_def]] obtain r0
    where r0: "update_offers env (SQ_Update i st) (\<lambda>r. S_ID r = i) (\<lambda>r. r\<lparr>S_Status := st, S_TransactionHash := h, S_UpdatedAt := now env\<rparr>) w = (r0, w')" by blast
  have "status_step i (\<lambda>x. True) st r0 w w'" by (rule update_offers_effect [OF r0(1) assms(2)]) auto
  then show ?thesis using status_None [of w i] by (auto simp: status_step_def)
qed

section \<open>Claims\<close>

fun act_id :: "activity \<Rightarrow> string" where
  "act_id (AcceptChecked i x) = i" | "act_id (AcceptClaimed i x) = i" | "act_id (AcceptRefused i) = i" | "act_id (AcceptWon i x) = i"
| "act_id (CancelChecked i x) = i" | "act_id (CancelWon i x) = i"
| "act_id (SweepListed i x) = i" | "act_id (SweepClaimed i x) = i" | "act_id (SweepRefused i) = i" | "act_id (SweepWon i x) = i"

text \<open>The activities that moved the offer out of \<^verbatim>\<open>created\<close> and have not finished with it, and the status they wrote.\<close>

fun claimed_status :: "activity \<Rightarrow> SwapOfferStatus option" where
  "claimed_status (AcceptClaimed i x) = Some SwapOfferStatusAccepted"
| "claimed_status (AcceptRefused i) = Some SwapOfferStatusAccepted"
| "claimed_status (AcceptWon i x) = Some SwapOfferStatusAccepted"
| "claimed_status (SweepClaimed i x) = Some SwapOfferStatusSweeping"
| "claimed_status (SweepRefused i) = Some SwapOfferStatusSweeping"
| "claimed_status (SweepWon i x) = Some SwapOfferStatusSweeping"
| "claimed_status a = None"

definition claims :: "string \<Rightarrow> activity \<Rightarrow> bool" where
  "claims i a = (act_id a = i \<and> claimed_status a \<noteq> None)"

fun won_accept :: "activity \<Rightarrow> bool" where
  "won_accept (AcceptWon i h) = True"
| "won_accept a = False"

fun accepts :: "string \<Rightarrow> escrow_call \<Rightarrow> bool" where
  "accepts i (EscrowAccepted j x) = (i = j)"
| "accepts i c = False"

definition accepted_times :: "string \<Rightarrow> swap_world \<Rightarrow> nat" where
  "accepted_times i w = length (filter (accepts i) (W_escrow w))"

definition claim_ok :: "swap_world \<Rightarrow> activity \<Rightarrow> bool" where
  "claim_ok w a = (act_id a \<in> set (swap_ids w) \<and> (case claimed_status a of
     None \<Rightarrow> True
   | Some st \<Rightarrow> status w (act_id a) \<in> {Some st, Some SwapOfferStatusCancelled} \<and> (won_accept a \<or> accepted_times (act_id a) w = 0)))"

definition offer_ok :: "swap_world \<Rightarrow> string \<Rightarrow> bool" where
  "offer_ok w i = (accepted_times i w \<le> 1 \<and> (accepted_times i w = 1 \<longrightarrow> status w i \<in> {Some SwapOfferStatusAccepted, Some SwapOfferStatusCancelled}))"

definition swap_inv :: "swap_sys \<Rightarrow> bool" where
  "swap_inv s = (distinct (swap_ids (Y_world s)) \<and> (\<forall>a \<in> set (Y_active s). claim_ok (Y_world s) a)
     \<and> (\<forall>i. length (filter (claims i) (Y_active s)) \<le> 1) \<and> (\<forall>i. offer_ok (Y_world s) i))"

lemma claim_ok_cong:
  assumes "swap_ids w' = swap_ids w" "status w' (act_id c) = status w (act_id c)" "accepted_times (act_id c) w' = accepted_times (act_id c) w"
  shows "claim_ok w' c = claim_ok w c"
  unfolding claim_ok_def assms ..

lemma escrow_effect:
  "escrow c r w = (r', w') \<Longrightarrow> swap_ids w' = swap_ids w \<and> status w' = status w
     \<and> (\<forall>j. accepted_times j w' = (if accepts j c \<and> (\<exists>h. r' = Inr h) then Suc (accepted_times j w) else accepted_times j w))"
  by (auto simp: escrow_def swap_ids_def status_def accepted_times_def fun_eq_iff split: sum.splits)

text \<open>A claim of one activity excludes the claims of all others.\<close>

lemma no_other_claim:
  assumes "length (filter (claims i) (xs @ a # ys)) \<le> 1" "claims i a" "c \<in> set (xs @ ys)"
  shows "\<not> claims i c"
  using assms by (auto simp: filter_empty_conv)

text \<open>A step of one activity, which changes at most the status and the acceptances of its own offer.\<close>

lemma swap_inv_replace:
  assumes inv: "swap_inv s" and act: "Y_active s = xs @ a # ys"
    and ids: "swap_ids w' = swap_ids (Y_world s)"
    and other: "\<And>j. j \<noteq> act_id a \<Longrightarrow> status w' j = status (Y_world s) j \<and> accepted_times j w' = accepted_times j (Y_world s)"
    and new: "\<And>b. b \<in> set bs \<Longrightarrow> act_id b = act_id a \<and> claim_ok w' b" "length bs \<le> 1"
    and own: "offer_ok w' (act_id a)"
    and rest: "\<And>c. c \<in> set (xs @ ys) \<Longrightarrow> claims (act_id a) c \<Longrightarrow> claim_ok w' c \<and> (\<forall>b \<in> set bs. claimed_status b = None)"
  shows "swap_inv (s\<lparr>Y_world := w', Y_active := xs @ bs @ ys\<rparr>)"
proof -
  have i: "distinct (swap_ids (Y_world s))" "\<And>c. c \<in> set (xs @ a # ys) \<Longrightarrow> claim_ok (Y_world s) c"
    "\<And>i. length (filter (claims i) (xs @ a # ys)) \<le> 1" "\<And>i. offer_ok (Y_world s) i"
    using inv unfolding swap_inv_def act by blast+
  have "claim_ok w' c" if "c \<in> set (xs @ ys)" for c
  proof (cases "act_id c = act_id a")
    case True
    show ?thesis
    proof (cases "claimed_status c")
      case None
      then show ?thesis using i(2) [of c] that ids by (simp add: claim_ok_def)
    qed (use rest [OF that] True in \<open>simp add: claims_def\<close>)
  next
    case False
    then show ?thesis using i(2) [of c] that claim_ok_cong [OF ids] other [OF False] by simp
  qed
  moreover have "length (filter (claims j) (xs @ bs @ ys)) \<le> 1" for j
  proof (cases "\<exists>b \<in> set bs. claims j b")
    case False
    then have "filter (claims j) bs = []" by (simp add: filter_empty_conv)
    then show ?thesis using i(3) [of j] by (auto split: if_splits)
  next
    case True
    then obtain b where b: "bs = [b]" "claims j b" using new(2) by (cases bs) auto
    then have "j = act_id a" "claimed_status b \<noteq> None" using new(1) [of b] by (auto simp: claims_def)
    then have "\<not> claims j c" if "c \<in> set (xs @ ys)" for c using rest [OF that] b(1) by auto
    then have "filter (claims j) (xs @ ys) = []" unfolding filter_empty_conv by blast
    then show ?thesis using b by auto
  qed
  moreover have "offer_ok w' j" for j
    using own other [of j] i(4) [of j] by (cases "j = act_id a") (auto simp: offer_ok_def)
  ultimately show ?thesis using i(1) ids new(1) by (auto simp: swap_inv_def)
qed

lemma swap_inv_advance:
  assumes inv: "swap_inv s" and act: "Y_active s = xs @ a # ys" and adv: "advance env a (Y_world s) = (b, w')"
  shows "swap_inv (s\<lparr>Y_world := w', Y_active := xs @ (case b of None \<Rightarrow> [] | Some b' \<Rightarrow> [b']) @ ys\<rparr>)"
proof -
  let ?w = "Y_world s" and ?i = "act_id a"
  have d: "distinct (swap_ids ?w)" and a: "claim_ok ?w a" and cs: "\<And>c. c \<in> set (xs @ ys) \<Longrightarrow> claim_ok ?w c"
    and one: "length (filter (claims ?i) (xs @ a # ys)) \<le> 1" and o: "offer_ok ?w ?i"
    using inv unfolding swap_inv_def act by auto
  have n1: "\<not> claims ?i c" if "claimed_status a \<noteq> None" "c \<in> set (xs @ ys)" for c
    using no_other_claim [OF one _ that(2)] that(1) by (simp add: claims_def)
  have n2: "\<not> claims ?i c" if "status ?w ?i = Some SwapOfferStatusCreated" "c \<in> set (xs @ ys)" for c
    using cs [OF that(2)] that(1) by (cases c) (auto simp: claim_ok_def claims_def)
  have n3: "accepted_times ?i ?w = 0" if "status ?w ?i \<notin> {Some SwapOfferStatusAccepted, Some SwapOfferStatusCancelled}"
    using o that by (auto simp: offer_ok_def le_Suc_eq)
  have log: "accepted_times j v = accepted_times j ?w" if "W_escrow v = W_escrow ?w" for j v by (simp add: accepted_times_def that)
  have own: "offer_ok w1 ?i" "\<And>c. c \<in> set (xs @ ys) \<Longrightarrow> act_id c = ?i \<Longrightarrow> claim_ok w1 c"
    if "swap_ids w1 = swap_ids ?w" "status w1 = status ?w" "\<And>j. accepted_times j w1 = accepted_times j ?w" for w1
    using o cs claim_ok_cong [OF that(1)] that by (auto simp: offer_ok_def)
  have "swap_ids w' = swap_ids ?w \<and> (\<forall>j. j \<noteq> ?i \<longrightarrow> status w' j = status ?w j \<and> accepted_times j w' = accepted_times j ?w)
    \<and> (\<forall>x. b = Some x \<longrightarrow> act_id x = ?i \<and> claim_ok w' x) \<and> offer_ok w' ?i
    \<and> (\<forall>c \<in> set (xs @ ys). claims ?i c \<longrightarrow> claim_ok w' c \<and> (\<forall>x. b = Some x \<longrightarrow> claimed_status x = None))" (is ?P)
  proof (cases a)
    case (AcceptChecked i wallet)
    obtain r w1 where c: "CompareAndSwapStatus env i SwapOfferStatusCreated SwapOfferStatusAccepted None ?w = (r, w1)" by fastforce
    note e = CAS_effect [OF c d]
    show ?P
    proof (cases "r = Inr True")
      case True
      then show ?P using adv AcceptChecked c e n2 n3 a log [of w1] by (auto simp: claim_ok_def offer_ok_def)
    next
      case False
      then have "b = None" "w' = w1" using adv AcceptChecked c by (auto split: sum.splits bool.splits)
      then show ?P using e False own [of w1] log [of w1] by (auto simp: claims_def)
    qed
  next
    case (AcceptClaimed i wallet)
    obtain r w1 where c: "escrow (EscrowAccepted i wallet) (SE_AcceptSwap env i wallet) ?w = (r, w1)" by fastforce
    then show ?P using adv AcceptClaimed escrow_effect [OF c] a o n1
      by (cases r) (auto simp: claim_ok_def offer_ok_def)
  next
    case (AcceptRefused i)
    obtain r w1 where c: "CompareAndSwapStatus env i SwapOfferStatusAccepted SwapOfferStatusCreated None ?w = (r, w1)" by fastforce
    then show ?P using adv AcceptRefused CAS_effect [OF c d] a o n1 log [of w1] by (auto simp: claim_ok_def offer_ok_def)
  next
    case (AcceptWon i h)
    obtain r w1 where c: "UpdateSwapOfferStatus env i SwapOfferStatusAccepted (Some h) ?w = (r, w1)" by fastforce
    then show ?P using adv AcceptWon Update_effect [OF c d] a o n1 log [of w1] by (auto simp: claim_ok_def offer_ok_def)
  next
    case (CancelChecked i wallet)
    obtain r w1 where c: "escrow (EscrowCancelled i wallet) (SE_CancelSwap env i wallet) ?w = (r, w1)" by fastforce
    have same: "swap_ids w1 = swap_ids ?w" "status w1 = status ?w" "accepted_times j w1 = accepted_times j ?w" for j
      using escrow_effect [OF c] by simp_all
    have "w' = w1" "\<And>x. b = Some x \<Longrightarrow> act_id x = i \<and> claimed_status x = None" using adv CancelChecked c by (auto split: sum.splits)
    then show ?P using CancelChecked same own [OF same(1,2)] a by (auto simp: claims_def claim_ok_def)
  next
    case (CancelWon i h)
    obtain r w1 where c: "UpdateSwapOfferStatus env i SwapOfferStatusCancelled (Some h) ?w = (r, w1)" by fastforce
    have k: "claim_ok w1 x" if "x \<in> set (xs @ ys)" "claims i x" for x
      using cs [OF that(1)] that(2) Update_effect [OF c d] log [of w1] claim_ok_cong [of w1 ?w x] by (auto simp: claim_ok_def claims_def)
    show ?P using adv CancelWon c Update_effect [OF c d] a o k log [of w1] by (auto simp: offer_ok_def)
  next
    case (SweepListed i offeror)
    obtain r w1 where c: "ClaimOfferForSweep env i ?w = (r, w1)" by fastforce
    note e = Claim_effect [OF c d]
    show ?P
    proof (cases "r = Inr True")
      case True
      then show ?P using adv SweepListed c e n2 n3 a log [of w1] by (auto simp: claim_ok_def offer_ok_def)
    next
      case False
      then have "b = None" "w' = w1" using adv SweepListed c by (auto split: sum.splits bool.splits)
      then show ?P using e False own [of w1] log [of w1] by (auto simp: claims_def)
    qed
  next
    case (SweepClaimed i offeror)
    show ?P
    proof (cases "SE_user env offeror")
      case (Inl y)
      then show ?P using adv SweepClaimed a o n1 by (auto simp: claim_ok_def)
    next
      case (Inr x)
      obtain r w1 where c: "escrow (EscrowCancelled i (U_WalletAddress x)) (SE_CancelSwap env i (U_WalletAddress x)) ?w = (r, w1)" by fastforce
      then show ?P using adv SweepClaimed Inr escrow_effect [OF c] a o n1
        by (cases r) (auto simp: claim_ok_def offer_ok_def)
    qed
  next
    case (SweepRefused i)
    obtain r w1 where c: "ReleaseSweepClaim env i ?w = (r, w1)" by fastforce
    then show ?P using adv SweepRefused Release_effect [OF c d] a o n1 log [of w1] by (auto simp: claim_ok_def offer_ok_def)
  next
    case (SweepWon i h)
    obtain r w1 where c: "FinalizeSweep env i (Some h) ?w = (r, w1)" by fastforce
    then show ?P using adv SweepWon Finalize_effect [OF c d] a o n1 log [of w1] by (cases r) (auto simp: claim_ok_def offer_ok_def)
  qed
  then show ?thesis by (intro swap_inv_replace [OF inv act]) (auto split: option.splits)
qed

lemma Create_effect:
  "W_offers (snd (CreateSwapOffer env u input w)) = W_offers w
     \<or> (\<exists>r. S_ID r \<notin> set (swap_ids w) \<and> W_offers (snd (CreateSwapOffer env u input w)) = W_offers w @ [r])"
  "accepted_times j (snd (CreateSwapOffer env u input w)) = accepted_times j w"
proof -
  have "(W_offers w' = W_offers w \<or> (\<exists>r. S_ID r \<notin> set (swap_ids w) \<and> W_offers w' = W_offers w @ [r])) \<and> accepted_times j w' = accepted_times j w"
    if "snd (CreateSwapOffer env u input w) = w'" for w'
    using that
    by (auto simp: CreateSwapOffer_def guard_def attempt_def perform_def wrap_call_def wrap_err_def escrow_def Swap_insert_def exec_stmt_def
        accepted_times_def swap_ids_def Let_def split: sum.splits option.splits if_splits prod.splits) blast
  then show "W_offers (snd (CreateSwapOffer env u input w)) = W_offers w
     \<or> (\<exists>r. S_ID r \<notin> set (swap_ids w) \<and> W_offers (snd (CreateSwapOffer env u input w)) = W_offers w @ [r])"
    "accepted_times j (snd (CreateSwapOffer env u input w)) = accepted_times j w" by blast+
qed

lemma swap_inv_create:
  assumes "swap_inv s"
  shows "swap_inv (s\<lparr>Y_world := snd (CreateSwapOffer env u input (Y_world s))\<rparr>)"
proof -
  let ?w = "Y_world s" and ?w' = "snd (CreateSwapOffer env u input (Y_world s))"
  have ids: "distinct (swap_ids ?w')" "set (swap_ids ?w) \<subseteq> set (swap_ids ?w')"
    using Create_effect(1) [of env u input ?w] assms by (auto simp: swap_ids_def swap_inv_def)
  have st: "status ?w' j = status ?w j" if "j \<in> set (swap_ids ?w)" for j
    using Create_effect(1) [of env u input ?w] that by (auto simp: status_def find_append swap_ids_def find_None_iff split: option.splits)
  have "claim_ok ?w' a" if "a \<in> set (Y_active s)" for a
  proof -
    have a: "claim_ok ?w a" using that assms by (simp add: swap_inv_def)
    then have "act_id a \<in> set (swap_ids ?w)" by (simp add: claim_ok_def)
    with a st [OF this] ids(2) Create_effect(2) [of "act_id a"] show ?thesis by (auto simp: claim_ok_def split: option.splits)
  qed
  moreover have "offer_ok ?w' j" for j
  proof -
    have o: "offer_ok ?w j" using assms by (simp add: swap_inv_def)
    show ?thesis
    proof (cases "j \<in> set (swap_ids ?w)")
      case True
      with o st Create_effect(2) show ?thesis by (simp add: offer_ok_def)
    next
      case False
      then have "accepted_times j ?w = 0" using o status_None [of ?w j] by (auto simp: offer_ok_def le_Suc_eq)
      then show ?thesis by (simp add: offer_ok_def Create_effect(2))
    qed
  qed
  ultimately show ?thesis using assms ids(1) by (simp add: swap_inv_def)
qed

lemma found_id: "GetSwapOfferByID env i w = Inr offer \<Longrightarrow> List.find (\<lambda>r. S_ID r = i) (W_offers w) = Some offer"
  by (auto simp: GetSwapOfferByID_def run_query_def split: option.splits if_splits)

lemma checks_found:
  "accept_checks env u i w = Inr (offer, wallet) \<Longrightarrow> status w i = Some SwapOfferStatusCreated \<and> i \<in> set (swap_ids w)"
  "cancel_checks env u i w = Inr (offer, wallet) \<Longrightarrow> status w i = Some SwapOfferStatusCreated \<and> i \<in> set (swap_ids w)"
  using status_None [of w i]
  by (auto simp: accept_checks_def cancel_checks_def status_def dest!: found_id split: sum.splits if_splits)

lemma swap_inv_spawn:
  assumes "swap_inv s" "\<And>b. b \<in> set bs \<Longrightarrow> act_id b \<in> set (swap_ids (Y_world s)) \<and> claimed_status b = None"
  shows "swap_inv (s\<lparr>Y_active := bs @ Y_active s\<rparr>)"
proof -
  have "filter (claims i) bs = []" for i using assms(2) by (auto simp: filter_empty_conv claims_def)
  then show ?thesis using assms by (auto simp: swap_inv_def claim_ok_def)
qed

lemma swap_inv_step: "swap_step s s' \<Longrightarrow> swap_inv s \<Longrightarrow> swap_inv s'"
proof (induction rule: swap_step.induct)
  case (create s env u input)
  then show ?case by (rule swap_inv_create)
next
  case (accept env u i s offer wallet)
  then show ?case using swap_inv_spawn [of s "[AcceptChecked i wallet]"] checks_found(1) [OF accept(1)] by simp
next
  case (cancel env u i s offer wallet)
  then show ?case using swap_inv_spawn [of s "[CancelChecked i wallet]"] checks_found(2) [OF cancel(1)] by simp
next
  case (sweep env s offers)
  then have "set offers \<subseteq> set (W_offers (Y_world s))" by (auto simp: ListExpiredCreatedOffers_def run_query_def split: option.splits)
  then show ?case using sweep by (intro swap_inv_spawn) (auto simp: swap_ids_def)
next
  case (advance s xs a ys env b w')
  then show ?case by (intro swap_inv_advance)
next
  case (crash s xs a ys)
  have "length (filter (claims i) (xs @ ys)) \<le> 1" for i
    using crash by (auto simp: swap_inv_def dest!: spec [of _ i] split: if_splits)
  then show ?case using crash by (auto simp: swap_inv_def)
qed

lemma swap_reach_inv: "swap_step\<^sup>*\<^sup>* swap_init s \<Longrightarrow> swap_inv s"
proof (induction rule: rtranclp_induct)
  case base
  show ?case by (simp add: swap_inv_def swap_init_def swap_ids_def offer_ok_def accepted_times_def)
qed (rule swap_inv_step)


section \<open>Offers that are never released\<close>

fun concerns :: "string \<Rightarrow> escrow_call \<Rightarrow> bool" where
  "concerns i (EscrowAccepted j x) = (i = j)"
| "concerns i (EscrowCancelled j x) = (i = j)"
| "concerns i c = False"

definition calls_for :: "string \<Rightarrow> swap_world \<Rightarrow> escrow_call list" where
  "calls_for i w = filter (concerns i) (W_escrow w)"

definition stranded :: "SwapOffer \<Rightarrow> swap_sys \<Rightarrow> bool" where
  "stranded r s = (r \<in> set (W_offers (Y_world s)) \<and> S_Status r = SwapOfferStatusSweeping \<and> (\<forall>a \<in> set (Y_active s). act_id a \<noteq> S_ID r))"

text \<open>An activity on another offer leaves the row and its calls alone and stays on its own offer.\<close>

lemma update_offers_frame:
  assumes "r \<in> set (W_offers w)" "\<not> p r"
  shows "r \<in> set (W_offers (snd (update_offers env q p f w)))" "calls_for i (snd (update_offers env q p f w)) = calls_for i w"
  using assms by (auto simp: update_offers_def update_where_def calls_for_def image_iff split: option.splits)

lemma snd_rows [simp]: "snd (some_row c) = snd c" "snd (need_row c) = snd c"
  by (cases c; cases "fst c"; simp add: some_row_def need_row_def)+

lemma advance_other:
  assumes "advance env a w = (b, w')" "r \<in> set (W_offers w)" "S_ID r \<noteq> act_id a"
  shows "r \<in> set (W_offers w') \<and> calls_for (S_ID r) w' = calls_for (S_ID r) w \<and> (\<forall>x. b = Some x \<longrightarrow> act_id x = act_id a)"
proof -
  have u: "r \<in> set (W_offers (snd (CompareAndSwapStatus env (act_id a) x y h w))) \<and> calls_for (S_ID r) (snd (CompareAndSwapStatus env (act_id a) x y h w)) = calls_for (S_ID r) w"
    "r \<in> set (W_offers (snd (UpdateSwapOfferStatus env (act_id a) x h w))) \<and> calls_for (S_ID r) (snd (UpdateSwapOfferStatus env (act_id a) x h w)) = calls_for (S_ID r) w"
    "r \<in> set (W_offers (snd (ClaimOfferForSweep env (act_id a) w))) \<and> calls_for (S_ID r) (snd (ClaimOfferForSweep env (act_id a) w)) = calls_for (S_ID r) w"
    "r \<in> set (W_offers (snd (FinalizeSweep env (act_id a) h w))) \<and> calls_for (S_ID r) (snd (FinalizeSweep env (act_id a) h w)) = calls_for (S_ID r) w"
    "r \<in> set (W_offers (snd (ReleaseSweepClaim env (act_id a) w))) \<and> calls_for (S_ID r) (snd (ReleaseSweepClaim env (act_id a) w)) = calls_for (S_ID r) w"
    for x y h
    unfolding CompareAndSwapStatus_def UpdateSwapOfferStatus_def ClaimOfferForSweep_def FinalizeSweep_def snd_rows
    using assms(2,3) by (simp_all add: update_offers_frame, auto simp: ReleaseSweepClaim_def perform_def update_offers_def update_where_def calls_for_def image_iff split: option.splits)
  have e: "W_offers (snd (escrow c x w)) = W_offers w" "\<not> concerns (S_ID r) c \<Longrightarrow> calls_for (S_ID r) (snd (escrow c x w)) = calls_for (S_ID r) w" for c x
    by (auto simp: escrow_def calls_for_def split: sum.splits)
  show ?thesis
  proof (cases a)
    case (AcceptChecked i wallet)
    then show ?thesis using assms(1) u(1) [of SwapOfferStatusCreated SwapOfferStatusAccepted None] by (auto split: prod.splits sum.splits bool.splits)
  next
    case (AcceptClaimed i wallet)
    then show ?thesis using assms e [of "EscrowAccepted i wallet" "SE_AcceptSwap env i wallet"] by (auto split: prod.splits sum.splits)
  next
    case (AcceptRefused i)
    then show ?thesis using assms(1) u(1) by auto
  next
    case (AcceptWon i h)
    then show ?thesis using assms(1) u(2) by auto
  next
    case (CancelChecked i wallet)
    then show ?thesis using assms e [of "EscrowCancelled i wallet" "SE_CancelSwap env i wallet"] by (auto split: prod.splits sum.splits)
  next
    case (CancelWon i h)
    then show ?thesis using assms(1) u(2) by auto
  next
    case (SweepListed i offeror)
    then show ?thesis using assms(1) u(3) by (auto split: prod.splits sum.splits bool.splits)
  next
    case (SweepClaimed i offeror)
    then show ?thesis
    proof (cases "SE_user env offeror")
      case (Inr x)
      then show ?thesis using SweepClaimed assms e [of "EscrowCancelled i (U_WalletAddress x)" "SE_CancelSwap env i (U_WalletAddress x)"]
        by (auto split: prod.splits sum.splits)
    qed (use assms in auto)
  next
    case (SweepRefused i)
    then show ?thesis using assms(1) u(5) by auto
  next
    case (SweepWon i h)
    then show ?thesis using assms(1) u(4) [of "Some h"] by (auto split: prod.splits sum.splits)
  qed
qed

lemma stranded_step:
  assumes "swap_step s s'" "swap_inv s" "stranded r s"
  shows "stranded r s' \<and> calls_for (S_ID r) (Y_world s') = calls_for (S_ID r) (Y_world s)"
  using assms
proof (induction rule: swap_step.induct)
  case (create s env u input)
  have "r \<in> set (W_offers (snd (CreateSwapOffer env u input (Y_world s))))"
    using Create_effect(1) [of env u input "Y_world s"] create by (auto simp: stranded_def)
  moreover have "calls_for (S_ID r) (snd (CreateSwapOffer env u input (Y_world s))) = calls_for (S_ID r) (Y_world s)"
    by (auto simp: CreateSwapOffer_def guard_def attempt_def perform_def wrap_call_def wrap_err_def escrow_def Swap_insert_def exec_stmt_def
        calls_for_def Let_def split: sum.splits option.splits)
  ultimately show ?case using create by (simp add: stranded_def)
next
  case (accept env u i s offer wallet)
  have "status (Y_world s) (S_ID r) = Some SwapOfferStatusSweeping"
    using accept status_unique [of "Y_world s" r] by (simp add: swap_inv_def stranded_def)
  then show ?case using checks_found(1) [OF accept(1)] accept(3) by (auto simp: stranded_def)
next
  case (cancel env u i s offer wallet)
  have "status (Y_world s) (S_ID r) = Some SwapOfferStatusSweeping"
    using cancel status_unique [of "Y_world s" r] by (simp add: swap_inv_def stranded_def)
  then show ?case using checks_found(2) [OF cancel(1)] cancel(3) by (auto simp: stranded_def)
next
  case (sweep env s offers)
  have d: "distinct (swap_ids (Y_world s))" "r \<in> set (W_offers (Y_world s))" using sweep by (simp_all add: swap_inv_def stranded_def)
  have "S_ID x \<noteq> S_ID r" if "x \<in> set offers" for x
  proof
    assume "S_ID x = S_ID r"
    have "x \<in> set (W_offers (Y_world s)) \<and> S_Status x = SwapOfferStatusCreated" using that sweep(1) by (auto simp: ListExpiredCreatedOffers_def run_query_def split: option.splits)
    then show False using same_row [OF d(1) _ d(2) \<open>S_ID x = S_ID r\<close>] sweep(3) by (auto simp: stranded_def)
  qed
  then show ?case using sweep(3) by (auto simp: stranded_def)
next
  case (advance s xs a ys env b w')
  then have "r \<in> set (W_offers w') \<and> calls_for (S_ID r) w' = calls_for (S_ID r) (Y_world s) \<and> (\<forall>x. b = Some x \<longrightarrow> act_id x = act_id a)"
    by (intro advance_other [of env a "Y_world s"]) (auto simp: stranded_def)
  then show ?case using advance by (auto simp: stranded_def split: option.splits)
next
  case (crash s xs a ys)
  then show ?case by (simp add: stranded_def)
qed

text \<open>
  A sweep that is cut off strands its offer. Once an offer is being swept and no activity on it is in flight, because the replica stopped or
  the row could not be given back, no later acceptance, cancellation or sweep ever changes its row or calls the contract for it: the escrow stays locked.
\<close>

theorem cut_off_sweep_strands:
  assumes "swap_step\<^sup>*\<^sup>* swap_init s" "swap_step\<^sup>*\<^sup>* s s'" "stranded r s"
  shows "stranded r s' \<and> calls_for (S_ID r) (Y_world s') = calls_for (S_ID r) (Y_world s)"
  using assms(2)
proof (induction rule: rtranclp_induct)
  case base
  show ?case using assms(3) by simp
next
  case (step y z)
  have "swap_inv y" using assms(1) step(1) by (intro swap_reach_inv) simp
  then show ?case using stranded_step [OF step(2)] step(3) by simp
qed

section \<open>An undisturbed sweep\<close>

text \<open>What a swept row becomes.\<close>

definition swept_row :: "swap_env \<Rightarrow> (string \<Rightarrow> string) \<Rightarrow> SwapOffer \<Rightarrow> SwapOffer" where
  "swept_row env h r = r\<lparr>S_Status := SwapOfferStatusExpired, S_TransactionHash := Some (h (S_ID r)), S_UpdatedAt := now env\<rparr>"

definition due :: "swap_env \<Rightarrow> SwapOffer \<Rightarrow> bool" where
  "due env r = (S_Status r = SwapOfferStatusCreated \<and> S_ExpiresAt r \<le> now env)"

text \<open>No statement fails, every offeror is found and the contract confirms every cancellation.\<close>

definition sweep_healthy :: "swap_env \<Rightarrow> (string \<Rightarrow> string) \<Rightarrow> bool" where
  "sweep_healthy env h = ((\<forall>q. fault env q = None) \<and> (\<forall>u. \<exists>x. SE_user env u = Inr x) \<and> (\<forall>i x. SE_CancelSwap env i x = Inr (h i)))"

definition cancel_call :: "swap_env \<Rightarrow> SwapOffer \<Rightarrow> escrow_call" where
  "cancel_call env r = EscrowCancelled (S_ID r) (case SE_user env (S_OfferorUserID r) of Inl e \<Rightarrow> [] | Inr x \<Rightarrow> U_WalletAddress x)"

lemma sweep_one:
  assumes "sweep_healthy env h" "distinct (swap_ids w)" "r \<in> set (W_offers w)" "due env r"
  shows "sweep_loop env (r # rest) n w = sweep_loop env rest (n + 1)
     (w\<lparr>W_offers := update_where (\<lambda>x. S_ID x = S_ID r) (swept_row env h) (W_offers w), W_escrow := cancel_call env r # W_escrow w\<rparr>)"
proof -
  let ?i = "S_ID r"
  let ?w1 = "w\<lparr>W_offers := update_where (\<lambda>x. S_ID x = ?i) (\<lambda>x. x\<lparr>S_Status := SwapOfferStatusSweeping, S_UpdatedAt := now env\<rparr>) (W_offers w)\<rparr>"
  have f: "\<And>q. fault env q = None" and c: "\<And>i x. SE_CancelSwap env i x = Inr (h i)" using assms(1) by (simp_all add: sweep_healthy_def)
  obtain x where x: "SE_user env (S_OfferorUserID r) = Inr x" using assms(1) unfolding sweep_healthy_def by blast
  have only: "(S_ID y = ?i \<and> S_Status y = SwapOfferStatusCreated \<and> S_ExpiresAt y \<le> now env) = (S_ID y = ?i)" if "y \<in> set (W_offers w)" for y
    using same_row [OF assms(2) that assms(3)] assms(4) by (auto simp: due_def)
  have u: "update_where p f (W_offers w) = update_where q f (W_offers w)" if "\<And>y. y \<in> set (W_offers w) \<Longrightarrow> p y = q y" for p q f
    using that by (simp add: update_where_def)
  have "rows_affected (\<lambda>y. S_ID y = ?i \<and> S_Status y = SwapOfferStatusCreated \<and> S_ExpiresAt y \<le> now env) (W_offers w) \<noteq> 0"
    unfolding rows_affected_0 using assms(3,4) by (auto simp: due_def)
  then have claim: "ClaimOfferForSweep env ?i w = (Inr True, ?w1)"
    by (simp add: ClaimOfferForSweep_def some_row_def update_offers_def f u [OF only] del: rows_affected_0)
  have "rows_affected (\<lambda>y. S_ID y = ?i \<and> S_Status y = SwapOfferStatusSweeping) (W_offers ?w1) \<noteq> 0"
    unfolding rows_affected_0 using assms(3) by (auto simp: update_where_def intro!: bexI [of _ "r\<lparr>S_Status := SwapOfferStatusSweeping, S_UpdatedAt := now env\<rparr>"])
  moreover have "update_where (\<lambda>y. S_ID y = ?i \<and> S_Status y = SwapOfferStatusSweeping)
      (\<lambda>y. y\<lparr>S_Status := SwapOfferStatusExpired, S_TransactionHash := Some (h ?i), S_UpdatedAt := now env\<rparr>) (W_offers ?w1)
    = update_where (\<lambda>y. S_ID y = ?i) (swept_row env h) (W_offers w)"
    using only assms(4) same_row [OF assms(2) _ assms(3)] by (auto simp: update_where_def swept_row_def due_def)
  ultimately have fin: "FinalizeSweep env ?i (Some (h ?i)) (?w1\<lparr>W_escrow := e\<rparr>)
      = (Inr (), w\<lparr>W_offers := update_where (\<lambda>x. S_ID x = ?i) (swept_row env h) (W_offers w), W_escrow := e\<rparr>)" for e
    by (simp add: FinalizeSweep_def need_row_def update_offers_def f del: rows_affected_0)
  show ?thesis using claim fin x by (simp add: releaseExpiredOffer_def escrow_def c cancel_call_def)
qed

lemma sweep_loop_all:
  "sweep_healthy env h \<Longrightarrow> distinct (swap_ids w) \<Longrightarrow> set rs \<subseteq> set (W_offers w) \<Longrightarrow> \<forall>r \<in> set rs. due env r \<Longrightarrow> distinct (map S_ID rs) \<Longrightarrow>
   sweep_loop env rs n w = (n + length rs,
     w\<lparr>W_offers := update_where (\<lambda>x. S_ID x \<in> S_ID ` set rs) (swept_row env h) (W_offers w), W_escrow := rev (map (cancel_call env) rs) @ W_escrow w\<rparr>)"
proof (induction rs arbitrary: n w)
  case (Cons r rs)
  let ?w1 = "w\<lparr>W_offers := update_where (\<lambda>x. S_ID x = S_ID r) (swept_row env h) (W_offers w), W_escrow := cancel_call env r # W_escrow w\<rparr>"
  have ids: "swap_ids ?w1 = swap_ids w" by (simp add: swap_ids_def map_update_where swept_row_def)
  have "set rs \<subseteq> set (W_offers ?w1)"
  proof
    fix x assume "x \<in> set rs"
    then have "x \<in> set (W_offers w)" "S_ID x \<noteq> S_ID r" using Cons.prems(3,5) by auto (metis image_eqI)
    then show "x \<in> set (W_offers ?w1)" by (auto simp: update_where_def image_iff)
  qed
  then have IH: "sweep_loop env rs (n + 1) ?w1 = (n + 1 + length rs,
     ?w1\<lparr>W_offers := update_where (\<lambda>x. S_ID x \<in> S_ID ` set rs) (swept_row env h) (W_offers ?w1), W_escrow := rev (map (cancel_call env) rs) @ W_escrow ?w1\<rparr>)"
    using Cons.prems ids by (intro Cons.IH) auto
  have "update_where (\<lambda>x. S_ID x \<in> S_ID ` set rs) (swept_row env h) (update_where (\<lambda>x. S_ID x = S_ID r) (swept_row env h) (W_offers w))
      = update_where (\<lambda>x. S_ID x \<in> S_ID ` set (r # rs)) (swept_row env h) (W_offers w)"
    using Cons.prems(5) by (auto simp: update_where_def swept_row_def)
  then show ?case using IH Cons.prems by (simp add: sweep_one [of env h] del: sweep_loop.simps)
qed (simp add: update_where_def)

text \<open>
  An undisturbed sweep releases exactly what is due. When nothing fails, the sweep cancels the escrow of every open offer whose time has
  come, once and in the name of its offeror, marks exactly these rows expired with the hash of the cancellation, and returns their number.
\<close>

theorem sweep_releases_due:
  assumes "sweep_healthy env h" "distinct (swap_ids w)"
  shows "SweepExpiredOffers env w = (Inr (length (filter (due env) (W_offers w))),
     w\<lparr>W_offers := update_where (due env) (swept_row env h) (W_offers w),
       W_escrow := rev (map (cancel_call env) (filter (due env) (W_offers w))) @ W_escrow w\<rparr>)"
proof -
  let ?rs = "filter (due env) (W_offers w)"
  have l: "ListExpiredCreatedOffers env w = Inr ?rs"
    using assms(1) by (simp add: ListExpiredCreatedOffers_def sweep_healthy_def due_def [abs_def])
  have d: "distinct (map S_ID ?rs)" using assms(2) by (simp add: swap_ids_def distinct_map_filter)
  have "S_ID x \<in> S_ID ` set ?rs \<longleftrightarrow> due env x" if "x \<in> set (W_offers w)" for x
  proof
    assume "S_ID x \<in> S_ID ` set ?rs"
    then obtain y where y: "y \<in> set (W_offers w)" "due env y" "S_ID x = S_ID y" by auto
    from same_row [OF assms(2) that y(1,3)] y(2) show "due env x" by simp
  qed (use that in auto)
  then have "update_where (\<lambda>x. S_ID x \<in> S_ID ` set ?rs) (swept_row env h) (W_offers w) = update_where (due env) (swept_row env h) (W_offers w)"
    by (simp add: update_where_def)
  moreover have "sweep_loop env ?rs 0 w = (0 + length ?rs,
     w\<lparr>W_offers := update_where (\<lambda>x. S_ID x \<in> S_ID ` set ?rs) (swept_row env h) (W_offers w), W_escrow := rev (map (cancel_call env) ?rs) @ W_escrow w\<rparr>)"
    by (rule sweep_loop_all [OF assms _ _ d]) auto
  ultimately show ?thesis by (simp add: SweepExpiredOffers_def l del: sweep_loop.simps)
qed

section \<open>Schedules\<close>

text \<open>Schedules as data, to exhibit interleavings. A move that is not possible changes nothing.\<close>

datatype move = MCreate swap_env string SwapOfferRequest | MAccept swap_env string string | MCancel swap_env string string
  | MSweep swap_env | MAdvance swap_env | MAdvanceLast swap_env | MCrash

fun make_move :: "move \<Rightarrow> swap_sys \<Rightarrow> swap_sys" where
  "make_move (MCreate env u input) s = s\<lparr>Y_world := snd (CreateSwapOffer env u input (Y_world s))\<rparr>"
| "make_move (MAccept env u i) s =
     (case accept_checks env u i (Y_world s) of Inl e \<Rightarrow> s | Inr (offer, wallet) \<Rightarrow> s\<lparr>Y_active := AcceptChecked i wallet # Y_active s\<rparr>)"
| "make_move (MCancel env u i) s =
     (case cancel_checks env u i (Y_world s) of Inl e \<Rightarrow> s | Inr (offer, wallet) \<Rightarrow> s\<lparr>Y_active := CancelChecked i wallet # Y_active s\<rparr>)"
| "make_move (MSweep env) s =
     (case ListExpiredCreatedOffers env (Y_world s) of
        Inl e \<Rightarrow> s | Inr offers \<Rightarrow> s\<lparr>Y_active := map (\<lambda>r. SweepListed (S_ID r) (S_OfferorUserID r)) offers @ Y_active s\<rparr>)"
| "make_move (MAdvance env) s =
     (case Y_active s of [] \<Rightarrow> s
      | a # ys \<Rightarrow> (case advance env a (Y_world s) of (b, w') \<Rightarrow> s\<lparr>Y_world := w', Y_active := (case b of None \<Rightarrow> [] | Some b' \<Rightarrow> [b']) @ ys\<rparr>))"
| "make_move (MAdvanceLast env) s =
     (if Y_active s = [] then s
      else (case advance env (last (Y_active s)) (Y_world s) of
              (b, w') \<Rightarrow> s\<lparr>Y_world := w', Y_active := butlast (Y_active s) @ (case b of None \<Rightarrow> [] | Some b' \<Rightarrow> [b'])\<rparr>))"
| "make_move MCrash s = (case Y_active s of [] \<Rightarrow> s | a # ys \<Rightarrow> s\<lparr>Y_active := ys\<rparr>)"

lemma make_move_step: "swap_step\<^sup>*\<^sup>* s (make_move m s)"
proof (cases m)
  case (MCreate env u input)
  then show ?thesis using swap_step.create by auto
next
  case (MAccept env u i)
  then show ?thesis using swap_step.accept [of env u i s] by (auto split: sum.split)
next
  case (MCancel env u i)
  then show ?thesis using swap_step.cancel [of env u i s] by (auto split: sum.split)
next
  case (MSweep env)
  then show ?thesis using swap_step.sweep [of env s] by (auto split: sum.split)
next
  case (MAdvance env)
  then show ?thesis using swap_step.advance [of s "[]" _ _ env] by (auto split: list.split prod.split)
next
  case (MAdvanceLast env)
  then show ?thesis using swap_step.advance [of s "butlast (Y_active s)" "last (Y_active s)" "[]" env] by (auto split: prod.split)
next
  case MCrash
  then show ?thesis using swap_step.crash [of s "[]"] by (auto split: list.split)
qed

definition play :: "move list \<Rightarrow> swap_sys" where
  "play ms = fold make_move ms swap_init"

lemma play_reachable: "swap_step\<^sup>*\<^sup>* swap_init (play ms)"
proof -
  have "swap_step\<^sup>*\<^sup>* s (fold make_move ms s)" for s
    by (induction ms arbitrary: s) (auto intro: rtranclp_trans make_move_step)
  then show ?thesis by (simp add: play_def)
qed

section \<open>Demonstration\<close>

text \<open>Three users, a contract that confirms everything, and a database that fails in the statements \<open>bad\<close>.\<close>

definition demo_swap_env :: "swap_stmt list \<Rightarrow> time \<Rightarrow> swap_env" where
  "demo_swap_env bad t = \<lparr>uuid_Parse = (\<lambda>s. None), uuid_String = (\<lambda>u. ''o''), uuid_New = (\<lambda>n. 0), now = t,
     fault = (\<lambda>q. if q \<in> set bad then Some (Driver ''down'') else None),
     SE_user = (\<lambda>u. Inr (demo_user\<lparr>U_WalletAddress := u\<rparr>)), SE_CreateSwap = (\<lambda>c. Inr ''c''),
     SE_AcceptSwap = (\<lambda>i x. Inr ''a''), SE_CancelSwap = (\<lambda>i x. Inr ''x''), swap_row_error = (\<lambda>r. None)\<rparr>"

definition demo_swap_input :: SwapOfferRequest where
  "demo_swap_input = \<lparr>SR_CircleID = ''k'', SR_OffereeUserID = None, SR_OfferorAsset = ''XLM'', SR_OfferorAmount = 5, SR_RequestedAsset = ''USDC'',
     SR_RequestedAmount = 1, SR_ExpiresIn = 1\<rparr>"

definition demo_new :: move where
  "demo_new = MCreate (demo_swap_env [] 0) ''alice'' demo_swap_input"

text \<open>Later than the hour of the offer.\<close>

definition demo_late :: swap_env where
  "demo_late = demo_swap_env [] (2 * (3600 * second))"

definition demo_late_broken :: swap_env where
  "demo_late_broken = demo_swap_env [SQ_Finalize ''o''] (2 * (3600 * second))"

definition demo_soon :: swap_env where
  "demo_soon = demo_swap_env [] 1"

definition cancelled_times :: "string \<Rightarrow> swap_world \<Rightarrow> nat" where
  "cancelled_times i w = length (filter (\<lambda>c. concerns i c \<and> \<not> accepts i c) (W_escrow w))"

text \<open>
  The contract can be called twice for one offer. A sweep that could not store its result gives the offer back, so that the next sweep cancels the escrow again; and a
  cancellation that has checked the status runs beside an acceptance that claims the offer, and overwrites its status.
\<close>

lemma escrow_released_twice: "\<exists>s. swap_step\<^sup>*\<^sup>* swap_init s \<and> cancelled_times ''o'' (Y_world s) = 2"
proof -
  have "cancelled_times ''o'' (Y_world (play [demo_new, MSweep demo_late, MAdvance demo_late, MAdvance demo_late, MAdvance demo_late_broken, MAdvance demo_late,
      MSweep demo_late, MAdvance demo_late, MAdvance demo_late])) = 2" by code_simp
  then show ?thesis using play_reachable by blast
qed

definition demo_crossed :: swap_sys where
  "demo_crossed = play [demo_new, MCancel demo_soon ''alice'' ''o'', MAccept demo_soon ''bob'' ''o'', MAdvance demo_soon, MAdvance demo_soon, MAdvance demo_soon,
      MAdvance demo_soon, MAdvance demo_soon]"

lemma accepted_and_cancelled:
  "\<exists>s. swap_step\<^sup>*\<^sup>* swap_init s \<and> length (Y_active s) = 0 \<and> accepted_times ''o'' (Y_world s) = 1 \<and> cancelled_times ''o'' (Y_world s) = 1
     \<and> map S_Status (W_offers (Y_world s)) = [SwapOfferStatusCancelled]"
proof (intro exI conjI)
  show "swap_step\<^sup>*\<^sup>* swap_init demo_crossed" unfolding demo_crossed_def by (rule play_reachable)
  show "length (Y_active demo_crossed) = 0" "accepted_times ''o'' (Y_world demo_crossed) = 1" "cancelled_times ''o'' (Y_world demo_crossed) = 1"
    "map S_Status (W_offers (Y_world demo_crossed)) = [SwapOfferStatusCancelled]"
    by code_simp+
qed



definition demo_cut_off :: swap_sys where
  "demo_cut_off = play [demo_new, MSweep demo_late, MAdvance demo_late, MCrash]"

definition demo_stranded :: SwapOffer where
  "demo_stranded = hd (W_offers (Y_world demo_cut_off))"

definition demo_after :: swap_sys where
  "demo_after = make_move (MAdvance demo_late) (make_move (MSweep demo_late) demo_cut_off)"

theorem cut_off_sweep_strands_witness:
  "stranded demo_stranded demo_after \<and> calls_for ''o'' (Y_world demo_after) = []"
proof -
  have r: "swap_step\<^sup>*\<^sup>* swap_init demo_cut_off" unfolding demo_cut_off_def by (rule play_reachable)
  have s: "swap_step\<^sup>*\<^sup>* demo_cut_off demo_after" unfolding demo_after_def by (rule rtranclp_trans [OF make_move_step make_move_step])
  have "stranded demo_stranded demo_cut_off" by code_simp
  from cut_off_sweep_strands [OF r s this] have "stranded demo_stranded demo_after \<and> calls_for (S_ID demo_stranded) (Y_world demo_after) = calls_for (S_ID demo_stranded) (Y_world demo_cut_off)" .
  moreover have "S_ID demo_stranded = ''o''" "calls_for ''o'' (Y_world demo_cut_off) = []" by code_simp+
  ultimately show ?thesis by simp
qed

definition demo_open_offer :: swap_world where
  "demo_open_offer = Y_world (play [demo_new])"

theorem sweep_releases_due_witness:
  "fst (SweepExpiredOffers demo_late demo_open_offer) = Inr 1
   \<and> map S_Status (W_offers (snd (SweepExpiredOffers demo_late demo_open_offer))) = [SwapOfferStatusExpired]"
proof -
  have "sweep_healthy demo_late (\<lambda>i. ''x'')" by (simp add: sweep_healthy_def demo_late_def demo_swap_env_def)
  moreover have "distinct (swap_ids demo_open_offer)" by code_simp
  ultimately have "SweepExpiredOffers demo_late demo_open_offer = (Inr (length (filter (due demo_late) (W_offers demo_open_offer))),
     demo_open_offer\<lparr>W_offers := update_where (due demo_late) (swept_row demo_late (\<lambda>i. ''x'')) (W_offers demo_open_offer),
       W_escrow := rev (map (cancel_call demo_late) (filter (due demo_late) (W_offers demo_open_offer))) @ W_escrow demo_open_offer\<rparr>)"
    by (rule sweep_releases_due)
  moreover have "length (filter (due demo_late) (W_offers demo_open_offer)) = 1"
    "map S_Status (update_where (due demo_late) (swept_row demo_late (\<lambda>i. ''x'')) (W_offers demo_open_offer)) = [SwapOfferStatusExpired]" by code_simp+
  ultimately show ?thesis by simp
qed

end
