(* ===== verification/JobQueue.thy ===== *)
theory JobQueue
  imports CircleRepo
begin

text \<open>
  \<^verbatim>\<open>pkg/jobqueue\<close>: the queue of background jobs, over PostgreSQL or in memory, and the worker that drains it. Both stores are lists of
  jobs; the one in memory is a Go map, whose iteration order is a parameter. Rows locked by transactions of other workers are a parameter
  too (\<^verbatim>\<open>SKIP LOCKED\<close>).
\<close>

section \<open>Model\<close>

datatype JobStatus = StatusPending | StatusProcessing | StatusCompleted | StatusFailed | StatusDeadLetter

record Job =
  JB_ID :: string
  JB_QueueName :: string
  JB_Payload :: string
  JB_Status :: JobStatus
  JB_MaxRetries :: int
  JB_RetriesCount :: int
  JB_ScheduledAt :: time
  JB_LastError :: "string option"
  JB_CreatedAt :: time
  JB_UpdatedAt :: time

datatype JobQueue = Table "Job list" | Memory "Job list"

fun jobs :: "JobQueue \<Rightarrow> Job list" where
  "jobs (Table rows) = rows"
| "jobs (Memory rows) = rows"

datatype job_stmt =
    JQ_Insert string | JQ_Begin | JQ_Select string | JQ_Claim string | JQ_Commit | JQ_Complete string | JQ_Load string
  | JQ_Dead string | JQ_Retry string | JQ_ListDead | JQ_Revive string

record job_env = "job_stmt env" +
  locked :: "string \<Rightarrow> bool"
  range_order :: "Job list \<Rightarrow> Job list"

definition NewJobQueue :: "bool \<Rightarrow> JobQueue" where
  "NewJobQueue db = (if db then Table [] else Memory [])"

section \<open>Operations\<close>

definition new_job :: "job_env \<Rightarrow> string \<Rightarrow> string \<Rightarrow> int \<Rightarrow> Job" where
  "new_job env q payload maxRetries =
     \<lparr>JB_ID = uuid_String env (uuid_New env 0), JB_QueueName = q, JB_Payload = payload, JB_Status = StatusPending,
      JB_MaxRetries = (if maxRetries \<le> 0 then 3 else maxRetries), JB_RetriesCount = 0, JB_ScheduledAt = now env, JB_LastError = None,
      JB_CreatedAt = now env, JB_UpdatedAt = now env\<rparr>"

text \<open>The payload is what \<^verbatim>\<open>json.Marshal\<close> made of it.\<close>

definition Enqueue :: "job_env \<Rightarrow> string \<Rightarrow> string result \<Rightarrow> int \<Rightarrow> JobQueue \<Rightarrow> Job result \<times> JobQueue" where
  "Enqueue env q payload maxRetries jq =
     (case payload of
        Inl e \<Rightarrow> (Inl (Wrap ''marshal payload'' e), jq)
      | Inr bytes \<Rightarrow>
          (let job = new_job env q bytes maxRetries in
           case jq of
             Table rows \<Rightarrow>
               (case fault env (JQ_Insert (JB_ID job)) of
                  Some e \<Rightarrow> (Inl (Wrap ''enqueue query'' e), jq)
                | None \<Rightarrow> if \<exists>r \<in> set rows. JB_ID r = JB_ID job then (Inl (Wrap ''enqueue query'' unique_violation), jq)
                          else (Inr job, Table (rows @ [job])))
           | Memory rows \<Rightarrow> (Inr job, Memory (filter (\<lambda>r. JB_ID r \<noteq> JB_ID job) rows @ [job]))))"

definition runnable :: "time \<Rightarrow> string \<Rightarrow> Job \<Rightarrow> bool" where
  "runnable t q j = (JB_QueueName j = q \<and> JB_Status j = StatusPending \<and> JB_ScheduledAt j \<le> t)"

definition set_job :: "string \<Rightarrow> (Job \<Rightarrow> Job) \<Rightarrow> Job list \<Rightarrow> Job list" where
  "set_job i f = update_where (\<lambda>j. JB_ID j = i) f"

definition start_job :: "time \<Rightarrow> Job \<Rightarrow> Job" where
  "start_job t j = j\<lparr>JB_Status := StatusProcessing, JB_UpdatedAt := t\<rparr>"

definition Dequeue :: "job_env \<Rightarrow> string \<Rightarrow> JobQueue \<Rightarrow> Job option result \<times> JobQueue" where
  "Dequeue env q jq =
     (case jq of
        Table rows \<Rightarrow>
          attempt (run_query env JQ_Begin ()) jq (\<lambda>_.
          attempt (run_query env (JQ_Select q) (List.find (\<lambda>j. \<not> locked env (JB_ID j)) (sort_key JB_ScheduledAt (filter (runnable (now env) q) rows)))) jq (\<lambda>found.
          case found of
            None \<Rightarrow> (Inr None, jq)
          | Some j \<Rightarrow>
              attempt (run_query env (JQ_Claim (JB_ID j)) ()) jq (\<lambda>_.
              attempt (run_query env JQ_Commit ()) jq (\<lambda>_.
              (Inr (Some (j\<lparr>JB_Status := StatusProcessing, JB_LastError := None\<rparr>)), Table (set_job (JB_ID j) (start_job (now env)) rows))))))
      | Memory rows \<Rightarrow>
          (case List.find (runnable (now env) q) (range_order env rows) of
             None \<Rightarrow> (Inr None, jq)
           | Some j \<Rightarrow> (Inr (Some (start_job (now env) j)), Memory (set_job (JB_ID j) (start_job (now env)) rows))))"

definition complete_job :: "time \<Rightarrow> Job \<Rightarrow> Job" where
  "complete_job t j = j\<lparr>JB_Status := StatusCompleted, JB_UpdatedAt := t\<rparr>"

definition Complete :: "job_env \<Rightarrow> string \<Rightarrow> JobQueue \<Rightarrow> unit result \<times> JobQueue" where
  "Complete env i jq =
     (case jq of
        Table rows \<Rightarrow> attempt (run_query env (JQ_Complete i) ()) jq (\<lambda>_. (Inr (), Table (set_job i (complete_job (now env)) rows)))
      | Memory rows \<Rightarrow> (Inr (), Memory (set_job i (complete_job (now env)) rows)))"

text \<open>\<^verbatim>\<open>time.Duration(1<<uint(n)) * time.Second\<close> on 64 bits.\<close>

definition backoff :: "int \<Rightarrow> duration" where
  "backoff n = (if n < 0 then 0 else sint (word_of_int (2 ^ nat n * second) :: int64))"

definition fail_job :: "time \<Rightarrow> string \<Rightarrow> Job \<Rightarrow> Job" where
  "fail_job t m j =
     (let n = JB_RetriesCount j + 1; j' = j\<lparr>JB_RetriesCount := n, JB_LastError := Some m, JB_UpdatedAt := t\<rparr> in
      if n \<ge> JB_MaxRetries j then j'\<lparr>JB_Status := StatusDeadLetter\<rparr>
      else j'\<lparr>JB_Status := StatusPending, JB_ScheduledAt := t + backoff n\<rparr>)"

definition Fail :: "job_env \<Rightarrow> string \<Rightarrow> error \<Rightarrow> JobQueue \<Rightarrow> unit result \<times> JobQueue" where
  "Fail env i execErr jq =
     (case jq of
        Table rows \<Rightarrow>
          attempt (run_query env (JQ_Load i) (List.find (\<lambda>j. JB_ID j = i) rows)) jq (\<lambda>found.
          case found of
            None \<Rightarrow> (Inl (Sentinel Sql_ErrNoRows), jq)
          | Some j \<Rightarrow>
              attempt (run_query env (if JB_RetriesCount j + 1 \<ge> JB_MaxRetries j then JQ_Dead i else JQ_Retry i) ()) jq (\<lambda>_.
              (Inr (), Table (set_job i (fail_job (now env) (error_text execErr)) rows))))
      | Memory rows \<Rightarrow> (Inr (), Memory (set_job i (fail_job (now env) (error_text execErr)) rows)))"

definition GetDeadLetterJobs :: "job_env \<Rightarrow> JobQueue \<Rightarrow> Job list result" where
  "GetDeadLetterJobs env jq =
     (case jq of
        Table rows \<Rightarrow> run_query env JQ_ListDead (sort_key (\<lambda>j. - JB_UpdatedAt j) (filter (\<lambda>j. JB_Status j = StatusDeadLetter) rows))
      | Memory rows \<Rightarrow> Inr (filter (\<lambda>j. JB_Status j = StatusDeadLetter) (range_order env rows)))"

text \<open>The two getters look at the map only, which is empty when there is a database.\<close>

definition memory_job :: "string \<Rightarrow> JobQueue \<Rightarrow> Job option" where
  "memory_job i jq = (case jq of Table rows \<Rightarrow> None | Memory rows \<Rightarrow> List.find (\<lambda>j. JB_ID j = i) rows)"

definition GetJobStatus :: "string \<Rightarrow> JobQueue \<Rightarrow> JobStatus option" where
  "GetJobStatus i jq = map_option JB_Status (memory_job i jq)"

definition GetJobRetries :: "string \<Rightarrow> JobQueue \<Rightarrow> int" where
  "GetJobRetries i jq = (case memory_job i jq of None \<Rightarrow> 0 | Some j \<Rightarrow> JB_RetriesCount j)"

definition revive_job :: "time \<Rightarrow> Job \<Rightarrow> Job" where
  "revive_job t j = j\<lparr>JB_Status := StatusPending, JB_RetriesCount := 0, JB_ScheduledAt := t, JB_UpdatedAt := t\<rparr>"

definition RetryDeadLetterJob :: "job_env \<Rightarrow> string \<Rightarrow> JobQueue \<Rightarrow> unit result \<times> JobQueue" where
  "RetryDeadLetterJob env i jq =
     (let dead = (\<lambda>j. JB_ID j = i \<and> JB_Status j = StatusDeadLetter) in
      case jq of
        Table rows \<Rightarrow>
          attempt (run_query env (JQ_Revive i) ()) jq (\<lambda>_.
          if rows_affected dead rows = 0 then (Inl (Errorf ''dead letter job not found or not in dead_letter status''), jq)
          else (Inr (), Table (update_where dead (revive_job (now env)) rows)))
      | Memory rows \<Rightarrow>
          (if \<not> (\<exists>j \<in> set rows. dead j) then (Inl (Errorf ''dead letter job not found''), jq)
           else (Inr (), Memory (update_where dead (revive_job (now env)) rows))))"

section \<open>Worker\<close>

type_synonym JobHandler = "string \<Rightarrow> unit result"

text \<open>
  The worker uses the queue through three operations. The environments of a call are numbered: every call of the store and every run of the
  handler \<open>h k\<close> happens in its own. \<open>process_job\<close> and \<open>drainQueue\<close> are \<^verbatim>\<open>process\<close> and the loop \<^verbatim>\<open>drainQueue\<close>;
  \<open>None\<close> means that the loop does not return.
\<close>

definition process_job :: "('e \<Rightarrow> string \<Rightarrow> 's \<Rightarrow> unit result \<times> 's) \<Rightarrow> ('e \<Rightarrow> string \<Rightarrow> error \<Rightarrow> 's \<Rightarrow> unit result \<times> 's)
    \<Rightarrow> 'e \<Rightarrow> JobHandler \<Rightarrow> Job \<Rightarrow> 's \<Rightarrow> 's" where
  "process_job cmpl fail env handler j s =
     (case handler (JB_Payload j) of
        Inl e \<Rightarrow> snd (fail env (JB_ID j) e s)
      | Inr _ \<Rightarrow> snd (cmpl env (JB_ID j) s))"

partial_function (option) drainQueue :: "('e \<Rightarrow> string \<Rightarrow> 's \<Rightarrow> Job option result \<times> 's) \<Rightarrow> ('e \<Rightarrow> string \<Rightarrow> 's \<Rightarrow> unit result \<times> 's)
    \<Rightarrow> ('e \<Rightarrow> string \<Rightarrow> error \<Rightarrow> 's \<Rightarrow> unit result \<times> 's) \<Rightarrow> (nat \<Rightarrow> 'e) \<Rightarrow> (nat \<Rightarrow> JobHandler) \<Rightarrow> string \<Rightarrow> nat \<Rightarrow> 's \<Rightarrow> (unit result \<times> 's) option" where
  "drainQueue deq cmpl fail envs h q k s =
     (case deq (envs (2 * k)) q s of
        (Inl e, s') \<Rightarrow> Some (Inl e, s')
      | (Inr None, s') \<Rightarrow> Some (Inr (), s')
      | (Inr (Some j), s') \<Rightarrow> drainQueue deq cmpl fail envs h q (Suc k) (process_job cmpl fail (envs (2 * k + 1)) (h k) j s'))"

text \<open>\<^verbatim>\<open>processQueues\<close>: the registered queues one after the other, errors are logged.\<close>

fun processQueues :: "(string \<Rightarrow> nat \<Rightarrow> job_env) \<Rightarrow> (string \<times> (nat \<Rightarrow> JobHandler)) list \<Rightarrow> JobQueue \<Rightarrow> JobQueue option" where
  "processQueues envs [] jq = Some jq"
| "processQueues envs ((q, h) # rest) jq =
     (case drainQueue Dequeue Complete Fail (envs q) h q 0 jq of None \<Rightarrow> None | Some (r, jq') \<Rightarrow> processQueues envs rest jq')"

section \<open>The interface of the worker\<close>

text \<open>What a job still costs at most: the attempts that are left while it is pending.\<close>

definition attempts_left :: "Job \<Rightarrow> nat" where
  "attempts_left j = nat (JB_MaxRetries j - JB_RetriesCount j)"

definition budget :: "Job list \<Rightarrow> nat" where
  "budget js = sum_list (map (\<lambda>j. if JB_Status j = StatusPending then attempts_left j else 0) js)"

text \<open>
  The laws of a store: a dequeued job was pending and is now in process, which takes its attempts out of the budget; failing it returns at most all
  but one of them; completing a job returns none.
\<close>

locale job_store =
  fixes deq :: "'e \<Rightarrow> string \<Rightarrow> 's \<Rightarrow> Job option result \<times> 's"
    and cmpl :: "'e \<Rightarrow> string \<Rightarrow> 's \<Rightarrow> unit result \<times> 's"
    and fail :: "'e \<Rightarrow> string \<Rightarrow> error \<Rightarrow> 's \<Rightarrow> unit result \<times> 's"
    and rows :: "'s \<Rightarrow> Job list"
    and good :: "'s \<Rightarrow> bool"
    and fine :: "'e \<Rightarrow> bool"
  assumes dequeue_budget: "fine e \<Longrightarrow> good s \<Longrightarrow> deq e q s = (Inr (Some j), s') \<Longrightarrow>
      good s' \<and> attempts_left j > 0 \<and> budget (rows s') + attempts_left j = budget (rows s)
      \<and> (\<forall>x \<in> set (rows s'). JB_ID x = JB_ID j \<longrightarrow> JB_Status x = StatusProcessing \<and> attempts_left x = attempts_left j)"
    and deq_stop: "deq e q s = (r, s') \<Longrightarrow> (\<And>j. r \<noteq> Inr (Some j)) \<Longrightarrow> s' = s"
    and complete_budget: "fine e \<Longrightarrow> good s \<Longrightarrow> good (snd (cmpl e i s)) \<and> budget (rows (snd (cmpl e i s))) \<le> budget (rows s)"
    and fail_budget: "fine e \<Longrightarrow> good s \<Longrightarrow> 0 < n \<Longrightarrow> \<forall>x \<in> set (rows s). JB_ID x = i \<longrightarrow> JB_Status x = StatusProcessing \<and> attempts_left x = n \<Longrightarrow>
      good (snd (fail e i err s)) \<and> budget (rows (snd (fail e i err s))) < budget (rows s) + n"
begin

lemma process_budget:
  assumes "fine e" "fine e'" "good s" "deq e q s = (Inr (Some j), s')"
  shows "good (process_job cmpl fail e' h j s') \<and> budget (rows (process_job cmpl fail e' h j s')) < budget (rows s)"
proof -
  note d = dequeue_budget [OF assms(1,3,4)]
  show ?thesis
  proof (cases "h (JB_Payload j)")
    case (Inl err)
    then show ?thesis using d fail_budget [OF assms(2), of s' "attempts_left j" "JB_ID j" err] by (auto simp: process_job_def)
  next
    case (Inr x)
    then show ?thesis using d complete_budget [OF assms(2), of s' "JB_ID j"] by (auto simp: process_job_def)
  qed
qed

text \<open>The loop ends: every turn uses up an attempt.\<close>

lemma drain_returns:
  "\<forall>k. fine (envs k) \<Longrightarrow> good s \<Longrightarrow> \<exists>r s'. drainQueue deq cmpl fail envs h q k s = Some (r, s') \<and> good s' \<and> budget (rows s') \<le> budget (rows s)"
proof (induction "budget (rows s)" arbitrary: s k rule: less_induct)
  case less
  obtain r s1 where d: "deq (envs (2 * k)) q s = (r, s1)" by fastforce
  consider e where "r = Inl e" | "r = Inr None" | j where "r = Inr (Some j)" by (metis old.sum.exhaust option.exhaust)
  then show ?case
  proof cases
    case 3
    let ?s = "process_job cmpl fail (envs (2 * k + 1)) (h k) j s1"
    have s: "good ?s" "budget (rows ?s) < budget (rows s)" using process_budget [OF _ _ less.prems(2)] less.prems(1) d 3 by blast+
    from less.hyps [OF s(2) less.prems(1) s(1), of "Suc k"] obtain r' s'
      where "drainQueue deq cmpl fail envs h q (Suc k) ?s = Some (r', s')" "good s'" "budget (rows s') \<le> budget (rows ?s)" by blast
    then show ?thesis using d 3 s(2) by (subst drainQueue.simps) auto
  qed (use d deq_stop [OF d] less.prems in \<open>auto simp: drainQueue.simps\<close>)
qed

end

section \<open>The queue as a store\<close>

text \<open>
  Well-formed queues: identifiers are unique, and a job that is pending or in process has an attempt left. Go ranges over a map in some order of its entries.
\<close>

definition queue_ok :: "JobQueue \<Rightarrow> bool" where
  "queue_ok jq = (distinct (map JB_ID (jobs jq)) \<and> (\<forall>j \<in> set (jobs jq). JB_Status j \<in> {StatusPending, StatusProcessing} \<longrightarrow> JB_RetriesCount j < JB_MaxRetries j)
     \<and> (\<forall>j \<in> set (jobs jq). 0 \<le> JB_RetriesCount j \<and> 0 < JB_MaxRetries j \<and> JB_Status j \<noteq> StatusFailed))"

definition ranges :: "job_env \<Rightarrow> bool" where
  "ranges env = (\<forall>js. set (range_order env js) = set js)"

lemma budget_set_job:
  assumes "distinct (map JB_ID js)" "j \<in> set js"
  shows "budget (set_job (JB_ID j) f js) + (if JB_Status j = StatusPending then attempts_left j else 0)
     = budget js + (if JB_Status (f j) = StatusPending then attempts_left (f j) else 0)"
  using assms
proof (induction js)
  case (Cons x js)
  show ?case
  proof (cases "x = j")
    case True
    then have "set_job (JB_ID j) f js = js" using Cons.prems(1) unfolding set_job_def by (intro update_where_none ballI) (use True in \<open>auto simp: image_iff\<close>)
    then show ?thesis using True by (simp add: set_job_def budget_def)
  next
    case False
    then have "j \<in> set js" "JB_ID x \<noteq> JB_ID j" using Cons.prems by auto
    then show ?thesis using Cons by (simp add: set_job_def budget_def)
  qed
qed simp

lemma set_job_absent: "i \<notin> JB_ID ` set js \<Longrightarrow> set_job i f js = js"
  unfolding set_job_def by (rule update_where_none) auto

lemma ids_set_job [simp]: "(\<And>j. JB_ID (f j) = JB_ID j) \<Longrightarrow> map JB_ID (set_job i f js) = map JB_ID js"
  by (simp add: set_job_def map_update_where)

lemma set_job_cases: "x \<in> set (set_job i f js) \<Longrightarrow> (x \<in> set js \<and> JB_ID x \<noteq> i) \<or> (\<exists>y \<in> set js. JB_ID y = i \<and> x = f y)"
  by (auto simp: set_job_def update_where_def split: if_splits)

text \<open>What a successful dequeue did, in either store.\<close>

lemma Dequeue_Some:
  assumes "Dequeue env q jq = (Inr (Some r), jq')" "ranges env"
  shows "\<exists>j \<in> set (jobs jq). runnable (now env) q j \<and> JB_ID r = JB_ID j \<and> JB_Payload r = JB_Payload j \<and> attempts_left r = attempts_left j
     \<and> jobs jq' = set_job (JB_ID j) (start_job (now env)) (jobs jq)"
proof (cases jq)
  case (Table rows)
  then obtain j where j: "List.find (\<lambda>j. \<not> locked env (JB_ID j)) (sort_key JB_ScheduledAt (filter (runnable (now env) q) rows)) = Some j"
    "r = j\<lparr>JB_Status := StatusProcessing, JB_LastError := None\<rparr>" "jq' = Table (set_job (JB_ID j) (start_job (now env)) rows)"
    using assms(1) by (auto simp: Dequeue_def attempt_Inr run_query_Inr split: option.splits)
  then show ?thesis using find_Some_D [OF j(1)] Table by (auto simp: attempts_left_def)
next
  case (Memory rows)
  then obtain j where j: "List.find (runnable (now env) q) (range_order env rows) = Some j" "r = start_job (now env) j"
    "jq' = Memory (set_job (JB_ID j) (start_job (now env)) rows)"
    using assms(1) by (auto simp: Dequeue_def split: option.splits)
  then show ?thesis using find_Some_D [OF j(1)] Memory assms(2) by (auto simp: ranges_def attempts_left_def start_job_def)
qed

lemma Complete_rows: "jobs (snd (Complete env i jq)) = jobs jq \<or> jobs (snd (Complete env i jq)) = set_job i (complete_job (now env)) (jobs jq)"
  by (cases jq) (auto simp: Complete_def attempt_def split: sum.splits)

lemma Fail_rows: "jobs (snd (Fail env i err jq)) = jobs jq \<or> jobs (snd (Fail env i err jq)) = set_job i (fail_job (now env) (error_text err)) (jobs jq)"
  by (cases jq) (auto simp: Fail_def attempt_def split: sum.splits option.splits)

lemma job_updates_id [simp]: "JB_ID (start_job t j) = JB_ID j" "JB_ID (complete_job t j) = JB_ID j" "JB_ID (fail_job t m j) = JB_ID j" "JB_ID (revive_job t j) = JB_ID j"
  by (simp_all add: start_job_def complete_job_def fail_job_def revive_job_def Let_def)

lemma queue_ok_set_job:
  assumes "queue_ok jq" "jobs jq' = set_job i f (jobs jq)" "\<And>j. JB_ID (f j) = JB_ID j"
    and "\<And>j. j \<in> set (jobs jq) \<Longrightarrow> JB_ID j = i \<Longrightarrow> (JB_Status (f j) \<in> {StatusPending, StatusProcessing} \<longrightarrow> JB_RetriesCount (f j) < JB_MaxRetries (f j))
       \<and> 0 \<le> JB_RetriesCount (f j) \<and> 0 < JB_MaxRetries (f j) \<and> JB_Status (f j) \<noteq> StatusFailed"
  shows "queue_ok jq'"
  using assms unfolding queue_ok_def assms(2) by (auto dest!: set_job_cases)

lemma queue_ok_cong: "jobs jq' = jobs jq \<Longrightarrow> queue_ok jq' = queue_ok jq"
  by (simp add: queue_ok_def)

lemma queue_ok_Complete: "queue_ok jq \<Longrightarrow> queue_ok (snd (Complete env i jq))"
  using Complete_rows [of env i jq]
proof
  assume "queue_ok jq" "jobs (snd (Complete env i jq)) = set_job i (complete_job (now env)) (jobs jq)"
  then show ?thesis by (rule queue_ok_set_job) (use \<open>queue_ok jq\<close> in \<open>auto simp: complete_job_def queue_ok_def\<close>)
qed (use queue_ok_cong in blast)

lemma queue_ok_Fail: "queue_ok jq \<Longrightarrow> queue_ok (snd (Fail env i e jq))"
  using Fail_rows [of env i e jq]
proof
  assume "queue_ok jq" "jobs (snd (Fail env i e jq)) = set_job i (fail_job (now env) (error_text e)) (jobs jq)"
  then show ?thesis by (rule queue_ok_set_job) (use \<open>queue_ok jq\<close> in \<open>auto simp: fail_job_def queue_ok_def Let_def\<close>)
qed (use queue_ok_cong in blast)

interpretation jobs_of_queue: job_store Dequeue Complete Fail jobs queue_ok ranges
proof
  fix e s q j s' assume e: "ranges e" and s: "queue_ok s" and d: "Dequeue e q s = (Inr (Some j), s')"
  obtain x where x: "x \<in> set (jobs s)" "runnable (now e) q x" "JB_ID j = JB_ID x" "attempts_left j = attempts_left x"
    "jobs s' = set_job (JB_ID x) (start_job (now e)) (jobs s)" using Dequeue_Some [OF d e] by blast
  have dist: "distinct (map JB_ID (jobs s))" using s by (simp add: queue_ok_def)
  have same: "y = x" if "y \<in> set (jobs s)" "JB_ID y = JB_ID x" for y using dist that x(1) by (metis distinct_map inj_onD)
  have "JB_RetriesCount x < JB_MaxRetries x" using s x(1,2) by (auto simp: queue_ok_def runnable_def)
  then have pos: "attempts_left x > 0" by (simp add: attempts_left_def)
  have ok: "queue_ok s'"
    by (rule queue_ok_set_job [OF s x(5)]) (use s x(2) same in \<open>auto simp: start_job_def queue_ok_def runnable_def\<close>)
  have b: "budget (jobs s') + attempts_left j = budget (jobs s)"
    using budget_set_job [OF dist x(1), of "start_job (now e)"] x by (simp add: runnable_def start_job_def)
  have "JB_Status y = StatusProcessing \<and> attempts_left y = attempts_left j" if "y \<in> set (jobs s')" "JB_ID y = JB_ID j" for y
    using set_job_cases [OF that(1) [unfolded x(5)]] that(2) x(3,4) same by (auto simp: start_job_def attempts_left_def dest: same)
  then show "queue_ok s' \<and> attempts_left j > 0 \<and> budget (jobs s') + attempts_left j = budget (jobs s)
      \<and> (\<forall>x \<in> set (jobs s'). JB_ID x = JB_ID j \<longrightarrow> JB_Status x = StatusProcessing \<and> attempts_left x = attempts_left j)"
    using ok pos b x(4) by simp
next
  fix e q s r s' assume "Dequeue e q s = (r, s')" "\<And>j. r \<noteq> Inr (Some j)"
  then show "s' = s" by (cases s) (auto simp: Dequeue_def attempt_def split: sum.splits option.splits)
next
  fix e s i assume s: "queue_ok s"
  have dist: "distinct (map JB_ID (jobs s))" using s by (simp add: queue_ok_def)
  consider "jobs (snd (Complete e i s)) = jobs s" | "jobs (snd (Complete e i s)) = set_job i (complete_job (now e)) (jobs s)" using Complete_rows by blast
  then show "queue_ok (snd (Complete e i s)) \<and> budget (jobs (snd (Complete e i s))) \<le> budget (jobs s)"
  proof cases
    case 1
    then show ?thesis using s by (simp add: queue_ok_def)
  next
    case 2
    have "budget (set_job i (complete_job (now e)) (jobs s)) \<le> budget (jobs s)"
    proof (cases "i \<in> JB_ID ` set (jobs s)")
      case True
      then obtain j where "j \<in> set (jobs s)" "i = JB_ID j" by blast
      then show ?thesis using budget_set_job [OF dist, of j "complete_job (now e)"] by (simp add: complete_job_def)
    qed (simp add: set_job_absent)
    then show ?thesis using 2 queue_ok_Complete [OF s] by simp
  qed
next
  fix e s and n :: nat and i err
  assume s: "queue_ok s" and n: "0 < n" and p: "\<forall>x \<in> set (jobs s). JB_ID x = i \<longrightarrow> JB_Status x = StatusProcessing \<and> attempts_left x = n"
  have dist: "distinct (map JB_ID (jobs s))" using s by (simp add: queue_ok_def)
  consider "jobs (snd (Fail e i err s)) = jobs s" | "jobs (snd (Fail e i err s)) = set_job i (fail_job (now e) (error_text err)) (jobs s)" using Fail_rows by blast
  then show "queue_ok (snd (Fail e i err s)) \<and> budget (jobs (snd (Fail e i err s))) < budget (jobs s) + n"
  proof cases
    case 1
    then show ?thesis using s n by (simp add: queue_ok_def)
  next
    case 2
    have "budget (set_job i (fail_job (now e) (error_text err)) (jobs s)) < budget (jobs s) + n"
    proof (cases "i \<in> JB_ID ` set (jobs s)")
      case True
      then obtain j where j: "j \<in> set (jobs s)" "i = JB_ID j" by blast
      then have "JB_Status j = StatusProcessing" "attempts_left j = n" using p by auto
      then show ?thesis using budget_set_job [OF dist j(1), of "fail_job (now e) (error_text err)"] j(2) n
        by (auto simp: fail_job_def Let_def attempts_left_def)
    qed (simp add: set_job_absent n)
    then show ?thesis using 2 queue_ok_Fail [OF s] by simp
  qed
qed

section \<open>Retries\<close>

text \<open>The waiting time doubles up to the 33rd retry; the next product no longer fits and is negative.\<close>

lemma backoff_doubles:
  assumes "0 \<le> n" "n \<le> 33"
  shows "backoff n = 2 ^ nat n * second"
proof -
  have "in_int64 (p * second)" if "0 \<le> p" "p \<le> 2 ^ 33" for p using that by (simp add: in_int64_def)
  moreover have "(2::int) ^ nat n \<le> 2 ^ 33" using assms by (intro power_increasing) auto
  ultimately have "in_int64 (2 ^ nat n * second)" by simp
  then show ?thesis using assms unfolding backoff_def by (simp only: sint_word_of_int64 not_less [symmetric] if_False)
qed

lemma backoff_wraps: "backoff 34 < 0"
  by (simp add: backoff_def)

section \<open>What draining achieves\<close>

text \<open>The fate of one job that is run at time \<open>t\<close>.\<close>

definition outcome :: "time \<Rightarrow> JobHandler \<Rightarrow> Job \<Rightarrow> Job" where
  "outcome t h j = (case h (JB_Payload j) of Inl e \<Rightarrow> fail_job t (error_text e) (start_job t j) | Inr _ \<Rightarrow> complete_job t (start_job t j))"

definition drained :: "time \<Rightarrow> string \<Rightarrow> JobHandler \<Rightarrow> Job \<Rightarrow> Job" where
  "drained t q h j = (if runnable t q j then outcome t h j else j)"

text \<open>Nothing fails and nothing is locked, at one point in time.\<close>

definition calm :: "time \<Rightarrow> job_env \<Rightarrow> bool" where
  "calm t env = (ranges env \<and> now env = t \<and> (\<forall>s. fault env s = None) \<and> (\<forall>i. \<not> locked env i))"

lemma outcome_not_runnable:
  assumes "0 \<le> JB_RetriesCount j" "JB_MaxRetries j \<le> 34"
  shows "\<not> runnable t q (outcome t h j)"
proof (cases "h (JB_Payload j)")
  case (Inl e)
  show ?thesis
  proof (cases "JB_RetriesCount j + 1 < JB_MaxRetries j")
    case True
    then have "0 < backoff (JB_RetriesCount j + 1)" using assms by (simp add: backoff_doubles)
    then show ?thesis using Inl by (auto simp: outcome_def runnable_def fail_job_def start_job_def Let_def)
  qed (use Inl in \<open>auto simp: outcome_def runnable_def fail_job_def start_job_def Let_def\<close>)
qed (simp add: outcome_def runnable_def complete_job_def)

lemma outcome_fields: "JB_ID (outcome t h j) = JB_ID j" "JB_MaxRetries (outcome t h j) = JB_MaxRetries j"
  by (simp_all add: outcome_def fail_job_def start_job_def complete_job_def Let_def split: sum.split)

lemma Dequeue_calm:
  assumes "calm t env" "Dequeue env q jq = (r, jq')"
  shows "r = Inr None \<and> (\<forall>j \<in> set (jobs jq). \<not> runnable t q j) \<and> jq' = jq \<or> (\<exists>j. r = Inr (Some j))"
proof (cases jq)
  case (Table rows)
  have c: "\<And>s. fault env s = None" "\<And>i. \<not> locked env i" "now env = t" using assms(1) by (simp_all add: calm_def)
  show ?thesis
  proof (cases "sort_key JB_ScheduledAt (filter (runnable t q) rows)")
    case Nil
    then have "set (filter (runnable t q) rows) = {}" by (metis set_empty set_sort)
    then show ?thesis using Table assms(2) Nil c by (auto simp: Dequeue_def)
  qed (use Table assms(2) c in \<open>auto simp: Dequeue_def\<close>)
next
  case (Memory rows)
  then show ?thesis using assms by (auto simp: Dequeue_def calm_def ranges_def find_None_iff split: option.splits)
qed

lemma process_calm:
  assumes "calm t env" "calm t env'" "queue_ok jq" "Dequeue env q jq = (Inr (Some r), jq')"
  shows "\<exists>j \<in> set (jobs jq). runnable t q j \<and> jobs (process_job Complete Fail env' h r jq') = set_job (JB_ID j) (outcome t h) (jobs jq)"
proof -
  obtain j where j: "j \<in> set (jobs jq)" "runnable t q j" "JB_ID r = JB_ID j" "JB_Payload r = JB_Payload j"
    "jobs jq' = set_job (JB_ID j) (start_job t) (jobs jq)" using Dequeue_Some [OF assms(4)] assms(1) by (auto simp: calm_def)
  have c: "\<And>s. fault env' s = None" "now env' = t" using assms(2) by (simp_all add: calm_def)
  have same: "y = j" if "y \<in> set (jobs jq)" "JB_ID y = JB_ID j" for y
    using assms(3) that j(1) unfolding queue_ok_def by (metis distinct_map inj_onD)
  have two: "set_job (JB_ID j) f (set_job (JB_ID j) (start_job t) (jobs jq)) = set_job (JB_ID j) (outcome t h) (jobs jq)" if "f (start_job t j) = outcome t h j" for f
    using same that by (auto simp: set_job_def update_where_def)
  have ex: "List.find (\<lambda>x. JB_ID x = JB_ID j) (set_job (JB_ID j) (start_job t) (jobs jq)) \<noteq> None"
    using j(1) by (auto simp: find_None_iff set_job_def update_where_def)
  have "jobs (process_job Complete Fail env' h r jq') = set_job (JB_ID j) (outcome t h) (jobs jq)"
  proof (cases "h (JB_Payload j)")
    case (Inl e)
    have "jobs (snd (Fail env' (JB_ID j) e jq')) = set_job (JB_ID j) (fail_job t (error_text e)) (jobs jq')"
      using ex c j(5) by (cases jq') (auto simp: Fail_def)
    then show ?thesis using two [of "fail_job t (error_text e)"] Inl j by (simp add: process_job_def outcome_def)
  next
    case (Inr x)
    have "jobs (snd (Complete env' (JB_ID j) jq')) = set_job (JB_ID j) (complete_job t) (jobs jq')"
      using c by (cases jq') (auto simp: Complete_def)
    then show ?thesis using two [of "complete_job t"] Inr j by (simp add: process_job_def outcome_def)
  qed
  with j show ?thesis by blast
qed

lemma length_filter_mono: "(\<And>x. x \<in> set xs \<Longrightarrow> A x \<Longrightarrow> B x) \<Longrightarrow> length (filter A xs) \<le> length (filter B xs)"
proof (induction xs)
  case (Cons x xs)
  then have "length (filter A xs) \<le> length (filter B xs)" by simp
  then show ?case using Cons.prems [of x] by auto
qed simp

lemma length_filter_less:
  "(\<And>x. x \<in> set xs \<Longrightarrow> A x \<Longrightarrow> B x) \<Longrightarrow> y \<in> set xs \<Longrightarrow> B y \<Longrightarrow> \<not> A y \<Longrightarrow> length (filter A xs) < length (filter B xs)"
proof (induction xs)
  case (Cons x xs)
  have "length (filter A xs) \<le> length (filter B xs)" by (rule length_filter_mono) (use Cons.prems(1) in auto)
  then show ?case using Cons by auto
qed simp

lemma drained_set_job:
  assumes "queue_ok jq" "\<forall>j \<in> set (jobs jq). JB_MaxRetries j \<le> 34" "j \<in> set (jobs jq)" "runnable t q j"
  shows "map (drained t q h) (set_job (JB_ID j) (outcome t h) (jobs jq)) = map (drained t q h) (jobs jq)"
    and "length (filter (runnable t q) (set_job (JB_ID j) (outcome t h) (jobs jq))) < length (filter (runnable t q) (jobs jq))"
proof -
  have same: "y = j" if "y \<in> set (jobs jq)" "JB_ID y = JB_ID j" for y
    using assms(1,3) that unfolding queue_ok_def by (metis distinct_map inj_onD)
  have nr: "\<not> runnable t q (outcome t h j)" using assms by (intro outcome_not_runnable) (auto simp: queue_ok_def)
  show "map (drained t q h) (set_job (JB_ID j) (outcome t h) (jobs jq)) = map (drained t q h) (jobs jq)"
    using same nr assms(4) by (auto simp: set_job_def update_where_def drained_def)
  have "runnable t q x" if "x \<in> set (jobs jq)" "runnable t q (if JB_ID x = JB_ID j then outcome t h x else x)" for x
    using that same [OF that(1)] nr by (auto split: if_splits)
  then have "length (filter (\<lambda>x. runnable t q (if JB_ID x = JB_ID j then outcome t h x else x)) (jobs jq)) < length (filter (runnable t q) (jobs jq))"
    using assms(3,4) nr by (intro length_filter_less) auto
  then show "length (filter (runnable t q) (set_job (JB_ID j) (outcome t h) (jobs jq))) < length (filter (runnable t q) (jobs jq))"
    by (simp add: set_job_def update_where_def filter_map comp_def)
qed

lemma drain_calm:
  assumes "\<forall>k. calm t (envs k)"
  shows "queue_ok jq \<Longrightarrow> \<forall>j \<in> set (jobs jq). JB_MaxRetries j \<le> 34 \<Longrightarrow>
    \<exists>jq'. drainQueue Dequeue Complete Fail envs (\<lambda>k. h) q k jq = Some (Inr (), jq') \<and> jobs jq' = map (drained t q h) (jobs jq)"
proof (induction "length (filter (runnable t q) (jobs jq))" arbitrary: jq k rule: less_induct)
  case less
  obtain r jq1 where d: "Dequeue (envs (2 * k)) q jq = (r, jq1)" by fastforce
  from Dequeue_calm [OF assms [rule_format] d] show ?case
  proof
    assume none: "r = Inr None \<and> (\<forall>j \<in> set (jobs jq). \<not> runnable t q j) \<and> jq1 = jq"
    then have "map (drained t q h) (jobs jq) = jobs jq" by (intro map_idI) (simp add: drained_def)
    then show ?thesis using none d by (subst drainQueue.simps) simp
  next
    assume "\<exists>j. r = Inr (Some j)"
    then obtain x where x: "r = Inr (Some x)" by blast
    let ?jq = "process_job Complete Fail (envs (2 * k + 1)) h x jq1"
    obtain j where j: "j \<in> set (jobs jq)" "runnable t q j" "jobs ?jq = set_job (JB_ID j) (outcome t h) (jobs jq)"
      using process_calm [OF assms [rule_format] assms [rule_format] less.prems(1) d [unfolded x], where h = h] by blast
    have ok: "queue_ok ?jq"
      using jobs_of_queue.process_budget [OF _ _ less.prems(1) d [unfolded x]] assms by (auto simp: calm_def)
    have max: "\<forall>j \<in> set (jobs ?jq). JB_MaxRetries j \<le> 34" using less.prems(2) unfolding j(3) by (auto dest!: set_job_cases simp: outcome_fields)
    note ds = drained_set_job [OF less.prems j(1,2), of h]
    from less.hyps [OF ds(2) [folded j(3)] ok max, of "Suc k"] show ?thesis using ds(1) j(3) d x by (subst drainQueue.simps) simp
  qed
qed

text \<open>
  C20: draining a well-formed queue ends. Whatever the clock, the handlers and the statements do, the loop of the worker returns, since every turn uses up an
  attempt of a job. If in addition the clock stands still, no statement fails, no other worker interferes and no job has more than 34 retries, then afterwards every job of
  the queue that was due is completed, or has one attempt more and is scheduled with the next delay, or is dead, as its handler decided, and
  all other jobs are as they were.
\<close>

theorem worker_drains_queue:
  assumes "\<forall>k. ranges (envs k)" "queue_ok jq"
  shows "(\<exists>r jq'. drainQueue Dequeue Complete Fail envs h q k jq = Some (r, jq') \<and> queue_ok jq')
    \<and> ((\<forall>k. calm t (envs k)) \<longrightarrow> (\<forall>j \<in> set (jobs jq). JB_MaxRetries j \<le> 34) \<longrightarrow>
        (\<exists>jq'. drainQueue Dequeue Complete Fail envs (\<lambda>k. g) q k jq = Some (Inr (), jq') \<and> jobs jq' = map (drained t q g) (jobs jq)))"
proof (intro conjI impI)
  show "\<exists>r jq'. drainQueue Dequeue Complete Fail envs h q k jq = Some (r, jq') \<and> queue_ok jq'"
    using jobs_of_queue.drain_returns [OF assms] by blast
  show "\<exists>jq'. drainQueue Dequeue Complete Fail envs (\<lambda>k. g) q k jq = Some (Inr (), jq') \<and> jobs jq' = map (drained t q g) (jobs jq)"
    if "\<forall>k. calm t (envs k)" "\<forall>j \<in> set (jobs jq). JB_MaxRetries j \<le> 34"
    using drain_calm [OF that(1) assms(2) that(2)] .
qed

text \<open>
  Retries are limited: whatever calls are made, a job that waits or runs has been attempted fewer times than allowed, so that the n-th failure in a row
  dead-letters a job with n attempts.
\<close>

inductive job_step :: "JobQueue \<Rightarrow> JobQueue \<Rightarrow> bool" where
  enqueue: "job_step jq (snd (Enqueue env q payload n jq))"
| dequeue: "ranges env \<Longrightarrow> job_step jq (snd (Dequeue env q jq))"
| complete: "job_step jq (snd (Complete env i jq))"
| fail: "job_step jq (snd (Fail env i e jq))"
| revive: "job_step jq (snd (RetryDeadLetterJob env i jq))"

lemma queue_ok_Enqueue: "queue_ok jq \<Longrightarrow> queue_ok (snd (Enqueue env q payload n jq))"
  by (cases jq) (auto simp: Enqueue_def queue_ok_def new_job_def Let_def distinct_map_filter split: sum.split option.split)

lemma queue_ok_revive: "queue_ok jq \<Longrightarrow> queue_ok (snd (RetryDeadLetterJob env i jq))"
proof -
  assume ok: "queue_ok jq"
  let ?f = "update_where (\<lambda>j. JB_ID j = i \<and> JB_Status j = StatusDeadLetter) (revive_job (now env))"
  have "jobs (snd (RetryDeadLetterJob env i jq)) = jobs jq \<or> jobs (snd (RetryDeadLetterJob env i jq)) = ?f (jobs jq)"
    by (cases jq) (auto simp: RetryDeadLetterJob_def attempt_def Let_def split: sum.splits)
  moreover have "map JB_ID (?f (jobs jq)) = map JB_ID (jobs jq)" by (simp add: map_update_where)
  ultimately show ?thesis using ok by (auto simp: queue_ok_def revive_job_def dest!: set_update_where split: if_splits)
qed

lemma queue_ok_step: "job_step jq jq' \<Longrightarrow> queue_ok jq \<Longrightarrow> queue_ok jq'"
proof (induction rule: job_step.induct)
  case (enqueue jq env q payload n)
  then show ?case by (rule queue_ok_Enqueue)
next
  case (dequeue env jq q)
  obtain r jq' where d: "Dequeue env q jq = (r, jq')" by fastforce
  then show ?case using jobs_of_queue.dequeue_budget [OF dequeue] jobs_of_queue.deq_stop [OF d] dequeue by (cases "\<exists>j. r = Inr (Some j)") auto
next
  case (complete jq env i)
  then show ?case by (rule queue_ok_Complete)
next
  case (fail jq env i e)
  then show ?case by (rule queue_ok_Fail)
next
  case (revive jq env i)
  then show ?case by (rule queue_ok_revive)
qed

lemma queue_ok_reachable: "job_step\<^sup>*\<^sup>* (NewJobQueue db) jq \<Longrightarrow> queue_ok jq"
proof (induction rule: rtranclp_induct)
  case base
  show ?case by (simp add: queue_ok_def NewJobQueue_def)
qed (rule queue_ok_step)

section \<open>Demonstration\<close>

definition demo_job_env :: job_env where
  "demo_job_env = \<lparr>uuid_Parse = (\<lambda>s. None), uuid_String = (\<lambda>u. ''j''), uuid_New = (\<lambda>n. 0), now = 5, fault = (\<lambda>q. None),
     locked = (\<lambda>i. False), range_order = rev\<rparr>"

definition demo_queue :: JobQueue where
  "demo_queue = snd (Enqueue demo_job_env ''mail'' (Inr ''x'') 2 (NewJobQueue True))"

theorem worker_drains_queue_witness:
  "\<exists>jq'. drainQueue Dequeue Complete Fail (\<lambda>k. demo_job_env) (\<lambda>k p. Inl (Driver ''smtp'')) ''mail'' 0 demo_queue = Some (Inr (), jq')
     \<and> map JB_Status (jobs jq') = [StatusPending] \<and> map JB_RetriesCount (jobs jq') = [1]"
proof -
  have c: "calm 5 demo_job_env" by (simp add: calm_def ranges_def demo_job_env_def)
  then have r: "ranges demo_job_env" by (simp add: calm_def)
  have ok: "queue_ok demo_queue" unfolding demo_queue_def by (rule queue_ok_Enqueue) (simp add: queue_ok_def NewJobQueue_def)
  have m: "\<forall>j \<in> set (jobs demo_queue). JB_MaxRetries j \<le> 34" by code_simp
  obtain jq' where jq': "drainQueue Dequeue Complete Fail (\<lambda>k. demo_job_env) (\<lambda>k p. Inl (Driver ''smtp'')) ''mail'' 0 demo_queue = Some (Inr (), jq')"
    "jobs jq' = map (drained 5 ''mail'' (\<lambda>p. Inl (Driver ''smtp''))) (jobs demo_queue)"
    using worker_drains_queue [of "\<lambda>k. demo_job_env" demo_queue, THEN conjunct2, rule_format, of 5 "\<lambda>p. Inl (Driver ''smtp'')" "''mail''" 0] c r ok m by blast
  moreover have "map JB_Status (map (drained 5 ''mail'' (\<lambda>p. Inl (Driver ''smtp''))) (jobs demo_queue)) = [StatusPending]"
    "map JB_RetriesCount (map (drained 5 ''mail'' (\<lambda>p. Inl (Driver ''smtp''))) (jobs demo_queue)) = [1]"
    by code_simp+
  ultimately show ?thesis by auto
qed

end
