(* ===== verification/OneTimeCodes.thy ===== *)
theory OneTimeCodes
  imports Redis
begin

text \<open>
  One-time codes: \<^verbatim>\<open>internal/domain/verification/service.go\<close> (codes sent by e-mail, kept in Redis) and
  \<^verbatim>\<open>internal/domain/totp/service.go\<close> with the challenge of \<^verbatim>\<open>totp_enrollment_handler.go\<close> (authenticator codes with a lockout in memory,
  backup codes). SHA-256, the random digits, the mail service, the JSON encoder and the TOTP library are parameters.
\<close>

section \<open>Codes sent by e-mail\<close>

text \<open>
  \<open>digest\<close> is the hexadecimal SHA-256 of a text, \<open>rand_digit i\<close> the \<open>i\<close>-th random number below ten that a call draws, and the senders are
  the functions given to \<^verbatim>\<open>WithEmailSender\<close>, which may be absent.
\<close>

record code_env = redis_env +
  digest :: "string \<Rightarrow> string"
  rand_digit :: "nat \<Rightarrow> nat result"
  sendOTP :: "(string \<Rightarrow> string \<Rightarrow> unit result) option"
  sendRecoveryCode :: "(string \<Rightarrow> string \<Rightarrow> unit result) option"

record PendingRegistration =
  PR_PasswordHash :: string
  PR_WalletAddr :: string
  PR_Email :: string
  PR_DisplayName :: string
  PR_Language :: string

record pending_json =
  pending_Marshal :: "PendingRegistration \<Rightarrow> string result"
  pending_Unmarshal :: "string \<Rightarrow> PendingRegistration result"

abbreviation otpTTL :: duration where "otpTTL \<equiv> 5 * 60 * second"
abbreviation resendTTL :: duration where "resendTTL \<equiv> 60 * second"
abbreviation recoveryTTL :: duration where "recoveryTTL \<equiv> 15 * 60 * second"
abbreviation pendingRegistrationTTL :: duration where "pendingRegistrationTTL \<equiv> 15 * 60 * second"
abbreviation maxAttempts :: int where "maxAttempts \<equiv> 5"

definition resend_key :: "string \<Rightarrow> string" where "resend_key m = ''otp:resend:'' @ m"
definition otp_key :: "string \<Rightarrow> string" where "otp_key m = ''otp:code:'' @ m"
definition recovery_key :: "string \<Rightarrow> string" where "recovery_key m = ''recovery:code:'' @ m"
definition pending_key :: "string \<Rightarrow> string" where "pending_key m = ''pending:register:'' @ m"

lemmas code_key_defs = resend_key_def otp_key_def recovery_key_def pending_key_def

lemma code_keys [simp]:
  "otp_key m = otp_key m' \<longleftrightarrow> m = m'" "resend_key m = resend_key m' \<longleftrightarrow> m = m'"
  "otp_key m \<noteq> resend_key m'" "otp_key m \<noteq> recovery_key m'" "otp_key m \<noteq> pending_key m'"
  "resend_key m \<noteq> otp_key m'" "resend_key m \<noteq> recovery_key m'" "resend_key m \<noteq> pending_key m'"
  by (simp_all add: code_key_defs)

fun digits_from :: "code_env \<Rightarrow> nat \<Rightarrow> nat \<Rightarrow> string result" where
  "digits_from env i 0 = Inr []"
| "digits_from env i (Suc n) =
     (case rand_digit env i of
        Inl e \<Rightarrow> Inl (Wrap ''generating random digit'' e)
      | Inr d \<Rightarrow> map_sum id (\<lambda>ds. hd (show_int (int d)) # ds) (digits_from env (Suc i) n))"

definition generateNumericCode :: "code_env \<Rightarrow> nat \<Rightarrow> string result" where
  "generateNumericCode env len = digits_from env 0 len"

definition otp_value :: "string \<Rightarrow> int \<Rightarrow> string" where
  "otp_value h n = h @ '':'' @ show_int n"

text \<open>The world of a call: the keyspace and the mails handed to the mail service.\<close>

type_synonym codes = "keyspace \<times> (string \<times> string) list"

definition deliver :: "(string \<Rightarrow> string \<Rightarrow> unit result) option \<Rightarrow> string \<Rightarrow> string \<Rightarrow> codes \<Rightarrow> unit result \<times> codes" where
  "deliver sender m code w =
     (case sender of None \<Rightarrow> (Inr (), w) | Some f \<Rightarrow> (f m code, fst w, snd w @ [(m, code)]))"

definition redis_w :: "code_env \<Rightarrow> redis_cmd \<Rightarrow> codes \<Rightarrow> reply result \<times> codes" where
  "redis_w env c w = (case run_cmd env c (fst w) of (r, R) \<Rightarrow> (r, R, snd w))"

definition SendOTP :: "code_env \<Rightarrow> string \<Rightarrow> codes \<Rightarrow> unit result \<times> codes" where
  "SendOTP env m w =
     attempt (wrap_err ''checking resend rate limit'' (redis_Exists env (resend_key m) (fst w))) w (\<lambda>exists.
     guard exists (Errorf ''please wait before requesting another code'') w (
     attempt (wrap_err ''generating OTP code'' (generateNumericCode env 6)) w (\<lambda>code.
     perform (wrap_call ''storing OTP'' (redis_w env (SET (otp_key m) (otp_value (digest env code) 0) otpTTL) w)) (\<lambda>_ w.
     perform (wrap_call ''storing resend limit'' (redis_w env (SET (resend_key m) ''1'' resendTTL) w)) (\<lambda>_ w.
     wrap_call ''sending OTP email'' (deliver (sendOTP env) m code w))))))"

text \<open>
  \<^verbatim>\<open>VerifyOTP\<close> reads the stored text, judges the code against it, and writes the outcome. The two halves are separate Redis
  calls, so requests for the same address can interleave between them.
\<close>

datatype judgement = Malformed | BadCounter | Exhausted | Match | Mismatch string int

definition judge :: "(string \<Rightarrow> string) \<Rightarrow> string \<Rightarrow> string \<Rightarrow> judgement" where
  "judge h stored code =
     (case strings_SplitN 2 CHR '':'' stored of
        [hash, tries] \<Rightarrow>
          (case strconv_ParseInt tries of
             None \<Rightarrow> BadCounter
           | Some attempts \<Rightarrow>
               if attempts < 0 then BadCounter
               else if attempts \<ge> maxAttempts then Exhausted
               else if h code = hash then Match
               else Mismatch hash attempts)
      | _ \<Rightarrow> Malformed)"

definition clear_then :: "code_env \<Rightarrow> string \<Rightarrow> string \<Rightarrow> bool result \<Rightarrow> keyspace \<Rightarrow> bool result \<times> keyspace" where
  "clear_then env msg m answer R = perform (wrap_call msg (run_cmd env (DEL [otp_key m]) R)) (\<lambda>_ R. (answer, R))"

fun settle :: "code_env \<Rightarrow> string \<Rightarrow> judgement \<Rightarrow> keyspace \<Rightarrow> bool result \<times> keyspace" where
  "settle env m Malformed R = clear_then env ''clearing malformed OTP'' m (Inl (Errorf ''invalid OTP format'')) R"
| "settle env m BadCounter R =
     clear_then env ''invalid OTP attempt counter (also failed to clear it'' m (Inl (Errorf ''invalid OTP attempt counter'')) R"
| "settle env m Exhausted R =
     clear_then env ''clearing exhausted OTP'' m (Inl (Errorf ''too many incorrect attempts. request a new code'')) R"
| "settle env m Match R = clear_then env ''clearing verified OTP'' m (Inr True) R"
| "settle env m (Mismatch hash attempts) R =
     perform (wrap_call ''updating OTP attempts'' (run_cmd env (SET (otp_key m) (otp_value hash (attempts + 1)) otpTTL) R)) (\<lambda>_ R. (Inr False, R))"

definition read_otp :: "code_env \<Rightarrow> string \<Rightarrow> string \<Rightarrow> keyspace \<Rightarrow> judgement result" where
  "read_otp env m code R =
     (case redis_Get env (otp_key m) R of
        Inl e \<Rightarrow> Inl (Wrap ''reading OTP'' e)
      | Inr None \<Rightarrow> Inl (Errorf ''OTP code expired or not found'')
      | Inr (Some stored) \<Rightarrow> Inr (judge (digest env) stored code))"

definition VerifyOTP :: "code_env \<Rightarrow> string \<Rightarrow> string \<Rightarrow> keyspace \<Rightarrow> bool result \<times> keyspace" where
  "VerifyOTP env m code R = attempt (read_otp env m code R) R (\<lambda>j. settle env m j R)"

definition SendRecoveryCode :: "code_env \<Rightarrow> string \<Rightarrow> codes \<Rightarrow> unit result \<times> codes" where
  "SendRecoveryCode env m w =
     attempt (generateNumericCode env 8) w (\<lambda>code.
     perform (wrap_call ''storing recovery code'' (redis_w env (SET (recovery_key m) (digest env code) recoveryTTL) w)) (\<lambda>_ w.
     wrap_call ''sending recovery code email'' (deliver (sendRecoveryCode env) m code w)))"

definition VerifyRecoveryCode :: "code_env \<Rightarrow> string \<Rightarrow> string \<Rightarrow> keyspace \<Rightarrow> bool result \<times> keyspace" where
  "VerifyRecoveryCode env m code R =
     (case redis_Get env (recovery_key m) R of
        Inl e \<Rightarrow> (Inl (Wrap ''reading recovery code'' e), R)
      | Inr None \<Rightarrow> (Inl (Errorf ''recovery code expired or not found''), R)
      | Inr (Some stored) \<Rightarrow>
          if digest env code = stored
          then perform (wrap_call ''clearing recovery code'' (run_cmd env (DEL [recovery_key m]) R)) (\<lambda>_ R. (Inr True, R))
          else (Inr False, R))"

definition StorePendingRegistration :: "code_env \<Rightarrow> pending_json \<Rightarrow> string \<Rightarrow> PendingRegistration \<Rightarrow> keyspace \<Rightarrow> unit result \<times> keyspace" where
  "StorePendingRegistration env json m data R =
     attempt (wrap_err ''marshaling pending registration'' (pending_Marshal json data)) R (\<lambda>payload.
     perform (run_cmd env (SET (pending_key m) payload pendingRegistrationTTL) R) (\<lambda>_ R. (Inr (), R)))"

definition GetPendingRegistration :: "code_env \<Rightarrow> pending_json \<Rightarrow> string \<Rightarrow> keyspace \<Rightarrow> PendingRegistration option result" where
  "GetPendingRegistration env json m R =
     (case redis_Get env (pending_key m) R of
        Inl e \<Rightarrow> Inl (Wrap ''reading pending registration'' e)
      | Inr None \<Rightarrow> Inr None
      | Inr (Some text) \<Rightarrow> map_sum (Wrap ''unmarshaling pending registration'') Some (pending_Unmarshal json text))"

definition DeletePendingRegistration :: "code_env \<Rightarrow> string \<Rightarrow> keyspace \<Rightarrow> unit result \<times> keyspace" where
  "DeletePendingRegistration env m R = perform (run_cmd env (DEL [pending_key m]) R) (\<lambda>_ R. (Inr (), R))"

section \<open>Authenticator and backup codes\<close>

text \<open>
  The lockout table. A missing entry is the zero value; \<open>AS_lockedUntil\<close> is \<open>None\<close> for the zero time. The library's check
  of a code against a secret at a time is the argument \<open>valid\<close>.
\<close>

record attemptState =
  AS_failures :: int
  AS_lockedUntil :: "time option"

type_synonym lockouts = "string \<Rightarrow> attemptState option"

datatype totp_error = LockoutError duration | ErrInvalidCode

abbreviation maxFailures :: int where "maxFailures \<equiv> 5"
abbreviation initialLockout :: duration where "initialLockout \<equiv> 30 * second"

definition attempts_of :: "lockouts \<Rightarrow> string \<Rightarrow> attemptState" where
  "attempts_of s a = (case s a of None \<Rightarrow> \<lparr>AS_failures = 0, AS_lockedUntil = None\<rparr> | Some st \<Rightarrow> st)"

definition CheckAccount :: "time \<Rightarrow> string \<Rightarrow> lockouts \<Rightarrow> totp_error option \<times> lockouts" where
  "CheckAccount t a s =
     (let st = attempts_of s a in
      case AS_lockedUntil st of
        None \<Rightarrow> (None, s)
      | Some u \<Rightarrow> if u > t then (Some (LockoutError (u - t)), s) else (None, s(a \<mapsto> st\<lparr>AS_lockedUntil := None\<rparr>)))"

definition lockout_delay :: "int \<Rightarrow> duration" where
  "lockout_delay f = initialLockout * 2 ^ nat (min 6 (f - maxFailures))"

definition RecordFailure :: "time \<Rightarrow> string \<Rightarrow> lockouts \<Rightarrow> totp_error option \<times> lockouts" where
  "RecordFailure t a s =
     (let st = attempts_of s a; f = AS_failures st + 1 in
      if f \<ge> maxFailures
      then (Some (LockoutError (lockout_delay f)), s(a \<mapsto> \<lparr>AS_failures = f, AS_lockedUntil = Some (t + lockout_delay f)\<rparr>))
      else (Some ErrInvalidCode, s(a \<mapsto> st\<lparr>AS_failures := f\<rparr>)))"

definition ResetAccount :: "string \<Rightarrow> lockouts \<Rightarrow> lockouts" where
  "ResetAccount a s = s(a := None)"

text \<open>
  \<^verbatim>\<open>strings.ToUpper\<close> maps the letters of an ASCII text one by one and sends every other text through the tables of \<^verbatim>\<open>unicode\<close>, which
  are the parameter \<open>upper\<close>.
\<close>

definition ascii_upper :: "char \<Rightarrow> char" where
  "ascii_upper c = (let n = (of_char c :: nat) in if 97 \<le> n \<and> n \<le> 122 then char_of (n - 32) else c)"

definition strings_ToUpper :: "(string \<Rightarrow> string) \<Rightarrow> string \<Rightarrow> string" where
  "strings_ToUpper upper s = (if \<forall>c \<in> set s. (of_char c :: nat) < 128 then map ascii_upper s else upper s)"

type_synonym totp_lib = "string \<Rightarrow> string \<Rightarrow> time \<Rightarrow> bool"

definition ValidateCodeAt :: "totp_lib \<Rightarrow> string \<Rightarrow> string \<Rightarrow> time \<Rightarrow> bool" where
  "ValidateCodeAt valid secret code t = valid (trim_space code) secret t"

definition ValidateAccountCode :: "totp_lib \<Rightarrow> time \<Rightarrow> string \<Rightarrow> string \<Rightarrow> string \<Rightarrow> lockouts \<Rightarrow> totp_error option \<times> lockouts" where
  "ValidateAccountCode valid t a secret code s =
     (case CheckAccount t a s of
        (Some e, s1) \<Rightarrow> (Some e, s1)
      | (None, s1) \<Rightarrow> if \<not> ValidateCodeAt valid secret code t then RecordFailure t a s1 else (None, ResetAccount a s1))"

text \<open>Backup codes: \<open>rnd i j\<close> is the random index drawn for character \<open>j\<close> of code \<open>i\<close>.\<close>

record BackupCode =
  BC_Plain :: string
  BC_Hash :: string

definition charset :: string where
  "charset = ''ABCDEFGHJKLMNPQRSTUVWXYZ23456789''"

fun all_results :: "'a result list \<Rightarrow> 'a list result" where
  "all_results [] = Inr []"
| "all_results (r # rs) = (case r of Inl e \<Rightarrow> Inl e | Inr x \<Rightarrow> map_sum id (\<lambda>xs. x # xs) (all_results rs))"

definition plain_char :: "(nat \<Rightarrow> nat \<Rightarrow> nat result) \<Rightarrow> nat \<Rightarrow> nat \<Rightarrow> char result" where
  "plain_char rnd i j =
     (if j = 4 \<or> j = 9 then Inr CHR ''-'' else map_sum (Wrap ''generating backup code'') (\<lambda>n. charset ! n) (rnd i j))"

definition GenerateBackupCodes :: "(string \<Rightarrow> string) \<Rightarrow> (nat \<Rightarrow> nat \<Rightarrow> nat result) \<Rightarrow> BackupCode list result" where
  "GenerateBackupCodes hash rnd =
     all_results (map (\<lambda>i. map_sum id (\<lambda>p. \<lparr>BC_Plain = p, BC_Hash = hash p\<rparr>) (all_results (map (plain_char rnd i) [0..<14]))) [0..<10])"

definition NormalizeBackupCode :: "(string \<Rightarrow> string) \<Rightarrow> string \<Rightarrow> string" where
  "NormalizeBackupCode upper code =
     (let raw = strings_ToUpper upper (filter (\<lambda>c. c \<noteq> CHR '' '' \<and> c \<noteq> CHR ''-'' \<and> c \<noteq> CHR 0x09) (trim_space code)) in
      if length raw \<noteq> 12 then strings_ToUpper upper (trim_space code)
      else take 4 raw @ ''-'' @ take 4 (drop 4 raw) @ ''-'' @ take 4 (drop 8 raw))"

text \<open>The code that matches first is removed; \<open>None\<close> is an invalid code.\<close>

definition ValidateBackupCode :: "(string \<Rightarrow> string) \<Rightarrow> (string \<Rightarrow> string) \<Rightarrow> string \<Rightarrow> string list \<Rightarrow> string list option" where
  "ValidateBackupCode upper hash code hashed =
     (let want = hash (NormalizeBackupCode upper code) in if want \<in> set hashed then Some (remove1 want hashed) else None)"

definition HashBackupCodes :: "BackupCode list \<Rightarrow> string list" where
  "HashBackupCodes codes = map BC_Hash codes"

text \<open>
  The challenge of the handler, on the fields of the loaded user. It answers with the method that proved possession, and
  returns the backup codes that the caller stores.
\<close>

datatype challenge_answer = BadRequest string | Refused string totp_error | Passed string

record second_factor =
  SF_account :: string
  SF_secret :: "string option"
  SF_enabled :: bool
  SF_backup :: "string list"

definition challenge :: "totp_lib \<Rightarrow> (string \<Rightarrow> string) \<Rightarrow> (string \<Rightarrow> string) \<Rightarrow> time \<Rightarrow> second_factor \<Rightarrow> string \<Rightarrow> string \<Rightarrow> lockouts
    \<Rightarrow> (challenge_answer \<times> second_factor) \<times> lockouts" where
  "challenge valid upper hash t u code recovery s =
     (if code = [] \<and> recovery = [] then ((BadRequest ''code or recoveryCode is required'', u), s)
      else if \<not> SF_enabled u then ((BadRequest ''TOTP is not enabled'', u), s)
      else case SF_secret u of
        None \<Rightarrow> ((BadRequest ''TOTP is not enabled'', u), s)
      | Some secret \<Rightarrow>
          if code \<noteq> [] then
            (case ValidateAccountCode valid t (SF_account u) secret code s of
               (Some e, s1) \<Rightarrow> ((Refused ''invalid_totp_code'' e, u), s1)
             | (None, s1) \<Rightarrow> ((Passed ''totp'', u), s1))
          else
            (case CheckAccount t (SF_account u) s of
               (Some e, s1) \<Rightarrow> ((Refused ''invalid_recovery_code'' e, u), s1)
             | (None, s1) \<Rightarrow>
                 (case ValidateBackupCode upper hash recovery (SF_backup u) of
                    None \<Rightarrow> (case RecordFailure t (SF_account u) s1 of (e, s2) \<Rightarrow> ((Refused ''invalid_recovery_code'' (the e), u), s2))
                  | Some remaining \<Rightarrow> ((Passed ''recovery'', u\<lparr>SF_backup := remaining\<rparr>), ResetAccount (SF_account u) s1))))"

section \<open>How many codes can be tried\<close>

text \<open>
  Runs of the e-mail service: codes are sent and tried for any address, keys expire, other parts of the program write other keys.
  \<open>O_issued\<close> has the times at which a code was stored for an address, \<open>O_wrong\<close> and \<open>O_right\<close> count the answers. A
  \<open>reliable\<close> run has no failing Redis call.
\<close>

record otp_sys =
  O_codes :: codes
  O_clock :: time
  O_issued :: "string \<Rightarrow> time list"
  O_wrong :: "string \<Rightarrow> nat"
  O_right :: "string \<Rightarrow> nat"

definition hex_digest :: "code_env \<Rightarrow> bool" where
  "hex_digest env = (\<forall>x. CHR '':'' \<notin> set (digest env x))"

abbreviation store_code :: "code_env \<Rightarrow> string \<Rightarrow> string \<Rightarrow> redis_cmd" where
  "store_code env m code \<equiv> SET (otp_key m) (otp_value (digest env code) 0) otpTTL"

definition issues :: "code_env \<Rightarrow> string \<Rightarrow> codes \<Rightarrow> bool" where
  "issues env m w = (redis_Exists env (resend_key m) (fst w) = Inr False \<and>
     (case generateNumericCode env 6 of Inl e \<Rightarrow> False
      | Inr code \<Rightarrow> fault env [store_code env m code] = None \<or> took_effect env [store_code env m code]))"

inductive otp_step :: "bool \<Rightarrow> otp_sys \<Rightarrow> otp_sys \<Rightarrow> bool" for reliable where
  send: "O_clock s \<le> now env \<Longrightarrow> hex_digest env \<Longrightarrow> (reliable \<Longrightarrow> fault env = (\<lambda>c. None)) \<Longrightarrow>
    otp_step reliable s (s\<lparr>O_codes := snd (SendOTP env m (O_codes s)), O_clock := now env,
      O_issued := (O_issued s)(m := O_issued s m @ (if issues env m (O_codes s) then [now env] else []))\<rparr>)"
| verify: "O_clock s \<le> now env \<Longrightarrow> hex_digest env \<Longrightarrow> (reliable \<Longrightarrow> fault env = (\<lambda>c. None)) \<Longrightarrow>
    VerifyOTP env m code (fst (O_codes s)) = (r, R) \<Longrightarrow>
    otp_step reliable s (s\<lparr>O_codes := (R, snd (O_codes s)), O_clock := now env,
      O_wrong := (O_wrong s)(m := O_wrong s m + (if r = Inr False then 1 else 0)),
      O_right := (O_right s)(m := O_right s m + (if r = Inr True then 1 else 0))\<rparr>)"
| other: "O_clock s \<le> t \<Longrightarrow> (\<And>m. R (otp_key m) = fst (O_codes s) (otp_key m) \<or> R (otp_key m) = None) \<Longrightarrow>
    (\<And>m. R (resend_key m) = fst (O_codes s) (resend_key m)) \<Longrightarrow>
    otp_step reliable s (s\<lparr>O_codes := (R, mails), O_clock := t\<rparr>)"

inductive otp_reach :: "bool \<Rightarrow> otp_sys \<Rightarrow> bool" for reliable where
  start: "(\<And>m. R (otp_key m) = None) \<Longrightarrow> (\<And>m. R (resend_key m) = None) \<Longrightarrow>
    otp_reach reliable \<lparr>O_codes = (R, mails), O_clock = t, O_issued = (\<lambda>_. []), O_wrong = (\<lambda>_. 0), O_right = (\<lambda>_. 0)\<rparr>"
| step: "otp_reach reliable s \<Longrightarrow> otp_step reliable s s' \<Longrightarrow> otp_reach reliable s'"

text \<open>
  The stored text accounts for every answer since the code was issued; in a reliable run the resend key keeps two codes a minute apart.
\<close>

fun account_ok :: "(rval \<times> time option) option \<Rightarrow> nat \<Rightarrow> nat \<Rightarrow> nat \<Rightarrow> bool" where
  "account_ok None n wrong right = (wrong \<le> 5 * n \<and> right \<le> n)"
| "account_ok (Some (v, x)) n wrong right =
     (\<exists>h a. v = Str (otp_value h (int a)) \<and> CHR '':'' \<notin> set h \<and> a \<le> 5 \<and> wrong + 5 \<le> 5 * n + a \<and> right + 1 \<le> n)"

definition spaced_ok :: "keyspace \<Rightarrow> time \<Rightarrow> string \<Rightarrow> time list \<Rightarrow> bool" where
  "spaced_ok R clock m ts = (sorted_wrt (\<lambda>a b. a + resendTTL \<le> b) ts
     \<and> (ts \<noteq> [] \<longrightarrow> last ts \<le> clock \<and> R (resend_key m) = Some (Str ''1'', Some (last ts + resendTTL))))"

definition otp_inv :: "bool \<Rightarrow> otp_sys \<Rightarrow> bool" where
  "otp_inv reliable s = (\<forall>m. account_ok (fst (O_codes s) (otp_key m)) (length (O_issued s m)) (O_wrong s m) (O_right s m)
     \<and> (reliable \<longrightarrow> spaced_ok (fst (O_codes s)) (O_clock s) m (O_issued s m)))"

lemma account_ok_gone: "account_ok x n w r \<Longrightarrow> account_ok None n w r"
  by (cases x) auto

lemma account_ok_issue: "account_ok x n w r \<Longrightarrow> CHR '':'' \<notin> set h \<Longrightarrow> account_ok (Some (Str (otp_value h 0), d)) (Suc n) w r"
  using account_ok_gone [of x n w r] by (auto intro!: exI [of _ h] exI [of _ 0])

lemma show_digits:
  "strconv_ParseInt (show_int 0) = Some 0" "strconv_ParseInt (show_int 1) = Some 1" "strconv_ParseInt (show_int 2) = Some 2"
  "strconv_ParseInt (show_int 3) = Some 3" "strconv_ParseInt (show_int 4) = Some 4" "strconv_ParseInt (show_int 5) = Some 5"
  by code_simp+

lemma show_small: "a \<le> 5 \<Longrightarrow> strconv_ParseInt (show_int (int a)) = Some (int a)"
proof -
  assume "a \<le> 5"
  then have "a \<in> {0, 1, 2, 3, 4, 5}" by auto
  then show ?thesis using show_digits by auto
qed

lemma otp_value_split: "CHR '':'' \<notin> set h \<Longrightarrow> strings_SplitN 2 CHR '':'' (otp_value h n) = [h, show_int n]"
  by (simp add: otp_value_def numeral_2_eq_2 takeWhile_before dropWhile_before)

lemma judge_stored:
  "CHR '':'' \<notin> set h \<Longrightarrow> a \<le> 5 \<Longrightarrow>
   judge d (otp_value h (int a)) code = (if a = 5 then Exhausted else if d code = h then Match else Mismatch h (int a))"
  by (auto simp: judge_def otp_value_split show_small)

lemma redis_w_snd: "snd (redis_w env c w) = (snd (run_cmd env c (fst w)), snd w)"
  by (simp add: redis_w_def split: prod.split)

lemma redis_w_fst: "fst (redis_w env c w) = fst (run_cmd env c (fst w))"
  by (simp add: redis_w_def split: prod.split)

text \<open>What a send leaves behind.\<close>

lemma SendOTP_other: "k \<noteq> otp_key m \<Longrightarrow> k \<noteq> resend_key m \<Longrightarrow> fst (snd (SendOTP env m w)) k = fst w k"
  unfolding SendOTP_def
  by (rule svc_frame, simp, rule svc_frame, simp, rule svc_frame, simp, rule svc_frame, simp add: redis_w_snd, rule svc_frame)
    (simp_all add: redis_w_snd deliver_def split: option.split)

lemma run_SET: "run_cmd env (SET k v d) R =
    (case fault env [SET k v d] of None \<Rightarrow> (Inr (Text ''OK''), put (now env) k (Str v) d R)
     | Some e \<Rightarrow> (Inl e, if took_effect env [SET k v d] then put (now env) k (Str v) d R else R))"
  by (simp add: run_cmd_def split: option.split)

lemma put_here: "d > 0 \<Longrightarrow> put t k v d R k = Some (v, Some (t + lifetime d))"
  by (simp add: put_def set_deadline_def)

lemma put_there: "k' \<noteq> k \<Longrightarrow> put t k v d R k' = R k'"
  by (simp add: put_def)

lemma SendOTP_refused: "\<not> issues env m w \<Longrightarrow> fst (snd (SendOTP env m w)) = fst w"
  by (cases "redis_Exists env (resend_key m) (fst w)"; cases "generateNumericCode env 6")
    (auto simp: SendOTP_def issues_def redis_w_def run_SET guard_def split: option.splits)

lemma SendOTP_issued:
  assumes "issues env m w"
  shows "\<exists>code. fst (snd (SendOTP env m w)) (otp_key m) = Some (Str (otp_value (digest env code) 0), Some (now env + otpTTL))"
proof -
  obtain code where c: "redis_Exists env (resend_key m) (fst w) = Inr False" "generateNumericCode env 6 = Inr code"
    "fault env [store_code env m code] = None \<or> took_effect env [store_code env m code]"
    using assms by (auto simp: issues_def split: sum.splits)
  have "fst (snd (SendOTP env m w)) (otp_key m) = put (now env) (otp_key m) (Str (otp_value (digest env code) 0)) otpTTL (fst w) (otp_key m)"
    using c by (auto simp: SendOTP_def redis_w_def run_SET put_there deliver_def split: option.splits)
  then show ?thesis by (auto simp: put_here lifetime_def)
qed

lemma SendOTP_limits:
  assumes "issues env m w" "fault env = (\<lambda>c. None)"
  shows "fst (snd (SendOTP env m w)) (resend_key m) = Some (Str ''1'', Some (now env + resendTTL))"
proof -
  obtain code where c: "redis_Exists env (resend_key m) (fst w) = Inr False" "generateNumericCode env 6 = Inr code"
    using assms(1) by (auto simp: issues_def split: sum.splits)
  show ?thesis using c assms(2) by (auto simp: SendOTP_def redis_w_def run_SET put_here lifetime_def deliver_def split: option.splits)
qed

text \<open>What a trial leaves behind.\<close>

lemma perform_answer:
  "perform c (\<lambda>_ R. (a, R)) = (case fst c of Inl e \<Rightarrow> Inl e | Inr _ \<Rightarrow> a, snd c)"
  by (cases c; cases "fst c") auto

lemma run_DEL: "run_cmd env (DEL [k]) R =
    (case fault env [DEL [k]] of None \<Rightarrow> (Inr (Num (if live (now env) R k = None then 0 else 1)), R(k := None))
     | Some e \<Rightarrow> (Inl e, if took_effect env [DEL [k]] then R(k := None) else R))"
  by (auto simp: run_cmd_def delete_keys_def fun_eq_iff split: option.split)

lemma settle_other: "k \<noteq> otp_key m \<Longrightarrow> snd (settle env m j R) k = R k"
  by (cases j) (simp_all add: clear_then_def perform_answer)

lemma VerifyOTP_other: "k \<noteq> otp_key m \<Longrightarrow> snd (VerifyOTP env m code R) k = R k"
  by (cases "read_otp env m code R") (simp_all add: VerifyOTP_def settle_other)

lemma VerifyOTP_account:
  assumes "VerifyOTP env m code R = (r, R')" "account_ok (R (otp_key m)) n w q"
  shows "account_ok (R' (otp_key m)) n (w + (if r = Inr False then 1 else 0)) (q + (if r = Inr True then 1 else 0))"
proof (cases "read_otp env m code R")
  case (Inl e)
  then show ?thesis using assms by (auto simp: VerifyOTP_def)
next
  case (Inr j)
  then obtain stored where g: "redis_Get env (otp_key m) R = Inr (Some stored)" "j = judge (digest env) stored code"
    by (auto simp: read_otp_def split: sum.splits option.splits)
  then obtain x where R: "R (otp_key m) = Some (Str stored, x)"
    by (auto simp: redis_Get_Inr live_def split: option.splits rval.splits if_splits)
  obtain h a where h: "stored = otp_value h (int a)" "CHR '':'' \<notin> set h" "a \<le> 5" "w + 5 \<le> 5 * n + a" "q + 1 \<le> n"
    using assms(2) by (auto simp: R)
  have j: "j = (if a = 5 then Exhausted else if digest env code = h then Match else Mismatch h (int a))"
    using judge_stored [OF h(2,3)] g(2) h(1) by simp
  have s: "settle env m j R = (r, R')" using assms(1) Inr by (simp add: VerifyOTP_def)
  consider (spent) "a = 5" "j = Exhausted" | (right) "a < 5" "j = Match" | (wrong) "a < 5" "j = Mismatch h (int a)"
    using j h(3) by (auto split: if_splits)
  then show ?thesis
  proof cases
    case spent
    then have r: "r \<noteq> Inr False" "r \<noteq> Inr True" "R' (otp_key m) = None \<or> R' (otp_key m) = R (otp_key m)"
      using s by (auto simp: clear_then_def perform_answer run_DEL split: option.splits if_splits)
    then show ?thesis using assms(2) account_ok_gone [OF assms(2)] by auto
  next
    case right
    have "r = Inr True \<and> R' (otp_key m) = None \<or> (\<exists>e. r = Inl e) \<and> (R' (otp_key m) = None \<or> R' (otp_key m) = R (otp_key m))"
      using s right by (auto simp: clear_then_def perform_answer run_DEL split: option.splits if_splits)
    then show ?thesis using assms(2) account_ok_gone [OF assms(2)] h by auto
  next
    case wrong
    let ?new = "Some (Str (otp_value h (int (Suc a))), Some (now env + lifetime otpTTL))"
    have "r = Inr False \<and> R' (otp_key m) = ?new \<or> (\<exists>e. r = Inl e) \<and> (R' (otp_key m) = ?new \<or> R' (otp_key m) = R (otp_key m))"
      using s wrong by (auto simp: perform_answer run_SET put_here add.commute split: option.splits if_splits)
    moreover have "account_ok ?new n (w + 1) q" "account_ok ?new n w q" using h wrong(1)
      by (auto intro!: exI [of _ h] exI [of _ "Suc a"])
    ultimately show ?thesis using assms(2) by (auto simp del: account_ok.simps)
  qed
qed

text \<open>Spaced times: a list whose neighbours are at least \<open>d\<close> apart is short.\<close>

lemma spaced_length:
  assumes "sorted_wrt (\<lambda>a b. a + d \<le> b) ts" "ts \<noteq> []" "(d :: int) > 0"
  shows "hd ts + d * (int (length ts) - 1) \<le> last ts"
  using assms(2,1)
proof (induction ts rule: list_nonempty_induct)
  case (cons t ts)
  have "t + d \<le> hd ts" using cons.prems cons.hyps by (auto dest: bspec [OF _ hd_in_set])
  moreover have "hd ts + d * (int (length ts) - 1) \<le> last ts" using cons by simp
  moreover have "d * (int (length (t # ts)) - 1) = d * (int (length ts) - 1) + d" by (simp add: algebra_simps)
  ultimately show ?case using cons.hyps by simp
qed simp

lemma spaced_last: "sorted_wrt (\<lambda>a b. a + d \<le> b) ts \<Longrightarrow> b \<in> set ts \<Longrightarrow> (d :: int) > 0 \<Longrightarrow> b \<le> last ts"
proof (induction ts)
  case (Cons t ts)
  then show ?case by (cases "ts = []") (auto dest: bspec [OF _ last_in_set])
qed simp

lemma spaced_ok_later: "spaced_ok R c m ts \<Longrightarrow> c \<le> c' \<Longrightarrow> R' (resend_key m) = R (resend_key m) \<Longrightarrow> spaced_ok R' c' m ts"
  by (auto simp: spaced_ok_def)

lemma spaced_ok_issue:
  assumes "spaced_ok R c m ts" "live t R (resend_key m) = None" "c \<le> t" "R' (resend_key m) = Some (Str ''1'', Some (t + resendTTL))"
  shows "spaced_ok R' t m (ts @ [t])"
proof (cases "ts = []")
  case False
  then have l: "last ts + resendTTL \<le> t" using assms(1,2) by (auto simp: spaced_ok_def live_def split: if_splits)
  have "b \<le> last ts" if "b \<in> set ts" for b
    using spaced_last [OF _ that, of resendTTL] assms(1) by (simp add: spaced_ok_def)
  then show ?thesis using assms l by (fastforce simp: spaced_ok_def sorted_wrt_append)
qed (use assms in \<open>simp add: spaced_ok_def\<close>)

lemma otp_inv_step:
  assumes "otp_inv reliable s" "otp_step reliable s s'"
  shows "otp_inv reliable s'"
proof -
  have acc: "account_ok (fst (O_codes s) (otp_key m)) (length (O_issued s m)) (O_wrong s m) (O_right s m)" for m
    using assms(1) by (simp add: otp_inv_def)
  have spc: "spaced_ok (fst (O_codes s)) (O_clock s) m (O_issued s m)" if reliable for m
    using assms(1) that by (simp add: otp_inv_def)
  show ?thesis using assms(2)
  proof cases
    case (send env m)
    let ?R = "fst (snd (SendOTP env m (O_codes s)))"
    have "account_ok (?R (otp_key m')) (length (O_issued s' m')) (O_wrong s' m') (O_right s' m')" for m'
      using acc [of m'] SendOTP_refused [of env m "O_codes s"] SendOTP_issued [of env m "O_codes s"] send(3) SendOTP_other [of "otp_key m'" m]
      by (cases "m' = m"; cases "issues env m (O_codes s)") (auto simp: send(1) hex_digest_def intro!: account_ok_issue [simplified])
    moreover have "spaced_ok ?R (now env) m' (O_issued s' m')" if reliable for m'
    proof (cases "m' = m \<and> issues env m (O_codes s)")
      case True
      then have "live (now env) (fst (O_codes s)) (resend_key m) = None" by (auto simp: issues_def redis_Exists_Inr)
      then have "spaced_ok ?R (now env) m (O_issued s m @ [now env])"
        using spaced_ok_issue [OF spc [OF that]] SendOTP_limits [OF conjunct2 [OF True] send(4) [OF that]] send(2) by blast
      then show ?thesis using True by (simp add: send(1))
    next
      case False
      then have "?R (resend_key m') = fst (O_codes s) (resend_key m')"
        using SendOTP_refused [of env m "O_codes s"] SendOTP_other [of "resend_key m'" m] by (cases "m' = m") auto
      then show ?thesis using spaced_ok_later [OF spc [OF that] send(2)] False by (auto simp: send(1))
    qed
    ultimately show ?thesis by (simp add: otp_inv_def send(1))
  next
    case (verify env m code r R)
    then have "account_ok (R (otp_key m')) (length (O_issued s' m')) (O_wrong s' m') (O_right s' m')" for m'
      using acc [of m'] VerifyOTP_account [OF verify(5) acc [of m]] VerifyOTP_other [of "otp_key m'" m env code "fst (O_codes s)"]
      by (cases "m' = m") auto
    moreover have "spaced_ok R (now env) m' (O_issued s' m')" if reliable for m'
      using spaced_ok_later [OF spc [OF that] verify(2)] VerifyOTP_other [of "resend_key m'" m env code "fst (O_codes s)"] verify by simp
    ultimately show ?thesis by (simp add: otp_inv_def verify(1))
  next
    case (other t R mails)
    have "account_ok (R (otp_key m)) (length (O_issued s m)) (O_wrong s m) (O_right s m)" for m
      using acc [of m] account_ok_gone [OF acc [of m]] other(3) [of m] by auto
    moreover have "spaced_ok R t m (O_issued s m)" if reliable for m
      using spaced_ok_later [OF spc [OF that, of m] other(2)] other(4) [of m] by blast
    ultimately show ?thesis by (simp add: otp_inv_def other(1))
  qed
qed

lemma otp_reach_inv: "otp_reach reliable s \<Longrightarrow> otp_inv reliable s"
proof (induction rule: otp_reach.induct)
  case (start R mails t)
  then show ?case by (simp add: otp_inv_def spaced_ok_def)
qed (rule otp_inv_step)

text \<open>
  C21: a code sent by e-mail resists guessing by one request at a time. Whatever calls are made and whichever Redis calls fail, at most five wrong answers are
  given per stored code and each code is accepted at most once; and when Redis works, codes are stored at least a minute apart, so that the
  wrong answers are bounded by the time that has passed.
\<close>

theorem otp_guesses_bounded:
  assumes "otp_reach reliable s"
  shows "O_wrong s m \<le> 5 * length (O_issued s m) \<and> O_right s m \<le> length (O_issued s m)
    \<and> (reliable \<longrightarrow> O_issued s m \<noteq> [] \<longrightarrow>
        int (O_wrong s m) \<le> 5 * (1 + (O_clock s - hd (O_issued s m)) div resendTTL))"
proof -
  have inv: "account_ok None (length (O_issued s m)) (O_wrong s m) (O_right s m)"
    "reliable \<Longrightarrow> spaced_ok (fst (O_codes s)) (O_clock s) m (O_issued s m)"
    using otp_reach_inv [OF assms] account_ok_gone [of "fst (O_codes s) (otp_key m)"] by (auto simp: otp_inv_def simp del: account_ok.simps)
  have "int (O_wrong s m) \<le> 5 * (1 + (O_clock s - hd (O_issued s m)) div resendTTL)" if r: "reliable" "O_issued s m \<noteq> []"
  proof -
    have "hd (O_issued s m) + resendTTL * (int (length (O_issued s m)) - 1) \<le> O_clock s"
      using inv(2) [OF r(1)] r(2) spaced_length [of resendTTL "O_issued s m"] by (auto simp: spaced_ok_def)
    then have "(int (length (O_issued s m)) - 1) * resendTTL div resendTTL \<le> (O_clock s - hd (O_issued s m)) div resendTTL"
      by (intro zdiv_mono1) simp_all
    then show ?thesis using inv(1) by simp
  qed
  then show ?thesis using inv(1) by simp
qed

definition demo_code_env :: "time \<Rightarrow> code_env" where
  "demo_code_env t = \<lparr>uuid_Parse = (\<lambda>s. None), uuid_String = (\<lambda>u. []), uuid_New = (\<lambda>n. 0), now = t, fault = (\<lambda>c. None), took_effect = (\<lambda>c. True),
     digest = (\<lambda>x. filter (\<lambda>c. c \<noteq> CHR '':'') x), rand_digit = (\<lambda>i. Inr 7), sendOTP = None, sendRecoveryCode = None\<rparr>"

definition demo_sent :: otp_sys where
  "demo_sent = \<lparr>O_codes = snd (SendOTP (demo_code_env 0) ''m'' (\<lambda>k. None, [])), O_clock = 0,
     O_issued = (\<lambda>_. [])(''m'' := [0]), O_wrong = (\<lambda>_. 0), O_right = (\<lambda>_. 0)\<rparr>"

definition demo_tried :: otp_sys where
  "demo_tried = demo_sent\<lparr>O_codes := (snd (VerifyOTP (demo_code_env 5) ''m'' ''777770'' (fst (O_codes demo_sent))), snd (O_codes demo_sent)), O_clock := 5,
     O_wrong := (\<lambda>_. 0)(''m'' := 1)\<rparr>"

lemma demo_facts:
  "issues (demo_code_env 0) ''m'' (\<lambda>k. None, [])" "fst (VerifyOTP (demo_code_env 5) ''m'' ''777770'' (fst (O_codes demo_sent))) = Inr False"
  by code_simp+

lemma demo_tried_reach: "otp_reach True demo_tried"
proof -
  have hex: "hex_digest (demo_code_env t)" "fault (demo_code_env t) = (\<lambda>c. None)" "now (demo_code_env t) = t" for t
    by (simp_all add: hex_digest_def demo_code_env_def)
  have "otp_step True \<lparr>O_codes = (\<lambda>k. None, []), O_clock = 0, O_issued = (\<lambda>_. []), O_wrong = (\<lambda>_. 0), O_right = (\<lambda>_. 0)\<rparr> demo_sent"
    using otp_step.send [of "\<lparr>O_codes = (\<lambda>k. None, []), O_clock = 0, O_issued = (\<lambda>_. []), O_wrong = (\<lambda>_. 0), O_right = (\<lambda>_. 0)\<rparr>" "demo_code_env 0" True "''m''"]
      hex demo_facts(1) by (simp add: demo_sent_def)
  moreover have "otp_step True demo_sent demo_tried"
    using otp_step.verify [of demo_sent "demo_code_env 5" True "''m''" "''777770''"] hex demo_facts(2)
    by (cases "VerifyOTP (demo_code_env 5) ''m'' ''777770'' (fst (O_codes demo_sent))") (simp add: demo_tried_def demo_sent_def fun_upd_idem)
  ultimately show ?thesis using otp_reach.start [of "\<lambda>k. None" True "[]" 0] by (auto intro: otp_reach.step)
qed

theorem otp_guesses_bounded_witness:
  "otp_reach True demo_tried \<and> O_wrong demo_tried ''m'' = 1 \<and> O_issued demo_tried ''m'' = [0]
   \<and> int (O_wrong demo_tried ''m'') \<le> 5 * (1 + (O_clock demo_tried - hd (O_issued demo_tried ''m'')) div resendTTL)"
  using demo_tried_reach otp_guesses_bounded [OF demo_tried_reach, of "''m''"] by (simp add: demo_tried_def demo_sent_def)

text \<open>
  Requests in parallel are not counted: however many wrong codes are judged against the same stored text before the first of them is
  settled, each of them is answered and the counter ends at one.
\<close>

fun settle_all :: "code_env \<Rightarrow> string \<Rightarrow> judgement list \<Rightarrow> keyspace \<Rightarrow> bool result list \<times> keyspace" where
  "settle_all env m [] R = ([], R)"
| "settle_all env m (j # js) R = (case settle env m j R of (r, R1) \<Rightarrow> case settle_all env m js R1 of (rs, R2) \<Rightarrow> (r # rs, R2))"

lemma concurrent_guesses_uncounted:
  assumes "fault env = (\<lambda>c. None)" "CHR '':'' \<notin> set h" "R (otp_key m) = Some (Str (otp_value h 0), Some x)" "now env < x"
    "\<forall>c \<in> set cs. digest env c \<noteq> h" "cs \<noteq> []"
  shows "settle_all env m (map (\<lambda>c. projr (read_otp env m c R)) cs) R =
    (replicate (length cs) (Inr False), R(otp_key m := Some (Str (otp_value h 1), Some (now env + otpTTL))))"
proof -
  have r: "projr (read_otp env m c R) = Mismatch h 0" if "c \<in> set cs" for c
    using assms that judge_stored [OF assms(2), of 0] by (simp add: read_otp_def redis_Get_def run_cmd_def live_def)
  have all: "settle_all env m (replicate (Suc n) (Mismatch h 0)) R' =
      (replicate (Suc n) (Inr False), R'(otp_key m := Some (Str (otp_value h 1), Some (now env + otpTTL))))" for n R'
    using assms(1) by (induction n arbitrary: R') (auto simp: perform_answer run_SET put_def set_deadline_def lifetime_def)
  obtain n where n: "length cs = Suc n" using assms(6) by (cases cs) auto
  have "map (\<lambda>c. projr (read_otp env m c R)) cs = replicate (Suc n) (Mismatch h 0)"
    using r by (intro replicate_eqI) (auto simp: n)
  then show ?thesis by (simp only: all n)
qed

text \<open>Wrong recovery codes are not counted at all: after any number of them the right one is still accepted.\<close>

lemma recovery_guesses_unlimited:
  assumes "fault env = (\<lambda>c. None)" "R (recovery_key m) = Some (Str (digest env code), Some x)" "now env < x"
    "\<forall>c \<in> set cs. digest env c \<noteq> digest env code"
  shows "fold (\<lambda>c R. snd (VerifyRecoveryCode env m c R)) cs R = R \<and> fst (VerifyRecoveryCode env m code R) = Inr True"
proof -
  have g: "redis_Get env (recovery_key m) R = Inr (Some (digest env code))"
    using assms by (simp add: redis_Get_Inr live_def)
  have "fold (\<lambda>c R. snd (VerifyRecoveryCode env m c R)) cs R = R"
    using assms(4) by (induction cs) (auto simp: VerifyRecoveryCode_def g)
  then show ?thesis using assms(1) by (simp add: VerifyRecoveryCode_def g perform_answer run_DEL)
qed

text \<open>A pending registration is read back for a quarter of an hour, until it is deleted.\<close>

lemma pending_round_trip:
  assumes "pending_Marshal json p = Inr text" "pending_Unmarshal json text = Inr p" "fault env = (\<lambda>c. None)" "fault env' = (\<lambda>c. None)"
    "now env \<le> now env'" "now env' < now env + pendingRegistrationTTL"
  shows "GetPendingRegistration env' json m (snd (StorePendingRegistration env json m p R)) = Inr (Some p)"
    "GetPendingRegistration env' json m (snd (DeletePendingRegistration env m R)) = Inr None"
  using assms
  by (auto simp: GetPendingRegistration_def StorePendingRegistration_def DeletePendingRegistration_def perform_answer run_SET run_DEL redis_Get_def run_cmd_def
      live_put live_delete_keys set_deadline_def lifetime_def)

section \<open>How often the second factor can be guessed\<close>

text \<open>
  Challenges for any accounts at increasing times, one after the other. \<open>L_guesses\<close> has, for each account, the times of the wrong codes that were
  evaluated since the last right one; a challenge that the lockout refuses is not evaluated.
\<close>

record lock_sys =
  L_table :: lockouts
  L_clock :: time
  L_guesses :: "string \<Rightarrow> time list"

inductive guess_step :: "lock_sys \<Rightarrow> lock_sys \<Rightarrow> bool" where
  challenged: "L_clock s \<le> t \<Longrightarrow> challenge valid upper hash t u code recovery (L_table s) = ((answer, u'), T) \<Longrightarrow>
    guess_step s (s\<lparr>L_table := T, L_clock := t, L_guesses := (L_guesses s)(SF_account u :=
      (case answer of BadRequest m \<Rightarrow> L_guesses s (SF_account u) | Passed m \<Rightarrow> []
       | Refused m e \<Rightarrow> if fst (CheckAccount t (SF_account u) (L_table s)) = None then L_guesses s (SF_account u) @ [t]
                        else L_guesses s (SF_account u)))\<rparr>)"

definition lock_init :: "time \<Rightarrow> lock_sys" where
  "lock_init t = \<lparr>L_table = (\<lambda>a. None), L_clock = t, L_guesses = (\<lambda>a. [])\<rparr>"

text \<open>From the fifth failure on, every failure is followed by its delay.\<close>

definition delay_after :: "nat \<Rightarrow> duration" where
  "delay_after n = (if n < 5 then 0 else lockout_delay (int n))"

definition delayed :: "time list \<Rightarrow> bool" where
  "delayed ts = (\<forall>n. 0 < n \<and> n < length ts \<longrightarrow> ts ! (n - 1) + delay_after n \<le> ts ! n)"

definition guess_ok :: "attemptState \<Rightarrow> time \<Rightarrow> time list \<Rightarrow> bool" where
  "guess_ok st clock ts = (AS_failures st = int (length ts) \<and> delayed ts \<and> (ts \<noteq> [] \<longrightarrow> last ts \<le> clock)
     \<and> (length ts < 5 \<longrightarrow> AS_lockedUntil st = None)
     \<and> (length ts \<ge> 5 \<longrightarrow> AS_lockedUntil st = Some (last ts + delay_after (length ts))
          \<or> AS_lockedUntil st = None \<and> last ts + delay_after (length ts) \<le> clock))"

lemma delayed_snoc: "delayed ts \<Longrightarrow> (ts \<noteq> [] \<Longrightarrow> last ts + delay_after (length ts) \<le> t) \<Longrightarrow> delayed (ts @ [t])"
  by (cases "ts = []") (auto simp: delayed_def nth_append last_conv_nth less_Suc_eq)

lemma guess_ok_later: "guess_ok st c ts \<Longrightarrow> c \<le> c' \<Longrightarrow> guess_ok st c' ts"
  by (auto simp: guess_ok_def)

lemma guess_ok_fresh: "guess_ok \<lparr>AS_failures = 0, AS_lockedUntil = None\<rparr> c []"
  by (simp add: guess_ok_def delayed_def)

lemma CheckAccount_ok:
  assumes "CheckAccount t a T = (r, T')" "guess_ok (attempts_of T a) c ts" "c \<le> t"
  shows "guess_ok (attempts_of T' a) t ts \<and> (\<forall>b. b \<noteq> a \<longrightarrow> T' b = T b)
    \<and> (r = None \<longrightarrow> AS_lockedUntil (attempts_of T' a) = None \<and> (ts \<noteq> [] \<longrightarrow> last ts + delay_after (length ts) \<le> t))"
  using assms by (auto simp: CheckAccount_def Let_def attempts_of_def guess_ok_def delay_after_def split: option.splits if_splits)

lemma RecordFailure_ok:
  assumes "guess_ok (attempts_of T a) t ts" "AS_lockedUntil (attempts_of T a) = None" "ts \<noteq> [] \<Longrightarrow> last ts + delay_after (length ts) \<le> t"
  shows "guess_ok (attempts_of (snd (RecordFailure t a T)) a) t (ts @ [t])" "b \<noteq> a \<Longrightarrow> snd (RecordFailure t a T) b = T b"
  using assms delayed_snoc [OF _ assms(3)]
  by (auto simp: RecordFailure_def Let_def attempts_of_def guess_ok_def delay_after_def algebra_simps split: option.splits if_splits)

lemma challenge_ok:
  assumes "challenge valid upper hash t u code recovery T = ((answer, u'), T')" "guess_ok (attempts_of T (SF_account u)) c ts" "c \<le> t"
  shows "guess_ok (attempts_of T' (SF_account u)) t (case answer of BadRequest m \<Rightarrow> ts | Passed m \<Rightarrow> []
       | Refused m e \<Rightarrow> if fst (CheckAccount t (SF_account u) T) = None then ts @ [t] else ts)"
    and "b \<noteq> SF_account u \<Longrightarrow> T' b = T b"
proof -
  let ?a = "SF_account u"
  obtain r T1 where c: "CheckAccount t ?a T = (r, T1)" by fastforce
  note k = CheckAccount_ok [OF c assms(2,3)]
  note fail = RecordFailure_ok [of T1 ?a t ts]
  have some: "fst (RecordFailure t ?a T1) \<noteq> None" by (simp add: RecordFailure_def Let_def)
  have reset: "guess_ok (attempts_of (ResetAccount ?a T1) ?a) t []" by (simp add: ResetAccount_def attempts_of_def guess_ok_fresh)
  show "guess_ok (attempts_of T' ?a) t (case answer of BadRequest m \<Rightarrow> ts | Passed m \<Rightarrow> []
       | Refused m e \<Rightarrow> if fst (CheckAccount t ?a T) = None then ts @ [t] else ts)"
    using assms(1) c k fail(1) reset some guess_ok_later [OF assms(2,3)]
    by (auto simp: challenge_def ValidateAccountCode_def split: if_splits option.splits prod.splits)
  show "T' b = T b" if "b \<noteq> ?a"
    using assms(1) c k fail(2) that by (auto simp: challenge_def ValidateAccountCode_def ResetAccount_def split: if_splits option.splits prod.splits)
qed

lemma guess_reach: "guess_step\<^sup>*\<^sup>* (lock_init t) s \<Longrightarrow> guess_ok (attempts_of (L_table s) a) (L_clock s) (L_guesses s a)"
proof (induction arbitrary: a rule: rtranclp_induct)
  case base
  then show ?case by (simp add: lock_init_def attempts_of_def guess_ok_fresh)
next
  case (step y z)
  from step.hyps(2) show ?case
  proof cases
    case (challenged t valid upper hash u code recovery answer u' T)
    note ok = challenge_ok [OF challenged(3) step.IH challenged(2)]
    show ?thesis
    proof (cases "a = SF_account u")
      case True
      then show ?thesis using ok(1) by (simp add: challenged(1))
    next
      case False
      then have "attempts_of T a = attempts_of (L_table y) a" using ok(2) by (simp add: attempts_of_def)
      then show ?thesis using False guess_ok_later [OF step.IH challenged(2), of a] by (simp add: challenged(1))
    qed
  qed
qed

text \<open>The delays add up: thirty seconds after the fifth failure, doubling up to thirty-two minutes from the eleventh on.\<close>

lemma delay_values:
  "n < 5 \<Longrightarrow> delay_after n = 0" "n \<ge> 11 \<Longrightarrow> delay_after n = 1920 * second" "delay_after n \<ge> 0"
  by (auto simp: delay_after_def lockout_delay_def)

lemma delayed_bound:
  assumes "delayed ts" "n < length ts"
  shows "ts ! 0 + 1920 * second * (int n - 11) \<le> ts ! n"
  using assms(2)
proof (induction n)
  case 0
  then show ?case by simp
next
  case (Suc n)
  have s: "ts ! n + delay_after (Suc n) \<le> ts ! Suc n" using assms(1) Suc.prems by (auto simp: delayed_def dest: spec [of _ "Suc n"])
  have mono: "ts ! 0 \<le> ts ! m" if "m < length ts" for m
    using that
  proof (induction m)
    case (Suc m)
    then show ?case using assms(1) delay_values(3) [of "Suc m"] by (auto simp: delayed_def dest: spec [of _ "Suc m"])
  qed simp
  show ?case
  proof (cases "Suc n \<ge> 11")
    case True
    then show ?thesis using s Suc delay_values(2) [OF True] by (simp add: algebra_simps)
  next
    case False
    then show ?thesis using mono [OF Suc.prems] by simp
  qed
qed

text \<open>
  C22: the lockout bounds the guesses at a second factor. However authenticator codes and backup codes of an account are tried, one request after the other, the wrong
  codes that are evaluated between two right ones are at most twelve plus one for every thirty-two minutes between the first and the
  last; and from the fifth on each is followed by a refusal of all codes for the delay.
\<close>

theorem second_factor_guess_bound:
  assumes "guess_step\<^sup>*\<^sup>* (lock_init t) s" "L_guesses s a \<noteq> []"
  shows "int (length (L_guesses s a)) \<le> 12 + (last (L_guesses s a) - hd (L_guesses s a)) div (1920 * second)
    \<and> (\<forall>t'. length (L_guesses s a) \<ge> 5 \<and> L_clock s \<le> t' \<and> t' < last (L_guesses s a) + lockout_delay (int (length (L_guesses s a))) \<longrightarrow>
         (\<exists>d. fst (CheckAccount t' a (L_table s)) = Some (LockoutError d) \<and> d > 0))"
proof (intro conjI allI impI)
  let ?g = "L_guesses s a"
  have ok: "guess_ok (attempts_of (L_table s) a) (L_clock s) ?g" by (rule guess_reach [OF assms(1)])
  then have "?g ! 0 + 1920 * second * (int (length ?g - 1) - 11) \<le> ?g ! (length ?g - 1)"
    using assms(2) by (intro delayed_bound) (auto simp: guess_ok_def)
  then have "(int (length ?g) - 12) * (1920 * second) \<le> last ?g - hd ?g"
    using assms(2) by (simp add: last_conv_nth hd_conv_nth of_nat_diff Suc_leI)
  then have "(int (length ?g) - 12) * (1920 * second) div (1920 * second) \<le> (last ?g - hd ?g) div (1920 * second)"
    by (intro zdiv_mono1) simp_all
  then show "int (length ?g) \<le> 12 + (last ?g - hd ?g) div (1920 * second)" by simp
  fix t'
  assume "5 \<le> length ?g \<and> L_clock s \<le> t' \<and> t' < last ?g + lockout_delay (int (length ?g))"
  then show "\<exists>d. fst (CheckAccount t' a (L_table s)) = Some (LockoutError d) \<and> d > 0"
    using ok by (auto simp: guess_ok_def CheckAccount_def Let_def delay_after_def)
qed

definition demo_factor :: second_factor where
  "demo_factor = \<lparr>SF_account = ''u'', SF_secret = Some ''s'', SF_enabled = True, SF_backup = []\<rparr>"

definition guess_once :: "lock_sys \<Rightarrow> lock_sys" where
  "guess_once s = s\<lparr>L_table := snd (challenge (\<lambda>c k t. False) id id 0 demo_factor ''0'' [] (L_table s)), L_clock := 0,
     L_guesses := (L_guesses s)(''u'' := (if fst (CheckAccount 0 ''u'' (L_table s)) = None then L_guesses s ''u'' @ [0] else L_guesses s ''u''))\<rparr>"

lemma RecordFailure_some: "\<exists>e T'. RecordFailure t a T = (Some e, T')"
  by (simp add: RecordFailure_def Let_def)

lemma guess_once_step: "L_clock s \<le> 0 \<Longrightarrow> guess_step s (guess_once s)"
proof -
  assume c: "L_clock s \<le> 0"
  obtain r T1 where r: "CheckAccount 0 ''u'' (L_table s) = (r, T1)" by fastforce
  obtain e T where "RecordFailure 0 ''u'' T1 = (Some e, T)" using RecordFailure_some by blast
  with r have "\<exists>e T. challenge (\<lambda>c k t. False) id id 0 demo_factor ''0'' [] (L_table s) = ((Refused ''invalid_totp_code'' e, demo_factor), T)"
    by (cases r) (simp_all add: challenge_def demo_factor_def ValidateAccountCode_def ValidateCodeAt_def)
  then obtain e T where ch: "challenge (\<lambda>c k t. False) id id 0 demo_factor ''0'' [] (L_table s) = ((Refused ''invalid_totp_code'' e, demo_factor), T)" by blast
  have "SF_account demo_factor = ''u''" by (simp add: demo_factor_def)
  then show ?thesis using guess_step.challenged [OF c ch] ch by (auto simp: guess_once_def)
qed

lemma guess_once_clock [simp]: "L_clock (guess_once s) = 0"
  by (simp add: guess_once_def)

definition demo_locked :: lock_sys where
  "demo_locked = (guess_once ^^ 5) (lock_init 0)"

lemma guesses_reach: "guess_step\<^sup>*\<^sup>* (lock_init 0) ((guess_once ^^ n) (lock_init 0)) \<and> L_clock ((guess_once ^^ n) (lock_init 0)) = 0"
proof (induction n)
  case (Suc n)
  then show ?case using guess_once_step [of "(guess_once ^^ n) (lock_init 0)"] by (auto intro: rtranclp.rtrancl_into_rtrancl)
qed (simp add: lock_init_def)

lemmas demo_locked_reach = guesses_reach [THEN conjunct1, of 5, folded demo_locked_def]

lemma first_guesses: "n \<le> 5 \<Longrightarrow> L_guesses ((guess_once ^^ n) (lock_init 0)) ''u'' = replicate n 0"
proof (induction n)
  case (Suc n)
  let ?s = "(guess_once ^^ n) (lock_init 0)"
  have g: "L_guesses ?s ''u'' = replicate n 0" using Suc by simp
  then have "AS_lockedUntil (attempts_of (L_table ?s) ''u'') = None"
    using guess_reach [OF guesses_reach [THEN conjunct1], of n "''u''"] Suc.prems by (auto simp: guess_ok_def)
  then have "fst (CheckAccount 0 ''u'' (L_table ?s)) = None" by (simp add: CheckAccount_def Let_def)
  then have "L_guesses (guess_once ?s) ''u'' = replicate n 0 @ [0]" using g by (subst guess_once_def) simp
  then show ?case by (simp add: replicate_append_same)
qed (simp add: lock_init_def)

theorem second_factor_guess_bound_witness:
  "L_guesses demo_locked ''u'' = [0, 0, 0, 0, 0] \<and> (\<exists>d > 0. fst (CheckAccount (29 * second) ''u'' (L_table demo_locked)) = Some (LockoutError d))"
proof -
  have g: "L_guesses demo_locked ''u'' = [0, 0, 0, 0, 0]" "L_clock demo_locked = 0"
    using first_guesses [of 5] guesses_reach [of 5] by (simp_all add: demo_locked_def numeral_eq_Suc)
  show ?thesis using second_factor_guess_bound [OF demo_locked_reach, of "''u''"] g by (auto simp: lockout_delay_def dest!: spec [of _ "29 * second"])
qed

section \<open>Backup codes\<close>

text \<open>
  A spelling of a backup code: letters in either case, blanks, tabs and hyphens anywhere.
\<close>

definition spells :: "string \<Rightarrow> string \<Rightarrow> bool" where
  "spells input code = (map ascii_upper (filter (\<lambda>c. c \<noteq> CHR '' '' \<and> c \<noteq> CHR ''-'' \<and> c \<noteq> CHR 0x09) input)
     = filter (\<lambda>c. c \<noteq> CHR ''-'') code)"

text \<open>The shape of a generated code: three groups of four characters of the alphabet.\<close>

definition backup_shape :: "string \<Rightarrow> bool" where
  "backup_shape code = (length code = 14 \<and> code ! 4 = CHR ''-'' \<and> code ! 9 = CHR ''-''
     \<and> (\<forall>j < 14. j \<noteq> 4 \<and> j \<noteq> 9 \<longrightarrow> code ! j \<in> set charset))"

text \<open>The random indexes are below the size of the alphabet.\<close>

definition index_law :: "(nat \<Rightarrow> nat \<Rightarrow> nat result) \<Rightarrow> bool" where
  "index_law rnd = (\<forall>i j n. rnd i j = Inr n \<longrightarrow> n < length charset)"

lemma all_results_Inr_map [simp]: "all_results (map Inr xs) = Inr xs"
  by (induction xs) simp_all

lemma all_results_Inr: "all_results rs = Inr xs \<longleftrightarrow> rs = map Inr xs"
proof
  show "rs = map Inr xs" if "all_results rs = Inr xs"
    using that
  proof (induction rs arbitrary: xs)
    case (Cons r rs)
    then show ?case by (cases r; cases "all_results rs") auto
  qed simp
qed simp

lemma backup_shape_generated:
  assumes "GenerateBackupCodes hash rnd = Inr codes" "index_law rnd"
  shows "length codes = 10 \<and> (\<forall>c \<in> set codes. backup_shape (BC_Plain c) \<and> BC_Hash c = hash (BC_Plain c))"
proof -
  let ?code = "\<lambda>i. map_sum id (\<lambda>p. \<lparr>BC_Plain = p, BC_Hash = hash p\<rparr>) (all_results (map (plain_char rnd i) [0..<14]))"
  have m: "map ?code [0..<10] = map Inr codes"
    using assms(1) by (simp only: GenerateBackupCodes_def all_results_Inr)
  from arg_cong [OF m, of length] have l: "length codes = 10" by simp
  have "backup_shape (BC_Plain (codes ! i)) \<and> BC_Hash (codes ! i) = hash (BC_Plain (codes ! i))" if "i < 10" for i
  proof -
    have "?code i = Inr (codes ! i)" using arg_cong [OF m, of "\<lambda>xs. xs ! i"] that l by simp
    then obtain p where p: "all_results (map (plain_char rnd i) [0..<14]) = Inr p" "codes ! i = \<lparr>BC_Plain = p, BC_Hash = hash p\<rparr>"
      by (cases "all_results (map (plain_char rnd i) [0..<14])") auto
    from p(1) have q: "map (plain_char rnd i) [0..<14] = map Inr p" by (simp only: all_results_Inr)
    from arg_cong [OF q, of length] have lp: "length p = 14" by simp
    have c: "plain_char rnd i j = Inr (p ! j)" if "j < 14" for j using arg_cong [OF q, of "\<lambda>xs. xs ! j"] that lp by simp
    have "p ! j \<in> set charset" if j: "j < 14" "j \<noteq> 4" "j \<noteq> 9" for j
      using c [OF j(1)] j assms(2) by (cases "rnd i j") (auto simp: plain_char_def index_law_def, metis nth_mem)
    moreover have "p ! 4 = CHR ''-''" "p ! 9 = CHR ''-''" using c [of 4] c [of 9] by (simp_all add: plain_char_def)
    ultimately show ?thesis using lp by (simp add: p(2) backup_shape_def)
  qed
  then show ?thesis using l by (auto simp: in_set_conv_nth)
qed

text \<open>Every spelling of a code of this shape normalises to the code.\<close>

definition space_byte :: "char \<Rightarrow> bool" where
  "space_byte c = (of_char c \<in> set (concat utf8_spaces))"

lemma charset_facts: "CHR ''-'' \<notin> set charset" "space_byte c \<Longrightarrow> ascii_upper c \<notin> set charset"
  "ascii_upper c \<in> set charset \<Longrightarrow> (of_char c :: nat) < 128"
proof -
  show "CHR ''-'' \<notin> set charset" by (simp add: charset_def)
  have all: "list_all (\<lambda>d. 50 \<le> (of_char d :: nat) \<and> (of_char d :: nat) \<le> 90) charset" by (simp add: charset_def)
  show "(of_char c :: nat) < 128" if "ascii_upper c \<in> set charset"
    using that all by (auto simp: ascii_upper_def Let_def list_all_iff split: if_splits)
  assume "space_byte c"
  then have "(of_char c :: nat) \<le> 32 \<or> 128 \<le> (of_char c :: nat)" by (auto simp: space_byte_def utf8_spaces_def)
  moreover from this have "ascii_upper c = c" by (auto simp: ascii_upper_def Let_def)
  ultimately show "ascii_upper c \<notin> set charset" using all by (auto simp: list_all_iff)
qed

lemma trim_left_keeps:
  "(\<And>x. x \<in> set s \<Longrightarrow> of_char x \<in> set (concat sps) \<Longrightarrow> \<not> P x) \<Longrightarrow> filter P (trim_left sps s) = filter P s"
proof (induction sps s rule: trim_left.induct)
  case (1 sps s)
  let ?n = "space_prefix sps s"
  show ?case
  proof (cases "?n = 0 \<or> s = []")
    case False
    then obtain p where p: "p \<in> set sps" "take ?n (map of_char s) = p"
      by (auto simp: space_prefix_def split: option.splits dest!: find_Some_D)
    have none: "filter P (take ?n s) = []"
    proof -
      have "\<not> P x" if "x \<in> set (take ?n s)" for x
      proof -
        have "of_char x \<in> set p" using that p(2) by (auto simp: take_map)
        then show ?thesis using 1(2) p(1) in_set_takeD [OF that] by auto
      qed
      then show ?thesis by (simp add: filter_empty_conv)
    qed
    have "filter P (trim_left sps (drop ?n s)) = filter P (drop ?n s)" using 1 False by (auto dest: in_set_dropD)
    also have "\<dots> = filter P (take ?n s @ drop ?n s)" by (simp only: filter_append none append_Nil)
    finally show ?thesis using False by (subst trim_left.simps) simp
  qed (simp add: trim_left.simps)
qed

lemma set_trim_left: "set (trim_left sps s) \<subseteq> set s"
proof (induction sps s rule: trim_left.induct)
  case (1 sps s)
  then show ?case by (subst trim_left.simps) (auto dest: in_set_dropD)
qed

lemma trim_keeps:
  assumes "\<And>c. c \<in> set s \<Longrightarrow> space_byte c \<Longrightarrow> \<not> P c"
  shows "filter P (trim_space s) = filter P s"
proof -
  let ?l = "trim_left utf8_spaces s"
  have "set (concat (map rev utf8_spaces)) = set (concat utf8_spaces)" by simp
  then have "filter P (trim_left (map rev utf8_spaces) (rev ?l)) = filter P (rev ?l)"
    using assms set_trim_left [of utf8_spaces s] by (intro trim_left_keeps) (auto simp: space_byte_def)
  moreover have "filter P ?l = filter P s" using assms by (intro trim_left_keeps) (auto simp: space_byte_def)
  ultimately show ?thesis by (simp add: trim_space_def rev_filter [symmetric])
qed

lemma backup_groups:
  assumes "backup_shape code"
  obtains a b c where "code = a @ ''-'' @ b @ ''-'' @ c" "length a = 4" "length b = 4" "length c = 4" "set (a @ b @ c) \<subseteq> set charset"
proof -
  have l: "length code = 14" "code ! 4 = CHR ''-''" "code ! 9 = CHR ''-''" and
    ch: "\<And>j. j < 14 \<Longrightarrow> j \<noteq> 4 \<Longrightarrow> j \<noteq> 9 \<Longrightarrow> code ! j \<in> set charset" using assms by (auto simp: backup_shape_def)
  have "code = take 4 code @ ''-'' @ take 4 (drop 5 code) @ ''-'' @ drop 10 code"
    using l by (intro nth_equalityI) (auto simp: nth_append nth_Cons less_Suc_eq numeral_eq_Suc split: nat.splits)
  moreover have "set (take 4 code @ take 4 (drop 5 code) @ drop 10 code) \<subseteq> set charset"
    using l ch by (auto simp: in_set_conv_nth)
  ultimately show thesis using that [of "take 4 code" "take 4 (drop 5 code)" "drop 10 code"] l(1) by simp
qed

lemma normalize_spelling:
  assumes "backup_shape code" "spells input code"
  shows "NormalizeBackupCode upper input = code"
proof -
  let ?P = "\<lambda>c. c \<noteq> CHR '' '' \<and> c \<noteq> CHR ''-'' \<and> c \<noteq> CHR 0x09"
  obtain a b c where g: "code = a @ ''-'' @ b @ ''-'' @ c" "length a = 4" "length b = 4" "length c = 4" "set (a @ b @ c) \<subseteq> set charset"
    using backup_groups [OF assms(1)] .
  have "CHR ''-'' \<notin> set (a @ b @ c)" using g(5) charset_facts(1) by blast
  moreover have "filter (\<lambda>c. c \<noteq> CHR ''-'') xs = xs" if "CHR ''-'' \<notin> set xs" for xs using that by (auto simp: filter_id_conv)
  ultimately have f: "filter (\<lambda>c. c \<noteq> CHR ''-'') code = a @ b @ c" unfolding g(1) by simp
  then have up: "map ascii_upper (filter ?P input) = a @ b @ c" using assms(2) by (simp add: spells_def)
  have "\<not> ?P x" if "x \<in> set input" "space_byte x" for x
  proof
    assume "?P x"
    then have "ascii_upper x \<in> set (map ascii_upper (filter ?P input))" using that(1) by simp
    then have "ascii_upper x \<in> set (a @ b @ c)" by (simp only: up)
    then show False using g(5) charset_facts(2) [OF that(2)] by blast
  qed
  then have "filter ?P (trim_space input) = filter ?P input" by (intro trim_keeps) blast
  moreover have "(of_char x :: nat) < 128" if "x \<in> set (filter ?P input)" for x
  proof -
    have "ascii_upper x \<in> set (map ascii_upper (filter ?P input))" using that by simp
    then have "ascii_upper x \<in> set charset" using g(5) by (simp only: up) blast
    then show ?thesis by (rule charset_facts(3))
  qed
  ultimately have r: "strings_ToUpper upper (filter ?P (trim_space input)) = a @ b @ c" using up by (simp add: strings_ToUpper_def)
  show ?thesis unfolding NormalizeBackupCode_def Let_def r using g by simp
qed

text \<open>
  C23: a generated backup code works in every spelling and exactly once. The ten codes have the advertised shape; when their digests differ, any
  spelling of one of them (letters in either case, blanks, tabs and hyphens anywhere) is accepted, after which no spelling of it is, while all the others still are.
\<close>

theorem backup_code_works_once:
  assumes "GenerateBackupCodes hash rnd = Inr codes" "index_law rnd" "distinct (HashBackupCodes codes)"
    "c \<in> set codes" "spells input (BC_Plain c)"
  shows "length codes = 10 \<and> backup_shape (BC_Plain c) \<and> (\<exists>rest. ValidateBackupCode upper hash input (HashBackupCodes codes) = Some rest \<and> length rest = 9
    \<and> (\<forall>input'. spells input' (BC_Plain c) \<longrightarrow> ValidateBackupCode upper hash input' rest = None)
    \<and> (\<forall>c' \<in> set codes. \<forall>input'. c' \<noteq> c \<longrightarrow> spells input' (BC_Plain c') \<longrightarrow> ValidateBackupCode upper hash input' rest \<noteq> None))"
proof -
  let ?rest = "remove1 (BC_Hash c) (HashBackupCodes codes)"
  have gen: "length codes = 10" "\<And>c. c \<in> set codes \<Longrightarrow> backup_shape (BC_Plain c)" "\<And>c. c \<in> set codes \<Longrightarrow> BC_Hash c = hash (BC_Plain c)"
    using backup_shape_generated [OF assms(1,2)] by auto
  have norm: "hash (NormalizeBackupCode upper i) = BC_Hash c'" if "c' \<in> set codes" "spells i (BC_Plain c')" for i c'
    using normalize_spelling [OF gen(2) [OF that(1)] that(2)] gen(3) [OF that(1)] by simp
  have mem: "BC_Hash c \<in> set (HashBackupCodes codes)" using assms(4) by (simp add: HashBackupCodes_def)
  have "ValidateBackupCode upper hash input (HashBackupCodes codes) = Some ?rest"
    using norm [OF assms(4,5)] mem by (simp add: ValidateBackupCode_def)
  moreover have "length ?rest = 9" using mem gen(1) by (simp add: length_remove1 HashBackupCodes_def)
  moreover have "ValidateBackupCode upper hash i ?rest = None" if "spells i (BC_Plain c)" for i
    using norm [OF assms(4) that] assms(3) by (simp add: ValidateBackupCode_def)
  moreover have "ValidateBackupCode upper hash i ?rest \<noteq> None" if "c' \<in> set codes" "c' \<noteq> c" "spells i (BC_Plain c')" for i c'
  proof -
    have "BC_Hash c' \<noteq> BC_Hash c" using assms(3,4) that(1,2) by (auto simp: HashBackupCodes_def distinct_map dest: inj_onD)
    then have "BC_Hash c' \<in> set ?rest" using assms(3) that(1) by (simp add: HashBackupCodes_def)
    then show ?thesis using norm [OF that(1,3)] by (simp add: ValidateBackupCode_def)
  qed
  ultimately show ?thesis using gen(1) gen(2) [OF assms(4)] by blast
qed

definition demo_rnd :: "nat \<Rightarrow> nat \<Rightarrow> nat result" where
  "demo_rnd i j = Inr ((i + j) mod 32)"

definition demo_backup :: "BackupCode list" where
  "demo_backup = projr (GenerateBackupCodes id demo_rnd)"

theorem backup_code_works_once_witness:
  "\<exists>rest. ValidateBackupCode id id '' abcd fghj-lmnp '' (HashBackupCodes demo_backup) = Some rest \<and> length rest = 9
    \<and> ValidateBackupCode id id ''ABCD-FGHJ-LMNP'' rest = None"
proof -
  have g: "GenerateBackupCodes id demo_rnd = Inr demo_backup" by code_simp
  have d: "distinct (HashBackupCodes demo_backup)" by code_simp
  have p: "BC_Plain (hd demo_backup) = ''ABCD-FGHJ-LMNP''" by code_simp
  have m: "hd demo_backup \<in> set demo_backup" by code_simp
  have s: "spells '' abcd fghj-lmnp '' (BC_Plain (hd demo_backup))" unfolding p by code_simp
  have s': "spells ''ABCD-FGHJ-LMNP'' (BC_Plain (hd demo_backup))" unfolding p by code_simp
  have r: "index_law demo_rnd" by (auto simp: index_law_def demo_rnd_def charset_def)
  show ?thesis using backup_code_works_once [OF g r d m s] s' by blast
qed

end
