(* ===== verification/StellarClient.thy ===== *)
theory StellarClient
  imports Payout
begin

text \<open>
  \<^verbatim>\<open>pkg/stellar\<close>: the client of Horizon behind a circuit breaker, the checks of payments that contributions and payouts rely on, the retry
  loops (with those of \<^verbatim>\<open>pkg/postgres\<close> and \<^verbatim>\<open>pkg/redis\<close>), submission and polling, and the limiter of outgoing transactions. HTTP, JSON and random
  numbers are parameters.
\<close>

section \<open>Circuit breaker\<close>

datatype CircuitState = CircuitClosed | CircuitOpen | CircuitHalfOpen

fun CircuitState_String :: "CircuitState \<Rightarrow> string" where
  "CircuitState_String CircuitClosed = ''closed''"
| "CircuitState_String CircuitOpen = ''open''"
| "CircuitState_String CircuitHalfOpen = ''half-open''"

record CircuitBreakerConfig =
  FailureThreshold :: int
  SuccessThreshold :: int
  OpenTimeout :: duration
  HalfOpenMaxReqs :: int

definition DefaultCircuitBreakerConfig :: CircuitBreakerConfig where
  "DefaultCircuitBreakerConfig = \<lparr>FailureThreshold = 5, SuccessThreshold = 2, OpenTimeout = 30 * second, HalfOpenMaxReqs = 3\<rparr>"

text \<open>The zero time is \<open>None\<close>.\<close>

record CircuitBreaker =
  BR_config :: CircuitBreakerConfig
  BR_state :: CircuitState
  BR_failures :: int
  BR_successes :: int
  BR_halfOpenReqs :: int
  BR_lastFailureTime :: "time option"
  BR_lastStateChange :: "time option"
  BR_name :: string

definition NewCircuitBreaker :: "string \<Rightarrow> CircuitBreakerConfig \<Rightarrow> CircuitBreaker" where
  "NewCircuitBreaker name config = \<lparr>BR_config = config, BR_state = CircuitClosed, BR_failures = 0, BR_successes = 0, BR_halfOpenReqs = 0,
     BR_lastFailureTime = None, BR_lastStateChange = None, BR_name = name\<rparr>"

definition transitionTo :: "time \<Rightarrow> CircuitState \<Rightarrow> CircuitBreaker \<Rightarrow> CircuitBreaker" where
  "transitionTo t st cb =
     (let cb = cb\<lparr>BR_state := st, BR_lastStateChange := Some t\<rparr>;
          cb = (if st = CircuitHalfOpen then cb\<lparr>BR_halfOpenReqs := 0, BR_successes := 0\<rparr> else cb) in
      if st = CircuitClosed then cb\<lparr>BR_failures := 0\<rparr> else cb)"

definition timed_out :: "time \<Rightarrow> CircuitBreaker \<Rightarrow> bool" where
  "timed_out t cb = (case BR_lastStateChange cb of None \<Rightarrow> True | Some t0 \<Rightarrow> t - t0 > OpenTimeout (BR_config cb))"

definition beforeRequest :: "time \<Rightarrow> CircuitBreaker \<Rightarrow> error option \<times> CircuitBreaker" where
  "beforeRequest t cb =
     (case BR_state cb of
        CircuitClosed \<Rightarrow> (None, cb)
      | CircuitOpen \<Rightarrow>
          if timed_out t cb then (None, transitionTo t CircuitHalfOpen cb)
          else (Some (Errorf (''circuit breaker ['' @ BR_name cb @ ''] is OPEN (failing fast)'')), cb)
      | CircuitHalfOpen \<Rightarrow>
          if BR_halfOpenReqs cb \<ge> HalfOpenMaxReqs (BR_config cb)
          then (Some (Errorf (''circuit breaker ['' @ BR_name cb @ ''] is HALF-OPEN at max requests'')), cb)
          else (None, cb\<lparr>BR_halfOpenReqs := BR_halfOpenReqs cb + 1\<rparr>))"

definition afterRequest :: "time \<Rightarrow> bool \<Rightarrow> CircuitBreaker \<Rightarrow> CircuitBreaker" where
  "afterRequest t failed cb0 =
     (let cb = (if failed then cb0\<lparr>BR_lastFailureTime := Some t\<rparr> else cb0) in
      case BR_state cb of
        CircuitClosed \<Rightarrow>
          if failed then
            (let cb = cb\<lparr>BR_failures := BR_failures cb + 1\<rparr> in
             if BR_failures cb \<ge> FailureThreshold (BR_config cb) then transitionTo t CircuitOpen cb else cb)
          else cb\<lparr>BR_failures := 0\<rparr>
      | CircuitHalfOpen \<Rightarrow>
          if failed then transitionTo t CircuitOpen cb
          else
            (let cb = cb\<lparr>BR_successes := BR_successes cb + 1\<rparr> in
             if BR_successes cb \<ge> SuccessThreshold (BR_config cb) then transitionTo t CircuitClosed cb else cb)
      | CircuitOpen \<Rightarrow> cb)"

text \<open>
  \<^verbatim>\<open>Execute\<close> and \<^verbatim>\<open>ExecuteWithResult\<close>: the function runs on a state of its own, between the times \<open>t\<close> and \<open>t'\<close>.
\<close>

definition Execute :: "time \<Rightarrow> time \<Rightarrow> ('s \<Rightarrow> 'a result \<times> 's) \<Rightarrow> CircuitBreaker \<Rightarrow> 's \<Rightarrow> 'a result \<times> CircuitBreaker \<times> 's" where
  "Execute t t' fn cb s =
     (case beforeRequest t cb of
        (Some e, cb1) \<Rightarrow> (Inl e, cb1, s)
      | (None, cb1) \<Rightarrow> (case fn s of (r, s') \<Rightarrow> (r, afterRequest t' (\<not> is_ok r) cb1, s')))"

definition Breaker_Reset :: "CircuitBreaker \<Rightarrow> CircuitBreaker" where
  "Breaker_Reset cb = cb\<lparr>BR_state := CircuitClosed, BR_failures := 0, BR_successes := 0, BR_halfOpenReqs := 0, BR_lastFailureTime := None\<rparr>"

subsection \<open>The breaker always recovers\<close>

text \<open>
  Requests of many goroutines: each begins and ends under the mutex, so that any number can be under way. A request that never ends stays in
  \<open>Q_inflight\<close>.
\<close>

record breaker_sys =
  Q_breaker :: CircuitBreaker
  Q_clock :: time
  Q_inflight :: nat

inductive breaker_step :: "breaker_sys \<Rightarrow> breaker_sys \<Rightarrow> bool" where
  begin_request: "Q_clock s \<le> t \<Longrightarrow> beforeRequest t (Q_breaker s) = (r, cb) \<Longrightarrow>
    breaker_step s (s\<lparr>Q_breaker := cb, Q_clock := t, Q_inflight := Q_inflight s + (if r = None then 1 else 0)\<rparr>)"
| end_request: "Q_clock s \<le> t \<Longrightarrow> Q_inflight s > 0 \<Longrightarrow>
    breaker_step s (s\<lparr>Q_breaker := afterRequest t failed (Q_breaker s), Q_clock := t, Q_inflight := Q_inflight s - 1\<rparr>)"
| reset: "breaker_step s (s\<lparr>Q_breaker := Breaker_Reset (Q_breaker s)\<rparr>)"

definition breaker_init :: "string \<Rightarrow> CircuitBreakerConfig \<Rightarrow> time \<Rightarrow> breaker_sys" where
  "breaker_init name cfg t = \<lparr>Q_breaker = NewCircuitBreaker name cfg, Q_clock = t, Q_inflight = 0\<rparr>"

definition sane :: "CircuitBreakerConfig \<Rightarrow> bool" where
  "sane cfg = (FailureThreshold cfg > 0 \<and> SuccessThreshold cfg > 0 \<and> SuccessThreshold cfg \<le> HalfOpenMaxReqs cfg + 1)"

text \<open>
  In the half-open state every admitted request, the first one included, has succeeded or is under way.
\<close>

definition breaker_inv :: "CircuitBreakerConfig \<Rightarrow> breaker_sys \<Rightarrow> bool" where
  "breaker_inv cfg s = (let cb = Q_breaker s in BR_config cb = cfg
     \<and> (BR_state cb = CircuitClosed \<longrightarrow> 0 \<le> BR_failures cb \<and> BR_failures cb < FailureThreshold cfg)
     \<and> (BR_state cb = CircuitHalfOpen \<longrightarrow> 0 \<le> BR_successes cb \<and> BR_successes cb < SuccessThreshold cfg \<and> 0 \<le> BR_halfOpenReqs cb
          \<and> BR_halfOpenReqs cb \<le> max 0 (HalfOpenMaxReqs cfg) \<and> BR_halfOpenReqs cb + 1 \<le> BR_successes cb + int (Q_inflight s))
     \<and> (BR_state cb \<noteq> CircuitClosed \<longrightarrow> (\<exists>t0 \<le> Q_clock s. BR_lastStateChange cb = Some t0)))"

lemmas breaker_defs = beforeRequest_def afterRequest_def transitionTo_def timed_out_def Breaker_Reset_def Let_def

lemma breaker_inv_step:
  assumes "breaker_inv cfg s" "sane cfg" "breaker_step s s'"
  shows "breaker_inv cfg s'"
  using assms(3)
proof cases
  case (begin_request t r cb)
  then show ?thesis using assms(1,2)
    by (cases "BR_state (Q_breaker s)") (auto simp: breaker_defs breaker_inv_def sane_def split: if_splits)
next
  case (end_request t failed)
  then show ?thesis using assms(1,2)
    by (cases "BR_state (Q_breaker s)"; cases failed) (auto simp: breaker_defs breaker_inv_def sane_def)
next
  case reset
  then show ?thesis using assms(1,2) by (auto simp: breaker_defs breaker_inv_def sane_def)
qed

lemma breaker_reach_inv: "breaker_step\<^sup>*\<^sup>* (breaker_init name cfg t) s \<Longrightarrow> sane cfg \<Longrightarrow> breaker_inv cfg s"
proof (induction rule: rtranclp_induct)
  case base
  then show ?case by (simp add: breaker_inv_def breaker_init_def NewCircuitBreaker_def sane_def)
qed (rule breaker_inv_step)

text \<open>Successful calls one after the other.\<close>

definition succeed :: "time \<Rightarrow> CircuitBreaker \<Rightarrow> CircuitBreaker" where
  "succeed t cb = fst (snd (Execute t t (\<lambda>s. (Inr (), s)) cb ()))"

lemma succeed_admitted: "beforeRequest t cb = (None, cb1) \<Longrightarrow> succeed t cb = afterRequest t False cb1"
  by (simp add: succeed_def Execute_def)

lemma idle_admits:
  assumes "breaker_inv cfg s" "sane cfg" "Q_inflight s = 0" "BR_state (Q_breaker s) = CircuitOpen \<Longrightarrow> timed_out t (Q_breaker s)"
  shows "fst (beforeRequest t (Q_breaker s)) = None"
  using assms by (cases "BR_state (Q_breaker s)") (auto simp: breaker_inv_def beforeRequest_def sane_def Let_def)

lemma succeed_progress:
  assumes "breaker_inv cfg s" "sane cfg" "Q_inflight s = 0" "Q_clock s \<le> t"
    "BR_state (Q_breaker s) = CircuitOpen \<Longrightarrow> timed_out t (Q_breaker s)"
  shows "breaker_inv cfg \<lparr>Q_breaker = succeed t (Q_breaker s), Q_clock = t, Q_inflight = 0\<rparr>"
    and "BR_state (succeed t (Q_breaker s)) = CircuitClosed \<or> BR_state (succeed t (Q_breaker s)) = CircuitHalfOpen
      \<and> BR_successes (succeed t (Q_breaker s)) = (if BR_state (Q_breaker s) = CircuitHalfOpen then BR_successes (Q_breaker s) else 0) + 1"
proof -
  obtain cb1 where b: "beforeRequest t (Q_breaker s) = (None, cb1)"
    using idle_admits [OF assms(1,2,3,5)] by (cases "beforeRequest t (Q_breaker s)") auto
  let ?s1 = "s\<lparr>Q_breaker := cb1, Q_clock := t, Q_inflight := 1\<rparr>"
  have "breaker_inv cfg ?s1" using breaker_inv_step [OF assms(1,2) breaker_step.begin_request [OF assms(4) b]] assms(3) by simp
  then have "breaker_inv cfg (?s1\<lparr>Q_breaker := afterRequest t False cb1, Q_clock := t, Q_inflight := 0\<rparr>)"
    using breaker_inv_step [OF _ assms(2) breaker_step.end_request [of ?s1 t False]] by simp
  then show "breaker_inv cfg \<lparr>Q_breaker = succeed t (Q_breaker s), Q_clock = t, Q_inflight = 0\<rparr>"
    by (simp add: breaker_inv_def succeed_admitted [OF b])
  show "BR_state (succeed t (Q_breaker s)) = CircuitClosed \<or> BR_state (succeed t (Q_breaker s)) = CircuitHalfOpen
      \<and> BR_successes (succeed t (Q_breaker s)) = (if BR_state (Q_breaker s) = CircuitHalfOpen then BR_successes (Q_breaker s) else 0) + 1"
    using b by (cases "BR_state (Q_breaker s)") (auto simp: succeed_admitted [OF b] breaker_defs split: if_splits)
qed

lemma succeed_many:
  assumes "breaker_inv cfg s" "sane cfg" "Q_inflight s = 0" "sorted (Q_clock s # ts)"
    "ts \<noteq> [] \<Longrightarrow> BR_state (Q_breaker s) = CircuitOpen \<Longrightarrow> timed_out (hd ts) (Q_breaker s)"
  shows "\<exists>c. breaker_inv cfg \<lparr>Q_breaker = fold succeed ts (Q_breaker s), Q_clock = c, Q_inflight = 0\<rparr> \<and> c = last (Q_clock s # ts)
    \<and> (ts \<noteq> [] \<longrightarrow> BR_state (fold succeed ts (Q_breaker s)) = CircuitClosed
       \<or> BR_state (fold succeed ts (Q_breaker s)) = CircuitHalfOpen \<and> BR_successes (fold succeed ts (Q_breaker s)) \<ge> int (length ts))"
  using assms(4,5)
proof (induction ts rule: rev_induct)
  case Nil
  then show ?case using assms(1,3) by (simp add: breaker_inv_def)
next
  case (snoc t ts)
  let ?cb = "fold succeed ts (Q_breaker s)"
  have IH: "breaker_inv cfg \<lparr>Q_breaker = ?cb, Q_clock = last (Q_clock s # ts), Q_inflight = 0\<rparr>"
    "ts \<noteq> [] \<Longrightarrow> BR_state ?cb = CircuitClosed \<or> BR_state ?cb = CircuitHalfOpen \<and> BR_successes ?cb \<ge> int (length ts)"
    using snoc by (auto simp: sorted_append)
  have le: "last (Q_clock s # ts) \<le> t" using snoc.prems(1) by (auto simp: sorted_append)
  have "timed_out t ?cb" if "BR_state ?cb = CircuitOpen" using that IH(2) snoc.prems(2) by (cases "ts = []") auto
  then have p: "breaker_inv cfg \<lparr>Q_breaker = succeed t ?cb, Q_clock = t, Q_inflight = 0\<rparr>"
    "BR_state (succeed t ?cb) = CircuitClosed \<or> BR_state (succeed t ?cb) = CircuitHalfOpen
      \<and> BR_successes (succeed t ?cb) = (if BR_state ?cb = CircuitHalfOpen then BR_successes ?cb else 0) + 1"
    using succeed_progress [OF IH(1) assms(2), of t] le by auto
  have nn: "BR_state ?cb = CircuitHalfOpen \<Longrightarrow> BR_successes ?cb \<ge> 0" using IH(1) by (auto simp: breaker_inv_def Let_def)
  have "BR_state (succeed t ?cb) = CircuitClosed" if "BR_state ?cb = CircuitClosed"
    using that by (simp add: succeed_admitted breaker_defs)
  then show ?case using p IH(2) nn by (cases "ts = []") auto
qed

text \<open>
  C24: the circuit breaker fails fast and recovers. With thresholds that fit together (as the default ones do), however requests overlap: a closed breaker admits every
  request; an open one admits none until its timeout has passed and one afterwards; a half-open one admits at most the configured number of requests beside
  the first; and whenever no request is under way, as many successful calls as the threshold asks for close it, the first of them after the timeout
  if it is open. A request that never reports back stays counted as under way; nothing is claimed of the recovery then.
\<close>

theorem breaker_recovers:
  assumes "breaker_step\<^sup>*\<^sup>* (breaker_init name cfg t0) s" "sane cfg"
  shows "(BR_state (Q_breaker s) = CircuitClosed \<longrightarrow> fst (beforeRequest t (Q_breaker s)) = None)
    \<and> (BR_state (Q_breaker s) = CircuitOpen \<longrightarrow> (\<exists>t1 \<le> Q_clock s. BR_lastStateChange (Q_breaker s) = Some t1
         \<and> (fst (beforeRequest t (Q_breaker s)) = None \<longleftrightarrow> t - t1 > OpenTimeout cfg)))
    \<and> (BR_state (Q_breaker s) = CircuitHalfOpen \<longrightarrow> BR_halfOpenReqs (Q_breaker s) \<le> max 0 (HalfOpenMaxReqs cfg))
    \<and> (Q_inflight s = 0 \<longrightarrow> sorted (Q_clock s # ts) \<longrightarrow> int (length ts) \<ge> SuccessThreshold cfg \<longrightarrow>
         (BR_state (Q_breaker s) = CircuitOpen \<longrightarrow> timed_out (hd ts) (Q_breaker s)) \<longrightarrow>
         BR_state (fold succeed ts (Q_breaker s)) = CircuitClosed)"
proof -
  have inv: "breaker_inv cfg s" by (rule breaker_reach_inv [OF assms])
  have "BR_state (fold succeed ts (Q_breaker s)) = CircuitClosed"
    if h: "Q_inflight s = 0" "sorted (Q_clock s # ts)" "int (length ts) \<ge> SuccessThreshold cfg"
      "BR_state (Q_breaker s) = CircuitOpen \<longrightarrow> timed_out (hd ts) (Q_breaker s)"
  proof -
    have ne: "ts \<noteq> []" using h(3) assms(2) by (auto simp: sane_def)
    obtain c where c: "breaker_inv cfg \<lparr>Q_breaker = fold succeed ts (Q_breaker s), Q_clock = c, Q_inflight = 0\<rparr>"
      "BR_state (fold succeed ts (Q_breaker s)) = CircuitClosed
       \<or> BR_state (fold succeed ts (Q_breaker s)) = CircuitHalfOpen \<and> BR_successes (fold succeed ts (Q_breaker s)) \<ge> int (length ts)"
      using succeed_many [OF inv assms(2) h(1,2)] h(4) ne by blast
    then show ?thesis using h(3) by (auto simp: breaker_inv_def Let_def)
  qed
  then show ?thesis using inv by (auto simp: breaker_inv_def beforeRequest_def timed_out_def Let_def)
qed

definition demo_failing :: "nat \<Rightarrow> CircuitBreaker" where
  "demo_failing n = ((\<lambda>cb. fst (snd (Execute 0 0 (\<lambda>s. (Inl (Errorf ''down'') :: unit result, s)) cb ()))) ^^ n) (NewCircuitBreaker ''horizon'' DefaultCircuitBreakerConfig)"

text \<open>A failing call is a request that begins and ends.\<close>

lemma failing_call_reach:
  assumes "breaker_step\<^sup>*\<^sup>* s0 \<lparr>Q_breaker = cb, Q_clock = t, Q_inflight = 0\<rparr>" "fst (beforeRequest t cb) = None"
  shows "breaker_step\<^sup>*\<^sup>* s0 \<lparr>Q_breaker = fst (snd (Execute t t (\<lambda>s. (Inl e :: 'a result, s)) cb ())), Q_clock = t, Q_inflight = 0\<rparr>"
proof -
  obtain cb1 where b: "beforeRequest t cb = (None, cb1)" using assms(2) by (cases "beforeRequest t cb") auto
  have "breaker_step \<lparr>Q_breaker = cb, Q_clock = t, Q_inflight = 0\<rparr> \<lparr>Q_breaker = cb1, Q_clock = t, Q_inflight = 1\<rparr>"
    using breaker_step.begin_request [of "\<lparr>Q_breaker = cb, Q_clock = t, Q_inflight = 0\<rparr>" t] b by simp
  moreover have "breaker_step \<lparr>Q_breaker = cb1, Q_clock = t, Q_inflight = 1\<rparr> \<lparr>Q_breaker = afterRequest t True cb1, Q_clock = t, Q_inflight = 0\<rparr>"
    using breaker_step.end_request [of "\<lparr>Q_breaker = cb1, Q_clock = t, Q_inflight = 1\<rparr>" t True] by simp
  ultimately show ?thesis using assms(1) by (simp add: Execute_def b)
qed

lemma demo_failing_states:
  "n \<le> 5 \<Longrightarrow> demo_failing n = (NewCircuitBreaker ''horizon'' DefaultCircuitBreakerConfig)
     \<lparr>BR_failures := int n, BR_lastFailureTime := (if n = 0 then None else Some 0),
      BR_state := (if n = 5 then CircuitOpen else CircuitClosed), BR_lastStateChange := (if n = 5 then Some 0 else None)\<rparr>"
proof (induction n)
  case (Suc n)
  have "demo_failing (Suc n) = fst (snd (Execute 0 0 (\<lambda>s. (Inl (Errorf ''down'') :: unit result, s)) (demo_failing n) ()))"
    by (simp add: demo_failing_def)
  then show ?case using Suc by (simp add: Execute_def breaker_defs NewCircuitBreaker_def DefaultCircuitBreakerConfig_def)
qed (simp add: demo_failing_def NewCircuitBreaker_def)

lemma demo_failing_reach: "n \<le> 5 \<Longrightarrow>
    breaker_step\<^sup>*\<^sup>* (breaker_init ''horizon'' DefaultCircuitBreakerConfig 0) \<lparr>Q_breaker = demo_failing n, Q_clock = 0, Q_inflight = 0\<rparr>"
proof (induction n)
  case (Suc n)
  have "demo_failing (Suc n) = fst (snd (Execute 0 0 (\<lambda>s. (Inl (Errorf ''down'') :: unit result, s)) (demo_failing n) ()))"
    by (simp add: demo_failing_def)
  moreover have "fst (beforeRequest 0 (demo_failing n)) = None"
    using demo_failing_states [of n] Suc.prems by (simp add: beforeRequest_def NewCircuitBreaker_def)
  ultimately show ?case using failing_call_reach [OF Suc.IH, where e = "Errorf ''down''" and ?'a = unit] Suc.prems by simp
qed (simp add: demo_failing_def breaker_init_def)

theorem breaker_recovers_witness:
  "BR_state (demo_failing 5) = CircuitOpen \<and> fst (beforeRequest (30 * second) (demo_failing 5)) \<noteq> None
   \<and> BR_state (fold succeed [31 * second, 32 * second] (demo_failing 5)) = CircuitClosed"
proof -
  have st: "BR_state (demo_failing 5) = CircuitOpen" "BR_lastStateChange (demo_failing 5) = Some 0" "BR_config (demo_failing 5) = DefaultCircuitBreakerConfig"
    using demo_failing_states [of 5] by (simp_all add: NewCircuitBreaker_def)
  have sane: "sane DefaultCircuitBreakerConfig" by (simp add: sane_def DefaultCircuitBreakerConfig_def)
  note r = breaker_recovers [OF demo_failing_reach [of 5] sane, simplified]
  show ?thesis using r [of "30 * second" "[31 * second, 32 * second]"] st by (auto simp: DefaultCircuitBreakerConfig_def timed_out_def)
qed

section \<open>Horizon\<close>

text \<open>
  \<open>http_Get\<close> answers a request with a status code and a body; the decoders give what the code reads of a JSON text: an account, the
  field \<^verbatim>\<open>successful\<close> of a transaction when it is a boolean, and the records of a page of operations. A field of a record that is missing or no
  string is read as the empty string.
\<close>

record operation =
  OP_type :: string
  OP_from :: string
  OP_to :: string
  OP_amount :: string

record 'acc horizon_env =
  http_Get :: "string \<Rightarrow> (nat \<times> string) result"
  json_account :: "string \<Rightarrow> 'acc result"
  json_successful :: "string \<Rightarrow> bool option result"
  json_operations :: "string \<Rightarrow> operation list result"
  horizonURL :: string
  H_start :: time
  H_end :: time

definition account_response :: "'acc horizon_env \<Rightarrow> string \<Rightarrow> 'acc result" where
  "account_response env address =
     (case http_Get env (horizonURL env @ ''/accounts/'' @ address) of
        Inl e \<Rightarrow> Inl (Wrap ''horizon request'' e)
      | Inr (status, body) \<Rightarrow>
          if status = 404 then Inl (Errorf ''account not found'')
          else if status \<noteq> 200 then Inl (Errorf (''horizon error '' @ show_int (int status) @ '': '' @ body))
          else wrap_err ''decoding horizon response'' (json_account env body))"

definition GetAccount :: "'acc horizon_env \<Rightarrow> string \<Rightarrow> CircuitBreaker \<Rightarrow> 'acc result \<times> CircuitBreaker" where
  "GetAccount env address cb =
     (case Execute (H_start env) (H_end env) (\<lambda>s. (account_response env address, s)) cb () of (r, cb', s) \<Rightarrow> (r, cb'))"

definition transaction_response :: "'acc horizon_env \<Rightarrow> string \<Rightarrow> bool option result" where
  "transaction_response env hash =
     (case http_Get env (horizonURL env @ ''/transactions/'' @ hash) of
        Inl e \<Rightarrow> Inl e
      | Inr (status, body) \<Rightarrow>
          if status \<noteq> 200 then Inl (Errorf (''horizon error '' @ show_int (int status))) else json_successful env body)"

definition GetTransaction :: "'acc horizon_env \<Rightarrow> string \<Rightarrow> CircuitBreaker \<Rightarrow> bool option result \<times> CircuitBreaker" where
  "GetTransaction env hash cb =
     (case Execute (H_start env) (H_end env) (\<lambda>s. (transaction_response env hash, s)) cb () of (r, cb', s) \<Rightarrow> (r, cb'))"

definition payment_types :: "string list" where
  "payment_types = [''payment'', ''payment_strict_receive'', ''payment_strict_send'']"

definition operations_response :: "'acc horizon_env \<Rightarrow> string \<Rightarrow> operation list result" where
  "operations_response env hash =
     (case http_Get env (horizonURL env @ ''/transactions/'' @ hash @ ''/operations?limit=200'') of
        Inl e \<Rightarrow> Inl (Wrap ''horizon request'' e)
      | Inr (status, body) \<Rightarrow>
          if status \<noteq> 200 then Inl (Errorf (''horizon error '' @ show_int (int status) @ '': '' @ body))
          else wrap_err ''decoding horizon operations'' (json_operations env body))"

definition getTransactionOperations :: "'acc horizon_env \<Rightarrow> string \<Rightarrow> CircuitBreaker \<Rightarrow> operation list result \<times> CircuitBreaker" where
  "getTransactionOperations env hash cb =
     perform (GetTransaction env hash cb) (\<lambda>txn cb.
     guard (txn = Some False) (Errorf (''transaction '' @ hash @ '' was not successful on-chain'')) cb (
     attempt (operations_response env hash) cb (\<lambda>records.
     (Inr (filter (\<lambda>r. OP_type r \<in> set payment_types) records), cb))))"

text \<open>The loops return at the first operation that passes both comparisons; an empty expectation skips one.\<close>

definition Client_VerifyTransaction :: "'acc horizon_env \<Rightarrow> string \<Rightarrow> string \<Rightarrow> string \<Rightarrow> CircuitBreaker \<Rightarrow> bool result \<times> CircuitBreaker" where
  "Client_VerifyTransaction env hash expectedFrom expectedAmount cb =
     perform (getTransactionOperations env hash cb) (\<lambda>ops cb.
     (Inr (list_ex (\<lambda>r. (expectedFrom = [] \<or> OP_from r = expectedFrom) \<and> (expectedAmount = [] \<or> OP_amount r = expectedAmount)) ops), cb))"

definition Client_VerifyPayment :: "'acc horizon_env \<Rightarrow> string \<Rightarrow> string \<Rightarrow> string \<Rightarrow> CircuitBreaker \<Rightarrow> bool result \<times> CircuitBreaker" where
  "Client_VerifyPayment env hash expectedTo expectedAmount cb =
     perform (getTransactionOperations env hash cb) (\<lambda>ops cb.
     (Inr (list_ex (\<lambda>r. (expectedTo = [] \<or> OP_to r = expectedTo) \<and> (expectedAmount = [] \<or> OP_amount r = expectedAmount)) ops), cb))"

text \<open>What Horizon says about a transaction, independent of the client.\<close>

definition on_chain :: "'acc horizon_env \<Rightarrow> string \<Rightarrow> operation \<Rightarrow> bool" where
  "on_chain env hash r = (\<exists>body body' ok records. http_Get env (horizonURL env @ ''/transactions/'' @ hash) = Inr (200, body)
     \<and> json_successful env body = Inr ok \<and> ok \<noteq> Some False
     \<and> http_Get env (horizonURL env @ ''/transactions/'' @ hash @ ''/operations?limit=200'') = Inr (200, body')
     \<and> json_operations env body' = Inr records \<and> r \<in> set records)"

lemma GetTransaction_Inr: "GetTransaction env hash cb = (Inr x, cb') \<Longrightarrow> transaction_response env hash = Inr x"
  by (auto simp: GetTransaction_def Execute_def split: prod.splits option.splits)

lemma operations_on_chain:
  assumes "getTransactionOperations env hash cb = (Inr ops, cb')" "r \<in> set ops"
  shows "on_chain env hash r \<and> OP_type r \<in> set payment_types"
proof -
  obtain txn records where t: "transaction_response env hash = Inr txn" "txn \<noteq> Some False" "operations_response env hash = Inr records"
    "ops = filter (\<lambda>r. OP_type r \<in> set payment_types) records"
    using assms(1) by (auto simp: getTransactionOperations_def svc dest!: GetTransaction_Inr)
  then show ?thesis using assms(2)
    by (auto simp: on_chain_def transaction_response_def operations_response_def split: sum.splits prod.splits if_splits)
qed

lemma String_not_Nil [simp]: "String m \<noteq> []"
  by (simp add: String_def Let_def)

lemma Client_VerifyTransaction_True:
  assumes "fst (Client_VerifyTransaction env hash f (String amt) cb) = Inr True" "f \<noteq> []"
  shows "\<exists>r. on_chain env hash r \<and> OP_type r \<in> set payment_types \<and> OP_from r = f \<and> OP_amount r = String amt"
  using assms operations_on_chain [of env hash cb]
  by (cases "getTransactionOperations env hash cb"; cases "fst (getTransactionOperations env hash cb)")
    (fastforce simp: Client_VerifyTransaction_def list_ex_iff)+

lemma Client_VerifyPayment_True:
  assumes "fst (Client_VerifyPayment env hash w (String amt) cb) = Inr True" "w \<noteq> []"
  shows "\<exists>r. on_chain env hash r \<and> OP_type r \<in> set payment_types \<and> OP_to r = w \<and> OP_amount r = String amt"
  using assms operations_on_chain [of env hash cb]
  by (cases "getTransactionOperations env hash cb"; cases "fst (getTransactionOperations env hash cb)")
    (fastforce simp: Client_VerifyPayment_def list_ex_iff)+

text \<open>
  C25: a contribution or payout marked as verified was paid. When the services verify with this client, and the caller has not overridden the verification, verified means that Horizon knows the
  transaction of the submitted hash, does not report it as failed, and lists a payment in it of exactly the submitted amount in stroops, from the configured
  master key, if one is set (contribution), or to the wallet of the recipient, if it is not empty (payout). A record that is stored unverified is not
  restricted.
\<close>

theorem verified_means_paid:
  assumes "VerifyTransaction kenv = (\<lambda>h f a. fst (Client_VerifyTransaction henv h f a cb))"
    "VerifyPayment yenv = (\<lambda>h f a. fst (Client_VerifyPayment henv h f a cb))"
    "masterPublicKey s \<noteq> []" "\<forall>w. WalletAddressForUser yenv recipient = Inr w \<longrightarrow> w \<noteq> []"
    "RI_VerifiedOnchain input = None" "PI_VerifiedOnchain pay = None"
  shows "(verification kenv s input = Inr (True, v) \<longrightarrow>
       (\<exists>r amt. on_chain henv (RI_TxnHash input) r \<and> OP_type r \<in> set payment_types \<and> OP_from r = masterPublicKey s
          \<and> FromFloat64 (RI_Amount input) = Inr amt \<and> FromString (OP_amount r) = Inr amt))
    \<and> (payout_verification yenv y pay recipient = Inr (True, v) \<longrightarrow>
       (\<exists>r amt. on_chain henv (PI_TxnHash pay) r \<and> OP_type r \<in> set payment_types \<and> WalletAddressForUser yenv recipient = Inr (OP_to r)
          \<and> FromFloat64 (PI_Amount pay) = Inr amt \<and> FromString (OP_amount r) = Inr amt))"
proof (intro conjI impI)
  assume "verification kenv s input = Inr (True, v)"
  then obtain amt where a: "FromFloat64 (RI_Amount input) = Inr amt"
    "fst (Client_VerifyTransaction henv (RI_TxnHash input) (masterPublicKey s) (String amt) cb) = Inr True"
    using assms(1,5) by (auto simp: verification_def with_default_def wrap_err_def split: if_splits sum.splits)
  show "\<exists>r amt. on_chain henv (RI_TxnHash input) r \<and> OP_type r \<in> set payment_types \<and> OP_from r = masterPublicKey s
          \<and> FromFloat64 (RI_Amount input) = Inr amt \<and> FromString (OP_amount r) = Inr amt"
    using Client_VerifyTransaction_True [OF a(2) assms(3)] a(1) FromString_String [of amt] by metis
next
  assume "payout_verification yenv y pay recipient = Inr (True, v)"
  then obtain amt w where a: "FromFloat64 (PI_Amount pay) = Inr amt" "WalletAddressForUser yenv recipient = Inr w"
    "fst (Client_VerifyPayment henv (PI_TxnHash pay) w (String amt) cb) = Inr True"
    using assms(2,6) by (auto simp: payout_verification_def resolveRecipientWallet_def with_default_def wrap_err_def split: if_splits sum.splits)
  show "\<exists>r amt. on_chain henv (PI_TxnHash pay) r \<and> OP_type r \<in> set payment_types \<and> WalletAddressForUser yenv recipient = Inr (OP_to r)
          \<and> FromFloat64 (PI_Amount pay) = Inr amt \<and> FromString (OP_amount r) = Inr amt"
    using Client_VerifyPayment_True [OF a(3)] assms(4) a(1,2) FromString_String [of amt] by metis
qed

text \<open>
  The witness: an amount of ten units in one payment from \<open>G\<close> to \<open>W\<close>.
\<close>

definition demo_amount :: money where
  "demo_amount = FromStroops 100000000"

definition demo_operation :: operation where
  "demo_operation = \<lparr>OP_type = ''payment'', OP_from = ''G'', OP_to = ''W'', OP_amount = String demo_amount\<rparr>"

definition demo_horizon :: "unit horizon_env" where
  "demo_horizon = \<lparr>http_Get = (\<lambda>url. if url = ''x/transactions/h'' \<or> url = ''x/transactions/h/operations?limit=200'' then Inr (200, url) else Inr (404, [])),
     json_account = (\<lambda>b. Inr ()), json_successful = (\<lambda>b. Inr (Some True)), json_operations = (\<lambda>b. Inr [demo_operation]), horizonURL = ''x'', H_start = 1, H_end = 2\<rparr>"

definition demo_breaker :: CircuitBreaker where
  "demo_breaker = NewCircuitBreaker ''horizon'' DefaultCircuitBreakerConfig"

definition demo_contribution_env :: contrib_env where
  "demo_contribution_env = demo_kenv\<lparr>VerifyTransaction := (\<lambda>h f a. fst (Client_VerifyTransaction demo_horizon h f a demo_breaker))\<rparr>"

definition demo_payout_env :: payout_env where
  "demo_payout_env = (demo_yenv 0)\<lparr>VerifyPayment := (\<lambda>h f a. fst (Client_VerifyPayment demo_horizon h f a demo_breaker))\<rparr>"

lemma demo_client:
  "fst (Client_VerifyTransaction demo_horizon ''h'' ''G'' (String demo_amount) demo_breaker) = Inr True"
  "fst (Client_VerifyPayment demo_horizon ''h'' ''W'' (String demo_amount) demo_breaker) = Inr True"
  by (simp_all add: Client_VerifyTransaction_def Client_VerifyPayment_def getTransactionOperations_def GetTransaction_def Execute_def beforeRequest_def
      transaction_response_def operations_response_def demo_horizon_def demo_breaker_def NewCircuitBreaker_def demo_operation_def payment_types_def)

lemma demo_amount_float: "FromFloat64 (Float64 demo_amount) = Inr demo_amount"
  by (rule Float64_round_trip) (simp add: demo_amount_def FromStroops_def)

definition demo_claimed_payment :: RecordInput where
  "demo_claimed_payment = demo_pay\<lparr>RI_Amount := Float64 demo_amount, RI_VerifiedOnchain := None, RI_VerificationStatus := None\<rparr>"

definition demo_claimed_payout :: PayoutInput where
  "demo_claimed_payout = (demo_payout ''a'' ''h'')\<lparr>PI_Amount := Float64 demo_amount, PI_VerifiedOnchain := None, PI_VerificationStatus := None\<rparr>"

theorem verified_means_paid_witness:
  "verification demo_contribution_env demo_ksvc demo_claimed_payment = Inr (True, VerificationStatusVerified)
   \<and> (\<exists>r. on_chain demo_horizon ''h'' r \<and> OP_from r = ''G'' \<and> FromString (OP_amount r) = Inr demo_amount)
   \<and> payout_verification demo_payout_env demo_ysvc demo_claimed_payout 2 = Inr (True, VerificationStatusVerified)
   \<and> (\<exists>r. on_chain demo_horizon ''h'' r \<and> OP_to r = ''W'' \<and> FromString (OP_amount r) = Inr demo_amount)"
proof -
  have c: "verification demo_contribution_env demo_ksvc demo_claimed_payment = Inr (True, VerificationStatusVerified)"
    by (simp add: verification_def demo_contribution_env_def demo_ksvc_def demo_claimed_payment_def demo_pay_def demo_amount_float demo_client)
  have p: "payout_verification demo_payout_env demo_ysvc demo_claimed_payout 2 = Inr (True, VerificationStatusVerified)"
    by (simp add: payout_verification_def resolveRecipientWallet_def demo_payout_env_def demo_ysvc_def demo_claimed_payout_def demo_payout_def demo_yenv_def
        demo_amount_float demo_client)
  have "VerifyTransaction demo_contribution_env = (\<lambda>h f a. fst (Client_VerifyTransaction demo_horizon h f a demo_breaker))"
    "VerifyPayment demo_payout_env = (\<lambda>h f a. fst (Client_VerifyPayment demo_horizon h f a demo_breaker))"
    "masterPublicKey demo_ksvc \<noteq> []" "\<forall>w. WalletAddressForUser demo_payout_env 2 = Inr w \<longrightarrow> w \<noteq> []"
    "RI_VerifiedOnchain demo_claimed_payment = None" "PI_VerifiedOnchain demo_claimed_payout = None"
    by (simp_all add: demo_contribution_env_def demo_payout_env_def demo_ksvc_def demo_yenv_def demo_claimed_payment_def demo_claimed_payout_def)
  note v = verified_means_paid [OF this]
  have facts: "RI_TxnHash demo_claimed_payment = ''h''" "RI_Amount demo_claimed_payment = Float64 demo_amount" "masterPublicKey demo_ksvc = ''G''"
    "PI_TxnHash demo_claimed_payout = ''h''" "PI_Amount demo_claimed_payout = Float64 demo_amount" "WalletAddressForUser demo_payout_env 2 = Inr ''W''"
    by (simp_all add: demo_claimed_payment_def demo_pay_def demo_ksvc_def demo_claimed_payout_def demo_payout_def demo_payout_env_def demo_yenv_def)
  have "\<exists>r. on_chain demo_horizon ''h'' r \<and> OP_from r = ''G'' \<and> FromString (OP_amount r) = Inr demo_amount"
    "\<exists>r. on_chain demo_horizon ''h'' r \<and> OP_to r = ''W'' \<and> FromString (OP_amount r) = Inr demo_amount"
    using v [THEN conjunct1, rule_format, OF c] v [THEN conjunct2, rule_format, OF p] demo_amount_float facts by auto
  then show ?thesis using c p by blast
qed

text \<open>
  The check of a contribution looks neither at the recipient of the payment nor at its asset: the answer is the same whoever
  was paid.
\<close>

lemma recipient_not_checked:
  "Client_VerifyTransaction (env\<lparr>json_operations := (\<lambda>b. map_sum id (map (\<lambda>r. r\<lparr>OP_to := w\<rparr>)) (json_operations env b))\<rparr>) hash f a cb
   = Client_VerifyTransaction env hash f a cb"
proof -
  have ops: "operations_response (env\<lparr>json_operations := (\<lambda>b. map_sum id (map (\<lambda>r. r\<lparr>OP_to := w\<rparr>)) (json_operations env b))\<rparr>) hash
      = map_sum id (map (\<lambda>r. r\<lparr>OP_to := w\<rparr>)) (operations_response env hash)"
    by (auto simp: operations_response_def wrap_err_def split: sum.splits)
  have tx: "GetTransaction (env\<lparr>json_operations := g\<rparr>) hash cb = GetTransaction env hash cb" for g
  proof -
    have "transaction_response (env\<lparr>json_operations := g\<rparr>) hash = transaction_response env hash"
      by (auto simp: transaction_response_def split: sum.splits)
    then show ?thesis by (simp add: GetTransaction_def)
  qed
  show ?thesis
    by (cases "GetTransaction env hash cb"; cases "fst (GetTransaction env hash cb)"; cases "operations_response env hash")
      (auto simp: Client_VerifyTransaction_def getTransactionOperations_def tx ops guard_def list_ex_iff filter_map comp_def)
qed

text \<open>
  An unknown transaction counts as a failure of Horizon. Five requests for hashes that Horizon does not know open the breaker, and for half a minute every request for an
  existing transaction is refused.
\<close>

lemma unknown_hashes_block_everyone:
  assumes "\<forall>h \<in> set hs. http_Get env (horizonURL env @ ''/transactions/'' @ h) = Inr (404, [])" "length hs = 5" "H_end env' - H_end env \<le> 30 * second"
    "H_start env' \<le> H_end env'"
  shows "\<exists>e. fst (GetTransaction env' h (fold (\<lambda>h cb. snd (GetTransaction env h cb)) hs (NewCircuitBreaker name DefaultCircuitBreakerConfig))) = Inl e"
proof -
  let ?cb = "\<lambda>n. (NewCircuitBreaker name DefaultCircuitBreakerConfig)\<lparr>BR_failures := int n, BR_lastFailureTime := (if n = 0 then None else Some (H_end env)),
      BR_state := (if n \<ge> 5 then CircuitOpen else CircuitClosed), BR_lastStateChange := (if n \<ge> 5 then Some (H_end env) else None)\<rparr>"
  have step: "snd (GetTransaction env h (?cb n)) = ?cb (Suc n)" if "h \<in> set hs" "n < 5" for h n
    using assms(1) that by (simp add: GetTransaction_def Execute_def breaker_defs transaction_response_def NewCircuitBreaker_def DefaultCircuitBreakerConfig_def)
  have "fold (\<lambda>h cb. snd (GetTransaction env h cb)) xs (?cb n) = ?cb (n + length xs)" if "set xs \<subseteq> set hs" "n + length xs \<le> 5" for xs n
    using that
  proof (induction xs arbitrary: n)
    case (Cons x xs)
    then show ?case using step [of x n] Cons.IH [of "Suc n"] by simp
  qed simp
  from this [of hs 0] have f: "fold (\<lambda>h cb. snd (GetTransaction env h cb)) hs (NewCircuitBreaker name DefaultCircuitBreakerConfig) = ?cb 5"
    using assms(2) by (simp add: NewCircuitBreaker_def)
  show ?thesis unfolding f using assms(3,4) by (simp add: GetTransaction_def Execute_def beforeRequest_def timed_out_def NewCircuitBreaker_def DefaultCircuitBreakerConfig_def)
qed

end
