(* ===== verification/MobileMoney.thy ===== *)
theory MobileMoney
  imports CircleRepo SingleFlight
begin

text \<open>
  \<^verbatim>\<open>internal/domain/mobilemoney\<close>: payments through mobile-money providers, initiated at most once per idempotency key and settled by a reconciler that polls the
  provider. The providers are parameters, except for the parts of the M-Pesa adapter and of the two stubs that decide on the answers.
\<close>

section \<open>Model\<close>

datatype Direction = DirectionOnramp | DirectionOfframp

datatype Status = StatusPending | StatusCompleted | StatusFailed

record Transaction =
  TX_ID :: string
  TX_UserID :: string
  TX_Provider :: string
  TX_Direction :: Direction
  TX_Currency :: string
  TX_Amount :: float64
  TX_USDCAmount :: float64
  TX_PhoneNumber :: string
  TX_DestinationAddress :: string
  TX_Status :: Status
  TX_ProviderRef :: string
  TX_IdempotencyKey :: string
  TX_FailureReason :: "string option"
  TX_CreatedAt :: time
  TX_CompletedAt :: "time option"

record OnrampRequest =
  OR_Amount :: float64
  OR_Currency :: string
  OR_PhoneNumber :: string
  OR_DestinationAddress :: string
  OR_Reference :: string

record OfframpRequest =
  OF_Amount :: float64
  OF_Currency :: string
  OF_PhoneNumber :: string
  OF_AccountName :: string
  OF_Reference :: string

text \<open>A provider answers an initiation with its reference and a status, and a query with a status and the reason of a failure.\<close>

record provider =
  PV_Name :: string
  PV_Currency :: string
  PV_InitiateOnramp :: "OnrampRequest \<Rightarrow> (string \<times> Status) result"
  PV_InitiateOfframp :: "OfframpRequest \<Rightarrow> (string \<times> Status) result"
  PV_GetStatus :: "string \<Rightarrow> (Status \<times> string) result"

section \<open>Registry\<close>

type_synonym registry = "string \<rightharpoonup> provider"

definition NewRegistry :: registry where
  "NewRegistry = (\<lambda>c. None)"

definition Register :: "provider \<Rightarrow> registry \<Rightarrow> registry" where
  "Register p r = r(PV_Currency p \<mapsto> p)"

definition For :: "registry \<Rightarrow> string \<Rightarrow> provider result" where
  "For r currency =
     (case r currency of
        None \<Rightarrow> Inl (Errorf (''no mobile money provider configured for currency \"'' @ currency @ ''\"''))
      | Some p \<Rightarrow> Inr p)"

text \<open>The listings come in the random order of a Go map and are modelled as sets.\<close>

definition SupportedCurrencies :: "registry \<Rightarrow> string set" where
  "SupportedCurrencies r = dom r"

definition Providers :: "registry \<Rightarrow> (string \<times> string) set" where
  "Providers r = (\<lambda>p. (PV_Name p, PV_Currency p)) ` ran r"

definition ActiveProviderNames :: "registry \<Rightarrow> string set" where
  "ActiveProviderNames r = PV_Name ` ran r"

section \<open>Providers\<close>

text \<open>
  The answers of the M-Pesa adapter, as functions of what the request to the API returned: an error, or the response code, its
  description and the reference. The amount that is sent is cut to whole units.
\<close>

definition mpesa_amount :: "(float64 \<Rightarrow> int64) \<Rightarrow> float64 \<Rightarrow> int64" where
  "mpesa_amount oor f = to_int64 oor f"

definition MPesa_InitiateOnramp :: "(string \<times> string \<times> string) result \<Rightarrow> (string \<times> Status) result" where
  "MPesa_InitiateOnramp response =
     (case response of
        Inl e \<Rightarrow> Inl e
      | Inr (code, desc, ref) \<Rightarrow>
          if code \<noteq> ''0'' then Inl (Errorf (''stk push rejected: '' @ desc)) else Inr (ref, StatusPending))"

definition MPesa_InitiateOfframp :: "(string \<times> string \<times> string) result \<Rightarrow> (string \<times> Status) result" where
  "MPesa_InitiateOfframp response =
     (case response of
        Inl e \<Rightarrow> Inl e
      | Inr (code, desc, ref) \<Rightarrow>
          if code \<noteq> ''0'' then Inl (Errorf (''b2c payment rejected: '' @ desc)) else Inr (ref, StatusPending))"

definition MPesa_GetStatus :: "(string \<times> string) result \<Rightarrow> (Status \<times> string) result" where
  "MPesa_GetStatus response =
     (case response of
        Inl e \<Rightarrow> Inr (StatusPending, [])
      | Inr (code, desc) \<Rightarrow>
          Inr (if code = ''0'' then (StatusCompleted, [])
               else if code = ''1032'' then (StatusFailed, desc)
               else if code = [] then (StatusPending, [])
               else (StatusFailed, desc)))"

definition stub_provider :: "string \<Rightarrow> string \<Rightarrow> string \<Rightarrow> string \<Rightarrow> provider" where
  "stub_provider name currency on off =
     \<lparr>PV_Name = name, PV_Currency = currency, PV_InitiateOnramp = (\<lambda>req. Inl (Errorf on)), PV_InitiateOfframp = (\<lambda>req. Inl (Errorf off)),
      PV_GetStatus = (\<lambda>ref. Inr (StatusPending, []))\<rparr>"

section \<open>Repository\<close>

text \<open>The world has the table and, in order, the initiations that a provider has accepted.\<close>

record accepted_call =
  AC_UserID :: string
  AC_Key :: string
  AC_Ref :: string

record money_world =
  MW_rows :: "Transaction list"
  MW_calls :: "accepted_call list"

datatype money_stmt =
    MQ_Insert string | MQ_Get string | MQ_ByKey string string | MQ_Update string | MQ_ListPending

record money_env = "money_stmt env" +
  money_row_error :: "Transaction \<Rightarrow> error option"
  numeric_20_7 :: "float64 \<Rightarrow> float64"

text \<open>
  The insert leaves the failure reason and the time of completion empty; the table has two unique keys. The amounts are kept as \<^verbatim>\<open>NUMERIC(20,7)\<close>:
  \<open>numeric_20_7\<close> is the number that is read back for a number that was written, and \<open>money_row_error\<close> refuses what does not fit a column.
\<close>

definition stored_transaction :: "money_env \<Rightarrow> Transaction \<Rightarrow> Transaction" where
  "stored_transaction env t =
     t\<lparr>TX_Amount := numeric_20_7 env (TX_Amount t), TX_USDCAmount := numeric_20_7 env (TX_USDCAmount t), TX_FailureReason := None, TX_CompletedAt := None\<rparr>"

definition Money_Create :: "money_env \<Rightarrow> Transaction \<Rightarrow> money_world \<Rightarrow> unit result \<times> money_world" where
  "Money_Create env t w =
     wrap_call ''creating mobile money transaction'' (exec_stmt env (MQ_Insert (TX_ID t))
       (\<lambda>w. if \<exists>r \<in> set (MW_rows w). TX_ID r = TX_ID t \<or> (TX_UserID r = TX_UserID t \<and> TX_IdempotencyKey r = TX_IdempotencyKey t)
             then Some unique_violation else money_row_error env t)
       (\<lambda>w. w\<lparr>MW_rows := MW_rows w @ [stored_transaction env t]\<rparr>) w)"

definition Money_GetByID :: "money_env \<Rightarrow> string \<Rightarrow> money_world \<Rightarrow> Transaction result" where
  "Money_GetByID env i w =
     (case run_query env (MQ_Get i) (List.find (\<lambda>r. TX_ID r = i) (MW_rows w)) of
        Inl e \<Rightarrow> if errors_Is e Sql_ErrNoRows then Inl (Sentinel App_ErrNotFound) else Inl (Wrap ''getting mobile money transaction'' e)
      | Inr None \<Rightarrow> Inl (Sentinel App_ErrNotFound)
      | Inr (Some t) \<Rightarrow> Inr t)"

definition GetByIdempotencyKey :: "money_env \<Rightarrow> string \<Rightarrow> string \<Rightarrow> money_world \<Rightarrow> Transaction option result" where
  "GetByIdempotencyKey env u key w =
     (case run_query env (MQ_ByKey u key) (List.find (\<lambda>r. TX_UserID r = u \<and> TX_IdempotencyKey r = key) (MW_rows w)) of
        Inl e \<Rightarrow> if errors_Is e Sql_ErrNoRows then Inr None else Inl (Wrap ''getting mobile money transaction by idempotency key'' e)
      | Inr x \<Rightarrow> Inr x)"

definition settled_row :: "time \<Rightarrow> Status \<Rightarrow> string option \<Rightarrow> Transaction \<Rightarrow> Transaction" where
  "settled_row t st reason r =
     r\<lparr>TX_Status := st, TX_FailureReason := reason, TX_CompletedAt := (if st = StatusCompleted \<or> st = StatusFailed then Some t else None)\<rparr>"

definition Money_UpdateStatus :: "money_env \<Rightarrow> string \<Rightarrow> Status \<Rightarrow> string option \<Rightarrow> money_world \<Rightarrow> unit result \<times> money_world" where
  "Money_UpdateStatus env i st reason w =
     wrap_call ''updating mobile money transaction status'' (exec_stmt env (MQ_Update i) no_check
       (\<lambda>w. w\<lparr>MW_rows := update_where (\<lambda>r. TX_ID r = i) (settled_row (now env) st reason) (MW_rows w)\<rparr>) w)"

definition ListPending :: "money_env \<Rightarrow> int \<Rightarrow> money_world \<Rightarrow> Transaction list result" where
  "ListPending env secs w =
     wrap_err ''listing pending mobile money transactions'' (run_query env MQ_ListPending
       (sort_key TX_CreatedAt (filter (\<lambda>r. TX_Status r = StatusPending \<and> TX_CreatedAt r \<le> now env - secs * second) (MW_rows w))))"

section \<open>Service\<close>

abbreviation reconcileMinAge :: duration where "reconcileMinAge \<equiv> 30 * second"

text \<open>
  The two initiations differ in the call of the provider, the row and the messages. The first half looks the key up, the second
  calls the provider and stores the row; requests can interleave between them.
\<close>

definition lookup_key :: "money_env \<Rightarrow> string \<Rightarrow> string \<Rightarrow> money_world \<Rightarrow> Transaction option result" where
  "lookup_key env u key w = (if key = [] then Inl (Errorf ''idempotency key is required'') else GetByIdempotencyKey env u key w)"

definition initiate_rest :: "money_env \<Rightarrow> registry \<Rightarrow> string \<Rightarrow> string \<Rightarrow> (provider \<Rightarrow> (string \<times> Status) result)
    \<Rightarrow> (provider \<Rightarrow> string \<Rightarrow> Status \<Rightarrow> Transaction) \<Rightarrow> money_world \<Rightarrow> Transaction result \<times> money_world" where
  "initiate_rest env reg what currency call row w =
     attempt (For reg currency) w (\<lambda>p.
     attempt (wrap_err (''initiating '' @ what @ '' with '' @ PV_Name p) (call p)) w (\<lambda>(ref, st).
     let txn = row p ref st; w1 = w\<lparr>MW_calls := MW_calls w @ [\<lparr>AC_UserID = TX_UserID txn, AC_Key = TX_IdempotencyKey txn, AC_Ref = ref\<rparr>]\<rparr> in
     perform (wrap_call (''persisting mobile money '' @ what @ '' after '' @ PV_Name p @ '' accepted it (providerRef='' @ ref @ '')'')
       (Money_Create env txn w1)) (\<lambda>_ w. (Inr txn, w))))"

definition onramp_row :: "money_env \<Rightarrow> string \<Rightarrow> OnrampRequest \<Rightarrow> string \<Rightarrow> provider \<Rightarrow> string \<Rightarrow> Status \<Rightarrow> Transaction" where
  "onramp_row env u req key p ref st =
     \<lparr>TX_ID = uuid_String env (uuid_New env 0), TX_UserID = u, TX_Provider = PV_Name p, TX_Direction = DirectionOnramp, TX_Currency = OR_Currency req,
      TX_Amount = OR_Amount req, TX_USDCAmount = Finite 0, TX_PhoneNumber = OR_PhoneNumber req, TX_DestinationAddress = OR_DestinationAddress req, TX_Status = st,
      TX_ProviderRef = ref, TX_IdempotencyKey = key, TX_FailureReason = None, TX_CreatedAt = now env, TX_CompletedAt = None\<rparr>"

definition offramp_row :: "money_env \<Rightarrow> string \<Rightarrow> OfframpRequest \<Rightarrow> string \<Rightarrow> provider \<Rightarrow> string \<Rightarrow> Status \<Rightarrow> Transaction" where
  "offramp_row env u req key p ref st =
     \<lparr>TX_ID = uuid_String env (uuid_New env 0), TX_UserID = u, TX_Provider = PV_Name p, TX_Direction = DirectionOfframp, TX_Currency = OF_Currency req,
      TX_Amount = OF_Amount req, TX_USDCAmount = Finite 0, TX_PhoneNumber = OF_PhoneNumber req, TX_DestinationAddress = [], TX_Status = st,
      TX_ProviderRef = ref, TX_IdempotencyKey = key, TX_FailureReason = None, TX_CreatedAt = now env, TX_CompletedAt = None\<rparr>"

definition onramp_rest :: "money_env \<Rightarrow> registry \<Rightarrow> string \<Rightarrow> OnrampRequest \<Rightarrow> string \<Rightarrow> money_world \<Rightarrow> Transaction result \<times> money_world" where
  "onramp_rest env reg u req key = initiate_rest env reg ''on-ramp'' (OR_Currency req) (\<lambda>p. PV_InitiateOnramp p req) (onramp_row env u req key)"

definition offramp_rest :: "money_env \<Rightarrow> registry \<Rightarrow> string \<Rightarrow> OfframpRequest \<Rightarrow> string \<Rightarrow> money_world \<Rightarrow> Transaction result \<times> money_world" where
  "offramp_rest env reg u req key = initiate_rest env reg ''off-ramp'' (OF_Currency req) (\<lambda>p. PV_InitiateOfframp p req) (offramp_row env u req key)"

definition InitiateOnramp :: "money_env \<Rightarrow> registry \<Rightarrow> string \<Rightarrow> OnrampRequest \<Rightarrow> string \<Rightarrow> money_world \<Rightarrow> Transaction result \<times> money_world" where
  "InitiateOnramp env reg u req key w =
     attempt (lookup_key env u key w) w (\<lambda>existing. case existing of Some t \<Rightarrow> (Inr t, w) | None \<Rightarrow> onramp_rest env reg u req key w)"

definition InitiateOfframp :: "money_env \<Rightarrow> registry \<Rightarrow> string \<Rightarrow> OfframpRequest \<Rightarrow> string \<Rightarrow> money_world \<Rightarrow> Transaction result \<times> money_world" where
  "InitiateOfframp env reg u req key w =
     attempt (lookup_key env u key w) w (\<lambda>existing. case existing of Some t \<Rightarrow> (Inr t, w) | None \<Rightarrow> offramp_rest env reg u req key w)"

definition GetMoneyTransaction :: "money_env \<Rightarrow> string \<Rightarrow> money_world \<Rightarrow> Transaction result" where
  "GetMoneyTransaction env i w = Money_GetByID env i w"

definition poll_row :: "registry \<Rightarrow> Transaction \<Rightarrow> (Status \<times> string option) option" where
  "poll_row reg t =
     (case For reg (TX_Currency t) of
        Inl e \<Rightarrow> None
      | Inr p \<Rightarrow>
          (case PV_GetStatus p (TX_ProviderRef t) of
             Inl e \<Rightarrow> None
           | Inr (st, reason) \<Rightarrow> if st = StatusPending then None else Some (st, if reason \<noteq> [] then Some reason else None)))"

fun reconcile_rows :: "money_env \<Rightarrow> registry \<Rightarrow> Transaction list \<Rightarrow> nat \<Rightarrow> money_world \<Rightarrow> nat \<times> money_world" where
  "reconcile_rows env reg [] n w = (n, w)"
| "reconcile_rows env reg (t # ts) n w =
     (case poll_row reg t of
        None \<Rightarrow> reconcile_rows env reg ts n w
      | Some (st, reason) \<Rightarrow>
          (case Money_UpdateStatus env (TX_ID t) st reason w of
             (Inl e, w1) \<Rightarrow> reconcile_rows env reg ts n w1
           | (Inr _, w1) \<Rightarrow> reconcile_rows env reg ts (Suc n) w1))"

definition Money_Reconcile :: "money_env \<Rightarrow> registry \<Rightarrow> money_world \<Rightarrow> nat result \<times> money_world" where
  "Money_Reconcile env reg w =
     attempt (wrap_err ''listing pending mobile money transactions'' (ListPending env (quo reconcileMinAge second) w)) w (\<lambda>pending.
     case reconcile_rows env reg pending 0 w of (n, w1) \<Rightarrow> (Inr n, w1))"

definition ListProviders :: "registry option \<Rightarrow> (string \<times> string) set" where
  "ListProviders reg = (case reg of None \<Rightarrow> {} | Some r \<Rightarrow> Providers r)"

definition GetSupportedCurrencies :: "registry option \<Rightarrow> string set" where
  "GetSupportedCurrencies reg = (case reg of None \<Rightarrow> {} | Some r \<Rightarrow> SupportedCurrencies r)"

section \<open>Reconciler\<close>

abbreviation reconcileLockKey :: string where "reconcileLockKey \<equiv> ''lock:mobilemoney-reconcile''"
abbreviation DefaultReconcileLockTTL :: duration where "DefaultReconcileLockTTL \<equiv> 5 * 60 * second"
abbreviation DefaultReconcileInterval :: duration where "DefaultReconcileInterval \<equiv> 5 * 60 * second"

record Reconciler =
  RC_redis :: bool
  RC_interval :: duration
  RC_jitter :: duration
  RC_lock :: lock

definition Money_NewReconciler :: "bool \<Rightarrow> duration \<Rightarrow> duration \<Rightarrow> Reconciler" where
  "Money_NewReconciler redis interval jitter =
     \<lparr>RC_redis = redis, RC_interval = (if interval \<le> 0 then DefaultReconcileInterval else interval), RC_jitter = (if jitter < 0 then 0 else jitter),
      RC_lock = NewLock redis reconcileLockKey DefaultReconcileLockTTL\<rparr>"

text \<open>\<^verbatim>\<open>RunOnce\<close>: the count, whether the lock was held, the error.\<close>

definition Reconciler_RunOnce :: "lock_env \<Rightarrow> lock_env list \<Rightarrow> lock_env \<Rightarrow> money_env \<Rightarrow> registry \<Rightarrow> Reconciler \<Rightarrow> money_world \<times> keyspace
    \<Rightarrow> (nat \<times> bool \<times> error option) \<times> money_world \<times> keyspace" where
  "Reconciler_RunOnce lenv beats lenv' env reg rc = (\<lambda>(w, R).
     if \<not> RC_redis rc then
       (case Money_Reconcile env reg w of
          (Inl e, w1) \<Rightarrow> ((0, True, Some e), w1, R) | (Inr n, w1) \<Rightarrow> ((n, True, None), w1, R))
     else
       (case Lock_With lenv beats lenv' (RC_lock rc)
               (\<lambda>(n, w). case Money_Reconcile env reg w of (Inl e, w1) \<Rightarrow> (Inl e, 0, w1) | (Inr m, w1) \<Rightarrow> (Inr (), m, w1)) ((0, w), R) of
          ((held, err), l, (n, w1), R1) \<Rightarrow> ((n, held, err), w1, R1)))"

definition randomJitter :: "int result \<Rightarrow> duration \<Rightarrow> duration" where
  "randomJitter drawn limit = (if limit \<le> 0 then 0 else case drawn of Inl e \<Rightarrow> quo limit 2 | Inr n \<Rightarrow> n)"

section \<open>What the keys guarantee\<close>

text \<open>
  Requests and reconcilers interleave: the second half of an initiation may run long after its look-up, and a status may be written
  long after the poll_row.
\<close>

inductive money_step :: "money_world \<Rightarrow> money_world \<Rightarrow> bool" where
  onramp: "key \<noteq> [] \<Longrightarrow> money_step w (snd (onramp_rest env reg u req key w))"
| offramp: "key \<noteq> [] \<Longrightarrow> money_step w (snd (offramp_rest env reg u oreq key w))"
| settle: "poll_row reg t = Some (st, reason) \<Longrightarrow> money_step w (snd (Money_UpdateStatus env (TX_ID t) st reason w))"

definition money_entry :: "money_world \<Rightarrow> string \<times> string \<Rightarrow> Transaction option" where
  "money_entry w = (\<lambda>(u, key). List.find (\<lambda>r. TX_UserID r = u \<and> TX_IdempotencyKey r = key) (MW_rows w))"

definition money_nxt :: "Transaction \<Rightarrow> Transaction \<Rightarrow> bool" where
  "money_nxt a b = (\<exists>t st reason. st \<noteq> StatusPending \<and> b = settled_row t st reason a)"

lemma money_nxtI: "st \<noteq> StatusPending \<Longrightarrow> money_nxt a (settled_row t st reason a)"
  by (auto simp: money_nxt_def)

lemma settled_row_simps [simp]:
  "TX_ID (settled_row t st reason r) = TX_ID r" "TX_UserID (settled_row t st reason r) = TX_UserID r" "TX_IdempotencyKey (settled_row t st reason r) = TX_IdempotencyKey r"
  "TX_Amount (settled_row t st reason r) = TX_Amount r" "TX_ProviderRef (settled_row t st reason r) = TX_ProviderRef r" "TX_Direction (settled_row t st reason r) = TX_Direction r"
  "TX_Currency (settled_row t st reason r) = TX_Currency r" "TX_Status (settled_row t st reason r) = st" "TX_CreatedAt (settled_row t st reason r) = TX_CreatedAt r"
  by (simp_all add: settled_row_def)

lemma row_simps [simp]:
  "TX_UserID (onramp_row env u req key p ref st) = u" "TX_IdempotencyKey (onramp_row env u req key p ref st) = key"
  "TX_UserID (offramp_row env u oreq key p ref st) = u" "TX_IdempotencyKey (offramp_row env u oreq key p ref st) = key"
  by (simp_all add: onramp_row_def offramp_row_def)

lemma poll_row_not_pending: "poll_row reg t = Some (st, reason) \<Longrightarrow> st \<noteq> StatusPending"
  by (auto simp: poll_row_def split: sum.splits prod.splits if_splits)

text \<open>An initiation appends at most one row; a settlement rewrites rows in place.\<close>

lemma initiate_rest_rows:
  "MW_rows (snd (initiate_rest env reg what cur call row w)) = MW_rows w
   \<or> (\<exists>t. MW_rows (snd (initiate_rest env reg what cur call row w)) = MW_rows w @ [t]
        \<and> (\<forall>r \<in> set (MW_rows w). TX_ID r \<noteq> TX_ID t \<and> \<not> (TX_UserID r = TX_UserID t \<and> TX_IdempotencyKey r = TX_IdempotencyKey t)))"
proof (cases "For reg cur")
  case (Inr p)
  show ?thesis
  proof (cases "call p")
    case (Inr x)
    obtain ref st where x: "x = (ref, st)" by fastforce
    show ?thesis using Inr \<open>For reg cur = Inr p\<close>
      by (auto simp: initiate_rest_def x Let_def Money_Create_def stored_transaction_def exec_stmt_def split: option.splits if_splits)
  qed (simp add: initiate_rest_def Inr)
qed (simp add: initiate_rest_def)

lemma Money_UpdateStatus_rows:
  "MW_rows (snd (Money_UpdateStatus env i st reason w)) = MW_rows w
   \<or> MW_rows (snd (Money_UpdateStatus env i st reason w)) = update_where (\<lambda>r. TX_ID r = i) (settled_row (now env) st reason) (MW_rows w)"
  by (auto simp: Money_UpdateStatus_def exec_stmt_def split: option.splits)

interpretation money_life: lifecycle money_step money_entry money_nxt
proof
  fix w w' i a
  assume s: "money_step w w'" "money_entry w i = Some a"
  obtain u key where i: "i = (u, key)" by fastforce
  from s(1) show "\<exists>b. money_entry w' i = Some b \<and> (b = a \<or> money_nxt a b)"
  proof cases
    case (onramp key env reg u req)
    then show ?thesis using s(2) initiate_rest_rows [of env reg "''on-ramp''" "OR_Currency req" "\<lambda>p. PV_InitiateOnramp p req" "onramp_row env u req key" w]
      by (auto simp: onramp_rest_def money_entry_def i find_append)
  next
    case (offramp key env reg u req)
    then show ?thesis using s(2) initiate_rest_rows [of env reg "''off-ramp''" "OF_Currency req" "\<lambda>p. PV_InitiateOfframp p req" "offramp_row env u req key" w]
      by (auto simp: offramp_rest_def money_entry_def i find_append)
  next
    case (settle reg t st reason env)
    have "List.find (\<lambda>r. TX_UserID r = u \<and> TX_IdempotencyKey r = key) (update_where (\<lambda>r. TX_ID r = TX_ID t) (settled_row (now env) st reason) (MW_rows w))
        = Some (if TX_ID a = TX_ID t then settled_row (now env) st reason a else a)"
      using s(2) by (subst find_update_where_pred) (auto simp: money_entry_def i)
    then show ?thesis using s(2) Money_UpdateStatus_rows [of env "TX_ID t" st reason w] poll_row_not_pending [OF settle(2)]
      by (auto simp: settle(1) money_entry_def i intro: money_nxtI)
  qed
qed

definition rows_ok :: "Transaction list \<Rightarrow> bool" where
  "rows_ok rs = (distinct (map TX_ID rs) \<and> distinct (map (\<lambda>r. (TX_UserID r, TX_IdempotencyKey r)) rs))"

lemma rows_ok_append:
  assumes "rows_ok rs" "\<forall>r \<in> set rs. TX_ID r \<noteq> TX_ID t \<and> \<not> (TX_UserID r = TX_UserID t \<and> TX_IdempotencyKey r = TX_IdempotencyKey t)"
  shows "rows_ok (rs @ [t])"
  using assms by (force simp: rows_ok_def)

lemma rows_ok_initiate: "rows_ok (MW_rows w) \<Longrightarrow> rows_ok (MW_rows (snd (initiate_rest env reg what cur call row w)))"
  using initiate_rest_rows [of env reg what cur call row w] by (metis rows_ok_append)

lemma rows_ok_settle: "rows_ok rs \<Longrightarrow> rows_ok (update_where P (settled_row t st reason) rs)"
  by (simp add: rows_ok_def map_update_where)

lemma money_ok_step: "money_step w w' \<Longrightarrow> rows_ok (MW_rows w) \<Longrightarrow> rows_ok (MW_rows w')"
proof (induction rule: money_step.induct)
  case (settle reg t st reason w env)
  then show ?case using Money_UpdateStatus_rows [of env "TX_ID t" st reason w] by (metis rows_ok_settle)
qed (simp_all add: onramp_rest_def offramp_rest_def rows_ok_initiate)

lemma money_ok_steps: "money_step\<^sup>*\<^sup>* w w' \<Longrightarrow> rows_ok (MW_rows w) \<Longrightarrow> rows_ok (MW_rows w')"
  by (induction rule: rtranclp_induct) (auto intro: money_ok_step)

text \<open>What of a row never changes.\<close>

definition agreed :: "Transaction \<Rightarrow> string \<times> string \<times> string \<times> Direction \<times> string \<times> float64 \<times> string" where
  "agreed r = (TX_ID r, TX_UserID r, TX_IdempotencyKey r, TX_Direction r, TX_Currency r, TX_Amount r, TX_ProviderRef r)"

lemma money_nxt_agreed: "money_nxt a b \<Longrightarrow> agreed b = agreed a"
  by (auto simp: money_nxt_def agreed_def)

text \<open>
  C26: an idempotency key stands for one payment. However requests and reconcilers interleave and whichever statements fail, no two rows of a user have the same key; and once a row
  for a key is stored, its identity, amount and reference never change, and every later request with the key, in either direction, returns this row
  and calls no provider.
\<close>

theorem mobile_money_idempotent:
  assumes "money_step\<^sup>*\<^sup>* \<lparr>MW_rows = [], MW_calls = []\<rparr> w" "r \<in> set (MW_rows w)" "TX_IdempotencyKey r \<noteq> []" "money_step\<^sup>*\<^sup>* w w'"
    "fault env (MQ_ByKey (TX_UserID r) (TX_IdempotencyKey r)) = None"
  shows "distinct (map (\<lambda>r. (TX_UserID r, TX_IdempotencyKey r)) (MW_rows w'))
    \<and> (\<exists>r'. r' \<in> set (MW_rows w') \<and> agreed r' = agreed r
         \<and> InitiateOnramp env reg (TX_UserID r) req (TX_IdempotencyKey r) w' = (Inr r', w')
         \<and> InitiateOfframp env reg (TX_UserID r) oreq (TX_IdempotencyKey r) w' = (Inr r', w'))"
proof -
  have w: "rows_ok (MW_rows w)" using money_ok_steps [OF assms(1)] by (simp add: rows_ok_def)
  have "money_entry w (TX_UserID r, TX_IdempotencyKey r) = Some r"
  proof -
    obtain r0 where r0: "money_entry w (TX_UserID r, TX_IdempotencyKey r) = Some r0"
      using assms(2) by (cases "money_entry w (TX_UserID r, TX_IdempotencyKey r)") (auto simp: money_entry_def find_None_iff)
    then have "r0 \<in> set (MW_rows w)" "(TX_UserID r0, TX_IdempotencyKey r0) = (TX_UserID r, TX_IdempotencyKey r)" by (auto simp: money_entry_def dest: find_Some_D)
    then have "r0 = r" using w assms(2) by (auto simp: rows_ok_def distinct_map dest: inj_onD)
    then show ?thesis using r0 by simp
  qed
  from money_life.entry_keeps [where f = agreed, OF assms(4) this money_nxt_agreed]
  obtain r' where r': "money_entry w' (TX_UserID r, TX_IdempotencyKey r) = Some r'" "agreed r' = agreed r" by blast
  have "InitiateOnramp env reg (TX_UserID r) req (TX_IdempotencyKey r) w' = (Inr r', w')"
    "InitiateOfframp env reg (TX_UserID r) oreq (TX_IdempotencyKey r) w' = (Inr r', w')"
    using r'(1) assms(3,5) by (simp_all add: InitiateOnramp_def InitiateOfframp_def lookup_key_def GetByIdempotencyKey_def money_entry_def)
  moreover have "r' \<in> set (MW_rows w')" using r'(1) by (auto simp: money_entry_def dest: find_Some_D)
  ultimately show ?thesis using money_ok_steps [OF assms(4) w] r'(2) by (auto simp: rows_ok_def)
qed

definition demo_money_env :: "uuid \<Rightarrow> money_env" where
  "demo_money_env i = \<lparr>uuid_Parse = (\<lambda>s. None), uuid_String = (\<lambda>u. if u = 1 then ''one'' else ''two''), uuid_New = (\<lambda>n. i), now = 100 * second,
     fault = (\<lambda>q. None), money_row_error = (\<lambda>t. None), numeric_20_7 = (\<lambda>x. x)\<rparr>"

definition demo_provider :: provider where
  "demo_provider = \<lparr>PV_Name = ''mpesa'', PV_Currency = ''KES'', PV_InitiateOnramp = (\<lambda>req. MPesa_InitiateOnramp (Inr (''0'', [], ''ref''))),
     PV_InitiateOfframp = (\<lambda>req. MPesa_InitiateOfframp (Inr (''0'', [], ''ref''))), PV_GetStatus = (\<lambda>ref. MPesa_GetStatus (Inr (''0'', [])))\<rparr>"

definition demo_onramp :: OnrampRequest where
  "demo_onramp = \<lparr>OR_Amount = Finite 5, OR_Currency = ''KES'', OR_PhoneNumber = ''254'', OR_DestinationAddress = ''G'', OR_Reference = []\<rparr>"

definition demo_offramp :: OfframpRequest where
  "demo_offramp = \<lparr>OF_Amount = Finite 7, OF_Currency = ''KES'', OF_PhoneNumber = ''254'', OF_AccountName = [], OF_Reference = []\<rparr>"

abbreviation demo_registry :: registry where "demo_registry \<equiv> Register demo_provider NewRegistry"

abbreviation money_init :: money_world where "money_init \<equiv> \<lparr>MW_rows = [], MW_calls = []\<rparr>"

definition demo_money_paid :: money_world where
  "demo_money_paid = snd (onramp_rest (demo_money_env 1) demo_registry ''u'' demo_onramp ''k'' money_init)"

definition demo_row :: Transaction where
  "demo_row = onramp_row (demo_money_env 1) ''u'' demo_onramp ''k'' demo_provider ''ref'' StatusPending"

lemma demo_money_paid_reachable: "money_step\<^sup>*\<^sup>* money_init demo_money_paid"
  unfolding demo_money_paid_def by (rule r_into_rtranclp, rule money_step.onramp) simp

lemma demo_money_paid_rows: "demo_money_paid = \<lparr>MW_rows = [demo_row], MW_calls = [\<lparr>AC_UserID = ''u'', AC_Key = ''k'', AC_Ref = ''ref''\<rparr>]\<rparr>"
  by code_simp

theorem mobile_money_idempotent_witness:
  "\<exists>r'. r' \<in> set (MW_rows demo_money_paid) \<and> agreed r' = agreed demo_row
     \<and> InitiateOnramp (demo_money_env 2) demo_registry ''u'' demo_onramp ''k'' demo_money_paid = (Inr r', demo_money_paid)
     \<and> InitiateOfframp (demo_money_env 2) demo_registry ''u'' demo_offramp ''k'' demo_money_paid = (Inr r', demo_money_paid)"
proof -
  have "demo_row \<in> set (MW_rows demo_money_paid)" by (simp add: demo_money_paid_rows)
  moreover have "TX_UserID demo_row = ''u''" "TX_IdempotencyKey demo_row = ''k''" by (simp_all add: demo_row_def)
  ultimately show ?thesis
    using mobile_money_idempotent [OF demo_money_paid_reachable, of demo_row demo_money_paid "demo_money_env 2" demo_registry demo_onramp demo_offramp]
    by (simp add: demo_money_env_def)
qed

text \<open>
  The look-up and the insert are apart: two requests whose look-ups both found nothing both have their payment initiated, and the second is
  told of a failure although the provider has accepted it.
\<close>

lemma charged_twice:
  defines "second_try \<equiv> onramp_rest (demo_money_env 2) demo_registry ''u'' demo_onramp ''k'' demo_money_paid"
  shows "lookup_key (demo_money_env 1) ''u'' ''k'' money_init = Inr None"
    and "isl (fst second_try)"
    and "length (MW_calls (snd second_try)) = 2"
    and "MW_rows (snd second_try) = [demo_row]"
  unfolding second_try_def by code_simp+

section \<open>What a reconciliation does\<close>

definition due_row :: "money_env \<Rightarrow> Transaction \<Rightarrow> bool" where
  "due_row env r = (TX_Status r = StatusPending \<and> TX_CreatedAt r \<le> now env - 30 * second)"

definition polled_row :: "money_env \<Rightarrow> registry \<Rightarrow> Transaction \<Rightarrow> Transaction" where
  "polled_row env reg r = (case poll_row reg r of None \<Rightarrow> r | Some (st, reason) \<Rightarrow> settled_row (now env) st reason r)"

text \<open>The rows a pass can settle: those that are due and whose update the database carries out.\<close>

definition settleable :: "money_env \<Rightarrow> Transaction \<Rightarrow> bool" where
  "settleable env r = (due_row env r \<and> fault env (MQ_Update (TX_ID r)) = None)"

definition answers :: "money_env \<Rightarrow> registry \<Rightarrow> Transaction list \<Rightarrow> string \<rightharpoonup> (Status \<times> string option) option" where
  "answers env reg ts = map_of (map (\<lambda>t. (TX_ID t, if fault env (MQ_Update (TX_ID t)) = None then poll_row reg t else None)) ts)"

definition answered_row :: "money_env \<Rightarrow> (string \<rightharpoonup> (Status \<times> string option) option) \<Rightarrow> Transaction \<Rightarrow> Transaction" where
  "answered_row env m r = (case m (TX_ID r) of Some (Some (st, reason)) \<Rightarrow> settled_row (now env) st reason r | _ \<Rightarrow> r)"

lemma answers_None: "answers env reg ts i = None \<longleftrightarrow> i \<notin> TX_ID ` set ts"
  by (simp add: answers_def map_of_eq_None_iff image_image)

lemma answers_skip:
  assumes "answers env reg ts (TX_ID t) = None" "poll_row reg t = None \<or> fault env (MQ_Update (TX_ID t)) \<noteq> None"
  shows "answered_row env (answers env reg (t # ts)) = answered_row env (answers env reg ts)"
  using assms by (auto simp: answered_row_def answers_def fun_eq_iff)

lemma reconcile_rows_eq:
  "distinct (map TX_ID ts) \<Longrightarrow> reconcile_rows env reg ts n w
    = (n + length (filter (\<lambda>t. fault env (MQ_Update (TX_ID t)) = None \<and> poll_row reg t \<noteq> None) ts),
       w\<lparr>MW_rows := map (answered_row env (answers env reg ts)) (MW_rows w)\<rparr>)"
proof (induction ts arbitrary: n w)
  case Nil
  then show ?case by (simp add: answers_def answered_row_def)
next
  case (Cons t ts)
  have no: "answers env reg ts (TX_ID t) = None" using Cons.prems by (simp add: answers_None)
  show ?case
  proof (cases "poll_row reg t")
    case None
    then show ?thesis using Cons answers_skip [OF no] by simp
  next
    case (Some a)
    obtain st reason where a: "a = (st, reason)" by fastforce
    show ?thesis
    proof (cases "fault env (MQ_Update (TX_ID t))")
      case None
      have "answered_row env (answers env reg ts) (if TX_ID r = TX_ID t then settled_row (now env) st reason r else r)
          = answered_row env (answers env reg (t # ts)) r" for r
        using no Some None by (auto simp: answered_row_def answers_def a)
      then show ?thesis using Cons Some None by (simp add: a Money_UpdateStatus_def exec_stmt_def update_where_def)
    next
      case f: (Some e)
      then show ?thesis using Cons Some answers_skip [OF no] by (simp add: a Money_UpdateStatus_def exec_stmt_def)
    qed
  qed
qed

lemma answered_due:
  assumes "rows_ok rs" "r \<in> set rs"
  shows "answered_row env (answers env reg (sort_key TX_CreatedAt (filter (due_row env) rs))) r = (if settleable env r then polled_row env reg r else r)"
proof (cases "due_row env r")
  case True
  let ?ts = "sort_key TX_CreatedAt (filter (due_row env) rs)"
  have d: "distinct (map TX_ID ?ts)" using assms(1) by (auto simp: rows_ok_def distinct_map inj_on_def)
  have "answers env reg ?ts (TX_ID r) = Some (if fault env (MQ_Update (TX_ID r)) = None then poll_row reg r else None)"
    unfolding answers_def by (rule map_of_is_SomeI) (use d True assms(2) in \<open>auto simp: comp_def\<close>)
  then show ?thesis using True by (simp add: answered_row_def polled_row_def settleable_def split: option.splits)
next
  case False
  then have "TX_ID r \<notin> TX_ID ` set (sort_key TX_CreatedAt (filter (due_row env) rs))" using assms by (auto simp: rows_ok_def distinct_map dest: inj_onD)
  then have "answers env reg (sort_key TX_CreatedAt (filter (due_row env) rs)) (TX_ID r) = None" by (simp only: answers_None not_False_eq_True)
  then show ?thesis using False by (simp add: answered_row_def settleable_def)
qed

text \<open>
  C27: in every reachable state, a reconciliation whose listing is answered settles exactly the rows that are due - pending for at least thirty seconds -, whose provider
  reports an outcome and whose update the database carries out: they get this outcome, its reason and the time of completion, their number is returned, and every
  other row, in particular one whose update fails, and the provider calls stay as they are. A listing that fails is returned as the error of the pass and changes nothing.
\<close>

theorem reconcile_settles:
  assumes "money_step\<^sup>*\<^sup>* \<lparr>MW_rows = [], MW_calls = []\<rparr> w"
  shows "(fault env MQ_ListPending = None \<longrightarrow>
       Money_Reconcile env reg w = (Inr (length (filter (\<lambda>r. settleable env r \<and> poll_row reg r \<noteq> None) (MW_rows w))),
         w\<lparr>MW_rows := map (\<lambda>r. if settleable env r then polled_row env reg r else r) (MW_rows w)\<rparr>))
     \<and> (\<forall>e. fault env MQ_ListPending = Some e \<longrightarrow> isl (fst (Money_Reconcile env reg w)) \<and> snd (Money_Reconcile env reg w) = w)"
proof (intro conjI impI allI)
  assume f: "fault env MQ_ListPending = None"
  have ok: "rows_ok (MW_rows w)" using money_ok_steps [OF assms(1)] by (simp add: rows_ok_def)
  let ?ts = "sort_key TX_CreatedAt (filter (due_row env) (MW_rows w))"
  have d: "distinct (map TX_ID ?ts)" using ok by (auto simp: rows_ok_def distinct_map inj_on_def)
  have "ListPending env 30 w = Inr ?ts" using f by (simp add: ListPending_def due_row_def [abs_def])
  moreover have "map (answered_row env (answers env reg ?ts)) (MW_rows w) = map (\<lambda>r. if settleable env r then polled_row env reg r else r) (MW_rows w)"
    using answered_due [OF ok] by simp
  moreover have "length (filter (\<lambda>t. fault env (MQ_Update (TX_ID t)) = None \<and> poll_row reg t \<noteq> None) ?ts)
      = length (filter (\<lambda>r. settleable env r \<and> poll_row reg r \<noteq> None) (MW_rows w))"
    by (simp add: filter_sort settleable_def conj_ac)
  ultimately show "Money_Reconcile env reg w = (Inr (length (filter (\<lambda>r. settleable env r \<and> poll_row reg r \<noteq> None) (MW_rows w))),
         w\<lparr>MW_rows := map (\<lambda>r. if settleable env r then polled_row env reg r else r) (MW_rows w)\<rparr>)"
    using reconcile_rows_eq [OF d, of env reg 0 w] by (simp add: Money_Reconcile_def quo_def)
next
  fix e
  assume "fault env MQ_ListPending = Some e"
  then show "isl (fst (Money_Reconcile env reg w))" "snd (Money_Reconcile env reg w) = w"
    by (simp_all add: Money_Reconcile_def ListPending_def)
qed

theorem reconcile_settles_witness:
  "Money_Reconcile ((demo_money_env 1)\<lparr>now := 200 * second\<rparr>) demo_registry demo_money_paid
     = (Inr 1, demo_money_paid\<lparr>MW_rows := [settled_row (200 * second) StatusCompleted None demo_row]\<rparr>)"
proof -
  let ?e = "(demo_money_env 1)\<lparr>now := 200 * second\<rparr>"
  have "due_row ?e demo_row" "poll_row demo_registry demo_row = Some (StatusCompleted, None)" by code_simp+
  then show ?thesis using reconcile_settles [OF demo_money_paid_reachable, of ?e demo_registry]
    by (simp add: demo_money_paid_rows polled_row_def settleable_def demo_money_env_def)
qed

end
