(* ===== verification/Platform.thy ===== *)
theory Platform
  imports ChainEvents
begin

text \<open>
  The circle service and the indexer on the same tables. Chain events obey a specification of their own, which knows no life cycle and no organizer; what
  holds of circles and memberships under both is proved here, for calls and events that run one after the other.
\<close>

section \<open>Specification of chain events\<close>

text \<open>What of a circle neither a call nor an event changes.\<close>

definition identity :: "circle \<Rightarrow> uuid \<times> uuid \<times> CircleType \<times> PayoutType \<times> time" where
  "identity c = (C_ID c, C_OrganizerID c, C_CircleType c, C_PayoutType c, C_CreatedAt c)"

text \<open>An event moves the round forward, or makes the circle completed or disputed.\<close>

definition chain_next :: "circle \<Rightarrow> circle \<Rightarrow> bool" where
  "chain_next c c' = (identity c' = identity c \<and> C_MaxMembers c' = C_MaxMembers c \<and> C_DeletedAt c' = C_DeletedAt c
     \<and> (C_Status c' = C_Status c \<and> C_CurrentRound c \<le> C_CurrentRound c'
        \<or> C_CurrentRound c' = C_CurrentRound c \<and> C_Status c' \<in> {CircleStatusCompleted, CircleStatusOther ''disputed''}))"

inductive chain_step :: "circles_db \<Rightarrow> circles_db \<Rightarrow> bool" where
  ch_quiet: "B_circles d' = B_circles d \<Longrightarrow> B_members d' = B_members d \<Longrightarrow> B_votes d' = B_votes d \<Longrightarrow> chain_step d d'"
| ch_row: "circle_row d i = Some c \<Longrightarrow> chain_next c c' \<Longrightarrow> B_circles d' = update_where (\<lambda>r. C_ID r = i) (\<lambda>_. c') (B_circles d) \<Longrightarrow>
     B_members d' = B_members d \<Longrightarrow> B_votes d' = B_votes d \<Longrightarrow> chain_step d d'"
| ch_join: "find_member d (CM_CircleID m) (CM_UserID m) = None \<Longrightarrow> B_circles d' = B_circles d \<Longrightarrow>
     B_members d' = B_members d @ [m] \<Longrightarrow> B_votes d' = B_votes d \<Longrightarrow> chain_step d d'"
| ch_exit: "B_circles d' = B_circles d \<Longrightarrow>
     B_members d' = update_where (\<lambda>m. CM_CircleID m = i \<and> CM_UserID m = u) (\<lambda>m. m\<lparr>CM_Status := MemberStatusExited\<rparr>) (B_members d) \<Longrightarrow>
     B_votes d' = B_votes d \<Longrightarrow> chain_step d d'"
| ch_vote: "vote_key v \<notin> vote_key ` set (B_votes d) \<Longrightarrow> B_circles d' = B_circles d \<Longrightarrow> B_members d' = B_members d \<Longrightarrow>
     B_votes d' = B_votes d @ [v] \<Longrightarrow> chain_step d d'"

lemma chain_refl [simp]: "chain_step d d"
  by (rule ch_quiet) simp_all

lemma identity_key: "identity c' = identity c \<Longrightarrow> C_ID c' = C_ID c \<and> C_OrganizerID c' = C_OrganizerID c"
  by (simp add: identity_def)

lemma chain_next_refl [simp]: "chain_next c c"
  by (simp add: chain_next_def)

text \<open>An update of the rows with one identifier is one of the single such row.\<close>

lemma chain_update:
  assumes "circles_keyed d" "\<And>c. c \<in> set (B_circles d) \<Longrightarrow> C_ID c = i \<Longrightarrow> chain_next c (f c)"
    and "B_circles d' = update_where (\<lambda>x. C_ID x = i \<and> C_DeletedAt x = None) f (B_circles d)" "B_members d' = B_members d" "B_votes d' = B_votes d"
  shows "chain_step d d'"
proof -
  have "B_circles d' = update_where (\<lambda>x. C_ID x = i) f (B_circles d)"
    using assms(1,3) by (auto simp: update_where_def circles_keyed_def row_ok_def)
  note b = this
  show ?thesis
  proof (cases "circle_row d i")
    case None
    then have "B_circles d' = B_circles d" using b by (subst b, intro update_where_none) (auto simp: circle_row_def find_None_iff)
    then show ?thesis using assms(4,5) by (intro ch_quiet)
  next
    case (Some c)
    then have c: "c \<in> set (B_circles d)" "C_ID c = i" using circle_row_D by auto
    have "B_circles d' = update_where (\<lambda>x. C_ID x = i) (\<lambda>_. f c) (B_circles d)"
      using b update_where_only [of C_ID "B_circles d" c f] circles_keyed_ids [OF assms(1)] c by simp
    then show ?thesis using ch_row [OF Some assms(2) [OF c]] assms(4,5) by simp
  qed
qed

section \<open>The handlers refine it\<close>

lemma Contrib_Create_frame:
  "B_circles (snd (Contrib_Create env c d)) = B_circles d" "B_members (snd (Contrib_Create env c d)) = B_members d"
  "B_votes (snd (Contrib_Create env c d)) = B_votes d"
  by (simp_all add: Contrib_Create_def exec_stmt_def split: option.split)

lemma Payout_Create_frame:
  "B_circles (snd (Payout_Create env c d)) = B_circles d" "B_members (snd (Payout_Create env c d)) = B_members d"
  "B_votes (snd (Payout_Create env c d)) = B_votes d"
  by (simp_all add: Payout_Create_def exec_stmt_def split: option.split)

lemma applyContribution_chain: "circles_keyed d \<Longrightarrow> chain_step d (snd (applyContribution p env c d))"
proof (cases "applyContribution p env c d")
  case (Pair x d')
  assume k: "circles_keyed d"
  show ?thesis
  proof (cases x)
    case (Inl e)
    then show ?thesis using Pair applyContribution_Inl by fastforce
  next
    case (Inr adv)
    from applyContribution_Inr [OF Pair [unfolded Inr]]
    have "B_circles d' = update_where (\<lambda>x. C_ID x = CB_CircleID c \<and> C_DeletedAt x = None) (contributed_row (now env) (RA_Advanced adv) c) (B_circles d)"
      "B_members d' = B_members d" "B_votes d' = B_votes d" by auto
    then have "chain_step d d'" by (intro chain_update [OF k]) (auto simp: chain_next_def identity_def contributed_row_def)
    then show ?thesis using Pair by simp
  qed
qed

lemma recordPayout_chain:
  assumes "circles_keyed d"
  shows "chain_step d (snd (recordPayoutAndAdvance p env po d))"
proof (cases "recordPayoutAndAdvance p env po d")
  case (Pair x d')
  show ?thesis
  proof (cases x)
    case (Inl e)
    then have "d' = d" using Pair by (auto simp: recordPayoutAndAdvance_def guard_def split: if_splits dest: tx_block_Inl)
    then show ?thesis using Pair by simp
  next
    case (Inr y)
    then obtain d1 z where "Payout_Create (p_payout env) po d = (Inr z, d1)"
      and d': "d' = d1\<lparr>B_circles := update_where (\<lambda>x. C_ID x = PO_CircleID po \<and> C_DeletedAt x = None)
                (\<lambda>x. x\<lparr>C_CurrentRound := max (C_CurrentRound x) (PO_RoundNumber po + 1), C_UpdatedAt := now env\<rparr>) (B_circles d1)\<rparr>"
      using Pair by (auto simp: recordPayoutAndAdvance_def guard_Inr tx_block_Inr attempt_Inr perform_Inr wrap_call_Inr exec_stmt_Inr)
    then have "B_circles d1 = B_circles d" "B_members d1 = B_members d" "B_votes d1 = B_votes d"
      using Payout_Create_frame [of "p_payout env" po d] by simp_all
    then have "chain_step d d'" unfolding d' by (intro chain_update [OF assms]) (auto simp: chain_next_def identity_def)
    then show ?thesis using Pair by simp
  qed
qed

lemma Repo_Update_chain:
  assumes "circles_keyed d" "FindByContractID env i d = Inr c" "chain_next c c'"
  shows "chain_step d (snd (Repo_Update env' c' d))"
proof (cases rule: Repo_Update_cases [of env' c' d])
  case 2
  from FindByContractID_Inr [OF assms(2)] obtain x where x: "x \<in> set (B_circles d)" "c = read_circle d x" "C_DeletedAt x = None" by blast
  have id: "C_ID c' = C_ID x" using assms(3) x(2) by (simp add: chain_next_def identity_def read_circle_def)
  have "circle_row d (C_ID x) = Some x" using circle_row_ok [OF assms(1)] x(1) by blast
  moreover have "chain_next x (write_circle c' x)"
    using assms(3) x by (auto simp: chain_next_def identity_def write_circle_def read_circle_def)
  moreover have "B_circles (snd (Repo_Update env' c' d)) = update_where (\<lambda>r. C_ID r = C_ID x) (\<lambda>_. write_circle c' x) (B_circles d)"
    using 2(2) update_where_only [of C_ID "B_circles d" x "write_circle c'"] circles_keyed_ids [OF assms(1)] x(1) id by simp
  ultimately show ?thesis using 2(2) by (intro ch_row) auto
qed simp

lemma CreateMember_chain: "chain_step d (snd (CreateMember env m d))"
proof (cases "CreateMember env m d")
  case (Pair x d')
  show ?thesis
  proof (cases x)
    case (Inl e)
    then show ?thesis using Pair by (auto simp: CreateMember_def exec_stmt_def split: option.splits if_splits)
  next
    case (Inr y)
    then show ?thesis using CreateMember_Inr [of env m d y d'] Pair by (auto intro!: ch_join [of _ m])
  qed
qed

lemma UpdateMemberStatus_chain: "chain_step d (snd (UpdateMemberStatus env i u MemberStatusExited d))"
  unfolding UpdateMemberStatus_def Let_def snd_checked_update snd_wrap_call exec_stmt_def
  by (auto split: option.split intro: ch_exit)

lemma CreateVote_chain: "chain_step d (snd (CreateVote env v d))"
  by (auto simp: CreateVote_def exec_stmt_def vote_key_def split: option.split intro!: ch_vote [of v])

lemma CreateAuctionBid_chain: "chain_step d (snd (CreateAuctionBid env b d))"
  by (rule ch_quiet) (simp_all add: CreateAuctionBid_def Let_def exec_stmt_def split: option.split)

lemma insert_chain_dispute_same: "snd (insert_chain_dispute env ev i u d) = d"
  by (simp add: insert_chain_dispute_def exec_stmt_def split: option.split)

lemma on_circles_chain: "chain_step (A_circles a) (snd (f (A_circles a))) \<Longrightarrow> chain_step (A_circles a) (A_circles (snd (on_circles f a)))"
  by (simp add: snd_on_circles)

lemma on_circles_step:
  "chain_step (A_circles a) (snd (f (A_circles a))) \<Longrightarrow> on_circles f a = (r, b) \<Longrightarrow> chain_step (A_circles a) (A_circles b)"
  by (metis on_circles_chain snd_conv)

lemma dispatch_chain:
  assumes "circles_keyed (A_circles a)"
  shows "chain_step (A_circles a) (A_circles (snd (dispatchEvent p env ev a)))"
proof -
  let ?P = "\<lambda>b. chain_step (A_circles a) (A_circles b)"
  note fr = handler_frame [where P = ?P] guard_frame [where P = ?P] perform_frame [where P = ?P] attempt_frame [where P = ?P]
  note steps = on_circles_step [where f = "applyContribution p env x" and a = a for x, OF applyContribution_chain [OF assms]]
    on_circles_step [where f = "recordPayoutAndAdvance p env x" and a = a for x, OF recordPayout_chain [OF assms]]
    on_circles_step [where f = "CreateMember (p_circle env) x" and a = a for x, OF CreateMember_chain]
    on_circles_step [where f = "UpdateMemberStatus (p_circle env) x y MemberStatusExited" and a = a for x y, OF UpdateMemberStatus_chain]
    on_circles_step [where f = "CreateVote (p_circle env) x" and a = a for x, OF CreateVote_chain]
    on_circles_step [where f = "CreateAuctionBid (p_circle env) x" and a = a for x, OF CreateAuctionBid_chain]
  note now = on_circles_chain [where f = "applyContribution p env x" and a = a for x, OF applyContribution_chain [OF assms]]
    on_circles_chain [where f = "recordPayoutAndAdvance p env x" and a = a for x, OF recordPayout_chain [OF assms]]
    on_circles_chain [where f = "CreateMember (p_circle env) x" and a = a for x, OF CreateMember_chain]
    on_circles_chain [where f = "UpdateMemberStatus (p_circle env) x y MemberStatusExited" and a = a for x y, OF UpdateMemberStatus_chain]
    on_circles_chain [where f = "CreateVote (p_circle env) x" and a = a for x, OF CreateVote_chain]
    on_circles_chain [where f = "CreateAuctionBid (p_circle env) x" and a = a for x, OF CreateAuctionBid_chain]
  note up = on_circles_chain [where f = "Repo_Update (p_circle env) x" and a = a for x, OF Repo_Update_chain [OF assms]]
    on_circles_step [where f = "Repo_Update (p_circle env) x" and a = a for x, OF Repo_Update_chain [OF assms]]
  have created: "?P (snd (onCircleCreated p env ev a))"
    unfolding onCircleCreated_def Let_def by (intro fr) (auto split: sum.split)
  have joined: "?P (snd (onMemberJoined p env ev a))"
    unfolding onMemberJoined_def Let_def by (intro fr) (auto intro: now steps)
  have contributed: "?P (snd (onContributionReceived p env ev a))"
    unfolding onContributionReceived_def Let_def by (intro fr) (auto intro: now steps)
  have paid: "?P (snd (onPayoutExecuted p env ev a))"
    unfolding onPayoutExecuted_def Let_def by (intro fr) (auto intro: now steps)
  have late: "?P (snd (onLateReported p env ev a))"
    unfolding onLateReported_def Let_def by (intro fr) simp_all
  have exited: "?P (snd (onMemberExited p env ev a))"
    unfolding onMemberExited_def Let_def by (intro fr) (auto intro: now steps simp: wrap_call_Inr)
  have defaulted: "?P (snd (onDefaultRecorded p env ev a))"
    unfolding onDefaultRecorded_def Let_def
    by (intro fr) (auto simp: on_reps_def on_users_def wrap_call_Inr split: prod.splits)
  have completed: "?P (snd (onCircleCompleted p env ev a))"
    unfolding onCircleCompleted_def Let_def
    by (intro fr) (auto simp: wrap_call_Inr chain_next_def identity_def
        intro: up)
  have bid: "?P (snd (onAuctionBid p env ev a))"
    unfolding onAuctionBid_def Let_def
    by (cases "\<not> EP_circleRepo p \<or> \<not> EP_userRepo p") (simp, simp only: if_False, intro fr, auto intro: now steps simp: wrap_call_Inr)
  have voted: "?P (snd (onVoteCast p env ev a))"
    unfolding onVoteCast_def Let_def
    by (cases "\<not> EP_circleRepo p \<or> \<not> EP_userRepo p") (simp, simp only: if_False, intro fr, auto intro: now steps)
  have disputed: "?P (snd (onDisputeRaised p env ev a))"
    unfolding onDisputeRaised_def Let_def
    by (intro fr) (auto simp: wrap_call_Inr chain_next_def identity_def snd_on_circles insert_chain_dispute_same
        intro: up Repo_Update_chain [OF assms] split: option.split)
  have fee: "?P (snd (onFeeDeposited p env ev a))"
    unfolding onFeeDeposited_def Let_def by simp
  show ?thesis
    unfolding dispatchEvent_def Let_def
    using created joined contributed paid late exited defaulted completed bid voted disputed fee by simp
qed

section \<open>Both on the same tables\<close>

text \<open>
  The steps of the platform: a call of the circle service, a contribution or payout recorded through the API, an event dispatched by the
  indexer, and everything else, which touches neither circles nor memberships nor votes.
\<close>

inductive platform_step :: "app \<Rightarrow> app \<Rightarrow> bool" where
  by_service: "has_tx s \<Longrightarrow> platform_step a (a\<lparr>A_circles := run_call env s k (A_circles a)\<rparr>)"
| by_contribution: "platform_step a (a\<lparr>A_circles := snd (Contrib_Record kenv ks input (A_circles a))\<rparr>)"
| by_payout: "platform_step a (a\<lparr>A_circles := snd (Payout_Record yenv ys pay (A_circles a))\<rparr>)"
| by_event: "platform_step a (snd (safeDispatchEvent p penv ev a))"
| by_others: "B_circles (A_circles a') = B_circles (A_circles a) \<Longrightarrow> B_members (A_circles a') = B_members (A_circles a) \<Longrightarrow>
     B_votes (A_circles a') = B_votes (A_circles a) \<Longrightarrow> platform_step a a'"

lemma save_contribution_frame:
  "B_circles (snd (save_contribution env s input c d)) = B_circles d" "B_members (snd (save_contribution env s input c d)) = B_members d"
  "B_votes (snd (save_contribution env s input c d)) = B_votes d"
  by (simp_all add: save_contribution_def Contrib_Create_def exec_stmt_def split: option.split)

lemma save_payout_frame:
  "B_circles (snd (save_payout env input c d)) = B_circles d" "B_members (snd (save_payout env input c d)) = B_members d"
  "B_votes (snd (save_payout env input c d)) = B_votes d"
  by (simp_all add: save_payout_def Payout_Create_def exec_stmt_def split: option.split)

lemma Contrib_Record_chain: "chain_step d (snd (Contrib_Record env s input d))"
  unfolding Contrib_Record_def
  by (intro svc_frame [where P = "chain_step d"])
     (auto simp: save_contribution_frame split: prod.split intro!: attempt_frame [where P = "chain_step d"] ch_quiet)

lemma Payout_Record_chain: "chain_step d (snd (Payout_Record env s input d))"
  unfolding Payout_Record_def
  by (intro svc_frame [where P = "chain_step d"])
     (auto simp: save_payout_frame split: prod.split option.split intro!: attempt_frame [where P = "chain_step d"] ch_quiet)

text \<open>Every step is one of the service's specification or one of the specification of chain events.\<close>

lemma platform_step_cases:
  assumes "platform_step a a'" "circles_keyed (A_circles a)"
  shows "(\<exists>u. spec_step u (A_circles a) (A_circles a')) \<or> chain_step (A_circles a) (A_circles a')"
  using assms
proof cases
  case (by_service s env k)
  then show ?thesis using run_call_refines [OF circles_keyed_ids [OF assms(2)]] by auto
next
  case (by_event p penv ev)
  then show ?thesis using dispatch_chain [OF assms(2)] by (simp add: snd_safeDispatch)
qed (auto simp: Contrib_Record_chain Payout_Record_chain intro: ch_quiet)

lemma chain_member:
  assumes "chain_step d d'" "find_member d i u = Some m"
  shows "\<exists>m'. find_member d' i u = Some m'"
  using assms
proof cases
  case (ch_join m')
  then show ?thesis using assms(2) by (simp add: find_member_def find_append)
next
  case (ch_exit j v)
  then show ?thesis using assms(2) by (simp add: find_member_def find_update_where_pred)
qed (simp_all add: find_member_def)

lemma chain_circle:
  assumes "chain_step d d'" "circle_row d i = Some c"
  shows "\<exists>c'. circle_row d' i = Some c' \<and> chain_next c c'"
  using assms(1)
proof cases
  case (ch_row j c0 c')
  then have "C_ID c' = j" using circle_row_D by (auto simp: chain_next_def dest: identity_key)
  then have "circle_row d' i = (if i = j then Some c' else circle_row d i)" using ch_row by (intro circle_row_update)
  then show ?thesis using assms(2) ch_row(1,2) by auto
qed (use assms(2) in \<open>simp_all add: circle_row_def\<close>)

lemma chain_keys:
  assumes "chain_step d d'" "circles_keyed d"
  shows "distinct (map C_ID (B_circles d')) \<and> distinct (map member_key (B_members d')) \<and> distinct (map vote_key (B_votes d'))
    \<and> C_ID ` set (B_circles d') = C_ID ` set (B_circles d)"
proof -
  have *: "distinct (map C_ID (B_circles d))" "distinct (map member_key (B_members d))" "distinct (map vote_key (B_votes d))"
    using assms(2) by (simp_all add: circles_keyed_def)
  show ?thesis using assms(1)
  proof cases
    case (ch_row i c c')
    then have "C_ID c' = i" using circle_row_D by (auto simp: chain_next_def dest: identity_key)
    then have "map C_ID (B_circles d') = map C_ID (B_circles d)" using ch_row(3) by (simp add: update_where_map)
    then show ?thesis using * ch_row by (metis list.set_map)
  next
    case (ch_join m)
    then show ?thesis using * by (auto simp: find_member_None member_key_def)
  next
    case (ch_exit i u)
    then show ?thesis using * by (simp add: update_where_map member_key_def)
  qed (use * in auto)
qed

lemma chain_next_row: "chain_next c c' \<Longrightarrow> row_ok d c \<Longrightarrow> row_ok d c'"
  by (auto simp: chain_next_def row_ok_def max_members_ok_def dest: identity_key)

lemma chain_step_keyed:
  assumes "chain_step d d'" "circles_keyed d"
  shows "circles_keyed d'"
proof -
  have "row_ok d' c'" if c': "c' \<in> set (B_circles d')" for c'
  proof -
    from c' chain_keys [OF assms] have "C_ID c' \<in> C_ID ` set (B_circles d)" by blast
    then obtain c where c: "c \<in> set (B_circles d)" "C_ID c = C_ID c'" by auto
    have row: "circle_row d (C_ID c') = Some c" using circle_row_ok [OF assms(2)] c by metis
    obtain r where r: "circle_row d' (C_ID c') = Some r" "chain_next c r" using chain_circle [OF assms(1) row] by blast
    then have "r = c'" using circle_row_D [OF r(1)] chain_keys [OF assms] c' by (metis distinct_map inj_onD)
    moreover have "row_ok d c" using assms(2) c(1) by (auto simp: circles_keyed_def)
    moreover from this have "row_ok d' c" using chain_member [OF assms(1)] by (force simp: row_ok_def)
    ultimately show ?thesis using r(2) chain_next_row by blast
  qed
  with chain_keys [OF assms] show ?thesis by (simp add: circles_keyed_def)
qed

lemma platform_keyed: "platform_step a a' \<Longrightarrow> circles_keyed (A_circles a) \<Longrightarrow> circles_keyed (A_circles a')"
  using platform_step_cases spec_step_keyed chain_step_keyed by blast

definition keyed_step :: "app \<Rightarrow> app \<Rightarrow> bool" where
  "keyed_step a a' = (platform_step a a' \<and> circles_keyed (A_circles a))"

definition platform_next :: "circle \<Rightarrow> circle \<Rightarrow> bool" where
  "platform_next c c' = (circle_next c c' \<or> chain_next c c')"

interpretation platform: lifecycle keyed_step "\<lambda>a. circle_row (A_circles a)" platform_next
proof
  fix a a' i c
  assume s: "keyed_step a a'" and c: "circle_row (A_circles a) i = Some c"
  from s have k: "circles_keyed (A_circles a)" and "platform_step a a'" by (simp_all add: keyed_step_def)
  from platform_step_cases [OF this(2,1)]
  show "\<exists>c'. circle_row (A_circles a') i = Some c' \<and> (c' = c \<or> platform_next c c')"
  proof
    assume "\<exists>u. spec_step u (A_circles a) (A_circles a')"
    then show ?thesis using spec_circle [OF _ k c] by (auto simp: platform_next_def)
  next
    assume "chain_step (A_circles a) (A_circles a')"
    then show ?thesis using chain_circle [OF _ c] by (auto simp: platform_next_def)
  qed
qed

lemma platform_steps:
  "platform_step\<^sup>*\<^sup>* a a' \<Longrightarrow> circles_keyed (A_circles a) \<Longrightarrow> keyed_step\<^sup>*\<^sup>* a a' \<and> circles_keyed (A_circles a')"
  by (induction rule: rtranclp_induct) (auto simp: keyed_step_def dest: platform_keyed intro: rtranclp.rtrancl_into_rtrancl)

lemma platform_reachable: "platform_step\<^sup>*\<^sup>* a0 a \<Longrightarrow> A_circles a0 = circles_init \<Longrightarrow> circles_keyed (A_circles a)"
  using platform_steps circles_ok_keyed [OF circles_init_ok] by metis

section \<open>Properties\<close>

text \<open>
  C2: whatever calls of the circle service, recorded contributions and payouts and chain events follow each other on empty tables, and whichever statements
  fail: circles have unique identifiers, nobody has two memberships of one circle or two votes in one round of it, the
  limit of members is between 2 and 100 and the round is not negative, and the organizer of every circle has a membership of
  it (which a chain event may have ended).
\<close>

theorem organizer_keeps_membership:
  assumes "platform_step\<^sup>*\<^sup>* a0 a" "A_circles a0 = circles_init"
  shows "distinct (map C_ID (B_circles (A_circles a))) \<and> distinct (map member_key (B_members (A_circles a))) \<and> distinct (map vote_key (B_votes (A_circles a)))
    \<and> (\<forall>c \<in> set (B_circles (A_circles a)). 2 \<le> C_MaxMembers c \<and> C_MaxMembers c \<le> 100 \<and> 0 \<le> C_CurrentRound c
         \<and> find_member (A_circles a) (C_ID c) (C_OrganizerID c) \<noteq> None)"
  using platform_reachable [OF assms] by (auto simp: circles_keyed_def row_ok_def max_members_ok_def)

text \<open>How a status may change: along the life cycle by a call, or by a chain event to completed or disputed.\<close>

definition status_step :: "CircleStatus \<Rightarrow> CircleStatus \<Rightarrow> bool" where
  "status_step s t = (moves s t \<or> t \<in> {CircleStatusCompleted, CircleStatusOther ''disputed''})"

lemma platform_next_status:
  assumes "platform_next c c'"
  shows "status_step\<^sup>*\<^sup>* (C_Status c) (C_Status c')"
proof -
  have "C_Status c' = C_Status c \<or> status_step (C_Status c) (C_Status c')"
    using assms circle_next_status [of c c'] unfolding platform_next_def chain_next_def status_step_def by auto
  then show ?thesis by (metis r_into_rtranclp rtranclp.rtrancl_refl)
qed

lemma platform_next_identity: "platform_next c c' \<Longrightarrow> identity c' = identity c"
  unfolding platform_next_def using circle_next_key [of c c'] by (auto simp: chain_next_def identity_def)

text \<open>
  C3: the life of a circle under calls of the circle service, recorded contributions and payouts and chain events that follow each other: it stays stored with its
  identifier, organizer, type, payout type and creation time; its status moves from pending to active or cancelled and from active to completed by calls, and
  from any status to completed or disputed by chain events, and in no other way; and no call of the service changes
  a circle that is neither pending nor active, in any column.
\<close>

theorem circle_life_on_platform:
  assumes "platform_step\<^sup>*\<^sup>* a0 a" "A_circles a0 = circles_init" "platform_step\<^sup>*\<^sup>* a a'" "circle_row (A_circles a) i = Some c"
  shows "\<exists>c'. circle_row (A_circles a') i = Some c' \<and> identity c' = identity c \<and> status_step\<^sup>*\<^sup>* (C_Status c) (C_Status c')
     \<and> (\<not> open_status (C_Status c') \<longrightarrow> (\<forall>env s k. has_tx s \<longrightarrow> circle_row (run_call env s k (A_circles a')) i = Some c'))"
proof -
  note ok = platform_steps [OF assms(3) platform_reachable [OF assms(1,2)]]
  from platform.entry_path [of a a' i c] ok assms(4)
  obtain c' where c': "circle_row (A_circles a') i = Some c'" "platform_next\<^sup>*\<^sup>* c c'" by blast
  have "identity c' = identity c" using c'(2) by induction (auto dest: platform_next_identity)
  moreover have "status_step\<^sup>*\<^sup>* (C_Status c) (C_Status c')"
    using c'(2) by induction (auto dest: platform_next_status intro: rtranclp_trans)
  moreover have "circle_row (run_call env s k (A_circles a')) i = Some c'" if "\<not> open_status (C_Status c')" "has_tx s" for env s k
    using spec_circle [OF run_call_refines [OF circles_keyed_ids that(2)] _ c'(1)] ok circle_final [OF that(1)] by blast
  ultimately show ?thesis using c'(1) by blast
qed

text \<open>
  C4: who may change what through the circle service, in every state that calls of the service, recorded contributions and payouts and chain events can lead to: a call that
  changes the row of a circle was made by its organizer while the circle was pending or active, and a call that changes an
  existing membership was made by that member or by the organizer, and is never the organizer's own membership. (Chain events are not bound by this.)
\<close>

theorem service_changes_authorized:
  assumes "platform_step\<^sup>*\<^sup>* a0 a" "A_circles a0 = circles_init" "has_tx s" "circle_row (A_circles a) i = Some c"
  shows "(circle_row (run_call env s k (A_circles a)) i \<noteq> Some c \<longrightarrow>
            caller env k = Some (C_OrganizerID c) \<and> open_status (C_Status c))
     \<and> (find_member (A_circles a) i v \<noteq> None \<and> find_member (run_call env s k (A_circles a)) i v \<noteq> find_member (A_circles a) i v \<longrightarrow>
            v \<noteq> C_OrganizerID c \<and> (caller env k = Some v \<or> caller env k = Some (C_OrganizerID c)))"
proof -
  note ok = platform_reachable [OF assms(1,2)]
  note step = run_call_refines [OF circles_keyed_ids [OF ok] assms(3), of env k]
  have "caller env k = Some (C_OrganizerID c) \<and> open_status (C_Status c)"
    if "circle_row (run_call env s k (A_circles a)) i \<noteq> Some c"
    using spec_circle [OF step ok assms(4)] that circle_final by blast
  moreover have "v \<noteq> C_OrganizerID c \<and> (caller env k = Some v \<or> caller env k = Some (C_OrganizerID c))"
    if m: "find_member (A_circles a) i v = Some m" "find_member (run_call env s k (A_circles a)) i v \<noteq> Some m" for m
    using spec_member [OF step m(1)] m(2) assms(4) find_circle_row [OF ok] by auto
  ultimately show ?thesis by auto
qed

section \<open>Witnesses\<close>

text \<open>A circle that is started, disputed on the chain and then to be closed by its organizer.\<close>

definition demo_service :: "circle_call list \<Rightarrow> app \<Rightarrow> app" where
  "demo_service ks a = fold (\<lambda>k a. a\<lparr>A_circles := run_call demo_cenv demo_svc k (A_circles a)\<rparr>) ks a"

lemma demo_service_steps: "platform_step\<^sup>*\<^sup>* a (demo_service ks a)"
proof (induction ks arbitrary: a)
  case (Cons k ks)
  have "platform_step a (a\<lparr>A_circles := run_call demo_cenv demo_svc k (A_circles a)\<rparr>)" by (rule by_service) (simp add: demo_svc_def)
  with Cons.IH show ?case by (auto simp: demo_service_def intro: converse_rtranclp_into_rtranclp)
qed (simp add: demo_service_def)

definition demo_empty_app :: app where
  "demo_empty_app = demo_app circles_init"

definition demo_offered :: app where
  "demo_offered = demo_service [circle_call.Call_Create ''o'' demo_input, Call_Join ''k'' ''a'' [], Call_Join ''k'' ''b'' []] demo_empty_app"

definition demo_platform :: app where
  "demo_platform = snd (safeDispatchEvent demo_processor (demo_penv 0) (paid_event ''A'' ''h'') (demo_service [Call_Start ''k'' ''o''] demo_offered))"

lemma demo_offered_reachable: "platform_step\<^sup>*\<^sup>* demo_empty_app demo_offered" "A_circles demo_empty_app = circles_init"
  unfolding demo_offered_def by (rule demo_service_steps) (simp add: demo_empty_app_def demo_app_def circles_init_def linked_def)

lemma demo_platform_steps: "platform_step\<^sup>*\<^sup>* demo_offered demo_platform"
  unfolding demo_platform_def by (rule rtranclp.rtrancl_into_rtrancl [OF demo_service_steps by_event])

theorem organizer_keeps_membership_witness:
  "map C_ID (B_circles (A_circles demo_platform)) = [100] \<and> find_member (A_circles demo_platform) 100 1 \<noteq> None"
proof -
  have "map (\<lambda>c. (C_ID c, C_OrganizerID c)) (B_circles (A_circles demo_platform)) = [(100, 1)]" by code_simp
  then show ?thesis
    using organizer_keeps_membership [OF rtranclp_trans [OF demo_offered_reachable(1) demo_platform_steps] demo_offered_reachable(2)] by auto
qed

theorem circle_life_on_platform_witness:
  "\<exists>c c'. circle_row (A_circles demo_offered) 100 = Some c \<and> circle_row (A_circles demo_platform) 100 = Some c'
     \<and> C_Status c = CircleStatusPending \<and> C_Status c' = CircleStatusActive \<and> status_step\<^sup>*\<^sup>* (C_Status c) (C_Status c')"
proof -
  have st: "map_option C_Status (circle_row (A_circles demo_offered) 100) = Some CircleStatusPending"
      "map_option C_Status (circle_row (A_circles demo_platform) 100) = Some CircleStatusActive" by code_simp+
  then obtain c where c: "circle_row (A_circles demo_offered) 100 = Some c" by auto
  from circle_life_on_platform [OF demo_offered_reachable demo_platform_steps c] c st show ?thesis by auto
qed

theorem service_changes_authorized_witness:
  "\<exists>c. circle_row (A_circles demo_offered) 100 = Some c
     \<and> circle_row (run_call demo_cenv demo_svc (Call_Start ''k'' ''o'') (A_circles demo_offered)) 100 \<noteq> Some c
     \<and> caller demo_cenv (Call_Start ''k'' ''o'') = Some (C_OrganizerID c) \<and> open_status (C_Status c)"
proof -
  let ?d = "run_call demo_cenv demo_svc (Call_Start ''k'' ''o'') (A_circles demo_offered)"
  have st: "map_option C_Status (circle_row (A_circles demo_offered) 100) = Some CircleStatusPending"
      "map_option C_Status (circle_row ?d 100) = Some CircleStatusActive" by code_simp+
  then obtain c where c: "circle_row (A_circles demo_offered) 100 = Some c" by auto
  with st have "circle_row ?d 100 \<noteq> Some c" by auto
  with service_changes_authorized [OF demo_offered_reachable _ c, of demo_svc demo_cenv "Call_Start ''k'' ''o''" 0] c
  show ?thesis by (auto simp: demo_svc_def)
qed

end
