(* ===== verification/Schema.thy ===== *)
theory Schema
  imports ChainEvents
begin

text \<open>
  What the database makes of the statements: the migrations under \<^verbatim>\<open>internal/database/migrations\<close> and the rules of PostgreSQL refuse some of the
  statements of the repositories whatever their arguments. The theorems of the other theories hold for every environment, those below for the
  environments of a database that was set up by the migrations alone.
\<close>

section \<open>Refused statements\<close>

text \<open>
  \<^verbatim>\<open>FOR UPDATE\<close> is not allowed with an aggregate; the enumeration \<^verbatim>\<open>member_status\<close> of migration 003 is pending, active, completed, defaulted and
  exited; the table of contributions (004, 037, 043) has neither \<^verbatim>\<open>created_at\<close> nor \<^verbatim>\<open>updated_at\<close>, the one of payouts (005, 037, 043) has no
  \<^verbatim>\<open>created_at\<close>.
\<close>

fun circle_refusal :: "circle_stmt \<Rightarrow> error option" where
  "circle_refusal (CQ_GetMemberCount i) = Some (Driver ''pq: FOR UPDATE is not allowed with aggregate functions'')"
| "circle_refusal (CQ_UpdateMemberStatus i u st) =
     (if st = MemberStatusRemoved then Some (Driver ''pq: invalid input value for enum member_status'') else None)"
| "circle_refusal q = None"

fun contrib_refusal :: "contrib_stmt \<Rightarrow> error option" where
  "contrib_refusal (KQ_Insert i) = Some (Driver ''pq: column created_at of relation contributions does not exist'')"
| "contrib_refusal (KQ_UpdateStatus i) = Some (Driver ''pq: column updated_at of relation contributions does not exist'')"
| "contrib_refusal (KQ_FindByID i) = Some (Driver ''pq: column created_at does not exist'')"
| "contrib_refusal (KQ_FindByCircleAndUser i u) = Some (Driver ''pq: column created_at does not exist'')"
| "contrib_refusal (KQ_FindByTxnHash h) = Some (Driver ''pq: column created_at does not exist'')"
| "contrib_refusal (KQ_ListByUser u) = Some (Driver ''pq: column created_at does not exist'')"
| "contrib_refusal (KQ_ListByCircle i) = Some (Driver ''pq: column created_at does not exist'')"
| "contrib_refusal q = None"

fun payout_refusal :: "payout_stmt \<Rightarrow> error option" where
  "payout_refusal (YQ_Insert i) = Some (Driver ''pq: column created_at of relation payouts does not exist'')"
| "payout_refusal (YQ_FindByID i) = Some (Driver ''pq: column created_at does not exist'')"
| "payout_refusal (YQ_FindByTxnHash h) = Some (Driver ''pq: column created_at does not exist'')"
| "payout_refusal (YQ_ListByUser u) = Some (Driver ''pq: column created_at does not exist'')"
| "payout_refusal (YQ_ListByCircle i) = Some (Driver ''pq: column created_at does not exist'')"
| "payout_refusal q = None"

text \<open>An environment of such a database: a refused statement fails, if not for another reason then for this one.\<close>

definition refuses :: "('q \<Rightarrow> error option) \<Rightarrow> ('q, 'z) env_scheme \<Rightarrow> bool" where
  "refuses refusal env = (\<forall>q. refusal q \<noteq> None \<longrightarrow> fault env q \<noteq> None)"

lemma refusesD: "refuses refusal env \<Longrightarrow> refusal q = Some e \<Longrightarrow> \<exists>e'. fault env q = Some e'"
  by (auto simp: refuses_def)

lemma exec_refused: "fault env q = Some e \<Longrightarrow> exec_stmt env q chk f w = (Inl e, w)"
  by (simp add: exec_stmt_def)

lemma not_ok: "(\<And>y. fst x = Inr y \<Longrightarrow> False) \<Longrightarrow> \<not> is_ok (fst x)"
  by (cases "fst x") auto

section \<open>What no call achieves\<close>

lemma GetMemberCount_refused: "refuses circle_refusal env \<Longrightarrow> \<exists>e. GetMemberCount env i d = Inl e"
  using refusesD [of circle_refusal env "CQ_GetMemberCount i"] by (auto simp: GetMemberCount_def run_query_def wrap_err_def)

lemma Join_refused: "refuses circle_refusal env \<Longrightarrow> \<not> is_ok (fst (Join env s i u code d))"
proof (rule not_ok)
  fix y
  assume r: "refuses circle_refusal env" and "fst (Join env s i u code d) = Inr y"
  then obtain v c cid uid where "join_body env c cid uid d = (Inr (), v)"
    by (cases "Join env s i u code d") (auto simp: Join_def attempt_Inr guard_Inr perform_Inr dest!: withTransaction_Inr)
  then show False using GetMemberCount_refused [OF r, of cid d] by (auto simp: join_body_def attempt_Inr)
qed

lemma Start_refused: "refuses circle_refusal env \<Longrightarrow> \<not> is_ok (fst (Start env s i u d))"
proof (rule not_ok)
  fix y
  assume r: "refuses circle_refusal env" and "fst (Start env s i u d) = Inr y"
  then obtain cid n where "GetMemberCount env cid d = Inr n"
    by (cases "Start env s i u d") (auto simp: Start_def Let_def attempt_Inr guard_Inr perform_Inr)
  then show False using GetMemberCount_refused [OF r, of cid d] by auto
qed

lemma RemoveMember_refused: "refuses circle_refusal env \<Longrightarrow> \<not> is_ok (fst (RemoveMember env s i u m why d))"
proof (rule not_ok)
  fix y
  assume r: "refuses circle_refusal env" and "fst (RemoveMember env s i u m why d) = Inr y"
  then obtain cid uid v where "UpdateMemberStatus env cid uid MemberStatusRemoved d = (Inr (), v)"
    by (cases "RemoveMember env s i u m why d") (auto simp: RemoveMember_def Let_def attempt_Inr guard_Inr perform_Inr wrap_call_Inr)
  then show False using refusesD [OF r, of "CQ_UpdateMemberStatus cid uid MemberStatusRemoved"]
    by (auto simp: UpdateMemberStatus_def Let_def perform_Inr wrap_call_Inr exec_stmt_Inr)
qed

lemma Contrib_Create_refused: "refuses contrib_refusal env \<Longrightarrow> \<exists>e. Contrib_Create env c d = (Inl e, d)"
  using refusesD [of contrib_refusal env "KQ_Insert (CB_ID c)"] by (auto simp: Contrib_Create_def exec_refused)

lemma Payout_Create_refused: "refuses payout_refusal env \<Longrightarrow> \<exists>e. Payout_Create env p d = (Inl e, d)"
  using refusesD [of payout_refusal env "YQ_Insert (PO_ID p)"] by (auto simp: Payout_Create_def exec_refused)

lemma lookups_refused:
  "refuses contrib_refusal kenv \<Longrightarrow> \<not> is_ok (FindByTxnHash kenv h d)"
  "refuses payout_refusal yenv \<Longrightarrow> \<not> is_ok (Payout_FindByTxnHash yenv h d)"
  "refuses payout_refusal yenv \<Longrightarrow> duplicate_payout yenv input cid recipient d = None"
  using refusesD [of contrib_refusal kenv "KQ_FindByTxnHash h"] refusesD [of payout_refusal yenv "YQ_FindByTxnHash h"]
    refusesD [of payout_refusal yenv "YQ_ListByCircle cid"]
  by (auto simp: FindByTxnHash_def Payout_FindByTxnHash_def scanContribution_def scanPayout_def duplicate_payout_def Payout_ListByCircle_def counted_page_def
      run_query_def wrap_err_def split: option.splits sum.splits if_splits)

lemma attempt_unchanged: "(\<And>x. r = Inr x \<Longrightarrow> \<exists>e. k x = (Inl e, w)) \<Longrightarrow> \<exists>e. attempt r w k = (Inl e, w)"
  by (cases r) auto

lemma guard_unchanged: "(\<not> b \<Longrightarrow> \<exists>e. k = (Inl e, w)) \<Longrightarrow> \<exists>e. guard b x w k = (Inl e, w)"
  by (auto simp: guard_def)

lemma Contrib_Record_refused:
  assumes "refuses contrib_refusal env"
  shows "\<exists>e. Contrib_Record env s input d = (Inl e, d)"
proof -
  have "\<exists>e. save_contribution env s input c d = (Inl e, d)" for c
    using Contrib_Create_refused [OF assms, of c d] lookups_refused(1) [OF assms]
    by (auto simp: save_contribution_def contrib_WithTransaction_def transaction_def split: option.splits)
  then show ?thesis unfolding Contrib_Record_def
    by (simp only: lookups_refused(1) [OF assms] simp_thms if_False, intro attempt_unchanged guard_unchanged, simp only: split_paired_all prod.case, intro attempt_unchanged)
qed

lemma Payout_Record_refused:
  assumes "refuses payout_refusal env"
  shows "\<exists>e. Payout_Record env s input d = (Inl e, d)"
proof -
  have "\<exists>e. save_payout env input p d = (Inl e, d)" for p
    using Payout_Create_refused [OF assms, of p d] lookups_refused(2) [OF assms] by (auto simp: save_payout_def)
  then show ?thesis unfolding Payout_Record_def
    by (simp only: lookups_refused(2,3) [OF assms] simp_thms if_False option.case, intro attempt_unchanged, simp only: split_paired_all prod.case)
qed

lemma chain_refused:
  "refuses contrib_refusal (p_contrib env) \<Longrightarrow> \<exists>e. applyContribution p env c d = (Inl e, d)"
  "refuses payout_refusal (p_payout env) \<Longrightarrow> \<exists>e. recordPayoutAndAdvance p env po d = (Inl e, d)"
proof -
  assume "refuses contrib_refusal (p_contrib env)"
  then have "\<exists>e. Contrib_Create (p_contrib env) c d = (Inl e, d)" by (rule Contrib_Create_refused)
  then show "\<exists>e. applyContribution p env c d = (Inl e, d)"
    unfolding applyContribution_def by (intro guard_unchanged) (auto simp: tx_block_def attempt_def split: option.splits sum.splits)
next
  assume "refuses payout_refusal (p_payout env)"
  then have "\<exists>e. Payout_Create (p_payout env) po d = (Inl e, d)" by (rule Payout_Create_refused)
  then show "\<exists>e. recordPayoutAndAdvance p env po d = (Inl e, d)"
    unfolding recordPayoutAndAdvance_def by (intro guard_unchanged) (auto simp: tx_block_def attempt_def split: option.splits sum.splits)
qed

text \<open>
  C9: on a database that was set up by the migrations of the repository, nobody can join, start or be removed from a circle, and no contribution or
  payout is ever stored, whether it comes through the API or from the chain: every such call ends in an error, and those for
  contributions and payouts change nothing.
\<close>

theorem migrations_refuse:
  assumes "refuses circle_refusal env" "refuses contrib_refusal kenv" "refuses payout_refusal yenv"
    and "refuses contrib_refusal (p_contrib penv)" "refuses payout_refusal (p_payout penv)"
  shows "\<not> is_ok (fst (Join env s i u code d)) \<and> \<not> is_ok (fst (Start env s i u d)) \<and> \<not> is_ok (fst (RemoveMember env s i u m reason d))
    \<and> (\<exists>e. Contrib_Record kenv ks input d = (Inl e, d)) \<and> (\<exists>e. Payout_Record yenv ys pay d = (Inl e, d))
    \<and> (\<exists>e. applyContribution p penv c d = (Inl e, d)) \<and> (\<exists>e. recordPayoutAndAdvance p penv po d = (Inl e, d))"
  by (intro conjI Join_refused Start_refused RemoveMember_refused Contrib_Record_refused Payout_Record_refused chain_refused assms)

theorem migrations_refuse_witness:
  "\<not> is_ok (fst (Join (demo_cenv\<lparr>fault := circle_refusal\<rparr>) demo_svc ''k'' ''c'' [] demo_open))
   \<and> is_ok (fst (Join demo_cenv demo_svc ''k'' ''c'' [] demo_open))"
proof
  let ?p = "(demo_penv 0)\<lparr>p_contrib := demo_kenv\<lparr>fault := contrib_refusal\<rparr>, p_payout := (demo_yenv 0)\<lparr>fault := payout_refusal\<rparr>\<rparr>"
  have "refuses circle_refusal (demo_cenv\<lparr>fault := circle_refusal\<rparr>)" "refuses contrib_refusal (p_contrib ?p)" "refuses payout_refusal (p_payout ?p)"
    by (simp_all add: refuses_def)
  from migrations_refuse [OF this(1) this(2) this(3) this(2) this(3)]
  show "\<not> is_ok (fst (Join (demo_cenv\<lparr>fault := circle_refusal\<rparr>) demo_svc ''k'' ''c'' [] demo_open))" by blast
  show "is_ok (fst (Join demo_cenv demo_svc ''k'' ''c'' [] demo_open))" by code_simp
qed

end
