(* ===== verification/Spec2Isabelle.thy ===== *)
theory Spec2Isabelle
  imports CircleQueries ChainEvents GovernanceRepo IndexerJobs Community RequestGuards Swap JobQueue OneTimeCodes StellarClient MobileMoney
    Platform Schema
begin

text \<open>
  \<^bold>\<open>Verification of the Moistello backend.\<close> Moistello runs rotating savings circles on the Stellar network. Members of a circle pay a
  contribution every round and one of them receives the pool. The backend (Go, under \<^verbatim>\<open>src/\<close>) keeps circles,
  contributions, payouts, users, reputation, communities and governance in PostgreSQL, keeps sessions, nonces and request
  guards in Redis, and follows the chain with an indexer that polls Horizon and applies contract
  events to the same tables.

  \<^bold>\<open>Style.\<close> The model is a shallow embedding. A Go struct is a record, an enumeration a datatype, \<^verbatim>\<open>int64\<close> arithmetic that can
  wrap is on 64-bit words, \<^verbatim>\<open>float64\<close> is a rational rounded to binary64 (\<open>Float64\<close>), and \<^verbatim>\<open>(value, error)\<close> is a sum
  whose left side is the error. \<open>Prelude\<close> has the error values with their texts, the combinators of early returns
  (\<open>attempt\<close>, \<open>guard\<close>, \<open>perform\<close>), tables as lists, transactions, pages and the environment of a call. The environment carries
  what the code reads from outside: the clock, fresh identifiers, the parser of UUIDs, and for every SQL statement or Redis
  call the error that the driver returns, if any. All theorems over calls quantify over the environment, so
  they hold whichever statements fail. A call runs at one instant and is atomic, except where a
  theory says otherwise (transactions, interleaved requests); row locks and isolation levels are not modelled.

  \<^bold>\<open>Parts and theories.\<close>
  \<^item> \<^verbatim>\<open>pkg/money\<close>: \<open>Float64\<close>, \<open>Decimal\<close>, \<open>Money\<close>. Amounts in stroops, all constructors, operations and renderings. Operations are exact or
    report an overflow, and texts round-trip.
  \<^item> \<^verbatim>\<open>internal/domain/circle\<close>: \<open>CircleMath\<close> (payout order, winners, pool, penalties), \<open>CircleRepo\<close> (tables and statements), \<open>CircleService\<close> (every
    operation of the service), \<open>CircleLife\<close> (the calls as a state machine), \<open>CircleQueries\<close> (listings and snapshots). \<open>CircleLife\<close> states an abstract
    specification of a circle, proves that every call refines one of its steps, and derives the life cycle, the authority over changes, the unique membership and
    the effect of joining, starting, voting and charging missed contributions.
  \<^item> \<^verbatim>\<open>internal/domain/contribution\<close>, \<^verbatim>\<open>payout\<close>: \<open>Contribution\<close>, \<open>Payout\<close>. Recording is idempotent by transaction hash and limited to members; the weak
    points of the duplicate check of payouts are proved too.
  \<^item> \<^verbatim>\<open>internal/domain/user\<close>, \<^verbatim>\<open>reputation\<close>, \<^verbatim>\<open>community\<close>: \<open>Users\<close>, \<open>Reputation\<close>, \<open>Community\<close>. Unique and permanent accounts, deletion and restoration, the bounds of the
    score, consistent memberships and the authority of the owner of a community.
  \<^item> \<^verbatim>\<open>internal/domain/governance\<close>: \<open>Governance\<close> (in memory) and \<open>GovernanceRepo\<close> (over the repository). Tallies match votes, timelocks, at most one
    execution, and where the persistent variant falls short of it.
  \<^item> \<^verbatim>\<open>internal/indexer\<close>: \<open>LedgerHistory\<close>, \<open>Indexer\<close> (poll cycle, reorganisations, cursor, deduplication, dead letters), \<open>XdrParser\<close> (events of the metadata),
    \<open>Processor\<close> (handlers and transactions on the tables of the circles), \<open>ChainEvents\<close> (what the handlers achieve together with the services) and
    \<open>IndexerJobs\<close> (reconciler, backfills, watchdog, contract versions).
  \<^item> \<^verbatim>\<open>internal/domain/auth\<close>, \<^verbatim>\<open>internal/api/middleware\<close>, \<^verbatim>\<open>session_handler.go\<close>: \<open>Redis\<close> (the commands on a keyspace with expiry), \<open>Sessions\<close> (sessions, nonces, revocation,
    clean-up), \<open>SessionSafety\<close> and \<open>SessionLife\<close> (what holds over all sequences of calls, and the life of one session), \<open>AuthHttp\<close> (access tokens, the checks in
    front of a handler), \<open>RequestGuards\<close> (idempotency keys, rate limits). The theorems say which Redis call must have succeeded where the code ignores its failure.
  \<^item> \<^verbatim>\<open>internal/domain/verification\<close>, \<^verbatim>\<open>totp\<close>: \<open>OneTimeCodes\<close>. Bounds on the codes that can be tried, backup codes that work once.
  \<^item> \<^verbatim>\<open>pkg/redis/lock.go\<close>: \<open>SingleFlight\<close>, the lock of the scheduled jobs under replicas that interleave and crash: exclusion while leases last, and recovery.
  \<^item> \<^verbatim>\<open>internal/domain/swap\<close>: \<open>Swap\<close>. Requests and sweeps that interleave at every statement; at most one of them holds the claim on an offer.
  \<^item> \<^verbatim>\<open>pkg/jobqueue\<close>: \<open>JobQueue\<close>. The queue over PostgreSQL or in memory, the worker that drains it through the locale \<open>job_store\<close>, and its retries.
  \<^item> \<^verbatim>\<open>pkg/stellar\<close>: \<open>StellarClient\<close>. The Horizon client that verifies payments, behind a circuit breaker.
  \<^item> \<^verbatim>\<open>internal/domain/mobilemoney\<close>: \<open>MobileMoney\<close>. One payment per idempotency key, settlement by a reconciler under the lock of \<open>SingleFlight\<close>.

  \<^bold>\<open>How the parts meet.\<close> The circle service reads users and communities through interfaces that are interpreted on \<open>Users\<close> and \<open>Community\<close>
  (\<open>Community.community_circle_members_only\<close>). Contributions, payouts and the indexer work on the tables of \<open>CircleRepo\<close>; \<open>ChainEvents\<close> proves how the recorded
  events and the API calls interfere, and \<open>Platform\<close> what holds of circles and memberships when calls of the service, recorded contributions and
  payouts and chain events follow each other in any order: chain events refine a specification of their own that knows neither life cycle nor organizer, so
  that the theorems there are weaker than those of \<open>CircleLife\<close>, which are about calls of the service alone.
  \<open>Schema\<close> has the statements that PostgreSQL refuses on the tables as the migrations create them, as faults of these statements, and proves which
  operations can therefore never succeed; elsewhere such a statement is modelled by the effect it is written for. The session code, the revocation lists and the middleware share one Redis keyspace; the locales
  \<open>keyspace_invariant\<close>, \<open>typed_keys\<close> and \<open>revocation\<close> of \<open>SessionSafety\<close> are the interfaces by which a property of the keyspace is carried through all of
  them. The locale \<open>lifecycle\<close> of \<open>Prelude\<close> carries the life of one table entry through the steps of a system and is interpreted by circles, memberships,
  users, payments and the platform; further interfaces are the locales of \<open>LedgerHistory\<close>, \<open>Governance\<close>, \<open>Contribution\<close> and \<open>JobQueue\<close>.

  \<^bold>\<open>Parameters.\<close> Code that is not in the repository is an argument: Horizon and its answers, the XDR library, JSON
  encoding, the JWT library, SHA-256, Ed25519, random bytes, the order in which Go ranges over a map, collation and pattern matching of the database. What
  the code relies on of them is a named hypothesis (\<open>uuid_laws\<close>, \<open>jwt_laws\<close>, \<open>json_laws\<close>, \<open>scan_matches\<close> and the like), and each property with such a hypothesis
  has a witness that instantiates the parameter by a concrete function. PostgreSQL and Redis are modelled by the documented effect of
  the statements and commands that the code issues, including the constraints of the migrations that it relies on.

  \<^bold>\<open>Loops.\<close> There is no fuel. Loops over data are structural or have a measure (\<open>reconcile_loop\<close>: the ledgers left of a cycle; \<open>fork_loop\<close>, \<open>evict_loop\<close>: the
  length of the window). The four loops that need not end obviously are partial functions into options, where \<open>None\<close> means that the call does not return:
  \<open>backfill_loop\<close>, \<open>BackfillNotifications_Run\<close>, \<open>scan_loop\<close> and \<open>drainQueue\<close>; theorems say when the first two return and that the last always does.

  \<^bold>\<open>Not modelled.\<close> HTTP handlers other than those of sessions (they bind requests, call the services above and render
  responses), configuration, start-up and migrations, the WebSocket hub, tracing, metrics and logging; the timers and goroutines that call the modelled operations
  periodically; generated API documentation; thin clients of external services (e-mail, SMS, push, exchange rates, Soroban transactions). The
  remaining domains (invitations, incentives, notifications, chat, savings, wallets, treasury, withdrawals, deposits, tokens, feature flags) are
  the next to be added.
\<close>

end
